(* ===== verification/Prelude.thy ===== *)
theory Prelude
  imports
    Main
    "HOL-Library.List_Lexorder"
    "HOL-Library.Char_ord"
    "HOL-Library.Product_Lexorder"
    "HOL-Library.Multiset"
begin

text \<open>
  Shared vocabulary of the development: Go's error results as sums, source positions
  (\<open>go/token.Position\<close>), the string helpers of package \<open>strings\<close> on byte strings,
  decimal printing, and Go's comparator-driven sorting (\<open>sort.SliceStable\<close>,
  \<open>sort.Slice\<close>) with the laws every comparator of the toolchain satisfies.

  A Go \<open>string\<close> is a sequence of bytes: \<^typ>\<open>string\<close> is used for it, one \<^typ>\<open>char\<close>
  per byte, so \<open>length\<close> is Go's \<open>len\<close> and the lexicographic order of
  \<open>List_Lexorder\<close> over \<open>Char_ord\<close> is Go's \<open><\<close> on strings.
\<close>

named_theorems go_sorting \<open>facts about Go's comparator-driven sorting\<close>
named_theorems go_strings \<open>facts about the string helpers\<close>

section \<open>Errors as values\<close>

text \<open>A Go function that returns \<open>(T, error)\<close>: \<open>Inl\<close> is the error text.\<close>

type_synonym 'a go_result = "string + 'a"

section \<open>Source positions\<close>

record token_position =
  pos_filename :: string
  pos_offset :: int
  pos_line :: int
  pos_column :: int

definition no_position :: token_position where
  "no_position = \<lparr>pos_filename = [], pos_offset = 0, pos_line = 0, pos_column = 0\<rparr>"

section \<open>Strings\<close>

definition has_prefix :: "'a list \<Rightarrow> 'a list \<Rightarrow> bool" where
  "has_prefix s p = (take (length p) s = p)"

definition has_suffix :: "'a list \<Rightarrow> 'a list \<Rightarrow> bool" where
  "has_suffix s p = (length p \<le> length s \<and> drop (length s - length p) s = p)"

definition trim_prefix :: "'a list \<Rightarrow> 'a list \<Rightarrow> 'a list" where
  "trim_prefix s p = (if has_prefix s p then drop (length p) s else s)"

definition trim_suffix :: "'a list \<Rightarrow> 'a list \<Rightarrow> 'a list" where
  "trim_suffix s p = (if has_suffix s p then take (length s - length p) s else s)"

fun str_contains :: "'a list \<Rightarrow> 'a list \<Rightarrow> bool" where
  "str_contains [] p = (p = [])"
| "str_contains (c # s) p = (has_prefix (c # s) p \<or> str_contains s p)"

fun split_on :: "'a \<Rightarrow> 'a list \<Rightarrow> 'a list list" where
  "split_on d [] = [[]]"
| "split_on d (c # s) =
     (if c = d then [] # split_on d s
      else case split_on d s of [] \<Rightarrow> [[c]] | w # ws \<Rightarrow> (c # w) # ws)"

fun join_with :: "'a list \<Rightarrow> 'a list list \<Rightarrow> 'a list" where
  "join_with sep [] = []"
| "join_with sep [w] = w"
| "join_with sep (w # ws) = w @ sep @ join_with sep ws"

lemma has_prefix_append [simp, go_strings]: "has_prefix (p @ s) p"
  by (simp add: has_prefix_def)

lemma has_prefix_Nil [simp, go_strings]: "has_prefix s []"
  by (simp add: has_prefix_def)

lemma has_prefix_Cons [simp, go_strings]:
  "has_prefix (c # s) (d # p) = (c = d \<and> has_prefix s p)"
  "has_prefix [] (d # p) = False"
  by (auto simp: has_prefix_def)

lemma has_prefix_iff [go_strings]: "has_prefix s p \<longleftrightarrow> (\<exists>t. s = p @ t)"
  by (metis append_take_drop_id has_prefix_append has_prefix_def)

lemma has_suffix_iff [go_strings]: "has_suffix s p \<longleftrightarrow> (\<exists>t. s = t @ p)"
proof
  assume "has_suffix s p"
  then show "\<exists>t. s = t @ p" by (metis append_take_drop_id has_suffix_def)
qed (auto simp: has_suffix_def)

lemma split_on_nonempty [simp, go_strings]: "split_on d s \<noteq> []"
  by (induction s) (auto split: list.splits)

lemma split_on_no_sep [go_strings]: "w \<in> set (split_on d s) \<Longrightarrow> d \<notin> set w"
  by (induction s arbitrary: w) (auto split: list.splits if_splits)

lemma join_split [simp, go_strings]: "join_with [d] (split_on d s) = s"
proof (induction s)
  case (Cons c s)
  obtain w ws where ws: "split_on d s = w # ws" by (cases "split_on d s") auto
  with Cons show ?case by (cases ws) auto
qed simp

lemma split_on_word [go_strings]: "d \<notin> set w \<Longrightarrow> split_on d w = [w]"
  by (induction w) auto

lemma split_on_append [go_strings]:
  "d \<notin> set w \<Longrightarrow> split_on d (w @ d # s) = w # split_on d s"
  by (induction w) auto

lemma split_join [go_strings]:
  "\<lbrakk>ws \<noteq> []; \<And>w. w \<in> set ws \<Longrightarrow> d \<notin> set w\<rbrakk> \<Longrightarrow> split_on d (join_with [d] ws) = ws"
  by (induction "[d]" ws rule: join_with.induct) (auto simp: split_on_word split_on_append)

section \<open>Decimal printing\<close>

definition digit_char :: "int \<Rightarrow> char" where
  "digit_char n = char_of (48 + n)"

function show_digits :: "int \<Rightarrow> string" where
  "show_digits i =
     (if i < 10 then [digit_char i] else show_digits (i div 10) @ [digit_char (i mod 10)])"
  by pat_completeness auto
termination
  by (relation "measure nat") auto

declare show_digits.simps [simp del]

definition show_int :: "int \<Rightarrow> string" where
  "show_int i = (if i < 0 then CHR ''-'' # show_digits (- i) else show_digits i)"

definition show_nat :: "nat \<Rightarrow> string" where
  "show_nat n = show_int (int n)"

lemma show_digits_nonempty [simp]: "show_digits i \<noteq> []"
  by (subst show_digits.simps) simp

section \<open>Comparator-driven sorting\<close>

text \<open>
  \<open>sort.SliceStable(xs, less)\<close> as a stable insertion sort. \<open>sort.Slice\<close> makes no promise
  on elements that compare equal; where the toolchain calls it, the compared keys are
  distinct and lemma \<open>sort_unique\<close> below shows that then every correct sort returns this list.
\<close>

fun insert_by :: "('a \<Rightarrow> 'a \<Rightarrow> bool) \<Rightarrow> 'a \<Rightarrow> 'a list \<Rightarrow> 'a list" where
  "insert_by lt x [] = [x]"
| "insert_by lt x (y # ys) = (if lt y x then y # insert_by lt x ys else x # y # ys)"

definition sort_by :: "('a \<Rightarrow> 'a \<Rightarrow> bool) \<Rightarrow> 'a list \<Rightarrow> 'a list" where
  "sort_by lt xs = foldr (insert_by lt) xs []"

definition sorted_by :: "('a \<Rightarrow> 'a \<Rightarrow> bool) \<Rightarrow> 'a list \<Rightarrow> bool" where
  "sorted_by lt = sorted_wrt (\<lambda>x y. \<not> lt y x)"

lemma sort_by_simps [simp]:
  "sort_by lt [] = []"
  "sort_by lt (x # xs) = insert_by lt x (sort_by lt xs)"
  by (simp_all add: sort_by_def)

lemma mset_insert_by [simp]: "mset (insert_by lt x ys) = add_mset x (mset ys)"
  by (induction ys) auto

lemma mset_sort_by [simp, go_sorting]: "mset (sort_by lt xs) = mset xs"
  by (induction xs) auto

lemma set_sort_by [simp, go_sorting]: "set (sort_by lt xs) = set xs"
  by (metis mset_sort_by set_mset_mset)

lemma length_sort_by [simp, go_sorting]: "length (sort_by lt xs) = length xs"
  by (metis mset_sort_by size_mset)

lemma distinct_sort_by [simp, go_sorting]: "distinct (sort_by lt xs) = distinct xs"
  by (metis mset_eq_imp_distinct_iff mset_sort_by)

lemma sort_by_Nil_iff [simp, go_sorting]: "sort_by lt xs = [] \<longleftrightarrow> xs = []"
  by (metis length_0_conv length_sort_by)

lemma Nil_sort_by_iff [simp]: "[] = sort_by lt xs \<longleftrightarrow> xs = []"
  by (metis sort_by_Nil_iff)

text \<open>A comparator is a strict weak order; the interface every \<open>less\<close> closure meets.\<close>

locale comparator =
  fixes lt :: "'a \<Rightarrow> 'a \<Rightarrow> bool"
  assumes irrefl: "\<not> lt x x"
    and trans: "lt x y \<Longrightarrow> lt y z \<Longrightarrow> lt x z"
    and neg_trans: "lt x z \<Longrightarrow> lt x y \<or> lt y z"
begin

lemma asym: "lt x y \<Longrightarrow> \<not> lt y x"
  using irrefl trans by blast

lemma sorted_insert_by:
  assumes "sorted_by lt ys"
  shows "sorted_by lt (insert_by lt x ys)"
  using assms
proof (induction ys)
  case (Cons y ys)
  show ?case
  proof (cases "lt y x")
    case True
    have "set (insert_by lt x ys) = insert x (set ys)"
      by (metis mset_insert_by set_mset_add_mset_insert set_mset_mset)
    with True Cons show ?thesis
      by (auto simp: sorted_by_def dest: asym)
  next
    case False
    with Cons.prems show ?thesis
      by (auto simp: sorted_by_def dest: neg_trans)
  qed
qed (simp add: sorted_by_def)

lemma sorted_sort_by: "sorted_by lt (sort_by lt xs)"
  by (induction xs) (simp_all add: sorted_by_def [of lt] sorted_insert_by [unfolded sorted_by_def])

lemma insert_by_filter:
  assumes "sorted_by lt ys" "\<And>a b. P a \<Longrightarrow> P b \<Longrightarrow> \<not> lt a b"
  shows "filter P (insert_by lt x ys) = filter P (x # ys)"
  using assms by (induction ys) (auto simp: sorted_by_def)

text \<open>Stability: elements that compare equal keep their order.\<close>

lemma sort_by_stable:
  assumes "\<And>a b. P a \<Longrightarrow> P b \<Longrightarrow> \<not> lt a b"
  shows "filter P (sort_by lt xs) = filter P xs"
proof (induction xs)
  case (Cons x xs)
  have "filter P (sort_by lt (x # xs)) = filter P (x # sort_by lt xs)"
    unfolding sort_by_simps by (rule insert_by_filter [OF sorted_sort_by assms])
  with Cons show ?case by simp
qed simp

lemma sort_by_sorted_id: "sorted_by lt xs \<Longrightarrow> sort_by lt xs = xs"
proof (induction xs)
  case (Cons x xs)
  then have "sort_by lt xs = xs" by (simp add: sorted_by_def)
  with Cons.prems show ?case by (cases xs) (auto simp: sorted_by_def)
qed simp

text \<open>
  When distinct elements never compare equal, the sorted permutation is unique, so the result
  does not depend on the sorting algorithm or on the order of the input.
\<close>

lemma sort_unique:
  assumes "sorted_by lt ys" "mset ys = mset xs"
    and "\<And>a b. a \<in> set xs \<Longrightarrow> b \<in> set xs \<Longrightarrow> a \<noteq> b \<Longrightarrow> lt a b \<or> lt b a"
  shows "ys = sort_by lt xs"
proof -
  have "sorted_by lt zs \<Longrightarrow> sorted_by lt ys \<Longrightarrow> mset ys = mset zs \<Longrightarrow>
      (\<And>a b. a \<in> set zs \<Longrightarrow> b \<in> set zs \<Longrightarrow> a \<noteq> b \<Longrightarrow> lt a b \<or> lt b a) \<Longrightarrow> ys = zs" for zs
  proof (induction zs arbitrary: ys)
    case (Cons z zs)
    then obtain y ys' where ys: "ys = y # ys'" by (cases ys) auto
    have "y \<in> set (z # zs)" "z \<in> set ys"
      using Cons.prems(3) ys by (metis list.set_intros(1) set_mset_mset)+
    then have "y = z"
      using Cons.prems(1,2) Cons.prems(4) [of y z] ys by (auto simp: sorted_by_def)
    with Cons.prems ys have "ys' = zs" by (intro Cons.IH) (auto simp: sorted_by_def)
    with ys \<open>y = z\<close> show ?case by simp
  qed simp
  from this [of "sort_by lt xs"] show ?thesis
    using assms sorted_sort_by by simp
qed

end

text \<open>A comparator that compares a key; all comparators below are of this kind.\<close>

locale keyed_comparator =
  fixes lt :: "'a \<Rightarrow> 'a \<Rightarrow> bool" and key :: "'a \<Rightarrow> 'b :: linorder"
  assumes less_key: "lt x y \<longleftrightarrow> key x < key y"
begin

sublocale comparator lt
  by unfold_locales (auto simp: less_key)

lemma sorted_by_key: "sorted_by lt xs \<longleftrightarrow> sorted (map key xs)"
  by (simp add: sorted_by_def less_key sorted_wrt_map not_less)

lemma sort_by_perm:
  assumes "mset xs = mset ys" "inj_on key (set xs)"
  shows "sort_by lt xs = sort_by lt ys"
  using sort_unique [OF sorted_sort_by [of xs], of ys] assms
  by (metis inj_on_def less_key mset_sort_by neqE set_mset_mset)

end

text \<open>\<open>sort.Strings\<close>, \<open>slices.Sort\<close> on strings.\<close>

definition string_less :: "string \<Rightarrow> string \<Rightarrow> bool" where
  "string_less a b = (a < b)"

interpretation string_order: keyed_comparator string_less "\<lambda>s. s"
  by unfold_locales (simp add: string_less_def)

abbreviation sort_strings :: "string list \<Rightarrow> string list" where
  "sort_strings \<equiv> sort_by string_less"

section \<open>Lists\<close>

text \<open>\<open>slices.Compact\<close>: drop adjacent repetitions.\<close>

fun compact :: "'a list \<Rightarrow> 'a list" where
  "compact (x # y # xs) = (if x = y then compact (y # xs) else x # compact (y # xs))"
| "compact xs = xs"

lemma set_compact [simp]: "set (compact xs) = set xs"
  by (induction xs rule: compact.induct) auto

lemma compact_distinct [simp]: "distinct xs \<Longrightarrow> compact xs = xs"
  by (induction xs rule: compact.induct) auto

lemma hd_compact [simp]: "xs \<noteq> [] \<Longrightarrow> hd (compact xs) = hd xs"
  by (induction xs rule: compact.induct) auto

lemma compact_Nil_iff [simp]: "compact xs = [] \<longleftrightarrow> xs = []"
  by (induction xs rule: compact.induct) auto

text \<open>On a list whose equal elements are adjacent, \<open>compact\<close> removes every duplicate.\<close>

lemma distinct_compact_sorted:
  "sorted (map key xs) \<Longrightarrow> inj_on key (set xs) \<Longrightarrow> distinct (compact xs)"
  for key :: "'a \<Rightarrow> 'b :: linorder"
proof (induction xs rule: compact.induct)
  case (1 x y xs)
  then have IH: "distinct (compact (y # xs))" by (auto simp: inj_on_def)
  show ?case
  proof (cases "x = y")
    case False
    with "1.prems" have "key x < key y" by (auto simp: inj_on_def)
    with "1.prems" have "x \<notin> set (y # xs)" by auto
    then have "x \<notin> set (compact (y # xs))" by (simp only: set_compact not_False_eq_True)
    with IH False show ?thesis by simp
  qed (use IH in simp)
qed auto

end
