(* ===== verification/Go_Text.thy ===== *)
theory Go_Text
  imports Prelude
begin

text \<open>
  The parts of Go's text packages the toolchain relies on: UTF-8 decoding
  (\<open>unicode/utf8\<close>), rune classes (\<open>unicode\<close>), \<open>strings.TrimSpace\<close> and its kin,
  \<open>strconv.Unquote\<close>, \<open>strconv.Quote\<close> and \<open>strconv.ParseInt\<close> for base 10 and 64 bits.

  Rune classes are exact up to U+00FF and, for white space, everywhere. Beyond U+00FF the
  Unicode tables are a parameter (\<open>unicode_tables\<close>) of every function that consults them.
\<close>

section \<open>Bytes and runes\<close>

type_synonym rune = int

abbreviation byte_of :: "char \<Rightarrow> int" where
  "byte_of c \<equiv> of_char c"

definition byte :: "int \<Rightarrow> char" where
  "byte n = char_of n"

definition rune_error :: rune where
  "rune_error = 65533"

definition in_range :: "int \<Rightarrow> int \<Rightarrow> int \<Rightarrow> bool" where
  "in_range lo hi b = (lo \<le> b \<and> b \<le> hi)"

definition continuation :: "int \<Rightarrow> bool" where
  "continuation b = in_range 128 191 b"

text \<open>
  \<open>utf8.DecodeRuneInString\<close>: the rune and its width. The accepted ranges of the second byte
  exclude over-long forms and surrogates; an invalid or truncated sequence is
  \<open>(RuneError, 1)\<close>, the empty string \<open>(RuneError, 0)\<close>.
\<close>

definition second_byte_ok :: "int \<Rightarrow> int \<Rightarrow> bool" where
  "second_byte_ok b0 b1 =
     (if b0 = 224 then in_range 160 191 b1
      else if b0 = 237 then in_range 128 159 b1
      else if b0 = 240 then in_range 144 191 b1
      else if b0 = 244 then in_range 128 143 b1
      else continuation b1)"

definition decode_rune :: "string \<Rightarrow> rune \<times> nat" where
  "decode_rune s =
     (case s of
        [] \<Rightarrow> (rune_error, 0)
      | c0 # s1 \<Rightarrow>
          let b0 = byte_of c0 in
          if b0 < 128 then (b0, 1)
          else if in_range 194 223 b0 then
            (case s1 of
               c1 # _ \<Rightarrow>
                 if continuation (byte_of c1)
                 then ((b0 mod 32) * 64 + byte_of c1 mod 64, 2)
                 else (rune_error, 1)
             | _ \<Rightarrow> (rune_error, 1))
          else if in_range 224 239 b0 then
            (case s1 of
               c1 # c2 # _ \<Rightarrow>
                 if second_byte_ok b0 (byte_of c1) \<and> continuation (byte_of c2)
                 then ((b0 mod 16) * 4096 + (byte_of c1 mod 64) * 64 + byte_of c2 mod 64, 3)
                 else (rune_error, 1)
             | _ \<Rightarrow> (rune_error, 1))
          else if in_range 240 244 b0 then
            (case s1 of
               c1 # c2 # c3 # _ \<Rightarrow>
                 if second_byte_ok b0 (byte_of c1) \<and> continuation (byte_of c2)
                   \<and> continuation (byte_of c3)
                 then ((b0 mod 8) * 262144 + (byte_of c1 mod 64) * 4096
                       + (byte_of c2 mod 64) * 64 + byte_of c3 mod 64, 4)
                 else (rune_error, 1)
             | _ \<Rightarrow> (rune_error, 1))
          else (rune_error, 1))"

text \<open>\<open>utf8.DecodeLastRuneInString\<close>.\<close>

definition rune_start :: "char \<Rightarrow> bool" where
  "rune_start c = (\<not> continuation (byte_of c))"

fun last_rune_start :: "string \<Rightarrow> nat \<Rightarrow> nat \<Rightarrow> nat" where
  "last_rune_start s i 0 = i"
| "last_rune_start s i (Suc k) =
     (if i = 0 then 0 else if rune_start (s ! (i - 1)) then i - 1
      else last_rune_start s (i - 1) k)"

definition decode_last_rune :: "string \<Rightarrow> rune \<times> nat" where
  "decode_last_rune s =
     (if s = [] then (rune_error, 0)
      else let end = length s; r = byte_of (s ! (end - 1)) in
        if r < 128 then (r, 1)
        else let start = last_rune_start s (end - 1) 3;
                 (r', size) = decode_rune (drop start s)
             in if start + size \<noteq> end then (rune_error, 1) else (r', size))"

text \<open>\<open>utf8.AppendRune\<close>: the encoding; a value that is no rune is encoded as \<open>RuneError\<close>.\<close>

definition valid_rune :: "rune \<Rightarrow> bool" where
  "valid_rune r = (0 \<le> r \<and> r < 55296 \<or> 57343 < r \<and> r \<le> 1114111)"

definition encode_rune :: "rune \<Rightarrow> string" where
  "encode_rune r0 =
     (let r = (if valid_rune r0 then r0 else rune_error) in
      if r < 128 then [byte r]
      else if r < 2048 then [byte (192 + r div 64), byte (128 + r mod 64)]
      else if r < 65536
      then [byte (224 + r div 4096), byte (128 + r div 64 mod 64), byte (128 + r mod 64)]
      else [byte (240 + r div 262144), byte (128 + r div 4096 mod 64),
            byte (128 + r div 64 mod 64), byte (128 + r mod 64)])"

section \<open>Rune classes\<close>

record unicode_tables =
  table_letter :: "rune \<Rightarrow> bool"
  table_digit :: "rune \<Rightarrow> bool"
  table_upper :: "rune \<Rightarrow> bool"
  table_print :: "rune \<Rightarrow> bool"

definition latin_only :: unicode_tables where
  "latin_only = \<lparr>table_letter = (\<lambda>_. False), table_digit = (\<lambda>_. False),
     table_upper = (\<lambda>_. False), table_print = (\<lambda>_. False)\<rparr>"

definition is_letter :: "unicode_tables \<Rightarrow> rune \<Rightarrow> bool" where
  "is_letter u r =
     (if r \<le> 255
      then in_range 65 90 r \<or> in_range 97 122 r \<or> r = 170 \<or> r = 181 \<or> r = 186
        \<or> in_range 192 214 r \<or> in_range 216 246 r \<or> in_range 248 255 r
      else table_letter u r)"

definition is_digit :: "unicode_tables \<Rightarrow> rune \<Rightarrow> bool" where
  "is_digit u r = (if r \<le> 255 then in_range 48 57 r else table_digit u r)"

definition is_upper :: "unicode_tables \<Rightarrow> rune \<Rightarrow> bool" where
  "is_upper u r =
     (if r \<le> 255 then in_range 65 90 r \<or> in_range 192 214 r \<or> in_range 216 222 r
      else table_upper u r)"

definition is_space :: "rune \<Rightarrow> bool" where
  "is_space r =
     (in_range 9 13 r \<or> r = 32 \<or> r = 133 \<or> r = 160 \<or> r = 5760 \<or> in_range 8192 8202 r
      \<or> r = 8232 \<or> r = 8233 \<or> r = 8239 \<or> r = 8287 \<or> r = 12288)"

section \<open>Trimming\<close>

lemma decode_rune_size: "s \<noteq> [] \<Longrightarrow> decode_rune s = (r, k) \<Longrightarrow> 0 < k \<and> k \<le> length s"
  by (auto simp: decode_rune_def Let_def split: list.splits if_splits)

lemma last_rune_start_le: "last_rune_start s i k \<le> i"
  by (induction s i k rule: last_rune_start.induct) auto

lemma decode_last_rune_size:
  assumes "s \<noteq> []" "decode_last_rune s = (r, k)"
  shows "0 < k \<and> k \<le> length s"
proof -
  define start where "start = last_rune_start s (length s - 1) 3"
  have "drop start s \<noteq> []"
    using last_rune_start_le [of s "length s - 1" 3] assms(1)
    unfolding start_def drop_eq_Nil by (cases s) auto
  then have "0 < snd (decode_rune (drop start s)) \<and> snd (decode_rune (drop start s)) \<le> length s - start"
    using decode_rune_size [of "drop start s" "fst (decode_rune (drop start s))"
        "snd (decode_rune (drop start s))"] by simp
  moreover have "1 \<le> length s" using assms(1) by (cases s) auto
  ultimately show ?thesis
    using assms by (auto simp: decode_last_rune_def Let_def start_def split: if_splits prod.splits)
qed

function trim_left_func :: "(rune \<Rightarrow> bool) \<Rightarrow> string \<Rightarrow> string" where
  "trim_left_func f s =
     (if s = [] then []
      else if f (fst (decode_rune s))
      then trim_left_func f (drop (snd (decode_rune s)) s)
      else s)"
  by pat_completeness auto
termination
  by (relation "measure (\<lambda>(f, s). length s)")
    (auto dest!: decode_rune_size [OF _ prod.collapse [symmetric]])

function trim_right_func :: "(rune \<Rightarrow> bool) \<Rightarrow> string \<Rightarrow> string" where
  "trim_right_func f s =
     (if s = [] then []
      else if f (fst (decode_last_rune s))
      then trim_right_func f (take (length s - snd (decode_last_rune s)) s)
      else s)"
  by pat_completeness auto
termination
  by (relation "measure (\<lambda>(f, s). length s)")
    (auto dest!: decode_last_rune_size [OF _ prod.collapse [symmetric]])

declare trim_left_func.simps [simp del] trim_right_func.simps [simp del]

definition trim_left_space :: "string \<Rightarrow> string" where
  "trim_left_space s = trim_left_func is_space s"

definition trim_space :: "string \<Rightarrow> string" where
  "trim_space s = trim_right_func is_space (trim_left_func is_space s)"

section \<open>Decimal integers\<close>

definition is_dec :: "char \<Rightarrow> bool" where
  "is_dec c = in_range 48 57 (byte_of c)"

fun dec_value :: "int \<Rightarrow> string \<Rightarrow> int" where
  "dec_value acc [] = acc"
| "dec_value acc (c # s) = dec_value (10 * acc + (byte_of c - 48)) s"

text \<open>
  \<open>strconv.ParseInt(s, 10, 64)\<close>: an optional sign, at least one digit, and a range check
  (\<open>None\<close> for a syntax or a range error).
\<close>

definition parse_int64 :: "string \<Rightarrow> int option" where
  "parse_int64 s =
     (let neg = has_prefix s ''-'';
          digits = (if neg \<or> has_prefix s ''+'' then tl s else s)
      in if digits = [] \<or> \<not> list_all is_dec digits then None
         else let n = dec_value 0 digits; v = (if neg then - n else n)
              in if - (2 ^ 63) \<le> v \<and> v < 2 ^ 63 then Some v else None)"

section \<open>Quoted strings\<close>

definition unhex :: "char \<Rightarrow> int option" where
  "unhex c =
     (let b = byte_of c in
      if in_range 48 57 b then Some (b - 48)
      else if in_range 97 102 b then Some (b - 97 + 10)
      else if in_range 65 70 b then Some (b - 65 + 10)
      else None)"

fun hex_value :: "int \<Rightarrow> string \<Rightarrow> int option" where
  "hex_value acc [] = Some acc"
| "hex_value acc (c # s) =
     (case unhex c of None \<Rightarrow> None | Some x \<Rightarrow> hex_value (16 * acc + x) s)"

fun oct_value :: "int \<Rightarrow> string \<Rightarrow> int option" where
  "oct_value acc [] = Some acc"
| "oct_value acc (c # s) =
     (if in_range 48 55 (byte_of c) then oct_value (8 * acc + (byte_of c - 48)) s else None)"

text \<open>
  \<open>strconv.UnquoteChar\<close> with quote \<open>"\<close>: the value, whether it is to be encoded as a
  multi-byte rune, and the rest; \<open>None\<close> is \<open>ErrSyntax\<close>.
\<close>

definition unquote_char :: "string \<Rightarrow> (int \<times> bool \<times> string) option" where
  "unquote_char s =
     (case s of
        [] \<Rightarrow> None
      | c # t \<Rightarrow>
          if c = CHR 0x22 then None
          else if 128 \<le> byte_of c
          then Some (fst (decode_rune s), True, drop (snd (decode_rune s)) s)
          else if c \<noteq> CHR 0x5C then Some (byte_of c, False, t)
          else case t of
             [] \<Rightarrow> None
           | e # rest \<Rightarrow>
               if e = CHR ''a'' then Some (7, False, rest)
               else if e = CHR ''b'' then Some (8, False, rest)
               else if e = CHR ''f'' then Some (12, False, rest)
               else if e = CHR ''n'' then Some (10, False, rest)
               else if e = CHR ''r'' then Some (13, False, rest)
               else if e = CHR ''t'' then Some (9, False, rest)
               else if e = CHR ''v'' then Some (11, False, rest)
               else if e = CHR ''x'' \<or> e = CHR ''u'' \<or> e = CHR ''U'' then
                 let n = (if e = CHR ''x'' then 2 else if e = CHR ''u'' then 4 else 8) in
                 if length rest < n then None
                 else (case hex_value 0 (take n rest) of
                     None \<Rightarrow> None
                   | Some v \<Rightarrow>
                       if e = CHR ''x'' then Some (v, False, drop n rest)
                       else if \<not> valid_rune v then None
                       else Some (v, True, drop n rest))
               else if in_range 48 55 (byte_of e) then
                 if length rest < 2 then None
                 else (case oct_value (byte_of e - 48) (take 2 rest) of
                     None \<Rightarrow> None
                   | Some v \<Rightarrow> if 255 < v then None else Some (v, False, drop 2 rest))
               else if e = CHR 0x5C then Some (92, False, rest)
               else if e = CHR 0x22 then Some (34, False, rest)
               else None)"

lemma unquote_char_shorter: "unquote_char s = Some (v, m, rest) \<Longrightarrow> length rest < length s"
proof -
  assume a: "unquote_char s = Some (v, m, rest)"
  then obtain c t where s: "s = c # t" by (cases s) (auto simp: unquote_char_def)
  have "0 < snd (decode_rune s)"
    using decode_rune_size [of s "fst (decode_rune s)" "snd (decode_rune s)"] s by simp
  with a s show ?thesis
    by (auto simp: unquote_char_def Let_def split: if_splits list.splits option.splits)
qed

text \<open>The escape loop of \<open>unquote\<close>: stops at the closing quote, returns value and rest.\<close>

function unquote_body :: "string \<Rightarrow> string \<Rightarrow> (string \<times> string) option" where
  "unquote_body buf s =
     (case s of
        [] \<Rightarrow> None
      | c # t \<Rightarrow>
          if c = CHR 0x22 then Some (buf, t)
          else case unquote_char s of
             None \<Rightarrow> None
           | Some (r, multibyte, rest) \<Rightarrow>
               if c = CHR 0x0A then None
               else unquote_body
                 (buf @ (if r < 128 \<or> \<not> multibyte then [byte r] else encode_rune r)) rest)"
  by pat_completeness auto
termination
  by (relation "measure (\<lambda>(buf, s). length s)") (auto dest: unquote_char_shorter)

declare unquote_body.simps [simp del]

text \<open>
  \<open>utf8.ValidString\<close> and the fast path of \<open>unquote\<close>: a quoted string with neither a
  backslash nor a newline before its first closing quote that is valid UTF-8 is its own value.
\<close>

function valid_utf8 :: "string \<Rightarrow> bool" where
  "valid_utf8 s =
     (if s = [] then True
      else if byte_of (hd s) < 128 then valid_utf8 (tl s)
      else snd (decode_rune s) \<noteq> 1 \<and> valid_utf8 (drop (snd (decode_rune s)) s))"
  by pat_completeness auto
termination
  by (relation "measure length")
    (auto dest!: decode_rune_size [OF _ prod.collapse [symmetric]])

declare valid_utf8.simps [simp del]

text \<open>\<open>strconv.Unquote\<close> of a literal in back quotes or double quotes (\<open>None\<close>: \<open>ErrSyntax\<close>).\<close>

definition unquote :: "string \<Rightarrow> string option" where
  "unquote s =
     (if length s < 2 then None
      else let quote = hd s; body = takeWhile (\<lambda>c. c \<noteq> quote) (tl s);
               rest = dropWhile (\<lambda>c. c \<noteq> quote) (tl s) in
        if rest = [] then None
        else if quote = CHR 0x60 then
          (if tl rest \<noteq> [] then None else Some (filter (\<lambda>c. c \<noteq> CHR 0x0D) body))
        else if quote = CHR 0x22 then
          (if CHR 0x5C \<notin> set body \<and> CHR 0x0A \<notin> set body \<and> valid_utf8 body
           then (if tl rest \<noteq> [] then None else Some body)
           else (case unquote_body [] (tl s) of
               Some (buf, []) \<Rightarrow> Some buf
             | _ \<Rightarrow> None))
        else None)"

text \<open>\<open>strconv.Quote\<close>, as \<open>%q\<close> prints it.\<close>

definition hex_digit :: "int \<Rightarrow> char" where
  "hex_digit n = (if n < 10 then byte (48 + n) else byte (87 + n))"

definition hex2 :: "int \<Rightarrow> string" where
  "hex2 n = [hex_digit (n div 16 mod 16), hex_digit (n mod 16)]"

definition hex4 :: "int \<Rightarrow> string" where
  "hex4 n = hex2 (n div 256) @ hex2 (n mod 256)"

definition is_print :: "unicode_tables \<Rightarrow> rune \<Rightarrow> bool" where
  "is_print u r =
     (if r \<le> 255 then in_range 32 126 r \<or> in_range 161 255 r \<and> r \<noteq> 173
      else table_print u r)"

definition quote_rune :: "unicode_tables \<Rightarrow> rune \<Rightarrow> string" where
  "quote_rune u r =
     (if r = 34 \<or> r = 92 then [CHR 0x5C, byte r]
      else if is_print u r then encode_rune r
      else if r = 7 then [CHR 0x5C, CHR ''a'']
      else if r = 8 then [CHR 0x5C, CHR ''b'']
      else if r = 12 then [CHR 0x5C, CHR ''f'']
      else if r = 10 then [CHR 0x5C, CHR ''n'']
      else if r = 13 then [CHR 0x5C, CHR ''r'']
      else if r = 9 then [CHR 0x5C, CHR ''t'']
      else if r = 11 then [CHR 0x5C, CHR ''v'']
      else if r < 32 \<or> r = 127 then [CHR 0x5C, CHR ''x''] @ hex2 r
      else if \<not> valid_rune r then [CHR 0x5C, CHR ''u''] @ hex4 rune_error
      else if r < 65536 then [CHR 0x5C, CHR ''u''] @ hex4 r
      else [CHR 0x5C, CHR ''U''] @ hex4 (r div 65536) @ hex4 (r mod 65536))"

function quote_body :: "unicode_tables \<Rightarrow> string \<Rightarrow> string" where
  "quote_body u s =
     (if s = [] then []
      else (if snd (decode_rune s) = 1 \<and> 128 \<le> byte_of (hd s)
            then [CHR 0x5C, CHR ''x''] @ hex2 (byte_of (hd s))
            else quote_rune u (fst (decode_rune s)))
           @ quote_body u (drop (snd (decode_rune s)) s))"
  by pat_completeness auto
termination
  by (relation "measure (\<lambda>(u, s). length s)")
    (auto dest!: decode_rune_size [OF _ prod.collapse [symmetric]])

declare quote_body.simps [simp del]

definition quote :: "unicode_tables \<Rightarrow> string \<Rightarrow> string" where
  "quote u s = CHR 0x22 # quote_body u s @ [CHR 0x22]"

end
