(* ===== verification/Comment_Cursor.thy ===== *)
theory Comment_Cursor
  imports Go_Text
begin

text \<open>
  The scanner shared by the two comment parsers of \<open>compiler/parser\<close>: \<open>commentParser\<close> and
  \<open>importParser\<close> are the same struct (input, offset, position) with the same lexical
  methods. A method that moves the cursor returns the moved cursor; \<open>advances\<close> is the contract
  all of them meet and from which termination and progress of the grammar routines follow.
\<close>

named_theorems cursor_moves \<open>every lexical routine only moves the cursor forward\<close>

record cursor =
  cur_input :: string
  cur_offset :: nat
  cur_position :: token_position

definition slice :: "string \<Rightarrow> nat \<Rightarrow> nat \<Rightarrow> string" where
  "slice s i j = take (j - i) (drop i s)"

definition eof :: "cursor \<Rightarrow> bool" where
  "eof p = (length (cur_input p) \<le> cur_offset p)"

definition peek :: "cursor \<Rightarrow> char" where
  "peek p = (if eof p then CHR 0x00 else cur_input p ! cur_offset p)"

definition moved :: "nat \<Rightarrow> cursor \<Rightarrow> cursor" where
  "moved k p = p\<lparr>cur_offset := cur_offset p + k\<rparr>"

definition consume :: "char \<Rightarrow> cursor \<Rightarrow> bool \<times> cursor" where
  "consume expected p =
     (if eof p \<or> cur_input p ! cur_offset p \<noteq> expected then (False, p) else (True, moved 1 p))"

definition rest_of :: "cursor \<Rightarrow> string" where
  "rest_of p = drop (cur_offset p) (cur_input p)"

lemma rest_of_Nil_iff: "rest_of p = [] \<longleftrightarrow> eof p"
  by (simp add: rest_of_def eof_def)

text \<open>The loop \<open>for !p.eof() { r, size := utf8.DecodeRuneInString(...); ... p.offset += size }\<close>.\<close>

function advance_while :: "(rune \<Rightarrow> bool) \<Rightarrow> cursor \<Rightarrow> cursor" where
  "advance_while f p =
     (if eof p then p
      else if f (fst (decode_rune (rest_of p)))
      then advance_while f (moved (snd (decode_rune (rest_of p))) p)
      else p)"
  by pat_completeness auto
termination
proof (relation "measure (\<lambda>(f, p). length (cur_input p) - cur_offset p)", simp)
  fix f p
  assume "\<not> eof p"
  moreover from this have "0 < snd (decode_rune (rest_of p))"
    using decode_rune_size [of "rest_of p" "fst (decode_rune (rest_of p))"
        "snd (decode_rune (rest_of p))"] by (simp add: rest_of_Nil_iff)
  ultimately show "((f, moved (snd (decode_rune (rest_of p))) p), f, p)
      \<in> measure (\<lambda>(f, p). length (cur_input p) - cur_offset p)"
    by (simp add: eof_def moved_def)
qed

declare advance_while.simps [simp del]

definition skip_space :: "cursor \<Rightarrow> cursor" where
  "skip_space p = advance_while is_space p"

text \<open>\<open>commentParser.errorf\<close>: the column is the (at least 1) start column plus the offset.\<close>

definition comment_errorf :: "cursor \<Rightarrow> string \<Rightarrow> string" where
  "comment_errorf p message =
     (let column = (if pos_column (cur_position p) \<le> 0 then 1 else pos_column (cur_position p))
      in pos_filename (cur_position p) @ '':'' @ show_int (pos_line (cur_position p)) @ '':''
         @ show_int (column + int (cur_offset p)) @ '': '' @ message)"

text \<open>
  \<open>annotationCommentBody\<close>: strips leading space, the \<open>//\<close> marker and the space around the
  body, and shifts the position to the first byte of the body; \<open>None\<close> when the line is no
  line comment.
\<close>

definition annotation_comment_body ::
    "string \<Rightarrow> token_position \<Rightarrow> (string \<times> token_position) option" where
  "annotation_comment_body input position =
     (let leftTrimmed = trim_left_space input;
          leading = length input - length leftTrimmed
      in if \<not> has_prefix leftTrimmed ''//'' then None
         else let afterPrefix = drop 2 leftTrimmed;
                  body = trim_left_space afterPrefix;
                  annotationOffset = int (leading + 2 + length afterPrefix - length body);
                  position1 = (if 0 < pos_column position
                    then position\<lparr>pos_column := pos_column position + annotationOffset\<rparr>
                    else position);
                  position2 = (if 0 \<le> pos_offset position1
                    then position1\<lparr>pos_offset := pos_offset position1 + annotationOffset\<rparr>
                    else position1)
              in Some (trim_space body, position2))"

section \<open>The contract of the lexical routines\<close>

definition advances :: "cursor \<Rightarrow> cursor \<Rightarrow> bool" where
  "advances p q \<longleftrightarrow>
     cur_input q = cur_input p \<and> cur_position q = cur_position p \<and>
     cur_offset p \<le> cur_offset q \<and>
     (cur_offset p \<le> length (cur_input p) \<longrightarrow> cur_offset q \<le> length (cur_input p))"

lemma advances_refl [simp, cursor_moves]: "advances p p"
  by (simp add: advances_def)

lemma advances_trans [trans]: "advances p q \<Longrightarrow> advances q r \<Longrightarrow> advances p r"
  by (auto simp: advances_def)

lemma advances_moved [cursor_moves]:
  "k \<le> length (rest_of p) \<Longrightarrow> advances p (moved k p)"
  by (auto simp: advances_def moved_def rest_of_def)

lemma consume_cases:
  obtains (no) "consume c p = (False, p)"
  | (yes) "consume c p = (True, moved 1 p)" "\<not> eof p" "advances p (moved 1 p)"
proof (cases "eof p \<or> cur_input p ! cur_offset p \<noteq> c")
  case False
  then have "consume c p = (True, moved 1 p)" "\<not> eof p" by (simp_all add: consume_def)
  moreover from this have "advances p (moved 1 p)"
    by (intro advances_moved) (simp add: eof_def rest_of_def)
  ultimately show ?thesis by (rule yes)
qed (rule no, simp add: consume_def)

lemma consume_advances [cursor_moves]: "consume c p = (b, q) \<Longrightarrow> advances p q"
  by (cases c p rule: consume_cases) auto

lemma consume_progress: "consume c p = (True, q) \<Longrightarrow> cur_offset p < cur_offset q \<and> \<not> eof p"
  by (cases c p rule: consume_cases) (auto simp: moved_def)

lemma advance_while_advances [cursor_moves]: "advances p (advance_while f p)"
proof (induction f p rule: advance_while.induct)
  case (1 f p)
  show ?case
  proof (cases "eof p \<or> \<not> f (fst (decode_rune (rest_of p)))")
    case True
    then show ?thesis by (auto simp: advance_while.simps [of f p])
  next
    case False
    have "advances p (moved (snd (decode_rune (rest_of p))) p)"
      using decode_rune_size [of "rest_of p" "fst (decode_rune (rest_of p))"
          "snd (decode_rune (rest_of p))"] False
      by (intro advances_moved) (simp add: rest_of_Nil_iff)
    also have "advances \<dots> (advance_while f p)"
      using 1 False by (simp add: advance_while.simps [of f p])
    finally show ?thesis .
  qed
qed

lemma skip_space_advances [cursor_moves]: "advances p (skip_space p)"
  by (simp add: skip_space_def cursor_moves)

text \<open>How many bytes are left; the measure of the grammar routines.\<close>

definition remaining :: "cursor \<Rightarrow> nat" where
  "remaining p = length (cur_input p) - cur_offset p"

lemma advances_remaining: "advances p q \<Longrightarrow> remaining q \<le> remaining p"
  by (auto simp: advances_def remaining_def)

lemma consume_remaining: "consume c p = (True, q) \<Longrightarrow> remaining q < remaining p"
  by (cases c p rule: consume_cases) (auto simp: moved_def remaining_def eof_def)

section \<open>Scanning known text\<close>

text \<open>
  A cursor whose remaining input is known: the round trip theorems run the routines on such
  cursors, through \<open>rest_of\<close>, the text that is left to read.
\<close>

lemma rest_moved: "rest_of (moved k p) = drop k (rest_of p)"
  by (simp add: rest_of_def moved_def add.commute)

lemma eof_rest: "eof p \<longleftrightarrow> rest_of p = []"
  by (simp add: rest_of_Nil_iff)

lemma peek_rest: "peek p = (case rest_of p of [] \<Rightarrow> CHR 0x00 | c # _ \<Rightarrow> c)"
proof (cases "eof p")
  case False
  then have "rest_of p = cur_input p ! cur_offset p # drop (Suc (cur_offset p)) (cur_input p)"
    by (simp add: rest_of_def eof_def Cons_nth_drop_Suc)
  with False show ?thesis by (simp add: peek_def)
qed (simp add: peek_def rest_of_def eof_def)

lemma consume_rest:
  "consume c p = (case rest_of p of [] \<Rightarrow> (False, p)
     | d # _ \<Rightarrow> if d = c then (True, moved 1 p) else (False, p))"
  using peek_rest [of p] by (auto simp: consume_def peek_def eof_rest split: list.splits if_splits)

definition ascii :: "char \<Rightarrow> bool" where
  "ascii c = (byte_of c < 128)"

lemma decode_rune_ascii: "ascii c \<Longrightarrow> decode_rune (c # s) = (byte_of c, 1)"
  by (simp add: decode_rune_def ascii_def)

text \<open>Reading a run of accepted ASCII bytes up to a byte (or an end) that is not accepted.\<close>

lemma advance_while_run:
  assumes "rest_of p = w @ s"
    and "\<And>c. c \<in> set w \<Longrightarrow> ascii c \<and> f (byte_of c)"
    and "s = [] \<or> \<not> f (fst (decode_rune s))"
  shows "advance_while f p = moved (length w) p"
  using assms
proof (induction w arbitrary: p)
  case Nil
  then have "advance_while f p = p" by (auto simp: advance_while.simps [of f p] eof_rest)
  then show ?case by (simp add: moved_def)
next
  case (Cons c w)
  then have c: "ascii c" "f (byte_of c)" by auto
  have "advance_while f p = advance_while f (moved 1 p)"
    using Cons.prems(1) c
    by (simp add: advance_while.simps [of f p] eof_rest decode_rune_ascii)
  also have "\<dots> = moved (length w) (moved 1 p)"
    using Cons.prems by (intro Cons.IH) (auto simp: rest_moved)
  finally show ?case by (simp add: moved_def)
qed

end
