(* ===== verification/Annotation_Parser.thy ===== *)
theory Annotation_Parser
  imports Comment_Cursor
begin

text \<open>
  \<open>compiler/parser/parser.go\<close>: the parser of Spice annotations in Go line comments.
  Every method of \<open>commentParser\<close> is a function from a cursor to the error text or the value
  and the moved cursor. \<open>parseValue\<close> and \<open>parseList\<close> recurse through each other; their
  termination rests on the fact that they only move forward.
\<close>

section \<open>Parsed annotations\<close>

text \<open>\<open>annotation.Value\<close>: a tagged union over \<open>Kind\<close>. Integers are 64 bit.\<close>

datatype annotation_value =
    KindString string
  | KindInteger int
  | KindBoolean bool
  | KindIdentifier string
  | KindList "annotation_value list"

record argument =
  arg_name :: string
  arg_value :: annotation_value

record annotation =
  ann_name :: string
  ann_arguments :: "argument list"
  ann_position :: token_position
  ann_raw :: string

type_synonym 'a parsed = "('a \<times> cursor) go_result"

section \<open>Lexical routines\<close>

definition name_rune :: "unicode_tables \<Rightarrow> rune \<Rightarrow> bool" where
  "name_rune u r = (is_letter u r \<or> is_digit u r \<or> r = byte_of CHR ''_'' \<or> r = byte_of CHR ''.'')"

definition parse_name :: "unicode_tables \<Rightarrow> cursor \<Rightarrow> string \<times> cursor" where
  "parse_name u p =
     (let q = advance_while (name_rune u) p
      in (slice (cur_input p) (cur_offset p) (cur_offset q), q))"

definition identifier_start :: "unicode_tables \<Rightarrow> rune \<Rightarrow> bool" where
  "identifier_start u r = (is_letter u r \<or> r = byte_of CHR ''_'')"

definition identifier_rune :: "unicode_tables \<Rightarrow> rune \<Rightarrow> bool" where
  "identifier_rune u r =
     (is_letter u r \<or> is_digit u r \<or> r = byte_of CHR ''_'' \<or> r = byte_of CHR ''.''
      \<or> r = byte_of CHR ''-'' \<or> r = byte_of CHR '':'' \<or> r = byte_of CHR ''/'')"

definition parse_identifier :: "unicode_tables \<Rightarrow> cursor \<Rightarrow> string \<times> cursor" where
  "parse_identifier u p =
     (if eof p then ([], p)
      else let (r, size) = decode_rune (rest_of p) in
        if \<not> identifier_start u r then ([], p)
        else let q = advance_while (identifier_rune u) (moved size p)
             in (slice (cur_input p) (cur_offset p) (cur_offset q), q))"

text \<open>
  The bracket loop of \<open>parseValueIdentifier\<close>, entered at the opening bracket after the name.
\<close>

function identifier_brackets :: "nat \<Rightarrow> int \<Rightarrow> cursor \<Rightarrow> string \<times> cursor" where
  "identifier_brackets start depth p =
     (if eof p then ([], p\<lparr>cur_offset := start\<rparr>)
      else let c = peek p;
               depth1 = (if c = CHR ''['' then depth + 1 else if c = CHR '']'' then depth - 1 else depth)
        in if c = CHR '']'' \<and> depth1 < 0 then ([], p)
           else if c = CHR '')'' \<and> 0 < depth1 then ([], p\<lparr>cur_offset := start\<rparr>)
           else if depth1 = 0
           then (trim_space (slice (cur_input p) start (cur_offset p + 1)), moved 1 p)
           else identifier_brackets start depth1 (moved 1 p))"
  by pat_completeness auto
termination
  by (relation "measure (\<lambda>(start, depth, p). remaining p)")
    (auto simp: remaining_def moved_def eof_def)

declare identifier_brackets.simps [simp del]

definition parse_value_identifier :: "unicode_tables \<Rightarrow> cursor \<Rightarrow> string \<times> cursor" where
  "parse_value_identifier u p =
     (let start = cur_offset p; (name, q) = parse_identifier u p in
      if name = [] then ([], q)
      else if eof q \<or> peek q \<noteq> CHR ''['' then (slice (cur_input q) start (cur_offset q), q)
      else identifier_brackets start 0 q)"

function digits_end :: "cursor \<Rightarrow> cursor" where
  "digits_end p = (if \<not> eof p \<and> is_dec (peek p) then digits_end (moved 1 p) else p)"
  by pat_completeness auto
termination
  by (relation "measure remaining") (auto simp: remaining_def moved_def eof_def)

declare digits_end.simps [simp del]

definition parse_integer :: "cursor \<Rightarrow> string \<times> cursor" where
  "parse_integer p =
     (let digits = (if peek p = CHR ''-'' then moved 1 p else p); q = digits_end digits in
      if cur_offset digits = cur_offset q then ([], p)
      else (slice (cur_input p) (cur_offset p) (cur_offset q), q))"

text \<open>The scan for the closing quote; \<open>None\<close> when the literal is not terminated.\<close>

function string_end :: "char \<Rightarrow> cursor \<Rightarrow> cursor option" where
  "string_end quote_char p =
     (if eof p then None
      else let current = peek p; q = moved 1 p in
        if current = quote_char then Some q
        else if current = CHR 0x5C \<and> quote_char = CHR 0x22 \<and> \<not> eof q
        then string_end quote_char (moved 1 q)
        else string_end quote_char q)"
  by pat_completeness auto
termination
  by (relation "measure (\<lambda>(c, p). remaining p)") (auto simp: remaining_def moved_def eof_def)

declare string_end.simps [simp del]

definition at_end :: "cursor \<Rightarrow> cursor" where
  "at_end p = p\<lparr>cur_offset := length (cur_input p)\<rparr>"

definition parse_string :: "cursor \<Rightarrow> string parsed" where
  "parse_string p =
     (case string_end (peek p) (moved 1 p) of
        None \<Rightarrow> Inl (comment_errorf (at_end p) ''unterminated string literal'')
      | Some q \<Rightarrow>
          (case unquote (slice (cur_input p) (cur_offset p) (cur_offset q)) of
             None \<Rightarrow> Inl (comment_errorf q ''invalid string literal: invalid syntax'')
           | Some v \<Rightarrow> Inr (v, q)))"

section \<open>Lexical routines only move forward\<close>

lemma parse_name_advances [cursor_moves]: "parse_name u p = (s, q) \<Longrightarrow> advances p q"
  by (auto simp: parse_name_def Let_def cursor_moves)

lemma parse_identifier_advances [cursor_moves]:
  assumes "parse_identifier u p = (s, q)"
  shows "advances p q"
proof (cases "eof p \<or> \<not> identifier_start u (fst (decode_rune (rest_of p)))")
  case True
  with assms show ?thesis by (auto simp: parse_identifier_def Let_def split: prod.splits if_splits)
next
  case False
  define size where "size = snd (decode_rune (rest_of p))"
  have "size \<le> length (rest_of p)"
    using decode_rune_size [of "rest_of p" "fst (decode_rune (rest_of p))" size] False
    by (simp add: size_def eof_rest)
  then have "advances p (moved size p)" by (rule advances_moved)
  also have "advances (moved size p) q"
    using assms False
    by (auto simp: parse_identifier_def Let_def size_def cursor_moves split: prod.splits)
  finally show ?thesis .
qed

lemma moved1_advances [cursor_moves]: "\<not> eof p \<Longrightarrow> advances p (moved 1 p)"
  by (rule advances_moved) (simp add: eof_def rest_of_def)

lemma identifier_brackets_advances:
  "identifier_brackets start depth p = (s, q) \<Longrightarrow> advances p0 p \<Longrightarrow> cur_offset p0 = start \<Longrightarrow>
   advances p0 q"
proof (induction start depth p rule: identifier_brackets.induct)
  case (1 start depth p)
  let ?d = "if peek p = CHR ''['' then depth + 1 else if peek p = CHR '']'' then depth - 1 else depth"
  have reset: "advances p0 (p\<lparr>cur_offset := start\<rparr>)"
    using "1.prems"(2,3) by (auto simp: advances_def)
  show ?case
  proof (cases "eof p")
    case True
    with "1.prems"(1) reset show ?thesis by (auto simp: identifier_brackets.simps)
  next
    case False
    then have m: "advances p0 (moved 1 p)"
      using "1.prems"(2) moved1_advances advances_trans by blast
    show ?thesis
    proof (cases "(peek p = CHR '']'' \<and> ?d < 0) \<or> (peek p = CHR '')'' \<and> 0 < ?d) \<or> ?d = 0")
      case True
      with "1.prems" False reset m show ?thesis
        by (auto simp: identifier_brackets.simps [of start depth p] Let_def split: if_splits)
    next
      case go: False
      with "1.prems"(1) False have "identifier_brackets start ?d (moved 1 p) = (s, q)"
        by (auto simp: identifier_brackets.simps [of start depth p] Let_def split: if_splits)
      with 1(1) [OF False refl refl] go m "1.prems"(3) show ?thesis by blast
    qed
  qed
qed

lemma parse_value_identifier_advances [cursor_moves]:
  assumes "parse_value_identifier u p = (s, q)"
  shows "advances p q"
proof -
  obtain name q0 where q0: "parse_identifier u p = (name, q0)" by fastforce
  then have "advances p q0" by (rule cursor_moves)
  then show ?thesis
    using assms q0 identifier_brackets_advances [of "cur_offset p" 0 q0 s q p]
    by (auto simp: parse_value_identifier_def Let_def split: if_splits)
qed

lemma digits_end_advances [cursor_moves]: "advances p (digits_end p)"
proof (induction p rule: digits_end.induct)
  case (1 p)
  then show ?case
    by (subst digits_end.simps) (auto intro: advances_trans moved1_advances)
qed

lemma peek_minus_not_eof: "peek p = CHR ''-'' \<Longrightarrow> \<not> eof p"
  by (auto simp: peek_def)

lemma parse_integer_advances [cursor_moves]: "parse_integer p = (s, q) \<Longrightarrow> advances p q"
  by (auto simp: parse_integer_def Let_def cursor_moves split: if_splits
      intro: advances_trans [OF moved1_advances [OF peek_minus_not_eof]])

lemma string_end_advances: "string_end c p = Some q \<Longrightarrow> advances p q"
proof (induction c p rule: string_end.induct)
  case (1 c p)
  show ?case
  proof (cases "eof p")
    case False
    then have m: "advances p (moved 1 p)" by (rule moved1_advances)
    with False 1 show ?thesis
      by (subst (asm) (3) string_end.simps)
        (auto simp: Let_def split: if_splits
          intro: advances_trans [OF m] advances_trans [OF m advances_trans [OF moved1_advances]])
  qed (use 1 in \<open>simp add: string_end.simps\<close>)
qed

lemma parse_string_advances:
  assumes "parse_string p = Inr (v, q)" "\<not> eof p"
  shows "advances p q"
  using assms moved1_advances [of p] string_end_advances [of "peek p" "moved 1 p"]
  by (auto simp: parse_string_def split: option.splits intro: advances_trans)

text \<open>A character in single quotes, as the error messages show it.\<close>

definition quoted_char :: "char \<Rightarrow> string" where
  "quoted_char c = [CHR 0x27, c, CHR 0x27]"

section \<open>Values and lists\<close>

definition value_measure ::
    "(unicode_tables \<times> cursor)
     + ((unicode_tables \<times> cursor) + (unicode_tables \<times> annotation_value list \<times> cursor)) \<Rightarrow> nat" where
  "value_measure x =
     (case x of Inl (u, p) \<Rightarrow> 3 * remaining p + 1
      | Inr (Inl (u, p)) \<Rightarrow> 3 * remaining p
      | Inr (Inr (u, items, p)) \<Rightarrow> 3 * remaining p + 2)"

function (domintros) parse_value :: "unicode_tables \<Rightarrow> cursor \<Rightarrow> annotation_value parsed"
  and parse_list :: "unicode_tables \<Rightarrow> cursor \<Rightarrow> annotation_value parsed"
  and parse_list_items ::
    "unicode_tables \<Rightarrow> annotation_value list \<Rightarrow> cursor \<Rightarrow> annotation_value parsed" where
  "parse_value u p0 =
     (let p = skip_space p0 in
      if eof p then Inl (comment_errorf p ''argument value is required'')
      else if peek p = CHR 0x22 \<or> peek p = CHR 0x60 then
        (case parse_string p of Inl e \<Rightarrow> Inl e | Inr (v, q) \<Rightarrow> Inr (KindString v, q))
      else if peek p = CHR ''['' then parse_list u p
      else case parse_value_identifier u p of (identifier, q) \<Rightarrow>
        if identifier = ''true'' \<or> identifier = ''false''
        then Inr (KindBoolean (identifier = ''true''), q)
        else if identifier \<noteq> [] then Inr (KindIdentifier identifier, q)
        else case parse_integer (q\<lparr>cur_offset := cur_offset p\<rparr>) of (integer, q1) \<Rightarrow>
          if integer \<noteq> [] then
            (case parse_int64 integer of
               None \<Rightarrow> Inl (comment_errorf q1 (''invalid integer '' @ quote u integer))
             | Some v \<Rightarrow> Inr (KindInteger v, q1))
          else Inl (comment_errorf q1 ''unsupported argument value''))"
| "parse_list u p0 =
     (case consume CHR ''['' p0 of (opened, p1) \<Rightarrow>
      if \<not> opened then Inl (comment_errorf p1 (''list must start with '' @ quoted_char CHR ''[''))
      else case consume CHR '']'' (skip_space p1) of (closed, p2) \<Rightarrow>
        if closed then Inr (KindList [], p2)
        else parse_list_items u [] p2)"
| "parse_list_items u items p0 =
     (case parse_value u p0 of
        Inl e \<Rightarrow> Inl e
      | Inr (v, p1) \<Rightarrow>
          (case consume CHR '']'' (skip_space p1) of (closed, p2) \<Rightarrow>
           if closed then Inr (KindList (items @ [v]), p2)
           else case consume CHR '','' p2 of (comma, p3) \<Rightarrow>
             if \<not> comma
             then Inl (comment_errorf p3 (''expected '' @ quoted_char CHR '','' @ '' or ''
                     @ quoted_char CHR '']'' @ '' in list''))
             else if peek (skip_space p3) = CHR '']''
             then Inl (comment_errorf (skip_space p3) ''trailing commas are not supported in lists'')
             else parse_list_items u (items @ [v]) (skip_space p3)))"
  by pat_completeness auto

lemma reset_advances: "advances p q \<Longrightarrow> q\<lparr>cur_offset := cur_offset p\<rparr> = p"
  by (auto simp: advances_def)

lemma parse_value_advances_dom:
  shows "parse_value_parse_list_parse_list_items_dom (Inl (u, p)) \<Longrightarrow>
      (\<forall>v q. parse_value u p = Inr (v, q) \<longrightarrow> advances p q)"
    and "parse_value_parse_list_parse_list_items_dom (Inr (Inl (u, p))) \<Longrightarrow>
      (\<forall>v q. parse_list u p = Inr (v, q) \<longrightarrow> advances p q)"
    and "parse_value_parse_list_parse_list_items_dom (Inr (Inr (u, items, p))) \<Longrightarrow>
      (\<forall>v q. parse_list_items u items p = Inr (v, q) \<longrightarrow> advances p q)"
proof (induction rule: parse_value_parse_list_parse_list_items.pinduct)
  case (1 u p0)
  let ?p = "skip_space p0"
  have skip: "advances p0 ?p" by (rule skip_space_advances)
  have scalar: "advances ?p q" if "\<not> eof ?p" "peek ?p \<noteq> CHR ''[''" "parse_value u p0 = Inr (v, q)" for v q
    using that 1
    by (auto simp: parse_value.psimps Let_def split: if_splits sum.splits prod.splits option.splits
        dest: parse_string_advances parse_value_identifier_advances parse_integer_advances
        simp: reset_advances [OF parse_value_identifier_advances])
  show ?case
  proof (intro allI impI)
    fix v q assume pv: "parse_value u p0 = Inr (v, q)"
    then have ne: "\<not> eof ?p" using 1(1) by (auto simp: parse_value.psimps Let_def)
    have "advances ?p q"
    proof (cases "peek ?p = CHR ''[''")
      case True
      with pv ne 1 show ?thesis by (auto simp: parse_value.psimps Let_def)
    qed (use scalar ne pv in blast)
    with skip show "advances p0 q" by (rule advances_trans)
  qed
next
  case (2 u p0)
  show ?case
  proof (intro allI impI)
    fix v q assume pl: "parse_list u p0 = Inr (v, q)"
    obtain b1 p1 where p1: "consume CHR ''['' p0 = (b1, p1)" by fastforce
    obtain b2 p2 where p2: "consume CHR '']'' (skip_space p1) = (b2, p2)" by fastforce
    have "advances p0 p2"
      using consume_advances [OF p1] consume_advances [OF p2] skip_space_advances advances_trans
      by blast
    moreover have "advances p2 q"
      using pl 2 p1 p2 by (auto simp: parse_list.psimps split: if_splits)
    ultimately show "advances p0 q" by (rule advances_trans)
  qed
next
  case (3 u items p0)
  show ?case
  proof (intro allI impI)
    fix w q assume pl: "parse_list_items u items p0 = Inr (w, q)"
    then obtain v p1 where p1: "parse_value u p0 = Inr (v, p1)"
      using 3(1) by (auto simp: parse_list_items.psimps split: sum.splits)
    obtain b2 p2 where p2: "consume CHR '']'' (skip_space p1) = (b2, p2)" by fastforce
    obtain b3 p3 where p3: "consume CHR '','' p2 = (b3, p3)" by fastforce
    have a1: "advances p0 p1" using 3(2) p1 by blast
    have a2: "advances p0 p2"
      using a1 consume_advances [OF p2] skip_space_advances advances_trans by blast
    have a3: "advances p0 (skip_space p3)"
      using a2 consume_advances [OF p3] skip_space_advances advances_trans by blast
    show "advances p0 q"
    proof (cases "b2 \<or> \<not> b3 \<or> peek (skip_space p3) = CHR '']''")
      case True
      with pl 3(1) p1 p2 p3 a2 show ?thesis
        by (auto simp: parse_list_items.psimps split: if_splits)
    next
      case False
      with pl 3(1) p1 p2 p3 have "parse_list_items u (items @ [v]) (skip_space p3) = Inr (w, q)"
        by (auto simp: parse_list_items.psimps split: if_splits)
      with 3(3) [OF p1 refl p2 [symmetric] _ p3 [symmetric]] False a3 advances_trans
      show ?thesis by blast
    qed
  qed
qed

lemma parse_value_total: "All parse_value_parse_list_parse_list_items_dom"
proof (rule "parse_value_parse_list_parse_list_items.termination" [of "measure value_measure"], simp)
  fix u :: unicode_tables and p0 x
  assume "x = skip_space p0"
  then show "(Inr (Inl (u, x)), Inl (u, p0)) \<in> measure value_measure"
    using advances_remaining [OF skip_space_advances [of p0]] by (simp add: value_measure_def)
next
  fix u :: unicode_tables and p0 b1 p1 b2 p2
  assume "(b1, p1) = consume CHR ''['' p0" "\<not> \<not> b1" "(b2, p2) = consume CHR '']'' (skip_space p1)"
  then have "remaining p1 < remaining p0" "remaining p2 \<le> remaining (skip_space p1)"
    by (auto intro: consume_remaining advances_remaining consume_advances dest: sym)
  then show "(Inr (Inr (u, [], p2)), Inr (Inl (u, p0))) \<in> measure value_measure"
    using advances_remaining [OF skip_space_advances [of p1]] by (simp add: value_measure_def)
next
  fix u :: unicode_tables and items :: "annotation_value list" and p0
  show "(Inl (u, p0), Inr (Inr (u, items, p0))) \<in> measure value_measure"
    by (simp add: value_measure_def)
next
  fix u items p0 b v p1 b2 p2 b3 p3
  assume dom: "parse_value_parse_list_parse_list_items_dom (Inl (u, p0))"
    and eqs: "parse_value u p0 = Inr b" "(v, p1) = b"
      "(b2, p2) = consume CHR '']'' (skip_space p1)" "(b3, p3) = consume CHR '','' p2" "\<not> \<not> b3"
  have "remaining p1 \<le> remaining p0"
    using parse_value_advances_dom(1) [OF dom] eqs(1,2) advances_remaining by blast
  moreover have "remaining p2 \<le> remaining (skip_space p1)" "remaining p3 < remaining p2"
    using eqs(3-5) by (auto intro: consume_remaining advances_remaining consume_advances dest: sym)
  ultimately show "(Inr (Inr (u, items @ [v], skip_space p3)), Inr (Inr (u, items, p0)))
      \<in> measure value_measure"
    using advances_remaining [OF skip_space_advances [of p1]]
      advances_remaining [OF skip_space_advances [of p3]] by (simp add: value_measure_def)
qed

termination parse_value
  by (rule parse_value_total)

lemma parse_value_advances [cursor_moves]: "parse_value u p = Inr (v, q) \<Longrightarrow> advances p q"
  using parse_value_advances_dom(1) [OF parse_value_total [rule_format]] by blast

declare parse_value.simps [simp del] parse_list.simps [simp del] parse_list_items.simps [simp del]

section \<open>Arguments and annotations\<close>

definition parse_argument ::
    "unicode_tables \<Rightarrow> bool \<Rightarrow> string set \<Rightarrow> cursor \<Rightarrow> (argument \<times> bool \<times> string set) parsed" where
  "parse_argument u seenNamed seenNames p0 =
     (let p = skip_space p0; start = cur_offset p;
          (candidate, p1) = parse_identifier u p;
          (assigned, p2) = (if candidate \<noteq> [] then consume CHR ''='' (skip_space p1)
                            else (False, skip_space p1))
      in if candidate \<noteq> [] \<and> assigned then
           if candidate \<in> seenNames
           then Inl (comment_errorf p2 (''duplicate argument '' @ quote u candidate))
           else (case parse_value u (skip_space p2) of
               Inl e \<Rightarrow> Inl e
             | Inr (v, q) \<Rightarrow>
                 Inr ((\<lparr>arg_name = candidate, arg_value = v\<rparr>, True, insert candidate seenNames), q))
         else let p3 = p2\<lparr>cur_offset := start\<rparr> in
           if seenNamed
           then Inl (comment_errorf p3 ''positional arguments cannot follow named arguments'')
           else (case parse_value u p3 of
               Inl e \<Rightarrow> Inl e
             | Inr (v, q) \<Rightarrow> Inr ((\<lparr>arg_name = [], arg_value = v\<rparr>, False, seenNames), q)))"

lemma parse_argument_advances [cursor_moves]:
  assumes "parse_argument u seenNamed seenNames p = Inr (a, q)"
  shows "advances p q"
proof -
  obtain candidate p1 where p1: "parse_identifier u (skip_space p) = (candidate, p1)" by fastforce
  define r where "r = (if candidate \<noteq> [] then consume CHR ''='' (skip_space p1)
      else (False, skip_space p1))"
  obtain assigned p2 where p2: "r = (assigned, p2)" by fastforce
  have a1: "advances (skip_space p) (skip_space p1)"
    using parse_identifier_advances [OF p1] skip_space_advances by (rule advances_trans)
  have "advances (skip_space p1) p2"
  proof (cases "candidate = []")
    case False
    then have "consume CHR ''='' (skip_space p1) = (assigned, p2)" using p2 by (simp add: r_def)
    then show ?thesis by (rule consume_advances)
  qed (use p2 in \<open>simp add: r_def\<close>)
  with a1 have a2: "advances (skip_space p) p2" by (rule advances_trans)
  have pa: "parse_argument u seenNamed seenNames p =
     (if candidate \<noteq> [] \<and> assigned then
        if candidate \<in> seenNames
        then Inl (comment_errorf p2 (''duplicate argument '' @ quote u candidate))
        else (case parse_value u (skip_space p2) of
            Inl e \<Rightarrow> Inl e
          | Inr (v, q) \<Rightarrow>
              Inr ((\<lparr>arg_name = candidate, arg_value = v\<rparr>, True, insert candidate seenNames), q))
      else if seenNamed
      then Inl (comment_errorf (skip_space p) ''positional arguments cannot follow named arguments'')
      else (case parse_value u (skip_space p) of
          Inl e \<Rightarrow> Inl e
        | Inr (v, q) \<Rightarrow> Inr ((\<lparr>arg_name = [], arg_value = v\<rparr>, False, seenNames), q)))"
    unfolding parse_argument_def Let_def p1 prod.case r_def [symmetric] p2 reset_advances [OF a2]
    by (rule refl)
  obtain v p3 where "p3 = skip_space p \<or> p3 = skip_space p2" "parse_value u p3 = Inr (v, q)"
    using assms unfolding pa by (simp split: if_splits sum.splits prod.splits) blast+
  moreover have "advances p (skip_space p2)"
    using advances_trans [OF skip_space_advances a2] skip_space_advances by (rule advances_trans)
  ultimately show ?thesis
    using parse_value_advances advances_trans skip_space_advances by blast
qed

function parse_arguments ::
    "unicode_tables \<Rightarrow> argument list \<Rightarrow> bool \<Rightarrow> string set \<Rightarrow> cursor \<Rightarrow> argument list parsed" where
  "parse_arguments u arguments seenNamed seenNames p =
     (case parse_argument u seenNamed seenNames p of
        Inl e \<Rightarrow> Inl e
      | Inr ((a, named, seenNames'), p1) \<Rightarrow>
          (case consume CHR '')'' (skip_space p1) of (closed, p2) \<Rightarrow>
           if closed then Inr (arguments @ [a], p2)
           else case consume CHR '','' p2 of (comma, p3) \<Rightarrow>
             if \<not> comma
             then Inl (comment_errorf p3 (''expected '' @ quoted_char CHR '','' @ '' or ''
                     @ quoted_char CHR '')'' @ '' after argument''))
             else if peek (skip_space p3) = CHR '')''
             then Inl (comment_errorf (skip_space p3) ''trailing commas are not supported'')
             else parse_arguments u (arguments @ [a]) (seenNamed \<or> named) seenNames' (skip_space p3)))"
  by pat_completeness auto
termination
proof (relation "measure (\<lambda>(u, as, sn, ns, p). remaining p)", simp)
  fix u as sn ns p b ab p1 a c named ns' b2 p2 b3 p3
  assume "parse_argument u sn ns p = Inr b" "(ab, p1) = b"
    "(b2, p2) = consume CHR '')'' (skip_space p1)" "(b3, p3) = consume CHR '','' p2" "\<not> \<not> b3"
  then have "remaining p1 \<le> remaining p" "remaining p2 \<le> remaining (skip_space p1)"
      "remaining p3 < remaining p2"
    by (auto intro: consume_remaining advances_remaining consume_advances parse_argument_advances
        dest: sym)
  then show "((u, as @ [a], sn \<or> named, ns', skip_space p3), u, as, sn, ns, p)
      \<in> measure (\<lambda>(u, as, sn, ns, p). remaining p)"
    using advances_remaining [OF skip_space_advances [of p1]]
      advances_remaining [OF skip_space_advances [of p3]] by simp
qed

declare parse_arguments.simps [simp del]

definition require_end :: "annotation \<Rightarrow> cursor \<Rightarrow> annotation go_result" where
  "require_end result p =
     (if \<not> eof (skip_space p)
      then Inl (comment_errorf (skip_space p) ''unexpected trailing content'')
      else Inr result)"

definition parse_annotation :: "unicode_tables \<Rightarrow> cursor \<Rightarrow> annotation go_result" where
  "parse_annotation u p0 =
     (case consume CHR ''@'' p0 of (marked, p1) \<Rightarrow>
      if \<not> marked then Inl (comment_errorf p1 ''annotation must start with @'')
      else case parse_name u p1 of (name, p2) \<Rightarrow>
        if name = [] then Inl (comment_errorf p2 ''annotation name is required'')
        else let result = \<lparr>ann_name = name, ann_arguments = [], ann_position = cur_position p2,
                          ann_raw = []\<rparr>;
                 p3 = skip_space p2
          in if eof p3 then Inr result
             else case consume CHR ''('' p3 of (opened, p4) \<Rightarrow>
               if \<not> opened
               then Inl (comment_errorf p4 (''expected '' @ quoted_char CHR ''('' @ '' after annotation name''))
               else case consume CHR '')'' (skip_space p4) of (closed, p5) \<Rightarrow>
                 if closed then require_end result p5
                 else (case parse_arguments u [] False {} p5 of
                     Inl e \<Rightarrow> Inl e
                   | Inr (arguments, p6) \<Rightarrow> require_end (result\<lparr>ann_arguments := arguments\<rparr>) p6))"

text \<open>
  \<open>ParseComment\<close>: \<open>None\<close> when the line holds no annotation (the Go result \<open>false\<close>), else the
  error or the annotation with its raw text.
\<close>

definition ParseComment ::
    "unicode_tables \<Rightarrow> string \<Rightarrow> token_position \<Rightarrow> annotation go_result option" where
  "ParseComment u input position =
     (case annotation_comment_body input position of
        None \<Rightarrow> None
      | Some (body, position') \<Rightarrow>
          if \<not> has_prefix body ''@'' then None
          else (case parse_annotation u \<lparr>cur_input = body, cur_offset = 0, cur_position = position'\<rparr> of
              Inl e \<Rightarrow> Some (Inl e)
            | Inr parsed \<Rightarrow> Some (Inr (parsed\<lparr>ann_raw := input\<rparr>))))"

end
