(* ===== verification/Text_Laws.thy ===== *)
theory Text_Laws
  imports Annotation_Parser
begin

text \<open>
  Round trips of the text primitives the parsers use: \<open>strconv.ParseInt\<close> reads what
  \<open>%d\<close> prints, \<open>strconv.Unquote\<close> reads what \<open>%q\<close> prints on ASCII text, and the parsers'
  scan for the closing quote stops exactly at the end of such a literal.
\<close>

section \<open>Decimal integers\<close>

lemma byte_of_digit: "0 \<le> n \<Longrightarrow> n < 10 \<Longrightarrow> byte_of (digit_char n) = 48 + n"
  by (simp add: digit_char_def)

lemma is_dec_digit: "0 \<le> n \<Longrightarrow> n < 10 \<Longrightarrow> is_dec (digit_char n)"
  by (simp add: is_dec_def byte_of_digit in_range_def)

lemma dec_value_append: "dec_value a (s @ t) = dec_value (dec_value a s) t"
  by (induction a s rule: dec_value.induct) auto

lemma show_digits_dec: "0 \<le> i \<Longrightarrow> list_all is_dec (show_digits i)"
  by (induction i rule: show_digits.induct)
    (subst show_digits.simps, auto simp: is_dec_digit)

lemma dec_value_show: "0 \<le> i \<Longrightarrow> dec_value 0 (show_digits i) = i"
  by (induction i rule: show_digits.induct)
    (subst show_digits.simps, auto simp: dec_value_append byte_of_digit)

lemma is_dec_signs: "\<not> is_dec CHR ''-''" "\<not> is_dec CHR ''+''"
  by (simp_all add: is_dec_def in_range_def)

lemma dec_no_sign: "list_all is_dec s \<Longrightarrow> \<not> has_prefix s ''-'' \<and> \<not> has_prefix s ''+''"
  using is_dec_signs by (cases s) auto

lemma parse_int64_show:
  assumes "- (2 ^ 63) \<le> i" "i < 2 ^ 63"
  shows "parse_int64 (show_int i) = Some i"
proof (cases "i < 0")
  case True
  with assms show ?thesis
    using show_digits_dec [of "- i"] dec_value_show [of "- i"]
    by (simp add: parse_int64_def show_int_def Let_def)
next
  case False
  with assms show ?thesis
    using show_digits_dec [of i] dec_value_show [of i] dec_no_sign [of "show_digits i"]
    by (simp add: parse_int64_def show_int_def Let_def)
qed

section \<open>Quoted strings\<close>

lemma byte_byte_of [simp]: "byte (byte_of c) = c"
  by (simp add: byte_def)

lemma byte_of_range: "0 \<le> byte_of c \<and> byte_of c < 256"
  using of_char_mod_256 [of c, where 'a = int] pos_mod_bound [of 256 "byte_of c"]
    pos_mod_sign [of 256 "byte_of c"] by simp

lemma byte_of_neq: "c \<noteq> d \<Longrightarrow> byte_of c \<noteq> byte_of d"
  by simp

lemma hex_digit_facts:
  assumes "0 \<le> n" "n < 16"
  shows "unhex (hex_digit n) = Some n" "hex_digit n \<noteq> CHR 0x22" "hex_digit n \<noteq> CHR 0x5C"
proof -
  have "list_all (\<lambda>n. unhex (hex_digit n) = Some n \<and> hex_digit n \<noteq> CHR 0x22 \<and> hex_digit n \<noteq> CHR 0x5C)
      [0..15]" by code_simp
  then show "unhex (hex_digit n) = Some n" "hex_digit n \<noteq> CHR 0x22" "hex_digit n \<noteq> CHR 0x5C"
    using assms by (simp_all add: list_all_iff)
qed

lemma hex_roundtrip: "0 \<le> r \<Longrightarrow> r < 256 \<Longrightarrow> hex_value 0 (hex2 r) = Some r"
  by (simp add: hex2_def hex_digit_facts)

lemma quote_rune_ascii:
  assumes "ascii c"
  obtains (plain) "quote_rune u (byte_of c) = [c]" "c \<noteq> CHR 0x22" "c \<noteq> CHR 0x5C" "c \<noteq> CHR 0x0A"
  | (escape) e w where "quote_rune u (byte_of c) = CHR 0x5C # e # w"
      "CHR 0x22 \<notin> set w" "CHR 0x5C \<notin> set w"
      "\<And>t. unquote_char (CHR 0x5C # e # w @ t) = Some (byte_of c, False, t)"
proof -
  have r: "0 \<le> byte_of c" "byte_of c < 128" using assms byte_of_range [of c] by (auto simp: ascii_def)
  have hex: "set (hex2 r) \<inter> {CHR 0x22, CHR 0x5C} = {}" if "0 \<le> r" "r < 256" for r
    using that hex_digit_facts [of "r div 16 mod 16"] hex_digit_facts [of "r mod 16"]
    by (simp add: hex2_def)
  consider "c = CHR 0x22 \<or> c = CHR 0x5C"
    | "c \<noteq> CHR 0x22" "c \<noteq> CHR 0x5C" "in_range 32 126 (byte_of c)"
    | "c \<in> set [CHR 7, CHR 8, CHR 12, CHR 10, CHR 13, CHR 9, CHR 11]"
    | "\<not> in_range 32 126 (byte_of c)" "c \<notin> set [CHR 7, CHR 8, CHR 12, CHR 10, CHR 13, CHR 9, CHR 11]"
    by blast
  then show ?thesis
  proof cases
    case 1
    then have "quote_rune u (byte_of c) = [CHR 0x5C, c]"
      by (auto simp: quote_rune_def byte_def)
    moreover have "unquote_char (CHR 0x5C # c # t) = Some (byte_of c, False, t)" for t
      using 1 by (elim disjE) (simp_all add: unquote_char_def in_range_def)
    ultimately show ?thesis by (intro escape [of c "[]"]) simp_all
  next
    case 2
    have "byte_of c \<noteq> 34 \<and> byte_of c \<noteq> 92"
      using 2(1,2) by (auto dest: byte_of_neq)
    moreover have "c \<noteq> CHR 0x0A" using 2(3) by (auto simp: in_range_def)
    ultimately show ?thesis using 2 r
      by (intro plain) (auto simp: quote_rune_def is_print_def encode_rune_def valid_rune_def Let_def)
  next
    case 3
    then show ?thesis
      using escape [of "CHR ''a''" "[]"] escape [of "CHR ''b''" "[]"] escape [of "CHR ''f''" "[]"]
       escape [of "CHR ''n''" "[]"] escape [of "CHR ''r''" "[]"] escape [of "CHR ''t''" "[]"]
       escape [of "CHR ''v''" "[]"]
      by (auto simp: quote_rune_def unquote_char_def is_print_def in_range_def)
  next
    case 4
    have "c \<noteq> CHR 7" "c \<noteq> CHR 8" "c \<noteq> CHR 12" "c \<noteq> CHR 10" "c \<noteq> CHR 13" "c \<noteq> CHR 9" "c \<noteq> CHR 11"
      using 4(2) by simp_all
    then have ne: "byte_of c \<noteq> 7" "byte_of c \<noteq> 8" "byte_of c \<noteq> 12" "byte_of c \<noteq> 10"
        "byte_of c \<noteq> 13" "byte_of c \<noteq> 9" "byte_of c \<noteq> 11"
      by (auto dest: byte_of_neq)
    have np: "\<not> is_print u (byte_of c)" and x: "byte_of c < 32 \<or> byte_of c = 127"
      using 4(1) r by (auto simp: is_print_def in_range_def)
    then have "byte_of c \<noteq> 34" "byte_of c \<noteq> 92" by auto
    with ne np x have "quote_rune u (byte_of c) = CHR 0x5C # CHR ''x'' # hex2 (byte_of c)"
      by (simp add: quote_rune_def)
    moreover have "unquote_char (CHR 0x5C # CHR ''x'' # hex2 (byte_of c) @ t) = Some (byte_of c, False, t)" for t
    proof -
      obtain a b where ab: "hex2 (byte_of c) = [a, b]" by (simp add: hex2_def)
      have "hex_value 0 [a, b] = Some (byte_of c)" using hex_roundtrip [of "byte_of c"] r ab by simp
      then show ?thesis by (simp add: unquote_char_def ab del: hex_value.simps)
    qed
    ultimately show ?thesis using hex r by (intro escape [of "CHR ''x''" "hex2 (byte_of c)"]) auto
  qed
qed

text \<open>\<open>unquote_body\<close> undoes \<open>quote_body\<close> on ASCII text.\<close>

lemma quote_body_Cons: "ascii c \<Longrightarrow> quote_body u (c # s) = quote_rune u (byte_of c) @ quote_body u s"
  by (subst quote_body.simps) (simp add: decode_rune_ascii ascii_def)

lemma quote_body_Nil [simp]: "quote_body u [] = []"
  by (subst quote_body.simps) simp

lemma unquote_body_quote:
  "list_all ascii s \<Longrightarrow> unquote_body buf (quote_body u s @ CHR 0x22 # t) = Some (buf @ s, t)"
proof (induction s arbitrary: buf)
  case Nil
  then show ?case by (subst unquote_body.simps) simp
next
  case (Cons c s)
  then have c: "ascii c" and IH: "\<And>buf. unquote_body buf (quote_body u s @ CHR 0x22 # t) = Some (buf @ s, t)"
    by auto
  from c have c128: "byte_of c < 128" by (simp add: ascii_def)
  from c show ?case
  proof (cases rule: quote_rune_ascii [where u = u])
    case plain
    then have "unquote_char (c # quote_body u s @ CHR 0x22 # t) = Some (byte_of c, False, quote_body u s @ CHR 0x22 # t)"
      using c128 by (simp add: unquote_char_def)
    with plain c128 show ?thesis
      by (subst unquote_body.simps) (simp add: quote_body_Cons c IH)
  next
    case (escape e w)
    then show ?thesis using c128
      by (subst unquote_body.simps) (simp add: quote_body_Cons c IH)
  qed
qed

lemma valid_utf8_ascii: "list_all ascii s \<Longrightarrow> valid_utf8 s"
  by (induction s) (subst valid_utf8.simps, auto simp: ascii_def)+

lemma quote_body_plain:
  "list_all ascii s \<Longrightarrow> CHR 0x5C \<notin> set (quote_body u s) \<Longrightarrow> quote_body u s = s \<and> CHR 0x22 \<notin> set s \<and> CHR 0x0A \<notin> set s"
proof (induction s)
  case (Cons c s)
  then have c: "ascii c" by simp
  then show ?case
    by (cases rule: quote_rune_ascii [where u = u]) (use Cons in \<open>auto simp: quote_body_Cons\<close>)
qed simp

lemma takeWhile_quote_body:
  assumes "list_all ascii s" "CHR 0x5C \<in> set (quote_body u s)"
  shows "CHR 0x5C \<in> set (takeWhile (\<lambda>c. c \<noteq> CHR 0x22) (quote_body u s @ t))"
  using assms
proof (induction s)
  case (Cons c s)
  then have c: "ascii c" by simp
  then show ?case
    by (cases rule: quote_rune_ascii [where u = u]) (use Cons in \<open>auto simp: quote_body_Cons\<close>)
qed simp

lemma unquote_quote:
  assumes "list_all ascii s"
  shows "unquote (quote u s) = Some s"
proof (cases "CHR 0x5C \<in> set (quote_body u s)")
  case True
  have "dropWhile (\<lambda>c. c \<noteq> CHR 0x22) (quote_body u s @ [CHR 0x22]) \<noteq> []"
    by (simp add: dropWhile_eq_Nil_conv)
  then show ?thesis
    using takeWhile_quote_body [OF assms True] unquote_body_quote [OF assms, of "[]" u "[]"]
    by (simp add: unquote_def quote_def Let_def)
next
  case False
  with assms have q: "quote_body u s = s" "CHR 0x22 \<notin> set s" "CHR 0x0A \<notin> set s"
    using quote_body_plain by blast+
  then have "takeWhile (\<lambda>c. c \<noteq> CHR 0x22) (s @ [CHR 0x22]) = s"
      "dropWhile (\<lambda>c. c \<noteq> CHR 0x22) (s @ [CHR 0x22]) = [CHR 0x22]"
    by (simp_all add: takeWhile_append dropWhile_append)
  with q False valid_utf8_ascii [OF assms] show ?thesis
    by (simp add: unquote_def quote_def Let_def)
qed

lemma string_end_quote_body:
  "list_all ascii s \<Longrightarrow> rest_of p = quote_body u s @ CHR 0x22 # t \<Longrightarrow>
   string_end CHR 0x22 p = Some (moved (length (quote_body u s) + 1) p)"
proof (induction s arbitrary: p)
  case Nil
  then show ?case by (subst string_end.simps) (simp add: eof_rest peek_rest)
next
  case (Cons c s)
  then have c: "ascii c" by simp
  have skip: "string_end CHR 0x22 q = string_end CHR 0x22 (moved (length w) q)"
    if "rest_of q = w @ t" "CHR 0x22 \<notin> set w" "CHR 0x5C \<notin> set w" for w q t
    using that
  proof (induction w arbitrary: q)
    case (Cons d w)
    then have "string_end CHR 0x22 q = string_end CHR 0x22 (moved 1 q)"
      by (subst string_end.simps) (auto simp: eof_rest peek_rest Let_def)
    also have "\<dots> = string_end CHR 0x22 (moved (length w) (moved 1 q))"
      using Cons by (intro Cons.IH) (auto simp: rest_moved)
    finally show ?case by (simp add: moved_def)
  qed (simp add: moved_def)
  from c show ?case
  proof (cases rule: quote_rune_ascii [where u = u])
    case plain
    then have "string_end CHR 0x22 p = string_end CHR 0x22 (moved 1 p)"
      using skip [of p "[c]" "quote_body u s @ CHR 0x22 # t"] Cons.prems by (simp add: quote_body_Cons)
    moreover have "string_end CHR 0x22 (moved 1 p) = Some (moved (length (quote_body u s) + 1) (moved 1 p))"
      using Cons plain by (intro Cons.IH) (auto simp: rest_moved quote_body_Cons)
    ultimately show ?thesis using plain c by (simp add: quote_body_Cons moved_def)
  next
    case (escape e w)
    then have r: "rest_of p = CHR 0x5C # e # w @ quote_body u s @ CHR 0x22 # t"
      using Cons.prems c by (simp add: quote_body_Cons)
    then have "string_end CHR 0x22 p = string_end CHR 0x22 (moved 1 (moved 1 p))"
      by (subst string_end.simps) (simp add: eof_rest peek_rest rest_moved)
    also have "\<dots> = string_end CHR 0x22 (moved (length w) (moved 1 (moved 1 p)))"
      using r escape by (intro skip [of _ _ "quote_body u s @ CHR 0x22 # t"]) (auto simp: rest_moved)
    also have "\<dots> = Some (moved (length (quote_body u s) + 1) (moved (length w) (moved 1 (moved 1 p))))"
      using Cons.prems r by (intro Cons.IH) (auto simp: rest_moved)
    finally show ?thesis using escape c by (simp add: quote_body_Cons moved_def)
  qed
qed

end
