(* ===== verification/Import_Parser.thy ===== *)
theory Import_Parser
  imports Annotation_Parser
begin

text \<open>
  \<open>compiler/parser/import.go\<close>: the parser of file-scoped annotation imports,
  \<open>// @import { A, B as C } from "path"\<close> and \<open>// @import * as ns from "path"\<close>.
  \<open>importParser\<close> has the fields of \<open>commentParser\<close> and the same \<open>skipSpace\<close>, \<open>consume\<close>,
  \<open>peek\<close> and \<open>eof\<close>, so it shares the cursor and the scan for the end of a string literal.
\<close>

section \<open>Import directives\<close>

record import_binding =
  bind_imported :: string
  bind_local :: string

datatype import_kind = ImportNamed | ImportNamespace

record import_directive =
  imp_kind :: import_kind
  imp_package :: string
  imp_namespace :: string
  imp_bindings :: "import_binding list"
  imp_position :: token_position
  imp_physical_position :: token_position
  imp_raw :: string

text \<open>\<open>errLegacyImportDirective\<close> is a sentinel of its own; every other error is a text.\<close>

datatype import_error = errLegacyImportDirective | ImportError string

definition IsLegacyImportError :: "import_error \<Rightarrow> bool" where
  "IsLegacyImportError err = (err = errLegacyImportDirective)"

definition importDirectiveName :: string where
  "importDirectiveName = ''@import''"

definition legacyImportDirectiveName :: string where
  "legacyImportDirectiveName = ''@spice.import''"

definition directivePrefix :: "string \<Rightarrow> string \<Rightarrow> bool" where
  "directivePrefix input name =
     (has_prefix input name
      \<and> (length input = length name \<or> is_space (byte_of (input ! length name))))"

section \<open>Lexical routines\<close>

definition import_errorf :: "cursor \<Rightarrow> string \<Rightarrow> string" where
  "import_errorf p message =
     (let column = (if pos_column (cur_position p) \<le> 0 then 1 else pos_column (cur_position p))
      in pos_filename (cur_position p) @ '':'' @ show_int (max (pos_line (cur_position p)) 1) @ '':''
         @ show_int (column + int (cur_offset p)) @ '': '' @ message)"

definition require_space :: "cursor \<Rightarrow> bool \<times> cursor" where
  "require_space p = (cur_offset p < cur_offset (skip_space p), skip_space p)"

definition import_rune :: "unicode_tables \<Rightarrow> rune \<Rightarrow> bool" where
  "import_rune u r = (is_letter u r \<or> is_digit u r \<or> r = byte_of CHR ''_'')"

definition import_identifier :: "unicode_tables \<Rightarrow> cursor \<Rightarrow> string \<times> cursor" where
  "import_identifier u p =
     (if eof p then ([], p)
      else let (r, size) = decode_rune (rest_of p) in
        if \<not> identifier_start u r then ([], p)
        else let q = advance_while (import_rune u) (moved size p)
             in (slice (cur_input p) (cur_offset p) (cur_offset q), q))"

definition consume_word :: "unicode_tables \<Rightarrow> string \<Rightarrow> cursor \<Rightarrow> bool \<times> cursor" where
  "consume_word u word p =
     (if \<not> has_prefix (rest_of p) word then (False, p)
      else let stop = cur_offset p + length word in
        if stop < length (cur_input p) \<and> import_rune u (fst (decode_rune (drop stop (cur_input p))))
        then (False, p)
        else (True, p\<lparr>cur_offset := stop\<rparr>))"

definition exportedIdentifier :: "unicode_tables \<Rightarrow> string \<Rightarrow> bool" where
  "exportedIdentifier u v = is_upper u (fst (decode_rune v))"

definition validateAnnotationImportPath :: "string \<Rightarrow> string option" where
  "validateAnnotationImportPath v =
     (if v = [] then Some ''annotation import package must not be empty''
      else if trim_space v \<noteq> v
      then Some ''annotation import package must not contain surrounding whitespace''
      else if str_contains v [CHR 0x5C]
      then Some (''annotation import package must use '' @ quoted_char CHR ''/'' @ '' separators'')
      else if has_prefix v ''.'' \<or> has_prefix v ''/''
      then Some ''annotation import package must be an absolute Go import path''
      else if str_contains v ''//''
      then Some ''annotation import package contains an empty path segment''
      else None)"

definition parse_quoted_string :: "cursor \<Rightarrow> string parsed" where
  "parse_quoted_string p =
     (if peek p \<noteq> CHR 0x22 \<and> peek p \<noteq> CHR 0x60
      then Inl (import_errorf p ''annotation import package must be a Go string'')
      else case string_end (peek p) (moved 1 p) of
        None \<Rightarrow> Inl (import_errorf (at_end p) ''unterminated annotation import package'')
      | Some q \<Rightarrow>
          (case unquote (slice (cur_input p) (cur_offset p) (cur_offset q)) of
             None \<Rightarrow> Inl (import_errorf q ''invalid annotation import package: invalid syntax'')
           | Some v \<Rightarrow> Inr (v, q)))"

section \<open>The grammar\<close>

text \<open>
  A sequence \<open>!requireSpace() || !consumeWord(w) || !requireSpace()\<close>: the steps run in order
  until one fails, and the cursor keeps what was read.
\<close>

definition spaced_word :: "unicode_tables \<Rightarrow> string \<Rightarrow> cursor \<Rightarrow> bool \<times> cursor" where
  "spaced_word u word p =
     (case require_space p of (ok1, p1) \<Rightarrow>
      if \<not> ok1 then (False, p1)
      else case consume_word u word p1 of (ok2, p2) \<Rightarrow>
        if \<not> ok2 then (False, p2) else require_space p2)"

definition parse_from_package :: "unicode_tables \<Rightarrow> cursor \<Rightarrow> string parsed" where
  "parse_from_package u p =
     (case spaced_word u ''from'' p of (ok, p1) \<Rightarrow>
      if \<not> ok
      then Inl (import_errorf p1 (''annotation import requires '' @ [CHR 0x27] @ ''from ''
              @ [CHR 0x22] @ ''package/path'' @ [CHR 0x22] @ [CHR 0x27]))
      else case parse_quoted_string p1 of
        Inl e \<Rightarrow> Inl e
      | Inr (packagePath, p2) \<Rightarrow>
          let p3 = skip_space p2 in
          if \<not> eof p3 then Inl (import_errorf p3 ''unexpected trailing annotation import content'')
          else (case validateAnnotationImportPath packagePath of
              Some e \<Rightarrow> Inl (import_errorf p3 e)
            | None \<Rightarrow> Inr (packagePath, p3)))"

definition parse_namespace :: "unicode_tables \<Rightarrow> cursor \<Rightarrow> import_directive go_result" where
  "parse_namespace u p =
     (case spaced_word u ''as'' p of (ok, p1) \<Rightarrow>
      if \<not> ok
      then Inl (import_errorf p1 (''namespace annotation import requires '' @ [CHR 0x27]
              @ ''* as alias'' @ [CHR 0x27]))
      else case import_identifier u p1 of (namespace, p2) \<Rightarrow>
        if namespace = [] \<or> namespace = ''_''
        then Inl (import_errorf p2 ''namespace annotation import requires a usable alias'')
        else (case parse_from_package u p2 of
            Inl e \<Rightarrow> Inl e
          | Inr (packagePath, p3) \<Rightarrow>
              Inr \<lparr>imp_kind = ImportNamespace, imp_package = packagePath, imp_namespace = namespace,
                   imp_bindings = [], imp_position = cur_position p3,
                   imp_physical_position = no_position, imp_raw = []\<rparr>))"

text \<open>
  One round of the loop of \<open>parseNamed\<close> up to the separator: the imported symbol, with an
  optional \<open>as\<close> clause.
\<close>

definition parse_binding ::
    "unicode_tables \<Rightarrow> string set \<Rightarrow> cursor \<Rightarrow> import_binding parsed" where
  "parse_binding u seenImported p =
     (case import_identifier u p of (imported, p1) \<Rightarrow>
      if imported = [] \<or> imported = ''_'' \<or> \<not> exportedIdentifier u imported
      then Inl (import_errorf p1 ''named annotation imports require exported descriptor symbols'')
      else if imported \<in> seenImported
      then Inl (import_errorf p1 (''annotation import repeats symbol '' @ quote u imported))
      else case consume_word u ''as'' (skip_space p1) of (renamed, p2) \<Rightarrow>
        if \<not> renamed then Inr (\<lparr>bind_imported = imported, bind_local = imported\<rparr>, p2)
        else case require_space p2 of (ok, p3) \<Rightarrow>
          if \<not> ok then Inl (import_errorf p3 ''annotation import alias requires a local name'')
          else case import_identifier u p3 of (local_name, p4) \<Rightarrow>
            if local_name = [] \<or> local_name = ''_''
            then Inl (import_errorf p4 ''annotation import alias requires a usable local name'')
            else Inr (\<lparr>bind_imported = imported, bind_local = local_name\<rparr>, p4))"

section \<open>Routines only move forward\<close>

lemma require_space_advances [cursor_moves]: "require_space p = (b, q) \<Longrightarrow> advances p q"
  by (auto simp: require_space_def cursor_moves)

lemma import_identifier_advances [cursor_moves]:
  assumes "import_identifier u p = (s, q)"
  shows "advances p q"
proof (cases "eof p \<or> \<not> identifier_start u (fst (decode_rune (rest_of p)))")
  case True
  with assms show ?thesis by (auto simp: import_identifier_def Let_def split: prod.splits if_splits)
next
  case False
  define size where "size = snd (decode_rune (rest_of p))"
  have "size \<le> length (rest_of p)"
    using decode_rune_size [of "rest_of p" "fst (decode_rune (rest_of p))" size] False
    by (simp add: size_def eof_rest)
  then have "advances p (moved size p)" by (rule advances_moved)
  also have "advances (moved size p) q"
    using assms False
    by (auto simp: import_identifier_def Let_def size_def cursor_moves split: prod.splits)
  finally show ?thesis .
qed

lemma consume_word_moved:
  "consume_word u word p = (True, q) \<Longrightarrow> q = moved (length word) p \<and> has_prefix (rest_of p) word"
  by (auto simp: consume_word_def Let_def moved_def split: if_splits)

lemma consume_word_advances [cursor_moves]:
  assumes "consume_word u word p = (b, q)"
  shows "advances p q"
proof (cases b)
  case True
  with assms have "q = moved (length word) p" "has_prefix (rest_of p) word"
    using consume_word_moved by auto
  then show ?thesis by (auto simp: has_prefix_iff intro: advances_moved)
qed (use assms in \<open>auto simp: consume_word_def Let_def split: if_splits\<close>)

lemma spaced_word_advances [cursor_moves]:
  assumes "spaced_word u word p = (b, q)"
  shows "advances p q"
proof -
  obtain b1 p1 where p1: "require_space p = (b1, p1)" by fastforce
  obtain b2 p2 where p2: "consume_word u word p1 = (b2, p2)" by fastforce
  have "advances p p1" "advances p1 p2" using p1 p2 by (auto intro: cursor_moves)
  with assms p1 p2 show ?thesis
    by (auto simp: spaced_word_def split: if_splits
        intro: advances_trans require_space_advances)
qed

lemma parse_binding_advances [cursor_moves]:
  assumes "parse_binding u seen p = Inr (b, q)"
  shows "advances p q"
proof -
  obtain s p1 where p1: "import_identifier u p = (s, p1)" by fastforce
  obtain b2 p2 where p2: "consume_word u ''as'' (skip_space p1) = (b2, p2)" by fastforce
  obtain b3 p3 where p3: "require_space p2 = (b3, p3)" by fastforce
  obtain l p4 where p4: "import_identifier u p3 = (l, p4)" by fastforce
  have a2: "advances p p2"
    using import_identifier_advances [OF p1] consume_word_advances [OF p2] skip_space_advances
      advances_trans by blast
  have "advances p2 p4"
    using require_space_advances [OF p3] import_identifier_advances [OF p4] by (rule advances_trans)
  then have a4: "advances p p4" using a2 advances_trans by blast
  have "q = p2 \<or> q = p4"
    using assms unfolding parse_binding_def p1 prod.case p2 p3 p4 by (simp split: if_splits)
  with a2 a4 show ?thesis by blast
qed

function parse_bindings ::
    "unicode_tables \<Rightarrow> import_binding list \<Rightarrow> string set \<Rightarrow> cursor \<Rightarrow> import_binding list parsed" where
  "parse_bindings u bindings seenImported p =
     (case parse_binding u seenImported p of
        Inl e \<Rightarrow> Inl e
      | Inr (b, p1) \<Rightarrow>
          (case consume CHR ''}'' (skip_space p1) of (closed, p2) \<Rightarrow>
           if closed then Inr (bindings @ [b], p2)
           else case consume CHR '','' p2 of (comma, p3) \<Rightarrow>
             if \<not> comma
             then Inl (import_errorf p3 (''expected '' @ quoted_char CHR '','' @ '' or ''
                     @ quoted_char CHR ''}'' @ '' in named annotation import''))
             else if peek (skip_space p3) = CHR ''}''
             then Inl (import_errorf (skip_space p3)
                 ''trailing commas are not supported in annotation imports'')
             else parse_bindings u (bindings @ [b]) (insert (bind_imported b) seenImported)
                    (skip_space p3)))"
  by pat_completeness auto
termination
proof (relation "measure (\<lambda>(u, bs, ns, p). remaining p)", simp)
  fix u bs ns p b x p1 b2 p2 b3 p3
  assume "parse_binding u ns p = Inr b" "(x, p1) = b"
    "(b2, p2) = consume CHR ''}'' (skip_space p1)" "(b3, p3) = consume CHR '','' p2" "\<not> \<not> b3"
  then have "remaining p1 \<le> remaining p" "remaining p2 \<le> remaining (skip_space p1)"
      "remaining p3 < remaining p2"
    by (auto intro: consume_remaining advances_remaining consume_advances parse_binding_advances
        dest: sym)
  then show "((u, bs @ [x], insert (bind_imported x) ns, skip_space p3), u, bs, ns, p)
      \<in> measure (\<lambda>(u, bs, ns, p). remaining p)"
    using advances_remaining [OF skip_space_advances [of p1]]
      advances_remaining [OF skip_space_advances [of p3]] by simp
qed

declare parse_bindings.simps [simp del]

definition parse_named :: "unicode_tables \<Rightarrow> cursor \<Rightarrow> import_directive go_result" where
  "parse_named u p =
     (case consume CHR ''}'' (skip_space p) of (closed, p1) \<Rightarrow>
      if closed then Inl (import_errorf p1 ''named annotation import requires at least one symbol'')
      else case parse_bindings u [] {} p1 of
        Inl e \<Rightarrow> Inl e
      | Inr (bindings, p2) \<Rightarrow>
          (case parse_from_package u p2 of
             Inl e \<Rightarrow> Inl e
           | Inr (packagePath, p3) \<Rightarrow>
               Inr \<lparr>imp_kind = ImportNamed, imp_package = packagePath, imp_namespace = [],
                    imp_bindings = bindings, imp_position = cur_position p3,
                   imp_physical_position = no_position, imp_raw = []\<rparr>))"

definition parse_import :: "unicode_tables \<Rightarrow> cursor \<Rightarrow> import_directive go_result" where
  "parse_import u p =
     (case require_space p of (ok, p1) \<Rightarrow>
      if \<not> ok then Inl (import_errorf p1 ''annotation import requires a binding clause'')
      else case consume CHR ''*'' p1 of (star, p2) \<Rightarrow>
        if star then parse_namespace u p2
        else case consume CHR ''{'' p2 of (brace, p3) \<Rightarrow>
          if brace then parse_named u p3
          else Inl (import_errorf p3 (''annotation import requires '' @ [CHR 0x27] @ ''{ ... }''
                  @ [CHR 0x27] @ '' or '' @ [CHR 0x27] @ ''* as alias'' @ [CHR 0x27])))"

definition ParseImportComment ::
    "unicode_tables \<Rightarrow> string \<Rightarrow> token_position \<Rightarrow> (import_error + import_directive) option" where
  "ParseImportComment u input position =
     (case annotation_comment_body input position of
        None \<Rightarrow> None
      | Some (body, position') \<Rightarrow>
          if directivePrefix body legacyImportDirectiveName
          then Some (Inl errLegacyImportDirective)
          else if \<not> directivePrefix body importDirectiveName then None
          else (case parse_import u \<lparr>cur_input = body, cur_offset = length importDirectiveName,
                                     cur_position = position'\<rparr> of
              Inl e \<Rightarrow> Some (Inl (ImportError e))
            | Inr directive \<Rightarrow> Some (Inr (directive\<lparr>imp_raw := input\<rparr>))))"

end
