(* ===== verification/Parser_Roundtrip.thy ===== *)
theory Parser_Roundtrip
  imports Text_Laws Import_Parser
begin

text \<open>
  A printer for annotations, as the specification of what \<open>ParseComment\<close> reads: values,
  positional arguments followed by named ones, any blanks around the punctuation. The lemmas
  run every routine of the parser on printed text, so that the parser is shown to accept
  each printed annotation and to return what was printed.
\<close>

section \<open>The printed form\<close>

definition blank :: "char \<Rightarrow> bool" where
  "blank c = (c = CHR '' '' \<or> c = CHR 0x09)"

definition plain_identifier :: "string \<Rightarrow> bool" where
  "plain_identifier s =
     (s \<noteq> [] \<and> ascii (hd s) \<and> identifier_start latin_only (byte_of (hd s))
      \<and> list_all (\<lambda>c. ascii c \<and> identifier_rune latin_only (byte_of c)) s)"

fun printable_value :: "annotation_value \<Rightarrow> bool" where
  "printable_value (KindString s) = list_all ascii s"
| "printable_value (KindInteger i) = (- (2 ^ 63) \<le> i \<and> i < 2 ^ 63)"
| "printable_value (KindBoolean b) = True"
| "printable_value (KindIdentifier s) = (plain_identifier s \<and> s \<noteq> ''true'' \<and> s \<noteq> ''false'')"
| "printable_value (KindList vs) = list_all printable_value vs"

fun separated :: "string \<Rightarrow> string list \<Rightarrow> string" where
  "separated g [] = []"
| "separated g [w] = w @ g"
| "separated g (w # ws) = w @ g @ '','' @ g @ separated g ws"

fun render_value :: "unicode_tables \<Rightarrow> string \<Rightarrow> annotation_value \<Rightarrow> string" where
  "render_value u g (KindString s) = quote u s"
| "render_value u g (KindInteger i) = show_int i"
| "render_value u g (KindBoolean b) = (if b then ''true'' else ''false'')"
| "render_value u g (KindIdentifier s) = s"
| "render_value u g (KindList vs) = ''['' @ g @ separated g (map (render_value u g) vs) @ '']''"

definition render_argument :: "unicode_tables \<Rightarrow> string \<Rightarrow> argument \<Rightarrow> string" where
  "render_argument u g a =
     (if arg_name a = [] then render_value u g (arg_value a)
      else arg_name a @ g @ ''='' @ g @ render_value u g (arg_value a))"

definition render_annotation :: "unicode_tables \<Rightarrow> string \<Rightarrow> string \<Rightarrow> argument list \<Rightarrow> string" where
  "render_annotation u g name arguments =
     ''//'' @ g @ ''@'' @ name @
     (if arguments = [] then [] else g @ ''('' @ g @ separated g (map (render_argument u g) arguments) @ '')'')"

section \<open>Running the scanner on printed text\<close>

text \<open>What may follow a value: nothing, a blank or one of the closing characters.\<close>

definition stops :: "string \<Rightarrow> bool" where
  "stops s = (s = [] \<or> blank (hd s) \<or> hd s \<in> {CHR '','', CHR '')'', CHR '']''})"

lemma stops_simps [simp]:
  "stops []" "stops (CHR '','' # s)" "stops (CHR '')'' # s)" "stops (CHR '']'' # s)"
  by (simp_all add: stops_def)

lemma stops_gap: "list_all blank g \<Longrightarrow> stops s \<Longrightarrow> stops (g @ s)"
  by (cases g) (auto simp: stops_def)

lemma blank_ascii: "blank c \<Longrightarrow> ascii c \<and> is_space (byte_of c)"
  by (auto simp: blank_def ascii_def is_space_def in_range_def)

lemma skip_gap:
  assumes "rest_of p = g @ s" "list_all blank g"
    and "s = [] \<or> ascii (hd s) \<and> \<not> is_space (byte_of (hd s))"
  shows "skip_space p = moved (length g) p"
  unfolding skip_space_def
  using assms(1)
proof (rule advance_while_run)
  show "\<And>c. c \<in> set g \<Longrightarrow> ascii c \<and> is_space (byte_of c)"
    using assms(2) by (auto simp: list_all_iff blank_ascii)
  show "s = [] \<or> \<not> is_space (fst (decode_rune s))"
    using assms(3) by (cases s) (auto simp: decode_rune_ascii)
qed

lemma moved_moved [simp]: "moved j (moved i p) = moved (i + j) p"
  by (simp add: moved_def)

lemma moved_0 [simp]: "moved 0 p = p"
  by (simp add: moved_def)

lemma skip_none:
  "rest_of p = c # s \<Longrightarrow> ascii c \<Longrightarrow> \<not> is_space (byte_of c) \<Longrightarrow> skip_space p = p"
  using skip_gap [of p "[]" "c # s"] by simp

lemma identifier_rune_latin: "ascii c \<Longrightarrow> identifier_rune u (byte_of c) = identifier_rune latin_only (byte_of c)"
  by (simp add: ascii_def identifier_rune_def is_letter_def is_digit_def)

lemma identifier_start_latin: "ascii c \<Longrightarrow> identifier_start u (byte_of c) = identifier_start latin_only (byte_of c)"
  by (simp add: ascii_def identifier_start_def is_letter_def)

lemma stops_not_identifier:
  assumes "stops s"
  shows "s = [] \<or> \<not> identifier_rune u (fst (decode_rune s))" "s = [] \<or> hd s \<noteq> CHR ''[''"
    "s = [] \<or> \<not> is_dec (hd s)"
  using assms
  by (cases s; auto simp: stops_def blank_def decode_rune_ascii ascii_def identifier_rune_def
      is_letter_def is_digit_def in_range_def is_dec_def)+

lemma slice_rest: "slice (cur_input p) (cur_offset p) (cur_offset (moved k p)) = take k (rest_of p)"
  by (simp add: slice_def moved_def rest_of_def)

lemma parse_identifier_text:
  assumes "rest_of p = w @ s" "plain_identifier w"
    and "s = [] \<or> \<not> identifier_rune u (fst (decode_rune s))"
  shows "parse_identifier u p = (w, moved (length w) p)"
proof -
  obtain c w' where w: "w = c # w'" using assms(2) by (cases w) (auto simp: plain_identifier_def)
  have c: "ascii c" "identifier_start u (byte_of c)"
    using assms(2) w identifier_start_latin [of c u] by (auto simp: plain_identifier_def)
  have "advance_while (identifier_rune u) (moved 1 p) = moved (length w') (moved 1 p)"
  proof (rule advance_while_run)
    show "rest_of (moved 1 p) = w' @ s" using assms(1) w by (simp add: rest_moved)
    show "ascii d \<and> identifier_rune u (byte_of d)" if "d \<in> set w'" for d
      using assms(2) w that identifier_rune_latin [of d u] by (auto simp: plain_identifier_def list_all_iff)
  qed (rule assms(3))
  then have "advance_while (identifier_rune u) (moved 1 p) = moved (length w) p"
    by (simp add: w)
  moreover have "slice (cur_input p) (cur_offset p) (cur_offset (moved (length w) p)) = w"
    using slice_rest [of p "length w"] assms(1) by simp
  moreover have "\<not> eof p" "decode_rune (rest_of p) = (byte_of c, 1)"
    using assms(1) c w by (simp_all add: eof_rest decode_rune_ascii)
  ultimately show ?thesis
    using c by (simp add: parse_identifier_def)
qed

lemma parse_value_identifier_text:
  assumes "rest_of p = w @ s" "plain_identifier w" "stops s"
  shows "parse_value_identifier u p = (w, moved (length w) p)"
proof -
  have "parse_identifier u p = (w, moved (length w) p)"
    using assms(1,2) stops_not_identifier(1) [OF assms(3)] by (rule parse_identifier_text)
  moreover have "w \<noteq> []" using assms(2) by (simp add: plain_identifier_def)
  moreover have "eof (moved (length w) p) \<or> peek (moved (length w) p) \<noteq> CHR ''[''"
    using assms(1) stops_not_identifier(2) [OF assms(3)]
    by (cases s) (auto simp: eof_rest peek_rest rest_moved)
  ultimately show ?thesis
    using assms(1) slice_rest [of p "length w"]
    by (simp add: parse_value_identifier_def) (simp add: moved_def)
qed

lemma no_identifier:
  "rest_of p = c # s \<Longrightarrow> ascii c \<Longrightarrow> \<not> identifier_start u (byte_of c) \<Longrightarrow>
   parse_value_identifier u p = ([], p)"
  by (simp add: parse_value_identifier_def parse_identifier_def eof_rest decode_rune_ascii)

lemma digits_end_text:
  "rest_of p = w @ s \<Longrightarrow> list_all is_dec w \<Longrightarrow> s = [] \<or> \<not> is_dec (hd s) \<Longrightarrow>
   digits_end p = moved (length w) p"
proof (induction w arbitrary: p)
  case Nil
  then show ?case by (cases s) (subst digits_end.simps, auto simp: eof_rest peek_rest)+
next
  case (Cons c w)
  then have "digits_end p = digits_end (moved 1 p)"
    by (subst digits_end.simps) (simp add: eof_rest peek_rest)
  also have "\<dots> = moved (length w) (moved 1 p)"
    using Cons.prems by (intro Cons.IH) (auto simp: rest_moved)
  finally show ?case by simp
qed

lemma parse_integer_text:
  assumes "rest_of p = show_int i @ s" "stops s"
  shows "parse_integer p = (show_int i, moved (length (show_int i)) p)"
proof (cases "i < 0")
  case True
  then have r: "rest_of p = CHR ''-'' # show_digits (- i) @ s" using assms(1) by (simp add: show_int_def)
  have "digits_end (moved 1 p) = moved (length (show_digits (- i))) (moved 1 p)"
    using r show_digits_dec [of "- i"] True stops_not_identifier(3) [OF assms(2)]
    by (intro digits_end_text [where s = s]) (auto simp: rest_moved)
  then show ?thesis
    using r True slice_rest [of p "Suc (length (show_digits (- i)))"]
    by (simp add: parse_integer_def show_int_def Let_def peek_rest) (simp add: moved_def)
next
  case False
  then have r: "rest_of p = show_digits i @ s" using assms(1) by (simp add: show_int_def)
  have dec: "list_all is_dec (show_digits i)" using show_digits_dec False by simp
  have "digits_end p = moved (length (show_digits i)) p"
    using r dec stops_not_identifier(3) [OF assms(2)] by (intro digits_end_text [where s = s]) auto
  moreover have "peek p \<noteq> CHR ''-''"
    using r dec_no_sign [OF dec] by (cases "show_digits i") (auto simp: peek_rest)
  ultimately show ?thesis
    using r False slice_rest [of p "length (show_digits i)"]
    by (simp add: parse_integer_def show_int_def Let_def) (simp add: moved_def)
qed

lemma parse_string_text:
  assumes "rest_of p = quote u w @ s" "list_all ascii w"
  shows "parse_string p = Inr (w, moved (length (quote u w)) p)"
proof -
  have r: "rest_of p = CHR 0x22 # quote_body u w @ CHR 0x22 # s" using assms(1) by (simp add: quote_def)
  have "string_end CHR 0x22 (moved 1 p) = Some (moved (length (quote_body u w) + 1) (moved 1 p))"
    using r assms(2) by (intro string_end_quote_body) (auto simp: rest_moved)
  then have "string_end (peek p) (moved 1 p) = Some (moved (length (quote u w)) p)"
    using r by (simp add: peek_rest quote_def)
  moreover have "slice (cur_input p) (cur_offset p) (cur_offset (moved (length (quote u w)) p)) = quote u w"
    using slice_rest [of p "length (quote u w)"] assms(1) by simp
  ultimately show ?thesis
    using unquote_quote [OF assms(2), of u] by (simp add: parse_string_def)
qed

section \<open>Values\<close>

text \<open>The first byte of a printed value; it is neither blank nor closing punctuation.\<close>

definition opens :: "char \<Rightarrow> bool" where
  "opens c = (ascii c \<and> \<not> is_space (byte_of c) \<and> c \<notin> {CHR '','', CHR '')'', CHR '']''})"

lemma identifier_start_opens: "ascii c \<Longrightarrow> identifier_start latin_only (byte_of c) \<Longrightarrow> opens c"
  by (auto simp: opens_def ascii_def identifier_start_def is_letter_def is_space_def in_range_def)

lemma is_dec_opens: "is_dec c \<Longrightarrow> opens c"
  by (auto simp: opens_def is_dec_def in_range_def ascii_def is_space_def)

lemma is_dec_not_start: "is_dec c \<Longrightarrow> ascii c \<and> \<not> identifier_start u (byte_of c)
    \<and> c \<noteq> CHR 0x22 \<and> c \<noteq> CHR 0x60 \<and> c \<noteq> CHR ''[''"
  by (auto simp: is_dec_def in_range_def ascii_def identifier_start_def is_letter_def)

lemma plain_identifier_start:
  assumes "plain_identifier w"
  obtains c w' where "w = c # w'" "opens c" "c \<noteq> CHR 0x22" "c \<noteq> CHR 0x60" "c \<noteq> CHR ''[''"
proof -
  obtain c w' where w: "w = c # w'" "ascii c" "identifier_start latin_only (byte_of c)"
    using assms by (cases w) (auto simp: plain_identifier_def)
  moreover from w have "c \<noteq> CHR 0x22 \<and> c \<noteq> CHR 0x60 \<and> c \<noteq> CHR ''[''"
    by (auto simp: identifier_start_def is_letter_def in_range_def)
  ultimately show ?thesis using that identifier_start_opens by blast
qed

lemma show_int_start:
  obtains c w where "show_int i = c # w" "opens c" "\<not> identifier_start u (byte_of c)" "ascii c"
    "c \<noteq> CHR 0x22" "c \<noteq> CHR 0x60" "c \<noteq> CHR ''[''"
proof (cases "i < 0")
  case True
  then show ?thesis
    by (intro that [of "CHR ''-''" "show_digits (- i)"])
      (auto simp: show_int_def opens_def ascii_def is_space_def in_range_def identifier_start_def is_letter_def)
next
  case False
  then obtain c w where "show_digits i = c # w" "is_dec c"
    using show_digits_dec [of i] by (cases "show_digits i") auto
  with False show ?thesis
    using that [of c w] is_dec_opens [of c] is_dec_not_start [of c u] by (simp add: show_int_def)
qed

lemma render_value_opens:
  assumes "printable_value v"
  obtains c w where "render_value u g v = c # w" "opens c"
proof (cases v)
  case (KindString s)
  then show ?thesis
    using that [of "CHR 0x22" "quote_body u s @ [CHR 0x22]"]
    by (simp add: quote_def opens_def ascii_def is_space_def in_range_def)
next
  case (KindInteger i)
  then show ?thesis using that by (auto intro: show_int_start [of i u])
next
  case (KindBoolean b)
  then show ?thesis
    using that [of "CHR ''t''" "''rue''"] that [of "CHR ''f''" "''alse''"]
    by (cases b) (auto simp: opens_def ascii_def is_space_def in_range_def)
next
  case (KindIdentifier s)
  with assms have "plain_identifier s" by simp
  then show ?thesis by (rule plain_identifier_start) (use KindIdentifier that in auto)
next
  case (KindList vs)
  then show ?thesis
    using that [of "CHR ''[''"] by (auto simp: opens_def ascii_def is_space_def in_range_def)
qed

lemma skip_opens: "rest_of p = c # s \<Longrightarrow> opens c \<Longrightarrow> skip_space p = p"
  by (rule skip_none) (auto simp: opens_def)

lemma skip_gap_opens:
  "rest_of p = g @ c # s \<Longrightarrow> list_all blank g \<Longrightarrow> opens c \<or> c \<in> {CHR '','', CHR '')'', CHR '']'', CHR ''='', CHR ''(''} \<Longrightarrow>
   skip_space p = moved (length g) p"
  by (rule skip_gap [where s = "c # s"]) (auto simp: opens_def ascii_def is_space_def in_range_def)

lemma parse_value_scalar:
  assumes "rest_of p = render_value u g v @ s" "printable_value v" "stops s"
    and "\<nexists>vs. v = KindList vs"
  shows "parse_value u p = Inr (v, moved (length (render_value u g v)) p)"
proof (cases v)
  case (KindString w)
  then have r: "rest_of p = quote u w @ s" using assms(1) by simp
  then have "peek p = CHR 0x22" "\<not> eof p" by (simp_all add: quote_def peek_rest eof_rest)
  moreover have "skip_space p = p"
    using assms(1) by (auto intro: render_value_opens [OF assms(2), of u g] simp: skip_opens)
  ultimately show ?thesis
    using KindString assms(2) parse_string_text [OF r] by (simp add: parse_value.simps [of u p])
next
  case (KindInteger i)
  then have r: "rest_of p = show_int i @ s" using assms(1) by simp
  obtain c w where c: "show_int i = c # w" "opens c" "\<not> identifier_start u (byte_of c)" "ascii c"
    "c \<noteq> CHR 0x22" "c \<noteq> CHR 0x60" "c \<noteq> CHR ''[''" by (rule show_int_start [of i u])
  then have "skip_space p = p" using r by (auto intro: skip_opens)
  moreover have "parse_value_identifier u p = ([], p)"
    using r c by (intro no_identifier) auto
  moreover have "peek p = c" "\<not> eof p" using r c by (simp_all add: peek_rest eof_rest)
  ultimately show ?thesis
    using KindInteger assms(2) parse_integer_text [OF r assms(3)] c parse_int64_show [of i]
    by (simp add: parse_value.simps [of u p])
next
  case (KindBoolean b)
  have pl: "plain_identifier (if b then ''true'' else ''false'')"
    by (simp add: plain_identifier_def ascii_def identifier_start_def identifier_rune_def is_letter_def in_range_def)
  have r: "rest_of p = (if b then ''true'' else ''false'') @ s" using assms(1) KindBoolean by simp
  obtain c w where c: "(if b then ''true'' else ''false'') = c # w" "opens c" "c \<noteq> CHR 0x22" "c \<noteq> CHR 0x60"
      "c \<noteq> CHR ''[''" using plain_identifier_start [OF pl] by blast
  then have "skip_space p = p" "peek p = c" "\<not> eof p"
    using r by (auto intro!: skip_opens simp: peek_rest eof_rest)
  with parse_value_identifier_text [OF r pl assms(3), of u] KindBoolean c show ?thesis
    by (auto simp: parse_value.simps [of u p] split: if_splits)
next
  case (KindIdentifier w)
  then have r: "rest_of p = w @ s" and pl: "plain_identifier w" "w \<noteq> ''true''" "w \<noteq> ''false''"
    using assms(1,2) by auto
  obtain c w' where c: "w = c # w'" "opens c" "c \<noteq> CHR 0x22" "c \<noteq> CHR 0x60" "c \<noteq> CHR ''[''"
    using plain_identifier_start [OF pl(1)] by blast
  then have "skip_space p = p" "peek p = c" "\<not> eof p"
    using r by (auto intro!: skip_opens simp: peek_rest eof_rest)
  with parse_value_identifier_text [OF r pl(1) assms(3), of u] KindIdentifier c pl show ?thesis
    by (simp add: parse_value.simps [of u p])
qed (use assms(4) in simp)


lemma consume_yes: "rest_of p = c # s \<Longrightarrow> consume c p = (True, moved 1 p)"
  by (simp add: consume_rest)

lemma consume_no: "rest_of p = d # s \<Longrightarrow> d \<noteq> c \<Longrightarrow> consume c p = (False, p)"
  by (simp add: consume_rest)

lemma separated_Cons:
  "separated g (w # ws) = w @ g @ (if ws = [] then [] else '','' @ g @ separated g ws)"
  by (cases ws) auto

lemma parse_list_items_text:
  assumes "vs \<noteq> []" "list_all blank g" "list_all printable_value vs"
    and "\<And>v p s. v \<in> set vs \<Longrightarrow> rest_of p = render_value u g v @ s \<Longrightarrow> stops s \<Longrightarrow>
        parse_value u p = Inr (v, moved (length (render_value u g v)) p)"
    and "rest_of p = separated g (map (render_value u g) vs) @ CHR '']'' # s"
  shows "parse_list_items u items p =
    Inr (KindList (items @ vs), moved (length (separated g (map (render_value u g) vs)) + 1) p)"
  using assms
proof (induction vs arbitrary: items p)
  case (Cons v vs)
  let ?w = "render_value u g v" and ?t = "separated g (map (render_value u g) vs)"
  let ?p1 = "moved (length ?w) p" and ?p2 = "moved (length ?w + length g) p"
  have gap: "list_all blank g" and step: "rest_of p = ?w @ x \<Longrightarrow> stops x \<Longrightarrow> parse_value u p = Inr (v, ?p1)" for x
    using Cons.prems(2,4) by auto
  show ?case
  proof (cases "vs = []")
    case True
    then have r: "rest_of p = ?w @ g @ CHR '']'' # s" using Cons.prems(5) by simp
    then have v: "parse_value u p = Inr (v, ?p1)" using gap step [OF r] by (simp add: stops_gap)
    have "skip_space ?p1 = ?p2" using r gap by (subst skip_gap_opens) (auto simp: rest_moved)
    moreover have "consume CHR '']'' ?p2 = (True, moved 1 ?p2)"
      using r by (intro consume_yes) (simp add: rest_moved)
    ultimately show ?thesis
      using v True by (simp add: parse_list_items.simps [of u items p] add.assoc)
  next
    case False
    then have r: "rest_of p = ?w @ g @ CHR '','' # g @ ?t @ CHR '']'' # s"
      using Cons.prems(5) by (simp add: separated_Cons)
    then have v: "parse_value u p = Inr (v, ?p1)" using gap step [OF r] by (simp add: stops_gap)
    have s1: "skip_space ?p1 = ?p2" using r gap by (subst skip_gap_opens) (auto simp: rest_moved)
    have c1: "consume CHR '']'' ?p2 = (False, ?p2)"
      using r by (intro consume_no [of _ "CHR '',''"]) (auto simp: rest_moved)
    have c2: "consume CHR '','' ?p2 = (True, moved 1 ?p2)"
      using r by (intro consume_yes) (simp add: rest_moved)
    obtain v' vs' where vs: "vs = v' # vs'" using False by (cases vs) auto
    obtain c w where c: "render_value u g v' = c # w" "opens c"
      using Cons.prems(3) vs by (auto intro: render_value_opens [of v' u g])
    then obtain t where t: "?t = c # t" by (simp add: vs separated_Cons)
    let ?p3 = "moved (length g) (moved 1 ?p2)"
    have r3: "rest_of ?p3 = ?t @ CHR '']'' # s" using r by (simp add: rest_moved)
    have s3: "skip_space (moved 1 ?p2) = ?p3"
      using r gap t c by (subst skip_gap_opens [of _ g c "t @ CHR '']'' # s"]) (auto simp: rest_moved)
    have "peek ?p3 \<noteq> CHR '']''" using r3 t c by (simp add: peek_rest opens_def)
    moreover have "parse_list_items u (items @ [v]) ?p3 =
        Inr (KindList ((items @ [v]) @ vs), moved (length ?t + 1) ?p3)"
      using Cons.prems False r3 by (intro Cons.IH) auto
    ultimately show ?thesis
      using v s1 c1 c2 s3 False by (simp add: parse_list_items.simps [of u items p] separated_Cons ac_simps)
  qed
qed simp

lemma parse_value_text:
  "list_all blank g \<Longrightarrow> printable_value v \<Longrightarrow> rest_of p = render_value u g v @ s \<Longrightarrow> stops s \<Longrightarrow>
   parse_value u p = Inr (v, moved (length (render_value u g v)) p)"
proof (induction v arbitrary: p s)
  case (KindList vs)
  let ?t = "separated g (map (render_value u g) vs)" and ?p1 = "moved (1 + length g) p"
  have r: "rest_of p = CHR ''['' # g @ ?t @ CHR '']'' # s" using KindList.prems(3) by simp
  have "skip_space p = p" using r by (intro skip_none) (auto simp: ascii_def is_space_def in_range_def)
  moreover have "peek p = CHR ''[''" "\<not> eof p" using r by (simp_all add: peek_rest eof_rest)
  ultimately have pl: "parse_value u p = parse_list u p" by (simp add: parse_value.simps [of u p])
  have c1: "consume CHR ''['' p = (True, moved 1 p)" using r by (rule consume_yes)
  show ?case
  proof (cases "vs = []")
    case True
    have "skip_space (moved 1 p) = ?p1"
      using r True KindList.prems(1) by (subst skip_gap_opens) (auto simp: rest_moved)
    moreover have "consume CHR '']'' ?p1 = (True, moved 1 ?p1)"
      using r True by (intro consume_yes) (simp add: rest_moved)
    ultimately show ?thesis using pl c1 True by (simp add: parse_list.simps [of u p])
  next
    case False
    obtain v' vs' where vs: "vs = v' # vs'" using False by (cases vs) auto
    obtain c w where c: "render_value u g v' = c # w" "opens c"
      using KindList.prems(2) vs by (auto intro: render_value_opens [of v' u g])
    then obtain t where t: "?t = c # t" by (simp add: vs separated_Cons)
    have "skip_space (moved 1 p) = ?p1"
      using r t c KindList.prems(1)
      by (subst skip_gap_opens [of _ g c "t @ CHR '']'' # s"]) (auto simp: rest_moved)
    moreover have "consume CHR '']'' ?p1 = (False, ?p1)"
      using r t c by (intro consume_no [of _ c]) (auto simp: rest_moved opens_def)
    moreover have "parse_list_items u [] ?p1 = Inr (KindList ([] @ vs), moved (length ?t + 1) ?p1)"
      using KindList False r by (intro parse_list_items_text) (auto simp: rest_moved list_all_iff)
    ultimately show ?thesis using pl c1 by (simp add: parse_list.simps [of u p] ac_simps)
  qed
qed (blast intro: parse_value_scalar annotation_value.distinct)+

section \<open>Arguments\<close>

text \<open>
  Printable argument lists: positional arguments first, then named ones with distinct names.
\<close>

definition named_part :: "argument list \<Rightarrow> argument list" where
  "named_part arguments = dropWhile (\<lambda>a. arg_name a = []) arguments"

definition printable_arguments :: "argument list \<Rightarrow> bool" where
  "printable_arguments arguments =
     (list_all (\<lambda>a. printable_value (arg_value a)) arguments
      \<and> list_all (\<lambda>a. plain_identifier (arg_name a)) (named_part arguments)
      \<and> distinct (map arg_name (named_part arguments)))"

lemma named_part_named: "a \<in> set arguments \<Longrightarrow> arg_name a \<noteq> [] \<Longrightarrow> a \<in> set (named_part arguments)"
  by (induction arguments) (auto simp: named_part_def)

text \<open>
  The identifier a positional value may begin with is not followed by \<open>=\<close>, so the argument
  is read as a value and not as a name.
\<close>

lemma positional_candidate:
  assumes "printable_value v" "list_all blank g" "d \<in> {CHR '','', CHR '')''}"
    and "rest_of p = render_value u g v @ g @ d # s"
    and "parse_identifier u p = (candidate, p1)" "candidate \<noteq> []"
  shows "consume CHR ''='' (skip_space p1) = (False, skip_space p1)"
proof -
  have st: "stops (g @ d # s)" using assms(2,3) by (auto intro: stops_gap)
  obtain w where w: "plain_identifier w" "rest_of p = w @ g @ d # s"
  proof (cases v)
    case (KindString w)
    then have "candidate = []"
      using assms(4,5)
      by (simp add: quote_def parse_identifier_def eof_rest decode_rune_ascii ascii_def
          identifier_start_def is_letter_def in_range_def)
    with assms(6) show ?thesis by simp
  next
    case (KindInteger i)
    obtain c w where "show_int i = c # w" "ascii c" "\<not> identifier_start u (byte_of c)"
      by (rule show_int_start [of i u])
    then have "candidate = []"
      using assms(4,5) KindInteger by (simp add: parse_identifier_def eof_rest decode_rune_ascii)
    with assms(6) show ?thesis by simp
  next
    case (KindBoolean b)
    have "plain_identifier (if b then ''true'' else ''false'')"
      by (simp add: plain_identifier_def ascii_def identifier_start_def identifier_rune_def is_letter_def in_range_def)
    with that show ?thesis using assms(4) KindBoolean by simp
  next
    case (KindIdentifier w)
    then show ?thesis using that [of w] assms(1,4) by simp
  next
    case (KindList vs)
    then have "candidate = []"
      using assms(4,5)
      by (simp add: parse_identifier_def eof_rest decode_rune_ascii ascii_def
          identifier_start_def is_letter_def in_range_def)
    with assms(6) show ?thesis by simp
  qed
  have "p1 = moved (length w) p"
    using parse_identifier_text [OF w(2,1) stops_not_identifier(1) [OF st, of u]] assms(5) by simp
  then have "skip_space p1 = moved (length w + length g) p"
    using w(2) assms(2,3) by (subst skip_gap_opens) (auto simp: rest_moved)
  then show ?thesis
    using w(2) assms(3) by (intro consume_no [of _ d s]) (auto simp: rest_moved)
qed

lemma render_argument_opens:
  assumes "printable_value (arg_value a)" "arg_name a = [] \<or> plain_identifier (arg_name a)"
  obtains c w where "render_argument u g a = c # w" "opens c"
proof (cases "arg_name a = []")
  case True
  then show ?thesis
    using that by (auto simp: render_argument_def intro: render_value_opens [OF assms(1), of u g])
next
  case False
  with assms(2) obtain c w where "arg_name a = c # w" "opens c"
    using plain_identifier_start by blast
  with False show ?thesis using that by (simp add: render_argument_def)
qed

lemma parse_argument_text:
  assumes "printable_value (arg_value a)" "list_all blank g" "d \<in> {CHR '','', CHR '')''}"
    and "rest_of p = render_argument u g a @ g @ d # s"
    and "if arg_name a = [] then \<not> seenNamed else plain_identifier (arg_name a) \<and> arg_name a \<notin> seenNames"
  shows "parse_argument u seenNamed seenNames p =
    Inr ((a, arg_name a \<noteq> [], if arg_name a = [] then seenNames else insert (arg_name a) seenNames),
         moved (length (render_argument u g a)) p)"
proof -
  have st: "stops (g @ d # s)" using assms(2,3) by (auto intro: stops_gap)
  obtain c w where "render_argument u g a = c # w" "opens c"
    using render_argument_opens [of a u g] assms(1,5) by (metis (full_types))
  with assms(4) have sk: "skip_space p = p" by (auto intro: skip_opens)
  show ?thesis
  proof (cases "arg_name a = []")
    case True
    then have r: "rest_of p = render_value u g (arg_value a) @ g @ d # s"
      using assms(4) by (simp add: render_argument_def)
    obtain candidate p1 where p1: "parse_identifier u p = (candidate, p1)" by fastforce
    have no: "candidate \<noteq> [] \<Longrightarrow> consume CHR ''='' (skip_space p1) = (False, skip_space p1)"
      using positional_candidate [OF assms(1-3) r p1] by blast
    have "advances p (skip_space p1)"
      using parse_identifier_advances [OF p1] skip_space_advances by (rule advances_trans)
    then have "(skip_space p1)\<lparr>cur_offset := cur_offset p\<rparr> = p" by (rule reset_advances)
    with True assms(5) p1 no sk parse_value_text [OF assms(2,1) r st] show ?thesis
      by (cases "candidate = []"; cases a) (simp_all add: parse_argument_def Let_def render_argument_def)
  next
    case False
    let ?n = "arg_name a" and ?v = "render_value u g (arg_value a)"
    have r: "rest_of p = ?n @ g @ CHR ''='' # g @ ?v @ g @ d # s"
      using assms(4) False by (simp add: render_argument_def)
    have pl: "plain_identifier ?n" "?n \<notin> seenNames" using assms(5) False by auto
    have "parse_identifier u p = (?n, moved (length ?n) p)"
    proof (rule parse_identifier_text [OF r pl(1)])
      show "g @ CHR ''='' # g @ ?v @ g @ d # s = [] \<or>
          \<not> identifier_rune u (fst (decode_rune (g @ CHR ''='' # g @ ?v @ g @ d # s)))"
        using assms(2) by (cases g) (auto simp: decode_rune_ascii ascii_def blank_def
            identifier_rune_def is_letter_def is_digit_def in_range_def)
    qed
    moreover have "skip_space (moved (length ?n) p) = moved (length ?n + length g) p"
      using r assms(2) by (subst skip_gap_opens) (auto simp: rest_moved)
    moreover have "consume CHR ''='' (moved (length ?n + length g) p) = (True, moved (length ?n + length g + 1) p)"
      using r consume_yes [of "moved (length ?n + length g) p"] by (simp add: rest_moved)
    moreover have "skip_space (moved (length ?n + length g + 1) p) = moved (length ?n + (length g + length g) + 1) p"
    proof -
      obtain c w where c: "?v = c # w" "opens c" by (rule render_value_opens [OF assms(1)])
      then show ?thesis
        using r assms(2) by (subst skip_gap_opens [of _ g c "w @ g @ d # s"]) (auto simp: rest_moved ac_simps)
    qed
    moreover have "parse_value u (moved (length ?n + (length g + length g) + 1) p) =
        Inr (arg_value a, moved (length ?v) (moved (length ?n + (length g + length g) + 1) p))"
      using r by (intro parse_value_text [OF assms(2,1) _ st]) (simp add: rest_moved)
    ultimately show ?thesis
      using False pl sk by (cases a) (simp add: parse_argument_def Let_def render_argument_def ac_simps)
  qed
qed

lemma parse_arguments_text:
  assumes "arguments \<noteq> []" "list_all blank g"
    and "\<forall>a \<in> set arguments. printable_value (arg_value a)"
    and "\<forall>a \<in> set (named_part arguments). plain_identifier (arg_name a)"
    and "distinct (map arg_name (named_part arguments))"
    and "arg_name ` set (named_part arguments) \<inter> seenNames = {}"
    and "seenNamed \<Longrightarrow> named_part arguments = arguments"
    and "rest_of p = separated g (map (render_argument u g) arguments) @ CHR '')'' # s"
  shows "parse_arguments u done seenNamed seenNames p =
    Inr (done @ arguments, moved (length (separated g (map (render_argument u g) arguments)) + 1) p)"
  using assms
proof (induction arguments arbitrary: "done" seenNamed seenNames p)
  case (Cons a as)
  let ?w = "render_argument u g a" and ?t = "separated g (map (render_argument u g) as)"
  let ?names = "if arg_name a = [] then seenNames else insert (arg_name a) seenNames"
  let ?p1 = "moved (length ?w) p" and ?p2 = "moved (length ?w + length g) p"
  have gap: "list_all blank g" by fact
  have positional: "if arg_name a = [] then \<not> seenNamed
      else plain_identifier (arg_name a) \<and> arg_name a \<notin> seenNames"
  proof (cases "arg_name a = []")
    case True
    have "length (named_part as) \<le> length as"
      unfolding named_part_def by (rule length_dropWhile_le)
    with True Cons.prems(7) show ?thesis by (auto simp: named_part_def)
  qed (use Cons.prems(4,6) in \<open>auto simp: named_part_def\<close>)
  have arg: "parse_argument u seenNamed seenNames p = Inr ((a, arg_name a \<noteq> [], ?names), ?p1)"
    if "rest_of p = ?w @ g @ d # x" "d \<in> {CHR '','', CHR '')''}" for d x
    using that Cons.prems(3) by (intro parse_argument_text [OF _ gap _ _ positional]) auto
  show ?case
  proof (cases "as = []")
    case True
    then have r: "rest_of p = ?w @ g @ CHR '')'' # s" using Cons.prems(8) by simp
    have "skip_space ?p1 = ?p2" using r gap by (subst skip_gap_opens) (auto simp: rest_moved)
    moreover have "consume CHR '')'' ?p2 = (True, moved 1 ?p2)"
      using r by (intro consume_yes) (simp add: rest_moved)
    ultimately show ?thesis
      using arg [OF r] True by (simp add: parse_arguments.simps [of u "done"] add.assoc)
  next
    case False
    then have r: "rest_of p = ?w @ g @ CHR '','' # g @ ?t @ CHR '')'' # s"
      using Cons.prems(8) by (simp add: separated_Cons)
    have s1: "skip_space ?p1 = ?p2" using r gap by (subst skip_gap_opens) (auto simp: rest_moved)
    have c1: "consume CHR '')'' ?p2 = (False, ?p2)"
      using r by (intro consume_no [of _ "CHR '',''"]) (auto simp: rest_moved)
    have c2: "consume CHR '','' ?p2 = (True, moved 1 ?p2)"
      using r by (intro consume_yes) (simp add: rest_moved)
    have np: "named_part (a # as) = (if arg_name a = [] then named_part as else a # as)"
      by (simp add: named_part_def)
    have np2: "named_part as = as" if "arg_name a \<noteq> []"
    proof -
      have "\<forall>b \<in> set as. arg_name b \<noteq> []"
        using Cons.prems(4) that by (auto simp: np plain_identifier_def)
      then show ?thesis by (cases as) (auto simp: named_part_def)
    qed
    obtain a' as' where as: "as = a' # as'" using False by (cases as) auto
    have a': "arg_name a' = [] \<or> plain_identifier (arg_name a')"
      using Cons.prems(4) named_part_named [of a' "a # as"] as by auto
    obtain c w where c: "render_argument u g a' = c # w" "opens c"
      using Cons.prems(3) as a' by (auto intro: render_argument_opens [of a' u g])
    then obtain t where t: "?t = c # t" by (simp add: as separated_Cons)
    let ?p3 = "moved (length g) (moved 1 ?p2)"
    have r3: "rest_of ?p3 = ?t @ CHR '')'' # s" using r by (simp add: rest_moved)
    have s3: "skip_space (moved 1 ?p2) = ?p3"
      using r gap t c by (subst skip_gap_opens [of _ g c "t @ CHR '')'' # s"]) (auto simp: rest_moved)
    have "peek ?p3 \<noteq> CHR '')''" using r3 t c by (simp add: peek_rest opens_def)
    moreover have "parse_arguments u (done @ [a]) (seenNamed \<or> arg_name a \<noteq> []) ?names ?p3 =
        Inr ((done @ [a]) @ as, moved (length ?t + 1) ?p3)"
    proof (rule Cons.IH [OF False gap _ _ _ _ _ r3])
      show "\<forall>b \<in> set as. printable_value (arg_value b)" using Cons.prems(3) by simp
      show "\<forall>b \<in> set (named_part as). plain_identifier (arg_name b)"
        "distinct (map arg_name (named_part as))"
        "arg_name ` set (named_part as) \<inter> ?names = {}"
        using Cons.prems(4-6) np2 by (auto simp: np split: if_splits)
      show "seenNamed \<or> arg_name a \<noteq> [] \<Longrightarrow> named_part as = as"
        using positional np2 by (auto split: if_splits)
    qed
    ultimately show ?thesis
      using arg [OF r] s1 c1 c2 s3 False
      by (simp add: parse_arguments.simps [of u "done"] separated_Cons ac_simps)
  qed
qed simp

section \<open>Whole annotations\<close>

definition plain_name :: "string \<Rightarrow> bool" where
  "plain_name name = (name \<noteq> [] \<and> list_all (\<lambda>c. ascii c \<and> name_rune latin_only (byte_of c)) name)"

text \<open>The position of the first byte of a comment body, \<open>k\<close> bytes after the comment.\<close>

definition body_position :: "nat \<Rightarrow> token_position \<Rightarrow> token_position" where
  "body_position k position = position\<lparr>
     pos_offset := (if 0 \<le> pos_offset position then pos_offset position + int k else pos_offset position),
     pos_column := (if 0 < pos_column position then pos_column position + int k else pos_column position)\<rparr>"

lemma name_rune_latin: "ascii c \<Longrightarrow> name_rune u (byte_of c) = name_rune latin_only (byte_of c)"
  by (simp add: ascii_def name_rune_def is_letter_def is_digit_def)

lemma parse_name_text:
  assumes "rest_of p = name @ s" "plain_name name"
    and "s = [] \<or> \<not> name_rune u (fst (decode_rune s))"
  shows "parse_name u p = (name, moved (length name) p)"
proof -
  have "advance_while (name_rune u) p = moved (length name) p"
    using assms(1)
  proof (rule advance_while_run)
    show "ascii c \<and> name_rune u (byte_of c)" if "c \<in> set name" for c
      using assms(2) that name_rune_latin [of c u] by (auto simp: plain_name_def list_all_iff)
  qed (rule assms(3))
  then show ?thesis
    using assms(1) slice_rest [of p "length name"] by (simp add: parse_name_def)
qed

lemma require_end_text: "rest_of p = [] \<Longrightarrow> require_end result p = Inr result"
  by (simp add: require_end_def skip_space_def advance_while.simps eof_rest)

lemma parse_annotation_text:
  assumes "plain_name name" "printable_arguments arguments" "list_all blank g"
    and "rest_of p = ''@'' @ name @ (if arguments = [] then []
      else g @ ''('' @ g @ separated g (map (render_argument u g) arguments) @ '')'')"
  shows "parse_annotation u p =
    Inr \<lparr>ann_name = name, ann_arguments = arguments, ann_position = cur_position p, ann_raw = []\<rparr>"
proof (cases "arguments = []")
  case True
  then have r: "rest_of p = CHR ''@'' # name" using assms(4) by simp
  then have "consume CHR ''@'' p = (True, moved 1 p)" by (rule consume_yes)
  moreover have "parse_name u (moved 1 p) = (name, moved (length name) (moved 1 p))"
    using r by (intro parse_name_text [OF _ assms(1), where s = "[]"]) (auto simp: rest_moved)
  moreover have "eof (skip_space (moved (Suc (length name)) p))"
    using r by (subst skip_gap [of _ "[]" "[]"]) (auto simp: rest_moved eof_rest)
  ultimately show ?thesis
    using assms(1) True by (simp add: parse_annotation_def plain_name_def moved_def)
next
  case False
  let ?t = "separated g (map (render_argument u g) arguments)"
  have r: "rest_of p = CHR ''@'' # name @ g @ CHR ''('' # g @ ?t @ '')''" using assms(4) False by simp
  have c0: "consume CHR ''@'' p = (True, moved 1 p)" using r by (rule consume_yes)
  have nm: "parse_name u (moved 1 p) = (name, moved (length name) (moved 1 p))"
  proof (rule parse_name_text [OF _ assms(1)])
    show "rest_of (moved 1 p) = name @ g @ CHR ''('' # g @ ?t @ '')''" using r by (simp add: rest_moved)
    show "g @ CHR ''('' # g @ ?t @ '')'' = [] \<or>
        \<not> name_rune u (fst (decode_rune (g @ CHR ''('' # g @ ?t @ '')'')))"
      using assms(3) by (cases g) (auto simp: decode_rune_ascii ascii_def blank_def name_rune_def
          is_letter_def is_digit_def in_range_def)
  qed
  let ?p3 = "moved (1 + length name + length g) p"
  have s3: "skip_space (moved (1 + length name) p) = ?p3"
    using r assms(3) by (subst skip_gap_opens [of _ g "CHR ''(''" "g @ ?t @ '')''"]) (auto simp: rest_moved)
  have e3: "\<not> eof ?p3" "consume CHR ''('' ?p3 = (True, moved 1 ?p3)"
    using r consume_yes [of ?p3] by (simp_all add: eof_rest rest_moved)
  obtain a as where as: "arguments = a # as" using False by (cases arguments) auto
  have "arg_name a = [] \<or> plain_identifier (arg_name a)"
    using assms(2) as named_part_named [of a arguments] by (auto simp: printable_arguments_def list_all_iff)
  then obtain c w where c: "render_argument u g a = c # w" "opens c"
    using assms(2) as by (auto simp: printable_arguments_def intro: render_argument_opens [of a u g])
  then obtain t where t: "?t = c # t" by (simp add: as separated_Cons)
  let ?p5 = "moved (length g + 1) ?p3"
  have r5: "rest_of ?p5 = ?t @ CHR '')'' # []" using r by (simp add: rest_moved)
  have s5: "skip_space (moved 1 ?p3) = ?p5"
    using r assms(3) t c
    by (subst skip_gap_opens [of _ g c "t @ '')''"]) (auto simp: rest_moved ac_simps)
  have c5: "consume CHR '')'' ?p5 = (False, ?p5)"
    using r5 t c by (intro consume_no [of _ c]) (auto simp: opens_def)
  have args: "parse_arguments u [] False {} ?p5 = Inr ([] @ arguments, moved (length ?t + 1) ?p5)"
    using assms(2,3) False r5
    by (intro parse_arguments_text [where s = "[]"]) (auto simp: printable_arguments_def list_all_iff)
  have fin: "require_end result (moved (length ?t + 1) ?p5) = Inr result" for result
    using r by (intro require_end_text) (simp add: rest_moved)
  show ?thesis
    using c0 nm s3 e3 s5 c5 args fin assms(1)
    by (simp add: parse_annotation_def plain_name_def Let_def) (simp add: moved_def)
qed

text \<open>The comment body: the printed annotation without marker and blanks.\<close>

lemma trim_left_keep:
  "s = [] \<or> ascii (hd s) \<and> \<not> is_space (byte_of (hd s)) \<Longrightarrow> trim_left_func is_space s = s"
  by (cases s) (auto simp: trim_left_func.simps decode_rune_ascii)

lemma trim_left_gap:
  "list_all blank g \<Longrightarrow> s = [] \<or> ascii (hd s) \<and> \<not> is_space (byte_of (hd s)) \<Longrightarrow>
   trim_left_func is_space (g @ s) = s"
proof (induction g)
  case (Cons c g)
  then have "ascii c" "is_space (byte_of c)" using blank_ascii by auto
  then have "trim_left_func is_space ((c # g) @ s) = trim_left_func is_space (g @ s)"
    by (subst trim_left_func.simps) (simp add: decode_rune_ascii)
  with Cons show ?case by simp
qed (simp add: trim_left_keep)

lemma trim_right_keep:
  "ascii (last s) \<Longrightarrow> \<not> is_space (byte_of (last s)) \<Longrightarrow> trim_right_func is_space s = s"
  by (cases "s = []")
    (auto simp: trim_right_func.simps decode_last_rune_def Let_def ascii_def last_conv_nth)

lemma comment_body_text:
  assumes "list_all blank g" "body \<noteq> []"
    and "ascii (hd body)" "\<not> is_space (byte_of (hd body))"
    and "ascii (last body)" "\<not> is_space (byte_of (last body))"
  shows "annotation_comment_body (''//'' @ g @ body) position =
    Some (body, body_position (2 + length g) position)"
proof -
  have l: "trim_left_space (''//'' @ g @ body) = ''//'' @ g @ body"
    unfolding trim_left_space_def
    by (rule trim_left_keep) (simp add: ascii_def is_space_def in_range_def)
  have g: "trim_left_space (g @ body) = body"
    unfolding trim_left_space_def using assms by (intro trim_left_gap) auto
  have t: "trim_space body = body"
    unfolding trim_space_def using assms by (simp add: trim_left_keep trim_right_keep)
  show ?thesis
    using l g t by (simp add: annotation_comment_body_def Let_def body_position_def)
qed

lemma name_rune_no_space: "ascii c \<Longrightarrow> name_rune latin_only (byte_of c) \<Longrightarrow> \<not> is_space (byte_of c)"
  by (auto simp: ascii_def name_rune_def is_letter_def is_digit_def is_space_def in_range_def)

text \<open>
  C13. Round trip of the annotation parser: for every annotation name, every list of printable
  arguments (positional before named, distinct names, any nesting of lists) and any blanks
  around the punctuation, \<open>ParseComment\<close> accepts the printed comment and returns exactly that
  name and those arguments, the position of the comment body and the raw line.
\<close>

theorem ParseComment_render:
  assumes "plain_name name" "printable_arguments arguments" "list_all blank g"
  shows "ParseComment u (render_annotation u g name arguments) position =
    Some (Inr \<lparr>ann_name = name, ann_arguments = arguments,
      ann_position = body_position (2 + length g) position,
      ann_raw = render_annotation u g name arguments\<rparr>)"
proof -
  define body where "body = ''@'' @ name @ (if arguments = [] then []
      else g @ ''('' @ g @ separated g (map (render_argument u g) arguments) @ '')'')"
  have r: "render_annotation u g name arguments = ''//'' @ g @ body"
    by (simp add: render_annotation_def body_def)
  have "last name \<in> set name" "name \<noteq> []" using assms(1) by (auto simp: plain_name_def)
  then have "ascii (last name)" "\<not> is_space (byte_of (last name))"
    using assms(1) name_rune_no_space [of "last name"] by (auto simp: plain_name_def list_all_iff)
  then have e: "ascii (last body)" "\<not> is_space (byte_of (last body))"
    using \<open>name \<noteq> []\<close> by (auto simp: body_def ascii_def is_space_def in_range_def)
  have "annotation_comment_body (''//'' @ g @ body) position = Some (body, body_position (2 + length g) position)"
    using assms(3) e by (intro comment_body_text) (auto simp: body_def ascii_def is_space_def in_range_def)
  moreover have "has_prefix body ''@''" by (simp add: body_def)
  moreover have "parse_annotation u \<lparr>cur_input = body, cur_offset = 0, cur_position = body_position (2 + length g) position\<rparr> =
      Inr \<lparr>ann_name = name, ann_arguments = arguments, ann_position = body_position (2 + length g) position, ann_raw = []\<rparr>"
    using parse_annotation_text [OF assms, of "\<lparr>cur_input = body, cur_offset = 0, cur_position = body_position (2 + length g) position\<rparr>" u]
    by (simp add: rest_of_def body_def)
  ultimately show ?thesis
    by (simp add: ParseComment_def r)
qed

theorem ParseComment_render_witness:
  "let arguments = [\<lparr>arg_name = [], arg_value = KindString ''a'' \<rparr>,
       \<lparr>arg_name = ''max'', arg_value = KindList [KindInteger (-1), KindBoolean True, KindIdentifier ''T'']\<rparr>]
   in plain_name ''Cache'' \<and> printable_arguments arguments
    \<and> ParseComment latin_only (render_annotation latin_only '' '' ''Cache'' arguments) no_position =
      Some (Inr \<lparr>ann_name = ''Cache'', ann_arguments = arguments,
        ann_position = body_position (2 + length '' '') no_position,
        ann_raw = render_annotation latin_only '' '' ''Cache'' arguments\<rparr>)"
proof -
  let ?arguments = "[\<lparr>arg_name = [], arg_value = KindString ''a'' \<rparr>,
       \<lparr>arg_name = ''max'', arg_value = KindList [KindInteger (-1), KindBoolean True, KindIdentifier ''T'']\<rparr>]"
  have a: "plain_name ''Cache''" "printable_arguments ?arguments" "list_all blank '' ''"
    by code_simp+
  show ?thesis
    using ParseComment_render [OF a, of latin_only no_position] a(1,2) unfolding Let_def by blast
qed

end
