(* ===== verification/Parser_Soundness.thy ===== *)
theory Parser_Soundness
  imports Parser_Roundtrip
begin

text \<open>
  What the parsers guarantee of everything they accept: integers fit 64 bits, identifiers are
  not empty and not the boolean words, positional arguments come first, argument names are
  distinct, import bindings are exported and distinct and import paths are valid.
\<close>

section \<open>Annotations\<close>

fun value_ok :: "annotation_value \<Rightarrow> bool" where
  "value_ok (KindInteger i) = (- (2 ^ 63) \<le> i \<and> i < 2 ^ 63)"
| "value_ok (KindIdentifier s) = (s \<noteq> [] \<and> s \<noteq> ''true'' \<and> s \<noteq> ''false'')"
| "value_ok (KindList vs) = list_all value_ok vs"
| "value_ok _ = True"

lemma parse_int64_bounds: "parse_int64 s = Some i \<Longrightarrow> - (2 ^ 63) \<le> i \<and> i < 2 ^ 63"
  by (auto simp: parse_int64_def Let_def split: if_splits)

lemma parse_values_ok:
  shows "parse_value u p = Inr (v, q) \<Longrightarrow> value_ok v"
    and "parse_list u p = Inr (v, q) \<Longrightarrow> value_ok v"
    and "parse_list_items u items p = Inr (v, q) \<Longrightarrow> list_all value_ok items \<Longrightarrow> value_ok v"
proof (induction arbitrary: v q and v q and v q
    rule: parse_value_parse_list_parse_list_items.induct)
  case (1 u p)
  let ?p = "skip_space p"
  show ?case
  proof (cases "peek ?p = CHR ''['' \<and> \<not> eof ?p")
    case True
    with 1 show ?thesis by (auto simp: parse_value.simps [of u p] Let_def)
  next
    case False
    with "1.prems" show ?thesis
      by (auto simp: parse_value.simps [of u p] Let_def dest: parse_int64_bounds
          split: if_splits sum.splits prod.splits option.splits)
  qed
next
  case (2 u p)
  obtain b1 p1 where p1: "consume CHR ''['' p = (b1, p1)" by fastforce
  obtain b2 p2 where p2: "consume CHR '']'' (skip_space p1) = (b2, p2)" by fastforce
  show ?case
    using "2.prems" "2.IH" [OF p1 [symmetric] _ p2 [symmetric]] p1 p2
    by (auto simp: parse_list.simps [of u p] split: if_splits)
next
  case (3 u items p)
  then obtain w p1 where w: "parse_value u p = Inr (w, p1)"
    by (auto simp: parse_list_items.simps [of u items p] split: sum.splits)
  obtain b2 p2 where p2: "consume CHR '']'' (skip_space p1) = (b2, p2)" by fastforce
  obtain b3 p3 where p3: "consume CHR '','' p2 = (b3, p3)" by fastforce
  have ok: "list_all value_ok (items @ [w])" using "3.IH"(1) [OF w] "3.prems"(2) by simp
  show ?case
  proof (cases b2)
    case True
    with "3.prems"(1) w p2 ok show ?thesis by (auto simp: parse_list_items.simps [of u items p])
  next
    case False
    with "3.prems"(1) w p2 p3 have b3: b3 "peek (skip_space p3) \<noteq> CHR '']''"
      and next_items: "parse_list_items u (items @ [w]) (skip_space p3) = Inr (v, q)"
      by (auto simp: parse_list_items.simps [of u items p] split: if_splits)
    show ?thesis
      using "3.IH"(2) [OF w refl p2 [symmetric] False p3 [symmetric]] b3 next_items ok by blast
  qed
qed

definition arguments_ok :: "argument list \<Rightarrow> bool" where
  "arguments_ok arguments =
     (list_all (\<lambda>a. value_ok (arg_value a)) arguments
      \<and> list_all (\<lambda>a. arg_name a \<noteq> []) (named_part arguments)
      \<and> distinct (map arg_name (named_part arguments)))"

lemma parse_argument_result:
  assumes "parse_argument u seenNamed seenNames p = Inr ((a, named, names), q)"
  shows "value_ok (arg_value a)" "named = (arg_name a \<noteq> [])"
    "named \<Longrightarrow> arg_name a \<notin> seenNames \<and> names = insert (arg_name a) seenNames"
    "\<not> named \<Longrightarrow> \<not> seenNamed \<and> names = seenNames"
proof -
  obtain candidate p1 where p1: "parse_identifier u (skip_space p) = (candidate, p1)" by fastforce
  define r where "r = (if candidate \<noteq> [] then consume CHR ''='' (skip_space p1)
      else (False, skip_space p1))"
  obtain assigned p2 where p2: "r = (assigned, p2)" by fastforce
  note unfolded = assms [unfolded parse_argument_def Let_def p1 prod.case r_def [symmetric] p2]
  show "value_ok (arg_value a)" "named = (arg_name a \<noteq> [])"
    "named \<Longrightarrow> arg_name a \<notin> seenNames \<and> names = insert (arg_name a) seenNames"
    "\<not> named \<Longrightarrow> \<not> seenNamed \<and> names = seenNames"
    using unfolded by (auto split: if_splits sum.splits dest: parse_values_ok)
qed

lemma named_part_snoc:
  "named_part (as @ [a]) = (if named_part as = [] \<and> arg_name a = [] then [] else named_part as @ [a])"
  by (induction as) (auto simp: named_part_def)

lemma parse_arguments_ok:
  assumes "parse_arguments u accepted seenNamed seenNames p = Inr (arguments, q)"
    and "arguments_ok accepted" "seenNames = arg_name ` set (named_part accepted)"
    and "seenNamed = (named_part accepted \<noteq> [])"
  shows "arguments_ok arguments"
  using assms
proof (induction u accepted seenNamed seenNames p rule: parse_arguments.induct)
  case (1 u accepted seenNamed seenNames p)
  from "1.prems"(1) obtain a named names p1
    where a: "parse_argument u seenNamed seenNames p = Inr ((a, named, names), p1)"
    by (auto simp: parse_arguments.simps [of u accepted] split: sum.splits)
  note res = parse_argument_result [OF a]
  have ok: "arguments_ok (accepted @ [a])"
    and names: "names = arg_name ` set (named_part (accepted @ [a]))"
    and nm: "(seenNamed \<or> named) = (named_part (accepted @ [a]) \<noteq> [])"
    using "1.prems"(2-4) res by (cases named; auto simp: arguments_ok_def named_part_snoc)+
  obtain b2 p2 where p2: "consume CHR '')'' (skip_space p1) = (b2, p2)" by fastforce
  obtain b3 p3 where p3: "consume CHR '','' p2 = (b3, p3)" by fastforce
  show ?case
  proof (cases b2)
    case True
    with "1.prems"(1) a p2 ok show ?thesis by (auto simp: parse_arguments.simps [of u accepted])
  next
    case False
    with "1.prems"(1) a p2 p3 have b3: b3 "peek (skip_space p3) \<noteq> CHR '')''"
      and more: "parse_arguments u (accepted @ [a]) (seenNamed \<or> named) names (skip_space p3) = Inr (arguments, q)"
      by (auto simp: parse_arguments.simps [of u accepted] split: if_splits)
    show ?thesis
      using "1.IH" [OF a refl refl refl p2 [symmetric] False p3 [symmetric]] b3 more ok names nm by blast
  qed
qed

lemma parse_name_prefix: "parse_name u p = (name, q) \<Longrightarrow> has_prefix (rest_of p) name"
  using advance_while_advances [of p "name_rune u"]
  by (auto simp: parse_name_def Let_def slice_def rest_of_def has_prefix_def advances_def min_def)

lemma require_end_result: "require_end result p = Inr a \<Longrightarrow> a = result"
  by (auto simp: require_end_def split: if_splits)

lemma parse_annotation_result:
  assumes "parse_annotation u p = Inr a"
  shows "ann_name a \<noteq> [] \<and> has_prefix (rest_of p) (CHR ''@'' # ann_name a)
    \<and> ann_position a = cur_position p \<and> arguments_ok (ann_arguments a)"
proof -
  from assms have c1: "consume CHR ''@'' p = (True, moved 1 p)"
    by (cases "CHR ''@''" p rule: consume_cases) (auto simp: parse_annotation_def)
  obtain name p2 where n: "parse_name u (moved 1 p) = (name, p2)" by fastforce
  obtain r where r: "rest_of p = CHR ''@'' # r"
    using c1 by (auto simp: consume_rest split: list.splits if_splits)
  have pre: "has_prefix (rest_of p) (CHR ''@'' # name)"
    using parse_name_prefix [OF n] r by (simp add: rest_moved)
  have pos: "cur_position p2 = cur_position p"
    using parse_name_advances [OF n] by (simp add: advances_def moved_def)
  have empty: "arguments_ok []" by (simp add: arguments_ok_def named_part_def)
  have args: "arguments_ok arguments" if "parse_arguments u [] False {} p5 = Inr (arguments, p6)" for p5 arguments p6
    using parse_arguments_ok [OF that empty] by (simp add: named_part_def)
  obtain b4 p4 where p4: "consume CHR ''('' (skip_space p2) = (b4, p4)" by fastforce
  obtain b5 p5 where p5: "consume CHR '')'' (skip_space p4) = (b5, p5)" by fastforce
  show ?thesis
    using assms pre pos empty args
    unfolding parse_annotation_def c1 n p4 p5 prod.case Let_def
    by (auto split: if_splits sum.splits dest!: require_end_result)
qed

text \<open>
  C19. Whatever \<open>ParseComment\<close> accepts is a well formed annotation of that line: the name is the
  non-empty text after the \<open>@\<close> of the comment body, the position is that of the body, the raw
  text is the line, all integers fit 64 bits, identifier values are not boolean words,
  positional arguments precede named ones and no argument name is repeated.
\<close>

theorem ParseComment_sound:
  assumes "ParseComment u input position = Some (Inr a)"
  shows "\<exists>body. annotation_comment_body input position = Some (body, ann_position a)
    \<and> has_prefix body (CHR ''@'' # ann_name a) \<and> ann_name a \<noteq> []
    \<and> ann_raw a = input \<and> arguments_ok (ann_arguments a)"
proof -
  obtain body position' where b: "annotation_comment_body input position = Some (body, position')"
    using assms by (auto simp: ParseComment_def split: option.splits)
  let ?p = "\<lparr>cur_input = body, cur_offset = 0, cur_position = position'\<rparr>"
  from assms b obtain a' where a': "parse_annotation u ?p = Inr a'" "a = a'\<lparr>ann_raw := input\<rparr>"
    by (auto simp: ParseComment_def split: if_splits sum.splits)
  with b parse_annotation_result [OF a'(1)] show ?thesis by (simp add: rest_of_def)
qed

theorem ParseComment_sound_witness:
  "\<exists>body. annotation_comment_body ''// @Service(7)'' no_position = Some (body, no_position\<lparr>pos_offset := 3\<rparr>)
    \<and> has_prefix body ''@Service'' \<and> ''Service'' \<noteq> [] \<and> ''// @Service(7)'' = ''// @Service(7)''
    \<and> arguments_ok [\<lparr>arg_name = [], arg_value = KindInteger 7\<rparr>]"
proof -
  have "ParseComment latin_only ''// @Service(7)'' no_position = Some (Inr
     \<lparr>ann_name = ''Service'', ann_arguments = [\<lparr>arg_name = [], arg_value = KindInteger 7\<rparr>],
      ann_position = no_position\<lparr>pos_offset := 3\<rparr>, ann_raw = ''// @Service(7)''\<rparr>)"
    by code_simp
  from ParseComment_sound [OF this] show ?thesis by simp
qed

section \<open>Import directives\<close>

lemma str_contains_single: "str_contains v [c] \<longleftrightarrow> c \<in> set v"
  by (induction v) auto

definition import_path_ok :: "string \<Rightarrow> bool" where
  "import_path_ok v = (v \<noteq> [] \<and> trim_space v = v \<and> CHR 0x5C \<notin> set v
     \<and> hd v \<noteq> CHR ''.'' \<and> hd v \<noteq> CHR ''/'' \<and> \<not> str_contains v ''//'')"

lemma validate_path: "validateAnnotationImportPath v = None \<longleftrightarrow> import_path_ok v"
  by (cases v) (auto simp: validateAnnotationImportPath_def import_path_ok_def str_contains_single)

definition binding_ok :: "unicode_tables \<Rightarrow> import_binding \<Rightarrow> bool" where
  "binding_ok u b = (exportedIdentifier u (bind_imported b) \<and> bind_imported b \<noteq> []
     \<and> bind_local b \<noteq> [] \<and> bind_local b \<noteq> ''_'')"

definition directive_ok :: "unicode_tables \<Rightarrow> import_directive \<Rightarrow> bool" where
  "directive_ok u d = (import_path_ok (imp_package d) \<and>
     (case imp_kind d of
        ImportNamed \<Rightarrow> imp_namespace d = [] \<and> imp_bindings d \<noteq> []
          \<and> list_all (binding_ok u) (imp_bindings d) \<and> distinct (map bind_imported (imp_bindings d))
      | ImportNamespace \<Rightarrow> imp_bindings d = [] \<and> imp_namespace d \<noteq> [] \<and> imp_namespace d \<noteq> ''_''))"

lemma directive_ok_raw [simp]: "directive_ok u (d\<lparr>imp_raw := raw\<rparr>) = directive_ok u d"
  by (auto simp: directive_ok_def split: import_kind.splits)

lemma parse_binding_ok:
  assumes "parse_binding u seen p = Inr (b, q)"
  shows "binding_ok u b \<and> bind_imported b \<notin> seen"
proof -
  obtain s p1 where p1: "import_identifier u p = (s, p1)" by fastforce
  obtain b2 p2 where p2: "consume_word u ''as'' (skip_space p1) = (b2, p2)" by fastforce
  obtain b3 p3 where p3: "require_space p2 = (b3, p3)" by fastforce
  obtain l p4 where p4: "import_identifier u p3 = (l, p4)" by fastforce
  show ?thesis
    using assms unfolding parse_binding_def p1 prod.case p2 p3 p4
    by (auto simp: binding_ok_def split: if_splits)
qed

lemma parse_bindings_ok:
  assumes "parse_bindings u accepted seen p = Inr (bindings, q)"
    and "list_all (binding_ok u) accepted" "distinct (map bind_imported accepted)"
    and "seen = bind_imported ` set accepted"
  shows "bindings \<noteq> [] \<and> list_all (binding_ok u) bindings \<and> distinct (map bind_imported bindings)"
  using assms
proof (induction u accepted seen p rule: parse_bindings.induct)
  case (1 u accepted seen p)
  from "1.prems"(1) obtain b p1 where b: "parse_binding u seen p = Inr (b, p1)"
    by (auto simp: parse_bindings.simps [of u accepted] split: sum.splits)
  have ok: "list_all (binding_ok u) (accepted @ [b])" "distinct (map bind_imported (accepted @ [b]))"
    and seen: "insert (bind_imported b) seen = bind_imported ` set (accepted @ [b])"
    using "1.prems"(2-4) parse_binding_ok [OF b] by auto
  obtain b2 p2 where p2: "consume CHR ''}'' (skip_space p1) = (b2, p2)" by fastforce
  obtain b3 p3 where p3: "consume CHR '','' p2 = (b3, p3)" by fastforce
  show ?case
  proof (cases b2)
    case True
    with "1.prems"(1) b p2 ok show ?thesis by (auto simp: parse_bindings.simps [of u accepted])
  next
    case False
    with "1.prems"(1) b p2 p3 have b3: b3 "peek (skip_space p3) \<noteq> CHR ''}''"
      and more: "parse_bindings u (accepted @ [b]) (insert (bind_imported b) seen) (skip_space p3) = Inr (bindings, q)"
      by (auto simp: parse_bindings.simps [of u accepted] split: if_splits)
    show ?thesis
      using "1.IH" [OF b refl p2 [symmetric] False p3 [symmetric]] b3 more ok seen by blast
  qed
qed

lemma parse_from_package_ok: "parse_from_package u p = Inr (path, q) \<Longrightarrow> import_path_ok path"
  by (auto simp: parse_from_package_def Let_def validate_path
      split: prod.splits if_splits sum.splits option.splits)

lemma parse_import_ok:
  assumes "parse_import u p = Inr d"
  shows "directive_ok u d"
proof -
  have named: "directive_ok u d" if "parse_named u q = Inr d" for q
  proof -
    obtain c q1 where "consume CHR ''}'' (skip_space q) = (c, q1)" by fastforce
    with that show ?thesis
      by (auto simp: parse_named_def directive_ok_def split: if_splits sum.splits
          dest!: parse_from_package_ok parse_bindings_ok)
  qed
  have namespace: "directive_ok u d" if "parse_namespace u q = Inr d" for q
    using that by (auto simp: parse_namespace_def directive_ok_def
        split: prod.splits if_splits sum.splits dest: parse_from_package_ok)
  show ?thesis
    using assms named namespace by (auto simp: parse_import_def split: prod.splits if_splits)
qed

text \<open>
  C20. Every accepted import directive is usable: the package path is a non-empty absolute
  slash path without surrounding space, backslash or empty segment; a named import binds at
  least one exported symbol, each symbol once and to a usable local name; a namespace import
  has a usable alias and no bindings. The raw text is the comment line.
\<close>

theorem ParseImportComment_sound:
  assumes "ParseImportComment u input position = Some (Inr d)"
  shows "directive_ok u d \<and> imp_raw d = input"
proof -
  obtain body position' d' where
      "parse_import u \<lparr>cur_input = body, cur_offset = length importDirectiveName, cur_position = position'\<rparr> = Inr d'"
      "d = d'\<lparr>imp_raw := input\<rparr>"
    using assms by (auto simp: ParseImportComment_def split: option.splits if_splits sum.splits)
  with parse_import_ok [of u _ d'] show ?thesis by auto
qed

theorem ParseImportComment_sound_witness:
  "let input = ''// @import { A, B as C } from '' @ [CHR 0x22] @ ''x/y'' @ [CHR 0x22];
       d = \<lparr>imp_kind = ImportNamed, imp_package = ''x/y'', imp_namespace = [],
         imp_bindings = [\<lparr>bind_imported = ''A'', bind_local = ''A''\<rparr>,
                         \<lparr>bind_imported = ''B'', bind_local = ''C''\<rparr>],
         imp_position = no_position\<lparr>pos_offset := 3\<rparr>, imp_physical_position = no_position,
         imp_raw = input\<rparr>
   in directive_ok latin_only d \<and> imp_raw d = input"
proof -
  have "ParseImportComment latin_only (''// @import { A, B as C } from '' @ [CHR 0x22] @ ''x/y'' @ [CHR 0x22])
      no_position = Some (Inr \<lparr>imp_kind = ImportNamed, imp_package = ''x/y'', imp_namespace = [],
         imp_bindings = [\<lparr>bind_imported = ''A'', bind_local = ''A''\<rparr>,
                         \<lparr>bind_imported = ''B'', bind_local = ''C''\<rparr>],
         imp_position = no_position\<lparr>pos_offset := 3\<rparr>, imp_physical_position = no_position,
         imp_raw = ''// @import { A, B as C } from '' @ [CHR 0x22] @ ''x/y'' @ [CHR 0x22]\<rparr>)"
    by code_simp
  from ParseImportComment_sound [OF this] show ?thesis unfolding Let_def .
qed

end
