(* ===== verification/Go_Types.thy ===== *)
theory Go_Types
  imports Prelude
begin

text \<open>
  The part of package \<open>go/types\<close> the provider graph consults: type terms, \<open>Unalias\<close>,
  \<open>Identical\<close> and \<open>TypeString\<close> with an import-path qualifier, and on top of them
  \<open>provider.TypeID\<close> (\<open>compiler/provider/provider.go\<close>) and \<open>semanticTypeKey\<close>
  (\<open>compiler/graph/build.go\<close>).

  The terms are the predeclared types, declared types with type arguments, aliases with their
  target, the composite types and function types. Struct and interface literals are not part of
  the type language.
\<close>

section \<open>Type terms\<close>

datatype chan_dir = SendRecv | SendOnly | RecvOnly

datatype go_type =
    Basic string
  | Named string string "go_type list"
  | Alias string string "go_type list" go_type
  | Array int go_type
  | Slice go_type
  | Pointer go_type
  | Map go_type go_type
  | Chan chan_dir go_type
  | Signature "(string \<times> go_type) list" bool "(string \<times> go_type) list"

fun Unalias :: "go_type \<Rightarrow> go_type" where
  "Unalias (Alias pkg name targs t) = Unalias t"
| "Unalias t = t"

text \<open>
  \<open>types.Identical\<close> compares predeclared types by kind (\<open>byte\<close> is \<open>uint8\<close>, \<open>rune\<close> is
  \<open>int32\<close>), looks through aliases and ignores the names of parameters and results: two types
  are identical when they have the same normal form.
\<close>

definition basic_kind :: "string \<Rightarrow> string" where
  "basic_kind name =
     (if name = ''byte'' then ''uint8'' else if name = ''rune'' then ''int32'' else name)"

fun type_normal :: "go_type \<Rightarrow> go_type" where
  "type_normal (Basic name) = Basic (basic_kind name)"
| "type_normal (Named pkg name targs) = Named pkg name (map type_normal targs)"
| "type_normal (Alias pkg name targs t) = type_normal t"
| "type_normal (Array n t) = Array n (type_normal t)"
| "type_normal (Slice t) = Slice (type_normal t)"
| "type_normal (Pointer t) = Pointer (type_normal t)"
| "type_normal (Map k t) = Map (type_normal k) (type_normal t)"
| "type_normal (Chan d t) = Chan d (type_normal t)"
| "type_normal (Signature params variadic results) =
     Signature (map (\<lambda>(x, t). ([], type_normal t)) params) variadic
       (map (\<lambda>(x, t). ([], type_normal t)) results)"

definition Identical :: "go_type \<Rightarrow> go_type \<Rightarrow> bool" where
  "Identical s t = (type_normal s = type_normal t)"

section \<open>Printed types\<close>

text \<open>\<open>types.TypeString\<close> with the qualifier \<open>pkg.Path()\<close>.\<close>

definition qualified_name :: "string \<Rightarrow> string \<Rightarrow> string" where
  "qualified_name pkg name = (if pkg = [] then name else pkg @ ''.'' @ name)"

fun receive_channel :: "go_type \<Rightarrow> bool" where
  "receive_channel (Chan RecvOnly t) = True"
| "receive_channel t = False"

text \<open>
  A parameter list: the printed types come in as a list, so that the recursion below stays
  structural; the last parameter of a variadic function prints its element type.
\<close>

fun tuple_text :: "bool \<Rightarrow> (string \<times> string) list \<Rightarrow> string list" where
  "tuple_text variadic [] = []"
| "tuple_text variadic [(name, text)] =
     [(if name = [] then [] else name @ '' '') @
      (if variadic then ''...'' @ drop 2 text else text)]"
| "tuple_text variadic ((name, text) # rest) =
     ((if name = [] then [] else name @ '' '') @ text) # tuple_text variadic rest"

definition signature_text :: "(string \<times> string) list \<Rightarrow> bool \<Rightarrow> (string \<times> string) list \<Rightarrow> string" where
  "signature_text params variadic results =
     ''func('' @ join_with '', '' (tuple_text variadic params) @ '')'' @
     (case results of
        [] \<Rightarrow> []
      | [([], text)] \<Rightarrow> '' '' @ text
      | _ \<Rightarrow> '' ('' @ join_with '', '' (tuple_text False results) @ '')'')"

fun type_string :: "go_type \<Rightarrow> string" where
  "type_string (Basic name) = name"
| "type_string (Named pkg name targs) =
     qualified_name pkg name @
     (if targs = [] then [] else ''['' @ join_with '','' (map type_string targs) @ '']'')"
| "type_string (Alias pkg name targs t) =
     qualified_name pkg name @
     (if targs = [] then [] else ''['' @ join_with '','' (map type_string targs) @ '']'')"
| "type_string (Array n t) = ''['' @ show_int n @ '']'' @ type_string t"
| "type_string (Slice t) = ''[]'' @ type_string t"
| "type_string (Pointer t) = ''*'' @ type_string t"
| "type_string (Map k t) = ''map['' @ type_string k @ '']'' @ type_string t"
| "type_string (Chan d t) =
     (case d of
        SendRecv \<Rightarrow> ''chan '' @ (if receive_channel t then ''('' @ type_string t @ '')'' else type_string t)
      | SendOnly \<Rightarrow> ''chan<- '' @ type_string t
      | RecvOnly \<Rightarrow> ''<-chan '' @ type_string t)"
| "type_string (Signature params variadic results) =
     signature_text (map (\<lambda>(x, t). (x, type_string t)) params) variadic
       (map (\<lambda>(x, t). (x, type_string t)) results)"

text \<open>\<open>provider.TypeID\<close>; \<open>None\<close> is a nil type.\<close>

definition TypeID :: "go_type option \<Rightarrow> string" where
  "TypeID t = (case t of None \<Rightarrow> ''<invalid>'' | Some v \<Rightarrow> type_string v)"

definition chan_dir_number :: "chan_dir \<Rightarrow> int" where
  "chan_dir_number d = (case d of SendRecv \<Rightarrow> 0 | SendOnly \<Rightarrow> 1 | RecvOnly \<Rightarrow> 2)"

fun type_key :: "go_type \<Rightarrow> string" where
  "type_key (Alias pkg name targs t) = type_key t"
| "type_key (Array n t) = ''['' @ show_int n @ '']'' @ type_key t"
| "type_key (Slice t) = ''[]'' @ type_key t"
| "type_key (Pointer t) = ''*'' @ type_key t"
| "type_key (Map k t) = ''map['' @ type_key k @ '']'' @ type_key t"
| "type_key (Chan d t) = ''chan'' @ show_int (chan_dir_number d) @ '':'' @ type_key t"
| "type_key t = TypeID (Some t)"

definition semanticTypeKey :: "go_type option \<Rightarrow> string" where
  "semanticTypeKey t = (case t of None \<Rightarrow> ''<invalid>'' | Some v \<Rightarrow> type_key v)"

section \<open>Keys and identity\<close>

lemma Identical_refl [simp]: "Identical t t"
  by (simp add: Identical_def)

lemma Identical_sym: "Identical s t \<Longrightarrow> Identical t s"
  by (simp add: Identical_def)

lemma Identical_trans: "Identical r s \<Longrightarrow> Identical s t \<Longrightarrow> Identical r t"
  by (simp add: Identical_def)

lemma type_normal_idem [simp]: "type_normal (type_normal t) = type_normal t"
  by (induction t rule: type_normal.induct) (auto simp: basic_kind_def)

lemma Unalias_normal [simp]: "type_normal (Unalias t) = type_normal t"
  by (induction t rule: Unalias.induct) auto

text \<open>
  Types whose key does not depend on how they are spelled: below the composite constructors
  \<open>semanticTypeKey\<close> looks through, no alias, no \<open>byte\<close> or \<open>rune\<close> and no parameter names
  are left.
\<close>

fun key_safe :: "go_type \<Rightarrow> bool" where
  "key_safe (Alias pkg name targs t) = key_safe t"
| "key_safe (Array n t) = key_safe t"
| "key_safe (Slice t) = key_safe t"
| "key_safe (Pointer t) = key_safe t"
| "key_safe (Map k t) = (key_safe k \<and> key_safe t)"
| "key_safe (Chan d t) = key_safe t"
| "key_safe t = (type_normal t = t)"

lemma type_key_normal: "key_safe t \<Longrightarrow> type_key (type_normal t) = type_key t"
  by (induction t rule: key_safe.induct) auto

lemma identical_same_key:
  "Identical s t \<Longrightarrow> key_safe s \<Longrightarrow> key_safe t \<Longrightarrow> type_key s = type_key t"
  by (metis Identical_def type_key_normal)

end
