(* ===== verification/Ready_Queue.thy ===== *)
theory Ready_Queue
  imports Prelude
begin

text \<open>
  Go's \<open>container/heap\<close> on a slice, as \<open>readyPriorityQueue\<close> of \<open>compiler/graph/build.go\<close> uses
  it: \<open>Init\<close>, \<open>Push\<close> and \<open>Pop\<close> with their sift loops. The locale \<open>min_queue\<close> is the contract
  the construction order relies on; it is interpreted on this heap.
\<close>

section \<open>The contract of a priority queue\<close>

locale min_queue =
  fixes lt :: "'a \<Rightarrow> 'a \<Rightarrow> bool"
    and queue_inv :: "'a list \<Rightarrow> bool"
    and queue_init :: "'a list \<Rightarrow> 'a list"
    and queue_push :: "'a \<Rightarrow> 'a list \<Rightarrow> 'a list"
    and queue_pop :: "'a list \<Rightarrow> 'a \<times> 'a list"
  assumes init_inv: "queue_inv (queue_init xs)"
    and init_mset: "mset (queue_init xs) = mset xs"
    and push_inv: "queue_inv q \<Longrightarrow> queue_inv (queue_push x q)"
    and push_mset: "mset (queue_push x q) = add_mset x (mset q)"
    and pop_inv: "queue_inv q \<Longrightarrow> q \<noteq> [] \<Longrightarrow> queue_inv (snd (queue_pop q))"
    and pop_mset: "q \<noteq> [] \<Longrightarrow> add_mset (fst (queue_pop q)) (mset (snd (queue_pop q))) = mset q"
    and pop_least: "queue_inv q \<Longrightarrow> q \<noteq> [] \<Longrightarrow> y \<in> set q \<Longrightarrow> \<not> lt y (fst (queue_pop q))"
begin

lemma init_set: "set (queue_init xs) = set xs"
  by (metis init_mset set_mset_mset)

lemma push_set: "set (queue_push x q) = insert x (set q)"
  by (metis push_mset set_mset_add_mset_insert set_mset_mset)

lemma push_distinct: "x \<notin> set q \<Longrightarrow> distinct q \<Longrightarrow> distinct (queue_push x q)"
  by (metis distinct.simps(2) mset.simps(2) mset_eq_imp_distinct_iff push_mset)

lemma pop_cases:
  assumes "q \<noteq> []" "queue_pop q = (x, q')"
  shows "set q = insert x (set q')" "distinct q \<Longrightarrow> x \<notin> set q' \<and> distinct q'"
    "length q = Suc (length q')"
proof -
  have m: "mset (x # q') = mset q" using pop_mset [OF assms(1)] assms(2) by simp
  then show "set q = insert x (set q')" by (metis list.set(2) set_mset_mset)
  show "distinct q \<Longrightarrow> x \<notin> set q' \<and> distinct q'"
    using m by (metis distinct.simps(2) mset_eq_imp_distinct_iff)
  show "length q = Suc (length q')" using m by (metis length_Cons mset_eq_length)
qed

end

section \<open>The heap\<close>

definition swap_at :: "nat \<Rightarrow> nat \<Rightarrow> 'a list \<Rightarrow> 'a list" where
  "swap_at i j xs = xs[i := xs ! j, j := xs ! i]"

function heap_up :: "('a \<Rightarrow> 'a \<Rightarrow> bool) \<Rightarrow> 'a list \<Rightarrow> nat \<Rightarrow> 'a list" where
  "heap_up lt xs j =
     (let i = (j - 1) div 2 in
      if i = j \<or> \<not> lt (xs ! j) (xs ! i) then xs else heap_up lt (swap_at i j xs) i)"
  by pat_completeness auto
termination
  by (relation "measure (\<lambda>(lt, xs, j). j)") auto

function heap_down :: "('a \<Rightarrow> 'a \<Rightarrow> bool) \<Rightarrow> 'a list \<Rightarrow> nat \<Rightarrow> nat \<Rightarrow> 'a list" where
  "heap_down lt xs i n =
     (let j1 = 2 * i + 1 in
      if n \<le> j1 then xs
      else let j = (if j1 + 1 < n \<and> lt (xs ! (j1 + 1)) (xs ! j1) then j1 + 1 else j1) in
        if \<not> lt (xs ! j) (xs ! i) then xs else heap_down lt (swap_at i j xs) j n)"
  by pat_completeness auto
termination
  by (relation "measure (\<lambda>(lt, xs, i, n). n - i)") (auto split: if_splits)

declare heap_up.simps [simp del] heap_down.simps [simp del]

definition heap_init :: "('a \<Rightarrow> 'a \<Rightarrow> bool) \<Rightarrow> 'a list \<Rightarrow> 'a list" where
  "heap_init lt xs =
     fold (\<lambda>i ys. heap_down lt ys i (length xs)) (rev [0..<length xs div 2]) xs"

definition heap_push :: "('a \<Rightarrow> 'a \<Rightarrow> bool) \<Rightarrow> 'a \<Rightarrow> 'a list \<Rightarrow> 'a list" where
  "heap_push lt x xs = heap_up lt (xs @ [x]) (length xs)"

definition heap_pop :: "('a \<Rightarrow> 'a \<Rightarrow> bool) \<Rightarrow> 'a list \<Rightarrow> 'a \<times> 'a list" where
  "heap_pop lt xs =
     (let n = length xs - 1; ys = heap_down lt (swap_at 0 n xs) 0 n in (ys ! n, take n ys))"

section \<open>Permutation\<close>

lemma length_swap_at [simp]: "length (swap_at i j xs) = length xs"
  by (simp add: swap_at_def)

lemma mset_swap_at [simp]: "i < length xs \<Longrightarrow> j < length xs \<Longrightarrow> mset (swap_at i j xs) = mset xs"
  by (simp add: swap_at_def mset_swap)

lemma nth_swap_at:
  "i < length xs \<Longrightarrow> j < length xs \<Longrightarrow>
   swap_at i j xs ! m = (if m = j then xs ! i else if m = i then xs ! j else xs ! m)"
  by (simp add: swap_at_def nth_list_update)

lemma heap_up_mset: "j < length xs \<Longrightarrow> mset (heap_up lt xs j) = mset xs"
proof (induction lt xs j rule: heap_up.induct)
  case (1 lt xs j)
  then show ?case by (subst heap_up.simps) (auto simp: Let_def)
qed

lemma heap_down_keeps:
  "n \<le> length xs \<Longrightarrow> i < n \<Longrightarrow>
   mset (heap_down lt xs i n) = mset xs \<and> length (heap_down lt xs i n) = length xs
   \<and> (\<forall>m. n \<le> m \<longrightarrow> heap_down lt xs i n ! m = xs ! m)"
proof (induction lt xs i n rule: heap_down.induct)
  case (1 lt xs i n)
  let ?j = "if 2 * i + 1 + 1 < n \<and> lt (xs ! (2 * i + 1 + 1)) (xs ! (2 * i + 1)) then 2 * i + 1 + 1 else 2 * i + 1"
  show ?case
  proof (cases "n \<le> 2 * i + 1 \<or> \<not> lt (xs ! ?j) (xs ! i)")
    case True
    then show ?thesis by (subst (1 2 3) heap_down.simps) (auto simp: Let_def)
  next
    case False
    then have j: "?j < n" "heap_down lt xs i n = heap_down lt (swap_at i ?j xs) ?j n"
      by (auto simp: heap_down.simps [of lt xs i n] Let_def)
    have "mset (heap_down lt (swap_at i ?j xs) ?j n) = mset (swap_at i ?j xs)
        \<and> length (heap_down lt (swap_at i ?j xs) ?j n) = length (swap_at i ?j xs)
        \<and> (\<forall>m. n \<le> m \<longrightarrow> heap_down lt (swap_at i ?j xs) ?j n ! m = swap_at i ?j xs ! m)"
      using False j(1) "1.prems" by (intro "1.IH" [OF refl]) auto
    with j "1.prems" show ?thesis by (simp add: nth_swap_at)
  qed
qed

section \<open>Order\<close>

definition parent :: "nat \<Rightarrow> nat" where
  "parent j = (j - 1) div 2"

text \<open>The heap property of the first \<open>n\<close> elements, for parents from \<open>k\<close> on.\<close>

definition heap_from :: "('a \<Rightarrow> 'a \<Rightarrow> bool) \<Rightarrow> nat \<Rightarrow> nat \<Rightarrow> 'a list \<Rightarrow> bool" where
  "heap_from lt k n xs =
     (\<forall>j. 0 < j \<longrightarrow> j < n \<longrightarrow> k \<le> parent j \<longrightarrow> \<not> lt (xs ! j) (xs ! parent j))"

lemma parent_child: "parent (2 * i + 1) = i" "parent (2 * i + 1 + 1) = i"
  by (simp_all add: parent_def)

lemma parent_cases: "0 < j \<Longrightarrow> parent j = i \<longleftrightarrow> j = 2 * i + 1 \<or> j = 2 * i + 1 + 1"
  by (auto simp: parent_def)

lemma parent_less: "0 < j \<Longrightarrow> parent j < j"
  by (auto simp: parent_def)

text \<open>Node \<open>i\<close> may be above one of its children's values; everything else is in order.\<close>

definition sift_ready :: "('a \<Rightarrow> 'a \<Rightarrow> bool) \<Rightarrow> nat \<Rightarrow> nat \<Rightarrow> nat \<Rightarrow> 'a list \<Rightarrow> bool" where
  "sift_ready lt k n i xs =
     ((\<forall>j. 0 < j \<longrightarrow> j < n \<longrightarrow> k \<le> parent j \<longrightarrow> parent j \<noteq> i \<longrightarrow> \<not> lt (xs ! j) (xs ! parent j))
      \<and> (\<forall>j. 0 < j \<longrightarrow> j < n \<longrightarrow> parent j = i \<longrightarrow> 0 < i \<longrightarrow> k \<le> parent i \<longrightarrow> \<not> lt (xs ! j) (xs ! parent i)))"

text \<open>Node \<open>i\<close> may be below its parent's value; everything else is in order.\<close>

definition rise_ready :: "('a \<Rightarrow> 'a \<Rightarrow> bool) \<Rightarrow> nat \<Rightarrow> nat \<Rightarrow> 'a list \<Rightarrow> bool" where
  "rise_ready lt n i xs =
     ((\<forall>j. 0 < j \<longrightarrow> j < n \<longrightarrow> j \<noteq> i \<longrightarrow> \<not> lt (xs ! j) (xs ! parent j))
      \<and> (\<forall>j. 0 < j \<longrightarrow> j < n \<longrightarrow> parent j = i \<longrightarrow> 0 < i \<longrightarrow> \<not> lt (xs ! j) (xs ! parent i)))"

context comparator
begin

lemma le_trans: "\<not> lt y x \<Longrightarrow> \<not> lt z y \<Longrightarrow> \<not> lt z x"
  using neg_trans by blast

lemma sift_step:
  assumes ready: "sift_ready lt k n i xs" and n: "n \<le> length xs"
    and j: "0 < j" "j < n" "parent j = i" "lt (xs ! j) (xs ! i)"
    and least: "\<And>m. 0 < m \<Longrightarrow> m < n \<Longrightarrow> parent m = i \<Longrightarrow> \<not> lt (xs ! m) (xs ! j)"
  shows "sift_ready lt k n j (swap_at i j xs)"
proof -
  have i: "i < j" using parent_less j(1,3) by blast
  have nth: "swap_at i j xs ! m = (if m = j then xs ! i else if m = i then xs ! j else xs ! m)" for m
    using i j(2) n by (intro nth_swap_at) auto
  have up: "\<not> lt (xs ! m) (xs ! parent m)" if "0 < m" "m < n" "k \<le> parent m" "parent m \<noteq> i" for m
    using ready that by (auto simp: sift_ready_def)
  have grand: "\<not> lt (xs ! j) (xs ! parent i)" if "0 < i" "k \<le> parent i"
    using ready j that by (auto simp: sift_ready_def)
  have "\<not> lt (swap_at i j xs ! m) (swap_at i j xs ! parent m)"
    if m: "0 < m" "m < n" "k \<le> parent m" "parent m \<noteq> j" for m
  proof (cases "parent m = i")
    case True
    then show ?thesis using least [OF m(1,2)] j(3,4) asym i by (auto simp: nth)
  next
    case False
    then have "m \<noteq> j" using j(3) by blast
    then show ?thesis
      using False m up [OF m(1-3)] grand by (cases "m = i") (auto simp: nth)
  qed
  moreover have "\<not> lt (swap_at i j xs ! m) (swap_at i j xs ! parent j)"
    if m: "0 < m" "m < n" "parent m = j" "k \<le> parent j" for m
  proof -
    have "j < m" using parent_less [OF m(1)] m(3) by simp
    then show ?thesis using up [OF m(1,2)] m i j(3) by (simp add: nth)
  qed
  ultimately show ?thesis by (simp add: sift_ready_def)
qed

lemma heap_down_heap:
  "n \<le> length xs \<Longrightarrow> i < n \<Longrightarrow> sift_ready lt k n i xs \<Longrightarrow> heap_from lt k n (heap_down lt xs i n)"
proof (induction "n - i" arbitrary: i xs rule: less_induct)
  case less
  let ?a = "2 * i + 1" and ?b = "2 * i + 1 + 1"
  define j where "j = (if ?b < n \<and> lt (xs ! ?b) (xs ! ?a) then ?b else ?a)"
  have unfold: "heap_down lt xs i n =
      (if n \<le> ?a then xs else if \<not> lt (xs ! j) (xs ! i) then xs else heap_down lt (swap_at i j xs) j n)"
    by (simp add: heap_down.simps [of lt xs i n] Let_def j_def)
  have ordered: "heap_from lt k n xs" if "\<And>m. 0 < m \<Longrightarrow> m < n \<Longrightarrow> parent m = i \<Longrightarrow> \<not> lt (xs ! m) (xs ! i)"
    using less.prems(3) that unfolding sift_ready_def heap_from_def by blast
  show ?case
  proof (cases "n \<le> ?a")
    case True
    then have "heap_from lt k n xs" by (intro ordered) (auto simp: parent_cases)
    with True show ?thesis by (simp add: unfold)
  next
    case False
    have j: "0 < j" "j < n" "parent j = i" "i < j" using False by (auto simp: j_def parent_def)
    have least: "\<not> lt (xs ! m) (xs ! j)" if "0 < m" "m < n" "parent m = i" for m
      using that irrefl asym by (auto simp: parent_cases j_def)
    show ?thesis
    proof (cases "lt (xs ! j) (xs ! i)")
      case True
      have rd: "sift_ready lt k n j (swap_at i j xs)"
        by (rule sift_step [OF less.prems(3,1) j(1-3) True least])
      have "heap_from lt k n (heap_down lt (swap_at i j xs) j n)"
        by (rule less.hyps [OF _ _ j(2) rd]) (use less.prems j in simp_all)
      with True False show ?thesis by (simp add: unfold)
    next
      case small: False
      have "heap_from lt k n xs" by (rule ordered) (use least small le_trans in blast)
      with small show ?thesis by (simp add: unfold)
    qed
  qed
qed

lemma heap_up_heap:
  "j < length xs \<Longrightarrow> rise_ready lt (length xs) j xs \<Longrightarrow> heap_from lt 0 (length xs) (heap_up lt xs j)"
proof (induction j arbitrary: xs rule: less_induct)
  case (less j)
  let ?i = "parent j"
  have unfold: "heap_up lt xs j =
      (if ?i = j \<or> \<not> lt (xs ! j) (xs ! ?i) then xs else heap_up lt (swap_at ?i j xs) ?i)"
    by (simp add: heap_up.simps [of lt xs j] Let_def parent_def)
  have up: "\<not> lt (xs ! m) (xs ! parent m)" if "0 < m" "m < length xs" "m \<noteq> j" for m
    using less.prems(2) that by (auto simp: rise_ready_def)
  show ?case
  proof (cases "?i = j \<or> \<not> lt (xs ! j) (xs ! ?i)")
    case True
    then have "heap_from lt 0 (length xs) xs"
      unfolding heap_from_def using up parent_less by (metis less_irrefl)
    with True show ?thesis by (simp add: unfold)
  next
    case False
    then have i: "?i < j" "0 < j" "lt (xs ! j) (xs ! ?i)" by (auto simp: parent_def)
    have nth: "swap_at ?i j xs ! m = (if m = j then xs ! ?i else if m = ?i then xs ! j else xs ! m)" for m
      using i less.prems(1) by (intro nth_swap_at) auto
    have kids: "\<not> lt (xs ! m) (xs ! ?i)" if "0 < m" "m < length xs" "parent m = j" for m
      using less.prems(2) that i by (auto simp: rise_ready_def)
    have "\<not> lt (swap_at ?i j xs ! m) (swap_at ?i j xs ! parent m)"
      if m: "0 < m" "m < length xs" "m \<noteq> ?i" for m
    proof (cases "m = j")
      case True
      then show ?thesis using i asym by (simp add: nth)
    next
      case False
      then show ?thesis
        using m up [OF m(1,2) False] kids [OF m(1,2)] i(3) trans parent_less [OF m(1)]
        by (auto simp: nth split: if_splits)
    qed
    moreover have "\<not> lt (swap_at ?i j xs ! m) (swap_at ?i j xs ! parent ?i)"
      if m: "0 < m" "m < length xs" "parent m = ?i" "0 < ?i" for m
    proof -
      have p: "parent ?i < ?i" "?i < length xs" using parent_less [OF m(4)] i less.prems(1) by auto
      have "\<not> lt (xs ! ?i) (xs ! parent ?i)" using up [of ?i] m(4) p i by auto
      moreover have "m \<noteq> j \<Longrightarrow> \<not> lt (xs ! m) (xs ! ?i)" using up [OF m(1,2)] m(3) by auto
      moreover have "m \<noteq> ?i" using parent_less [OF m(1)] m(3) by auto
      ultimately show ?thesis using p i le_trans by (auto simp: nth)
    qed
    ultimately have "rise_ready lt (length (swap_at ?i j xs)) ?i (swap_at ?i j xs)"
      by (simp add: rise_ready_def)
    then have "heap_from lt 0 (length (swap_at ?i j xs)) (heap_up lt (swap_at ?i j xs) ?i)"
      using i less.prems(1) by (intro less.IH) auto
    with False show ?thesis by (simp add: unfold)
  qed
qed

lemma heap_root: "heap_from lt 0 n xs \<Longrightarrow> j < n \<Longrightarrow> \<not> lt (xs ! j) (xs ! 0)"
proof (induction j rule: less_induct)
  case (less j)
  show ?case
  proof (cases "j = 0")
    case False
    then have "\<not> lt (xs ! parent j) (xs ! 0)" using less parent_less [of j] by auto
    moreover have "\<not> lt (xs ! j) (xs ! parent j)" using less.prems False by (simp add: heap_from_def)
    ultimately show ?thesis using le_trans by blast
  qed (simp add: irrefl)
qed

lemma heap_init_heap: "heap_from lt 0 (length (heap_init lt xs)) (heap_init lt xs) \<and> mset (heap_init lt xs) = mset xs"
proof -
  let ?n = "length xs"
  let ?run = "\<lambda>is ys. fold (\<lambda>i ys. heap_down lt ys i ?n) is ys"
  have "heap_from lt (?n div 2 - k) ?n (?run (take k (rev [0..<?n div 2])) xs)
      \<and> mset (?run (take k (rev [0..<?n div 2])) xs) = mset xs
      \<and> length (?run (take k (rev [0..<?n div 2])) xs) = ?n" if "k \<le> ?n div 2" for k
    using that
  proof (induction k)
    case 0
    have "\<not> ?n div 2 \<le> parent j" if "0 < j" "j < ?n" for j
      using that by (simp add: parent_def)
    then show ?case by (simp add: heap_from_def)
  next
    case (Suc k)
    let ?ys = "?run (take k (rev [0..<?n div 2])) xs" and ?i = "?n div 2 - Suc k"
    have t: "take (Suc k) (rev [0..<?n div 2]) = take k (rev [0..<?n div 2]) @ [?i]"
      using Suc.prems by (simp add: take_Suc_conv_app_nth rev_nth)
    have ys: "heap_from lt (Suc ?i) ?n ?ys" "mset ?ys = mset xs" "length ?ys = ?n"
      using Suc Suc_diff_Suc [of k "?n div 2"] by auto
    have "sift_ready lt ?i ?n ?i ?ys"
      using ys(1) parent_less [of ?i] by (auto simp: sift_ready_def heap_from_def)
    then have "heap_from lt ?i ?n (heap_down lt ?ys ?i ?n)"
      using ys(3) Suc.prems by (intro heap_down_heap) auto
    then show ?case
      using heap_down_keeps [of ?n ?ys ?i lt] ys Suc.prems by (simp add: t)
  qed
  from this [of "?n div 2"] show ?thesis by (simp add: heap_init_def)
qed

lemma heap_push_heap:
  assumes "heap_from lt 0 (length q) q"
  shows "heap_from lt 0 (length (heap_push lt x q)) (heap_push lt x q)"
proof -
  have "length (heap_push lt x q) = length (q @ [x])"
    unfolding heap_push_def by (rule mset_eq_length) (simp add: heap_up_mset)
  moreover have "rise_ready lt (length (q @ [x])) (length q) (q @ [x])"
    unfolding rise_ready_def
  proof (intro conjI allI impI)
    fix j assume j: "0 < j" "j < length (q @ [x])"
    note p = parent_less [OF j(1)]
    show "\<not> lt ((q @ [x]) ! j) ((q @ [x]) ! parent j)" if "j \<noteq> length q"
      using assms j that p by (simp add: heap_from_def nth_append)
    show "\<not> lt ((q @ [x]) ! j) ((q @ [x]) ! parent (length q))" if "parent j = length q"
      using that p j(2) by simp
  qed
  ultimately show ?thesis
    using heap_up_heap [of "length q" "q @ [x]"] by (simp add: heap_push_def)
qed

lemma heap_pop_parts:
  assumes "q \<noteq> []"
  defines "n \<equiv> length q - 1"
  defines "ys \<equiv> heap_down lt (swap_at 0 n q) 0 n"
  shows "heap_pop lt q = (q ! 0, take n ys)" "length q = Suc n" "mset ys = mset q" "length ys = length q"
    "ys ! n = q ! 0"
proof -
  show n: "length q = Suc n" using assms(1) by (cases q) (simp_all add: n_def)
  have nth: "swap_at 0 n q ! n = q ! 0" using n by (simp add: nth_swap_at)
  have keeps: "mset ys = mset q \<and> length ys = length q \<and> ys ! n = q ! 0"
  proof (cases "n = 0")
    case True
    then have "ys = swap_at 0 n q" by (simp add: ys_def heap_down.simps)
    then show ?thesis using n nth by simp
  next
    case False
    then show ?thesis using heap_down_keeps [of n "swap_at 0 n q" 0 lt] n nth by (simp add: ys_def)
  qed
  then show "mset ys = mset q" "length ys = length q" "ys ! n = q ! 0" by auto
  then show "heap_pop lt q = (q ! 0, take n ys)" by (simp add: heap_pop_def n_def ys_def Let_def)
qed

lemma heap_pop_heap:
  assumes "heap_from lt 0 (length q) q" "q \<noteq> []"
  shows "heap_from lt 0 (length (snd (heap_pop lt q))) (snd (heap_pop lt q))"
proof -
  define n where "n = length q - 1"
  note parts = heap_pop_parts [OF assms(2), folded n_def]
  have nth: "swap_at 0 n q ! m = (if m = n then q ! 0 else if m = 0 then q ! n else q ! m)" for m
    using parts(2) by (intro nth_swap_at) auto
  have "heap_from lt 0 n (heap_down lt (swap_at 0 n q) 0 n)"
  proof (cases "n = 0")
    case False
    have "sift_ready lt 0 n 0 (swap_at 0 n q)"
      unfolding sift_ready_def
    proof (intro conjI allI impI)
      fix j assume j: "0 < j" "j < n" "parent j \<noteq> 0"
      then show "\<not> lt (swap_at 0 n q ! j) (swap_at 0 n q ! parent j)"
        using assms(1) parent_less [OF j(1)] parts(2) by (simp add: nth heap_from_def)
    qed simp
    then show ?thesis using False parts(2) by (intro heap_down_heap) auto
  qed (simp add: heap_from_def)
  moreover have "parent j < n" if "0 < j" "j < n" for j using parent_less [OF that(1)] that(2) by simp
  ultimately show ?thesis using parts by (simp add: heap_from_def)
qed

lemma heap_pop_mset: "q \<noteq> [] \<Longrightarrow> add_mset (fst (heap_pop lt q)) (mset (snd (heap_pop lt q))) = mset q"
proof -
  assume q: "q \<noteq> []"
  define n where "n = length q - 1"
  define ys where "ys = heap_down lt (swap_at 0 n q) 0 n"
  note parts = heap_pop_parts [OF q, folded n_def, folded ys_def]
  have "ys = take n ys @ [ys ! n]"
    using parts(2,4) by (metis lessI take_Suc_conv_app_nth take_all order_refl)
  then have "mset ys = add_mset (ys ! n) (mset (take n ys))"
    by (metis add_mset_add_single mset.simps mset_append)
  with parts show ?thesis by simp
qed

sublocale heap: min_queue lt "\<lambda>q. heap_from lt 0 (length q) q" "heap_init lt" "heap_push lt" "heap_pop lt"
proof unfold_locales
  show "\<And>xs. heap_from lt 0 (length (heap_init lt xs)) (heap_init lt xs)"
    "\<And>xs. mset (heap_init lt xs) = mset xs"
    using heap_init_heap by blast+
  show "mset (heap_push lt x q) = add_mset x (mset q)" for x q
    by (simp add: heap_push_def heap_up_mset)
  show "\<not> lt y (fst (heap_pop lt q))" if "heap_from lt 0 (length q) q" "q \<noteq> []" "y \<in> set q" for q y
    using heap_root [OF that(1)] heap_pop_parts(1) [OF that(2)] that(3) by (auto simp: in_set_conv_nth)
qed (auto intro: heap_push_heap heap_pop_heap heap_pop_mset)

end

end
