(* ===== verification/Provider_Graph.thy ===== *)
theory Provider_Graph
  imports Go_Types Go_Text Ready_Queue
begin

text \<open>
  \<open>compiler/graph/model.go\<close> and the first half of \<open>compiler/graph/build.go\<close>: provider
  records, the type index, the selection of candidates for one constructor parameter, and the
  edges and diagnostics one dependency gives. Providers are addressed by their index in the
  catalog, as in the code; a Go pointer into the provider slice is that index.
\<close>

section \<open>Providers\<close>

datatype dependency_kind =
  DependencySingle | DependencySlice | DependencyMap | DependencyOptional | DependencyLazy
  | DependencyProvider

datatype bean_scope = BeanScopeSingleton | BeanScopePrototype | BeanScopeRequest | BeanScopeSession

datatype provider_source =
  SourceBean | SourceStereotype | SourceConfiguration | SourceEvent | SourceStarter
  | SourceAutoConfiguration | SourceLogging

record dependency =
  dep_index :: int
  dep_name :: string
  dep_type :: go_type
  dep_type_id :: string
  dep_position :: token_position
  dep_physical :: token_position
  dep_qualifiers :: "string list"
  dep_kind :: dependency_kind
  dep_element :: "go_type option"
  dep_element_type_id :: string

definition MatchType :: "dependency \<Rightarrow> go_type" where
  "MatchType d = (case dep_element d of Some t \<Rightarrow> t | None \<Rightarrow> dep_type d)"

record interface_binding =
  ifc_expression :: string
  ifc_type :: go_type
  ifc_type_id :: string
  ifc_position :: token_position
  ifc_physical :: token_position

text \<open>\<open>Provider\<close>, without the construction fields the graph never reads.\<close>

record provider =
  prov_source :: provider_source
  prov_display_label :: string
  prov_symbol_id :: string
  prov_name :: string
  prov_aliases :: "string list"
  prov_qualifiers :: "string list"
  prov_primary :: bool
  prov_fallback :: bool
  prov_order :: int
  prov_scope :: bean_scope
  prov_position :: token_position
  prov_physical :: token_position
  prov_output :: go_type
  prov_dependencies :: "dependency list"
  prov_interfaces :: "interface_binding list"

section \<open>Graph results\<close>

record edge =
  edge_consumer_id :: string
  edge_dependency_id :: string
  edge_required_type_id :: string
  edge_parameter_index :: int
  edge_parameter_name :: string
  edge_kind :: dependency_kind
  edge_collection_index :: int
  edge_position :: token_position
  edge_physical :: token_position
  edge_consumer :: nat
  edge_dependency :: nat

record graph_diagnostic =
  diag_position :: token_position
  diag_physical :: token_position
  diag_provider_id :: string
  diag_kind :: string
  diag_message :: string

record graph_result =
  res_providers :: "provider list"
  res_edges :: "edge list"
  res_order :: "nat list"
  res_diagnostics :: "graph_diagnostic list"

text \<open>The result under construction and the adjacency lists \<open>adjacency [][]int\<close>.\<close>

type_synonym graph_state = "graph_result \<times> nat list list"

definition symbol_of :: "provider list \<Rightarrow> nat \<Rightarrow> string" where
  "symbol_of providers i = prov_symbol_id (providers ! i)"

section \<open>Ordering by symbol\<close>

definition symbol_less :: "provider list \<Rightarrow> nat \<Rightarrow> nat \<Rightarrow> bool" where
  "symbol_less providers i j = (symbol_of providers i < symbol_of providers j)"

definition sortedUnique :: "nat list \<Rightarrow> provider list \<Rightarrow> nat list" where
  "sortedUnique vals providers = compact (sort_by (symbol_less providers) vals)"

interpretation symbol_order: keyed_comparator "symbol_less providers" "symbol_of providers"
  for providers
  by unfold_locales (simp add: symbol_less_def)

lemma set_sortedUnique [simp]: "set (sortedUnique vals providers) = set vals"
  by (simp add: sortedUnique_def)

definition distinct_symbols :: "provider list \<Rightarrow> bool" where
  "distinct_symbols providers = distinct (map prov_symbol_id providers)"

lemma symbol_inj:
  "distinct_symbols providers \<Longrightarrow> A \<subseteq> {..<length providers} \<Longrightarrow> inj_on (symbol_of providers) A"
  using nth_eq_iff_index_eq [of "map prov_symbol_id providers"]
  by (fastforce simp: distinct_symbols_def symbol_of_def inj_on_def subset_eq)

lemma distinct_sortedUnique:
  assumes "distinct_symbols providers" "set vals \<subseteq> {..<length providers}"
  shows "distinct (sortedUnique vals providers)"
  unfolding sortedUnique_def
  using symbol_order.sorted_sort_by [of providers vals] symbol_inj [OF assms]
  by (intro distinct_compact_sorted [of "symbol_of providers"])
    (simp_all add: symbol_order.sorted_by_key)

lemma sorted_compact:
  "sorted (map key xs) \<Longrightarrow> sorted (map key (compact xs))" for key :: "'a \<Rightarrow> 'b :: linorder"
proof (induction xs rule: compact.induct)
  case (1 x y xs)
  then show ?case by (cases "x = y") (auto simp del: compact.simps simp: compact.simps(1))
qed auto

lemma sorted_sortedUnique: "sorted (map (symbol_of providers) (sortedUnique vals providers))"
  unfolding sortedUnique_def
  using symbol_order.sorted_sort_by [of providers vals]
  by (intro sorted_compact) (simp add: symbol_order.sorted_by_key)

section \<open>The type index\<close>

type_synonym type_index = "string \<Rightarrow> nat list"

definition index_add :: "string \<Rightarrow> nat \<Rightarrow> type_index \<Rightarrow> type_index" where
  "index_add key i index = index(key := index key @ [i])"

definition index_provider :: "nat \<Rightarrow> provider \<Rightarrow> type_index \<Rightarrow> type_index" where
  "index_provider i p index =
     fold (\<lambda>b. index_add (semanticTypeKey (Some (ifc_type b))) i) (prov_interfaces p)
       (index_add (semanticTypeKey (Some (prov_output p))) i index)"

definition buildTypeIndex :: "provider list \<Rightarrow> type_index" where
  "buildTypeIndex providers =
     (let index = fold (\<lambda>(i, p). index_provider i p) (enumerate 0 providers) (\<lambda>_. [])
      in (\<lambda>key. sortedUnique (index key) providers))"

definition provides :: "go_type \<Rightarrow> provider \<Rightarrow> bool" where
  "provides required p =
     (Identical required (prov_output p)
      \<or> list_ex (\<lambda>b. Identical required (ifc_type b)) (prov_interfaces p))"

definition lookup :: "type_index \<Rightarrow> go_type \<Rightarrow> provider list \<Rightarrow> nat list" where
  "lookup index required providers =
     sortedUnique
       (filter (\<lambda>i. provides required (providers ! i)) (index (semanticTypeKey (Some required))))
       providers"

section \<open>Candidate selection\<close>

definition qualifier_matches :: "provider \<Rightarrow> string \<Rightarrow> bool" where
  "qualifier_matches item q =
     (q = prov_name item \<or> q \<in> set (prov_aliases item) \<or> q \<in> set (prov_qualifiers item))"

definition filterQualified :: "nat list \<Rightarrow> string list \<Rightarrow> provider list \<Rightarrow> nat list" where
  "filterQualified candidates qualifiers providers =
     (if qualifiers = [] then candidates
      else filter (\<lambda>c. list_all (qualifier_matches (providers ! c)) qualifiers) candidates)"

text \<open>The shape shared by the next three: keep the preferred candidates if there are any.\<close>

definition prefer_those :: "('a \<Rightarrow> bool) \<Rightarrow> 'a list \<Rightarrow> 'a list" where
  "prefer_those good candidates =
     (let chosen = filter good candidates in if chosen \<noteq> [] then chosen else candidates)"

definition preferNonFallback :: "nat list \<Rightarrow> provider list \<Rightarrow> nat list" where
  "preferNonFallback candidates providers =
     prefer_those (\<lambda>c. \<not> prov_fallback (providers ! c)) candidates"

definition selectPrimary :: "nat list \<Rightarrow> provider list \<Rightarrow> nat list" where
  "selectPrimary candidates providers = prefer_those (\<lambda>c. prov_primary (providers ! c)) candidates"

definition selectByParameterName :: "nat list \<Rightarrow> string \<Rightarrow> provider list \<Rightarrow> nat list" where
  "selectByParameterName candidates name providers =
     prefer_those (\<lambda>c. prov_name (providers ! c) = name \<or> name \<in> set (prov_aliases (providers ! c)))
       candidates"

definition selectedCandidates :: "nat list \<Rightarrow> dependency \<Rightarrow> provider list \<Rightarrow> nat list" where
  "selectedCandidates candidates input providers =
     (let c1 = preferNonFallback candidates providers;
          c2 = (if 1 < length c1 then selectPrimary c1 providers else c1)
      in if 1 < length c2 \<and> dep_name input \<noteq> []
         then selectByParameterName c2 (dep_name input) providers else c2)"

definition dependencyCandidates ::
    "type_index \<Rightarrow> dependency \<Rightarrow> provider list \<Rightarrow> dependency_kind \<times> nat list" where
  "dependencyCandidates index input providers =
     (let kind = dep_kind input; collection = (kind = DependencySlice \<or> kind = DependencyMap);
          exact = (if collection then lookup index (dep_type input) providers else []);
          kind' = (if exact \<noteq> [] then DependencySingle else kind);
          candidates = (if exact = [] then lookup index (MatchType input) providers else exact)
      in (kind', filterQualified candidates (dep_qualifiers input) providers))"

definition candidate_less :: "provider list \<Rightarrow> nat \<Rightarrow> nat \<Rightarrow> bool" where
  "candidate_less providers i j =
     (let left = providers ! i; right = providers ! j in
      if prov_order left \<noteq> prov_order right then prov_order left < prov_order right
      else if prov_name left \<noteq> prov_name right then prov_name left < prov_name right
      else prov_symbol_id left < prov_symbol_id right)"

definition orderedCollectionCandidates :: "nat list \<Rightarrow> provider list \<Rightarrow> nat list" where
  "orderedCollectionCandidates candidates providers = sort_by (candidate_less providers) candidates"

definition candidate_key :: "provider list \<Rightarrow> nat \<Rightarrow> int \<times> string \<times> string" where
  "candidate_key providers i =
     (prov_order (providers ! i), prov_name (providers ! i), prov_symbol_id (providers ! i))"

interpretation candidate_order: keyed_comparator "candidate_less providers" "candidate_key providers"
  for providers
  by unfold_locales (auto simp: candidate_less_def candidate_key_def Let_def less_prod_def)

fun duplicate_name :: "string set \<Rightarrow> string list \<Rightarrow> string" where
  "duplicate_name seen [] = []"
| "duplicate_name seen (n # ns) = (if n \<in> seen then n else duplicate_name (insert n seen) ns)"

definition duplicateCandidateName :: "nat list \<Rightarrow> provider list \<Rightarrow> string" where
  "duplicateCandidateName candidates providers =
     duplicate_name {} (map (\<lambda>c. prov_name (providers ! c)) candidates)"

text \<open>\<open>firstScopedCandidate\<close>; \<open>None\<close> is the result \<open>-1\<close>.\<close>

definition firstScopedCandidate :: "nat list \<Rightarrow> provider list \<Rightarrow> nat option" where
  "firstScopedCandidate candidates providers =
     find (\<lambda>c. prov_scope (providers ! c) \<noteq> BeanScopeSingleton) candidates"

section \<open>Concrete catalogs\<close>

text \<open>A singleton bean of a given type, used to build concrete catalogs.\<close>

definition sample_bean :: "string \<Rightarrow> string \<Rightarrow> go_type \<Rightarrow> dependency list \<Rightarrow> provider" where
  "sample_bean symbol name output inputs =
     \<lparr>prov_source = SourceBean, prov_display_label = [], prov_symbol_id = symbol, prov_name = name,
      prov_aliases = [], prov_qualifiers = [], prov_primary = False, prov_fallback = False,
      prov_order = 0, prov_scope = BeanScopeSingleton, prov_position = no_position,
      prov_physical = no_position, prov_output = output, prov_dependencies = inputs,
      prov_interfaces = []\<rparr>"

definition sample_input :: "int \<Rightarrow> go_type \<Rightarrow> dependency" where
  "sample_input k t =
     \<lparr>dep_index = k, dep_name = [], dep_type = t, dep_type_id = type_string t,
      dep_position = no_position, dep_physical = no_position, dep_qualifiers = [],
      dep_kind = DependencySingle, dep_element = None, dep_element_type_id = []\<rparr>"

definition repo_type :: go_type where
  "repo_type = Pointer (Named ''app'' ''Repo'' [])"

definition service_type :: go_type where
  "service_type = Pointer (Named ''app'' ''Service'' [])"

definition sample_catalog :: "provider list" where
  "sample_catalog =
     [sample_bean ''app.NewRepo'' ''repo'' repo_type [],
      sample_bean ''app.NewService'' ''service'' service_type [sample_input 0 repo_type]]"

end
