(* ===== verification/Graph_Connect.thy ===== *)
theory Graph_Connect
  imports Provider_Graph
begin

text \<open>
  \<open>compiler/graph/build.go\<close>, \<open>connectDependencies\<close> and what it calls: each constructor
  parameter of each provider becomes edges of the graph or a diagnostic.
\<close>

section \<open>Texts\<close>

definition preferredPosition :: "token_position \<Rightarrow> token_position \<Rightarrow> token_position" where
  "preferredPosition primary fallback =
     (if pos_filename primary \<noteq> [] \<or> pos_offset primary \<noteq> 0 \<or> pos_line primary \<noteq> 0
      then primary else fallback)"

definition renderPosition :: "token_position \<Rightarrow> string" where
  "renderPosition position =
     (let filename = (if pos_filename position = [] then ''<unknown>'' else pos_filename position);
          line = (if pos_line position \<le> 0 then 1 else pos_line position);
          column = (if pos_column position \<le> 0 then 1 else pos_column position)
      in filename @ '':'' @ show_int line @ '':'' @ show_int column)"

definition diagnostic_error :: "graph_diagnostic \<Rightarrow> string" where
  "diagnostic_error d = renderPosition (diag_position d) @ '': '' @ diag_message d"

definition providerRole :: "provider \<Rightarrow> string" where
  "providerRole item =
     (case prov_source item of
        SourceBean \<Rightarrow> ''@Bean provider''
      | SourceStarter \<Rightarrow> ''starter entrypoint''
      | SourceAutoConfiguration \<Rightarrow> ''auto-configuration factory''
      | SourceStereotype \<Rightarrow> ''stereotype bean''
      | SourceConfiguration \<Rightarrow> ''configuration provider''
      | SourceEvent \<Rightarrow> ''event topic provider''
      | SourceLogging \<Rightarrow> ''logging fallback provider'')"

definition providerLabel :: "provider \<Rightarrow> string" where
  "providerLabel item =
     (if prov_display_label item \<noteq> [] then prov_display_label item
      else if prov_name item \<noteq> [] then prov_name item
      else prov_symbol_id item)"

definition parameterLabel :: "unicode_tables \<Rightarrow> dependency \<Rightarrow> string" where
  "parameterLabel u input =
     (if dep_name input = [] then ''parameter '' @ show_int (dep_index input)
      else ''parameter '' @ show_int (dep_index input) @ '' '' @ quote u (dep_name input))"

definition dependencyTypeID :: "dependency \<Rightarrow> string" where
  "dependencyTypeID input =
     (if dep_element_type_id input \<noteq> [] then dep_element_type_id input else dep_type_id input)"

definition qualifierSuffix :: "dependency \<Rightarrow> string" where
  "qualifierSuffix input =
     (if dep_qualifiers input = [] then []
      else '' with qualifiers ['' @ join_with '', '' (dep_qualifiers input) @ '']'')"

definition scope_text :: "bean_scope \<Rightarrow> string" where
  "scope_text s =
     (case s of
        BeanScopeSingleton \<Rightarrow> ''singleton''
      | BeanScopePrototype \<Rightarrow> ''prototype''
      | BeanScopeRequest \<Rightarrow> ''request''
      | BeanScopeSession \<Rightarrow> ''session'')"

section \<open>Diagnostics\<close>

text \<open>The fields all dependency diagnostics share, and the opening of their messages.\<close>

definition dependency_diagnostic ::
    "provider \<Rightarrow> dependency \<Rightarrow> string \<Rightarrow> string \<Rightarrow> graph_diagnostic" where
  "dependency_diagnostic consumer input kind message =
     \<lparr>diag_position = preferredPosition (dep_position input) (prov_position consumer),
      diag_physical = preferredPosition (dep_physical input) (prov_physical consumer),
      diag_provider_id = prov_symbol_id consumer, diag_kind = kind, diag_message = message\<rparr>"

definition consumer_text :: "provider \<Rightarrow> string" where
  "consumer_text consumer =
     providerRole consumer @ '' '' @ providerLabel consumer @ '' ('' @ prov_symbol_id consumer @ '')''"

definition collectionNameDiagnostic ::
    "unicode_tables \<Rightarrow> provider \<Rightarrow> dependency \<Rightarrow> string \<Rightarrow> graph_diagnostic" where
  "collectionNameDiagnostic u consumer input name =
     dependency_diagnostic consumer input ''duplicate-collection-name''
       (consumer_text consumer @ '' requests map injection for '' @ dependencyTypeID input
        @ '', but multiple matching beans use name '' @ quote u name
        @ ''; assign unique explicit bean names'')"

definition scopeDiagnostic ::
    "unicode_tables \<Rightarrow> provider \<Rightarrow> dependency \<Rightarrow> provider \<Rightarrow> graph_diagnostic" where
  "scopeDiagnostic u consumer input target =
     dependency_diagnostic consumer input ''scope-mismatch''
       (consumer_text consumer @ '' requests '' @ dependencyTypeID input @ '' directly for ''
        @ parameterLabel u input @ '', but matching bean '' @ quote u (prov_name target)
        @ '' has '' @ scope_text (prov_scope target) @ '' scope; inject bean.Provider[''
        @ dependencyTypeID input @ ''] so acquisition and cleanup ownership remain explicit'')"

definition missingDiagnostic :: "unicode_tables \<Rightarrow> provider \<Rightarrow> dependency \<Rightarrow> graph_diagnostic" where
  "missingDiagnostic u consumer input =
     dependency_diagnostic consumer input ''missing-dependency''
       (consumer_text consumer @ '' requires exact type '' @ dependencyTypeID input @ '' for ''
        @ parameterLabel u input @ qualifierSuffix input
        @ '', but no provider matches the type and requested qualifiers'')"

definition candidate_label :: "provider \<Rightarrow> string" where
  "candidate_label item =
     providerLabel item @ '' ('' @ prov_symbol_id item @ '') at '' @ renderPosition (prov_position item)"

definition ambiguousDiagnostic ::
    "unicode_tables \<Rightarrow> provider \<Rightarrow> dependency \<Rightarrow> nat list \<Rightarrow> provider list \<Rightarrow> graph_diagnostic" where
  "ambiguousDiagnostic u consumer input candidates providers =
     dependency_diagnostic consumer input ''ambiguous-dependency''
       (consumer_text consumer @ '' requires type '' @ dependencyTypeID input @ '' for ''
        @ parameterLabel u input @ qualifierSuffix input
        @ '', but multiple explicit providers match after qualifier, fallback, primary, and parameter-name selection: ''
        @ join_with '', '' (map (\<lambda>c. candidate_label (providers ! c)) candidates))"

section \<open>Connecting one dependency\<close>

definition add_diagnostic :: "graph_diagnostic \<Rightarrow> graph_state \<Rightarrow> graph_state" where
  "add_diagnostic d = (\<lambda>(result, adjacency).
     (result\<lparr>res_diagnostics := res_diagnostics result @ [d]\<rparr>, adjacency))"

definition appendEdge ::
    "nat \<Rightarrow> nat \<Rightarrow> dependency \<Rightarrow> dependency_kind \<Rightarrow> int \<Rightarrow> graph_state \<Rightarrow> graph_state" where
  "appendEdge consumerIndex dependencyIndex input kind collectionIndex = (\<lambda>(result, adjacency).
     let consumer = res_providers result ! consumerIndex;
         target = res_providers result ! dependencyIndex;
         requiredTypeID = (if kind \<noteq> DependencySingle \<and> dep_element_type_id input \<noteq> []
           then dep_element_type_id input else dep_type_id input);
         e = \<lparr>edge_consumer_id = prov_symbol_id consumer, edge_dependency_id = prov_symbol_id target,
              edge_required_type_id = requiredTypeID, edge_parameter_index = dep_index input,
              edge_parameter_name = dep_name input, edge_kind = kind,
              edge_collection_index = collectionIndex,
              edge_position = preferredPosition (dep_position input) (prov_position consumer),
              edge_physical = preferredPosition (dep_physical input) (prov_physical consumer),
              edge_consumer = consumerIndex, edge_dependency = dependencyIndex\<rparr>
     in (result\<lparr>res_edges := res_edges result @ [e]\<rparr>,
         adjacency[consumerIndex := adjacency ! consumerIndex @ [dependencyIndex]]))"

definition connectCollection ::
    "unicode_tables \<Rightarrow> nat \<Rightarrow> dependency \<Rightarrow> dependency_kind \<Rightarrow> nat list \<Rightarrow> graph_state \<Rightarrow> graph_state" where
  "connectCollection u consumerIndex input kind candidates0 st =
     (let providers = res_providers (fst st); consumer = providers ! consumerIndex;
          candidates = orderedCollectionCandidates candidates0 providers;
          duplicate = duplicateCandidateName candidates providers
      in if kind = DependencyMap \<and> duplicate \<noteq> []
         then add_diagnostic (collectionNameDiagnostic u consumer input duplicate) st
         else case firstScopedCandidate candidates providers of
           Some scoped \<Rightarrow> add_diagnostic (scopeDiagnostic u consumer input (providers ! scoped)) st
         | None \<Rightarrow>
             fold (\<lambda>(k, d). appendEdge consumerIndex d input kind (int k)) (enumerate 0 candidates) st)"

definition connectSingle ::
    "unicode_tables \<Rightarrow> nat \<Rightarrow> dependency \<Rightarrow> dependency_kind \<Rightarrow> nat list \<Rightarrow> graph_state \<Rightarrow> graph_state" where
  "connectSingle u consumerIndex input kind candidates st =
     (let providers = res_providers (fst st); consumer = providers ! consumerIndex in
      if candidates = [] then
        (if dep_kind input \<noteq> DependencyOptional
         then add_diagnostic (missingDiagnostic u consumer input) st else st)
      else let selected = selectedCandidates candidates input providers in
        if length selected \<noteq> 1
        then add_diagnostic (ambiguousDiagnostic u consumer input selected providers) st
        else let dependencyIndex = selected ! 0 in
          if prov_scope (providers ! dependencyIndex) \<noteq> BeanScopeSingleton
             \<and> dep_kind input \<noteq> DependencyProvider
          then add_diagnostic (scopeDiagnostic u consumer input (providers ! dependencyIndex)) st
          else appendEdge consumerIndex dependencyIndex input kind 0 st)"

definition connectDependency ::
    "unicode_tables \<Rightarrow> type_index \<Rightarrow> nat \<Rightarrow> dependency \<Rightarrow> graph_state \<Rightarrow> graph_state" where
  "connectDependency u index consumerIndex input st =
     (let (kind, candidates) = dependencyCandidates index input (res_providers (fst st)) in
      if kind = DependencySlice \<or> kind = DependencyMap
      then connectCollection u consumerIndex input kind candidates st
      else connectSingle u consumerIndex input kind candidates st)"

definition connect_provider ::
    "unicode_tables \<Rightarrow> type_index \<Rightarrow> nat \<Rightarrow> graph_state \<Rightarrow> graph_state" where
  "connect_provider u index consumerIndex st =
     fold (connectDependency u index consumerIndex)
       (prov_dependencies (res_providers (fst st) ! consumerIndex)) st"

definition connectDependencies :: "unicode_tables \<Rightarrow> type_index \<Rightarrow> graph_state \<Rightarrow> graph_state" where
  "connectDependencies u index st =
     fold (connect_provider u index) [0..<length (res_providers (fst st))] st"

section \<open>The resolution of one dependency\<close>

text \<open>
  What a dependency resolves to depends only on the catalog: a diagnostic, or the kind of
  injection and the providers injected. This is the specification of the connect functions.
\<close>

datatype resolution =
    Unresolved graph_diagnostic
  | Injected dependency_kind "nat list"

definition resolve_collection ::
    "unicode_tables \<Rightarrow> provider list \<Rightarrow> provider \<Rightarrow> dependency \<Rightarrow> dependency_kind \<Rightarrow> nat list \<Rightarrow> resolution" where
  "resolve_collection u providers consumer input kind candidates =
     (let ordered = orderedCollectionCandidates candidates providers;
          duplicate = duplicateCandidateName ordered providers
      in if kind = DependencyMap \<and> duplicate \<noteq> []
         then Unresolved (collectionNameDiagnostic u consumer input duplicate)
         else case firstScopedCandidate ordered providers of
           Some scoped \<Rightarrow> Unresolved (scopeDiagnostic u consumer input (providers ! scoped))
         | None \<Rightarrow> Injected kind ordered)"

definition resolve_single ::
    "unicode_tables \<Rightarrow> provider list \<Rightarrow> provider \<Rightarrow> dependency \<Rightarrow> dependency_kind \<Rightarrow> nat list \<Rightarrow> resolution" where
  "resolve_single u providers consumer input kind candidates =
     (let selected = selectedCandidates candidates input providers in
      if candidates = [] then
        (if dep_kind input \<noteq> DependencyOptional then Unresolved (missingDiagnostic u consumer input)
         else Injected kind [])
      else if length selected \<noteq> 1
      then Unresolved (ambiguousDiagnostic u consumer input selected providers)
      else if prov_scope (providers ! hd selected) \<noteq> BeanScopeSingleton
        \<and> dep_kind input \<noteq> DependencyProvider
      then Unresolved (scopeDiagnostic u consumer input (providers ! hd selected))
      else Injected kind [hd selected])"

definition resolve_dependency ::
    "unicode_tables \<Rightarrow> provider list \<Rightarrow> nat \<Rightarrow> dependency \<Rightarrow> resolution" where
  "resolve_dependency u providers i input =
     (let (kind, candidates) = dependencyCandidates (buildTypeIndex providers) input providers in
      if kind = DependencySlice \<or> kind = DependencyMap
      then resolve_collection u providers (providers ! i) input kind candidates
      else resolve_single u providers (providers ! i) input kind candidates)"

fun resolution_diagnostics :: "resolution \<Rightarrow> graph_diagnostic list" where
  "resolution_diagnostics (Unresolved d) = [d]"
| "resolution_diagnostics (Injected kind targets) = []"

fun resolution_targets :: "resolution \<Rightarrow> nat list" where
  "resolution_targets (Unresolved d) = []"
| "resolution_targets (Injected kind targets) = targets"

definition make_edge ::
    "provider list \<Rightarrow> nat \<Rightarrow> dependency \<Rightarrow> dependency_kind \<Rightarrow> nat \<times> nat \<Rightarrow> edge" where
  "make_edge providers i input kind kd =
     \<lparr>edge_consumer_id = prov_symbol_id (providers ! i),
      edge_dependency_id = prov_symbol_id (providers ! snd kd),
      edge_required_type_id = (if kind \<noteq> DependencySingle \<and> dep_element_type_id input \<noteq> []
           then dep_element_type_id input else dep_type_id input),
      edge_parameter_index = dep_index input, edge_parameter_name = dep_name input, edge_kind = kind,
      edge_collection_index = int (fst kd),
      edge_position = preferredPosition (dep_position input) (prov_position (providers ! i)),
      edge_physical = preferredPosition (dep_physical input) (prov_physical (providers ! i)),
      edge_consumer = i, edge_dependency = snd kd\<rparr>"

fun resolution_edges :: "provider list \<Rightarrow> nat \<Rightarrow> dependency \<Rightarrow> resolution \<Rightarrow> edge list" where
  "resolution_edges providers i input (Unresolved d) = []"
| "resolution_edges providers i input (Injected kind targets) =
     map (make_edge providers i input kind) (enumerate 0 targets)"

text \<open>The effect of a resolution on the state.\<close>

definition extend ::
    "edge list \<Rightarrow> graph_diagnostic list \<Rightarrow> nat \<Rightarrow> nat list \<Rightarrow> graph_state \<Rightarrow> graph_state" where
  "extend es ds i ts = (\<lambda>(result, adjacency).
     (result\<lparr>res_edges := res_edges result @ es, res_diagnostics := res_diagnostics result @ ds\<rparr>,
      adjacency[i := adjacency ! i @ ts]))"

lemma extend_nothing [simp]: "extend [] [] i [] st = st"
  by (cases st) (simp add: extend_def)

lemma extend_extend:
  "i < length (snd st) \<Longrightarrow> extend es' ds' i ts' (extend es ds i ts st) = extend (es @ es') (ds @ ds') i (ts @ ts') st"
  by (cases st) (simp add: extend_def)

lemma extend_providers [simp]: "res_providers (fst (extend es ds i ts st)) = res_providers (fst st)"
  by (cases st) (simp add: extend_def)

lemma extend_length [simp]: "length (snd (extend es ds i ts st)) = length (snd st)"
  by (cases st) (simp add: extend_def)

lemma add_diagnostic_extend: "add_diagnostic d st = extend [] [d] i [] st"
  by (cases st) (simp add: add_diagnostic_def extend_def)

lemma appendEdge_extend:
  "appendEdge i d input kind (int k) st =
     extend [make_edge (res_providers (fst st)) i input kind (k, d)] [] i [d] st"
  by (cases st) (simp add: appendEdge_def extend_def make_edge_def Let_def)

lemma append_edges_extend:
  assumes "i < length (snd st)"
  shows "fold (\<lambda>(k, d). appendEdge i d input kind (int k)) (enumerate n targets) st =
     extend (map (make_edge (res_providers (fst st)) i input kind) (enumerate n targets)) [] i targets st"
  using assms
proof (induction targets arbitrary: n st)
  case (Cons d targets)
  then show ?case
    by (simp add: appendEdge_extend extend_extend)
qed simp

lemma connectDependency_resolution:
  assumes "i < length (snd st)" "index = buildTypeIndex (res_providers (fst st))"
    and "r = resolve_dependency u (res_providers (fst st)) i input"
  shows "connectDependency u index i input st =
    extend (resolution_edges (res_providers (fst st)) i input r) (resolution_diagnostics r) i
      (resolution_targets r) st"
proof -
  let ?ps = "res_providers (fst st)"
  obtain kind candidates where kc: "dependencyCandidates index input ?ps = (kind, candidates)"
    by fastforce
  show ?thesis
  proof (cases "kind = DependencySlice \<or> kind = DependencyMap")
    case True
    then have r: "r = resolve_collection u ?ps (?ps ! i) input kind candidates"
      using kc assms(2,3) by (simp add: resolve_dependency_def)
    show ?thesis
      using kc True assms(1)
      by (simp add: r connectDependency_def connectCollection_def resolve_collection_def Let_def
          add_diagnostic_extend [where i = i] append_edges_extend split: option.splits)
  next
    case False
    then have r: "r = resolve_single u ?ps (?ps ! i) input kind candidates"
      using kc assms(2,3) by (simp add: resolve_dependency_def)
    have hd: "length xs = Suc 0 \<Longrightarrow> xs ! 0 = hd xs" for xs :: "nat list" by (cases xs) auto
    show ?thesis
      using kc False appendEdge_extend [where k = 0 and i = i and kind = kind and input = input]
      by (simp add: r connectDependency_def connectSingle_def resolve_single_def Let_def hd
          add_diagnostic_extend [where i = i])
  qed
qed

section \<open>The whole catalog\<close>

definition dependency_edges :: "unicode_tables \<Rightarrow> provider list \<Rightarrow> nat \<Rightarrow> edge list" where
  "dependency_edges u providers i =
     concat (map (\<lambda>input. resolution_edges providers i input (resolve_dependency u providers i input))
       (prov_dependencies (providers ! i)))"

definition dependency_diagnostics :: "unicode_tables \<Rightarrow> provider list \<Rightarrow> nat \<Rightarrow> graph_diagnostic list" where
  "dependency_diagnostics u providers i =
     concat (map (\<lambda>input. resolution_diagnostics (resolve_dependency u providers i input))
       (prov_dependencies (providers ! i)))"

definition dependency_targets :: "unicode_tables \<Rightarrow> provider list \<Rightarrow> nat \<Rightarrow> nat list" where
  "dependency_targets u providers i =
     concat (map (\<lambda>input. resolution_targets (resolve_dependency u providers i input))
       (prov_dependencies (providers ! i)))"

lemma connect_provider_extend:
  assumes "i < length (snd st)" "res_providers (fst st) = providers" "index = buildTypeIndex providers"
  shows "connect_provider u index i st =
    extend (dependency_edges u providers i) (dependency_diagnostics u providers i) i
      (dependency_targets u providers i) st"
proof -
  have "fold (connectDependency u index i) inputs st =
    extend (concat (map (\<lambda>input. resolution_edges providers i input (resolve_dependency u providers i input)) inputs))
      (concat (map (\<lambda>input. resolution_diagnostics (resolve_dependency u providers i input)) inputs)) i
      (concat (map (\<lambda>input. resolution_targets (resolve_dependency u providers i input)) inputs)) st"
    for inputs
    using assms(1,2)
  proof (induction inputs arbitrary: st)
    case (Cons input inputs)
    then show ?case
      using assms(3) by (simp add: connectDependency_resolution extend_extend)
  qed simp
  then show ?thesis
    using assms(2) unfolding connect_provider_def dependency_edges_def dependency_diagnostics_def
      dependency_targets_def by simp
qed

definition start_state :: "provider list \<Rightarrow> graph_state" where
  "start_state providers =
     (\<lparr>res_providers = providers, res_edges = [], res_order = [], res_diagnostics = []\<rparr>,
      replicate (length providers) [])"

lemma connect_prefix:
  "m \<le> length providers \<Longrightarrow>
   fold (connect_provider u (buildTypeIndex providers)) [0..<m] (start_state providers) =
     (\<lparr>res_providers = providers, res_edges = concat (map (dependency_edges u providers) [0..<m]),
       res_order = [], res_diagnostics = concat (map (dependency_diagnostics u providers) [0..<m])\<rparr>,
      map (dependency_targets u providers) [0..<m] @ replicate (length providers - m) [])"
proof (induction m)
  case (Suc m)
  let ?ts = "map (dependency_targets u providers) [0..<m]"
  have r: "replicate (length providers - m) [] = ([] :: nat list) # replicate (length providers - Suc m) []"
    using Suc.prems by (metis Suc_diff_le Suc_le_mono diff_Suc_Suc replicate_Suc Suc_leD)
  have "(?ts @ replicate (length providers - m) [])[m := (?ts @ replicate (length providers - m) []) ! m @ x]
      = ?ts @ x # replicate (length providers - Suc m) []" for x
    by (simp add: r list_update_append nth_append)
  then show ?case
    using Suc by (simp add: connect_provider_extend) (simp add: extend_def)
qed (simp add: start_state_def)

lemma connectDependencies_result:
  "connectDependencies u (buildTypeIndex providers) (start_state providers) =
     (\<lparr>res_providers = providers,
       res_edges = concat (map (dependency_edges u providers) [0..<length providers]),
       res_order = [],
       res_diagnostics = concat (map (dependency_diagnostics u providers) [0..<length providers])\<rparr>,
      map (dependency_targets u providers) [0..<length providers])"
  using connect_prefix [of "length providers" providers u]
  by (simp add: connectDependencies_def start_state_def)

text \<open>
  C17. Refinement of the stateful connection: started on the empty result,
  \<open>connectDependencies\<close> appends, for each provider in order and each of its parameters in
  order, exactly the edges, the diagnostics and the adjacency that the parameter resolves to.
\<close>

theorem connectDependencies_refines:
  "connectDependencies u (buildTypeIndex providers) (start_state providers) =
     (\<lparr>res_providers = providers,
       res_edges = concat (map (dependency_edges u providers) [0..<length providers]),
       res_order = [],
       res_diagnostics = concat (map (dependency_diagnostics u providers) [0..<length providers])\<rparr>,
      map (dependency_targets u providers) [0..<length providers])"
  by (rule connectDependencies_result)

end
