(* ===== verification/Graph_Selection.thy ===== *)
theory Graph_Selection
  imports Graph_Connect
begin

text \<open>
  What the type index finds and which candidate a parameter is given: the index returns exactly
  the providers of an identical type when the keys do not depend on the spelling, and selection honours qualifiers, fallback, primary and
  parameter name in that order.
\<close>

section \<open>The index\<close>

definition provider_keys :: "provider \<Rightarrow> string set" where
  "provider_keys p =
     insert (type_key (prov_output p)) ((\<lambda>b. type_key (ifc_type b)) ` set (prov_interfaces p))"

lemma index_add_set: "set (index_add k i index key) = (if key = k then insert i (set (index key)) else set (index key))"
  by (auto simp: index_add_def)

lemma index_provider_set:
  "set (index_provider i p index key) = set (index key) \<union> (if key \<in> provider_keys p then {i} else {})"
proof -
  have fold: "set (fold (\<lambda>b. index_add (semanticTypeKey (Some (ifc_type b))) i) bs ix key) =
      set (ix key) \<union> (if key \<in> (\<lambda>b. type_key (ifc_type b)) ` set bs then {i} else {})" for bs ix
    by (induction bs arbitrary: ix) (auto simp: index_add_set semanticTypeKey_def)
  show ?thesis
    unfolding index_provider_def fold
    by (simp add: index_add_set provider_keys_def semanticTypeKey_def)
qed

lemma index_fold_set:
  "set (fold (\<lambda>(i, p). index_provider i p) (enumerate n ps) index key) =
     set (index key) \<union> {n + i | i. i < length ps \<and> key \<in> provider_keys (ps ! i)}"
proof (induction ps arbitrary: n index)
  case (Cons p ps)
  have "{n + i | i. i < length (p # ps) \<and> key \<in> provider_keys ((p # ps) ! i)} =
      (if key \<in> provider_keys p then {n} else {}) \<union>
      {Suc n + i | i. i < length ps \<and> key \<in> provider_keys (ps ! i)}" (is "?L = ?R")
  proof (rule set_eqI)
    fix x
    show "x \<in> ?L \<longleftrightarrow> x \<in> ?R"
      by (auto simp: less_Suc_eq_0_disj)
  qed
  with Cons show ?case by (auto simp: index_provider_set)
qed simp

lemma set_buildTypeIndex:
  "set (buildTypeIndex providers key) =
     {i. i < length providers \<and> key \<in> provider_keys (providers ! i)}"
  by (simp add: buildTypeIndex_def index_fold_set [of 0, simplified])

lemma set_lookup:
  "set (lookup (buildTypeIndex providers) t providers) =
     {i. i < length providers \<and> type_key t \<in> provider_keys (providers ! i) \<and> provides t (providers ! i)}"
  by (auto simp: lookup_def set_buildTypeIndex semanticTypeKey_def)

lemma lookup_range: "set (lookup (buildTypeIndex providers) t providers) \<subseteq> {..<length providers}"
  by (auto simp: set_lookup)

definition keys_safe :: "provider \<Rightarrow> bool" where
  "keys_safe p = (key_safe (prov_output p) \<and> list_all (\<lambda>b. key_safe (ifc_type b)) (prov_interfaces p))"

lemma provides_key:
  "provides t p \<Longrightarrow> key_safe t \<Longrightarrow> keys_safe p \<Longrightarrow> type_key t \<in> provider_keys p"
  by (auto simp: provides_def keys_safe_def provider_keys_def list_ex_iff list_all_iff
      dest: identical_same_key)

text \<open>
  C18. The type index is exact for types whose key does not depend on their spelling (\<open>key_safe\<close>: below
  the composite types no alias, no \<open>byte\<close> or \<open>rune\<close> and no parameter names): in a catalog with
  distinct symbol identifiers and such types, a lookup for such a type returns every provider whose output or one of
  whose declared interfaces is identical to the required type, each once, ordered by symbol,
  and no other provider.
\<close>

theorem lookup_exact:
  assumes "distinct_symbols providers" "key_safe t" "list_all keys_safe providers"
  shows "set (lookup (buildTypeIndex providers) t providers) =
      {i. i < length providers \<and> provides t (providers ! i)}
    \<and> distinct (lookup (buildTypeIndex providers) t providers)
    \<and> sorted (map (symbol_of providers) (lookup (buildTypeIndex providers) t providers))"
proof (intro conjI)
  show "set (lookup (buildTypeIndex providers) t providers) =
      {i. i < length providers \<and> provides t (providers ! i)}"
    using assms(2,3) provides_key by (auto simp: set_lookup list_all_length)
  show "distinct (lookup (buildTypeIndex providers) t providers)"
    unfolding lookup_def using assms(1)
    by (rule distinct_sortedUnique) (auto simp: set_buildTypeIndex)
  show "sorted (map (symbol_of providers) (lookup (buildTypeIndex providers) t providers))"
    unfolding lookup_def by (rule sorted_sortedUnique)
qed

section \<open>Selection\<close>

lemma prefer_those_sub: "set (prefer_those good cs) \<subseteq> set cs"
  by (auto simp: prefer_those_def Let_def)

lemma prefer_those_Nil [simp]: "prefer_those good cs = [] \<longleftrightarrow> cs = []"
  by (auto simp: prefer_those_def Let_def)

lemma prefer_those_good: "c \<in> set (prefer_those good cs) \<Longrightarrow> \<not> good c \<Longrightarrow> d \<in> set cs \<Longrightarrow> \<not> good d"
  by (auto simp: prefer_those_def Let_def filter_empty_conv split: if_splits)

lemma prefer_those_keep:
  "c \<in> set cs \<Longrightarrow> good c \<or> (\<forall>x \<in> set cs. \<not> good x) \<Longrightarrow> c \<in> set (prefer_those good cs)"
  by (auto simp: prefer_those_def Let_def)

lemma selected_sub: "set (selectedCandidates cs input ps) \<subseteq> set cs"
  using prefer_those_sub
  unfolding selectedCandidates_def preferNonFallback_def selectPrimary_def selectByParameterName_def Let_def
  by (smt (verit) subset_trans)

lemma filterQualified_set:
  "set (filterQualified cs qs ps) = {c \<in> set cs. list_all (qualifier_matches (ps ! c)) qs}"
  by (auto simp: filterQualified_def)

lemma candidates_range:
  "dependencyCandidates (buildTypeIndex ps) input ps = (kind, cs) \<Longrightarrow> set cs \<subseteq> {..<length ps}"
  using lookup_range by (fastforce simp: dependencyCandidates_def filterQualified_set Let_def split: if_splits)

lemma targets_range: "set (resolution_targets (resolve_dependency u ps i input)) \<subseteq> {..<length ps}"
proof -
  obtain kind cs where kc: "dependencyCandidates (buildTypeIndex ps) input ps = (kind, cs)" by fastforce
  have "length (selectedCandidates cs input ps) = Suc 0 \<Longrightarrow> hd (selectedCandidates cs input ps) \<in> set cs"
    using selected_sub [of cs input ps] by (cases "selectedCandidates cs input ps") auto
  with kc candidates_range [OF kc] show ?thesis
    by (auto simp: resolve_dependency_def resolve_collection_def resolve_single_def Let_def
        orderedCollectionCandidates_def split: option.splits if_splits)
qed

lemma dependency_targets_range: "set (dependency_targets u ps i) \<subseteq> {..<length ps}"
  using targets_range by (fastforce simp: dependency_targets_def)

text \<open>The candidates of a parameter, before selection.\<close>

lemma candidates_match:
  assumes "dependencyCandidates (buildTypeIndex ps) input ps = (kind, cs)" "c \<in> set cs"
  shows "(provides (dep_type input) (ps ! c) \<or> provides (MatchType input) (ps ! c))
    \<and> list_all (qualifier_matches (ps ! c)) (dep_qualifiers input)"
  using assms
  by (auto simp: dependencyCandidates_def filterQualified_set Let_def set_lookup split: if_splits)

text \<open>
  When a parameter is injected with one provider, that provider supplies the required type and
  carries every requested qualifier, and fallback and primary are honoured.
\<close>

lemma single_selection:
  assumes "resolve_dependency u ps i input = Injected kind targets"
    and "kind \<noteq> DependencySlice" "kind \<noteq> DependencyMap" "d \<in> set targets"
  shows "\<exists>cs. dependencyCandidates (buildTypeIndex ps) input ps = (kind, cs) \<and> targets = [d]
    \<and> d \<in> set cs \<and> d < length ps
    \<and> (provides (dep_type input) (ps ! d) \<or> provides (MatchType input) (ps ! d))
    \<and> list_all (qualifier_matches (ps ! d)) (dep_qualifiers input)
    \<and> (prov_scope (ps ! d) = BeanScopeSingleton \<or> dep_kind input = DependencyProvider)
    \<and> (prov_fallback (ps ! d) \<longrightarrow> (\<forall>c \<in> set cs. prov_fallback (ps ! c)))
    \<and> (\<forall>c \<in> set cs. prov_primary (ps ! c) \<longrightarrow> \<not> prov_primary (ps ! d)
          \<longrightarrow> prov_fallback (ps ! c) \<and> \<not> prov_fallback (ps ! d))"
proof -
  obtain kind' cs where kc: "dependencyCandidates (buildTypeIndex ps) input ps = (kind', cs)" by fastforce
  have coll: "kind' \<noteq> DependencySlice \<and> kind' \<noteq> DependencyMap \<and> kind' = kind"
    using assms(1-3) kc
    by (auto simp: resolve_dependency_def resolve_collection_def resolve_single_def Let_def
        split: if_splits option.splits)
  then have r: "resolve_single u ps (ps ! i) input kind cs = Injected kind targets"
    using assms(1) kc by (auto simp: resolve_dependency_def)
  let ?s = "selectedCandidates cs input ps"
  have s: "?s = [d]" "targets = [d]"
    and scope: "prov_scope (ps ! d) = BeanScopeSingleton \<or> dep_kind input = DependencyProvider"
    using r assms(4) by (cases ?s; auto simp: resolve_single_def Let_def split: if_splits)+
  have d: "d \<in> set cs" using selected_sub [of cs input ps] s by auto
  define c1 where "c1 = preferNonFallback cs ps"
  define c2 where "c2 = (if 1 < length c1 then selectPrimary c1 ps else c1)"
  have "set ?s \<subseteq> set c2"
    unfolding selectedCandidates_def Let_def c1_def [symmetric] c2_def [symmetric] selectByParameterName_def
    by (simp add: prefer_those_sub)
  then have d2: "d \<in> set c2" using s(1) by simp
  then have d1: "d \<in> set c1"
    using prefer_those_sub by (fastforce simp: c2_def selectPrimary_def split: if_splits)
  have fb: "prov_fallback (ps ! d) \<longrightarrow> (\<forall>c \<in> set cs. prov_fallback (ps ! c))"
    using d1 prefer_those_good [of d "\<lambda>c. \<not> prov_fallback (ps ! c)" cs]
    unfolding c1_def preferNonFallback_def by blast
  have c1_mem: "c \<in> set c1" if "c \<in> set cs" "prov_fallback (ps ! c) \<longrightarrow> prov_fallback (ps ! d)" for c
    unfolding c1_def preferNonFallback_def
    by (rule prefer_those_keep [OF that(1)]) (use that(2) fb in blast)
  have pr: "\<not> prov_primary (ps ! c)" if "c \<in> set c1" "\<not> prov_primary (ps ! d)" for c
  proof (cases "1 < length c1")
    case True
    then have "d \<in> set (prefer_those (\<lambda>c. prov_primary (ps ! c)) c1)"
      using d2 unfolding c2_def selectPrimary_def by simp
    then show ?thesis by (rule prefer_those_good) (use that in blast)+
  next
    case False
    with d1 that(1) have "c = d" by (cases c1) auto
    with that(2) show ?thesis by simp
  qed
  have "d < length ps" using candidates_range [OF kc] d by auto
  with kc coll s(2) d candidates_match [OF kc d] scope fb pr c1_mem show ?thesis by blast
qed

section \<open>Examples\<close>

theorem lookup_exact_witness:
  "set (lookup (buildTypeIndex sample_catalog) repo_type sample_catalog) =
      {i. i < length sample_catalog \<and> provides repo_type (sample_catalog ! i)}
    \<and> distinct (lookup (buildTypeIndex sample_catalog) repo_type sample_catalog)
    \<and> sorted (map (symbol_of sample_catalog) (lookup (buildTypeIndex sample_catalog) repo_type sample_catalog))"
proof (rule lookup_exact)
  show "distinct_symbols sample_catalog" by code_simp
  show "key_safe repo_type" by code_simp
  show "list_all keys_safe sample_catalog" by code_simp
qed

end
