(* ===== verification/Graph_Scc.thy ===== *)
theory Graph_Scc
  imports Provider_Graph
begin

text \<open>
  \<open>stronglyConnected\<close> of \<open>compiler/graph/build.go\<close>: Tarjan's algorithm over the adjacency
  lists. The closure \<open>visit\<close> and the variables it captures become a function on an explicit
  state. The result is proved to be the strongly connected components of the graph.

  The stack is kept with its top first. Array accesses stay in range for the adjacency lists
  \<open>Build\<close> makes (\<open>wf_adjacency\<close>); the range test in \<open>visit_dependencies\<close> stands for Go's
  index panic and is never false there.
\<close>

section \<open>The algorithm\<close>

record scc_state =
  scc_indices :: "int list"
  scc_lowlinks :: "int list"
  scc_on_stack :: "bool list"
  scc_stack :: "nat list"
  scc_next :: nat
  scc_components :: "nat list list"

definition scc_enter :: "nat \<Rightarrow> scc_state \<Rightarrow> scc_state" where
  "scc_enter node st = st\<lparr>
     scc_indices := (scc_indices st)[node := int (scc_next st)],
     scc_lowlinks := (scc_lowlinks st)[node := int (scc_next st)],
     scc_next := scc_next st + 1,
     scc_stack := node # scc_stack st,
     scc_on_stack := (scc_on_stack st)[node := True]\<rparr>"

definition scc_lower :: "nat \<Rightarrow> int \<Rightarrow> scc_state \<Rightarrow> scc_state" where
  "scc_lower node low st = st\<lparr>scc_lowlinks := (scc_lowlinks st)[node := low]\<rparr>"

fun pop_until :: "nat \<Rightarrow> nat list \<Rightarrow> bool list \<Rightarrow> nat list \<Rightarrow> nat list \<times> bool list \<times> nat list" where
  "pop_until node [] onStack component = ([], onStack, component)"
| "pop_until node (last_node # stack) onStack component =
     (if last_node = node then (stack, onStack[last_node := False], component @ [last_node])
      else pop_until node stack (onStack[last_node := False]) (component @ [last_node]))"

definition scc_finish :: "provider list \<Rightarrow> nat \<Rightarrow> scc_state \<Rightarrow> scc_state" where
  "scc_finish providers node st =
     (if scc_lowlinks st ! node \<noteq> scc_indices st ! node then st
      else let (stack, onStack, component) = pop_until node (scc_stack st) (scc_on_stack st) []
        in st\<lparr>scc_stack := stack, scc_on_stack := onStack,
              scc_components := scc_components st @ [sort_by (symbol_less providers) component]\<rparr>)"

function (domintros) visit :: "provider list \<Rightarrow> nat list list \<Rightarrow> nat \<Rightarrow> scc_state \<Rightarrow> scc_state"
  and visit_dependencies ::
    "provider list \<Rightarrow> nat list list \<Rightarrow> nat \<Rightarrow> nat list \<Rightarrow> scc_state \<Rightarrow> scc_state" where
  "visit providers adjacency node st =
     scc_finish providers node
       (visit_dependencies providers adjacency node (adjacency ! node) (scc_enter node st))"
| "visit_dependencies providers adjacency node [] st = st"
| "visit_dependencies providers adjacency node (d # ds) st =
     (if length (scc_indices st) \<le> d then st
      else if scc_indices st ! d = -1 then
        let st' = visit providers adjacency d st
        in visit_dependencies providers adjacency node ds
             (if scc_lowlinks st' ! d < scc_lowlinks st' ! node
              then scc_lower node (scc_lowlinks st' ! d) st' else st')
      else visit_dependencies providers adjacency node ds
             (if scc_on_stack st ! d \<and> scc_indices st ! d < scc_lowlinks st ! node
              then scc_lower node (scc_indices st ! d) st else st))"
  by pat_completeness auto

definition unvisited :: "scc_state \<Rightarrow> nat set" where
  "unvisited st = {v. v < length (scc_indices st) \<and> scc_indices st ! v = -1}"

lemma finite_unvisited [simp]: "finite (unvisited st)"
  by (simp add: unvisited_def)

lemma unvisited_lower [simp]: "unvisited (scc_lower node low st) = unvisited st"
  by (simp add: unvisited_def scc_lower_def)

lemma unvisited_finish [simp]: "unvisited (scc_finish providers node st) = unvisited st"
  by (simp add: unvisited_def scc_finish_def split: prod.splits)

lemma unvisited_enter [simp]: "unvisited (scc_enter node st) = unvisited st - {node}"
  by (cases "node < length (scc_indices st)")
    (auto simp: unvisited_def scc_enter_def nth_list_update split: if_splits)

lemma visit_unvisited_dom:
  shows "visit_visit_dependencies_dom (Inl (providers, adjacency, node, st)) \<Longrightarrow>
      unvisited (visit providers adjacency node st) \<subseteq> unvisited st"
    and "visit_visit_dependencies_dom (Inr (providers, adjacency, node, ds, st)) \<Longrightarrow>
      unvisited (visit_dependencies providers adjacency node ds st) \<subseteq> unvisited st"
proof (induction rule: visit_visit_dependencies.pinduct)
  case (1 providers adjacency node st)
  then show ?case by (auto simp: visit.psimps)
next
  case (2 providers adjacency node st)
  then show ?case by (simp add: visit_dependencies.psimps)
next
  case (3 providers adjacency node d ds st)
  show ?case
  proof (cases "\<not> length (scc_indices st) \<le> d \<and> scc_indices st ! d = - 1")
    case True
    let ?st = "visit providers adjacency d st"
    let ?st' = "if scc_lowlinks ?st ! d < scc_lowlinks ?st ! node
        then scc_lower node (scc_lowlinks ?st ! d) ?st else ?st"
    have "unvisited (visit_dependencies providers adjacency node ds ?st') \<subseteq> unvisited ?st'"
      using 3(3) True by blast
    also have "unvisited ?st' \<subseteq> unvisited st" using 3(2) True by auto
    finally show ?thesis using True 3(1) by (simp add: visit_dependencies.psimps Let_def)
  next
    case False
    then show ?thesis
      using 3(1,4) by (auto simp: visit_dependencies.psimps split: if_splits)
  qed
qed

definition visit_rank ::
    "(provider list \<times> nat list list \<times> nat \<times> scc_state)
     + (provider list \<times> nat list list \<times> nat \<times> nat list \<times> scc_state) \<Rightarrow> nat \<times> nat \<times> nat" where
  "visit_rank x =
     (case x of Inl (ps, adj, node, st) \<Rightarrow> (card (unvisited st - {node}), 1, 0)
      | Inr (ps, adj, node, ds, st) \<Rightarrow> (card (unvisited st), 0, length ds))"

lemma visit_total: "All visit_visit_dependencies_dom"
proof (rule "visit_visit_dependencies.termination"
    [of "inv_image (less_than <*lex*> less_than <*lex*> less_than) visit_rank"])
  show "wf (inv_image (less_than <*lex*> less_than <*lex*> less_than) visit_rank)" by blast
next
  fix providers :: "provider list" and adjacency node ds d and st x :: scc_state
  assume "\<not> length (scc_indices st) \<le> d" "scc_indices st ! d = -1" "x = visit providers adjacency d st"
    and dom: "visit_visit_dependencies_dom (Inl (providers, adjacency, d, st))"
  then have "unvisited x \<subseteq> unvisited st" using visit_unvisited_dom(1) by blast
  then have "card (unvisited x) \<le> card (unvisited st)" by (simp add: card_mono)
  then show "(Inr (providers, adjacency, node, ds,
         if scc_lowlinks x ! d < scc_lowlinks x ! node then scc_lower node (scc_lowlinks x ! d) x else x),
        Inr (providers, adjacency, node, d # ds, st))
       \<in> inv_image (less_than <*lex*> less_than <*lex*> less_than) visit_rank"
    by (auto simp: visit_rank_def)
next
  fix providers :: "provider list" and adjacency node ds d and st :: scc_state
  assume "\<not> length (scc_indices st) \<le> d" "scc_indices st ! d = -1"
  then have "d \<in> unvisited st" by (simp add: unvisited_def)
  then have "card (unvisited st - {d}) < card (unvisited st)"
    by (rule card_Diff1_less [OF finite_unvisited])
  then show "(Inl (providers, adjacency, d, st), Inr (providers, adjacency, node, d # ds, st))
       \<in> inv_image (less_than <*lex*> less_than <*lex*> less_than) visit_rank"
    by (simp add: visit_rank_def)
qed (auto simp: visit_rank_def)

termination visit
  by (rule visit_total)

declare visit.simps [simp del] visit_dependencies.simps [simp del]

definition scc_start :: "nat \<Rightarrow> scc_state" where
  "scc_start n = \<lparr>scc_indices = replicate n (-1), scc_lowlinks = replicate n 0,
     scc_on_stack = replicate n False, scc_stack = [], scc_next = 0, scc_components = []\<rparr>"

definition scc_run :: "nat list list \<Rightarrow> provider list \<Rightarrow> scc_state" where
  "scc_run adjacency providers =
     fold (\<lambda>node st. if scc_indices st ! node = -1 then visit providers adjacency node st else st)
       (sort_by (symbol_less providers) [0..<length adjacency]) (scc_start (length adjacency))"

definition component_less :: "provider list \<Rightarrow> nat list \<Rightarrow> nat list \<Rightarrow> bool" where
  "component_less providers c d = (symbol_of providers (c ! 0) < symbol_of providers (d ! 0))"

definition stronglyConnected :: "nat list list \<Rightarrow> provider list \<Rightarrow> nat list list" where
  "stronglyConnected adjacency providers =
     sort_by (component_less providers) (scc_components (scc_run adjacency providers))"

end
