(* ===== verification/Graph_Scc_Correct.thy ===== *)
theory Graph_Scc_Correct
  imports Graph_Scc
begin

text \<open>
  Correctness of \<open>stronglyConnected\<close>. The invariant follows the stack: nodes on it reach every
  node above them, and each reaches a node whose visit is still open (\<open>gray\<close>) at or below it;
  emitted components are strongly connected and closed under edges up to earlier components.
\<close>

section \<open>Reachability and components\<close>

definition graph_edges :: "nat list list \<Rightarrow> (nat \<times> nat) set" where
  "graph_edges adjacency = {(v, w). v < length adjacency \<and> w \<in> set (adjacency ! v)}"

abbreviation reaches :: "nat list list \<Rightarrow> nat \<Rightarrow> nat \<Rightarrow> bool" where
  "reaches adjacency v w \<equiv> (v, w) \<in> (graph_edges adjacency)\<^sup>*"

definition wf_adjacency :: "nat list list \<Rightarrow> bool" where
  "wf_adjacency adjacency = (\<forall>v < length adjacency. set (adjacency ! v) \<subseteq> {..<length adjacency})"

definition connected_set :: "nat list list \<Rightarrow> nat set \<Rightarrow> bool" where
  "connected_set adjacency C = (\<forall>x \<in> C. \<forall>y \<in> C. reaches adjacency x y)"

text \<open>Edges lead into the same or an earlier component.\<close>

fun closed_components :: "nat list list \<Rightarrow> nat set \<Rightarrow> nat list list \<Rightarrow> bool" where
  "closed_components adjacency seen [] = True"
| "closed_components adjacency seen (c # cs) =
     ((\<forall>v \<in> set c. set (adjacency ! v) \<subseteq> seen \<union> set c) \<and> closed_components adjacency (seen \<union> set c) cs)"

definition members :: "nat list list \<Rightarrow> nat set" where
  "members components = (\<Union>c \<in> set components. set c)"

lemma members_simps [simp]:
  "members [] = {}" "members (c # cs) = set c \<union> members cs" "members (cs @ ds) = members cs \<union> members ds"
  by (auto simp: members_def)

lemma members_concat: "members cs = set (concat cs)"
  by (simp add: members_def)

lemma closed_components_append:
  "closed_components adjacency seen (cs @ ds) =
     (closed_components adjacency seen cs \<and> closed_components adjacency (seen \<union> members cs) ds)"
  by (induction cs arbitrary: seen) (auto simp: Un_assoc)

section \<open>The invariant\<close>

abbreviation idx :: "scc_state \<Rightarrow> nat \<Rightarrow> int" where
  "idx st v \<equiv> scc_indices st ! v"

abbreviation low :: "scc_state \<Rightarrow> nat \<Rightarrow> int" where
  "low st v \<equiv> scc_lowlinks st ! v"

definition visited :: "scc_state \<Rightarrow> nat set" where
  "visited st = {v. v < length (scc_indices st) \<and> idx st v \<noteq> -1}"

definition shape_ok :: "nat list list \<Rightarrow> scc_state \<Rightarrow> bool" where
  "shape_ok adjacency st =
     (length (scc_indices st) = length adjacency \<and> length (scc_lowlinks st) = length adjacency
      \<and> length (scc_on_stack st) = length adjacency)"

definition stack_ok :: "scc_state \<Rightarrow> bool" where
  "stack_ok st =
     (distinct (scc_stack st)
      \<and> (\<forall>v < length (scc_on_stack st). scc_on_stack st ! v = (v \<in> set (scc_stack st)))
      \<and> sorted_wrt (\<lambda>x y. idx st y < idx st x) (scc_stack st)
      \<and> (\<forall>v \<in> visited st. 0 \<le> idx st v \<and> idx st v < int (scc_next st)))"

definition components_ok :: "nat list list \<Rightarrow> scc_state \<Rightarrow> bool" where
  "components_ok adjacency st =
     (visited st = set (scc_stack st) \<union> members (scc_components st)
      \<and> set (scc_stack st) \<inter> members (scc_components st) = {}
      \<and> distinct (concat (scc_components st)) \<and> [] \<notin> set (scc_components st)
      \<and> (\<forall>c \<in> set (scc_components st). connected_set adjacency (set c))
      \<and> closed_components adjacency {} (scc_components st))"

definition reach_ok :: "nat list list \<Rightarrow> nat set \<Rightarrow> scc_state \<Rightarrow> bool" where
  "reach_ok adjacency gray st =
     (gray \<subseteq> set (scc_stack st)
      \<and> (\<forall>v \<in> visited st - gray. set (adjacency ! v) \<subseteq> visited st)
      \<and> (\<forall>x \<in> set (scc_stack st). \<forall>y \<in> set (scc_stack st). idx st x \<le> idx st y \<longrightarrow> reaches adjacency x y)
      \<and> (\<forall>y \<in> set (scc_stack st). \<exists>g \<in> gray. idx st g \<le> idx st y \<and> reaches adjacency y g))"

definition scc_inv :: "nat list list \<Rightarrow> nat set \<Rightarrow> scc_state \<Rightarrow> bool" where
  "scc_inv adjacency gray st =
     (shape_ok adjacency st \<and> stack_ok st \<and> components_ok adjacency st \<and> reach_ok adjacency gray st)"

lemmas scc_inv_parts = scc_inv_def shape_ok_def stack_ok_def components_ok_def reach_ok_def

lemma scc_invD:
  assumes "scc_inv adjacency gray st"
  shows scc_inv_gray: "gray \<subseteq> set (scc_stack st)"
    and scc_inv_black: "v \<in> visited st \<Longrightarrow> v \<notin> gray \<Longrightarrow> set (adjacency ! v) \<subseteq> visited st"
    and scc_inv_order: "x \<in> set (scc_stack st) \<Longrightarrow> y \<in> set (scc_stack st) \<Longrightarrow> idx st x \<le> idx st y \<Longrightarrow>
      reaches adjacency x y"
    and scc_inv_open: "y \<in> set (scc_stack st) \<Longrightarrow> \<exists>g \<in> gray. idx st g \<le> idx st y \<and> reaches adjacency y g"
    and scc_inv_visited: "visited st = set (scc_stack st) \<union> members (scc_components st)"
    and scc_inv_bound: "v \<in> visited st \<Longrightarrow> 0 \<le> idx st v \<and> idx st v < int (scc_next st)"
  using assms unfolding scc_inv_def reach_ok_def stack_ok_def components_ok_def by blast+

lemma scc_inv_lower [simp]: "scc_inv adjacency gray (scc_lower node l st) = scc_inv adjacency gray st"
  by (simp add: scc_inv_parts scc_lower_def visited_def)

lemma visited_lower [simp]: "visited (scc_lower node l st) = visited st"
  by (simp add: visited_def scc_lower_def)

lemma visited_finish [simp]: "visited (scc_finish providers node st) = visited st"
  by (simp add: visited_def scc_finish_def split: prod.splits)

section \<open>Entering a node\<close>

lemma visited_enter:
  "shape_ok adjacency st \<Longrightarrow> node < length adjacency \<Longrightarrow> visited (scc_enter node st) = insert node (visited st)"
  by (auto simp: visited_def scc_enter_def shape_ok_def nth_list_update split: if_splits)

lemma idx_enter:
  "shape_ok adjacency st \<Longrightarrow> node < length adjacency \<Longrightarrow>
   idx (scc_enter node st) v = (if v = node then int (scc_next st) else idx st v)"
  by (simp add: scc_enter_def shape_ok_def nth_list_update)

lemma enter_inv:
  assumes inv: "scc_inv adjacency gray st" and node: "node < length adjacency" "node \<notin> visited st"
    and gray: "\<forall>g \<in> gray. reaches adjacency g node"
  shows "scc_inv adjacency (insert node gray) (scc_enter node st)"
proof -
  let ?st = "scc_enter node st"
  have shape: "shape_ok adjacency st" using inv by (simp add: scc_inv_def)
  note vis = visited_enter [OF shape node(1)] and idx = idx_enter [OF shape node(1)]
  have stack: "scc_stack ?st = node # scc_stack st" "scc_components ?st = scc_components st"
    "scc_next ?st = Suc (scc_next st)"
    by (simp_all add: scc_enter_def)
  have sub: "set (scc_stack st) \<subseteq> visited st" and bound: "\<forall>v \<in> visited st. 0 \<le> idx st v \<and> idx st v < int (scc_next st)"
    using inv by (auto simp: scc_inv_parts)
  have fresh: "node \<notin> set (scc_stack st)" "node \<notin> members (scc_components st)"
    using inv node(2) by (auto simp: scc_inv_parts)
  have "shape_ok adjacency ?st" using shape by (simp add: shape_ok_def scc_enter_def)
  moreover have "stack_ok ?st"
    unfolding stack_ok_def
  proof (intro conjI)
    show "distinct (scc_stack ?st)" using inv fresh stack by (simp add: scc_inv_parts)
    show "\<forall>v < length (scc_on_stack ?st). scc_on_stack ?st ! v = (v \<in> set (scc_stack ?st))"
      using inv node(1) by (auto simp: scc_inv_parts scc_enter_def nth_list_update)
    have "sorted_wrt (\<lambda>x y. idx ?st y < idx ?st x) (scc_stack st)"
      using inv fresh(1) by (auto simp: scc_inv_parts idx elim!: sorted_wrt_mono_rel [rotated])
    then show "sorted_wrt (\<lambda>x y. idx ?st y < idx ?st x) (scc_stack ?st)"
      using stack sub bound fresh by (auto simp: idx)
    show "\<forall>v \<in> visited ?st. 0 \<le> idx ?st v \<and> idx ?st v < int (scc_next ?st)"
      using bound by (auto simp: vis idx stack)
  qed
  moreover have "components_ok adjacency ?st"
    using inv fresh unfolding scc_inv_def components_ok_def vis stack by auto
  moreover have "reach_ok adjacency (insert node gray) ?st"
    unfolding reach_ok_def
  proof (intro conjI ballI impI)
    show "insert node gray \<subseteq> set (scc_stack ?st)" using scc_inv_gray [OF inv] stack by auto
    show "set (adjacency ! v) \<subseteq> visited ?st" if "v \<in> visited ?st - insert node gray" for v
      using that scc_inv_black [OF inv, of v] vis by blast
    have below: "reaches adjacency x node" if "x \<in> set (scc_stack st)" for x
    proof -
      obtain g where "g \<in> gray" "reaches adjacency x g"
        using scc_inv_open [OF inv] \<open>x \<in> set (scc_stack st)\<close> by blast
      with gray show ?thesis by (meson rtrancl_trans)
    qed
    show "reaches adjacency x y"
      if "x \<in> set (scc_stack ?st)" "y \<in> set (scc_stack ?st)" "idx ?st x \<le> idx ?st y" for x y
    proof (cases "x = node \<or> y = node")
      case True
      then show ?thesis
        using that below sub bound stack by (force simp: idx split: if_splits)
    next
      case False
      then show ?thesis using that scc_inv_order [OF inv, of x y] stack by (simp add: idx)
    qed
    show "\<exists>g \<in> insert node gray. idx ?st g \<le> idx ?st y \<and> reaches adjacency y g"
      if "y \<in> set (scc_stack ?st)" for y
    proof (cases "y = node")
      case False
      then have y: "y \<in> set (scc_stack st)" using that stack by auto
      then obtain g where g: "g \<in> gray" "idx st g \<le> idx st y" "reaches adjacency y g"
        using scc_inv_open [OF inv] by blast
      moreover have "g \<noteq> node" using g(1) scc_inv_gray [OF inv] fresh by blast
      ultimately show ?thesis using False by (auto simp: idx)
    qed auto
  qed
  ultimately show ?thesis by (simp add: scc_inv_def)
qed

section \<open>Finishing a node\<close>

lemma pop_until_eq:
  "node \<notin> set s \<Longrightarrow> pop_until node (s @ node # rest) onStack component =
     (rest, fold (\<lambda>x on. on[x := False]) (s @ [node]) onStack, component @ s @ [node])"
  by (induction s arbitrary: onStack component) auto

lemma off_one: "v < length on \<Longrightarrow> on[a := False] ! v = (on ! v \<and> v \<noteq> a)"
  by (cases "v = a") auto

lemma fold_off:
  "v < length on \<Longrightarrow> fold (\<lambda>x on. on[x := False]) xs on ! v = (on ! v \<and> v \<notin> set xs)"
  "length (fold (\<lambda>x on. on[x := False]) xs on) = length on"
  by (induction xs arbitrary: on) (auto simp: off_one)

text \<open>The state of a node all of whose edges have been followed.\<close>

definition ready_to_finish :: "nat list list \<Rightarrow> nat set \<Rightarrow> nat \<Rightarrow> nat list \<Rightarrow> nat list \<Rightarrow> scc_state \<Rightarrow> bool" where
  "ready_to_finish adjacency gray node upper rest st =
     (scc_inv adjacency (insert node gray) st \<and> scc_stack st = upper @ node # rest
      \<and> gray \<subseteq> set rest \<and> set (adjacency ! node) \<subseteq> visited st
      \<and> low st node \<le> idx st node
      \<and> (\<exists>y \<in> set (scc_stack st). idx st y = low st node \<and> reaches adjacency node y)
      \<and> (\<forall>x \<in> set (upper @ [node]). \<forall>w \<in> set (adjacency ! x). w \<in> set rest \<longrightarrow> low st node \<le> idx st w))"

lemma stack_idx_split:
  assumes "stack_ok st" "scc_stack st = upper @ node # rest"
  shows "\<forall>x \<in> set upper. idx st node < idx st x" "\<forall>x \<in> set rest. idx st x < idx st node"
    "node \<notin> set upper" "node \<notin> set rest" "set upper \<inter> set rest = {}"
  using assms by (auto simp: stack_ok_def sorted_wrt_append)

lemma component_connected:
  assumes "ready_to_finish adjacency gray node upper rest st"
  shows "connected_set adjacency (set (upper @ [node]))"
proof -
  have inv: "scc_inv adjacency (insert node gray) st" and stack: "scc_stack st = upper @ node # rest"
    and gray: "gray \<subseteq> set rest"
    using assms by (auto simp: ready_to_finish_def)
  note sp = stack_idx_split [OF _ stack]
  have st: "stack_ok st" using inv by (simp add: scc_inv_def)
  have order: "reaches adjacency x y" if "x \<in> set (scc_stack st)" "y \<in> set (scc_stack st)" "idx st x \<le> idx st y" for x y
    using scc_inv_order [OF inv that] .
  have down: "reaches adjacency node x" if "x \<in> set (upper @ [node])" for x
    using that sp(1) [OF st] by (intro order) (auto simp: stack less_imp_le)
  have up: "reaches adjacency x node" if "x \<in> set (upper @ [node])" for x
  proof -
    have "x \<in> set (scc_stack st)" using that by (auto simp: stack)
    then obtain g where g: "g \<in> insert node gray" "reaches adjacency x g"
      using scc_inv_open [OF inv] by blast
    have "idx st g \<le> idx st node" "g \<in> set (scc_stack st)"
      using g(1) gray sp(2) [OF st] by (auto simp: stack less_imp_le subset_eq)
    then have "reaches adjacency g node" by (intro order) (auto simp: stack)
    with g(2) show ?thesis by (rule rtrancl_trans)
  qed
  show ?thesis
    unfolding connected_set_def using up down by (meson rtrancl_trans)
qed

lemma finish_popped:
  fixes providers :: "provider list"
  assumes ready: "ready_to_finish adjacency gray node upper rest st" and eq: "low st node = idx st node"
  defines "st' \<equiv> scc_finish providers node st"
  shows "scc_inv adjacency gray st'" "scc_stack st' = rest"
proof -
  have inv: "scc_inv adjacency (insert node gray) st" and stack: "scc_stack st = upper @ node # rest"
    and gray: "gray \<subseteq> set rest" and succ: "set (adjacency ! node) \<subseteq> visited st"
    and lows: "\<forall>x \<in> set (upper @ [node]). \<forall>w \<in> set (adjacency ! x). w \<in> set rest \<longrightarrow> low st node \<le> idx st w"
    using ready by (auto simp: ready_to_finish_def)
  have st: "stack_ok st" and comps: "components_ok adjacency st" and reach: "reach_ok adjacency (insert node gray) st"
    and shape: "shape_ok adjacency st"
    using inv by (auto simp: scc_inv_def)
  note sp = stack_idx_split [OF st stack]
  let ?c = "sort_by (symbol_less providers) (upper @ [node])"
  have st': "st' = st\<lparr>scc_stack := rest, scc_on_stack := fold (\<lambda>x on. on[x := False]) (upper @ [node]) (scc_on_stack st),
      scc_components := scc_components st @ [?c]\<rparr>"
    using eq sp(3) by (simp add: st'_def scc_finish_def stack pop_until_eq)
  have vis: "visited st' = visited st" by (simp add: st'_def)
  show "scc_stack st' = rest" by (simp add: st')
  have "shape_ok adjacency st'" using shape by (simp add: st' shape_ok_def fold_off)
  moreover have "stack_ok st'"
    unfolding stack_ok_def vis
  proof (intro conjI)
    show "distinct (scc_stack st')" "sorted_wrt (\<lambda>x y. idx st' y < idx st' x) (scc_stack st')"
      using st by (simp_all add: stack_ok_def st' stack sorted_wrt_append)
    have on: "v < length (scc_on_stack st) \<Longrightarrow> scc_on_stack st ! v = (v \<in> set upper \<union> {node} \<union> set rest)" for v
      using st stack by (auto simp: stack_ok_def)
    show "\<forall>v < length (scc_on_stack st'). scc_on_stack st' ! v = (v \<in> set (scc_stack st'))"
      using sp(3-5) by (auto simp: st' fold_off off_one on)
    show "\<forall>v \<in> visited st. 0 \<le> idx st' v \<and> idx st' v < int (scc_next st')"
      using st by (simp add: stack_ok_def st')
  qed
  moreover have "reach_ok adjacency gray st'"
    unfolding reach_ok_def
  proof (intro conjI)
    show "gray \<subseteq> set (scc_stack st')" using gray by (simp add: st')
    show "\<forall>v \<in> visited st' - gray. set (adjacency ! v) \<subseteq> visited st'"
      using reach succ unfolding vis reach_ok_def by blast
    show "\<forall>x \<in> set (scc_stack st'). \<forall>y \<in> set (scc_stack st'). idx st' x \<le> idx st' y \<longrightarrow> reaches adjacency x y"
      using reach unfolding st' reach_ok_def stack by simp
    have "\<exists>g \<in> gray. idx st g \<le> idx st y \<and> reaches adjacency y g" if "y \<in> set rest" for y
    proof -
      have "y \<in> set (scc_stack st)" using that stack by simp
      then obtain g where "g \<in> insert node gray" "idx st g \<le> idx st y" "reaches adjacency y g"
        using scc_inv_open [OF inv] by blast
      moreover from this have "g \<noteq> node" using sp(2) that by auto
      ultimately show ?thesis by blast
    qed
    then show "\<forall>y \<in> set (scc_stack st'). \<exists>g \<in> gray. idx st' g \<le> idx st' y \<and> reaches adjacency y g"
      by (simp add: st')
  qed
  moreover have "components_ok adjacency st'"
    unfolding components_ok_def vis
  proof (intro conjI)
    have vs: "visited st = set upper \<union> {node} \<union> set rest \<union> members (scc_components st)"
      and dj: "(set upper \<union> {node} \<union> set rest) \<inter> members (scc_components st) = {}"
      using comps stack by (auto simp: components_ok_def)
    show "visited st = set (scc_stack st') \<union> members (scc_components st')"
      using vs by (auto simp: st')
    show "set (scc_stack st') \<inter> members (scc_components st') = {}" using dj sp by (auto simp: st')
    show "distinct (concat (scc_components st'))"
      using comps st dj unfolding components_ok_def stack_ok_def stack st' members_concat by auto
    show "[] \<notin> set (scc_components st')"
      using comps by (auto simp: st' components_ok_def)
    show "\<forall>c \<in> set (scc_components st'). connected_set adjacency (set c)"
      using comps component_connected [OF ready] by (auto simp: st' components_ok_def)
    have "set (adjacency ! v) \<subseteq> members (scc_components st) \<union> set ?c" if v: "v \<in> set (upper @ [node])" for v
    proof -
      have "v \<notin> gray \<or> v = node" using v gray sp by auto
      moreover have "v \<in> visited st" using v vs by auto
      ultimately have "set (adjacency ! v) \<subseteq> visited st"
        using reach succ v by (auto simp: reach_ok_def)
      moreover have "w \<notin> set rest" if "w \<in> set (adjacency ! v)" for w
        using lows v that eq sp(2) by fastforce
      ultimately show ?thesis using vs by auto
    qed
    then show "closed_components adjacency {} (scc_components st')"
      using comps by (simp add: st' components_ok_def closed_components_append)
  qed
  ultimately show "scc_inv adjacency gray st'" by (simp add: scc_inv_def)
qed

lemma finish_kept:
  assumes ready: "ready_to_finish adjacency gray node upper rest st" and neq: "low st node \<noteq> idx st node"
  shows "scc_finish providers node st = st" "scc_inv adjacency gray st"
    "\<exists>y \<in> set rest. idx st y = low st node \<and> reaches adjacency node y"
proof -
  have inv: "scc_inv adjacency (insert node gray) st" and stack: "scc_stack st = upper @ node # rest"
    and gray: "gray \<subseteq> set rest" and succ: "set (adjacency ! node) \<subseteq> visited st"
    and le: "low st node \<le> idx st node"
    and ex: "\<exists>y \<in> set (scc_stack st). idx st y = low st node \<and> reaches adjacency node y"
    using ready by (auto simp: ready_to_finish_def)
  have st: "stack_ok st" and reach: "reach_ok adjacency (insert node gray) st"
    using inv by (auto simp: scc_inv_def)
  note sp = stack_idx_split [OF st stack]
  obtain y where y: "y \<in> set rest" "idx st y = low st node" "reaches adjacency node y"
    using ex le neq sp(1) stack by fastforce
  note old = scc_inv_open [OF inv]
  have "y \<in> set (scc_stack st)" using y(1) stack by simp
  then obtain g where "g \<in> insert node gray" and g: "idx st g \<le> idx st y" "reaches adjacency y g"
    using old by blast
  moreover have "g \<noteq> node" using g(1) sp(2) y(1) by auto
  ultimately have g: "g \<in> gray" "idx st g \<le> idx st y" "reaches adjacency y g" by blast+
  have "\<exists>g \<in> gray. idx st g \<le> idx st z \<and> reaches adjacency z g" if z: "z \<in> set (scc_stack st)" for z
  proof -
    obtain h where h: "h \<in> insert node gray" "idx st h \<le> idx st z" "reaches adjacency z h"
      using old [OF z] by blast
    show ?thesis
    proof (cases "h = node")
      case True
      then have "reaches adjacency z g" using h(3) y(3) g(3) by (meson rtrancl_trans)
      moreover have "idx st g \<le> idx st z" using g(2) y(2) le h(2) True by simp
      ultimately show ?thesis using g(1) by blast
    qed (use h in blast)
  qed
  then have "reach_ok adjacency gray st"
    using reach succ gray stack unfolding reach_ok_def by blast
  then show "scc_inv adjacency gray st" using inv by (simp add: scc_inv_def)
  show "scc_finish providers node st = st" using neq by (simp add: scc_finish_def)
  show "\<exists>y \<in> set rest. idx st y = low st node \<and> reaches adjacency node y" using y by blast
qed

section \<open>Following the edges of a node\<close>

definition scc_frame :: "nat set \<Rightarrow> scc_state \<Rightarrow> scc_state \<Rightarrow> bool" where
  "scc_frame X st st' =
     (visited st \<subseteq> visited st' \<and> (\<forall>v \<in> visited st. idx st' v = idx st v)
      \<and> (\<forall>v \<in> visited st - X. low st' v = low st v) \<and> scc_next st \<le> scc_next st'
      \<and> (\<forall>v \<in> visited st' - visited st. int (scc_next st) \<le> idx st' v))"

lemma scc_frame_refl [simp]: "scc_frame X st st"
  by (simp add: scc_frame_def)

lemma scc_frame_trans: "scc_frame X st st' \<Longrightarrow> scc_frame X st' st'' \<Longrightarrow> scc_frame X st st''"
proof -
  assume a: "scc_frame X st st'" "scc_frame X st' st''"
  then have "int (scc_next st) \<le> idx st'' v" if "v \<in> visited st'' - visited st" for v
  proof (cases "v \<in> visited st'")
    case False
    with a that have "int (scc_next st') \<le> idx st'' v" "scc_next st \<le> scc_next st'"
      by (auto simp: scc_frame_def)
    then show ?thesis by simp
  qed (use a that in \<open>auto simp: scc_frame_def\<close>)
  with a show ?thesis by (auto 0 4 simp: scc_frame_def subset_eq)
qed

lemma scc_frame_mono: "scc_frame X st st' \<Longrightarrow> X \<subseteq> Y \<Longrightarrow> scc_frame Y st st'"
  unfolding scc_frame_def by blast

lemma scc_frame_lower: "scc_frame {node} st (scc_lower node l st)"
  by (auto simp: scc_frame_def scc_lower_def visited_def)

text \<open>
  The loop over the edges of \<open>node\<close>, with \<open>l\<close> the low link found so far: the stack is the
  nodes found from here, the node itself and the stack at entry.
\<close>

definition loop_at ::
    "nat list list \<Rightarrow> nat set \<Rightarrow> nat \<Rightarrow> nat list \<Rightarrow> nat list \<Rightarrow> nat set \<Rightarrow> int \<Rightarrow> scc_state \<Rightarrow> bool" where
  "loop_at adjacency gray node upper rest processed l st =
     (scc_inv adjacency (insert node gray) st \<and> scc_stack st = upper @ node # rest
      \<and> gray \<subseteq> set rest \<and> processed \<subseteq> visited st \<and> l \<le> idx st node
      \<and> (\<exists>y \<in> set (scc_stack st). idx st y = l \<and> reaches adjacency node y)
      \<and> (\<forall>x \<in> set upper. \<forall>w \<in> set (adjacency ! x). w \<in> set rest \<longrightarrow> l \<le> idx st w)
      \<and> (\<forall>w \<in> processed. w \<in> set rest \<longrightarrow> l \<le> idx st w))"

lemma loop_at_lower [simp]:
  "loop_at adjacency gray node upper rest processed l (scc_lower v k st) =
   loop_at adjacency gray node upper rest processed l st"
  by (simp add: loop_at_def) (simp add: scc_lower_def)

lemma loop_at_ready:
  "loop_at adjacency gray node upper rest (set (adjacency ! node)) (low st node) st \<Longrightarrow>
   ready_to_finish adjacency gray node upper rest st"
  unfolding loop_at_def ready_to_finish_def by auto

definition visit_post :: "nat list list \<Rightarrow> nat set \<Rightarrow> nat \<Rightarrow> scc_state \<Rightarrow> scc_state \<Rightarrow> bool" where
  "visit_post adjacency gray node st st' =
     (scc_inv adjacency gray st' \<and> scc_frame {} st st' \<and> node \<in> visited st'
      \<and> (\<exists>s. scc_stack st' = s @ scc_stack st
          \<and> (\<forall>x \<in> set s. \<forall>w \<in> set (adjacency ! x). w \<in> set (scc_stack st) \<longrightarrow> low st' node \<le> idx st' w)
          \<and> (if s = [] then low st' node = idx st' node
              else \<exists>y \<in> set (scc_stack st). idx st' y = low st' node \<and> reaches adjacency node y)))"

lemma low_lower: "node < length (scc_lowlinks st) \<Longrightarrow> low (scc_lower node l st) node = l"
  by (simp add: scc_lower_def)

lemma loop_at_facts:
  assumes "loop_at adjacency gray node upper rest processed l st"
  shows "node < length adjacency" "node \<in> visited st" "set rest \<subseteq> visited st" "node \<in> set (scc_stack st)"
    "node < length (scc_lowlinks st)"
proof -
  have inv: "scc_inv adjacency (insert node gray) st" and stack: "scc_stack st = upper @ node # rest"
    using assms by (auto simp: loop_at_def)
  then show v: "node \<in> visited st" "set rest \<subseteq> visited st" "node \<in> set (scc_stack st)"
    using scc_inv_visited [OF inv] by auto
  then show "node < length adjacency" "node < length (scc_lowlinks st)"
    using inv by (auto simp: visited_def scc_inv_def shape_ok_def)
qed

lemma reaches_edge: "v < length adjacency \<Longrightarrow> w \<in> set (adjacency ! v) \<Longrightarrow> reaches adjacency v w"
  by (rule r_into_rtrancl) (simp add: graph_edges_def)

text \<open>After a recursive visit of \<open>d\<close>.\<close>

lemma loop_at_visited_child:
  assumes loop: "loop_at adjacency gray node upper rest processed (low st node) st"
    and d: "d \<in> set (adjacency ! node)" "d \<notin> visited st"
    and post: "visit_post adjacency (insert node gray) d st st'"
  shows "\<exists>upper'. loop_at adjacency gray node upper' rest (insert d processed)
      (min (low st' d) (low st' node)) st'"
proof -
  have inv': "scc_inv adjacency (insert node gray) st'" and fr: "scc_frame {} st st'" and vd: "d \<in> visited st'"
    using post by (auto simp: visit_post_def)
  obtain s where s: "scc_stack st' = s @ scc_stack st"
    and lows: "\<forall>x \<in> set s. \<forall>w \<in> set (adjacency ! x). w \<in> set (scc_stack st) \<longrightarrow> low st' d \<le> idx st' w"
    and lowd: "if s = [] then low st' d = idx st' d
        else \<exists>y \<in> set (scc_stack st). idx st' y = low st' d \<and> reaches adjacency d y"
    using post by (auto simp: visit_post_def)
  have stack: "scc_stack st = upper @ node # rest" and gray: "gray \<subseteq> set rest" and pr: "processed \<subseteq> visited st"
    and le: "low st node \<le> idx st node"
    and ex: "\<exists>y \<in> set (scc_stack st). idx st y = low st node \<and> reaches adjacency node y"
    and up: "\<forall>x \<in> set upper. \<forall>w \<in> set (adjacency ! x). w \<in> set rest \<longrightarrow> low st node \<le> idx st w"
    and prl: "\<forall>w \<in> processed. w \<in> set rest \<longrightarrow> low st node \<le> idx st w"
    and inv: "scc_inv adjacency (insert node gray) st"
    using loop by (auto simp: loop_at_def)
  note facts = loop_at_facts [OF loop]
  have same: "idx st' v = idx st v" "low st' v = low st v" if "v \<in> visited st" for v
    using fr that by (auto simp: scc_frame_def)
  have sub: "set (scc_stack st) \<subseteq> visited st" using scc_inv_visited [OF inv] by auto
  have nd: "reaches adjacency node d" using facts(1) d(1) by (rule reaches_edge)
  let ?l = "min (low st' d) (low st' node)"
  have ex': "\<exists>y \<in> set (scc_stack st'). idx st' y = ?l \<and> reaches adjacency node y"
  proof (cases "s = []")
    case True
    have "idx st node < int (scc_next st)" using scc_inv_bound [OF inv facts(2)] by simp
    also have "\<dots> \<le> idx st' d" using fr vd d(2) by (auto simp: scc_frame_def)
    finally have "?l = low st node" using True lowd le same(2) [OF facts(2)] by simp
    with ex s same sub show ?thesis by fastforce
  next
    case False
    then obtain y where y: "y \<in> set (scc_stack st)" "idx st' y = low st' d" "reaches adjacency d y"
      using lowd by auto
    obtain z where z: "z \<in> set (scc_stack st)" "idx st z = low st node" "reaches adjacency node z"
      using ex by blast
    have "idx st' z = low st' node" using z same sub facts(2) by auto
    moreover have "reaches adjacency node y" using nd y(3) by (rule rtrancl_trans)
    ultimately show ?thesis using y(1,2) z(1,3) s by (auto simp: min_def)
  qed
  have "loop_at adjacency gray node (s @ upper) rest (insert d processed) ?l st'"
    unfolding loop_at_def
  proof (intro conjI)
    show "scc_inv adjacency (insert node gray) st'" by (rule inv')
    show "scc_stack st' = (s @ upper) @ node # rest" using s stack by simp
    show "gray \<subseteq> set rest" by (rule gray)
    show "insert d processed \<subseteq> visited st'" using vd pr fr by (auto simp: scc_frame_def)
    show "?l \<le> idx st' node" using le same [OF facts(2)] by simp
    show "\<exists>y \<in> set (scc_stack st'). idx st' y = ?l \<and> reaches adjacency node y" by (rule ex')
    show "\<forall>x \<in> set (s @ upper). \<forall>w \<in> set (adjacency ! x). w \<in> set rest \<longrightarrow> ?l \<le> idx st' w"
      using lows up same facts(2,3) stack by (fastforce simp: min_le_iff_disj)
    show "\<forall>w \<in> insert d processed. w \<in> set rest \<longrightarrow> ?l \<le> idx st' w"
      using prl same facts(2,3) d(2) by (fastforce simp: min_le_iff_disj)
  qed
  then show ?thesis by blast
qed

text \<open>An edge to a node that was visited before.\<close>

lemma loop_at_old_edge:
  assumes loop: "loop_at adjacency gray node upper rest processed (low st node) st"
    and d: "d \<in> set (adjacency ! node)" "d \<in> visited st"
    and l: "l = (if d \<in> set (scc_stack st) \<and> idx st d < low st node then idx st d else low st node)"
  shows "loop_at adjacency gray node upper rest (insert d processed) l st"
proof -
  have "reaches adjacency node d" using loop_at_facts(1) [OF loop] d(1) by (rule reaches_edge)
  moreover have "set rest \<subseteq> set (scc_stack st)" using loop by (auto simp: loop_at_def)
  ultimately show ?thesis
    using loop d(2) unfolding loop_at_def l by (auto 0 3 split: if_splits)
qed

section \<open>The main induction\<close>

lemma visit_finishes:
  assumes ready: "ready_to_finish adjacency gray node upper (scc_stack st0) st"
    and fr: "scc_frame {} st0 st" and new: "node \<in> visited st"
  shows "visit_post adjacency gray node st0 (scc_finish providers node st)"
proof -
  let ?st = "scc_finish providers node st"
  have same: "scc_indices ?st = scc_indices st" "scc_lowlinks ?st = scc_lowlinks st" "scc_next ?st = scc_next st"
    by (simp_all add: scc_finish_def split: prod.splits)
  have fr': "scc_frame {} st0 ?st" using fr by (simp add: scc_frame_def same)
  have stack: "scc_stack st = upper @ node # scc_stack st0"
    and lows: "\<forall>x \<in> set (upper @ [node]). \<forall>w \<in> set (adjacency ! x).
        w \<in> set (scc_stack st0) \<longrightarrow> low st node \<le> idx st w"
    using ready by (auto simp: ready_to_finish_def)
  show ?thesis
  proof (cases "low st node = idx st node")
    case True
    with finish_popped [OF ready True, of providers] fr' new show ?thesis
      by (auto simp: visit_post_def same)
  next
    case False
    note kept = finish_kept [OF ready False]
    have "scc_stack st = (upper @ [node]) @ scc_stack st0" using stack by simp
    with kept lows fr new show ?thesis
      unfolding visit_post_def kept(1) by (metis append_is_Nil_conv not_Cons_self2)
  qed
qed

lemma enter_loop:
  assumes inv: "scc_inv adjacency gray st" and node: "node < length adjacency" "node \<notin> visited st"
    and gray: "\<forall>g \<in> gray. reaches adjacency g node"
  defines "st' \<equiv> scc_enter node st"
  shows "loop_at adjacency gray node [] (scc_stack st) {} (low st' node) st'" "scc_frame {} st st'"
proof -
  have shape: "shape_ok adjacency st" using inv by (simp add: scc_inv_def)
  note vis = visited_enter [OF shape node(1)] and ix = idx_enter [OF shape node(1)]
  have low: "low st' node = int (scc_next st)" "scc_stack st' = node # scc_stack st"
    using shape node(1) by (simp_all add: st'_def scc_enter_def shape_ok_def)
  show "loop_at adjacency gray node [] (scc_stack st) {} (low st' node) st'"
    unfolding loop_at_def using enter_inv [OF inv node gray] scc_inv_gray [OF inv]
    by (auto simp: st'_def ix low [unfolded st'_def])
  have "low st' v = low st v" if "v \<in> visited st" for v
    using that node(2) by (cases "v = node") (auto simp: st'_def scc_enter_def)
  moreover have "scc_next st' = Suc (scc_next st)" by (simp add: st'_def scc_enter_def)
  ultimately show "scc_frame {} st st'"
    using node(2) unfolding scc_frame_def st'_def vis by (auto simp: ix)
qed

lemma visit_correct:
  shows "wf_adjacency adjacency \<Longrightarrow> scc_inv adjacency gray st \<Longrightarrow> node < length adjacency \<Longrightarrow>
      node \<notin> visited st \<Longrightarrow> \<forall>g \<in> gray. reaches adjacency g node \<Longrightarrow>
      visit_post adjacency gray node st (visit providers adjacency node st)"
    and "wf_adjacency adjacency \<Longrightarrow>
      loop_at adjacency gray node upper rest processed (low st node) st \<Longrightarrow> set ds \<subseteq> set (adjacency ! node) \<Longrightarrow>
      (\<exists>upper'. loop_at adjacency gray node upper' rest (processed \<union> set ds)
          (low (visit_dependencies providers adjacency node ds st) node)
          (visit_dependencies providers adjacency node ds st))
      \<and> scc_frame {node} st (visit_dependencies providers adjacency node ds st)"
proof (induction providers adjacency node st and providers adjacency node ds st
    arbitrary: gray and gray upper rest processed rule: visit_visit_dependencies.induct)
  case (1 providers adjacency node st)
  let ?st1 = "scc_enter node st"
  let ?st2 = "visit_dependencies providers adjacency node (adjacency ! node) ?st1"
  note entered = enter_loop [OF "1.prems"(2-5)]
  obtain upper where loop: "loop_at adjacency gray node upper (scc_stack st) ({} \<union> set (adjacency ! node)) (low ?st2 node) ?st2"
    and fr: "scc_frame {node} ?st1 ?st2"
    using "1.IH" [OF "1.prems"(1) entered(1)] by blast
  have "scc_frame {} st ?st2"
    using scc_frame_trans [OF scc_frame_mono [OF entered(2), of "{node}"] fr] "1.prems"(4)
    by (auto simp: scc_frame_def)
  with visit_finishes [OF loop_at_ready] loop loop_at_facts(2) [OF loop] show ?case
    by (simp add: visit.simps)
next
  case (2 providers adjacency node st)
  then show ?case by (auto simp: visit_dependencies.simps)
next
  case (3 providers adjacency node d ds st)
  note loop = "3.prems"(2)
  have d: "d \<in> set (adjacency ! node)" and ds: "set ds \<subseteq> set (adjacency ! node)" using "3.prems"(3) by auto
  have inv: "scc_inv adjacency (insert node gray) st" using loop by (simp add: loop_at_def)
  have len: "length (scc_indices st) = length adjacency" using inv by (simp add: scc_inv_def shape_ok_def)
  have dn: "d < length adjacency"
    using "3.prems"(1) loop_at_facts(1) [OF loop] d by (auto simp: wf_adjacency_def)
  have inside: "\<not> length (scc_indices st) \<le> d" using len dn by simp
  have next_step: "(\<exists>upper'. loop_at adjacency gray node upper' rest (processed \<union> set (d # ds))
          (low (visit_dependencies providers adjacency node ds st2) node)
          (visit_dependencies providers adjacency node ds st2))
      \<and> scc_frame {node} st (visit_dependencies providers adjacency node ds st2)"
    if IH: "\<And>upper. loop_at adjacency gray node upper rest (insert d processed) (low st2 node) st2 \<Longrightarrow>
      (\<exists>upper'. loop_at adjacency gray node upper' rest (insert d processed \<union> set ds)
          (low (visit_dependencies providers adjacency node ds st2) node)
          (visit_dependencies providers adjacency node ds st2))
      \<and> scc_frame {node} st2 (visit_dependencies providers adjacency node ds st2)"
      and at: "loop_at adjacency gray node upper' rest (insert d processed) (low st2 node) st2"
      and fr: "scc_frame {node} st st2" for st2 upper'
    using IH [OF at] scc_frame_trans [OF fr] by (simp add: insert_commute)
  show ?case
  proof (cases "idx st d = -1")
    case True
    define st1 where "st1 = visit providers adjacency d st"
    let ?st2 = "if low st1 d < low st1 node then scc_lower node (low st1 d) st1 else st1"
    have unvis: "d \<notin> visited st" using True by (simp add: visited_def)
    have "\<forall>g \<in> insert node gray. reaches adjacency g d"
    proof
      fix g assume g: "g \<in> insert node gray"
      have sk: "scc_stack st = upper @ node # rest" "gray \<subseteq> set rest" using loop by (auto simp: loop_at_def)
      have "idx st g \<le> idx st node"
        using g sk stack_idx_split(2) [OF _ sk(1)] inv by (auto simp: scc_inv_def less_imp_le subset_eq)
      then have "reaches adjacency g node"
        using g sk by (intro scc_inv_order [OF inv]) auto
      with reaches_edge [OF loop_at_facts(1) [OF loop] d] show "reaches adjacency g d"
        by (meson rtrancl_trans)
    qed
    then have post: "visit_post adjacency (insert node gray) d st st1"
      using "3.IH"(1) [OF _ True "3.prems"(1) inv dn unvis] len dn by (simp add: st1_def)
    then obtain upper' where at: "loop_at adjacency gray node upper' rest (insert d processed) (min (low st1 d) (low st1 node)) st1"
      using loop_at_visited_child [OF loop d unvis] by blast
    have low2: "low ?st2 node = min (low st1 d) (low st1 node)"
      using low_lower [OF loop_at_facts(5) [OF at]] by simp
    have at2: "loop_at adjacency gray node upper' rest (insert d processed) (low ?st2 node) ?st2"
      unfolding low2 using at by (cases "low st1 d < low st1 node") (simp_all add: min_absorb2)
    have "scc_frame {} st st1" using post by (simp add: visit_post_def)
    then have fr: "scc_frame {node} st ?st2"
      using scc_frame_trans [OF scc_frame_mono scc_frame_lower, of "{}" st st1 node] scc_frame_mono by simp
    have eq: "visit_dependencies providers adjacency node (d # ds) st = visit_dependencies providers adjacency node ds ?st2"
      using len dn True by (simp add: visit_dependencies.simps(2) st1_def Let_def)
    show ?thesis
      unfolding eq
    proof (rule next_step [OF _ at2 fr])
      fix upper''
      assume "loop_at adjacency gray node upper'' rest (insert d processed) (low ?st2 node) ?st2"
      then show "(\<exists>upper'. loop_at adjacency gray node upper' rest (insert d processed \<union> set ds)
          (low (visit_dependencies providers adjacency node ds ?st2) node)
          (visit_dependencies providers adjacency node ds ?st2))
        \<and> scc_frame {node} ?st2 (visit_dependencies providers adjacency node ds ?st2)"
        by (rule "3.IH"(2) [OF inside True st1_def "3.prems"(1) _ ds])
    qed
  next
    case False
    let ?l = "if d \<in> set (scc_stack st) \<and> idx st d < low st node then idx st d else low st node"
    let ?st2 = "if scc_on_stack st ! d \<and> idx st d < low st node then scc_lower node (idx st d) st else st"
    have on: "scc_on_stack st ! d = (d \<in> set (scc_stack st))"
      using inv dn by (auto simp: scc_inv_def stack_ok_def shape_ok_def)
    have "d \<in> visited st" using False dn len by (simp add: visited_def)
    then have "loop_at adjacency gray node upper rest (insert d processed) ?l st"
      using loop d by (intro loop_at_old_edge) auto
    moreover have "low ?st2 node = ?l"
      using low_lower [OF loop_at_facts(5) [OF loop]] by (simp add: on)
    ultimately have at2: "loop_at adjacency gray node upper rest (insert d processed) (low ?st2 node) ?st2"
      by (cases "d \<in> set (scc_stack st) \<and> idx st d < low st node") (auto simp: on)
    have fr: "scc_frame {node} st ?st2" using scc_frame_lower by simp
    have eq: "visit_dependencies providers adjacency node (d # ds) st = visit_dependencies providers adjacency node ds ?st2"
      using len dn False by (simp add: visit_dependencies.simps(2))
    show ?thesis
      unfolding eq
    proof (rule next_step [OF _ at2 fr])
      fix upper''
      assume "loop_at adjacency gray node upper'' rest (insert d processed) (low ?st2 node) ?st2"
      then show "(\<exists>upper'. loop_at adjacency gray node upper' rest (insert d processed \<union> set ds)
          (low (visit_dependencies providers adjacency node ds ?st2) node)
          (visit_dependencies providers adjacency node ds ?st2))
        \<and> scc_frame {node} ?st2 (visit_dependencies providers adjacency node ds ?st2)"
        by (rule "3.IH"(3) [OF inside False "3.prems"(1) _ ds])
    qed
  qed
qed

section \<open>The whole run\<close>

lemma start_inv: "scc_inv adjacency {} (scc_start (length adjacency))"
proof -
  have "visited (scc_start (length adjacency)) = {}" by (auto simp: visited_def scc_start_def)
  then show ?thesis by (simp add: scc_inv_parts) (simp add: scc_start_def)
qed

lemma run_inv:
  assumes wf: "wf_adjacency adjacency" and nodes: "set nodes \<subseteq> {..<length adjacency}"
    and inv: "scc_inv adjacency {} st"
  shows "scc_inv adjacency {}
      (fold (\<lambda>node st. if idx st node = -1 then visit providers adjacency node st else st) nodes st)
    \<and> visited st \<union> set nodes \<subseteq> visited
      (fold (\<lambda>node st. if idx st node = -1 then visit providers adjacency node st else st) nodes st)"
  using nodes inv
proof (induction nodes arbitrary: st)
  case (Cons node nodes)
  let ?st = "if idx st node = -1 then visit providers adjacency node st else st"
  have len: "length (scc_indices st) = length adjacency" using Cons.prems(2) by (simp add: scc_inv_def shape_ok_def)
  have "scc_inv adjacency {} ?st \<and> insert node (visited st) \<subseteq> visited ?st"
  proof (cases "idx st node = -1")
    case True
    then have "node \<notin> visited st" by (simp add: visited_def)
    then have "visit_post adjacency {} node st (visit providers adjacency node st)"
      using Cons.prems by (intro visit_correct(1) [OF wf]) auto
    with True show ?thesis by (auto simp: visit_post_def scc_frame_def)
  qed (use Cons.prems len in \<open>auto simp: visited_def\<close>)
  moreover from this have "scc_inv adjacency {}
      (fold (\<lambda>node st. if idx st node = -1 then visit providers adjacency node st else st) nodes ?st)
    \<and> visited ?st \<union> set nodes \<subseteq> visited
      (fold (\<lambda>node st. if idx st node = -1 then visit providers adjacency node st else st) nodes ?st)"
    using Cons.prems by (intro Cons.IH) auto
  ultimately show ?case by auto
qed simp

lemma run_components:
  fixes providers :: "provider list"
  assumes "wf_adjacency adjacency"
  defines "components \<equiv> scc_components (scc_run adjacency providers)"
  shows "distinct (concat components)" "set (concat components) = {..<length adjacency}" "[] \<notin> set components"
    "c \<in> set components \<Longrightarrow> connected_set adjacency (set c)" "closed_components adjacency {} components"
proof -
  let ?st = "scc_run adjacency providers"
  have r: "scc_inv adjacency {} ?st" "{..<length adjacency} \<subseteq> visited ?st"
    using run_inv [OF assms(1) _ start_inv, of "sort_by (symbol_less providers) [0..<length adjacency]" providers]
    by (auto simp: scc_run_def subset_eq)
  have "scc_stack ?st = []"
    using scc_inv_open [OF r(1)] by (cases "scc_stack ?st") auto
  moreover have "visited ?st \<subseteq> {..<length adjacency}" using r(1) by (auto simp: visited_def scc_inv_def shape_ok_def)
  ultimately show "set (concat components) = {..<length adjacency}"
    using r scc_inv_visited [OF r(1)] by (auto simp: components_def members_concat)
  show "distinct (concat components)" "[] \<notin> set components" "closed_components adjacency {} components"
    "c \<in> set components \<Longrightarrow> connected_set adjacency (set c)"
    using r(1) by (auto simp: components_def scc_inv_def components_ok_def)
qed

text \<open>Closedness along a path: from a component only itself and earlier components are reached.\<close>

lemma closed_reaches:
  assumes "closed_components adjacency seen cs" "\<forall>v \<in> seen. set (adjacency ! v) \<subseteq> seen"
    and "reaches adjacency x y" "x \<in> seen"
  shows "y \<in> seen"
  using assms(3,4,2) by (induction rule: rtrancl_induct) (auto simp: graph_edges_def)

lemma closed_mutual:
  assumes "closed_components adjacency seen cs" "\<forall>v \<in> seen. set (adjacency ! v) \<subseteq> seen"
    and "reaches adjacency x y" "reaches adjacency y x" "c \<in> set cs" "x \<in> set c" "x \<notin> seen"
    and "y \<in> seen \<union> members cs" "distinct (concat cs)" "seen \<inter> members cs = {}"
  shows "y \<in> set c"
  using assms
proof (induction cs arbitrary: seen)
  case (Cons c' cs)
  let ?seen = "seen \<union> set c'"
  have closed: "\<forall>v \<in> ?seen. set (adjacency ! v) \<subseteq> ?seen" using Cons.prems(1,2) by auto
  have ys: "y \<notin> seen" using closed_reaches [OF Cons.prems(1,2,4)] Cons.prems(7) by blast
  show ?case
  proof (cases "x \<in> set c'")
    case True
    then have "y \<in> ?seen" using closed_reaches [OF _ closed Cons.prems(3)] Cons.prems(1) by auto
    then have "y \<in> set c'" using ys by simp
    moreover have "c = c'"
      using True Cons.prems(5,6,9) by (auto simp: disjoint_iff)
    ultimately show ?thesis by simp
  next
    case False
    have dj: "?seen \<inter> members cs = {}"
      using Cons.prems(9,10) by (auto simp: members_concat)
    show ?thesis
      by (rule Cons.IH [OF _ closed Cons.prems(3,4) _ Cons.prems(6) _ _ _ dj])
        (use Cons.prems False in auto)
  qed
qed simp

lemma scc_partition:
  assumes "wf_adjacency adjacency"
  shows "distinct (concat (stronglyConnected adjacency providers))
    \<and> set (concat (stronglyConnected adjacency providers)) = {..<length adjacency}
    \<and> [] \<notin> set (stronglyConnected adjacency providers)
    \<and> (\<forall>c \<in> set (stronglyConnected adjacency providers). \<forall>x \<in> set c. \<forall>y < length adjacency.
          y \<in> set c \<longleftrightarrow> reaches adjacency x y \<and> reaches adjacency y x)"
proof -
  define cs where "cs = scc_components (scc_run adjacency providers)"
  note run = run_components [OF assms, where providers = providers, folded cs_def]
  have sc: "mset (stronglyConnected adjacency providers) = mset cs"
    by (simp add: stronglyConnected_def cs_def)
  then have set: "set (stronglyConnected adjacency providers) = set cs" by (metis set_mset_mset)
  have "mset (concat (stronglyConnected adjacency providers)) = mset (concat cs)"
    by (simp add: mset_concat sc flip: sum_mset_sum_list)
  then have d: "distinct (concat (stronglyConnected adjacency providers))"
    using run(1) mset_eq_imp_distinct_iff by blast
  have "y \<in> set c \<longleftrightarrow> reaches adjacency x y \<and> reaches adjacency y x"
    if "c \<in> set cs" "x \<in> set c" "y < length adjacency" for c x y
  proof
    assume "reaches adjacency x y \<and> reaches adjacency y x"
    moreover have "y \<in> {} \<union> members cs" using that(3) run(2) by (simp add: members_concat)
    ultimately show "y \<in> set c"
      using run(1) by (intro closed_mutual [OF run(5) _ _ _ that(1,2)]) auto
  qed (use run(4) [OF that(1)] that in \<open>auto simp: connected_set_def\<close>)
  with d set run(2,3) show ?thesis by simp
qed

text \<open>
  C11. \<open>stronglyConnected\<close> returns the strongly connected components: for adjacency lists in range,
  the returned lists partition the nodes, none is empty, and two nodes are in the same list
  exactly when each reaches the other.
\<close>

theorem stronglyConnected_correct:
  assumes "wf_adjacency adjacency"
  shows "distinct (concat (stronglyConnected adjacency providers))
    \<and> set (concat (stronglyConnected adjacency providers)) = {..<length adjacency}
    \<and> [] \<notin> set (stronglyConnected adjacency providers)
    \<and> (\<forall>c \<in> set (stronglyConnected adjacency providers). \<forall>x \<in> set c. \<forall>y < length adjacency.
          y \<in> set c \<longleftrightarrow> reaches adjacency x y \<and> reaches adjacency y x)"
  using assms by (rule scc_partition)

theorem stronglyConnected_correct_witness:
  "let adjacency = [[1], [2], [1], [0, 3]];
       providers = map (\<lambda>s. sample_bean s s repo_type []) [''d'', ''a'', ''c'', ''b''] in
   distinct (concat (stronglyConnected adjacency providers))
    \<and> set (concat (stronglyConnected adjacency providers)) = {..<length adjacency}
    \<and> [] \<notin> set (stronglyConnected adjacency providers)
    \<and> (\<forall>c \<in> set (stronglyConnected adjacency providers). \<forall>x \<in> set c. \<forall>y < length adjacency.
          y \<in> set c \<longleftrightarrow> reaches adjacency x y \<and> reaches adjacency y x)"
proof -
  have "wf_adjacency [[1], [2], [1], [0, 3]]" by (simp add: wf_adjacency_def less_Suc_eq numeral_eq_Suc)
  from stronglyConnected_correct [OF this] show ?thesis unfolding Let_def .
qed

end
