(* ===== verification/Construction_Order.thy ===== *)
theory Construction_Order
  imports Graph_Scc_Correct
begin

text \<open>
  The ready queue is the heap of \<open>Ready_Queue\<close> ordered by symbol; its facts come from the
  interpretation \<open>symbol_order\<close> (\<open>symbol_order.heap\<close>).

  \<open>constructionOrder\<close> of \<open>compiler/graph/build.go\<close>: providers become ready when all their
  dependencies are constructed, and the ready provider with the least symbol goes first. The
  comparison counter of \<open>constructionOrderWithStats\<close> is test instrumentation and is left out.

  The loop is given \<open>length providers\<close> rounds of fuel. Each round constructs a provider that was
  not constructed before, so the fuel suffices; theorem \<open>constructionOrder_correct\<close> shows that
  an acyclic graph is ordered completely.
\<close>

section \<open>The algorithm\<close>

definition add_consumers :: "nat \<Rightarrow> nat list \<Rightarrow> nat list list \<Rightarrow> nat list list" where
  "add_consumers consumer dependencies consumers =
     fold (\<lambda>d cs. cs[d := cs ! d @ [consumer]]) dependencies consumers"

definition consumer_table :: "nat list list \<Rightarrow> provider list \<Rightarrow> nat list list" where
  "consumer_table adjacency providers =
     map (\<lambda>cs. sortedUnique cs providers)
       (fold (\<lambda>(consumer, dependencies). add_consumers consumer dependencies) (enumerate 0 adjacency)
         (replicate (length providers) []))"

definition release ::
    "provider list \<Rightarrow> nat \<Rightarrow> int list \<times> nat list \<Rightarrow> int list \<times> nat list" where
  "release providers consumer = (\<lambda>(remaining, ready).
     let remaining' = remaining[consumer := remaining ! consumer - 1]
     in (remaining', if remaining' ! consumer = 0
                     then heap_push (symbol_less providers) consumer ready else ready))"

fun order_loop ::
    "nat \<Rightarrow> provider list \<Rightarrow> nat list list \<Rightarrow> int list \<Rightarrow> nat list \<Rightarrow> nat list \<Rightarrow> nat list" where
  "order_loop 0 providers consumers remaining ready order = order"
| "order_loop (Suc fuel) providers consumers remaining ready order =
     (if ready = [] then order
      else let (node, ready1) = heap_pop (symbol_less providers) ready;
               (remaining', ready') = fold (release providers) (consumers ! node) (remaining, ready1)
        in order_loop fuel providers consumers remaining' ready' (order @ [node]))"

definition constructionOrder :: "nat list list \<Rightarrow> provider list \<Rightarrow> nat list" where
  "constructionOrder adjacency providers =
     (let remaining = map (\<lambda>dependencies. int (length dependencies)) adjacency;
          ready = filter (\<lambda>i. remaining ! i = 0) [0..<length adjacency]
      in order_loop (length providers) providers (consumer_table adjacency providers) remaining
           (heap_init (symbol_less providers) ready) [])"

section \<open>Consumers\<close>

lemma add_consumers_length [simp]: "length (add_consumers c ds cs) = length cs"
proof -
  have "length (fold (\<lambda>d cs. cs[d := cs ! d @ [c]]) ds cs) = length cs" for cs
    by (induction ds arbitrary: cs) auto
  then show ?thesis by (simp add: add_consumers_def)
qed

lemma add_consumers_set:
  "d < length cs \<Longrightarrow> set (add_consumers c ds cs ! d) = set (cs ! d) \<union> (if d \<in> set ds then {c} else {})"
  unfolding add_consumers_def
proof (induction ds arbitrary: cs)
  case (Cons e ds)
  then have "set (fold (\<lambda>d cs. cs[d := cs ! d @ [c]]) ds (cs[e := cs ! e @ [c]]) ! d)
      = set (cs[e := cs ! e @ [c]] ! d) \<union> (if d \<in> set ds then {c} else {})"
    by simp
  then show ?case using Cons.prems by (cases "d = e") auto
qed simp

lemma consumer_fold_set:
  "d < length cs \<Longrightarrow>
   set (fold (\<lambda>(c, ds). add_consumers c ds) (enumerate n adjacency) cs ! d) =
     set (cs ! d) \<union> {n + c | c. c < length adjacency \<and> d \<in> set (adjacency ! c)}"
proof (induction adjacency arbitrary: n cs)
  case (Cons ds adjacency)
  have "{n + c | c. c < length (ds # adjacency) \<and> d \<in> set ((ds # adjacency) ! c)} =
      (if d \<in> set ds then {n} else {}) \<union> {Suc n + c | c. c < length adjacency \<and> d \<in> set (adjacency ! c)}"
    (is "?L = ?R")
  proof (rule set_eqI)
    show "x \<in> ?L \<longleftrightarrow> x \<in> ?R" for x by (auto simp: less_Suc_eq_0_disj)
  qed
  with Cons show ?case by (auto simp: add_consumers_set)
qed simp

lemma consumer_fold_length:
  "length (fold (\<lambda>(c, ds). add_consumers c ds) xs cs) = length cs"
  by (induction xs arbitrary: cs) auto

lemma consumer_table_set:
  assumes "d < length providers"
  shows "set (consumer_table adjacency providers ! d) =
    {c. c < length adjacency \<and> d \<in> set (adjacency ! c)}"
  using assms consumer_fold_set [of d "replicate (length providers) []" 0 adjacency]
  by (simp add: consumer_table_def consumer_fold_length)

lemma consumer_table_distinct:
  assumes "distinct_symbols providers" "d < length providers" "length adjacency = length providers"
  shows "distinct (consumer_table adjacency providers ! d)"
proof -
  let ?cs = "fold (\<lambda>(c, ds). add_consumers c ds) (enumerate 0 adjacency) (replicate (length providers) [])"
  have "set (?cs ! d) \<subseteq> {..<length providers}"
    using assms consumer_fold_set [of d "replicate (length providers) []" 0 adjacency] by auto
  then show ?thesis
    using assms distinct_sortedUnique by (simp add: consumer_table_def consumer_fold_length)
qed

section \<open>Releasing the consumers of a node\<close>

lemma release_fold:
  assumes "distinct cs" "set cs \<subseteq> {..<length remaining}" "set cs \<inter> set ready = {}" "distinct ready"
    and "heap_from (symbol_less providers) 0 (length ready) ready"
    and "fold (release providers) cs (remaining, ready) = (remaining', ready')"
  shows "length remaining' = length remaining"
    and "v < length remaining \<Longrightarrow> remaining' ! v = remaining ! v - (if v \<in> set cs then 1 else 0)"
    and "set ready' = set ready \<union> {c \<in> set cs. remaining ! c = 1}"
    and "distinct ready'" "heap_from (symbol_less providers) 0 (length ready') ready'"
proof -
  have "length remaining' = length remaining
    \<and> (\<forall>v < length remaining. remaining' ! v = remaining ! v - (if v \<in> set cs then 1 else 0))
    \<and> set ready' = set ready \<union> {c \<in> set cs. remaining ! c = 1}
    \<and> distinct ready' \<and> heap_from (symbol_less providers) 0 (length ready') ready'"
    using assms
  proof (induction cs arbitrary: remaining ready)
    case (Cons c cs)
    let ?rem = "remaining[c := remaining ! c - 1]"
    let ?ready = "if remaining ! c = 1 then heap_push (symbol_less providers) c ready else ready"
    have c: "c < length remaining" "c \<notin> set ready" "c \<notin> set cs" using Cons.prems by auto
    have ready: "set ?ready = set ready \<union> (if remaining ! c = 1 then {c} else {})" "distinct ?ready"
        "heap_from (symbol_less providers) 0 (length ?ready) ?ready"
      using c Cons.prems(4,5) symbol_order.heap.push_distinct [of c ready providers]
        symbol_order.heap.push_inv [of providers ready c]
      by (auto simp: symbol_order.heap.push_set)
    have "release providers c (remaining, ready) = (?rem, ?ready)"
      using c(1) by (simp add: release_def Let_def)
    then have fold: "fold (release providers) cs (?rem, ?ready) = (remaining', ready')"
      using Cons.prems(6) by simp
    have same: "?rem ! v = remaining ! v" if "v \<in> set cs" for v using that c(3) by (metis nth_list_update_neq)
    have "length remaining' = length ?rem
      \<and> (\<forall>v < length ?rem. remaining' ! v = ?rem ! v - (if v \<in> set cs then 1 else 0))
      \<and> set ready' = set ?ready \<union> {c \<in> set cs. ?rem ! c = 1}
      \<and> distinct ready' \<and> heap_from (symbol_less providers) 0 (length ready') ready'"
      using Cons.prems c ready by (intro Cons.IH [OF _ _ _ ready(2,3) fold]) auto
    moreover have "{x \<in> set cs. ?rem ! x = 1} = {x \<in> set cs. remaining ! x = 1}" using same by auto
    moreover have "?rem ! v - (if v \<in> set cs then 1 else 0) = remaining ! v - (if v \<in> set (c # cs) then 1 else 0)"
      if "v < length remaining" for v
      using that c same by (cases "v = c") auto
    ultimately show ?case using ready(1) by auto
  qed simp
  then show "length remaining' = length remaining"
    "v < length remaining \<Longrightarrow> remaining' ! v = remaining ! v - (if v \<in> set cs then 1 else 0)"
    "set ready' = set ready \<union> {c \<in> set cs. remaining ! c = 1}"
    "distinct ready'" "heap_from (symbol_less providers) 0 (length ready') ready'"
    by auto
qed

section \<open>The loop invariant\<close>

definition dependency_first :: "nat list list \<Rightarrow> nat list \<Rightarrow> bool" where
  "dependency_first adjacency order =
     (\<forall>k < length order. set (adjacency ! (order ! k)) \<subseteq> set (take k order))"

text \<open>The providers that could be constructed next, and that the least of them was chosen.\<close>

definition ready_nodes :: "nat list list \<Rightarrow> nat list \<Rightarrow> nat set" where
  "ready_nodes adjacency order =
     {v. v < length adjacency \<and> v \<notin> set order \<and> set (adjacency ! v) \<subseteq> set order}"

definition least_first :: "nat list list \<Rightarrow> provider list \<Rightarrow> nat list \<Rightarrow> bool" where
  "least_first adjacency providers order =
     (\<forall>k < length order. \<forall>v \<in> ready_nodes adjacency (take k order).
        \<not> symbol_of providers v < symbol_of providers (order ! k))"

definition order_inv ::
    "nat list list \<Rightarrow> provider list \<Rightarrow> int list \<Rightarrow> nat list \<Rightarrow> nat list \<Rightarrow> bool" where
  "order_inv adjacency providers remaining ready order =
     (length remaining = length adjacency
      \<and> (\<forall>v < length adjacency. remaining ! v = int (card (set (adjacency ! v) - set order)))
      \<and> set ready = ready_nodes adjacency order \<and> distinct ready
      \<and> heap_from (symbol_less providers) 0 (length ready) ready
      \<and> distinct order \<and> set order \<subseteq> {..<length adjacency}
      \<and> dependency_first adjacency order \<and> least_first adjacency providers order)"

lemma dependency_first_closed:
  "dependency_first adjacency order \<Longrightarrow> v \<in> set order \<Longrightarrow> set (adjacency ! v) \<subseteq> set order"
  unfolding dependency_first_def by (metis in_set_conv_nth in_set_takeD subset_eq)

lemma all_snoc:
  "(\<forall>k < length (order @ [node]). P ((order @ [node]) ! k) (take k (order @ [node]))) \<longleftrightarrow>
   (\<forall>k < length order. P (order ! k) (take k order)) \<and> P node order"
  by (auto simp: nth_append less_Suc_eq)

lemma order_inv_step:
  assumes graph: "length adjacency = length providers" "distinct_symbols providers" "wf_adjacency adjacency"
    and inv: "order_inv adjacency providers remaining ready order" and ne: "ready \<noteq> []"
    and pop: "heap_pop (symbol_less providers) ready = (node, ready1)"
    and rel: "fold (release providers) (consumer_table adjacency providers ! node) (remaining, ready1) = (remaining', ready')"
  shows "order_inv adjacency providers remaining' ready' (order @ [node])"
proof -
  let ?cs = "consumer_table adjacency providers ! node"
  note [simp] = ready_nodes_def
  have ready: "set ready = ready_nodes adjacency order" "distinct ready"
      "heap_from (symbol_less providers) 0 (length ready) ready"
    and rem: "length remaining = length adjacency"
      "\<And>v. v < length adjacency \<Longrightarrow> remaining ! v = int (card (set (adjacency ! v) - set order))"
    and first: "dependency_first adjacency order"
    using inv by (auto simp: order_inv_def)
  note popped = symbol_order.heap.pop_cases [OF ne pop]
  have set1: "set ready = insert node (set ready1)" "node \<notin> set ready1" "distinct ready1"
    using popped ready(2) by auto
  then have node: "node < length adjacency" "node \<notin> set order" "set (adjacency ! node) \<subseteq> set order"
    using ready(1) by auto
  have cs: "set ?cs = {c. c < length adjacency \<and> node \<in> set (adjacency ! c)}" "distinct ?cs"
    using graph node consumer_table_set [of node providers adjacency]
      consumer_table_distinct [of providers node adjacency] by auto
  have heap1: "heap_from (symbol_less providers) 0 (length ready1) ready1"
    using symbol_order.heap.pop_inv [OF ready(3) ne] pop by simp
  have dj: "set ?cs \<inter> set ready1 = {}" using cs(1) set1(1) ready(1) node(2) by auto
  note res = release_fold [OF cs(2) _ dj set1(3) heap1 rel]
  have inrange: "set ?cs \<subseteq> {..<length remaining}" using cs(1) rem(1) by auto
  have one: "remaining ! c = 1 \<longleftrightarrow> set (adjacency ! c) \<subseteq> insert node (set order)" if c: "c \<in> set ?cs" for c
  proof -
    have "node \<in> set (adjacency ! c) - set order" using c cs(1) node(2) by auto
    then have "card (set (adjacency ! c) - set order) = 1 \<longleftrightarrow> set (adjacency ! c) - set order = {node}"
      by (metis card_1_singletonE is_singletonI is_singleton_altdef singletonD)
    then show ?thesis using rem(2) [of c] c cs(1) node(2) by auto
  qed
  have fresh: "c \<notin> insert node (set order)" if "c \<in> set ?cs" for c
    using that cs(1) node dependency_first_closed [OF first] by auto
  show ?thesis
    unfolding order_inv_def
  proof (intro conjI)
    show "length remaining' = length adjacency" using res(1) [OF inrange] rem(1) by simp
    show "\<forall>v < length adjacency. remaining' ! v = int (card (set (adjacency ! v) - set (order @ [node])))"
    proof (intro allI impI)
      fix v assume v: "v < length adjacency"
      have "set (adjacency ! v) - set (order @ [node]) = (set (adjacency ! v) - set order) - {node}" by auto
      moreover have "node \<in> set (adjacency ! v) \<Longrightarrow> 0 < card (set (adjacency ! v) - set order)"
        using node(2) by (auto simp: card_gt_0_iff)
      ultimately show "remaining' ! v = int (card (set (adjacency ! v) - set (order @ [node])))"
        using res(2) [OF inrange, of v] rem v cs(1) node(2) by (auto simp: card_Diff_singleton_if)
    qed
    show "set ready' = ready_nodes adjacency (order @ [node])"
    proof (rule set_eqI)
      fix v
      have "v \<in> set ready' \<longleftrightarrow> v \<in> set ready1 \<or> v \<in> set ?cs \<and> set (adjacency ! v) \<subseteq> insert node (set order)"
        using res(3) [OF inrange] one by auto
      also have "\<dots> \<longleftrightarrow> v \<in> ready_nodes adjacency (order @ [node])"
        using set1 ready(1) cs(1) fresh [of v] node by auto
      finally show "v \<in> set ready' \<longleftrightarrow> v \<in> ready_nodes adjacency (order @ [node])" .
    qed
    show "distinct ready'" "heap_from (symbol_less providers) 0 (length ready') ready'"
      using res(4,5) [OF inrange] .
    show "distinct (order @ [node])" "set (order @ [node]) \<subseteq> {..<length adjacency}"
      using inv node by (auto simp: order_inv_def)
    show "dependency_first adjacency (order @ [node])"
      using first node(3) unfolding dependency_first_def
      by (simp add: all_snoc [of order node "\<lambda>x p. set (adjacency ! x) \<subseteq> set p", simplified])
    have "\<not> symbol_of providers v < symbol_of providers node" if "v \<in> ready_nodes adjacency order" for v
      using symbol_order.heap.pop_least [OF ready(3) ne, of v] that ready(1) pop
      by (simp add: symbol_less_def)
    then show "least_first adjacency providers (order @ [node])"
      using inv unfolding order_inv_def least_first_def
      by (subst all_snoc [of order node "\<lambda>x p. \<forall>v \<in> ready_nodes adjacency p.
            \<not> symbol_of providers v < symbol_of providers x"]) blast
  qed
qed

lemma order_inv_room:
  assumes "order_inv adjacency providers remaining ready order"
  shows "length order \<le> length adjacency"
    and "length order = length adjacency \<Longrightarrow> ready = []"
proof -
  have d: "distinct order" "set order \<subseteq> {..<length adjacency}" using assms by (auto simp: order_inv_def)
  have c: "card (set order) = length order" using d(1) by (rule distinct_card)
  show "length order \<le> length adjacency"
    using card_mono [OF _ d(2)] c by simp
  assume "length order = length adjacency"
  then have "set order = {..<length adjacency}"
    using d(2) c by (intro card_subset_eq) auto
  then have "set ready = {}" using assms by (auto simp: order_inv_def ready_nodes_def)
  then show "ready = []" by simp
qed

lemma order_loop_inv:
  assumes graph: "length adjacency = length providers" "distinct_symbols providers" "wf_adjacency adjacency"
    and "order_inv adjacency providers remaining ready order" "length adjacency \<le> fuel + length order"
  shows "\<exists>remaining'. order_inv adjacency providers remaining' []
    (order_loop fuel providers (consumer_table adjacency providers) remaining ready order)"
  using assms(4,5)
proof (induction fuel arbitrary: remaining ready order)
  case 0
  then have "ready = []" using order_inv_room [OF 0(1)] by simp
  with 0 show ?case by auto
next
  case (Suc fuel)
  show ?case
  proof (cases "ready = []")
    case False
    obtain node ready1 where pop: "heap_pop (symbol_less providers) ready = (node, ready1)" by fastforce
    obtain remaining' ready' where rel:
      "fold (release providers) (consumer_table adjacency providers ! node) (remaining, ready1) = (remaining', ready')"
      by fastforce
    have "order_inv adjacency providers remaining' ready' (order @ [node])"
      using graph Suc.prems(1) False pop rel by (rule order_inv_step)
    then have "\<exists>remaining''. order_inv adjacency providers remaining'' []
        (order_loop fuel providers (consumer_table adjacency providers) remaining' ready' (order @ [node]))"
      using Suc.prems(2) by (intro Suc.IH) auto
    with False pop rel show ?thesis by simp
  qed (use Suc.prems in auto)
qed

lemma constructionOrder_inv:
  assumes graph: "length adjacency = length providers" "distinct_symbols providers" "wf_adjacency adjacency"
    and "\<forall>ds \<in> set adjacency. distinct ds"
  shows "\<exists>remaining. order_inv adjacency providers remaining [] (constructionOrder adjacency providers)"
proof -
  let ?remaining = "map (\<lambda>ds. int (length ds)) adjacency"
  let ?ready = "heap_init (symbol_less providers) (filter (\<lambda>i. ?remaining ! i = 0) [0..<length adjacency])"
  have "distinct ?ready"
    by (metis (no_types, lifting) symbol_order.heap.init_mset distinct_filter distinct_upt mset_eq_imp_distinct_iff)
  moreover have "set ?ready = ready_nodes adjacency []"
    by (auto simp: symbol_order.heap.init_set ready_nodes_def)
  moreover have "int (length (adjacency ! v)) = int (card (set (adjacency ! v)))" if "v < length adjacency" for v
    using assms(4) that by (simp add: distinct_card)
  ultimately have "order_inv adjacency providers ?remaining ?ready []"
    using symbol_order.heap.init_inv
    by (simp add: order_inv_def dependency_first_def least_first_def)
  from order_loop_inv [OF graph this] graph(1) show ?thesis
    by (simp add: constructionOrder_def Let_def)
qed

section \<open>Acyclic graphs are ordered completely\<close>

lemma acyclic_ready:
  assumes "acyclic (graph_edges adjacency)" "wf_adjacency adjacency"
    and "v < length adjacency" "v \<notin> set order"
  shows "ready_nodes adjacency order \<noteq> {}"
proof -
  have "graph_edges adjacency \<subseteq> {..<length adjacency} \<times> {..<length adjacency}"
    using assms(2) by (auto simp: graph_edges_def wf_adjacency_def)
  then have "finite (graph_edges adjacency)" by (rule finite_subset) simp
  then have "wf ((graph_edges adjacency)\<inverse>)" using assms(1) by (rule finite_acyclic_wf_converse)
  then obtain m where m: "m \<in> {w. w < length adjacency \<and> w \<notin> set order}"
    and least: "\<And>y. (y, m) \<in> (graph_edges adjacency)\<inverse> \<Longrightarrow> y \<notin> {w. w < length adjacency \<and> w \<notin> set order}"
    using wfE_min [of _ v "{w. w < length adjacency \<and> w \<notin> set order}"] assms(3,4) by blast
  have "set (adjacency ! m) \<subseteq> set order"
    using m least assms(2) by (fastforce simp: graph_edges_def wf_adjacency_def)
  with m show ?thesis by (auto simp: ready_nodes_def)
qed

lemma construction_complete:
  assumes "length adjacency = length providers" "distinct_symbols providers" "wf_adjacency adjacency"
    and "\<forall>ds \<in> set adjacency. distinct ds" "acyclic (graph_edges adjacency)"
  shows "distinct (constructionOrder adjacency providers)
    \<and> set (constructionOrder adjacency providers) = {..<length providers}
    \<and> dependency_first adjacency (constructionOrder adjacency providers)
    \<and> least_first adjacency providers (constructionOrder adjacency providers)"
proof -
  obtain remaining where inv: "order_inv adjacency providers remaining [] (constructionOrder adjacency providers)"
    using constructionOrder_inv [OF assms(1-4)] by blast
  then have empty: "ready_nodes adjacency (constructionOrder adjacency providers) = {}"
    by (simp add: order_inv_def)
  then have "{..<length adjacency} \<subseteq> set (constructionOrder adjacency providers)"
    using acyclic_ready [OF assms(5,3)] by blast
  with inv assms(1) show ?thesis by (auto simp: order_inv_def)
qed

text \<open>
  C12. The construction order of an acyclic graph: for duplicate-free adjacency lists in range and
  distinct symbols, every provider is constructed exactly once, after all its dependencies, and
  among the providers that could be constructed next the one with the least symbol is taken,
  which makes the order unique.
\<close>

theorem constructionOrder_correct:
  assumes "length adjacency = length providers" "distinct_symbols providers" "wf_adjacency adjacency"
    and "\<forall>ds \<in> set adjacency. distinct ds" "acyclic (graph_edges adjacency)"
  shows "distinct (constructionOrder adjacency providers)
    \<and> set (constructionOrder adjacency providers) = {..<length providers}
    \<and> dependency_first adjacency (constructionOrder adjacency providers)
    \<and> least_first adjacency providers (constructionOrder adjacency providers)"
  using assms by (rule construction_complete)

theorem constructionOrder_correct_witness:
  "let adjacency = [[1, 2], [2], []];
       providers = map (\<lambda>s. sample_bean s s repo_type []) [''a'', ''b'', ''c''] in
   distinct (constructionOrder adjacency providers)
    \<and> set (constructionOrder adjacency providers) = {..<length providers}
    \<and> dependency_first adjacency (constructionOrder adjacency providers)
    \<and> least_first adjacency providers (constructionOrder adjacency providers)"
proof -
  let ?adj = "[[1, 2], [2], []] :: nat list list"
  let ?ps = "map (\<lambda>s. sample_bean s s repo_type []) [''a'', ''b'', ''c'']"
  have e: "graph_edges ?adj \<subseteq> less_than" by (auto simp: graph_edges_def less_Suc_eq numeral_eq_Suc)
  have "acyclic less_than" by (rule wf_acyclic [OF wf_less_than])
  then have "acyclic (graph_edges ?adj)" using e by (rule acyclic_subset)
  moreover have "wf_adjacency ?adj" by (simp add: wf_adjacency_def less_Suc_eq numeral_eq_Suc)
  moreover have "distinct_symbols ?ps" by code_simp
  moreover have "\<forall>ds \<in> set ?adj. distinct ds" "length ?adj = length ?ps" by simp_all
  ultimately show ?thesis using constructionOrder_correct [of ?adj ?ps] unfolding Let_def by blast
qed

end
