(* ===== verification/Graph_Build.thy ===== *)
theory Graph_Build
  imports Graph_Selection Construction_Order
begin

text \<open>
  \<open>Build\<close> of \<open>compiler/graph/build.go\<close> and what it does after connecting the dependencies:
  cycle diagnostics with a representative cycle, the order of diagnostics and edges, and the
  construction order of a graph without diagnostics.
\<close>

section \<open>Representative cycles\<close>

text \<open>
  The closure \<open>search\<close> of \<open>representativeCycle\<close>: \<open>None\<close> is the result \<open>false\<close>, which leaves
  \<open>path\<close> and \<open>visited\<close> as they were; \<open>Some\<close> is the path at success.
\<close>

function search_cycle ::
    "nat list list \<Rightarrow> nat list \<Rightarrow> nat \<Rightarrow> nat list \<Rightarrow> nat set \<Rightarrow> nat list \<Rightarrow> nat list option" where
  "search_cycle adjacency component start [] seen path = None"
| "search_cycle adjacency component start (d # ds) seen path =
     (if d \<notin> set component then search_cycle adjacency component start ds seen path
      else if d = start then Some (path @ [start])
      else if d \<in> seen then search_cycle adjacency component start ds seen path
      else case search_cycle adjacency component start (adjacency ! d) (insert d seen) (path @ [d]) of
        Some found \<Rightarrow> Some found
      | None \<Rightarrow> search_cycle adjacency component start ds seen path)"
  by pat_completeness auto
termination
proof (relation "inv_image (less_than <*lex*> less_than)
    (\<lambda>(adjacency, component, start, ds, seen, path). (card (set component - seen), length ds))")
  fix adjacency :: "nat list list" and component start and d :: nat and ds seen path
  assume "\<not> d \<notin> set component" "d \<notin> seen"
  then have "card (set component - insert d seen) < card (set component - seen)"
    by (intro psubset_card_mono) auto
  then show "((adjacency, component, start, adjacency ! d, insert d seen, path @ [d]),
      (adjacency, component, start, d # ds, seen, path))
      \<in> inv_image (less_than <*lex*> less_than)
        (\<lambda>(adjacency, component, start, ds, seen, path). (card (set component - seen), length ds))"
    by simp
qed auto

declare search_cycle.simps(2) [simp del]

definition representativeCycle :: "nat list \<Rightarrow> nat list list \<Rightarrow> nat list" where
  "representativeCycle component adjacency =
     (let start = component ! 0 in
      if start \<in> set (adjacency ! start) then [start, start]
      else case search_cycle adjacency component start (adjacency ! start) {start} [start] of
        Some path \<Rightarrow> path
      | None \<Rightarrow> component @ [component ! 0])"

definition cycleDiagnostic :: "nat list \<Rightarrow> nat list list \<Rightarrow> provider list \<Rightarrow> graph_diagnostic" where
  "cycleDiagnostic component adjacency providers =
     (let path = representativeCycle component adjacency;
          pathIDs = map (symbol_of providers) path;
          context = map (\<lambda>v. providerLabel (providers ! v) @ '' at '' @ renderPosition (prov_position (providers ! v)))
            component;
          start = providers ! (component ! 0)
      in \<lparr>diag_position = prov_position start, diag_physical = prov_physical start,
          diag_provider_id = prov_symbol_id start, diag_kind = ''cycle'',
          diag_message = ''provider dependency cycle: '' @ join_with '' -> '' pathIDs
            @ ''; component providers: '' @ join_with '', '' context\<rparr>)"

section \<open>Orders\<close>

definition diagnostic_less :: "graph_diagnostic \<Rightarrow> graph_diagnostic \<Rightarrow> bool" where
  "diagnostic_less left right =
     (if diag_provider_id left \<noteq> diag_provider_id right
      then diag_provider_id left < diag_provider_id right
      else if diag_kind left \<noteq> diag_kind right then diag_kind left < diag_kind right
      else if diag_message left \<noteq> diag_message right then diag_message left < diag_message right
      else if pos_filename (diag_physical left) \<noteq> pos_filename (diag_physical right)
      then pos_filename (diag_physical left) < pos_filename (diag_physical right)
      else pos_offset (diag_physical left) < pos_offset (diag_physical right))"

definition sortDiagnostics :: "graph_diagnostic list \<Rightarrow> graph_diagnostic list" where
  "sortDiagnostics diagnostics = sort_by diagnostic_less diagnostics"

definition diagnostic_key :: "graph_diagnostic \<Rightarrow> string \<times> string \<times> string \<times> string \<times> int" where
  "diagnostic_key d = (diag_provider_id d, diag_kind d, diag_message d,
     pos_filename (diag_physical d), pos_offset (diag_physical d))"

interpretation diagnostic_order: keyed_comparator diagnostic_less diagnostic_key
  by unfold_locales (auto simp: diagnostic_less_def diagnostic_key_def less_prod_def)

definition edge_less :: "edge \<Rightarrow> edge \<Rightarrow> bool" where
  "edge_less left right =
     (if edge_consumer_id left \<noteq> edge_consumer_id right
      then edge_consumer_id left < edge_consumer_id right
      else if edge_parameter_index left \<noteq> edge_parameter_index right
      then edge_parameter_index left < edge_parameter_index right
      else if edge_collection_index left \<noteq> edge_collection_index right
      then edge_collection_index left < edge_collection_index right
      else edge_dependency_id left < edge_dependency_id right)"

definition edge_key :: "edge \<Rightarrow> string \<times> int \<times> int \<times> string" where
  "edge_key e = (edge_consumer_id e, edge_parameter_index e, edge_collection_index e, edge_dependency_id e)"

interpretation edge_order: keyed_comparator edge_less edge_key
  by unfold_locales (auto simp: edge_less_def edge_key_def less_prod_def)

section \<open>Build\<close>

definition cyclic_component :: "nat list list \<Rightarrow> nat list \<Rightarrow> bool" where
  "cyclic_component adjacency component =
     (1 < length component \<or> component ! 0 \<in> set (adjacency ! (component ! 0)))"

text \<open>\<open>Build\<close> reads the catalog's providers and whether the catalog has diagnostics.\<close>

definition Build :: "unicode_tables \<Rightarrow> string list \<Rightarrow> provider list \<Rightarrow> graph_result" where
  "Build u catalogDiagnostics providers =
     (if catalogDiagnostics \<noteq> []
      then \<lparr>res_providers = [], res_edges = [], res_order = [], res_diagnostics = []\<rparr>
      else let (result, connected) = connectDependencies u (buildTypeIndex providers) (start_state providers);
               adjacency = map (\<lambda>targets. sortedUnique targets providers) connected;
               cycles = map (\<lambda>c. cycleDiagnostic c adjacency providers)
                 (filter (cyclic_component adjacency) (stronglyConnected adjacency providers));
               diagnostics = sortDiagnostics (res_diagnostics result @ cycles)
        in result\<lparr>res_edges := sort_by edge_less (res_edges result),
             res_diagnostics := diagnostics,
             res_order := (if diagnostics = [] then constructionOrder adjacency providers else [])\<rparr>)"

section \<open>Reported cycles are cycles\<close>

fun walk :: "nat list list \<Rightarrow> nat \<Rightarrow> nat list \<Rightarrow> bool" where
  "walk adjacency v [] = True"
| "walk adjacency v (w # ws) = (w \<in> set (adjacency ! v) \<and> walk adjacency w ws)"

lemma walk_append: "walk adjacency v (xs @ w # ys) \<Longrightarrow> walk adjacency w ys"
  by (induction xs arbitrary: v) auto

lemma search_cycle_sound:
  "search_cycle adjacency component start ds seen path = Some found \<Longrightarrow> set ds \<subseteq> set (adjacency ! v) \<Longrightarrow>
   \<exists>q. found = path @ q @ [start] \<and> walk adjacency v (q @ [start]) \<and> set q \<subseteq> set component"
proof (induction adjacency component start ds seen path arbitrary: v rule: search_cycle.induct)
  case (2 adjacency component start d ds seen path)
  show ?case
  proof (cases "d \<in> set component \<and> d \<noteq> start \<and> d \<notin> seen
      \<and> search_cycle adjacency component start (adjacency ! d) (insert d seen) (path @ [d]) \<noteq> None")
    case True
    then have "search_cycle adjacency component start (adjacency ! d) (insert d seen) (path @ [d]) = Some found"
      using "2.prems"(1) by (auto simp: search_cycle.simps(2))
    then obtain q where "found = (path @ [d]) @ q @ [start]" "walk adjacency d (q @ [start])" "set q \<subseteq> set component"
      using "2.IH"(3) [of d] True by blast
    with True "2.prems"(2) show ?thesis by (intro exI [of _ "d # q"]) auto
  next
    case no: False
    show ?thesis
    proof (cases "d \<in> set component \<and> d = start")
      case True
      with "2.prems" show ?thesis by (intro exI [of _ "[]"]) (auto simp: search_cycle.simps(2))
    next
      case False
      with no "2.prems"(1) have "search_cycle adjacency component start ds seen path = Some found"
        by (auto simp: search_cycle.simps(2) split: if_splits)
      with "2.IH"(1,2,4) False no "2.prems"(2) show ?thesis by (cases "d \<in> set component"; cases "d \<in> seen") auto
    qed
  qed
qed simp

lemma search_cycle_finds:
  assumes "d \<in> set ds" "d \<in> set component"
    and "d = start \<or> d \<notin> seen \<and> search_cycle adjacency component start (adjacency ! d) (insert d seen) (path @ [d]) \<noteq> None"
  shows "search_cycle adjacency component start ds seen path \<noteq> None"
  using assms(1)
proof (induction ds)
  case (Cons e ds)
  then show ?case
    using assms(2,3) by (cases "e = d") (auto simp: search_cycle.simps(2) split: option.splits)
qed simp

lemma search_cycle_complete:
  assumes "walk adjacency v (ws @ [start])" "distinct ws" "set ws \<subseteq> set component - seen"
    and "start \<notin> set ws" "start \<in> set component"
  shows "search_cycle adjacency component start (adjacency ! v) seen path \<noteq> None"
  using assms
proof (induction ws arbitrary: v seen path)
  case Nil
  then show ?case by (intro search_cycle_finds [of start]) auto
next
  case (Cons w ws)
  have "search_cycle adjacency component start (adjacency ! w) (insert w seen) (path @ [w]) \<noteq> None"
    using Cons.prems by (intro Cons.IH) auto
  with Cons.prems show ?case by (intro search_cycle_finds [of w]) auto
qed

lemma simple_walk:
  assumes "reaches adjacency v start" "v \<noteq> start"
  shows "\<exists>ws. walk adjacency v (ws @ [start]) \<and> distinct (v # ws) \<and> start \<notin> set (v # ws)"
  using assms
proof (induction rule: converse_rtrancl_induct)
  case (step v w)
  have edge: "w \<in> set (adjacency ! v)" using step.hyps(1) by (simp add: graph_edges_def)
  show ?case
  proof (cases "w = start")
    case True
    with edge step.prems show ?thesis by (intro exI [of _ "[]"]) auto
  next
    case False
    then obtain ws where ws: "walk adjacency w (ws @ [start])" "distinct (w # ws)" "start \<notin> set (w # ws)"
      using step.IH by blast
    show ?thesis
    proof (cases "v \<in> set (w # ws)")
      case True
      then obtain xs ys where split: "w # ws = xs @ v # ys" by (meson split_list)
      have "walk adjacency v (w # ws @ [start])" using edge ws(1) by simp
      then have "walk adjacency v (xs @ v # ys @ [start])" using split by (metis append_Cons append_assoc)
      then have "walk adjacency v (ys @ [start])" by (rule walk_append)
      moreover have "distinct (v # ys)" "start \<notin> set (v # ys)" using ws(2,3) unfolding split by auto
      ultimately show ?thesis by blast
    next
      case False
      with edge ws step.prems show ?thesis by (intro exI [of _ "w # ws"]) auto
    qed
  qed
qed simp

lemma walk_reaches:
  "walk adjacency v ws \<Longrightarrow> wf_adjacency adjacency \<Longrightarrow> v < length adjacency \<Longrightarrow> w \<in> set ws \<Longrightarrow>
   reaches adjacency v w \<and> w < length adjacency"
proof (induction ws arbitrary: v)
  case (Cons x ws)
  then have x: "reaches adjacency v x" "x < length adjacency"
    by (auto intro: reaches_edge simp: wf_adjacency_def)
  show ?case
  proof (cases "w = x")
    case False
    with Cons x have "reaches adjacency x w \<and> w < length adjacency" by auto
    with x(1) show ?thesis by (meson rtrancl_trans)
  qed (use x in simp)
qed simp

lemma walk_prefix_reaches_end:
  "walk adjacency v (ws @ [e]) \<Longrightarrow> wf_adjacency adjacency \<Longrightarrow> v < length adjacency \<Longrightarrow> w \<in> set ws \<Longrightarrow>
   reaches adjacency w e"
proof (induction ws arbitrary: v)
  case (Cons x ws)
  then have x: "x < length adjacency" by (auto simp: wf_adjacency_def)
  with Cons walk_reaches [of adjacency x "ws @ [e]" e] show ?case by auto
qed simp

lemma representative_walk:
  assumes "wf_adjacency adjacency" "c \<in> set (stronglyConnected adjacency providers)" "cyclic_component adjacency c"
  shows "\<exists>q. representativeCycle c adjacency = (c ! 0) # q @ [c ! 0] \<and> walk adjacency (c ! 0) (q @ [c ! 0])
    \<and> set q \<subseteq> set c"
proof (cases "c ! 0 \<in> set (adjacency ! (c ! 0))")
  case True
  then show ?thesis by (intro exI [of _ "[]"]) (simp add: representativeCycle_def Let_def)
next
  case False
  let ?s = "c ! 0"
  note scc = scc_partition [OF assms(1), of providers]
  have len: "1 < length c" using assms(3) False by (simp add: cyclic_component_def)
  have s: "?s \<in> set c" using len by (intro nth_mem) auto
  have s1: "c ! 1 \<in> set c" using len by (intro nth_mem) auto
  have n: "set c \<subseteq> {..<length adjacency}" using scc assms(2) by auto
  have "distinct c" using scc assms(2) by (auto simp: distinct_concat_iff)
  then have "?s \<noteq> c ! 1" using len nth_eq_iff_index_eq [of c 0 1] by (cases c) auto
  have same: "y \<in> set c \<longleftrightarrow> reaches adjacency ?s y \<and> reaches adjacency y ?s" if "y < length adjacency" for y
    using scc assms(2) s that by blast
  have "reaches adjacency ?s (c ! 1)" "reaches adjacency (c ! 1) ?s" using same s1 n by auto
  then obtain v where v: "(?s, v) \<in> graph_edges adjacency" "reaches adjacency v ?s"
    using \<open>?s \<noteq> c ! 1\<close> by (metis converse_rtranclE rtrancl_trans)
  then have vs: "v \<noteq> ?s" "v \<in> set (adjacency ! ?s)" using False by (auto simp: graph_edges_def)
  obtain ws where ws: "walk adjacency v (ws @ [?s])" "distinct (v # ws)" "?s \<notin> set (v # ws)"
    using simple_walk [OF v(2) vs(1)] by blast
  have wk: "walk adjacency ?s ((v # ws) @ [?s])" using ws(1) vs(2) by simp
  have "set (v # ws) \<subseteq> set c"
  proof
    fix w assume w: "w \<in> set (v # ws)"
    then have "reaches adjacency ?s w" "w < length adjacency"
      using walk_reaches [OF wk assms(1), of w] n s by auto
    moreover have "reaches adjacency w ?s"
      using walk_prefix_reaches_end [OF wk assms(1) _ w] n s by auto
    ultimately show "w \<in> set c" using same by blast
  qed
  then have "search_cycle adjacency c ?s (adjacency ! ?s) {?s} [?s] \<noteq> None"
    using ws s by (intro search_cycle_complete [OF wk]) auto
  then obtain found where f: "search_cycle adjacency c ?s (adjacency ! ?s) {?s} [?s] = Some found" by blast
  from search_cycle_sound [OF f, of ?s] f False show ?thesis
    by (auto simp: representativeCycle_def Let_def)
qed

text \<open>
  The cycle a diagnostic shows is a cycle: for a component of \<open>stronglyConnected\<close> that
  \<open>Build\<close> reports, \<open>representativeCycle\<close> starts and ends at the first provider of the
  component, each step is a dependency of the graph and every node on it belongs to the component.
\<close>

theorem representativeCycle_correct:
  assumes "wf_adjacency adjacency" "c \<in> set (stronglyConnected adjacency providers)" "cyclic_component adjacency c"
  shows "\<exists>q. representativeCycle c adjacency = (c ! 0) # q @ [c ! 0] \<and> walk adjacency (c ! 0) (q @ [c ! 0])
    \<and> set q \<subseteq> set c"
  using assms by (rule representative_walk)

theorem representativeCycle_correct_witness:
  "let adjacency = [[1], [2], [1, 3], []];
       providers = map (\<lambda>s. sample_bean s s repo_type []) [''d'', ''a'', ''c'', ''b''] in
   \<exists>q. representativeCycle [1, 2] adjacency = ([1, 2] ! 0) # q @ [[1, 2] ! 0]
     \<and> walk adjacency ([1, 2] ! 0) (q @ [[1, 2] ! 0]) \<and> set q \<subseteq> set [1, 2]"
proof -
  let ?adj = "[[1], [2], [1, 3], []] :: nat list list"
  let ?ps = "map (\<lambda>s. sample_bean s s repo_type []) [''d'', ''a'', ''c'', ''b'']"
  have "wf_adjacency ?adj" by (simp add: wf_adjacency_def less_Suc_eq numeral_eq_Suc)
  moreover have "[1, 2] \<in> set (stronglyConnected ?adj ?ps)" by code_simp
  moreover have "cyclic_component ?adj [1, 2]" by (simp add: cyclic_component_def)
  ultimately show ?thesis unfolding Let_def by (rule representativeCycle_correct)
qed

section \<open>The result of Build\<close>

definition build_adjacency :: "unicode_tables \<Rightarrow> provider list \<Rightarrow> nat list list" where
  "build_adjacency u providers =
     map (\<lambda>i. sortedUnique (dependency_targets u providers i) providers) [0..<length providers]"

lemma Build_fields:
  fixes u providers
  defines "adjacency \<equiv> build_adjacency u providers"
  defines "diagnostics \<equiv> sortDiagnostics (concat (map (dependency_diagnostics u providers) [0..<length providers])
      @ map (\<lambda>c. cycleDiagnostic c adjacency providers)
          (filter (cyclic_component adjacency) (stronglyConnected adjacency providers)))"
  shows "res_providers (Build u [] providers) = providers"
    and "res_edges (Build u [] providers) =
      sort_by edge_less (concat (map (dependency_edges u providers) [0..<length providers]))"
    and "res_diagnostics (Build u [] providers) = diagnostics"
    and "res_order (Build u [] providers) =
      (if diagnostics = [] then constructionOrder adjacency providers else [])"
  by (simp_all add: Build_def connectDependencies_result diagnostics_def adjacency_def
      build_adjacency_def comp_def Let_def)

lemma build_adjacency_facts:
  "length (build_adjacency u providers) = length providers"
  "wf_adjacency (build_adjacency u providers)"
  "i < length providers \<Longrightarrow> set (build_adjacency u providers ! i) = set (dependency_targets u providers i)"
  "distinct_symbols providers \<Longrightarrow> \<forall>ds \<in> set (build_adjacency u providers). distinct ds"
  using dependency_targets_range
  by (auto simp: build_adjacency_def wf_adjacency_def intro!: distinct_sortedUnique)

text \<open>The edges of the result are the edges of the graph that is checked and ordered.\<close>

definition edge_relation :: "edge list \<Rightarrow> (nat \<times> nat) set" where
  "edge_relation es = (\<lambda>e. (edge_consumer e, edge_dependency e)) ` set es"

lemma resolution_edge_pairs:
  "(\<lambda>e. (edge_consumer e, edge_dependency e)) ` set (resolution_edges providers i input r) =
     {i} \<times> set (resolution_targets r)"
proof (cases r)
  case (Injected kind targets)
  have "(\<lambda>e. (edge_consumer e, edge_dependency e)) ` set (resolution_edges providers i input r) =
      (\<lambda>kd. (i, snd kd)) ` set (enumerate 0 targets)"
    by (simp add: Injected make_edge_def image_image)
  also have "\<dots> = {i} \<times> snd ` set (enumerate 0 targets)" by auto
  also have "snd ` set (enumerate 0 targets) = set targets"
    by (metis list.set_map map_snd_enumerate)
  finally show ?thesis by (simp add: Injected)
qed simp

lemma Build_edge_relation:
  "edge_relation (res_edges (Build u [] providers)) = graph_edges (build_adjacency u providers)"
proof -
  have "(\<lambda>e. (edge_consumer e, edge_dependency e)) ` set (dependency_edges u providers i) =
      {i} \<times> set (dependency_targets u providers i)" for i
    unfolding dependency_edges_def dependency_targets_def
    by (auto simp: image_UN resolution_edge_pairs)
  then show ?thesis
    by (auto simp: edge_relation_def Build_fields image_UN graph_edges_def build_adjacency_facts)
qed

lemma cyclic_iff:
  assumes "wf_adjacency adjacency"
  shows "(\<exists>c \<in> set (stronglyConnected adjacency providers). cyclic_component adjacency c)
    \<longleftrightarrow> \<not> acyclic (graph_edges adjacency)"
proof
  assume "\<exists>c \<in> set (stronglyConnected adjacency providers). cyclic_component adjacency c"
  then obtain c q where c: "c \<in> set (stronglyConnected adjacency providers)"
    and w: "walk adjacency (c ! 0) (q @ [c ! 0])"
    using representative_walk [OF assms] by blast
  have "c \<noteq> []" "set c \<subseteq> {..<length adjacency}"
    using scc_partition [OF assms, of providers] c by auto
  then have n: "c ! 0 < length adjacency" by (cases c) auto
  obtain v where "(c ! 0, v) \<in> graph_edges adjacency" "reaches adjacency v (c ! 0)"
  proof (cases q)
    case Nil
    with w n that [of "c ! 0"] show ?thesis by (simp add: graph_edges_def)
  next
    case (Cons x xs)
    with w n that [of x] walk_prefix_reaches_end [OF w assms n, of x] show ?thesis
      by (simp add: graph_edges_def)
  qed
  then show "\<not> acyclic (graph_edges adjacency)"
    by (meson acyclic_def rtrancl_into_trancl2)
next
  assume "\<not> acyclic (graph_edges adjacency)"
  then obtain x y where xy: "(x, y) \<in> graph_edges adjacency" "reaches adjacency y x"
    by (auto simp: acyclic_def dest: tranclD)
  then have n: "x < length adjacency" "y < length adjacency"
    using assms by (auto simp: graph_edges_def wf_adjacency_def)
  note scc = scc_partition [OF assms, of providers]
  have "x \<in> set (concat (stronglyConnected adjacency providers))" using scc n(1) by blast
  then obtain c where c: "c \<in> set (stronglyConnected adjacency providers)" "x \<in> set c" by auto
  then have y: "y \<in> set c" using scc xy n(2) by (meson r_into_rtrancl)
  have "cyclic_component adjacency c"
  proof (cases "1 < length c")
    case False
    then have "c = [x]" using c(2) by (cases c) auto
    with y xy(1) show ?thesis by (auto simp: cyclic_component_def graph_edges_def)
  qed (simp add: cyclic_component_def)
  with c(1) show "\<exists>c \<in> set (stronglyConnected adjacency providers). cyclic_component adjacency c" by blast
qed

lemma resolution_kinds:
  "d \<in> set (resolution_diagnostics (resolve_dependency u providers i input)) \<Longrightarrow> diag_kind d \<noteq> ''cycle''"
  by (auto simp: resolve_dependency_def resolve_collection_def resolve_single_def Let_def
      collectionNameDiagnostic_def scopeDiagnostic_def missingDiagnostic_def ambiguousDiagnostic_def
      dependency_diagnostic_def split: if_splits option.splits prod.splits)

text \<open>
  C6. Cycles are reported exactly: \<open>Build\<close> of a valid catalog emits a \<open>cycle\<close> diagnostic if and
  only if the edges it returns contain a dependency cycle.
\<close>

theorem Build_cycle_iff:
  "(\<exists>d \<in> set (res_diagnostics (Build u [] providers)). diag_kind d = ''cycle'')
    \<longleftrightarrow> \<not> acyclic (edge_relation (res_edges (Build u [] providers)))"
proof -
  let ?adj = "build_adjacency u providers"
  have "diag_kind (cycleDiagnostic c ?adj providers) = ''cycle''" for c
    by (simp add: cycleDiagnostic_def Let_def)
  moreover have "diag_kind d \<noteq> ''cycle''" if "d \<in> set (dependency_diagnostics u providers i)" for d i
    using that resolution_kinds by (auto simp: dependency_diagnostics_def)
  ultimately have "(\<exists>d \<in> set (res_diagnostics (Build u [] providers)). diag_kind d = ''cycle'')
      \<longleftrightarrow> (\<exists>c \<in> set (stronglyConnected ?adj providers). cyclic_component ?adj c)"
    unfolding Build_fields sortDiagnostics_def set_sort_by by auto
  then show ?thesis
    using cyclic_iff [OF build_adjacency_facts(2)] by (simp add: Build_edge_relation)
qed

lemma Build_clean:
  assumes "res_diagnostics (Build u [] providers) = []"
  shows "i < length providers \<Longrightarrow> dependency_diagnostics u providers i = []"
    and "acyclic (graph_edges (build_adjacency u providers))"
    and "res_order (Build u [] providers) = constructionOrder (build_adjacency u providers) providers"
proof -
  have d: "concat (map (dependency_diagnostics u providers) [0..<length providers]) = []"
      "filter (cyclic_component (build_adjacency u providers)) (stronglyConnected (build_adjacency u providers) providers) = []"
    using assms by (simp_all add: Build_fields sortDiagnostics_def)
  then show "i < length providers \<Longrightarrow> dependency_diagnostics u providers i = []" by simp
  show "acyclic (graph_edges (build_adjacency u providers))"
    using cyclic_iff [OF build_adjacency_facts(2), of u providers providers] d(2)
    by (auto simp: filter_empty_conv)
  show "res_order (Build u [] providers) = constructionOrder (build_adjacency u providers) providers"
    using assms by (simp add: Build_fields)
qed

definition dependencies_built_first :: "edge list \<Rightarrow> nat list \<Rightarrow> bool" where
  "dependencies_built_first es order =
     (\<forall>e \<in> set es. \<forall>k < length order. order ! k = edge_consumer e \<longrightarrow> edge_dependency e \<in> set (take k order))"

text \<open>
  C4. A graph built without diagnostics has a complete dependency-first construction order: every
  provider of the catalog occurs exactly once, and for every edge the dependency is constructed
  before its consumer.
\<close>

theorem Build_order_complete:
  assumes "distinct_symbols providers" "res_diagnostics (Build u [] providers) = []"
  shows "distinct (res_order (Build u [] providers))
    \<and> set (res_order (Build u [] providers)) = {..<length providers}
    \<and> dependencies_built_first (res_edges (Build u [] providers)) (res_order (Build u [] providers))"
proof -
  let ?adj = "build_adjacency u providers" and ?order = "res_order (Build u [] providers)"
  note clean = Build_clean [OF assms(2)]
  have complete: "distinct ?order" "set ?order = {..<length providers}" "dependency_first ?adj ?order"
    using construction_complete [OF build_adjacency_facts(1) assms(1) build_adjacency_facts(2)
        build_adjacency_facts(4) [OF assms(1)] clean(2)] clean(3) by auto
  have "edge_dependency e \<in> set (take k ?order)"
    if e: "e \<in> set (res_edges (Build u [] providers))" and k: "k < length ?order" "?order ! k = edge_consumer e" for e k
  proof -
    have "(edge_consumer e, edge_dependency e) \<in> graph_edges ?adj"
      using e by (auto simp: edge_relation_def simp flip: Build_edge_relation)
    then have "edge_dependency e \<in> set (?adj ! edge_consumer e)" by (simp add: graph_edges_def)
    moreover have "set (?adj ! edge_consumer e) \<subseteq> set (take k ?order)"
      using complete(3) k unfolding dependency_first_def by metis
    ultimately show ?thesis by blast
  qed
  with complete(1,2) show ?thesis unfolding dependencies_built_first_def by blast
qed

text \<open>
  C5. A graph built without diagnostics resolves every constructor parameter: each parameter
  of each provider resolves to an injection, the result has exactly the edges of that injection
  in order, and a parameter that is neither optional nor a collection has exactly one edge.
\<close>

theorem Build_resolves_all:
  assumes "res_diagnostics (Build u [] providers) = []" "i < length providers"
    and "input \<in> set (prov_dependencies (providers ! i))"
  shows "\<exists>kind targets. resolve_dependency u providers i input = Injected kind targets
    \<and> set (map (make_edge providers i input kind) (enumerate 0 targets)) \<subseteq> set (res_edges (Build u [] providers))
    \<and> (dep_kind input \<notin> {DependencyOptional, DependencySlice, DependencyMap} \<longrightarrow> length targets = 1)"
proof -
  have "dependency_diagnostics u providers i = []" using Build_clean(1) [OF assms(1,2)] .
  then have "resolution_diagnostics (resolve_dependency u providers i input) = []"
    using assms(3) by (auto simp: dependency_diagnostics_def)
  then obtain kind targets where r: "resolve_dependency u providers i input = Injected kind targets"
    by (cases "resolve_dependency u providers i input") auto
  have "set (resolution_edges providers i input (resolve_dependency u providers i input))
      \<subseteq> set (res_edges (Build u [] providers))"
    using assms(2,3) by (auto simp: Build_fields dependency_edges_def)
  moreover have "length targets = 1" if "dep_kind input \<notin> {DependencyOptional, DependencySlice, DependencyMap}"
    using r that
    by (auto simp: resolve_dependency_def dependencyCandidates_def resolve_single_def Let_def split: if_splits)
  ultimately show ?thesis using r by auto
qed

theorem Build_order_complete_witness:
  "distinct (res_order (Build latin_only [] sample_catalog))
    \<and> set (res_order (Build latin_only [] sample_catalog)) = {..<length sample_catalog}
    \<and> dependencies_built_first (res_edges (Build latin_only [] sample_catalog))
        (res_order (Build latin_only [] sample_catalog))"
proof (rule Build_order_complete)
  show "distinct_symbols sample_catalog" by code_simp
  show "res_diagnostics (Build latin_only [] sample_catalog) = []" by code_simp
qed

theorem Build_resolves_all_witness:
  "\<exists>kind targets. resolve_dependency latin_only sample_catalog 1 (sample_input 0 repo_type) = Injected kind targets
    \<and> set (map (make_edge sample_catalog 1 (sample_input 0 repo_type) kind) (enumerate 0 targets))
        \<subseteq> set (res_edges (Build latin_only [] sample_catalog))
    \<and> (dep_kind (sample_input 0 repo_type) \<notin> {DependencyOptional, DependencySlice, DependencyMap} \<longrightarrow>
        length targets = 1)"
proof (rule Build_resolves_all)
  show "res_diagnostics (Build latin_only [] sample_catalog) = []" by code_simp
  show "1 < length sample_catalog"
    "sample_input 0 repo_type \<in> set (prov_dependencies (sample_catalog ! 1))"
    by (simp_all add: sample_catalog_def sample_bean_def)
qed

text \<open>
  Selection of single providers. Every edge of the result that is not part of a collection
  belongs to a parameter of its consumer, and the provider it injects is a candidate that
  supplies the required type and carries every requested qualifier; it is a singleton unless the
  parameter asks for a \<open>Provider\<close>; it is a fallback only if all candidates are; and if it is not
  primary, the only primary candidates are fallbacks that it precedes.
\<close>

theorem edge_selection:
  assumes "e \<in> set (res_edges (Build u [] ps))" "edge_kind e \<notin> {DependencySlice, DependencyMap}"
  shows "\<exists>input \<in> set (prov_dependencies (ps ! edge_consumer e)). \<exists>cs.
      dependencyCandidates (buildTypeIndex ps) input ps = (edge_kind e, cs)
    \<and> edge_parameter_index e = dep_index input
    \<and> edge_dependency e \<in> set cs \<and> edge_dependency e < length ps
    \<and> (provides (dep_type input) (ps ! edge_dependency e) \<or> provides (MatchType input) (ps ! edge_dependency e))
    \<and> list_all (qualifier_matches (ps ! edge_dependency e)) (dep_qualifiers input)
    \<and> (prov_scope (ps ! edge_dependency e) = BeanScopeSingleton \<or> dep_kind input = DependencyProvider)
    \<and> (prov_fallback (ps ! edge_dependency e) \<longrightarrow> (\<forall>c \<in> set cs. prov_fallback (ps ! c)))
    \<and> (\<forall>c \<in> set cs. prov_primary (ps ! c) \<longrightarrow> \<not> prov_primary (ps ! edge_dependency e)
          \<longrightarrow> prov_fallback (ps ! c) \<and> \<not> prov_fallback (ps ! edge_dependency e))"
proof -
  obtain i input where "i < length ps" and input: "input \<in> set (prov_dependencies (ps ! i))"
    and e: "e \<in> set (resolution_edges ps i input (resolve_dependency u ps i input))"
    using assms(1) by (auto simp: Build_fields dependency_edges_def)
  then obtain kind targets kd where r: "resolve_dependency u ps i input = Injected kind targets"
    and kd: "kd \<in> set (enumerate 0 targets)" "e = make_edge ps i input kind kd"
    by (cases "resolve_dependency u ps i input") auto
  have fields: "edge_kind e = kind" "edge_consumer e = i" "edge_dependency e = snd kd"
      "edge_parameter_index e = dep_index input"
    by (simp_all add: kd(2) make_edge_def)
  have kinds: "kind \<noteq> DependencySlice" "kind \<noteq> DependencyMap" using assms(2) fields(1) by auto
  have mem: "snd kd \<in> set targets" using imageI [OF kd(1), of snd] by (metis list.set_map map_snd_enumerate)
  show ?thesis
    unfolding fields using single_selection [OF r kinds mem] input by blast
qed

theorem edge_selection_witness:
  "let e = make_edge sample_catalog 1 (sample_input 0 repo_type) DependencySingle (0, 0); ps = sample_catalog in
   \<exists>input \<in> set (prov_dependencies (ps ! edge_consumer e)). \<exists>cs.
      dependencyCandidates (buildTypeIndex ps) input ps = (edge_kind e, cs)
    \<and> edge_parameter_index e = dep_index input
    \<and> edge_dependency e \<in> set cs \<and> edge_dependency e < length ps
    \<and> (provides (dep_type input) (ps ! edge_dependency e) \<or> provides (MatchType input) (ps ! edge_dependency e))
    \<and> list_all (qualifier_matches (ps ! edge_dependency e)) (dep_qualifiers input)
    \<and> (prov_scope (ps ! edge_dependency e) = BeanScopeSingleton \<or> dep_kind input = DependencyProvider)
    \<and> (prov_fallback (ps ! edge_dependency e) \<longrightarrow> (\<forall>c \<in> set cs. prov_fallback (ps ! c)))
    \<and> (\<forall>c \<in> set cs. prov_primary (ps ! c) \<longrightarrow> \<not> prov_primary (ps ! edge_dependency e)
          \<longrightarrow> prov_fallback (ps ! c) \<and> \<not> prov_fallback (ps ! edge_dependency e))"
  unfolding Let_def
proof (rule edge_selection)
  show "make_edge sample_catalog 1 (sample_input 0 repo_type) DependencySingle (0, 0)
      \<in> set (res_edges (Build latin_only [] sample_catalog))" by code_simp
  show "edge_kind (make_edge sample_catalog 1 (sample_input 0 repo_type) DependencySingle (0, 0))
      \<notin> {DependencySlice, DependencyMap}" by (simp add: make_edge_def)
qed

section \<open>Types that are spelled differently\<close>








end
