(* ===== verification/Debounce.thy ===== *)
theory Debounce
  imports Go_Text "HOL-Library.Word" "HOL-Library.AList"
begin

text \<open>
  The change kinds, file events, batches and the debouncer of the development loop
  (\<open>src/internal/devloop/types.go\<close>, \<open>debounce.go\<close>).  \<open>time.Time\<close> and \<open>time.Duration\<close> are
  integers counting nanoseconds; the zero time is 0.  The Go map of pending events is an
  association list with one entry per path, whose order no operation depends on.  Revisions
  are the 64-bit unsigned integers of the source.
\<close>

section \<open>File events and batches\<close>

text \<open>\<open>ChangeKind\<close> is a string type: every string is a value of it, five of them are valid.\<close>

type_synonym change_kind = string
type_synonym revision = "64 word"
type_synonym time = int

definition ChangeInitial :: change_kind where "ChangeInitial = ''initial''"
definition ChangeCreate :: change_kind where "ChangeCreate = ''create''"
definition ChangeWrite :: change_kind where "ChangeWrite = ''write''"
definition ChangeRemove :: change_kind where "ChangeRemove = ''remove''"
definition ChangeRename :: change_kind where "ChangeRename = ''rename''"

lemmas change_kinds =
  ChangeInitial_def ChangeCreate_def ChangeWrite_def ChangeRemove_def ChangeRename_def

definition Valid :: "change_kind \<Rightarrow> bool" where
  "Valid kind =
     (kind \<in> {ChangeInitial, ChangeCreate, ChangeWrite, ChangeRemove, ChangeRename})"

record file_event =
  Path :: string
  Kind :: change_kind

definition NewFileEvent :: "unicode_tables \<Rightarrow> string \<Rightarrow> change_kind \<Rightarrow> file_event go_result" where
  "NewFileEvent U path kind =
     (if path = [] then Inl ''development file event path must not be empty''
      else if \<not> Valid kind
      then Inl (''unsupported development file event kind '' @ quote U kind)
      else Inr \<lparr>Path = path, Kind = kind\<rparr>)"

record batch =
  Revision :: revision
  Changes :: "file_event list"

definition newBatch :: "revision \<Rightarrow> file_event list \<Rightarrow> batch" where
  "newBatch revision changes = \<lparr>Revision = revision, Changes = changes\<rparr>"

definition no_batch :: batch where
  "no_batch = \<lparr>Revision = 0, Changes = []\<rparr>"

section \<open>The debouncer\<close>

record debouncer =
  quietPeriod :: int
  maxDelay :: int
  first_time :: time
  last_time :: time
  pending :: "(string \<times> file_event) list"

definition NewDebouncer :: "int \<Rightarrow> int \<Rightarrow> debouncer go_result" where
  "NewDebouncer quiet delay =
     (if quiet \<le> 0 then Inl ''development quiet period must be positive''
      else if delay < quiet
      then Inl ''development maximum delay must not be shorter than the quiet period''
      else Inr \<lparr>quietPeriod = quiet, maxDelay = delay, first_time = 0, last_time = 0,
                pending = []\<rparr>)"

definition mergeChange :: "change_kind \<Rightarrow> change_kind \<Rightarrow> change_kind" where
  "mergeChange previous next =
     (if previous = ChangeRemove \<and> next = ChangeCreate then ChangeWrite
      else if previous = ChangeCreate \<and> next = ChangeWrite then ChangeCreate
      else if next = ChangeRemove then ChangeRemove
      else next)"

definition Add :: "unicode_tables \<Rightarrow> time \<Rightarrow> file_event \<Rightarrow> debouncer \<Rightarrow> debouncer go_result" where
  "Add U now event d =
     (case NewFileEvent U (Path event) (Kind event) of
        Inl e \<Rightarrow> Inl e
      | Inr _ \<Rightarrow>
          let d = (if pending d = [] then d\<lparr>first_time := now\<rparr> else d);
              d = d\<lparr>last_time := now\<rparr>;
              event = (case map_of (pending d) (Path event) of
                         Some previous \<Rightarrow> event\<lparr>Kind := mergeChange (Kind previous) (Kind event)\<rparr>
                       | None \<Rightarrow> event)
          in Inr (d\<lparr>pending := AList.update (Path event) event (pending d)\<rparr>))"

definition Pending :: "debouncer \<Rightarrow> bool" where
  "Pending d = (pending d \<noteq> [])"

definition Deadline :: "debouncer \<Rightarrow> time \<times> bool" where
  "Deadline d =
     (if pending d = [] then (0, False)
      else let quiet_deadline = last_time d + quietPeriod d;
               maximum_deadline = first_time d + maxDelay d
           in if maximum_deadline < quiet_deadline then (maximum_deadline, True)
              else (quiet_deadline, True))"

definition Take :: "time \<Rightarrow> revision \<Rightarrow> debouncer \<Rightarrow> batch \<times> bool \<times> debouncer" where
  "Take now revision d =
     (let (deadline, found) = Deadline d
      in if \<not> found \<or> now < deadline then (no_batch, False, d)
         else let paths = sort_strings (map fst (pending d));
                  changes = map (\<lambda>p. the (map_of (pending d) p)) paths
              in (newBatch revision changes, True,
                  d\<lparr>pending := [], first_time := 0, last_time := 0\<rparr>))"

section \<open>The contract with the engine\<close>

text \<open>
  What the engine relies on: an accepted event makes the buffer pending, a pending buffer has a
  deadline, and taking succeeds exactly for a pending buffer whose deadline has come, emptying
  it, and leaves it alone otherwise.
\<close>

locale change_buffer =
  fixes add :: "time \<Rightarrow> 'e \<Rightarrow> 'd \<Rightarrow> 'd go_result"
    and is_pending :: "'d \<Rightarrow> bool"
    and deadline :: "'d \<Rightarrow> time \<times> bool"
    and take_batch :: "time \<Rightarrow> 'r \<Rightarrow> 'd \<Rightarrow> 'b \<times> bool \<times> 'd"
  assumes add_pending: "add now e d = Inr d' \<Longrightarrow> is_pending d'"
    and deadline_iff: "snd (deadline d) \<longleftrightarrow> is_pending d"
    and take_iff: "fst (snd (take_batch now r d)) \<longleftrightarrow> is_pending d \<and> fst (deadline d) \<le> now"
    and take_empties: "fst (snd (take_batch now r d)) \<Longrightarrow> \<not> is_pending (snd (snd (take_batch now r d)))"
    and take_keeps: "\<not> fst (snd (take_batch now r d)) \<Longrightarrow> snd (snd (take_batch now r d)) = d"
begin

text \<open>Taking twice at the same instant gives at most one batch.\<close>

lemma taken_once:
  "fst (snd (take_batch now r d)) \<Longrightarrow>
     \<not> fst (snd (take_batch now r' (snd (snd (take_batch now r d)))))"
  using take_empties take_iff by blast

text \<open>After an attempt at time \<open>now\<close>, whatever is pending is due later.\<close>

lemma left_over_is_early:
  "is_pending (snd (snd (take_batch now r d))) \<Longrightarrow>
     now < fst (deadline (snd (snd (take_batch now r d))))"
  using take_empties take_keeps take_iff by (metis not_le)

end

interpretation debounced: change_buffer "Add U" Pending Deadline Take for U
proof
  fix now :: time and e d d'
  assume "Add U now e d = Inr d'"
  then show "Pending d'"
    by (auto simp: Add_def Pending_def Let_def split: sum.splits option.splits)
qed (auto simp: Take_def Pending_def Deadline_def Let_def split: if_splits)

section \<open>Bursts of events\<close>

text \<open>
  A burst is the sequence of events the engine feeds to the debouncer, each with its arrival
  time; an event that \<open>Add\<close> refuses leaves the debouncer as it was.
\<close>

type_synonym burst = "(time \<times> file_event) list"

definition add_or_keep :: "unicode_tables \<Rightarrow> time \<Rightarrow> file_event \<Rightarrow> debouncer \<Rightarrow> debouncer" where
  "add_or_keep U now e d = (case Add U now e d of Inl _ \<Rightarrow> d | Inr d' \<Rightarrow> d')"

definition add_burst :: "unicode_tables \<Rightarrow> burst \<Rightarrow> debouncer \<Rightarrow> debouncer" where
  "add_burst U es d = fold (\<lambda>(now, e). add_or_keep U now e) es d"

definition acceptable :: "file_event \<Rightarrow> bool" where
  "acceptable e = (Path e \<noteq> [] \<and> Valid (Kind e))"

text \<open>
  The reference: what a path's events of a burst add up to, read off the burst itself by
  combining, in order of arrival, the kinds reported for that path.
\<close>

fun merge_kinds :: "change_kind option \<Rightarrow> change_kind list \<Rightarrow> change_kind option" where
  "merge_kinds acc [] = acc"
| "merge_kinds None (k # ks) = merge_kinds (Some k) ks"
| "merge_kinds (Some p) (k # ks) = merge_kinds (Some (mergeChange p k)) ks"

definition path_kinds :: "string \<Rightarrow> file_event list \<Rightarrow> change_kind list" where
  "path_kinds p es = map Kind (filter (\<lambda>e. acceptable e \<and> Path e = p) es)"

definition net_change :: "file_event list \<Rightarrow> string \<Rightarrow> change_kind option" where
  "net_change es p = merge_kinds None (path_kinds p es)"

section \<open>The state invariant\<close>

definition debouncer_ok :: "debouncer \<Rightarrow> bool" where
  "debouncer_ok d =
     (0 < quietPeriod d \<and> quietPeriod d \<le> maxDelay d \<and> distinct (map fst (pending d)) \<and>
      (\<forall>(p, e) \<in> set (pending d). Path e = p \<and> p \<noteq> [] \<and> Valid (Kind e)))"

lemma merge_kinds_snoc:
  "merge_kinds acc (ks @ [k]) =
     Some (case merge_kinds acc ks of None \<Rightarrow> k | Some p \<Rightarrow> mergeChange p k)"
  by (induction acc ks rule: merge_kinds.induct) (auto split: option.splits)

lemma merge_kinds_None_iff: "merge_kinds acc ks = None \<longleftrightarrow> acc = None \<and> ks = []"
  by (induction acc ks rule: merge_kinds.induct) auto

lemma mergeChange_valid: "Valid k \<Longrightarrow> Valid k' \<Longrightarrow> Valid (mergeChange k k')"
  by (auto simp: mergeChange_def Valid_def)

lemma mergeChange_initial_iff [simp]:
  "mergeChange k k' = ChangeInitial \<longleftrightarrow> k' = ChangeInitial"
  by (auto simp: mergeChange_def change_kinds)

lemma Add_acceptable:
  assumes "acceptable e"
  shows "Add U now e d =
    Inr (d\<lparr>first_time := (if pending d = [] then now else first_time d), last_time := now,
           pending := AList.update (Path e)
             (e\<lparr>Kind := (case map_of (pending d) (Path e) of None \<Rightarrow> Kind e
                         | Some previous \<Rightarrow> mergeChange (Kind previous) (Kind e))\<rparr>)
             (pending d)\<rparr>)"
  using assms by (auto simp: Add_def NewFileEvent_def acceptable_def Let_def split: option.splits)

lemma Add_refused:
  assumes "\<not> acceptable e"
  shows "\<exists>msg. Add U now e d = Inl msg"
  using assms by (auto simp: Add_def NewFileEvent_def acceptable_def)

lemma Add_ok:
  assumes "debouncer_ok d" "Add U now e d = Inr d'"
  shows "debouncer_ok d'"
proof -
  let ?kind = "case map_of (pending d) (Path e) of None \<Rightarrow> Kind e
                 | Some previous \<Rightarrow> mergeChange (Kind previous) (Kind e)"
  let ?v = "e\<lparr>Kind := ?kind\<rparr>"
  have e: "acceptable e" using assms(2) Add_refused [of e U now d] by auto
  then have d': "d' = d\<lparr>first_time := (if pending d = [] then now else first_time d),
      last_time := now, pending := AList.update (Path e) ?v (pending d)\<rparr>"
    using assms(2) by (simp add: Add_acceptable)
  have old: "Path v = k \<and> k \<noteq> [] \<and> Valid (Kind v)" if "map_of (pending d) k = Some v" for k v
    using that assms(1) by (auto simp only: debouncer_ok_def dest!: map_of_SomeD)
  have dist: "distinct (map fst (pending d'))"
    using assms(1) by (simp add: d' debouncer_ok_def distinct_update)
  have new: "Path ?v = Path e \<and> Path e \<noteq> [] \<and> Valid (Kind ?v)"
  proof (cases "map_of (pending d) (Path e)")
    case (Some prev)
    then show ?thesis using old [OF Some] e by (simp add: acceptable_def mergeChange_valid)
  qed (use e in \<open>simp add: acceptable_def\<close>)
  have "Path v = k \<and> k \<noteq> [] \<and> Valid (Kind v)" if "(k, v) \<in> set (pending d')" for k v
  proof -
    have "map_of (pending d') k = Some v" using that dist by simp
    then have "(if k = Path e then Some ?v else map_of (pending d) k) = Some v"
      by (simp add: d' update_conv)
    then show ?thesis using old [of k v] new by (cases "k = Path e") auto
  qed
  moreover have "0 < quietPeriod d'" "quietPeriod d' \<le> maxDelay d'"
    using assms(1) by (simp_all add: d' debouncer_ok_def)
  ultimately show ?thesis using dist unfolding debouncer_ok_def by blast
qed

lemma Take_ok: "debouncer_ok d \<Longrightarrow> debouncer_ok (snd (snd (Take now r d)))"
  by (auto simp: Take_def debouncer_ok_def Let_def split: prod.splits)

lemma NewDebouncer_ok: "NewDebouncer q m = Inr d \<Longrightarrow> debouncer_ok d"
  by (auto simp: NewDebouncer_def debouncer_ok_def split: if_splits)

text \<open>What a fresh debouncer holds after a burst, path by path, and the two times it keeps.\<close>

lemma add_burst_Nil [simp]: "add_burst U [] d = d"
  by (simp add: add_burst_def)

lemma add_burst_snoc [simp]:
  "add_burst U (es @ [(now, e)]) d = add_or_keep U now e (add_burst U es d)"
  by (simp add: add_burst_def)

lemma add_or_keep_cases:
  "add_or_keep U now e d =
     (if acceptable e
      then d\<lparr>first_time := (if pending d = [] then now else first_time d), last_time := now,
             pending := AList.update (Path e)
               (e\<lparr>Kind := (case map_of (pending d) (Path e) of None \<Rightarrow> Kind e
                           | Some previous \<Rightarrow> mergeChange (Kind previous) (Kind e))\<rparr>)
               (pending d)\<rparr>
      else d)"
  using Add_refused [of e U now d] by (auto simp: add_or_keep_def Add_acceptable)

lemma add_burst_periods [simp]:
  "quietPeriod (add_burst U es d) = quietPeriod d" "maxDelay (add_burst U es d) = maxDelay d"
  by (induction es rule: rev_induct) (auto simp: add_or_keep_cases)

lemma add_burst_ok: "debouncer_ok d \<Longrightarrow> debouncer_ok (add_burst U es d)"
proof (induction es rule: rev_induct)
  case (snoc x es)
  then show ?case
    using Add_ok by (cases x) (auto simp: add_or_keep_def split: sum.splits)
qed simp

lemma path_kinds_snoc:
  "path_kinds p (es @ [e]) =
     path_kinds p es @ (if acceptable e \<and> Path e = p then [Kind e] else [])"
  by (simp add: path_kinds_def)

lemma net_change_snoc:
  "net_change (es @ [e]) p =
     (if acceptable e \<and> Path e = p
      then Some (case net_change es p of None \<Rightarrow> Kind e | Some k \<Rightarrow> mergeChange k (Kind e))
      else net_change es p)"
  by (simp add: net_change_def path_kinds_snoc merge_kinds_snoc)

lemma net_change_None_iff:
  "net_change es p = None \<longleftrightarrow> p \<notin> Path ` set (filter acceptable es)"
  by (auto simp: net_change_def merge_kinds_None_iff path_kinds_def filter_empty_conv)

lemma pending_burst:
  assumes "pending d = []"
  shows "map_of (pending (add_burst U es d)) p =
    map_option (\<lambda>k. \<lparr>Path = p, Kind = k\<rparr>) (net_change (map snd es) p)"
proof (induction es arbitrary: p rule: rev_induct)
  case Nil
  then show ?case using assms by (simp add: net_change_def path_kinds_def)
next
  case (snoc x es)
  obtain now e where x: "x = (now, e)" by (cases x)
  have "e\<lparr>Kind := k\<rparr> = \<lparr>Path = Path e, Kind = k\<rparr>" for k by simp
  then show ?case
    using snoc by (auto simp: x add_or_keep_cases net_change_snoc update_conv split: option.splits)
qed

abbreviation accepted :: "burst \<Rightarrow> burst" where
  "accepted es \<equiv> filter (\<lambda>(_, e). acceptable e) es"

lemma accepted_events [simp]: "map snd (accepted es) = filter acceptable (map snd es)"
  by (induction es) auto

lemma pending_burst_Nil_iff:
  assumes "pending d = []"
  shows "pending (add_burst U es d) = [] \<longleftrightarrow> accepted es = []"
  using assms by (induction es rule: rev_induct) (auto simp: add_or_keep_cases)

lemma burst_times:
  assumes "pending d = []" "accepted es \<noteq> []"
  shows "first_time (add_burst U es d) = fst (hd (accepted es))"
    and "last_time (add_burst U es d) = fst (last (accepted es))"
  using assms(2)
proof (induction es rule: rev_induct)
  case (snoc x es)
  obtain now e where x: "x = (now, e)" by (cases x)
  {
    case 1
    then show ?case using snoc pending_burst_Nil_iff [OF assms(1), of U es]
      by (auto simp: x add_or_keep_cases hd_append)
  next
    case 2
    then show ?case using snoc pending_burst_Nil_iff [OF assms(1), of U es]
      by (auto simp: x add_or_keep_cases)
  }
qed simp_all

lemma burst_paths:
  assumes "pending d = []"
  shows "fst ` set (pending (add_burst U es d)) = Path ` set (filter acceptable (map snd es))"
proof -
  have "p \<in> fst ` set (pending (add_burst U es d)) \<longleftrightarrow>
      p \<in> Path ` set (filter acceptable (map snd es))" for p
    using pending_burst [OF assms, of U es p]
    by (simp add: dom_map_of_conv_image_fst [symmetric] domIff net_change_None_iff
        del: set_filter)
  then show ?thesis by blast
qed

definition burst_deadline :: "int \<Rightarrow> int \<Rightarrow> burst \<Rightarrow> time" where
  "burst_deadline quiet delay es =
     min (fst (last (accepted es)) + quiet) (fst (hd (accepted es)) + delay)"

lemma Deadline_burst:
  assumes "pending d = []" "accepted es \<noteq> []"
  shows "Deadline (add_burst U es d) = (burst_deadline (quietPeriod d) (maxDelay d) es, True)"
  using assms pending_burst_Nil_iff [OF assms(1), of U es] burst_times [OF assms, of U]
  by (simp add: Deadline_def burst_deadline_def Let_def)

definition burst_changes :: "burst \<Rightarrow> file_event list" where
  "burst_changes es =
     map (\<lambda>p. \<lparr>Path = p, Kind = the (net_change (map snd es) p)\<rparr>)
       (sort_strings (remdups (map Path (filter acceptable (map snd es)))))"

lemma sort_strings_cong:
  "distinct xs \<Longrightarrow> distinct ys \<Longrightarrow> set xs = set ys \<Longrightarrow> sort_strings xs = sort_strings ys"
  by (rule string_order.sort_by_perm) (simp_all add: set_eq_iff_mset_eq_distinct)

lemma Take_burst:
  assumes "NewDebouncer quiet delay = Inr d"
  shows "Take now r (add_burst U es d) =
    (if accepted es = [] \<or> now < burst_deadline quiet delay es
     then (no_batch, False, add_burst U es d)
     else (newBatch r (burst_changes es), True, d))"
proof -
  have d: "pending d = []" "quietPeriod d = quiet" "maxDelay d = delay"
      "first_time d = 0" "last_time d = 0"
    using assms by (auto simp: NewDebouncer_def split: if_splits)
  show ?thesis
  proof (cases "accepted es = []")
    case True
    then show ?thesis using pending_burst_Nil_iff [OF d(1)] by (simp add: Take_def Deadline_def)
  next
    case False
    let ?d = "add_burst U es d"
    have ok: "debouncer_ok ?d" using assms NewDebouncer_ok add_burst_ok by blast
    then have "sort_strings (map fst (pending ?d)) =
        sort_strings (remdups (map Path (filter acceptable (map snd es))))"
      using burst_paths [OF d(1), of U es]
      by (intro sort_strings_cong) (simp_all add: debouncer_ok_def)
    moreover have "the (map_of (pending ?d) p) =
        \<lparr>Path = p, Kind = the (net_change (map snd es) p)\<rparr>"
      if "p \<in> Path ` set (filter acceptable (map snd es))" for p
      using that net_change_None_iff [of "map snd es"] pending_burst [OF d(1), of U es]
      by (metis option.map_sel)
    ultimately have changes: "map (\<lambda>p. the (map_of (pending ?d) p))
        (sort_strings (map fst (pending ?d))) = burst_changes es"
      by (auto simp: burst_changes_def)
    have reset: "?d\<lparr>pending := [], first_time := 0, last_time := 0\<rparr> = d"
      using d add_burst_periods [of U es d] by (cases d, cases ?d) simp
    show ?thesis
      using False Deadline_burst [OF d(1) False, of U] changes reset d
      by (simp add: Take_def Let_def)
  qed
qed

lemma burst_changes_paths:
  "map Path (burst_changes es) =
     sort_strings (remdups (map Path (filter acceptable (map snd es))))"
  by (simp add: burst_changes_def comp_def)

section \<open>Properties\<close>

text \<open>
  C26. The debouncer implements the reference coalescing.  For every burst of events, of any
  kinds and at any times, delivered to a new debouncer: \<open>Take\<close> hands out a batch exactly when
  some event was accepted and the earlier of \<open>last + quietPeriod\<close> and \<open>first + maxDelay\<close> has
  come; the batch has each changed path once, in increasing order, with the kinds of that
  path's events merged in their order of arrival; the debouncer is then as good as new, and
  otherwise it is left as it was.
\<close>
theorem Take_coalesces_burst:
  assumes "NewDebouncer quiet delay = Inr d"
  shows "Take now r (add_burst U es d) =
    (if accepted es = [] \<or> now < burst_deadline quiet delay es
     then (no_batch, False, add_burst U es d)
     else (newBatch r (burst_changes es), True, d))"
  using assms by (rule Take_burst)

definition sample_burst :: burst where
  "sample_burst =
     [(10, \<lparr>Path = ''b.go'', Kind = ChangeRemove\<rparr>),
      (12, \<lparr>Path = ''a.go'', Kind = ChangeWrite\<rparr>),
      (15, \<lparr>Path = ''b.go'', Kind = ChangeCreate\<rparr>),
      (16, \<lparr>Path = [], Kind = ChangeWrite\<rparr>)]"

definition sample_debouncer :: debouncer where
  "sample_debouncer =
     \<lparr>quietPeriod = 5, maxDelay = 20, first_time = 0, last_time = 0, pending = []\<rparr>"

lemma NewDebouncer_sample: "NewDebouncer 5 20 = Inr sample_debouncer"
  by (simp add: NewDebouncer_def sample_debouncer_def)

theorem Take_coalesces_burst_witness:
  "Take 20 1 (add_burst latin_only sample_burst sample_debouncer) =
     (newBatch 1 [\<lparr>Path = ''a.go'', Kind = ChangeWrite\<rparr>, \<lparr>Path = ''b.go'', Kind = ChangeWrite\<rparr>],
      True, sample_debouncer)"
proof -
  have "accepted sample_burst \<noteq> []" "\<not> 20 < burst_deadline 5 20 sample_burst"
    by (code_simp)+
  moreover have "burst_changes sample_burst =
      [\<lparr>Path = ''a.go'', Kind = ChangeWrite\<rparr>, \<lparr>Path = ''b.go'', Kind = ChangeWrite\<rparr>]"
    by code_simp
  ultimately show ?thesis
    using Take_coalesces_burst [OF NewDebouncer_sample, of 20 1 latin_only sample_burst]
    by (simp only: if_False simp_thms)
qed

text \<open>
  Events cannot starve the loop.  Once an event is accepted by an idle debouncer at time
  \<open>t\<close>, then however many events follow and whenever they arrive, \<open>Take\<close> is ready at every
  instant from \<open>t + maxDelay\<close> on and its batch has that event's path; with no further event
  it is ready from \<open>t + quietPeriod\<close> on.
\<close>
theorem Take_not_starved:
  assumes "NewDebouncer quiet delay = Inr d" "acceptable e"
    and "t + delay \<le> now \<or> accepted es = [] \<and> t + quiet \<le> now"
  shows "\<exists>b d'. Take now r (add_burst U ((t, e) # es) d) = (b, True, d') \<and>
    Revision b = r \<and> Path e \<in> Path ` set (Changes b)"
proof -
  let ?es = "(t, e) # es"
  have "fst (hd (accepted ?es)) = t" using assms(2) by simp
  moreover have "accepted es = [] \<Longrightarrow> fst (last (accepted ?es)) = t" using assms(2) by simp
  ultimately have "\<not> now < burst_deadline quiet delay ?es"
    using assms(3) by (auto simp: burst_deadline_def simp del: filter.simps)
  then have "Take now r (add_burst U ?es d) = (newBatch r (burst_changes ?es), True, d)"
    using Take_burst [OF assms(1), of now r U ?es] assms(2) by simp
  moreover have "Path e \<in> Path ` set (burst_changes ?es)"
    using burst_changes_paths [of ?es, THEN arg_cong [where f = set]] assms(2) by simp
  ultimately show ?thesis by (simp add: newBatch_def)
qed

theorem Take_not_starved_witness:
  "\<exists>b d'. Take 30 7 (add_burst latin_only
     ((10, \<lparr>Path = ''b.go'', Kind = ChangeRemove\<rparr>) # sample_burst) sample_debouncer) = (b, True, d') \<and>
     Revision b = 7 \<and> ''b.go'' \<in> Path ` set (Changes b)"
  using Take_not_starved [OF NewDebouncer_sample,
      of "\<lparr>Path = ''b.go'', Kind = ChangeRemove\<rparr>" 10 30 sample_burst 7 latin_only]
  by (simp add: acceptable_def Valid_def)

end
