(* ===== verification/Go_Path.thy ===== *)
theory Go_Path
  imports Go_Text
begin

text \<open>
  The parts of Go's \<open>path\<close> and \<open>path/filepath\<close> (on a slash-separated system, where
  \<open>ToSlash\<close> and \<open>FromSlash\<close> do nothing) that the toolchain uses: \<open>Clean\<close>, \<open>Base\<close>, \<open>Ext\<close>,
  \<open>IsLocal\<close> and \<open>path.Match\<close> with its character classes and escapes.
\<close>

abbreviation slash :: char where "slash \<equiv> CHR ''/''"

section \<open>Clean\<close>

definition clean_step :: "bool \<Rightarrow> string \<Rightarrow> string list \<Rightarrow> string list" where
  "clean_step rooted part st =
     (if part = [] \<or> part = ''.'' then st
      else if part = ''..''
      then (case st of
              [] \<Rightarrow> if rooted then [] else [''..'']
            | latest # older \<Rightarrow> if latest = ''..'' then ''..'' # st else older)
      else part # st)"

definition clean_parts :: "bool \<Rightarrow> string list \<Rightarrow> string list" where
  "clean_parts rooted parts = rev (fold (clean_step rooted) parts [])"

definition IsAbs :: "string \<Rightarrow> bool" where
  "IsAbs p = has_prefix p ''/''"

definition Clean :: "string \<Rightarrow> string" where
  "Clean p =
     (let rooted = IsAbs p;
          body = join_with ''/'' (clean_parts rooted (split_on slash p))
      in if rooted then slash # body else if body = [] then ''.'' else body)"

section \<open>Base, Ext and IsLocal\<close>

definition path_base :: "string \<Rightarrow> string" where
  "path_base p =
     (if p = [] then ''.''
      else let stripped = rev (dropWhile (\<lambda>c. c = slash) (rev p))
           in if stripped = [] then ''/'' else last (split_on slash stripped))"

definition path_ext :: "string \<Rightarrow> string" where
  "path_ext p =
     (let base = last (split_on slash p)
      in if CHR ''.'' \<in> set base then CHR ''.'' # last (split_on (CHR ''.'') base) else [])"

definition IsLocal :: "string \<Rightarrow> bool" where
  "IsLocal p =
     (if IsAbs p \<or> p = [] then False
      else let parts = split_on slash p;
               q = (if ''.'' \<in> set parts \<or> ''..'' \<in> set parts then Clean p else p)
           in \<not> (q = ''..'' \<or> has_prefix q ''../''))"

definition path_dir :: "string \<Rightarrow> string" where
  "path_dir p = Clean (rev (dropWhile (\<lambda>c. c \<noteq> slash) (rev p)))"

definition path_join :: "string \<Rightarrow> string \<Rightarrow> string" where
  "path_join a b =
     (if a = [] then (if b = [] then [] else Clean b)
      else if b = [] then Clean a else Clean (a @ slash # b))"

section \<open>Match\<close>

text \<open>\<open>path.ErrBadPattern\<close> is \<open>None\<close>.\<close>

definition get_esc :: "string \<Rightarrow> (rune \<times> string) option" where
  "get_esc chunk =
     (if chunk = [] \<or> hd chunk = CHR ''-'' \<or> hd chunk = CHR '']'' then None
      else let chunk = (if hd chunk = CHR 0x5C then tl chunk else chunk)
           in if chunk = [] then None
              else let (r, n) = decode_rune chunk; rest = drop n chunk
                   in if r = rune_error \<and> n = 1 \<or> rest = [] then None else Some (r, rest))"

lemma get_esc_shorter:
  assumes "get_esc chunk = Some (r, rest)"
  shows "length rest < length chunk \<and> rest \<noteq> []"
proof -
  have "0 < snd (decode_rune s)" if "s \<noteq> []" for s
    using that decode_rune_size [of s "fst (decode_rune s)" "snd (decode_rune s)"] by simp
  then show ?thesis
    using assms by (fastforce simp: get_esc_def Let_def split: if_splits prod.splits)
qed

text \<open>The loop over the ranges of a character class, up to its closing bracket.\<close>

function class_loop :: "rune \<Rightarrow> bool \<Rightarrow> bool \<Rightarrow> string \<Rightarrow> (bool \<times> string) option" where
  "class_loop r started matched chunk =
     (if chunk \<noteq> [] \<and> hd chunk = CHR '']'' \<and> started then Some (matched, tl chunk)
      else case get_esc chunk of
             None \<Rightarrow> None
           | Some (lo, chunk1) \<Rightarrow>
               if hd chunk1 = CHR ''-''
               then (case get_esc (tl chunk1) of
                       None \<Rightarrow> None
                     | Some (hi, chunk2) \<Rightarrow>
                         class_loop r True (matched \<or> lo \<le> r \<and> r \<le> hi) chunk2)
               else class_loop r True (matched \<or> lo \<le> r \<and> r \<le> lo) chunk1)"
  by pat_completeness auto
termination
  by (relation "measure (\<lambda>(r, started, matched, chunk). length chunk)")
    (fastforce dest: get_esc_shorter)+

declare class_loop.simps [simp del]

lemma class_loop_shorter:
  "class_loop r started matched chunk = Some (m, rest) \<Longrightarrow> length rest < length chunk"
proof (induction r started matched chunk rule: class_loop.induct)
  case (1 r started matched chunk)
  then show ?case
    by (subst (asm) (3) class_loop.simps)
      (fastforce split: if_splits option.splits dest: get_esc_shorter)
qed

text \<open>\<open>matchChunk\<close>: \<open>Some None\<close> is a chunk that is well formed and does not match.\<close>

function match_chunk :: "bool \<Rightarrow> string \<Rightarrow> string \<Rightarrow> string option option" where
  "match_chunk failed [] s = Some (if failed then None else Some s)"
| "match_chunk failed (c # chunk) s =
     (let failed = (failed \<or> s = [])
      in if c = CHR ''[''
         then let (r, n) = (if failed then (0, 0) else decode_rune s);
                  negated = (chunk \<noteq> [] \<and> hd chunk = CHR 0x5E)
              in (case class_loop r False False (if negated then tl chunk else chunk) of
                    None \<Rightarrow> None
                  | Some (matched, rest) \<Rightarrow>
                      match_chunk (failed \<or> matched = negated) rest (drop n s))
         else if c = CHR ''?''
         then if failed then match_chunk True chunk s
              else match_chunk (hd s = slash) chunk (drop (snd (decode_rune s)) s)
         else if c = CHR 0x5C
         then (case chunk of
                 [] \<Rightarrow> None
               | e # rest \<Rightarrow> if failed then match_chunk True rest s
                             else match_chunk (e \<noteq> hd s) rest (tl s))
         else if failed then match_chunk True chunk s
         else match_chunk (c \<noteq> hd s) chunk (tl s))"
  by pat_completeness auto
termination
  by (relation "measure (\<lambda>(failed, chunk, s). length chunk)")
    (auto dest!: class_loop_shorter split: if_splits)

declare match_chunk.simps [simp del]

fun scan_body :: "bool \<Rightarrow> string \<Rightarrow> string \<times> string" where
  "scan_body inrange [] = ([], [])"
| "scan_body inrange (c # cs) =
     (if c = CHR 0x5C
      then (case cs of
              [] \<Rightarrow> ([c], [])
            | e # rest \<Rightarrow> let (chunk, rest) = scan_body inrange rest in (c # e # chunk, rest))
      else if c = CHR ''*'' \<and> \<not> inrange then ([], c # cs)
      else let inrange = (if c = CHR ''['' then True else if c = CHR '']'' then False else inrange);
               (chunk, rest) = scan_body inrange cs
           in (c # chunk, rest))"

definition scan_chunk :: "string \<Rightarrow> bool \<times> string \<times> string" where
  "scan_chunk pattern =
     (let body = dropWhile (\<lambda>c. c = CHR ''*'') pattern
      in (pattern \<noteq> [] \<and> hd pattern = CHR ''*'', scan_body False body))"

lemma scan_body_append: "scan_body inrange s = (chunk, rest) \<Longrightarrow> s = chunk @ rest"
proof (induction inrange s arbitrary: chunk rest rule: scan_body.induct)
  case (2 inrange c cs)
  let ?inrange = "if c = CHR ''['' then True else if c = CHR '']'' then False else inrange"
  show ?case
  proof (cases "c = CHR 0x5C")
    case True
    then show ?thesis
      using "2.prems" "2.IH"(1) [OF True] by (auto split: list.splits prod.splits)
  next
    case False
    have "cs = chunk' @ rest'" if "scan_body ?inrange cs = (chunk', rest')"
      "\<not> (c = CHR ''*'' \<and> \<not> inrange)" for chunk' rest'
      using "2.IH"(2) [OF False that(2) refl that(1)] .
    then show ?thesis using False "2.prems" by (auto simp: Let_def split: if_splits prod.splits)
  qed
qed simp

lemma scan_body_shorter:
  assumes "scan_body False s = (chunk, rest)" "s \<noteq> []" "hd s \<noteq> CHR ''*''"
  shows "length rest < length s"
proof -
  have "chunk \<noteq> []"
    using assms by (cases s) (auto simp: Let_def split: if_splits prod.splits list.splits)
  then show ?thesis using scan_body_append [OF assms(1)] by simp
qed

lemma scan_chunk_shorter:
  assumes "scan_chunk pattern = (star, chunk, rest)" "pattern \<noteq> []"
  shows "length rest < length pattern"
proof -
  let ?body = "dropWhile (\<lambda>c. c = CHR ''*'') pattern"
  have body: "scan_body False ?body = (chunk, rest)" using assms by (simp add: scan_chunk_def)
  have "length rest \<le> length ?body" using scan_body_append [OF body] by simp
  moreover have "length ?body \<le> length pattern" by (rule length_dropWhile_le)
  moreover have "length rest < length pattern" if "length ?body = length pattern"
  proof -
    have "hd pattern \<noteq> CHR ''*''"
    proof
      assume "hd pattern = CHR ''*''"
      then have "?body = dropWhile (\<lambda>c. c = CHR ''*'') (tl pattern)"
        using assms(2) by (cases pattern) auto
      then have "length ?body \<le> length (tl pattern)" by (metis length_dropWhile_le)
      then show False using that assms(2) by (cases pattern) auto
    qed
    then have "?body = pattern" by (cases pattern) auto
    then show ?thesis using scan_body_shorter [OF body] assms(2) \<open>hd pattern \<noteq> CHR ''*''\<close> by simp
  qed
  ultimately show ?thesis by linarith
qed

text \<open>The loop that lets a star swallow one more byte of the name at a time.\<close>

fun star_try :: "string \<Rightarrow> bool \<Rightarrow> string \<Rightarrow> string option option" where
  "star_try chunk final [] = Some None"
| "star_try chunk final (c # name) =
     (if c = slash then Some None
      else case match_chunk False chunk name of
             None \<Rightarrow> None
           | Some (Some t) \<Rightarrow> if final \<and> t \<noteq> [] then star_try chunk final name else Some (Some t)
           | Some None \<Rightarrow> star_try chunk final name)"

function check_pattern :: "string \<Rightarrow> bool option" where
  "check_pattern pattern =
     (if pattern = [] then Some False
      else let (star, chunk, rest) = scan_chunk pattern
           in if match_chunk False chunk [] = None then None else check_pattern rest)"
  by pat_completeness auto
termination
  by (relation "measure length") (auto dest!: scan_chunk_shorter [OF sym])

declare check_pattern.simps [simp del]

function path_match :: "string \<Rightarrow> string \<Rightarrow> bool option" where
  "path_match pattern name =
     (if pattern = [] then Some (name = [])
      else let (star, chunk, rest) = scan_chunk pattern
           in if star \<and> chunk = [] then Some (slash \<notin> set name)
              else case match_chunk False chunk name of
                     None \<Rightarrow> None
                   | Some found \<Rightarrow>
                       (case found of
                          Some t \<Rightarrow>
                            if t = [] \<or> rest \<noteq> [] then path_match rest t
                            else if star
                            then (case star_try chunk (rest = []) name of
                                    None \<Rightarrow> None
                                  | Some None \<Rightarrow> check_pattern rest
                                  | Some (Some t) \<Rightarrow> path_match rest t)
                            else check_pattern rest
                        | None \<Rightarrow>
                            if star
                            then (case star_try chunk (rest = []) name of
                                    None \<Rightarrow> None
                                  | Some None \<Rightarrow> check_pattern rest
                                  | Some (Some t) \<Rightarrow> path_match rest t)
                            else check_pattern rest))"
  by pat_completeness auto
termination
  by (relation "measure (\<lambda>(pattern, name). length pattern)")
    (auto dest!: scan_chunk_shorter [OF sym])

declare path_match.simps [simp del]

section \<open>Normal forms\<close>

definition plain_part :: "string \<Rightarrow> bool" where
  "plain_part w = (w \<noteq> [] \<and> w \<noteq> ''.'' \<and> w \<noteq> ''..'' \<and> slash \<notin> set w)"

text \<open>The components of a cleaned path: leading parent steps (none when rooted), then names.\<close>

definition normal_parts :: "bool \<Rightarrow> string list \<Rightarrow> bool" where
  "normal_parts rooted ws =
     (\<exists>k names. ws = replicate k ''..'' @ names \<and> (\<forall>w\<in>set names. plain_part w) \<and> (rooted \<longrightarrow> k = 0))"

lemma normal_parts_Nil [simp]: "normal_parts rooted []"
  by (simp add: normal_parts_def)

lemma normal_parts_no_slash:
  "normal_parts rooted ws \<Longrightarrow> w \<in> set ws \<Longrightarrow> slash \<notin> set w \<and> w \<noteq> [] \<and> w \<noteq> ''.''"
proof -
  assume "normal_parts rooted ws" "w \<in> set ws"
  then have "w = ''..'' \<or> plain_part w" by (auto simp: normal_parts_def)
  then show ?thesis by (elim disjE) (simp_all add: plain_part_def)
qed

lemma normal_parts_plain_snoc:
  "normal_parts rooted ws \<Longrightarrow> plain_part w \<Longrightarrow> normal_parts rooted (ws @ [w])"
proof -
  assume "normal_parts rooted ws" and w: "plain_part w"
  then obtain k names where "ws = replicate k ''..'' @ names" "\<forall>w\<in>set names. plain_part w"
      "rooted \<longrightarrow> k = 0"
    by (auto simp: normal_parts_def)
  with w show ?thesis
    unfolding normal_parts_def by (intro exI [of _ k] exI [of _ "names @ [w]"]) auto
qed

lemma normal_parts_cases:
  assumes "normal_parts rooted ws"
  obtains "ws = []"
  | k where "\<not> rooted" "ws = replicate (Suc k) ''..''"
  | init w where "ws = init @ [w]" "plain_part w" "normal_parts rooted init"
proof -
  obtain k names where ws: "ws = replicate k ''..'' @ names" "\<forall>w\<in>set names. plain_part w"
      "rooted \<longrightarrow> k = 0"
    using assms by (auto simp: normal_parts_def)
  show thesis
  proof (cases names rule: rev_cases)
    case Nil
    then show thesis using ws that(1,2) by (cases k) auto
  next
    case (snoc init w)
    then have "normal_parts rooted (replicate k ''..'' @ init)"
      using ws by (auto simp: normal_parts_def)
    then show thesis using ws snoc that(3) [of "replicate k ''..'' @ init" w] by simp
  qed
qed

lemma clean_step_normal:
  assumes "normal_parts rooted (rev st)" "slash \<notin> set w"
  shows "normal_parts rooted (rev (clean_step rooted w st))"
proof (cases "w = [] \<or> w = ''.'' \<or> w = ''..''")
  case False
  then have "plain_part w" using assms(2) by (simp add: plain_part_def)
  then show ?thesis
    using assms normal_parts_plain_snoc False by (simp add: clean_step_def)
next
  case True
  show ?thesis
  proof (cases "w = ''..''")
    case False
    then show ?thesis using True assms by (auto simp: clean_step_def)
  next
    case True
    from assms(1) show ?thesis
    proof (cases rule: normal_parts_cases)
      case 1
      have "normal_parts False [''..'']"
        unfolding normal_parts_def by (rule exI [of _ 1]) simp
      then show ?thesis using True 1 by (simp add: clean_step_def)
    next
      case (2 k)
      then have st: "st = replicate (Suc k) ''..''" by (metis rev_replicate rev_rev_ident)
      have "normal_parts False (replicate (Suc (Suc k)) ''..'')"
        unfolding normal_parts_def by (metis append_Nil2 empty_iff list.set(1))
      then show ?thesis using True 2(1) by (simp add: clean_step_def st replicate_append_same)
    next
      case (3 init v)
      then have "st = v # rev init" by (simp add: rev_swap)
      then show ?thesis using True 3 by (simp add: clean_step_def plain_part_def)
    qed
  qed
qed

lemma fold_clean_normal:
  "normal_parts rooted (rev st) \<Longrightarrow> \<forall>w\<in>set ws. slash \<notin> set w \<Longrightarrow>
   normal_parts rooted (rev (fold (clean_step rooted) ws st))"
  by (induction ws arbitrary: st) (auto simp: clean_step_normal)

lemma clean_parts_normal:
  "normal_parts rooted (clean_parts rooted (split_on slash p))"
  unfolding clean_parts_def
  by (rule fold_clean_normal) (auto dest: split_on_no_sep)

lemma clean_parts_snoc:
  "clean_parts rooted (ws @ [w]) = rev (clean_step rooted w (rev (clean_parts rooted ws)))"
  by (simp add: clean_parts_def)

lemma clean_parts_id: "normal_parts rooted ws \<Longrightarrow> clean_parts rooted ws = ws"
proof (induction ws rule: rev_induct)
  case Nil
  then show ?case by (simp add: clean_parts_def)
next
  case (snoc w ws)
  from snoc.prems show ?case
  proof (cases rule: normal_parts_cases)
    case (2 k)
    then have "ws @ [w] = replicate k ''..'' @ [''..'']"
      by (simp add: replicate_append_same)
    then have ws: "ws = replicate k ''..''" "w = ''..''" by simp_all
    have "normal_parts rooted ws"
      unfolding normal_parts_def using ws 2(1) by (metis append_Nil2 empty_iff list.set(1))
    then have "clean_parts rooted (ws @ [w]) = rev (clean_step rooted w (rev ws))"
      using snoc.IH by (simp only: clean_parts_snoc)
    also have "\<dots> = ws @ [w]"
      using ws 2(1) by (cases k) (simp_all add: clean_step_def replicate_append_same)
    finally show ?thesis .
  next
    case (3 init v)
    then show ?thesis
      using snoc.IH by (simp add: clean_parts_snoc clean_step_def plain_part_def)
  qed simp
qed

lemma join_Nil_iff: "(\<forall>w\<in>set ws. w \<noteq> []) \<Longrightarrow> join_with sep ws = [] \<longleftrightarrow> ws = []"
  by (cases "(sep, ws)" rule: join_with.cases) auto

lemma hd_join: "ws \<noteq> [] \<Longrightarrow> hd ws \<noteq> [] \<Longrightarrow> hd (join_with sep ws) = hd (hd ws)"
  by (cases "(sep, ws)" rule: join_with.cases) auto

text \<open>A relative path's cleaned form: its components, and that cleaning it again does nothing.\<close>

lemma split_Clean:
  assumes "\<not> IsAbs p"
  shows "split_on slash (Clean p) =
    (let ws = clean_parts False (split_on slash p) in if ws = [] then [''.''] else ws)"
proof -
  let ?ws = "clean_parts False (split_on slash p)"
  have ws: "normal_parts False ?ws" by (rule clean_parts_normal)
  then have parts: "w \<noteq> []" "slash \<notin> set w" if "w \<in> set ?ws" for w
    using that normal_parts_no_slash by blast+
  then have "join_with ''/'' ?ws = [] \<longleftrightarrow> ?ws = []" by (intro join_Nil_iff) auto
  moreover have "split_on slash (join_with ''/'' ?ws) = ?ws" if "?ws \<noteq> []"
    using that parts by (intro split_join) auto
  ultimately show ?thesis using assms by (auto simp: Clean_def Let_def)
qed

lemma IsAbs_Clean [simp]: "IsAbs (Clean p) = IsAbs p"
proof (cases "IsAbs p")
  case True
  then show ?thesis by (simp add: Clean_def IsAbs_def has_prefix_def)
next
  case False
  let ?ws = "clean_parts False (split_on slash p)"
  have "slash \<notin> set (hd ?ws) \<and> hd ?ws \<noteq> []" if "?ws \<noteq> []"
    using that normal_parts_no_slash [OF clean_parts_normal, of "hd ?ws" False p] by simp
  then have "join_with ''/'' ?ws = [] \<or> hd (join_with ''/'' ?ws) \<noteq> slash"
    by (cases "?ws = []") (auto simp: hd_join dest: hd_in_set)
  then have "\<not> IsAbs (Clean p)"
    using False by (cases "join_with ''/'' ?ws") (auto simp: Clean_def IsAbs_def Let_def)
  with False show ?thesis by simp
qed

lemma Clean_relative_idem:
  assumes "\<not> IsAbs p"
  shows "Clean (Clean p) = Clean p"
proof -
  let ?ws = "clean_parts False (split_on slash p)"
  have n: "normal_parts False ?ws" by (rule clean_parts_normal)
  then have "clean_parts False (if ?ws = [] then [''.''] else ?ws) = ?ws"
    by (simp add: clean_parts_id) (simp add: clean_parts_def clean_step_def)
  then have "Clean (Clean p) = (let body = join_with ''/'' ?ws in if body = [] then ''.'' else body)"
    using assms split_Clean [OF assms] by (simp add: Clean_def [of "Clean p"] Let_def)
  then show ?thesis using assms by (simp add: Clean_def [of p] Let_def)
qed

lemma Clean_normal:
  assumes "normal_parts False ws" "ws \<noteq> []"
  shows "Clean (join_with ''/'' ws) = join_with ''/'' ws"
proof -
  have parts: "w \<noteq> [] \<and> slash \<notin> set w" if "w \<in> set ws" for w
    using that normal_parts_no_slash [OF assms(1)] by blast
  then have "split_on slash (join_with ''/'' ws) = ws" using assms(2) by (intro split_join) auto
  moreover have "join_with ''/'' ws \<noteq> []" using parts assms(2) join_Nil_iff [of ws "''/''"] by blast
  moreover have "hd (join_with ''/'' ws) \<noteq> slash"
    using hd_join [OF assms(2), of "''/''"] parts [of "hd ws"] assms(2) by (metis hd_in_set)
  moreover from calculation have "\<not> IsAbs (join_with ''/'' ws)"
    by (cases "join_with ''/'' ws") (auto simp: IsAbs_def)
  ultimately show ?thesis using assms by (simp add: Clean_def Let_def clean_parts_id)
qed

text \<open>A cleaned path that is local stays below the directory it is read from.\<close>

lemma has_prefix_join:
  "has_prefix (join_with ''/'' (''..'' # w # ws)) ''../''"
  by (simp add: has_prefix_def)

lemma IsLocal_Clean:
  assumes "IsLocal (Clean p)"
  shows "Clean p = ''.'' \<or> (\<forall>w\<in>set (split_on slash (Clean p)). plain_part w)"
proof -
  have rel: "\<not> IsAbs p" using assms IsAbs_Clean [of p] by (auto simp: IsLocal_def)
  let ?ws = "clean_parts False (split_on slash p)"
  have clean: "Clean p = (let body = join_with ''/'' ?ws in if body = [] then ''.'' else body)"
    using rel by (simp add: Clean_def Let_def)
  obtain k names where ws: "?ws = replicate k ''..'' @ names" "\<forall>w\<in>set names. plain_part w"
    using clean_parts_normal [of False p] by (auto simp: normal_parts_def)
  have "k = 0 \<or> ?ws = []"
  proof (rule ccontr)
    assume "\<not> (k = 0 \<or> ?ws = [])"
    then obtain rest where rest: "?ws = ''..'' # rest" using ws(1) by (cases k) auto
    then have "''..'' \<in> set (split_on slash (Clean p))" using split_Clean [OF rel] by simp
    then have "\<not> (Clean p = ''..'' \<or> has_prefix (Clean p) ''../'')"
      using assms Clean_relative_idem [OF rel] by (auto simp: IsLocal_def Let_def split: if_splits)
    moreover have "Clean p = join_with ''/'' (''..'' # rest)"
      using clean rest by (cases rest) (auto simp: Let_def)
    ultimately show False using has_prefix_join by (cases rest) auto
  qed
  then show ?thesis
  proof
    assume "k = 0"
    then show ?thesis using ws split_Clean [OF rel] clean by (auto simp: Let_def split: if_splits)
  qed (use clean in simp)
qed

end
