(* ===== verification/Path_Filter.thy ===== *)
theory Path_Filter
  imports Go_Path
begin

text \<open>
  The watch policy of the development loop (\<open>src/internal/devloop/filter.go\<close>): validated
  include and exclude patterns with \<open>**\<close> segments, the files that are relevant and the
  directories that are skipped.
\<close>

definition defaultExcludedDirectories :: "string list" where
  "defaultExcludedDirectories =
     [''.cache'', ''.git'', ''.idea'', ''.tools'', ''.vscode'', ''bin'', ''dist'',
      ''node_modules'', ''vendor'']"

definition defaultRelevantExtensions :: "string list" where
  "defaultRelevantExtensions =
     [''.go'', ''.html'', ''.json'', ''.sql'', ''.tmpl'', ''.toml'', ''.tpl'', ''.yaml'', ''.yml'']"

record path_rules =
  Include :: "string list"
  Exclude :: "string list"

record path_filter =
  filter_includes :: "string list"
  filter_excludes :: "string list"

text \<open>\<open>strings.ReplaceAll(s, "**", "*")\<close>: the occurrences found from the left.\<close>

fun replace_stars :: "string \<Rightarrow> string" where
  "replace_stars (c # d # s) =
     (if c = CHR ''*'' \<and> d = CHR ''*'' then CHR ''*'' # replace_stars s
      else c # replace_stars (d # s))"
| "replace_stars s = s"

fun validated :: "unicode_tables \<Rightarrow> string list \<Rightarrow> string list go_result" where
  "validated U [] = Inr []"
| "validated U (pattern # patterns) =
     (let normalized = Clean pattern
      in if pattern = [] \<or> normalized = ''.'' \<or> \<not> IsLocal normalized
         then Inl (''path pattern '' @ quote U pattern @ '' must be workspace-relative'')
         else if path_match (replace_stars normalized) ''probe'' = None
         then Inl (''invalid path pattern '' @ quote U pattern @ '': syntax error in pattern'')
         else case validated U patterns of
                Inl e \<Rightarrow> Inl e
              | Inr result \<Rightarrow> Inr (normalized # result))"

definition validatePatterns :: "unicode_tables \<Rightarrow> string list \<Rightarrow> string list go_result" where
  "validatePatterns U patterns =
     (case validated U patterns of
        Inl e \<Rightarrow> Inl e
      | Inr result \<Rightarrow> Inr (compact (sort_strings result)))"

definition NewPathFilter :: "unicode_tables \<Rightarrow> path_rules \<Rightarrow> path_filter go_result" where
  "NewPathFilter U rules =
     (case validatePatterns U (Include rules) of
        Inl e \<Rightarrow> Inl (''validate development include rules: '' @ e)
      | Inr incl \<Rightarrow>
          (case validatePatterns U (Exclude rules) of
             Inl e \<Rightarrow> Inl (''validate development exclude rules: '' @ e)
           | Inr excl \<Rightarrow> Inr \<lparr>filter_includes = incl, filter_excludes = excl\<rparr>))"

function matchPathSegments :: "string list \<Rightarrow> string list \<Rightarrow> bool" where
  "matchPathSegments [] segments = (segments = [])"
| "matchPathSegments (p # pattern) segments =
     (if p = ''**''
      then matchPathSegments pattern segments \<or>
           (if segments \<noteq> [] then matchPathSegments (p # pattern) (tl segments) else False)
      else if segments = [] then False
      else path_match p (hd segments) = Some True \<and> matchPathSegments pattern (tl segments))"
  by pat_completeness auto
termination
  by (relation "measures [\<lambda>(p, v). length p, \<lambda>(p, v). length v]") auto

declare matchPathSegments.simps(2) [simp del]

lemma match_stars:
  "matchPathSegments (''**'' # pattern) segments \<longleftrightarrow>
     matchPathSegments pattern segments \<or>
     (segments \<noteq> [] \<and> matchPathSegments (''**'' # pattern) (tl segments))"
  by (subst matchPathSegments.simps(2)) simp

lemma match_one:
  "p \<noteq> ''**'' \<Longrightarrow> matchPathSegments (p # pattern) segments \<longleftrightarrow>
     segments \<noteq> [] \<and> path_match p (hd segments) = Some True \<and> matchPathSegments pattern (tl segments)"
  by (subst matchPathSegments.simps(2)) simp

definition matchPath :: "string \<Rightarrow> string \<Rightarrow> bool" where
  "matchPath pattern filePath = matchPathSegments (split_on slash pattern) (split_on slash filePath)"

definition excluded :: "path_filter \<Rightarrow> string \<Rightarrow> bool" where
  "excluded f filePath = list_ex (\<lambda>pattern. matchPath pattern filePath) (filter_excludes f)"

definition normalizeRelativePath :: "string \<Rightarrow> string go_result" where
  "normalizeRelativePath filePath =
     (let normalized = Clean filePath
      in if normalized = ''.'' then Inr normalized
         else if \<not> IsLocal normalized
         then Inl ''development path must remain inside the workspace''
         else Inr normalized)"

definition temporaryEditorPath :: "string \<Rightarrow> bool" where
  "temporaryEditorPath filePath =
     (let base = path_base filePath
      in has_prefix base ''.#'' \<or> (has_prefix base ''#'' \<and> has_suffix base ''#'') \<or>
         has_suffix base ''~'' \<or> has_suffix base ''.swp'' \<or> has_suffix base ''.swo'' \<or>
         has_suffix base ''.tmp'' \<or> has_suffix base ''.temp'')"

definition defaultGeneratedPath :: "string \<Rightarrow> bool" where
  "defaultGeneratedPath filePath =
     (let base = path_base filePath
      in has_suffix base ''_spice_gen.go'' \<or>
         (has_prefix base ''spice_'' \<and> has_suffix base ''_gen.go'') \<or>
         base = ''zz_spice_bridge_gen.go'' \<or> base = ''openapi.json'' \<or>
         (has_prefix filePath ''.spice/'' \<and> has_suffix base ''.manifest.json''))"

definition Match :: "path_filter \<Rightarrow> string \<Rightarrow> bool" where
  "Match f filePath =
     (case normalizeRelativePath filePath of
        Inl _ \<Rightarrow> False
      | Inr normalized \<Rightarrow>
          if excluded f normalized \<or> temporaryEditorPath normalized then False
          else if defaultGeneratedPath normalized then False
          else if list_ex (\<lambda>pattern. matchPath pattern normalized) (filter_includes f) then True
          else let base = path_base normalized
               in if base \<in> {''go.mod'', ''go.sum'', ''go.work'', ''go.work.sum''} then True
                  else path_ext base \<in> set defaultRelevantExtensions)"

definition SkipDirectory :: "path_filter \<Rightarrow> string \<Rightarrow> bool" where
  "SkipDirectory f directoryPath =
     (case normalizeRelativePath directoryPath of
        Inl _ \<Rightarrow> True
      | Inr normalized \<Rightarrow>
          if normalized = ''.'' then False
          else if list_ex (\<lambda>segment. segment \<in> set defaultExcludedDirectories)
                    (split_on slash normalized) then True
          else if normalized = ''.spice/build'' \<or> normalized = ''.spice/dev'' \<or>
                  has_prefix normalized ''.spice/build/'' \<or> has_prefix normalized ''.spice/dev/'' \<or>
                  normalized = ''internal/spicegen'' \<or> has_prefix normalized ''internal/spicegen/''
          then True
          else excluded f normalized \<or> excluded f (normalized @ ''/placeholder''))"

section \<open>What a pattern means\<close>

text \<open>
  The reference for \<open>**\<close>: a pattern matches when the segments can be cut into one block per
  pattern segment, a \<open>**\<close> taking any block and any other segment exactly one segment that
  \<open>path.Match\<close> accepts.
\<close>

definition takes_block :: "string \<Rightarrow> string list \<Rightarrow> bool" where
  "takes_block p block =
     (p = ''**'' \<or> (\<exists>s. block = [s] \<and> path_match p s = Some True))"

definition matches_blocks :: "string list \<Rightarrow> string list \<Rightarrow> bool" where
  "matches_blocks pattern segments =
     (\<exists>blocks. concat blocks = segments \<and> list_all2 takes_block pattern blocks)"

lemma matches_blocks_Nil: "matches_blocks [] segments \<longleftrightarrow> segments = []"
  by (auto simp: matches_blocks_def)

lemma matches_blocks_Cons:
  "matches_blocks (p # pattern) segments \<longleftrightarrow>
     (\<exists>b rest. segments = b @ rest \<and> takes_block p b \<and> matches_blocks pattern rest)"
  unfolding matches_blocks_def
proof safe
  fix blocks
  assume "list_all2 takes_block (p # pattern) blocks"
  then obtain b bs where "blocks = b # bs" "takes_block p b" "list_all2 takes_block pattern bs"
    by (auto simp: list_all2_Cons1)
  then show "\<exists>b rest. concat blocks = b @ rest \<and> takes_block p b \<and>
      (\<exists>blocks. concat blocks = rest \<and> list_all2 takes_block pattern blocks)"
    by (intro exI [of _ b] exI [of _ "concat bs"]) auto
next
  fix b blocks
  assume "takes_block p b" "list_all2 takes_block pattern blocks"
  then show "\<exists>blocks'. concat blocks' = b @ concat blocks \<and>
      list_all2 takes_block (p # pattern) blocks'"
    by (intro exI [of _ "b # blocks"]) auto
qed

lemma matches_blocks_stars:
  "matches_blocks (''**'' # pattern) segments \<longleftrightarrow>
     matches_blocks pattern segments \<or>
     (segments \<noteq> [] \<and> matches_blocks (''**'' # pattern) (tl segments))"
proof -
  have "(\<exists>b rest. segments = b @ rest \<and> P rest) \<longleftrightarrow>
      P segments \<or> (segments \<noteq> [] \<and> (\<exists>b rest. tl segments = b @ rest \<and> P rest))"
    for P :: "string list \<Rightarrow> bool"
    by (cases segments) (auto simp: Cons_eq_append_conv)
  then show ?thesis by (simp add: matches_blocks_Cons takes_block_def)
qed

lemma matches_blocks_one:
  "p \<noteq> ''**'' \<Longrightarrow> matches_blocks (p # pattern) segments \<longleftrightarrow>
     segments \<noteq> [] \<and> path_match p (hd segments) = Some True \<and> matches_blocks pattern (tl segments)"
proof -
  assume "p \<noteq> ''**''"
  then have "matches_blocks (p # pattern) segments \<longleftrightarrow>
      (\<exists>s rest. segments = [s] @ rest \<and> path_match p s = Some True \<and> matches_blocks pattern rest)"
    unfolding matches_blocks_Cons takes_block_def by blast
  then show ?thesis by (cases segments) auto
qed

lemma matchPathSegments_blocks:
  "matchPathSegments pattern segments \<longleftrightarrow> matches_blocks pattern segments"
proof (induction pattern segments rule: matchPathSegments.induct)
  case (2 p pattern segments)
  then show ?case
  proof (cases "p = ''**''")
    case True
    then show ?thesis
      using 2 matches_blocks_stars [of pattern segments] match_stars [of pattern segments] by metis
  next
    case False
    then show ?thesis
      using 2 matches_blocks_one [of p pattern segments] match_one [of p pattern segments] by metis
  qed
qed (simp add: matches_blocks_Nil)


section \<open>Validated patterns\<close>

definition pattern_ok :: "string \<Rightarrow> bool" where
  "pattern_ok pattern =
     (pattern \<noteq> [] \<and> Clean pattern \<noteq> ''.'' \<and> IsLocal (Clean pattern) \<and>
      path_match (replace_stars (Clean pattern)) ''probe'' \<noteq> None)"

lemma validated_iff:
  "validated U patterns = Inr result \<longleftrightarrow> list_all pattern_ok patterns \<and> result = map Clean patterns"
proof (induction patterns arbitrary: result)
  case (Cons pattern patterns)
  then show ?case
    by (cases "validated U patterns") (auto simp: pattern_ok_def Let_def)
qed auto

definition listing_of :: "string set \<Rightarrow> string list \<Rightarrow> bool" where
  "listing_of S xs = (sorted_wrt (<) xs \<and> set xs = S)"

lemma listing_of_unique: "listing_of S xs \<Longrightarrow> listing_of S ys \<Longrightarrow> xs = ys"
  by (auto simp: listing_of_def strict_sorted_equal)

lemma strict_sorted_compact: "sorted xs \<Longrightarrow> sorted_wrt (<) (compact xs)"
  for xs :: "'a :: linorder list"
proof (induction xs rule: compact.induct)
  case (1 x y xs)
  then show ?case
  proof (cases "x = y")
    case False
    have "x < z" if "z \<in> set (y # xs)" for z
      using "1.prems" False that by auto
    then have "\<forall>z\<in>set (compact (y # xs)). x < z" by (simp only: set_compact) blast
    then show ?thesis using 1 False by simp
  qed simp
qed auto

lemma listing_compact_sort: "listing_of (set xs) (compact (sort_strings xs))"
proof -
  have "sorted (sort_strings xs)"
    using string_order.sorted_sort_by [of xs] by (simp add: string_order.sorted_by_key)
  then show ?thesis by (simp add: listing_of_def strict_sorted_compact)
qed

lemma validatePatterns_iff:
  "validatePatterns U patterns = Inr result \<longleftrightarrow>
     list_all pattern_ok patterns \<and> listing_of (Clean ` set patterns) result"
proof -
  have "result = compact (sort_strings (map Clean patterns)) \<longleftrightarrow>
      listing_of (Clean ` set patterns) result"
    using listing_compact_sort [of "map Clean patterns"] listing_of_unique by auto
  moreover have "validatePatterns U patterns = Inr result \<longleftrightarrow>
      list_all pattern_ok patterns \<and> result = compact (sort_strings (map Clean patterns))"
  proof (cases "validated U patterns")
    case (Inl e)
    then show ?thesis
      using validated_iff [of U patterns "map Clean patterns"] by (simp add: validatePatterns_def)
  next
    case (Inr r)
    then show ?thesis
      using validated_iff [of U patterns r] by (auto simp: validatePatterns_def)
  qed
  ultimately show ?thesis by simp
qed

section \<open>Recursive exclusions\<close>








section \<open>Properties\<close>

text \<open>
  C28. The recursive matcher of patterns with \<open>**\<close> decides the declarative reading: a path
  matches exactly when its segments can be cut into one block per pattern segment, \<open>**\<close>
  taking any number of segments and every other one exactly one that \<open>path.Match\<close> accepts.
\<close>
theorem matchPath_blocks:
  "matchPath pattern filePath \<longleftrightarrow>
     (\<exists>blocks. concat blocks = split_on slash filePath \<and>
        list_all2 takes_block (split_on slash pattern) blocks)"
  by (simp add: matchPath_def matchPathSegments_blocks matches_blocks_def)

text \<open>
  C29. \<open>NewPathFilter\<close> accepts a rule set exactly when every pattern is nonempty, stays inside
  the workspace after cleaning and is well formed, and then holds the cleaned patterns without
  repetition in increasing order, whatever order they were given in.
\<close>
theorem NewPathFilter_iff:
  "NewPathFilter U rules = Inr f \<longleftrightarrow>
     list_all pattern_ok (Include rules) \<and> list_all pattern_ok (Exclude rules) \<and>
     listing_of (Clean ` set (Include rules)) (filter_includes f) \<and>
     listing_of (Clean ` set (Exclude rules)) (filter_excludes f)"
proof -
  have "Inr \<lparr>filter_includes = xs, filter_excludes = es\<rparr> = (Inr f :: path_filter go_result) \<longleftrightarrow>
      xs = filter_includes f \<and> es = filter_excludes f" for xs es
    by (cases f) auto
  then have "NewPathFilter U rules = Inr f \<longleftrightarrow>
      validatePatterns U (Include rules) = Inr (filter_includes f) \<and>
      validatePatterns U (Exclude rules) = Inr (filter_excludes f)"
    by (simp add: NewPathFilter_def split: sum.splits)
  then show ?thesis by (simp add: validatePatterns_iff conj_ac)
qed

text \<open>
  Every path the filter lets through names a file inside the workspace: its cleaned form
  is the workspace itself or a chain of plain names with no parent step, no exclude pattern
  matches it, and it is neither an editor's temporary file nor generated output; and cleaning
  a relative path first does not change the verdict.
\<close>
theorem Match_inside_workspace:
  assumes "Match f filePath"
  shows "(Clean filePath = ''.'' \<or> list_all plain_part (split_on slash (Clean filePath))) \<and>
    \<not> excluded f (Clean filePath) \<and> \<not> temporaryEditorPath (Clean filePath) \<and>
    \<not> defaultGeneratedPath (Clean filePath) \<and> Match f (Clean filePath)"
proof -
  have n: "normalizeRelativePath filePath = Inr (Clean filePath)"
    using assms by (auto simp: Match_def normalizeRelativePath_def Let_def split: if_splits)
  have rel: "\<not> IsAbs filePath"
  proof
    assume "IsAbs filePath"
    then have "IsAbs (Clean filePath)" by simp
    then show False using n by (auto simp: normalizeRelativePath_def IsLocal_def IsAbs_def Let_def
        split: if_splits)
  qed
  then have "normalizeRelativePath (Clean filePath) = Inr (Clean filePath)"
    using n Clean_relative_idem [OF rel] by (simp add: normalizeRelativePath_def Let_def)
  then have "Match f (Clean filePath)" using assms n by (simp add: Match_def)
  moreover have "Clean filePath = ''.'' \<or> list_all plain_part (split_on slash (Clean filePath))"
    using n IsLocal_Clean [of filePath]
    by (auto simp: normalizeRelativePath_def Let_def list_all_iff split: if_splits)
  ultimately show ?thesis
    using assms n by (auto simp: Match_def split: if_splits)
qed

definition sample_filter :: path_filter where
  "sample_filter = \<lparr>filter_includes = [''assets/**''], filter_excludes = [''**/ignored/**'']\<rparr>"

theorem Match_inside_workspace_witness:
  "Match sample_filter ''./assets//logo.bin'' \<and>
   list_all plain_part (split_on slash (Clean ''./assets//logo.bin''))"
proof -
  have "Match sample_filter ''./assets//logo.bin''" by code_simp
  moreover have "Clean ''./assets//logo.bin'' \<noteq> ''.''" by code_simp
  ultimately show ?thesis
    using Match_inside_workspace [of sample_filter "''./assets//logo.bin''"] by blast
qed








text \<open>
  C36. For patterns that are not recursive the probe is wrong: with the accepted exclude rule
  \<open>docs/*\<close> the filter calls \<open>docs/api/schema.json\<close> relevant, and yet its directory \<open>docs\<close>
  is skipped with everything below it, so a change of that file is never seen; and the rule
  \<open>web/place*\<close> has \<open>web\<close> skipped although \<open>web/main.go\<close> is relevant.
\<close>
theorem SkipDirectory_hides_relevant_file:
  "\<exists>f. NewPathFilter latin_only \<lparr>Include = [], Exclude = [''docs/*'', ''web/place*'']\<rparr> = Inr f \<and>
     SkipDirectory f ''docs'' \<and> Match f ''docs/api/schema.json'' \<and>
     SkipDirectory f ''web'' \<and> Match f ''web/main.go''"
proof -
  let ?f = "\<lparr>filter_includes = [], filter_excludes = [''docs/*'', ''web/place*'']\<rparr>"
  have "NewPathFilter latin_only \<lparr>Include = [], Exclude = [''docs/*'', ''web/place*'']\<rparr> = Inr ?f"
    by code_simp
  moreover have "SkipDirectory ?f ''docs''" by code_simp
  moreover have "Match ?f ''docs/api/schema.json''" by code_simp
  moreover have "SkipDirectory ?f ''web''" by code_simp
  moreover have "Match ?f ''web/main.go''" by code_simp
  ultimately show ?thesis by blast
qed

end
