(* ===== verification/Go_Error.thy ===== *)
theory Go_Error
  imports Prelude
begin

text \<open>
  Go errors that are inspected with \<open>errors.Is\<close>: the text an error prints and the sentinel
  values its chain wraps.  A Go \<open>error\<close> variable is an option, \<open>None\<close> being \<open>nil\<close>.
\<close>

datatype sentinel =
    Canceled            \<comment> \<open>\<open>context.Canceled\<close>\<close>
  | DeadlineExceeded    \<comment> \<open>\<open>context.DeadlineExceeded\<close>\<close>
  | ErrGracefulStopTimeout
  | ErrWatcherClosed
  | ErrNotExist         \<comment> \<open>\<open>fs.ErrNotExist\<close>\<close>
  | ErrExist            \<comment> \<open>\<open>fs.ErrExist\<close>\<close>

record go_error =
  error_text :: string
  error_chain :: "sentinel list"

definition errors_New :: "string \<Rightarrow> go_error" where
  "errors_New text = \<lparr>error_text = text, error_chain = []\<rparr>"

definition sentinel_error :: "sentinel \<Rightarrow> string \<Rightarrow> go_error" where
  "sentinel_error s text = \<lparr>error_text = text, error_chain = [s]\<rparr>"

text \<open>\<open>fmt.Errorf("...: %w", err)\<close>.\<close>

definition wrap_error :: "string \<Rightarrow> go_error \<Rightarrow> go_error" where
  "wrap_error prefix e = e\<lparr>error_text := prefix @ error_text e\<rparr>"

text \<open>\<open>errors.Is\<close> on a possibly nil error.\<close>

definition errors_Is :: "go_error option \<Rightarrow> sentinel \<Rightarrow> bool" where
  "errors_Is e s = (case e of None \<Rightarrow> False | Some e \<Rightarrow> s \<in> set (error_chain e))"

text \<open>\<open>errors.Join\<close>: nil errors are dropped, nil when nothing is left.\<close>

definition errors_Join :: "go_error option list \<Rightarrow> go_error option" where
  "errors_Join es =
     (let present = concat (map (\<lambda>e. case e of None \<Rightarrow> [] | Some e \<Rightarrow> [e]) es)
      in if present = [] then None
         else Some \<lparr>error_text = join_with [CHR 0x0A] (map error_text present),
                    error_chain = concat (map error_chain present)\<rparr>)"

lemma errors_Is_None [simp]: "\<not> errors_Is None s"
  by (simp add: errors_Is_def)

lemma errors_Is_Some [simp]: "errors_Is (Some e) s \<longleftrightarrow> s \<in> set (error_chain e)"
  by (simp add: errors_Is_def)

lemma errors_Is_New [simp]: "\<not> errors_Is (Some (errors_New text)) s"
  by (simp add: errors_New_def)

lemma errors_Is_wrap [simp]: "errors_Is (Some (wrap_error prefix e)) s = errors_Is (Some e) s"
  by (simp add: wrap_error_def)

lemma errors_Is_Join [simp]: "errors_Is (errors_Join es) s \<longleftrightarrow> (\<exists>e\<in>set es. errors_Is e s)"
proof -
  let ?present = "concat (map (\<lambda>e. case e of None \<Rightarrow> [] | Some e \<Rightarrow> [e]) es)"
  have "(\<exists>e\<in>set es. errors_Is e s) \<longleftrightarrow> (\<exists>e\<in>set ?present. s \<in> set (error_chain e))"
    by (induction es) (auto simp: errors_Is_def split: option.splits)
  then show ?thesis by (auto simp: errors_Join_def Let_def)
qed

lemma errors_Join_None_iff [simp]: "errors_Join es = None \<longleftrightarrow> (\<forall>e\<in>set es. e = None)"
  by (auto simp: errors_Join_def Let_def split: option.splits)

end
