(* ===== verification/Polling.thy ===== *)
theory Polling
  imports Debounce Path_Filter Go_Error
begin

text \<open>
  The polling watcher (\<open>src/internal/devloop/polling.go\<close>): the bounded scan of the
  workspace, the stamp of a file, the comparison of two scans and one round of the polling
  loop.  The workspace is the tree \<open>fs.WalkDir\<close> finds during a scan; a leaf carries what
  opening it gives.  SHA-256 is a parameter.
\<close>

section \<open>The workspace\<close>

record opened_file =
  file_mode :: "32 word"
  file_size :: int
  file_content :: "string go_result"     \<comment> \<open>what \<open>io.Copy\<close> reads, or its error\<close>

datatype tree =
    Leaf "opened_file go_result"
  | Dir "(string \<times> tree) list"            \<comment> \<open>the entries in the order of \<open>ReadDir\<close>\<close>
  | Unreadable string                     \<comment> \<open>a directory that \<open>ReadDir\<close> cannot read\<close>

record file_stamp =
  mode :: "32 word"
  stamp_size :: int
  digest :: string

type_synonym snapshot = "(string \<times> file_stamp) list"

definition ModeType :: "32 word" where
  "ModeType = 0x8F280000"

definition IsRegular :: "32 word \<Rightarrow> bool" where
  "IsRegular m = (and m ModeType = 0)"

definition stampFile :: "(string \<Rightarrow> string) \<Rightarrow> opened_file go_result \<Rightarrow> file_stamp go_result" where
  "stampFile sha256 opn =
     (case opn of
        Inl e \<Rightarrow> Inl e
      | Inr info \<Rightarrow>
          if \<not> IsRegular (file_mode info) then Inl ''watched path must be a regular file''
          else case file_content info of
                 Inl e \<Rightarrow> Inl e
               | Inr content \<Rightarrow>
                   Inr \<lparr>mode = file_mode info, stamp_size = file_size info,
                        digest = sha256 content\<rparr>)"

section \<open>Scanning\<close>

text \<open>\<open>ctx\<close> is what \<open>ctx.Err()\<close> returns when the walk visits a path.\<close>

type_synonym context_errors = "string \<Rightarrow> go_error option"

definition child_path :: "string \<Rightarrow> string \<Rightarrow> string" where
  "child_path parent name = (if parent = ''.'' then name else parent @ slash # name)"

definition visit_file ::
    "(string \<Rightarrow> string) \<Rightarrow> path_filter \<Rightarrow> int \<Rightarrow> string \<Rightarrow> opened_file go_result \<Rightarrow> snapshot
       \<Rightarrow> go_error + snapshot" where
  "visit_file sha256 f maximum filePath opn snap =
     (if \<not> Match f filePath then Inr snap
      else if maximum \<le> int (length snap)
      then Inl (errors_New (''polling watcher relevant file count exceeds '' @ show_int maximum))
      else case stampFile sha256 opn of
             Inl e \<Rightarrow> Inl (errors_New (''hash watched file '' @ filePath @ '': '' @ e))
           | Inr stamp \<Rightarrow> Inr (AList.update filePath stamp snap))"

fun walk_tree ::
    "(string \<Rightarrow> string) \<Rightarrow> context_errors \<Rightarrow> path_filter \<Rightarrow> int \<Rightarrow> string \<Rightarrow> tree \<Rightarrow> snapshot
       \<Rightarrow> go_error + snapshot"
  and walk_entries ::
    "(string \<Rightarrow> string) \<Rightarrow> context_errors \<Rightarrow> path_filter \<Rightarrow> int \<Rightarrow> string \<Rightarrow> (string \<times> tree) list
       \<Rightarrow> snapshot \<Rightarrow> go_error + snapshot" where
  "walk_tree sha256 ctx f maximum p t snap =
     (case ctx p of
        Some e \<Rightarrow> Inl e
      | None \<Rightarrow>
          (case t of
             Leaf opn \<Rightarrow> visit_file sha256 f maximum p opn snap
           | Dir entries \<Rightarrow>
               if p \<noteq> ''.'' \<and> SkipDirectory f p then Inr snap
               else walk_entries sha256 ctx f maximum p entries snap
           | Unreadable e \<Rightarrow>
               if p \<noteq> ''.'' \<and> SkipDirectory f p then Inr snap else Inl (errors_New e)))"
| "walk_entries sha256 ctx f maximum p [] snap = Inr snap"
| "walk_entries sha256 ctx f maximum p ((name, t) # entries) snap =
     (case walk_tree sha256 ctx f maximum (child_path p name) t snap of
        Inl e \<Rightarrow> Inl e
      | Inr snap \<Rightarrow> walk_entries sha256 ctx f maximum p entries snap)"

definition scanWorkspace ::
    "(string \<Rightarrow> string) \<Rightarrow> context_errors \<Rightarrow> go_error option \<Rightarrow> go_error option \<Rightarrow> tree \<Rightarrow> path_filter
       \<Rightarrow> int \<Rightarrow> go_error + snapshot" where
  "scanWorkspace sha256 ctx openErr closeErr root f maximum =
     (case openErr of
        Some e \<Rightarrow> Inl (wrap_error ''open polling watcher root: '' e)
      | None \<Rightarrow>
          let result = walk_tree sha256 ctx f maximum ''.'' root [];
              walkErr = (case result of
                           Inl e \<Rightarrow> Some (wrap_error ''scan polling watcher root: '' e)
                         | Inr _ \<Rightarrow> None)
          in (case errors_Join [walkErr, closeErr] of
                Some e \<Rightarrow> Inl e
              | None \<Rightarrow> result))"

section \<open>Comparing two scans\<close>

definition change_between :: "snapshot \<Rightarrow> snapshot \<Rightarrow> string \<Rightarrow> change_kind option" where
  "change_between previous current filePath =
     (case (map_of previous filePath, map_of current filePath) of
        (None, Some _) \<Rightarrow> Some ChangeCreate
      | (Some _, None) \<Rightarrow> Some ChangeRemove
      | (before, after) \<Rightarrow> if before \<noteq> after then Some ChangeWrite else None)"

text \<open>
  Sending on the event channel: \<open>stop p\<close> holds when the context is done before the event for
  path \<open>p\<close> can be sent; \<open>emitChanges\<close> then returns false.
\<close>

fun send_changes ::
    "(string \<Rightarrow> bool) \<Rightarrow> snapshot \<Rightarrow> snapshot \<Rightarrow> string list \<Rightarrow> file_event list \<times> bool" where
  "send_changes stop previous current [] = ([], True)"
| "send_changes stop previous current (p # paths) =
     (case change_between previous current p of
        None \<Rightarrow> send_changes stop previous current paths
      | Some kind \<Rightarrow>
          if stop p then ([], False)
          else let (events, ok) = send_changes stop previous current paths
               in (\<lparr>Path = p, Kind = kind\<rparr> # events, ok))"

definition changed_paths :: "snapshot \<Rightarrow> snapshot \<Rightarrow> string list" where
  "changed_paths previous current =
     sort_strings (map fst previous @
       filter (\<lambda>p. map_of previous p = None) (map fst current))"

definition emitChanges ::
    "(string \<Rightarrow> bool) \<Rightarrow> snapshot \<Rightarrow> snapshot \<Rightarrow> file_event list \<times> bool" where
  "emitChanges stop previous current =
     send_changes stop previous current (changed_paths previous current)"

section \<open>The polling loop\<close>

record watcher =
  watch_events :: "file_event list"      \<comment> \<open>everything sent on the event channel\<close>
  watch_errors :: "go_error list"        \<comment> \<open>the error channel, capacity 1\<close>
  watch_closed :: bool
  watch_previous :: snapshot

text \<open>
  The send of \<open>reportError\<close> never blocks: the error is dropped when the channel is full, or when
  the select takes the case of the done context.
\<close>

definition reportError :: "bool \<Rightarrow> go_error \<Rightarrow> watcher \<Rightarrow> watcher" where
  "reportError took_done e w =
     (if watch_errors w = [] \<and> \<not> took_done then w\<lparr>watch_errors := [e]\<rparr> else w)"

text \<open>One expiry of the poll timer, given the outcome of the scan.\<close>

definition poll_tick :: "(string \<Rightarrow> bool) \<Rightarrow> bool \<Rightarrow> go_error + snapshot \<Rightarrow> watcher \<Rightarrow> watcher" where
  "poll_tick stop took_done scan w =
     (case scan of
        Inl e \<Rightarrow> if errors_Is (Some e) Canceled then w else reportError took_done e w
      | Inr current \<Rightarrow>
          let (events, ok) = emitChanges stop (watch_previous w) current;
              w = w\<lparr>watch_events := watch_events w @ events\<rparr>
          in if \<not> ok then w\<lparr>watch_closed := True\<rparr> else w\<lparr>watch_previous := current\<rparr>)"

section \<open>Construction\<close>

definition defaultPollInterval :: int where "defaultPollInterval = 500 * 1000000"
definition defaultMaximumFiles :: int where "defaultMaximumFiles = 100000"

record polling_config =
  Root :: string
  Interval :: int
  Maximum :: int
  PathRules :: path_rules

text \<open>
  What the constructor asks of the operating system: \<open>filepath.Abs\<close>, \<open>os.Stat\<close> (whether the
  path is a directory) and the scan of the workspace under a filter and a bound.
\<close>

record polling_host =
  host_abs :: "string \<Rightarrow> go_error + string"
  host_stat :: "string \<Rightarrow> go_error + bool"
  host_scan :: "string \<Rightarrow> path_filter \<Rightarrow> int \<Rightarrow> go_error + snapshot"

record polling_loop =
  loop_root :: string
  loop_filter :: path_filter
  loop_maximum :: int
  loop_interval :: int

definition NewPollingWatcher ::
    "unicode_tables \<Rightarrow> polling_host \<Rightarrow> bool \<Rightarrow> polling_config \<Rightarrow> go_error + watcher \<times> polling_loop" where
  "NewPollingWatcher U host ctx_nil config =
     (if ctx_nil then Inl (errors_New ''polling watcher context must not be nil'')
      else if Root config = [] then Inl (errors_New ''polling watcher root must not be empty'')
      else case host_abs host (Root config) of
        Inl e \<Rightarrow> Inl (wrap_error ''resolve polling watcher root: '' e)
      | Inr root \<Rightarrow>
          (case host_stat host root of
             Inl e \<Rightarrow> Inl (wrap_error ''inspect polling watcher root: '' e)
           | Inr is_dir \<Rightarrow>
               if \<not> is_dir then Inl (errors_New ''polling watcher root must be a directory'')
               else
                 let interval = (if Interval config = 0 then defaultPollInterval else Interval config)
                 in if interval \<le> 0
                    then Inl (errors_New ''polling watcher interval must be positive'')
                    else
                      let maximum = (if Maximum config = 0 then defaultMaximumFiles
                                     else Maximum config)
                      in if maximum \<le> 0
                         then Inl (errors_New ''polling watcher maximum file count must be positive'')
                         else case NewPathFilter U (PathRules config) of
                           Inl e \<Rightarrow> Inl (errors_New e)
                         | Inr f \<Rightarrow>
                             (case host_scan host root f maximum of
                                Inl e \<Rightarrow> Inl e
                              | Inr baseline \<Rightarrow>
                                  Inr (\<lparr>watch_events = [], watch_errors = [], watch_closed = False,
                                        watch_previous = baseline\<rparr>,
                                       \<lparr>loop_root = root, loop_filter = f, loop_maximum = maximum,
                                        loop_interval = interval\<rparr>))))"

section \<open>What a scan sees\<close>

fun node_at :: "tree \<Rightarrow> string list \<Rightarrow> tree option" where
  "node_at t [] = Some t"
| "node_at (Dir entries) (w # ws) =
     (case map_of entries w of None \<Rightarrow> None | Some t \<Rightarrow> node_at t ws)"
| "node_at _ (w # ws) = None"

definition path_of :: "string list \<Rightarrow> string" where
  "path_of ws = (if ws = [] then ''.'' else join_with ''/'' ws)"

text \<open>Directory entries have plain names, each once.\<close>

fun tree_ok :: "tree \<Rightarrow> bool" where
  "tree_ok (Dir entries) =
     (distinct (map fst entries) \<and> (\<forall>(name, t)\<in>set entries. plain_part name \<and> tree_ok t))"
| "tree_ok _ = True"

text \<open>A file is visible when the walk descends into every directory above it.\<close>

definition visible_at :: "path_filter \<Rightarrow> tree \<Rightarrow> string list \<Rightarrow> opened_file go_result \<Rightarrow> bool" where
  "visible_at f root ws opn =
     (node_at root ws = Some (Leaf opn) \<and>
      (\<forall>i. 0 < i \<and> i < length ws \<longrightarrow> \<not> SkipDirectory f (path_of (take i ws))))"

lemma path_of_Nil: "path_of [] = ''.''"
  by (simp add: path_of_def)

lemma update_fresh: "k \<notin> fst ` set al \<Longrightarrow> AList.update k v al = al @ [(k, v)]"
  by (induction al) auto

lemma join_snoc: "ws \<noteq> [] \<Longrightarrow> join_with sep (ws @ [w]) = join_with sep ws @ sep @ w"
  by (induction sep ws rule: join_with.induct) auto

lemma split_path_of:
  assumes "list_all plain_part ws"
  shows "split_on slash (path_of ws) = (if ws = [] then [''.''] else ws)"
proof (cases "ws = []")
  case False
  have "split_on slash (join_with ''/'' ws) = ws"
    using False assms by (intro split_join) (auto simp: list_all_iff plain_part_def)
  then show ?thesis using False by (simp add: path_of_def)
qed (simp add: path_of_def)

lemma path_of_inject:
  assumes "list_all plain_part ws" "list_all plain_part vs" "path_of ws = path_of vs"
  shows "ws = vs"
proof -
  have "(if ws = [] then [''.''] else ws) = (if vs = [] then [''.''] else vs)"
    using split_path_of [OF assms(1)] split_path_of [OF assms(2)] assms(3) by simp
  moreover have "\<not> plain_part ''.''" by (simp add: plain_part_def)
  then have "ws \<noteq> [''.'']" "vs \<noteq> [''.'']" using assms(1,2) by auto
  ultimately show ?thesis by (cases "ws = []"; cases "vs = []") simp_all
qed

lemma child_path_of:
  assumes "list_all plain_part ws"
  shows "child_path (path_of ws) name = path_of (ws @ [name])"
proof (cases "ws = []")
  case False
  then have "path_of ws \<noteq> ''.''" using path_of_inject [OF assms, of "[]"] path_of_Nil by auto
  then show ?thesis using False by (simp add: child_path_def path_of_def join_snoc)
qed (simp add: child_path_def path_of_def)

fun visible_leaves :: "path_filter \<Rightarrow> string \<Rightarrow> tree \<Rightarrow> (string \<times> opened_file go_result) list" where
  "visible_leaves f p (Leaf opn) = [(p, opn)]"
| "visible_leaves f p (Dir entries) =
     (if p \<noteq> ''.'' \<and> SkipDirectory f p then []
      else concat (map (\<lambda>(name, t). visible_leaves f (child_path p name) t) entries))"
| "visible_leaves f p (Unreadable e) = []"

fun visit_all ::
    "(string \<Rightarrow> string) \<Rightarrow> path_filter \<Rightarrow> int \<Rightarrow> (string \<times> opened_file go_result) list \<Rightarrow> snapshot
       \<Rightarrow> go_error + snapshot" where
  "visit_all sha256 f maximum [] snap = Inr snap"
| "visit_all sha256 f maximum ((p, opn) # leaves) snap =
     (case visit_file sha256 f maximum p opn snap of
        Inl e \<Rightarrow> Inl e
      | Inr snap \<Rightarrow> visit_all sha256 f maximum leaves snap)"

lemma visit_all_append:
  "visit_all sha256 f maximum (xs @ ys) snap =
     (case visit_all sha256 f maximum xs snap of
        Inl e \<Rightarrow> Inl e
      | Inr snap \<Rightarrow> visit_all sha256 f maximum ys snap)"
  by (induction sha256 f maximum xs snap rule: visit_all.induct) (auto split: sum.splits)

lemma walk_visits:
  "walk_tree sha256 ctx f maximum p t snap = Inr snap' \<Longrightarrow>
     visit_all sha256 f maximum (visible_leaves f p t) snap = Inr snap'"
  "walk_entries sha256 ctx f maximum p entries snap = Inr snap' \<Longrightarrow>
     visit_all sha256 f maximum
       (concat (map (\<lambda>(name, t). visible_leaves f (child_path p name) t) entries)) snap = Inr snap'"
proof (induction sha256 ctx f maximum p t snap and sha256 ctx f maximum p entries snap
    arbitrary: snap' and snap' rule: walk_tree_walk_entries.induct)
  case (1 sha256 ctx f maximum p t snap)
  then show ?case by (cases t) (auto split: option.splits if_splits sum.splits)
next
  case (3 sha256 ctx f maximum p name t entries snap)
  then show ?case by (auto simp: visit_all_append split: sum.splits)
qed simp_all

lemma visit_all_appends:
  assumes "visit_all sha256 f maximum leaves snap = Inr snap'"
    and "distinct (map fst leaves)" "fst ` set leaves \<inter> fst ` set snap = {}"
    and "int (length snap) \<le> maximum"
  shows "\<exists>found. snap' = snap @ found \<and> int (length snap') \<le> maximum \<and>
    map fst found = map fst (filter (\<lambda>x. Match f (fst x)) leaves) \<and>
    (\<forall>(p, stamp)\<in>set found. \<exists>opn. (p, opn) \<in> set leaves \<and> stampFile sha256 opn = Inr stamp)"
  using assms
proof (induction leaves arbitrary: snap)
  case (Cons leaf leaves)
  obtain p opn where leaf: "leaf = (p, opn)" by (cases leaf)
  show ?case
  proof (cases "Match f p")
    case False
    have "visit_all sha256 f maximum leaves snap = Inr snap'"
      using Cons.prems(1) False leaf by (simp add: visit_file_def)
    then obtain found where "snap' = snap @ found" "int (length snap') \<le> maximum"
        "map fst found = map fst (filter (\<lambda>x. Match f (fst x)) leaves)"
        "\<forall>(p, stamp)\<in>set found. \<exists>opn. (p, opn) \<in> set leaves \<and> stampFile sha256 opn = Inr stamp"
      using Cons.IH [of snap] Cons.prems by auto
    then show ?thesis using False leaf by (intro exI [of _ found]) auto
  next
    case True
    then obtain stamp where room: "int (length snap) < maximum"
        and stamp: "stampFile sha256 opn = Inr stamp"
        and rest: "visit_all sha256 f maximum leaves (AList.update p stamp snap) = Inr snap'"
      using Cons.prems(1) leaf by (auto simp: visit_file_def split: if_splits sum.splits)
    have fresh: "p \<notin> fst ` set snap" using Cons.prems(3) leaf by auto
    then have upd: "AList.update p stamp snap = snap @ [(p, stamp)]"
      by (simp add: update_fresh)
    obtain found where "snap' = (snap @ [(p, stamp)]) @ found" "int (length snap') \<le> maximum"
        "map fst found = map fst (filter (\<lambda>x. Match f (fst x)) leaves)"
        "\<forall>(p, stamp)\<in>set found. \<exists>opn. (p, opn) \<in> set leaves \<and> stampFile sha256 opn = Inr stamp"
      using Cons.IH [of "snap @ [(p, stamp)]"] Cons.prems rest room leaf by (auto simp: upd)
    then show ?thesis
      using True leaf stamp by (intro exI [of _ "(p, stamp) # found"]) auto
  qed
qed simp

text \<open>The leaves the walk reaches, by their position in the tree.\<close>

definition descends :: "path_filter \<Rightarrow> string list \<Rightarrow> string list \<Rightarrow> bool" where
  "descends f pre ws =
     (\<forall>i < length ws. pre @ take i ws \<noteq> [] \<longrightarrow> \<not> SkipDirectory f (path_of (pre @ take i ws)))"

lemma descends_Nil [simp]: "descends f pre []"
  by (simp add: descends_def)

lemma descends_Cons:
  "descends f pre (w # ws) \<longleftrightarrow>
     (pre \<noteq> [] \<longrightarrow> \<not> SkipDirectory f (path_of pre)) \<and> descends f (pre @ [w]) ws"
  unfolding descends_def by (auto simp: less_Suc_eq_0_disj)

lemma path_of_dot: "list_all plain_part pre \<Longrightarrow> path_of pre = ''.'' \<longleftrightarrow> pre = []"
  using path_of_inject [of pre "[]"] path_of_Nil by auto

lemma visible_leaves_iff:
  "tree_ok t \<Longrightarrow> list_all plain_part pre \<Longrightarrow>
   (p, opn) \<in> set (visible_leaves f (path_of pre) t) \<longleftrightarrow>
     (\<exists>ws. list_all plain_part ws \<and> p = path_of (pre @ ws) \<and>
        node_at t ws = Some (Leaf opn) \<and> descends f pre ws)"
proof (induction t arbitrary: pre)
  case (Leaf opened)
  have "node_at (Leaf opened) ws = Some (Leaf opn) \<longleftrightarrow> ws = [] \<and> opn = opened" for ws
    by (cases ws) auto
  then show ?case by auto
next
  case (Unreadable e)
  have "node_at (Unreadable e) ws \<noteq> Some (Leaf opn)" for ws by (cases ws) auto
  then show ?case by simp
next
  case (Dir entries)
  have dist: "distinct (map fst entries)" using Dir.prems(1) by simp
  have entry: "plain_part name" "tree_ok t"
      "(p, opn) \<in> set (visible_leaves f (child_path (path_of pre) name) t) \<longleftrightarrow>
         (\<exists>ws. list_all plain_part ws \<and> p = path_of (pre @ name # ws) \<and>
            node_at t ws = Some (Leaf opn) \<and> descends f (pre @ [name]) ws)"
    if "(name, t) \<in> set entries" for name t
    using that Dir.prems Dir.IH [of "(name, t)" t "pre @ [name]"]
    by (auto simp: child_path_of)
  have "(p, opn) \<in> set (visible_leaves f (path_of pre) (Dir entries)) \<longleftrightarrow>
      (pre \<noteq> [] \<longrightarrow> \<not> SkipDirectory f (path_of pre)) \<and>
      (\<exists>name t. (name, t) \<in> set entries \<and>
         (p, opn) \<in> set (visible_leaves f (child_path (path_of pre) name) t))"
    using path_of_dot [OF Dir.prems(2)] by auto
  also have "\<dots> \<longleftrightarrow> (pre \<noteq> [] \<longrightarrow> \<not> SkipDirectory f (path_of pre)) \<and>
      (\<exists>name t ws. (name, t) \<in> set entries \<and> list_all plain_part ws \<and>
         p = path_of (pre @ name # ws) \<and>
         node_at t ws = Some (Leaf opn) \<and> descends f (pre @ [name]) ws)"
    using entry(3) by blast
  also have "\<dots> \<longleftrightarrow> (\<exists>name ws. plain_part name \<and> list_all plain_part ws \<and> p = path_of (pre @ name # ws) \<and>
      node_at (Dir entries) (name # ws) = Some (Leaf opn) \<and> descends f pre (name # ws))"
  proof -
    have "(name, t) \<in> set entries \<longleftrightarrow> map_of entries name = Some t" for name t
      using map_of_eq_Some_iff [OF dist] by simp
    moreover have "node_at (Dir entries) (name # ws) = Some (Leaf opn) \<longleftrightarrow>
        (\<exists>t. map_of entries name = Some t \<and> node_at t ws = Some (Leaf opn))" for name ws
      by (simp split: option.splits)
    ultimately show ?thesis using entry(1) unfolding descends_Cons by blast
  qed
  also have "\<dots> \<longleftrightarrow> (\<exists>ws. list_all plain_part ws \<and> p = path_of (pre @ ws) \<and>
      node_at (Dir entries) ws = Some (Leaf opn) \<and> descends f pre ws)"
  proof -
    have "node_at (Dir entries) [] \<noteq> Some (Leaf opn)" by simp
    then show ?thesis by (metis list.exhaust list.pred_inject(2))
  qed
  finally show ?case .
qed

lemma distinct_visible_leaves:
  "tree_ok t \<Longrightarrow> list_all plain_part pre \<Longrightarrow> distinct (map fst (visible_leaves f (path_of pre) t))"
proof (induction t arbitrary: pre)
  case (Dir entries)
  let ?sub = "\<lambda>(name, t). visible_leaves f (child_path (path_of pre) name) t"
  have sub: "distinct (map fst (?sub e))" if "e \<in> set entries" for e
    using that Dir.prems Dir.IH [of e "snd e" "pre @ [fst e]"]
    by (cases e) (auto simp: child_path_of)
  have below: "\<exists>ws. list_all plain_part ws \<and> p = path_of (pre @ fst e # ws)"
    if "e \<in> set entries" "p \<in> fst ` set (?sub e)" for e p
  proof -
    obtain name t where e: "e = (name, t)" by (cases e)
    then have ok: "plain_part name" "tree_ok t" using that(1) Dir.prems(1) by auto
    have "\<exists>opn. (p, opn) \<in> set (visible_leaves f (path_of (pre @ [name])) t)"
      using that(2) Dir.prems(2) by (auto simp: e child_path_of)
    then obtain opn where "(p, opn) \<in> set (visible_leaves f (path_of (pre @ [name])) t)" ..
    then show ?thesis
      using visible_leaves_iff [OF ok(2), of "pre @ [name]" p opn f] Dir.prems(2) ok(1)
      by (auto simp: e)
  qed
  have plain: "plain_part (fst e)" if "e \<in> set entries" for e
    using that Dir.prems by auto
  have disjoint: "fst ` set (?sub e) \<inter> fst ` set (?sub e') = {}"
    if e: "e \<in> set entries" "e' \<in> set entries" "fst e \<noteq> fst e'" for e e'
  proof -
    have "\<not> (p \<in> fst ` set (?sub e) \<and> p \<in> fst ` set (?sub e'))" for p
    proof
      assume "p \<in> fst ` set (?sub e) \<and> p \<in> fst ` set (?sub e')"
      then obtain ws vs where "list_all plain_part ws" "p = path_of (pre @ fst e # ws)"
          "list_all plain_part vs" "p = path_of (pre @ fst e' # vs)"
        using below e(1,2) by meson
      then have "pre @ fst e # ws = pre @ fst e' # vs"
        using Dir.prems(2) plain e by (intro path_of_inject) simp_all
      then show False using e(3) by simp
    qed
    then show ?thesis by blast
  qed
  have "distinct (map fst (concat (map ?sub es)))" if "set es \<subseteq> set entries" "distinct (map fst es)"
    for es
    using that
  proof (induction es)
    case (Cons e es)
    have "fst ` set (?sub e) \<inter> fst ` set (?sub e') = {}" if "e' \<in> set es" for e'
      using that Cons.prems disjoint [of e e'] by auto
    moreover have "fst ` set (concat (map ?sub es)) = (\<Union>e'\<in>set es. fst ` set (?sub e'))"
      by (simp only: set_concat set_map image_UN image_image)
    ultimately have "fst ` set (?sub e) \<inter> fst ` set (concat (map ?sub es)) = {}" by blast
    then show ?case using Cons sub [of e] by auto
  qed simp
  then show ?case using Dir.prems by simp
qed simp_all

lemma node_at_plain: "tree_ok t \<Longrightarrow> node_at t ws = Some u \<Longrightarrow> list_all plain_part ws"
proof (induction t ws rule: node_at.induct)
  case (2 entries w ws)
  then obtain t where t: "map_of entries w = Some t" "node_at t ws = Some u"
    by (auto split: option.splits)
  then have "(w, t) \<in> set entries" by (simp add: map_of_SomeD)
  then have "plain_part w" "tree_ok t" using "2.prems"(1) by auto
  then show ?case using "2.IH" [OF t(1) _ t(2)] by simp
qed simp_all

lemma visible_at_leaves:
  assumes "tree_ok root"
  shows "(p, opn) \<in> set (visible_leaves f ''.'' root) \<longleftrightarrow> (\<exists>ws. p = path_of ws \<and> visible_at f root ws opn)"
proof -
  have "descends f [] ws \<longleftrightarrow>
      (\<forall>i. 0 < i \<and> i < length ws \<longrightarrow> \<not> SkipDirectory f (path_of (take i ws)))" for ws
    unfolding descends_def by (auto simp: take_eq_Nil)
  then have "(p, opn) \<in> set (visible_leaves f ''.'' root) \<longleftrightarrow>
      (\<exists>ws. list_all plain_part ws \<and> p = path_of ws \<and> visible_at f root ws opn)"
    using visible_leaves_iff [OF assms, of "[]" p opn f] path_of_Nil
    by (simp add: visible_at_def)
  moreover have "list_all plain_part ws" if "visible_at f root ws opn" for ws
    using that node_at_plain [OF assms] by (simp add: visible_at_def)
  ultimately show ?thesis by blast
qed

lemma path_of_nonempty: "list_all plain_part ws \<Longrightarrow> path_of ws \<noteq> []"
  using split_path_of [of ws] by (cases ws) (auto simp: plain_part_def split: if_splits)

text \<open>The invariant of a snapshot: one stamp per path, and no empty path.\<close>

definition snapshot_ok :: "snapshot \<Rightarrow> bool" where
  "snapshot_ok snap = (distinct (map fst snap) \<and> [] \<notin> fst ` set snap)"

lemma scan_result:
  assumes "scanWorkspace sha256 ctx openErr closeErr root f maximum = Inr snap"
    and "tree_ok root" "0 \<le> maximum"
  shows "int (length snap) \<le> maximum" "snapshot_ok snap"
    and "map_of snap p = Some stamp \<longleftrightarrow>
      (\<exists>ws opn. p = path_of ws \<and> visible_at f root ws opn \<and> Match f p \<and>
         stampFile sha256 opn = Inr stamp)"
proof -
  let ?leaves = "visible_leaves f ''.'' root"
  have "walk_tree sha256 ctx f maximum ''.'' root [] = Inr snap"
    using assms(1)
    by (auto simp: scanWorkspace_def Let_def split: option.splits sum.splits simp del: walk_tree.simps)
  then have visit: "visit_all sha256 f maximum ?leaves [] = Inr snap" by (rule walk_visits)
  have dist: "distinct (map fst ?leaves)"
    using distinct_visible_leaves [OF assms(2), of "[]" f] path_of_Nil by simp
  then obtain found where found: "snap = [] @ found" "int (length snap) \<le> maximum"
      "map fst found = map fst (filter (\<lambda>x. Match f (fst x)) ?leaves)"
      "\<forall>(p, stamp)\<in>set found. \<exists>opn. (p, opn) \<in> set ?leaves \<and> stampFile sha256 opn = Inr stamp"
    using visit_all_appends [OF visit] assms(3) by auto
  then show "int (length snap) \<le> maximum" by simp
  have snap: "map fst snap = map fst (filter (\<lambda>x. Match f (fst x)) ?leaves)"
      "\<forall>(p, stamp)\<in>set snap. \<exists>opn. (p, opn) \<in> set ?leaves \<and> stampFile sha256 opn = Inr stamp"
    using found by simp_all
  have keys: "p \<in> fst ` set snap \<longleftrightarrow> p \<in> fst ` set ?leaves \<and> Match f p" for p
  proof -
    have "p \<in> set (map fst snap) \<longleftrightarrow> p \<in> set (map fst (filter (\<lambda>x. Match f (fst x)) ?leaves))"
      using snap(1) by simp
    then show ?thesis by (simp only: set_map set_filter) blast
  qed
  have distinct_snap: "distinct (map fst snap)"
    using dist by (simp add: snap(1) distinct_map_filter)
  moreover have "[] \<notin> fst ` set ?leaves"
  proof
    assume "[] \<in> fst ` set ?leaves"
    then obtain opn where "([], opn) \<in> set ?leaves" by auto
    then obtain ws where "[] = path_of ws" "visible_at f root ws opn"
      using visible_at_leaves [OF assms(2)] by blast
    then show False
      using path_of_nonempty [of ws] node_at_plain [OF assms(2)] by (simp add: visible_at_def)
  qed
  ultimately show "snapshot_ok snap" using keys by (simp add: snapshot_ok_def)
  have "map_of snap p = Some stamp \<longleftrightarrow>
      (\<exists>opn. (p, opn) \<in> set ?leaves \<and> Match f p \<and> stampFile sha256 opn = Inr stamp)"
  proof
    assume "map_of snap p = Some stamp"
    then have "(p, stamp) \<in> set snap" by (rule map_of_SomeD)
    then show "\<exists>opn. (p, opn) \<in> set ?leaves \<and> Match f p \<and> stampFile sha256 opn = Inr stamp"
      using snap(2) keys [of p] by force
  next
    assume "\<exists>opn. (p, opn) \<in> set ?leaves \<and> Match f p \<and> stampFile sha256 opn = Inr stamp"
    then obtain opn where opn: "(p, opn) \<in> set ?leaves" "Match f p"
        "stampFile sha256 opn = Inr stamp" by blast
    then have "p \<in> fst ` set snap" using keys [of p] by force
    then obtain stamp' where s: "(p, stamp') \<in> set snap" by auto
    then obtain opn' where opn': "(p, opn') \<in> set ?leaves" "stampFile sha256 opn' = Inr stamp'"
      using snap(2) by auto
    then have "opn' = opn" using opn(1) dist eq_key_imp_eq_value by metis
    then show "map_of snap p = Some stamp" using s opn opn' distinct_snap by simp
  qed
  then show "map_of snap p = Some stamp \<longleftrightarrow>
      (\<exists>ws opn. p = path_of ws \<and> visible_at f root ws opn \<and> Match f p \<and>
         stampFile sha256 opn = Inr stamp)"
    using visible_at_leaves [OF assms(2)] by blast
qed

section \<open>Properties\<close>

text \<open>
  C27. A scan that succeeds saw exactly the relevant files: it holds at most the configured
  number of files, each path once, and a path has a stamp exactly when it leads to a file
  through directories none of which is skipped, the filter calls it relevant, and the stamp
  is that file's mode, size and digest.
\<close>
theorem scanWorkspace_exact:
  assumes "scanWorkspace sha256 ctx openErr closeErr root f maximum = Inr snap"
    and "tree_ok root" "0 \<le> maximum"
  shows "int (length snap) \<le> maximum \<and> snapshot_ok snap \<and>
    (\<forall>p stamp. map_of snap p = Some stamp \<longleftrightarrow>
       (\<exists>ws opn. p = path_of ws \<and> visible_at f root ws opn \<and> Match f p \<and>
          stampFile sha256 opn = Inr stamp))"
  using scan_result [OF assms] by blast

definition sample_file :: "string \<Rightarrow> tree" where
  "sample_file content =
     Leaf (Inr \<lparr>file_mode = 420, file_size = int (length content), file_content = Inr content\<rparr>)"

definition sample_workspace :: tree where
  "sample_workspace =
     Dir [(''main.go'', sample_file ''package main''),
          (''vendor'', Dir [(''dep.go'', sample_file ''package dep'')])]"

definition default_filter :: path_filter where
  "default_filter = \<lparr>filter_includes = [], filter_excludes = []\<rparr>"

definition sample_snapshot :: snapshot where
  "sample_snapshot =
     [(''main.go'', \<lparr>mode = 420, stamp_size = 12, digest = ''package main''\<rparr>)]"

lemma scan_sample:
  "scanWorkspace (\<lambda>s. s) (\<lambda>_. None) None None sample_workspace default_filter 10 =
     Inr sample_snapshot"
  by code_simp

theorem scanWorkspace_exact_witness:
  "snapshot_ok sample_snapshot \<and> map_of sample_snapshot ''vendor/dep.go'' = None"
proof -
  have "tree_ok sample_workspace" by code_simp
  then have "snapshot_ok sample_snapshot"
    using scanWorkspace_exact [OF scan_sample] by simp
  moreover have "map_of sample_snapshot ''vendor/dep.go'' = None" by code_simp
  ultimately show ?thesis by simp
qed

end
