(* ===== verification/Watch_Pipeline.thy ===== *)
theory Watch_Pipeline
  imports Polling
begin

text \<open>
  The polling watcher and the debouncer together: what a batch says about a path, after any
  number of scans of the workspace, is true of the files.
\<close>

section \<open>The events of one comparison\<close>

definition scan_events :: "snapshot \<Rightarrow> snapshot \<Rightarrow> file_event list" where
  "scan_events previous current =
     concat (map (\<lambda>p. case change_between previous current p of
                         None \<Rightarrow> [] | Some k \<Rightarrow> [\<lparr>Path = p, Kind = k\<rparr>])
       (changed_paths previous current))"

lemma send_all:
  "send_changes (\<lambda>_. False) previous current ps =
     (concat (map (\<lambda>p. case change_between previous current p of
                         None \<Rightarrow> [] | Some k \<Rightarrow> [\<lparr>Path = p, Kind = k\<rparr>]) ps), True)"
  by (induction ps) (auto split: option.splits)

lemma emit_all: "emitChanges (\<lambda>_. False) previous current = (scan_events previous current, True)"
  by (simp add: emitChanges_def scan_events_def send_all)

lemma change_between_valid: "change_between previous current p = Some k \<Longrightarrow> Valid k"
  by (auto simp: change_between_def Valid_def split: option.splits if_splits)

lemma changed_paths_keys:
  "set (changed_paths previous current) = fst ` set previous \<union> fst ` set current"
  by (auto simp: changed_paths_def map_of_eq_None_iff)

lemma changed_paths_distinct:
  assumes "snapshot_ok previous" "snapshot_ok current"
  shows "distinct (changed_paths previous current)"
  using assms by (auto simp: changed_paths_def snapshot_ok_def map_of_eq_None_iff)

lemma path_kinds_Nil [simp]: "path_kinds p [] = []"
  by (simp add: path_kinds_def)

lemma path_kinds_append: "path_kinds p (es @ es') = path_kinds p es @ path_kinds p es'"
  by (simp add: path_kinds_def)

lemma path_kinds_events:
  assumes "distinct ps" "[] \<notin> set ps" "\<And>p k. change p = Some k \<Longrightarrow> Valid k"
  shows "path_kinds p (concat (map (\<lambda>p. case change p of
                         None \<Rightarrow> [] | Some k \<Rightarrow> [\<lparr>Path = p, Kind = k\<rparr>]) ps)) =
    (if p \<in> set ps then (case change p of None \<Rightarrow> [] | Some k \<Rightarrow> [k]) else [])"
  using assms(1,2)
proof (induction ps)
  case (Cons q ps)
  have "path_kinds p (case change q of None \<Rightarrow> [] | Some k \<Rightarrow> [\<lparr>Path = q, Kind = k\<rparr>]) =
      (if p = q then (case change q of None \<Rightarrow> [] | Some k \<Rightarrow> [k]) else [])"
    using Cons.prems assms(3) by (auto simp: path_kinds_def acceptable_def split: option.splits)
  then show ?case using Cons by (auto simp: path_kinds_append)
qed simp

lemma path_kinds_scan:
  assumes "snapshot_ok previous" "snapshot_ok current"
  shows "path_kinds p (scan_events previous current) =
    (case change_between previous current p of None \<Rightarrow> [] | Some k \<Rightarrow> [k])"
proof -
  have "[] \<notin> set (changed_paths previous current)"
    using assms unfolding changed_paths_keys by (auto simp: snapshot_ok_def)
  moreover have "change_between previous current p = None"
    if "p \<notin> set (changed_paths previous current)"
    using that unfolding changed_paths_keys
    by (auto simp: change_between_def map_of_eq_None_iff [symmetric])
  ultimately show ?thesis
    unfolding scan_events_def
    using path_kinds_events [OF changed_paths_distinct [OF assms], of "change_between previous current" p]
      change_between_valid by auto
qed

section \<open>What a merged kind says\<close>

text \<open>
  The meaning of a merged kind between the first and the last scan: nothing reported means
  nothing changed; a path that is gone is reported removed; a path that is there is reported
  written, or created if it was not there at first.
\<close>

definition net_matches :: "'a option \<Rightarrow> 'a option \<Rightarrow> change_kind option \<Rightarrow> bool" where
  "net_matches before after kind =
     (case kind of
        None \<Rightarrow> after = before
      | Some k \<Rightarrow>
          if after = None then k = ChangeRemove
          else k = ChangeWrite \<or> (k = ChangeCreate \<and> before = None))"

lemma merge_kinds_append:
  "merge_kinds acc (ks @ ks') = merge_kinds (merge_kinds acc ks) ks'"
  by (induction acc ks rule: merge_kinds.induct) auto

lemma net_change_append:
  "net_change (es @ es') p = merge_kinds (net_change es p) (path_kinds p es')"
  by (simp add: net_change_def path_kinds_append merge_kinds_append)

lemma net_matches_step:
  assumes "net_matches before (map_of previous p) kind"
  shows "net_matches before (map_of current p)
    (merge_kinds kind (case change_between previous current p of None \<Rightarrow> [] | Some k \<Rightarrow> [k]))"
  using assms
  by (cases kind; cases "map_of previous p"; cases "map_of current p")
    (auto simp: net_matches_def change_between_def mergeChange_def change_kinds split: if_splits)

section \<open>Many rounds of polling\<close>

definition poll_rounds :: "(go_error + snapshot) list \<Rightarrow> watcher \<Rightarrow> watcher" where
  "poll_rounds scans w = fold (poll_tick (\<lambda>_. False) False) scans w"

definition scans_ok :: "(go_error + snapshot) list \<Rightarrow> bool" where
  "scans_ok scans = list_all (\<lambda>s. case s of Inl _ \<Rightarrow> True | Inr snap \<Rightarrow> snapshot_ok snap) scans"

lemma poll_rounds_snoc:
  "poll_rounds (scans @ [s]) w = poll_tick (\<lambda>_. False) False s (poll_rounds scans w)"
  by (simp add: poll_rounds_def)

lemma poll_tick_Inr:
  "poll_tick (\<lambda>_. False) False (Inr current) w =
     w\<lparr>watch_events := watch_events w @ scan_events (watch_previous w) current,
       watch_previous := current\<rparr>"
  by (simp add: poll_tick_def emit_all)

lemma poll_tick_Inl [simp]:
  "watch_events (poll_tick stop b (Inl e) w) = watch_events w"
  "watch_previous (poll_tick stop b (Inl e) w) = watch_previous w"
  by (simp_all add: poll_tick_def reportError_def)

lemma poll_rounds_ok:
  assumes "snapshot_ok (watch_previous w)" "scans_ok scans"
  shows "snapshot_ok (watch_previous (poll_rounds scans w))"
  using assms(2)
proof (induction scans rule: rev_induct)
  case (snoc s scans)
  then show ?case
    by (cases s) (simp_all add: poll_rounds_snoc poll_tick_Inr scans_ok_def)
qed (simp add: assms poll_rounds_def)

lemma poll_rounds_net:
  assumes "snapshot_ok (watch_previous w)" "scans_ok scans" "watch_events w = []"
  shows "net_matches (map_of (watch_previous w) p)
    (map_of (watch_previous (poll_rounds scans w)) p)
    (net_change (watch_events (poll_rounds scans w)) p)"
  using assms(2)
proof (induction scans rule: rev_induct)
  case Nil
  then show ?case using assms(3) by (simp add: poll_rounds_def net_change_def net_matches_def)
next
  case (snoc s scans)
  then have IH: "net_matches (map_of (watch_previous w) p)
      (map_of (watch_previous (poll_rounds scans w)) p)
      (net_change (watch_events (poll_rounds scans w)) p)"
    and ok: "snapshot_ok (watch_previous (poll_rounds scans w))"
    using poll_rounds_ok [OF assms(1), of scans] by (simp_all add: scans_ok_def)
  show ?case
  proof (cases s)
    case (Inr current)
    then have "snapshot_ok current" using snoc.prems by (simp add: scans_ok_def)
    then show ?thesis
      using Inr net_matches_step [OF IH, of current] path_kinds_scan [OF ok, of current p]
      by (simp add: poll_rounds_snoc poll_tick_Inr net_change_append)
  qed (use IH in \<open>simp add: poll_rounds_snoc\<close>)
qed

section \<open>Properties\<close>

definition batch_kind :: "batch \<Rightarrow> string \<Rightarrow> change_kind option" where
  "batch_kind b p = map_of (map (\<lambda>e. (Path e, Kind e)) (Changes b)) p"

lemma batch_kind_burst:
  "batch_kind (newBatch r (burst_changes es)) p = net_change (map snd es) p"
proof -
  let ?ps = "sort_strings (remdups (map Path (filter acceptable (map snd es))))"
  have "map (\<lambda>e. (Path e, Kind e)) (burst_changes es) =
      map (\<lambda>p. (p, the (net_change (map snd es) p))) ?ps"
    by (simp add: burst_changes_def comp_def)
  then have "batch_kind (newBatch r (burst_changes es)) p =
      (if p \<in> set ?ps then Some (the (net_change (map snd es) p)) else None)"
    by (simp add: batch_kind_def newBatch_def map_of_map_restrict restrict_map_def)
  then show ?thesis using net_change_None_iff [of "map snd es" p] by auto
qed

text \<open>
  C25. A batch tells the truth about the workspace.  Let the watcher poll any number of times
  from a baseline, failed scans included, and let its events reach a new debouncer at any
  times; when the debouncer then hands out a batch, the batch reports, for every path, exactly
  what the last successful scan and the baseline justify: a path with no entry has the stamp it
  had at first, a removed path is gone, every path that is gone and has an entry is reported
  removed, a created path was not there at first, and a file that was there and still is has
  at most a write.
\<close>
theorem batch_reports_net_change:
  assumes "snapshot_ok (watch_previous w)" "scans_ok scans" "watch_events w = []"
    and "NewDebouncer quiet delay = Inr d"
    and "map snd es = watch_events (poll_rounds scans w)"
    and "Take now r (add_burst U es d) = (b, True, d')"
  shows "net_matches (map_of (watch_previous w) p)
    (map_of (watch_previous (poll_rounds scans w)) p) (batch_kind b p)"
proof -
  have "b = newBatch r (burst_changes es)"
    using assms(6) Take_burst [OF assms(4), of now r U es] by (auto split: if_splits)
  then have "batch_kind b p = net_change (watch_events (poll_rounds scans w)) p"
    using batch_kind_burst [of r es p] assms(5) by simp
  then show ?thesis using poll_rounds_net [OF assms(1-3), of p] by simp
qed

definition idle_watcher :: watcher where
  "idle_watcher = \<lparr>watch_events = [], watch_errors = [], watch_closed = False,
     watch_previous = sample_snapshot\<rparr>"

definition sample_scans :: "(go_error + snapshot) list" where
  "sample_scans =
     [Inr [], Inl (errors_New ''unreadable''),
      Inr [(''main.go'', \<lparr>mode = 420, stamp_size = 3, digest = ''new''\<rparr>)]]"

theorem batch_reports_net_change_witness:
  "net_matches (map_of sample_snapshot ''main.go'')
     (map_of (watch_previous (poll_rounds sample_scans idle_watcher)) ''main.go'')
     (batch_kind (fst (Take 100 1 (add_burst latin_only
        (map (Pair 0) (watch_events (poll_rounds sample_scans idle_watcher))) sample_debouncer)))
      ''main.go'')"
proof -
  let ?es = "map (Pair 0) (watch_events (poll_rounds sample_scans idle_watcher)) :: burst"
  have hyps: "snapshot_ok (watch_previous idle_watcher)" "scans_ok sample_scans"
    by (code_simp)+
  have "watch_events (poll_rounds sample_scans idle_watcher) =
      [\<lparr>Path = ''main.go'', Kind = ChangeRemove\<rparr>, \<lparr>Path = ''main.go'', Kind = ChangeCreate\<rparr>]"
    by code_simp
  then have es: "?es = [(0, \<lparr>Path = ''main.go'', Kind = ChangeRemove\<rparr>),
      (0, \<lparr>Path = ''main.go'', Kind = ChangeCreate\<rparr>)]" by simp
  have "fst (snd (Take 100 1 (add_burst latin_only ?es sample_debouncer)))"
    unfolding es by code_simp
  then have taken: "Take 100 1 (add_burst latin_only ?es sample_debouncer) =
      (fst (Take 100 1 (add_burst latin_only ?es sample_debouncer)), True,
       snd (snd (Take 100 1 (add_burst latin_only ?es sample_debouncer))))"
    by (simp add: prod_eq_iff)
  have sent: "map snd ?es = watch_events (poll_rounds sample_scans idle_watcher)"
    by (simp add: comp_def)
  have idle: "watch_events idle_watcher = []" "watch_previous idle_watcher = sample_snapshot"
    by (simp_all add: idle_watcher_def)
  show ?thesis
    using batch_reports_net_change [OF hyps idle(1) NewDebouncer_sample sent taken, of "''main.go''"]
    unfolding idle(2) .
qed

end
