(* ===== verification/Dev_Engine.thy ===== *)
theory Dev_Engine
  imports Debounce Go_Error
begin

text \<open>
  The engine of the development loop (\<open>src/internal/devloop/engine.go\<close>, and \<open>Candidate\<close>,
  \<open>Event\<close> of \<open>types.go\<close>): the state of the event loop, its handlers, the preparation and
  replacement goroutines, and the step relation of the whole, in which the loop and the
  goroutines interleave.

  Candidates, processes and contexts are numbered in the order of their creation; a nil
  process and the zero \<open>Candidate{}\<close> are \<open>None\<close>.  The pipeline, the launcher, the watcher and
  the processes are the environment: what they return is chosen by the step.  Two history
  variables record what the source does not store: the candidates whose clean-up ran and the
  candidates the engine let go of without cleaning them up.
\<close>

section \<open>Configuration\<close>

definition defaultQuietPeriod :: int where "defaultQuietPeriod = 150 * 1000000"
definition defaultMaxDelay :: int where "defaultMaxDelay = 2 * 1000000000"
definition defaultStopTimeout :: int where "defaultStopTimeout = 15 * 1000000000"

record config =
  QuietPeriod :: int
  MaxDelay :: int
  StopTimeout :: int

definition withDefaults :: "config \<Rightarrow> config" where
  "withDefaults c =
     \<lparr>QuietPeriod = (if QuietPeriod c = 0 then defaultQuietPeriod else QuietPeriod c),
      MaxDelay = (if MaxDelay c = 0 then defaultMaxDelay else MaxDelay c),
      StopTimeout = (if StopTimeout c = 0 then defaultStopTimeout else StopTimeout c)\<rparr>"

record ('w, 'c, 'p, 'l, 's) engine =
  engine_config :: config
  engine_watcher :: 'w
  engine_clock :: 'c
  engine_pipeline :: 'p
  engine_launcher :: 'l
  engine_sink :: 's

text \<open>A nil interface argument is \<open>None\<close>; \<open>realClock\<close> and \<open>discardSink\<close> replace two of them.\<close>

definition NewEngine ::
    "'c \<Rightarrow> 's \<Rightarrow> config \<Rightarrow> 'w option \<Rightarrow> 'c option \<Rightarrow> 'p option \<Rightarrow> 'l option \<Rightarrow> 's option
       \<Rightarrow> ('w, 'c, 'p, 'l, 's) engine go_result" where
  "NewEngine realClock discardSink config watcher clock pipeline launcher sink =
     (let config = withDefaults config
      in if QuietPeriod config \<le> 0 then Inl ''development quiet period must be positive''
         else if MaxDelay config < QuietPeriod config
         then Inl ''development maximum delay must not be shorter than the quiet period''
         else if StopTimeout config \<le> 0 then Inl ''development stop timeout must be positive''
         else case watcher of
           None \<Rightarrow> Inl ''development watcher must not be nil''
         | Some w \<Rightarrow>
             (case pipeline of
                None \<Rightarrow> Inl ''development pipeline must not be nil''
              | Some p \<Rightarrow>
                  (case launcher of
                     None \<Rightarrow> Inl ''development launcher must not be nil''
                   | Some l \<Rightarrow>
                       Inr \<lparr>engine_config = config, engine_watcher = w,
                            engine_clock = (case clock of None \<Rightarrow> realClock | Some c \<Rightarrow> c),
                            engine_pipeline = p, engine_launcher = l,
                            engine_sink = (case sink of None \<Rightarrow> discardSink | Some s \<Rightarrow> s)\<rparr>)))"

section \<open>State\<close>

datatype event_kind =
    EventChangeDetected | EventAnalysisStarted | EventGenerationComplete | EventBuildComplete
  | EventCandidateReady | EventPreparationFailed
  | EventLastKnownGood | EventCandidateDiscarded | EventRestartRequested
  | EventApplicationStarted | EventApplicationExited | EventWatchError | EventCleanupFailed
  | EventShutdownTimedOut

record event =
  event_name :: event_kind
  event_duration :: int
  event_reused :: bool
  event_revision :: revision
  event_paths :: "string list"
  event_err :: "go_error option"
  event_stale :: bool

type_synonym candidate = "nat option"
type_synonym process = nat
type_synonym ctx = nat

record preparation_result =
  prep_revision :: revision
  prep_candidate :: candidate
  prep_err :: "go_error option"

record replacement_result =
  rep_revision :: revision
  previousRevision :: revision
  rep_candidate :: candidate
  rep_process :: "process option"
  previousStopped :: bool
  rep_err :: "go_error option"
  warning :: "go_error option"

text \<open>Where a replacement goroutine is: before its first check, or in one of its blocking calls.\<close>

datatype replace_stage =
    Beginning
  | Stopping              \<comment> \<open>in \<open>previous.Stop\<close>\<close>
  | Launching             \<comment> \<open>in \<open>launcher.Start\<close>\<close>
  | Undoing               \<comment> \<open>in the \<open>Stop\<close> of the process it has just started\<close>
  | Sending               \<comment> \<open>in the final select\<close>

record replace_job =
  job_ctx :: ctx
  job_previous :: "process option"
  job_stage :: replace_stage
  job_result :: replacement_result

record system =
  debounce :: debouncer
  cancels :: "(revision \<times> ctx) list"
  replaceStop :: "ctx option"
  current_revision :: revision
  debounceTimer :: "int option"          \<comment> \<open>the delay the timer was last set to\<close>
  debounceC :: bool                      \<comment> \<open>whether the loop listens to the timer\<close>
  active :: "process option"
  activeCandidate :: candidate
  activeRevision :: revision
  activeWait :: "process option"
  watchErrorsOpen :: bool
  loop_ended :: bool
  run_canceled :: bool
  canceled :: "ctx list"
  next_ctx :: ctx
  preparing :: "(ctx \<times> batch) list"
  prepared :: "preparation_result list"
  replacing :: "replace_job list"
  sink :: "event list"
  disposed :: "nat list"
  dropped :: "nat list"
  launched :: "(process \<times> candidate) list"
  ended :: "process list"                \<comment> \<open>processes whose \<open>Stop\<close> returned or that exited\<close>
  next_candidate :: nat
  next_process :: process

text \<open>What the clean-up of a candidate and a \<open>Stop\<close> called by the loop itself return.\<close>

record environment =
  dispose_error :: "nat \<Rightarrow> go_error option"
  stop_error :: "process \<Rightarrow> go_error option"

definition canceled_error :: go_error where
  "canceled_error = sentinel_error Canceled ''context canceled''"

definition ctx_err :: "system \<Rightarrow> ctx \<Rightarrow> go_error option" where
  "ctx_err s c = (if run_canceled s \<or> c \<in> set (canceled s) then Some canceled_error else None)"

definition emit :: "event \<Rightarrow> system \<Rightarrow> system" where
  "emit e s = s\<lparr>sink := sink s @ [e]\<rparr>"

definition cancel :: "ctx \<Rightarrow> system \<Rightarrow> system" where
  "cancel c s = s\<lparr>canceled := c # canceled s\<rparr>"

definition stale :: "system \<Rightarrow> bool" where
  "stale s = (active s \<noteq> None)"

text \<open>\<open>Candidate.Dispose\<close>: the clean-up runs once, its error is remembered.\<close>

definition Dispose :: "environment \<Rightarrow> candidate \<Rightarrow> system \<Rightarrow> go_error option \<times> system" where
  "Dispose env cand s =
     (case cand of
        None \<Rightarrow> (None, s)
      | Some c \<Rightarrow>
          (dispose_error env c,
           if c \<in> set (disposed s) then s else s\<lparr>disposed := disposed s @ [c]\<rparr>))"

definition Stop :: "environment \<Rightarrow> process \<Rightarrow> system \<Rightarrow> go_error option \<times> system" where
  "Stop env p s = (stop_error env p, s\<lparr>ended := p # ended s\<rparr>)"

definition stop_process ::
    "environment \<Rightarrow> process option \<Rightarrow> system \<Rightarrow> go_error option \<times> system" where
  "stop_process env proc s = (case proc of None \<Rightarrow> (None, s) | Some p \<Rightarrow> Stop env p s)"

definition drop_candidate :: "candidate \<Rightarrow> system \<Rightarrow> system" where
  "drop_candidate cand s =
     (case cand of None \<Rightarrow> s | Some c \<Rightarrow> s\<lparr>dropped := dropped s @ [c]\<rparr>)"

definition no_active :: "system \<Rightarrow> system" where
  "no_active s = s\<lparr>active := None, activeCandidate := None, activeRevision := 0, activeWait := None\<rparr>"

section \<open>Timers and cancellation\<close>

definition resetDebounceTimer :: "time \<Rightarrow> system \<Rightarrow> system" where
  "resetDebounceTimer now s =
     (let (deadline, found) = Deadline (debounce s)
      in if \<not> found then s\<lparr>debounceC := False\<rparr>
         else s\<lparr>debounceTimer := Some (max 0 (deadline - now)), debounceC := True\<rparr>)"

definition stopDebounceTimer :: "system \<Rightarrow> system" where
  "stopDebounceTimer s =
     (if debounceTimer s = None then s else s\<lparr>debounceTimer := None, debounceC := False\<rparr>)"

definition cancelPreparations :: "system \<Rightarrow> system" where
  "cancelPreparations s =
     s\<lparr>canceled := map snd (cancels s) @ canceled s, cancels := []\<rparr>"

definition cancel_replacement :: "system \<Rightarrow> system" where
  "cancel_replacement s = (case replaceStop s of None \<Rightarrow> s | Some c \<Rightarrow> cancel c s)"

definition cancelWork :: "system \<Rightarrow> system" where
  "cancelWork s = (cancel_replacement (cancelPreparations s))\<lparr>replaceStop := None\<rparr>"

section \<open>Handlers of the event loop\<close>

definition startPreparation :: "file_event list \<Rightarrow> system \<Rightarrow> system" where
  "startPreparation changes s =
     (let s = s\<lparr>current_revision := current_revision s + 1\<rparr>;
          batch = newBatch (current_revision s) changes;
          s = emit \<lparr>event_name = EventAnalysisStarted, event_duration = 0, event_reused = False, event_revision = current_revision s,
                    event_paths = sort_strings (map Path changes), event_err = None,
                    event_stale = stale s\<rparr> s;
          c = next_ctx s
      in s\<lparr>next_ctx := c + 1, cancels := AList.update (current_revision s) c (cancels s),
           preparing := preparing s @ [(c, batch)]\<rparr>)"

definition acceptFileEvent ::
    "unicode_tables \<Rightarrow> time \<Rightarrow> time \<Rightarrow> file_event \<Rightarrow> system \<Rightarrow> system" where
  "acceptFileEvent U now later event s =
     (case Add U now event (debounce s) of
        Inl e \<Rightarrow>
          emit \<lparr>event_name = EventWatchError, event_duration = 0, event_reused = False, event_revision = 0, event_paths = [],
                event_err = Some (errors_New e), event_stale = False\<rparr> s
      | Inr d \<Rightarrow>
          let s = resetDebounceTimer later (cancel_replacement (cancelPreparations (s\<lparr>debounce := d\<rparr>)))
          in emit \<lparr>event_name = EventChangeDetected, event_duration = 0, event_reused = False, event_revision = 0,
                   event_paths = [Path event], event_err = None, event_stale = stale s\<rparr> s)"

definition acceptPending :: "time \<Rightarrow> time \<Rightarrow> system \<Rightarrow> system" where
  "acceptPending now later s =
     (let (batch, ready, d) = Take now (current_revision s + 1) (debounce s);
          s = s\<lparr>debounce := d\<rparr>
      in if \<not> ready then resetDebounceTimer later s
         else startPreparation (Changes batch) (s\<lparr>debounceC := False\<rparr>))"

definition startReplacement :: "preparation_result \<Rightarrow> system \<Rightarrow> system" where
  "startReplacement result s =
     (let s = cancel_replacement s;
          c = next_ctx s;
          s = s\<lparr>next_ctx := c + 1, replaceStop := Some c\<rparr>;
          previous = active s;
          s = (if previous = None then s
               else emit \<lparr>event_name = EventRestartRequested, event_duration = 0, event_reused = False, event_revision = prep_revision result,
                          event_paths = [], event_err = None, event_stale = True\<rparr> s);
          job = \<lparr>job_ctx = c, job_previous = previous,
                 job_stage = (if previous = None then Beginning else Stopping),
                 job_result = \<lparr>rep_revision = prep_revision result,
                               previousRevision = activeRevision s,
                               rep_candidate = prep_candidate result, rep_process = None,
                               previousStopped = False, rep_err = None, warning = None\<rparr>\<rparr>
      in s\<lparr>replacing := replacing s @ [job]\<rparr>)"

definition forget_cancel :: "revision \<Rightarrow> system \<Rightarrow> system" where
  "forget_cancel r s =
     (case map_of (cancels s) r of
        None \<Rightarrow> s
      | Some c \<Rightarrow> (cancel c s)\<lparr>cancels := AList.delete r (cancels s)\<rparr>)"

definition finishPreparation :: "environment \<Rightarrow> preparation_result \<Rightarrow> system \<Rightarrow> system" where
  "finishPreparation env result s =
     (let s = forget_cancel (prep_revision result) s
      in if prep_revision result \<noteq> current_revision s \<or> Pending (debounce s)
         then let (disposeErr, s) = Dispose env (prep_candidate result) s
              in emit \<lparr>event_name = EventCandidateDiscarded, event_duration = 0, event_reused = False, event_revision = prep_revision result,
                       event_paths = [], event_err = errors_Join [prep_err result, disposeErr],
                       event_stale = stale s\<rparr> s
         else if prep_err result \<noteq> None
         then let s = drop_candidate (prep_candidate result) s
              in if errors_Is (prep_err result) Canceled then s
                 else let s = emit \<lparr>event_name = EventPreparationFailed, event_duration = 0, event_reused = False,
                                    event_revision = prep_revision result, event_paths = [],
                                    event_err = prep_err result, event_stale = stale s\<rparr> s
                      in if active s = None then s
                         else emit \<lparr>event_name = EventLastKnownGood, event_duration = 0, event_reused = False,
                                    event_revision = activeRevision s, event_paths = [],
                                    event_err = prep_err result, event_stale = True\<rparr> s
         else startReplacement result
                (emit \<lparr>event_name = EventCandidateReady, event_duration = 0, event_reused = False, event_revision = prep_revision result,
                       event_paths = [], event_err = None, event_stale = stale s\<rparr> s))"

definition emitCleanupFailure :: "revision \<Rightarrow> go_error option \<Rightarrow> system \<Rightarrow> system" where
  "emitCleanupFailure revision err s =
     (if err = None then s
      else emit \<lparr>event_name = EventCleanupFailed, event_duration = 0, event_reused = False, event_revision = revision, event_paths = [],
                 event_err = err, event_stale = stale s\<rparr> s)"

definition discardReplacement :: "environment \<Rightarrow> replacement_result \<Rightarrow> system \<Rightarrow> system" where
  "discardReplacement env result s =
     (let (stopErr, s) = stop_process env (rep_process result) s;
          err = (if rep_process result = None then rep_err result
                 else errors_Join [rep_err result, stopErr]);
          (disposeErr, s) = Dispose env (rep_candidate result) s
      in emit \<lparr>event_name = EventCandidateDiscarded, event_duration = 0, event_reused = False, event_revision = rep_revision result,
               event_paths = [], event_err = errors_Join [err, disposeErr],
               event_stale = stale s\<rparr> s)"

definition retire_previous :: "environment \<Rightarrow> replacement_result \<Rightarrow> system \<Rightarrow> system" where
  "retire_previous env result s =
     (if previousStopped result \<and> activeRevision s = previousRevision result
      then let (disposeErr, s) = Dispose env (activeCandidate s) s
           in no_active (emitCleanupFailure (activeRevision s) disposeErr s)
      else s)"

definition finishReplacement :: "environment \<Rightarrow> replacement_result \<Rightarrow> system \<Rightarrow> system" where
  "finishReplacement env result s =
     (let s = (cancel_replacement s)\<lparr>replaceStop := None\<rparr>;
          s = retire_previous env result s;
          s = (if warning result = None then s
               else emit \<lparr>event_name = EventShutdownTimedOut, event_duration = 0, event_reused = False,
                          event_revision = previousRevision result, event_paths = [],
                          event_err = warning result, event_stale = True\<rparr> s)
      in if rep_revision result \<noteq> current_revision s \<or> Pending (debounce s)
         then discardReplacement env result s
         else if rep_err result \<noteq> None
         then let s = discardReplacement env result s
              in if errors_Is (rep_err result) Canceled then s
                 else emit \<lparr>event_name = EventPreparationFailed, event_duration = 0, event_reused = False,
                            event_revision = rep_revision result, event_paths = [],
                            event_err = map_option (wrap_error ''replace application: '') (rep_err result),
                            event_stale = stale s\<rparr> s
         else emit \<lparr>event_name = EventApplicationStarted, event_duration = 0, event_reused = False, event_revision = rep_revision result,
                    event_paths = [], event_err = None, event_stale = False\<rparr>
                (s\<lparr>active := rep_process result, activeCandidate := rep_candidate result,
                   activeRevision := rep_revision result, activeWait := rep_process result\<rparr>))"

definition finishApplication :: "environment \<Rightarrow> go_error option \<Rightarrow> system \<Rightarrow> system" where
  "finishApplication env err s =
     (let revision = activeRevision s;
          (disposeErr, s) = Dispose env (activeCandidate s) s
      in emit \<lparr>event_name = EventApplicationExited, event_duration = 0, event_reused = False, event_revision = revision, event_paths = [],
               event_err = errors_Join [err, disposeErr], event_stale = False\<rparr> (no_active s))"

definition stopActive :: "environment \<Rightarrow> system \<Rightarrow> go_error option \<times> system" where
  "stopActive env s =
     (case active s of
        None \<Rightarrow> Dispose env (activeCandidate s) s
      | Some p \<Rightarrow>
          let (stopErr, s) = Stop env p s;
              (disposeErr, s) = Dispose env (activeCandidate s) s
          in (errors_Join [stopErr, disposeErr], no_active s))"

section \<open>Goroutines\<close>

text \<open>
  \<open>prepare\<close> returns from the pipeline with a candidate or none (\<open>made\<close>) and an error; every
  candidate is a new one.
\<close>

definition prepare_returns :: "batch \<Rightarrow> bool \<Rightarrow> go_error option \<Rightarrow> system \<Rightarrow> system" where
  "prepare_returns batch made err s =
     (let cand = (if made then Some (next_candidate s) else None)
      in s\<lparr>next_candidate := next_candidate s + (if made then 1 else 0),
           prepared := prepared s @
             [\<lparr>prep_revision = Revision batch, prep_candidate = cand, prep_err = err\<rparr>]\<rparr>)"

text \<open>\<open>replace\<close>, cut at its blocking calls; \<open>ctxErr\<close> is \<open>ctx.Err()\<close> when the call returns.\<close>

definition replace_check :: "go_error option \<Rightarrow> replace_job \<Rightarrow> replace_job" where
  "replace_check ctxErr job =
     (let result = job_result job;
          err = (if rep_err result = None then ctxErr else rep_err result)
      in job\<lparr>job_result := result\<lparr>rep_err := err\<rparr>,
             job_stage := (if err = None then Launching else Sending)\<rparr>)"

definition replace_stopped :: "go_error option \<Rightarrow> go_error option \<Rightarrow> replace_job \<Rightarrow> replace_job" where
  "replace_stopped stopErr ctxErr job =
     (let result = (job_result job)\<lparr>previousStopped := True\<rparr>;
          result = (if errors_Is stopErr ErrGracefulStopTimeout
                    then result\<lparr>warning := stopErr, rep_err := None\<rparr>
                    else result\<lparr>rep_err := stopErr\<rparr>)
      in replace_check ctxErr (job\<lparr>job_result := result\<rparr>))"

definition replace_launched ::
    "process option \<Rightarrow> go_error option \<Rightarrow> go_error option \<Rightarrow> replace_job \<Rightarrow> replace_job" where
  "replace_launched proc startErr ctxErr job =
     job\<lparr>job_result := (job_result job)\<lparr>rep_process := proc, rep_err := startErr\<rparr>,
         job_stage := (if proc \<noteq> None \<and> ctxErr \<noteq> None then Undoing else Sending)\<rparr>"

definition replace_undone :: "go_error option \<Rightarrow> go_error option \<Rightarrow> replace_job \<Rightarrow> replace_job" where
  "replace_undone stopErr ctxErr job =
     job\<lparr>job_result := (job_result job)\<lparr>rep_err := errors_Join [ctxErr, stopErr], rep_process := None\<rparr>,
         job_stage := Sending\<rparr>"

definition replace_abandoned :: "environment \<Rightarrow> replacement_result \<Rightarrow> system \<Rightarrow> system" where
  "replace_abandoned env result s =
     snd (Dispose env (rep_candidate result) (snd (stop_process env (rep_process result) s)))"

section \<open>The run\<close>

definition blank_system :: "debouncer \<Rightarrow> system" where
  "blank_system d =
     \<lparr>debounce = d, cancels = [], replaceStop = None, current_revision = 0, debounceTimer = None,
      debounceC = False, active = None, activeCandidate = None, activeRevision = 0,
      activeWait = None, watchErrorsOpen = True, loop_ended = False, run_canceled = False,
      canceled = [], next_ctx = 0, preparing = [], prepared = [], replacing = [], sink = [],
      disposed = [], dropped = [], launched = [], ended = [], next_candidate = 0,
      next_process = 0\<rparr>"

definition begin_run :: "debouncer \<Rightarrow> system" where
  "begin_run d = startPreparation [\<lparr>Path = ''.'', Kind = ChangeInitial\<rparr>] (blank_system d)"

definition end_run :: "environment \<Rightarrow> system \<Rightarrow> go_error option \<times> system" where
  "end_run env s =
     (let s = cancelWork (s\<lparr>loop_ended := True, run_canceled := True\<rparr>);
          (stopErr, s) = stopActive env s
      in (stopErr, stopDebounceTimer s))"

text \<open>The error \<open>Run\<close> returns from those of the loop, of stopping and of closing the watcher.\<close>

definition run_error ::
    "go_error option \<Rightarrow> go_error option \<Rightarrow> go_error option \<Rightarrow> go_error option" where
  "run_error runErr stopErr closeErr =
     errors_Join [if errors_Is runErr Canceled then None else runErr, stopErr, closeErr]"

definition watch_error_event :: "go_error \<Rightarrow> event" where
  "watch_error_event e =
     \<lparr>event_name = EventWatchError, event_duration = 0, event_reused = False, event_revision = 0, event_paths = [], event_err = Some e,
      event_stale = False\<rparr>"

text \<open>
  The cases of the loop's select, the goroutines' progress, the cancellation from outside and
  the end of the run.  A revision counter at its last value is not stepped (that is
  \<open>2^64\<close> accepted batches).
\<close>

inductive engine_step :: "unicode_tables \<Rightarrow> environment \<Rightarrow> system \<Rightarrow> system \<Rightarrow> bool"
  for U env where
  file_event:
    "\<not> loop_ended s \<Longrightarrow> engine_step U env s (acceptFileEvent U now later e s)"
| watch_error:
    "\<not> loop_ended s \<Longrightarrow> watchErrorsOpen s \<Longrightarrow> engine_step U env s (emit (watch_error_event err) s)"
| watch_errors_closed:
    "\<not> loop_ended s \<Longrightarrow> engine_step U env s (s\<lparr>watchErrorsOpen := False\<rparr>)"
| debounce_expired:
    "\<not> loop_ended s \<Longrightarrow> debounceC s \<Longrightarrow> current_revision s \<noteq> - 1 \<Longrightarrow>
     engine_step U env s (acceptPending now later s)"
| pipeline_returned:
    "preparing s = xs @ (c, batch) # ys \<Longrightarrow>
     engine_step U env s (prepare_returns batch made err (s\<lparr>preparing := xs @ ys\<rparr>))"
| preparation_received:
    "\<not> loop_ended s \<Longrightarrow> prepared s = xs @ r # ys \<Longrightarrow>
     engine_step U env s (finishPreparation env r (s\<lparr>prepared := xs @ ys\<rparr>))"
| preparation_abandoned:
    "run_canceled s \<Longrightarrow> prepared s = xs @ r # ys \<Longrightarrow>
     engine_step U env s (snd (Dispose env (prep_candidate r) (s\<lparr>prepared := xs @ ys\<rparr>)))"
| replacement_begins:
    "replacing s = xs @ job # ys \<Longrightarrow> job_stage job = Beginning \<Longrightarrow>
     engine_step U env s (s\<lparr>replacing := xs @ replace_check (ctx_err s (job_ctx job)) job # ys\<rparr>)"
| previous_stopped:
    "replacing s = xs @ job # ys \<Longrightarrow> job_stage job = Stopping \<Longrightarrow> job_previous job = Some p \<Longrightarrow>
     engine_step U env s (s\<lparr>ended := p # ended s,
       replacing := xs @ replace_stopped stopErr (ctx_err s (job_ctx job)) job # ys\<rparr>)"
| start_failed:
    "replacing s = xs @ job # ys \<Longrightarrow> job_stage job = Launching \<Longrightarrow>
     engine_step U env s (s\<lparr>replacing :=
       xs @ replace_launched None (Some err) (ctx_err s (job_ctx job)) job # ys\<rparr>)"
| start_returned:
    "replacing s = xs @ job # ys \<Longrightarrow> job_stage job = Launching \<Longrightarrow> p = next_process s \<Longrightarrow>
     engine_step U env s (s\<lparr>next_process := p + 1,
       launched := (p, rep_candidate (job_result job)) # launched s,
       replacing := xs @ replace_launched (Some p) startErr (ctx_err s (job_ctx job)) job # ys\<rparr>)"
| launch_undone:
    "replacing s = xs @ job # ys \<Longrightarrow> job_stage job = Undoing \<Longrightarrow>
     rep_process (job_result job) = Some p \<Longrightarrow>
     engine_step U env s (s\<lparr>ended := p # ended s,
       replacing := xs @ replace_undone stopErr (ctx_err s (job_ctx job)) job # ys\<rparr>)"
| replacement_received:
    "\<not> loop_ended s \<Longrightarrow> replacing s = xs @ job # ys \<Longrightarrow> job_stage job = Sending \<Longrightarrow>
     engine_step U env s (finishReplacement env (job_result job) (s\<lparr>replacing := xs @ ys\<rparr>))"
| replacement_abandoned:
    "replacing s = xs @ job # ys \<Longrightarrow> job_stage job = Sending \<Longrightarrow> ctx_err s (job_ctx job) \<noteq> None \<Longrightarrow>
     engine_step U env s (replace_abandoned env (job_result job) (s\<lparr>replacing := xs @ ys\<rparr>))"
| application_exited:
    "\<not> loop_ended s \<Longrightarrow> activeWait s = Some p \<Longrightarrow>
     engine_step U env s (finishApplication env exitErr (s\<lparr>ended := p # ended s\<rparr>))"
| run_is_canceled:
    "engine_step U env s (s\<lparr>run_canceled := True\<rparr>)"
| loop_returns:
    "\<not> loop_ended s \<Longrightarrow> engine_step U env s (snd (end_run env s))"

text \<open>The reachable states of a run of an engine with the given debounce configuration.\<close>

inductive reachable :: "unicode_tables \<Rightarrow> environment \<Rightarrow> int \<Rightarrow> int \<Rightarrow> system \<Rightarrow> bool"
  for U env quiet delay where
  run_begins: "NewDebouncer quiet delay = Inr d \<Longrightarrow> reachable U env quiet delay (begin_run d)"
| run_steps:
    "reachable U env quiet delay s \<Longrightarrow> engine_step U env s s' \<Longrightarrow> reachable U env quiet delay s'"

end
