(* ===== verification/Engine_Invariants.thy ===== *)
theory Engine_Invariants
  imports Dev_Engine
begin

text \<open>
  The invariants of the development engine over every interleaving of the loop and the
  goroutines: who owns each candidate, which process runs from which candidate, the
  revisions in flight, and the debounce timer.
\<close>

section \<open>What each helper leaves alone\<close>

lemma emit_frame [simp]:
  "preparing (emit e s) = preparing s" "prepared (emit e s) = prepared s"
  "replacing (emit e s) = replacing s" "active (emit e s) = active s"
  "activeCandidate (emit e s) = activeCandidate s"
  "activeRevision (emit e s) = activeRevision s" "activeWait (emit e s) = activeWait s"
  "current_revision (emit e s) = current_revision s" "disposed (emit e s) = disposed s"
  "dropped (emit e s) = dropped s" "launched (emit e s) = launched s"
  "ended (emit e s) = ended s" "next_candidate (emit e s) = next_candidate s"
  "next_process (emit e s) = next_process s" "debounce (emit e s) = debounce s"
  "debounceC (emit e s) = debounceC s" "loop_ended (emit e s) = loop_ended s"
  "run_canceled (emit e s) = run_canceled s" "canceled (emit e s) = canceled s"
  by (simp_all add: emit_def)

lemma cancel_frame [simp]:
  "preparing (cancel c s) = preparing s" "prepared (cancel c s) = prepared s"
  "replacing (cancel c s) = replacing s" "active (cancel c s) = active s"
  "activeCandidate (cancel c s) = activeCandidate s"
  "activeRevision (cancel c s) = activeRevision s" "activeWait (cancel c s) = activeWait s"
  "current_revision (cancel c s) = current_revision s" "disposed (cancel c s) = disposed s"
  "dropped (cancel c s) = dropped s" "launched (cancel c s) = launched s"
  "ended (cancel c s) = ended s" "next_candidate (cancel c s) = next_candidate s"
  "next_process (cancel c s) = next_process s" "debounce (cancel c s) = debounce s"
  "debounceC (cancel c s) = debounceC s" "loop_ended (cancel c s) = loop_ended s"
  "run_canceled (cancel c s) = run_canceled s"
  by (simp_all add: cancel_def)

lemma cancel_replacement_frame [simp]:
  "preparing (cancel_replacement s) = preparing s"
  "prepared (cancel_replacement s) = prepared s"
  "replacing (cancel_replacement s) = replacing s" "active (cancel_replacement s) = active s"
  "activeCandidate (cancel_replacement s) = activeCandidate s"
  "activeRevision (cancel_replacement s) = activeRevision s"
  "activeWait (cancel_replacement s) = activeWait s"
  "current_revision (cancel_replacement s) = current_revision s"
  "disposed (cancel_replacement s) = disposed s" "dropped (cancel_replacement s) = dropped s"
  "launched (cancel_replacement s) = launched s" "ended (cancel_replacement s) = ended s"
  "next_candidate (cancel_replacement s) = next_candidate s"
  "next_process (cancel_replacement s) = next_process s"
  "debounce (cancel_replacement s) = debounce s"
  "debounceC (cancel_replacement s) = debounceC s"
  "loop_ended (cancel_replacement s) = loop_ended s"
  "run_canceled (cancel_replacement s) = run_canceled s"
  by (simp_all add: cancel_replacement_def cancel_def split: option.splits)

lemma cancelPreparations_frame [simp]:
  "preparing (cancelPreparations s) = preparing s"
  "prepared (cancelPreparations s) = prepared s"
  "replacing (cancelPreparations s) = replacing s" "active (cancelPreparations s) = active s"
  "activeCandidate (cancelPreparations s) = activeCandidate s"
  "activeRevision (cancelPreparations s) = activeRevision s"
  "activeWait (cancelPreparations s) = activeWait s"
  "current_revision (cancelPreparations s) = current_revision s"
  "disposed (cancelPreparations s) = disposed s" "dropped (cancelPreparations s) = dropped s"
  "launched (cancelPreparations s) = launched s" "ended (cancelPreparations s) = ended s"
  "next_candidate (cancelPreparations s) = next_candidate s"
  "next_process (cancelPreparations s) = next_process s"
  "debounce (cancelPreparations s) = debounce s"
  "debounceC (cancelPreparations s) = debounceC s"
  "loop_ended (cancelPreparations s) = loop_ended s"
  "run_canceled (cancelPreparations s) = run_canceled s"
  by (simp_all add: cancelPreparations_def)

lemma forget_cancel_frame [simp]:
  "preparing (forget_cancel r s) = preparing s" "prepared (forget_cancel r s) = prepared s"
  "replacing (forget_cancel r s) = replacing s" "active (forget_cancel r s) = active s"
  "activeCandidate (forget_cancel r s) = activeCandidate s"
  "activeRevision (forget_cancel r s) = activeRevision s"
  "activeWait (forget_cancel r s) = activeWait s"
  "current_revision (forget_cancel r s) = current_revision s"
  "disposed (forget_cancel r s) = disposed s" "dropped (forget_cancel r s) = dropped s"
  "launched (forget_cancel r s) = launched s" "ended (forget_cancel r s) = ended s"
  "next_candidate (forget_cancel r s) = next_candidate s"
  "next_process (forget_cancel r s) = next_process s"
  "debounce (forget_cancel r s) = debounce s" "debounceC (forget_cancel r s) = debounceC s"
  "loop_ended (forget_cancel r s) = loop_ended s"
  "run_canceled (forget_cancel r s) = run_canceled s"
  by (simp_all add: forget_cancel_def cancel_def split: option.splits)

lemma emitCleanupFailure_frame [simp]:
  "preparing (emitCleanupFailure r err s) = preparing s"
  "prepared (emitCleanupFailure r err s) = prepared s"
  "replacing (emitCleanupFailure r err s) = replacing s"
  "active (emitCleanupFailure r err s) = active s"
  "activeCandidate (emitCleanupFailure r err s) = activeCandidate s"
  "activeRevision (emitCleanupFailure r err s) = activeRevision s"
  "activeWait (emitCleanupFailure r err s) = activeWait s"
  "current_revision (emitCleanupFailure r err s) = current_revision s"
  "disposed (emitCleanupFailure r err s) = disposed s"
  "dropped (emitCleanupFailure r err s) = dropped s"
  "launched (emitCleanupFailure r err s) = launched s"
  "ended (emitCleanupFailure r err s) = ended s"
  "next_candidate (emitCleanupFailure r err s) = next_candidate s"
  "next_process (emitCleanupFailure r err s) = next_process s"
  "debounce (emitCleanupFailure r err s) = debounce s"
  "debounceC (emitCleanupFailure r err s) = debounceC s"
  "loop_ended (emitCleanupFailure r err s) = loop_ended s"
  "run_canceled (emitCleanupFailure r err s) = run_canceled s"
  "canceled (emitCleanupFailure r err s) = canceled s"
  by (simp_all add: emitCleanupFailure_def emit_def)

lemma resetDebounceTimer_frame [simp]:
  "preparing (resetDebounceTimer now s) = preparing s"
  "prepared (resetDebounceTimer now s) = prepared s"
  "replacing (resetDebounceTimer now s) = replacing s"
  "active (resetDebounceTimer now s) = active s"
  "activeCandidate (resetDebounceTimer now s) = activeCandidate s"
  "activeRevision (resetDebounceTimer now s) = activeRevision s"
  "activeWait (resetDebounceTimer now s) = activeWait s"
  "current_revision (resetDebounceTimer now s) = current_revision s"
  "disposed (resetDebounceTimer now s) = disposed s"
  "dropped (resetDebounceTimer now s) = dropped s"
  "launched (resetDebounceTimer now s) = launched s"
  "ended (resetDebounceTimer now s) = ended s"
  "next_candidate (resetDebounceTimer now s) = next_candidate s"
  "next_process (resetDebounceTimer now s) = next_process s"
  "debounce (resetDebounceTimer now s) = debounce s"
  "loop_ended (resetDebounceTimer now s) = loop_ended s"
  "run_canceled (resetDebounceTimer now s) = run_canceled s"
  "canceled (resetDebounceTimer now s) = canceled s"
  by (simp_all add: resetDebounceTimer_def Let_def split: prod.splits)

lemma stopDebounceTimer_frame [simp]:
  "preparing (stopDebounceTimer s) = preparing s" "prepared (stopDebounceTimer s) = prepared s"
  "replacing (stopDebounceTimer s) = replacing s" "active (stopDebounceTimer s) = active s"
  "activeCandidate (stopDebounceTimer s) = activeCandidate s"
  "activeRevision (stopDebounceTimer s) = activeRevision s"
  "activeWait (stopDebounceTimer s) = activeWait s"
  "current_revision (stopDebounceTimer s) = current_revision s"
  "disposed (stopDebounceTimer s) = disposed s" "dropped (stopDebounceTimer s) = dropped s"
  "launched (stopDebounceTimer s) = launched s" "ended (stopDebounceTimer s) = ended s"
  "next_candidate (stopDebounceTimer s) = next_candidate s"
  "next_process (stopDebounceTimer s) = next_process s"
  "debounce (stopDebounceTimer s) = debounce s"
  "loop_ended (stopDebounceTimer s) = loop_ended s"
  "run_canceled (stopDebounceTimer s) = run_canceled s"
  "canceled (stopDebounceTimer s) = canceled s"
  by (simp_all add: stopDebounceTimer_def)

lemma Dispose_frame [simp]:
  "preparing (snd (Dispose env cand s)) = preparing s"
  "prepared (snd (Dispose env cand s)) = prepared s"
  "replacing (snd (Dispose env cand s)) = replacing s"
  "active (snd (Dispose env cand s)) = active s"
  "activeCandidate (snd (Dispose env cand s)) = activeCandidate s"
  "activeRevision (snd (Dispose env cand s)) = activeRevision s"
  "activeWait (snd (Dispose env cand s)) = activeWait s"
  "current_revision (snd (Dispose env cand s)) = current_revision s"
  "dropped (snd (Dispose env cand s)) = dropped s"
  "launched (snd (Dispose env cand s)) = launched s"
  "ended (snd (Dispose env cand s)) = ended s"
  "next_candidate (snd (Dispose env cand s)) = next_candidate s"
  "next_process (snd (Dispose env cand s)) = next_process s"
  "debounce (snd (Dispose env cand s)) = debounce s"
  "debounceC (snd (Dispose env cand s)) = debounceC s"
  "loop_ended (snd (Dispose env cand s)) = loop_ended s"
  "run_canceled (snd (Dispose env cand s)) = run_canceled s"
  "canceled (snd (Dispose env cand s)) = canceled s"
  by (simp_all add: Dispose_def split: option.splits)

lemma stop_process_frame [simp]:
  "preparing (snd (stop_process env proc s)) = preparing s"
  "prepared (snd (stop_process env proc s)) = prepared s"
  "replacing (snd (stop_process env proc s)) = replacing s"
  "active (snd (stop_process env proc s)) = active s"
  "activeCandidate (snd (stop_process env proc s)) = activeCandidate s"
  "activeRevision (snd (stop_process env proc s)) = activeRevision s"
  "activeWait (snd (stop_process env proc s)) = activeWait s"
  "current_revision (snd (stop_process env proc s)) = current_revision s"
  "disposed (snd (stop_process env proc s)) = disposed s"
  "dropped (snd (stop_process env proc s)) = dropped s"
  "launched (snd (stop_process env proc s)) = launched s"
  "next_candidate (snd (stop_process env proc s)) = next_candidate s"
  "next_process (snd (stop_process env proc s)) = next_process s"
  "debounce (snd (stop_process env proc s)) = debounce s"
  "debounceC (snd (stop_process env proc s)) = debounceC s"
  "loop_ended (snd (stop_process env proc s)) = loop_ended s"
  "run_canceled (snd (stop_process env proc s)) = run_canceled s"
  "canceled (snd (stop_process env proc s)) = canceled s"
  by (simp_all add: stop_process_def Stop_def split: option.splits)

lemma Stop_frame [simp]:
  "preparing (snd (Stop env p s)) = preparing s" "prepared (snd (Stop env p s)) = prepared s"
  "replacing (snd (Stop env p s)) = replacing s" "active (snd (Stop env p s)) = active s"
  "activeCandidate (snd (Stop env p s)) = activeCandidate s"
  "activeRevision (snd (Stop env p s)) = activeRevision s"
  "activeWait (snd (Stop env p s)) = activeWait s"
  "current_revision (snd (Stop env p s)) = current_revision s"
  "disposed (snd (Stop env p s)) = disposed s" "dropped (snd (Stop env p s)) = dropped s"
  "launched (snd (Stop env p s)) = launched s"
  "next_candidate (snd (Stop env p s)) = next_candidate s"
  "next_process (snd (Stop env p s)) = next_process s"
  "debounce (snd (Stop env p s)) = debounce s" "debounceC (snd (Stop env p s)) = debounceC s"
  "loop_ended (snd (Stop env p s)) = loop_ended s"
  "run_canceled (snd (Stop env p s)) = run_canceled s"
  "canceled (snd (Stop env p s)) = canceled s"
  by (simp_all add: Stop_def)

lemma drop_candidate_frame [simp]:
  "preparing (drop_candidate cand s) = preparing s"
  "prepared (drop_candidate cand s) = prepared s"
  "replacing (drop_candidate cand s) = replacing s" "active (drop_candidate cand s) = active s"
  "activeCandidate (drop_candidate cand s) = activeCandidate s"
  "activeRevision (drop_candidate cand s) = activeRevision s"
  "activeWait (drop_candidate cand s) = activeWait s"
  "current_revision (drop_candidate cand s) = current_revision s"
  "disposed (drop_candidate cand s) = disposed s"
  "launched (drop_candidate cand s) = launched s" "ended (drop_candidate cand s) = ended s"
  "next_candidate (drop_candidate cand s) = next_candidate s"
  "next_process (drop_candidate cand s) = next_process s"
  "debounce (drop_candidate cand s) = debounce s"
  "debounceC (drop_candidate cand s) = debounceC s"
  "loop_ended (drop_candidate cand s) = loop_ended s"
  "run_canceled (drop_candidate cand s) = run_canceled s"
  "canceled (drop_candidate cand s) = canceled s"
  by (simp_all add: drop_candidate_def split: option.splits)

lemma no_active_frame [simp]:
  "preparing (no_active s) = preparing s" "prepared (no_active s) = prepared s"
  "replacing (no_active s) = replacing s" "current_revision (no_active s) = current_revision s"
  "disposed (no_active s) = disposed s" "dropped (no_active s) = dropped s"
  "launched (no_active s) = launched s" "ended (no_active s) = ended s"
  "next_candidate (no_active s) = next_candidate s"
  "next_process (no_active s) = next_process s" "debounce (no_active s) = debounce s"
  "debounceC (no_active s) = debounceC s" "loop_ended (no_active s) = loop_ended s"
  "run_canceled (no_active s) = run_canceled s" "canceled (no_active s) = canceled s"
  by (simp_all add: no_active_def)

lemma cancelWork_frame [simp]:
  "preparing (cancelWork s) = preparing s" "prepared (cancelWork s) = prepared s"
  "replacing (cancelWork s) = replacing s" "active (cancelWork s) = active s"
  "activeCandidate (cancelWork s) = activeCandidate s"
  "activeRevision (cancelWork s) = activeRevision s" "activeWait (cancelWork s) = activeWait s"
  "current_revision (cancelWork s) = current_revision s" "disposed (cancelWork s) = disposed s"
  "dropped (cancelWork s) = dropped s" "launched (cancelWork s) = launched s"
  "ended (cancelWork s) = ended s" "next_candidate (cancelWork s) = next_candidate s"
  "next_process (cancelWork s) = next_process s" "debounce (cancelWork s) = debounce s"
  "debounceC (cancelWork s) = debounceC s" "loop_ended (cancelWork s) = loop_ended s"
  "run_canceled (cancelWork s) = run_canceled s"
  by (simp_all add: cancelWork_def)

lemma retire_previous_frame [simp]:
  "preparing (retire_previous env result s) = preparing s"
  "prepared (retire_previous env result s) = prepared s"
  "replacing (retire_previous env result s) = replacing s"
  "current_revision (retire_previous env result s) = current_revision s"
  "dropped (retire_previous env result s) = dropped s"
  "launched (retire_previous env result s) = launched s"
  "ended (retire_previous env result s) = ended s"
  "next_candidate (retire_previous env result s) = next_candidate s"
  "next_process (retire_previous env result s) = next_process s"
  "debounce (retire_previous env result s) = debounce s"
  "debounceC (retire_previous env result s) = debounceC s"
  "loop_ended (retire_previous env result s) = loop_ended s"
  "run_canceled (retire_previous env result s) = run_canceled s"
  "canceled (retire_previous env result s) = canceled s"
  by (simp_all add: retire_previous_def Let_def split_beta)

lemma discardReplacement_frame [simp]:
  "preparing (discardReplacement env result s) = preparing s"
  "prepared (discardReplacement env result s) = prepared s"
  "replacing (discardReplacement env result s) = replacing s"
  "active (discardReplacement env result s) = active s"
  "activeCandidate (discardReplacement env result s) = activeCandidate s"
  "activeRevision (discardReplacement env result s) = activeRevision s"
  "activeWait (discardReplacement env result s) = activeWait s"
  "current_revision (discardReplacement env result s) = current_revision s"
  "dropped (discardReplacement env result s) = dropped s"
  "launched (discardReplacement env result s) = launched s"
  "next_candidate (discardReplacement env result s) = next_candidate s"
  "next_process (discardReplacement env result s) = next_process s"
  "debounce (discardReplacement env result s) = debounce s"
  "debounceC (discardReplacement env result s) = debounceC s"
  "loop_ended (discardReplacement env result s) = loop_ended s"
  "run_canceled (discardReplacement env result s) = run_canceled s"
  "canceled (discardReplacement env result s) = canceled s"
  by (simp_all add: discardReplacement_def Let_def split_beta)

lemma replace_abandoned_frame [simp]:
  "preparing (replace_abandoned env result s) = preparing s"
  "prepared (replace_abandoned env result s) = prepared s"
  "replacing (replace_abandoned env result s) = replacing s"
  "active (replace_abandoned env result s) = active s"
  "activeCandidate (replace_abandoned env result s) = activeCandidate s"
  "activeRevision (replace_abandoned env result s) = activeRevision s"
  "activeWait (replace_abandoned env result s) = activeWait s"
  "current_revision (replace_abandoned env result s) = current_revision s"
  "dropped (replace_abandoned env result s) = dropped s"
  "launched (replace_abandoned env result s) = launched s"
  "next_candidate (replace_abandoned env result s) = next_candidate s"
  "next_process (replace_abandoned env result s) = next_process s"
  "debounce (replace_abandoned env result s) = debounce s"
  "debounceC (replace_abandoned env result s) = debounceC s"
  "loop_ended (replace_abandoned env result s) = loop_ended s"
  "run_canceled (replace_abandoned env result s) = run_canceled s"
  "canceled (replace_abandoned env result s) = canceled s"
  by (simp_all add: replace_abandoned_def)

lemma startReplacement_frame [simp]:
  "preparing (startReplacement result s) = preparing s"
  "prepared (startReplacement result s) = prepared s"
  "active (startReplacement result s) = active s"
  "activeCandidate (startReplacement result s) = activeCandidate s"
  "activeRevision (startReplacement result s) = activeRevision s"
  "activeWait (startReplacement result s) = activeWait s"
  "current_revision (startReplacement result s) = current_revision s"
  "disposed (startReplacement result s) = disposed s"
  "dropped (startReplacement result s) = dropped s"
  "launched (startReplacement result s) = launched s"
  "ended (startReplacement result s) = ended s"
  "next_candidate (startReplacement result s) = next_candidate s"
  "next_process (startReplacement result s) = next_process s"
  "debounce (startReplacement result s) = debounce s"
  "debounceC (startReplacement result s) = debounceC s"
  "loop_ended (startReplacement result s) = loop_ended s"
  "run_canceled (startReplacement result s) = run_canceled s"
  by (simp_all add: startReplacement_def Let_def)

lemma startPreparation_frame [simp]:
  "prepared (startPreparation changes s) = prepared s"
  "replacing (startPreparation changes s) = replacing s"
  "active (startPreparation changes s) = active s"
  "activeCandidate (startPreparation changes s) = activeCandidate s"
  "activeRevision (startPreparation changes s) = activeRevision s"
  "activeWait (startPreparation changes s) = activeWait s"
  "disposed (startPreparation changes s) = disposed s"
  "dropped (startPreparation changes s) = dropped s"
  "launched (startPreparation changes s) = launched s"
  "ended (startPreparation changes s) = ended s"
  "next_candidate (startPreparation changes s) = next_candidate s"
  "next_process (startPreparation changes s) = next_process s"
  "debounce (startPreparation changes s) = debounce s"
  "debounceC (startPreparation changes s) = debounceC s"
  "loop_ended (startPreparation changes s) = loop_ended s"
  "run_canceled (startPreparation changes s) = run_canceled s"
  "canceled (startPreparation changes s) = canceled s"
  by (simp_all add: startPreparation_def Let_def)

lemma acceptFileEvent_frame [simp]:
  "preparing (acceptFileEvent U now later event s) = preparing s"
  "prepared (acceptFileEvent U now later event s) = prepared s"
  "replacing (acceptFileEvent U now later event s) = replacing s"
  "active (acceptFileEvent U now later event s) = active s"
  "activeCandidate (acceptFileEvent U now later event s) = activeCandidate s"
  "activeRevision (acceptFileEvent U now later event s) = activeRevision s"
  "activeWait (acceptFileEvent U now later event s) = activeWait s"
  "current_revision (acceptFileEvent U now later event s) = current_revision s"
  "disposed (acceptFileEvent U now later event s) = disposed s"
  "dropped (acceptFileEvent U now later event s) = dropped s"
  "launched (acceptFileEvent U now later event s) = launched s"
  "ended (acceptFileEvent U now later event s) = ended s"
  "next_candidate (acceptFileEvent U now later event s) = next_candidate s"
  "next_process (acceptFileEvent U now later event s) = next_process s"
  "loop_ended (acceptFileEvent U now later event s) = loop_ended s"
  "run_canceled (acceptFileEvent U now later event s) = run_canceled s"
  by (simp_all add: acceptFileEvent_def Let_def split: sum.splits)

lemma acceptPending_frame [simp]:
  "prepared (acceptPending now later s) = prepared s"
  "replacing (acceptPending now later s) = replacing s"
  "active (acceptPending now later s) = active s"
  "activeCandidate (acceptPending now later s) = activeCandidate s"
  "activeRevision (acceptPending now later s) = activeRevision s"
  "activeWait (acceptPending now later s) = activeWait s"
  "disposed (acceptPending now later s) = disposed s"
  "dropped (acceptPending now later s) = dropped s"
  "launched (acceptPending now later s) = launched s"
  "ended (acceptPending now later s) = ended s"
  "next_candidate (acceptPending now later s) = next_candidate s"
  "next_process (acceptPending now later s) = next_process s"
  "loop_ended (acceptPending now later s) = loop_ended s"
  "run_canceled (acceptPending now later s) = run_canceled s"
  "canceled (acceptPending now later s) = canceled s"
  by (simp_all add: acceptPending_def Let_def split_beta)

lemma finishPreparation_frame [simp]:
  "preparing (finishPreparation env result s) = preparing s"
  "prepared (finishPreparation env result s) = prepared s"
  "active (finishPreparation env result s) = active s"
  "activeCandidate (finishPreparation env result s) = activeCandidate s"
  "activeRevision (finishPreparation env result s) = activeRevision s"
  "activeWait (finishPreparation env result s) = activeWait s"
  "current_revision (finishPreparation env result s) = current_revision s"
  "launched (finishPreparation env result s) = launched s"
  "ended (finishPreparation env result s) = ended s"
  "next_candidate (finishPreparation env result s) = next_candidate s"
  "next_process (finishPreparation env result s) = next_process s"
  "debounce (finishPreparation env result s) = debounce s"
  "debounceC (finishPreparation env result s) = debounceC s"
  "loop_ended (finishPreparation env result s) = loop_ended s"
  "run_canceled (finishPreparation env result s) = run_canceled s"
  by (simp_all add: finishPreparation_def Let_def split_beta)

lemma finishReplacement_frame [simp]:
  "preparing (finishReplacement env result s) = preparing s"
  "prepared (finishReplacement env result s) = prepared s"
  "replacing (finishReplacement env result s) = replacing s"
  "current_revision (finishReplacement env result s) = current_revision s"
  "dropped (finishReplacement env result s) = dropped s"
  "launched (finishReplacement env result s) = launched s"
  "next_candidate (finishReplacement env result s) = next_candidate s"
  "next_process (finishReplacement env result s) = next_process s"
  "debounce (finishReplacement env result s) = debounce s"
  "debounceC (finishReplacement env result s) = debounceC s"
  "loop_ended (finishReplacement env result s) = loop_ended s"
  "run_canceled (finishReplacement env result s) = run_canceled s"
  by (simp_all add: finishReplacement_def Let_def split_beta)

lemma finishApplication_frame [simp]:
  "preparing (finishApplication env err s) = preparing s"
  "prepared (finishApplication env err s) = prepared s"
  "replacing (finishApplication env err s) = replacing s"
  "current_revision (finishApplication env err s) = current_revision s"
  "dropped (finishApplication env err s) = dropped s"
  "launched (finishApplication env err s) = launched s"
  "ended (finishApplication env err s) = ended s"
  "next_candidate (finishApplication env err s) = next_candidate s"
  "next_process (finishApplication env err s) = next_process s"
  "debounce (finishApplication env err s) = debounce s"
  "debounceC (finishApplication env err s) = debounceC s"
  "loop_ended (finishApplication env err s) = loop_ended s"
  "run_canceled (finishApplication env err s) = run_canceled s"
  "canceled (finishApplication env err s) = canceled s"
  by (simp_all add: finishApplication_def Let_def split_beta)

lemma end_run_frame [simp]:
  "preparing (snd (end_run env s)) = preparing s" "prepared (snd (end_run env s)) = prepared s"
  "replacing (snd (end_run env s)) = replacing s"
  "current_revision (snd (end_run env s)) = current_revision s"
  "dropped (snd (end_run env s)) = dropped s" "launched (snd (end_run env s)) = launched s"
  "next_candidate (snd (end_run env s)) = next_candidate s"
  "next_process (snd (end_run env s)) = next_process s"
  "debounce (snd (end_run env s)) = debounce s"
  by (simp_all add: end_run_def stopActive_def Let_def split_beta split: option.splits)

lemma prepare_returns_frame [simp]:
  "preparing (prepare_returns batch made err s) = preparing s"
  "replacing (prepare_returns batch made err s) = replacing s"
  "active (prepare_returns batch made err s) = active s"
  "activeCandidate (prepare_returns batch made err s) = activeCandidate s"
  "activeRevision (prepare_returns batch made err s) = activeRevision s"
  "activeWait (prepare_returns batch made err s) = activeWait s"
  "current_revision (prepare_returns batch made err s) = current_revision s"
  "disposed (prepare_returns batch made err s) = disposed s"
  "dropped (prepare_returns batch made err s) = dropped s"
  "launched (prepare_returns batch made err s) = launched s"
  "ended (prepare_returns batch made err s) = ended s"
  "next_process (prepare_returns batch made err s) = next_process s"
  "debounce (prepare_returns batch made err s) = debounce s"
  "debounceC (prepare_returns batch made err s) = debounceC s"
  "loop_ended (prepare_returns batch made err s) = loop_ended s"
  "run_canceled (prepare_returns batch made err s) = run_canceled s"
  "canceled (prepare_returns batch made err s) = canceled s"
  by (simp_all add: prepare_returns_def Let_def)


lemma canceled_grows [simp]:
  "set (canceled s) \<subseteq> set (canceled (cancel_replacement s))"
  "set (canceled s) \<subseteq> set (canceled (cancelPreparations s))"
  "set (canceled s) \<subseteq> set (canceled (forget_cancel r s))"
  by (auto simp: cancel_replacement_def cancel_def cancelPreparations_def forget_cancel_def
      split: option.splits)

lemma canceled_grows_startReplacement [simp]:
  "set (canceled s) \<subseteq> set (canceled (startReplacement result s))"
  using canceled_grows(1) [of s] by (simp add: startReplacement_def Let_def)

lemma canceled_grows_handlers:
  "set (canceled s) \<subseteq> set (canceled (acceptFileEvent U now later e s))"
  "set (canceled s) \<subseteq> set (canceled (finishPreparation env p s))"
  "set (canceled s) \<subseteq> set (canceled (finishReplacement env r s))"
  "set (canceled s) \<subseteq> set (canceled (snd (end_run env s)))"
proof -
  show "set (canceled s) \<subseteq> set (canceled (acceptFileEvent U now later e s))"
    using canceled_grows(2) [of s] canceled_grows(1) [of "cancelPreparations s"]
    by (auto simp: acceptFileEvent_def Let_def cancelPreparations_def cancel_replacement_def
        cancel_def split: sum.splits option.splits)
  show "set (canceled s) \<subseteq> set (canceled (finishPreparation env p s))"
  proof -
    have "set (canceled s) \<subseteq> set (canceled (startReplacement p (emit e (forget_cancel r s))))" for e r
      using canceled_grows_startReplacement [of "emit e (forget_cancel r s)" p] canceled_grows(3) [of s r]
      by (metis (no_types, lifting) emit_frame(19) subset_trans)
    moreover have "set (canceled s) \<subseteq> set (canceled (forget_cancel r s))" for r by simp
    ultimately show ?thesis by (simp add: finishPreparation_def Let_def split_beta)
  qed
  show "set (canceled s) \<subseteq> set (canceled (finishReplacement env r s))"
    using canceled_grows(1) [of s] by (simp add: finishReplacement_def Let_def)
  show "set (canceled s) \<subseteq> set (canceled (snd (end_run env s)))"
    by (auto simp: end_run_def stopActive_def cancelWork_def cancel_replacement_def cancel_def
        cancelPreparations_def Let_def split_beta split: option.splits)
qed

lemma step_canceled:
  assumes "engine_step U env s s'"
  shows "(run_canceled s \<longrightarrow> run_canceled s') \<and> set (canceled s) \<subseteq> set (canceled s')"
  using assms
proof cases
  case (preparation_received xs r ys)
  then show ?thesis using canceled_grows_handlers(2) [of "s\<lparr>prepared := xs @ ys\<rparr>"] by simp
next
  case (replacement_received xs job ys)
  then show ?thesis using canceled_grows_handlers(3) [of "s\<lparr>replacing := xs @ ys\<rparr>"] by simp
next
  case loop_returns
  then show ?thesis
    using canceled_grows_handlers(4) [of s]
    by (simp add: end_run_def stopActive_def Let_def split_beta split: option.splits)
qed (use canceled_grows_handlers(1) in \<open>simp_all\<close>)

lemma no_active_fields [simp]:
  "active (no_active s) = None" "activeCandidate (no_active s) = None"
  "activeRevision (no_active s) = 0" "activeWait (no_active s) = None"
  by (simp_all add: no_active_def)

lemma Dispose_None [simp]: "snd (Dispose env None s) = s"
  by (simp add: Dispose_def)

lemma disposed_Dispose [simp]:
  "disposed (snd (Dispose env (Some c) s)) =
     (if c \<in> set (disposed s) then disposed s else disposed s @ [c])"
  by (simp add: Dispose_def)

lemma ended_stop [simp]:
  "ended (snd (stop_process env None s)) = ended s"
  "ended (snd (stop_process env (Some p) s)) = p # ended s"
  "ended (snd (Stop env p s)) = p # ended s"
  by (simp_all add: stop_process_def Stop_def)

lemma dropped_drop [simp]:
  "drop_candidate None s = s" "dropped (drop_candidate (Some c) s) = dropped s @ [c]"
  by (simp_all add: drop_candidate_def)

section \<open>Owners of candidates\<close>

text \<open>
  A candidate is owned together with the process started from it, if there is one: by a
  finished preparation, by a replacement, by the active application, or by the handler that
  has just received a result (\<open>X\<close>).
\<close>

definition opt_owner :: "candidate \<Rightarrow> process option \<Rightarrow> (nat \<times> process option) list" where
  "opt_owner cand proc = (case cand of None \<Rightarrow> [] | Some c \<Rightarrow> [(c, proc)])"

definition job_owner :: "replace_job \<Rightarrow> (nat \<times> process option) list" where
  "job_owner job = opt_owner (rep_candidate (job_result job)) (rep_process (job_result job))"

definition owners :: "system \<Rightarrow> (nat \<times> process option) list" where
  "owners s =
     concat (map (\<lambda>r. opt_owner (prep_candidate r) None) (prepared s)) @
     concat (map job_owner (replacing s)) @ opt_owner (activeCandidate s) (active s)"

definition launches_ended :: "system \<Rightarrow> nat \<Rightarrow> process option \<Rightarrow> bool" where
  "launches_ended s c proc =
     (\<forall>p. (p, Some c) \<in> set (launched s) \<longrightarrow> proc = Some p \<or> p \<in> set (ended s))"

definition candidates_ok :: "(nat \<times> process option) list \<Rightarrow> system \<Rightarrow> bool" where
  "candidates_ok X s =
     (mset (map fst (X @ owners s)) + mset (disposed s) + mset (dropped s)
        = mset [0..<next_candidate s] \<and>
      (\<forall>(c, proc) \<in> set (X @ owners s). launches_ended s c proc) \<and>
      (\<forall>c \<in> set (disposed s) \<union> set (dropped s). launches_ended s c None) \<and>
      (\<forall>p c. (p, Some c) \<in> set (launched s) \<longrightarrow> c < next_candidate s))"

lemma launches_ended_frame [simp]:
  "launches_ended (snd (Dispose env cand s)) = launches_ended s"
  "launches_ended (drop_candidate cand s) = launches_ended s"
  by (simp_all add: fun_eq_iff launches_ended_def)

lemma launches_ended_mono:
  "launches_ended s c proc \<Longrightarrow> launches_ended (s\<lparr>ended := p # ended s\<rparr>) c proc"
  by (auto simp: launches_ended_def)

lemma opt_owner_simps [simp]:
  "opt_owner None proc = []" "opt_owner (Some c) proc = [(c, proc)]"
  by (simp_all add: opt_owner_def)

lemma candidates_ok_cong:
  assumes "mset (X @ owners s) = mset (X' @ owners s')" "disposed s = disposed s'"
    "dropped s = dropped s'" "launched s = launched s'" "ended s = ended s'"
    "next_candidate s = next_candidate s'"
  shows "candidates_ok X s = candidates_ok X' s'"
proof -
  have "mset (map fst (X @ owners s)) = mset (map fst (X' @ owners s'))"
    using assms(1) by (metis mset_map)
  moreover have "set (X @ owners s) = set (X' @ owners s')"
    using assms(1) by (metis set_mset_mset)
  ultimately show ?thesis
    unfolding candidates_ok_def launches_ended_def using assms(2-) by presburger
qed

lemma candidates_ok_frame [simp]:
  "candidates_ok X (emit e s) = candidates_ok X s"
  "candidates_ok X (cancel c s) = candidates_ok X s"
  "candidates_ok X (cancel_replacement s) = candidates_ok X s"
  "candidates_ok X (cancelPreparations s) = candidates_ok X s"
  "candidates_ok X (forget_cancel r s) = candidates_ok X s"
  "candidates_ok X (emitCleanupFailure r err s) = candidates_ok X s"
  "candidates_ok X (resetDebounceTimer now s) = candidates_ok X s"
  "candidates_ok X (stopDebounceTimer s) = candidates_ok X s"
  "candidates_ok X (s\<lparr>replaceStop := rs\<rparr>) = candidates_ok X s"
  "candidates_ok X (s\<lparr>debounce := d\<rparr>) = candidates_ok X s"
  "candidates_ok X (s\<lparr>debounceC := b\<rparr>) = candidates_ok X s"
  "candidates_ok X (s\<lparr>next_ctx := n\<rparr>) = candidates_ok X s"
  "candidates_ok X (s\<lparr>preparing := pr\<rparr>) = candidates_ok X s"
  "candidates_ok X (s\<lparr>cancels := cs\<rparr>) = candidates_ok X s"
  "candidates_ok X (s\<lparr>current_revision := r\<rparr>) = candidates_ok X s"
  "candidates_ok X (s\<lparr>watchErrorsOpen := b\<rparr>) = candidates_ok X s"
  "candidates_ok X (s\<lparr>loop_ended := b\<rparr>) = candidates_ok X s"
  "candidates_ok X (s\<lparr>run_canceled := b\<rparr>) = candidates_ok X s"
  by (rule candidates_ok_cong; simp add: owners_def)+

lemma owned_not_disposed:
  assumes "candidates_ok X s" "(c, proc) \<in> set (X @ owners s)"
  shows "c \<notin> set (disposed s)"
proof
  assume "c \<in> set (disposed s)"
  then have "0 < count (mset (disposed s)) c" by simp
  moreover have "c \<in> set (map fst (X @ owners s))"
    using assms(2) by (metis fst_conv image_eqI list.set_map)
  then have "0 < count (mset (map fst (X @ owners s))) c" by (simp only: count_mset_gt_0 set_mset_mset)
  moreover have "count (mset (map fst (X @ owners s))) c + count (mset (disposed s)) c
      + count (mset (dropped s)) c = count (mset [0..<next_candidate s]) c"
    using assms(1) unfolding candidates_ok_def by (metis count_union)
  moreover have "count (mset [0..<next_candidate s]) c \<le> 1"
    using distinct_count_atmost_1 [of "[0..<next_candidate s]"] by (auto simp: le_Suc_eq)
  ultimately show False by linarith
qed

lemma candidates_ok_dispose:
  assumes "candidates_ok (opt_owner cand proc @ X) s"
    and "\<And>p. proc = Some p \<Longrightarrow> p \<in> set (ended s)"
  shows "candidates_ok X (snd (Dispose env cand s))"
proof (cases cand)
  case (Some c)
  then have fresh: "c \<notin> set (disposed s)" using owned_not_disposed [OF assms(1)] by auto
  have "launches_ended s c None"
    using assms Some by (auto simp: candidates_ok_def launches_ended_def)
  moreover have "owners (snd (Dispose env (Some c) s)) = owners s" by (simp add: owners_def)
  ultimately show ?thesis
    using assms(1) fresh Some unfolding candidates_ok_def by auto
qed (use assms in simp)

lemma candidates_ok_drop:
  assumes "candidates_ok (opt_owner cand None @ X) s"
  shows "candidates_ok X (drop_candidate cand s)"
proof (cases cand)
  case (Some c)
  have "launches_ended s c None"
    using assms Some by (auto simp: candidates_ok_def launches_ended_def)
  moreover have "owners (drop_candidate (Some c) s) = owners s" by (simp add: owners_def)
  ultimately show ?thesis
    using assms Some unfolding candidates_ok_def by auto
qed (use assms in simp)

lemma candidates_ok_ended:
  assumes "candidates_ok X s"
  shows "candidates_ok X (s\<lparr>ended := p # ended s\<rparr>)"
proof -
  have "owners (s\<lparr>ended := p # ended s\<rparr>) = owners s" by (simp add: owners_def)
  then show ?thesis
    using assms launches_ended_mono [of s] unfolding candidates_ok_def by fastforce
qed

lemma candidates_ok_stop:
  assumes "candidates_ok X s"
  shows "candidates_ok X (snd (stop_process env proc s))"
  using assms candidates_ok_ended by (cases proc) (simp_all add: stop_process_def Stop_def)

lemma candidates_ok_no_active:
  assumes "candidates_ok X s"
  shows "candidates_ok (opt_owner (activeCandidate s) (active s) @ X) (no_active s)"
  using assms by (rule candidates_ok_cong [THEN iffD1, rotated -1]) (simp_all add: owners_def)

lemma Dispose_no_active:
  "no_active (snd (Dispose env cand s)) = snd (Dispose env cand (no_active s))"
  by (simp add: Dispose_def no_active_def split: option.splits)

lemma emitCleanupFailure_ok [simp]:
  "candidates_ok X (no_active (emitCleanupFailure r err s)) = candidates_ok X (no_active s)"
  by (rule candidates_ok_cong) (simp_all add: owners_def)

lemma candidates_ok_retire:
  assumes "candidates_ok X s" "\<And>p. active s = Some p \<Longrightarrow> p \<in> set (ended s)"
  shows "candidates_ok X (no_active (snd (Dispose env (activeCandidate s) s)))"
  unfolding Dispose_no_active
  by (rule candidates_ok_dispose [OF candidates_ok_no_active [OF assms(1)]]) (use assms(2) in simp)

lemma put_back:
  "replacing s = js \<Longrightarrow> s\<lparr>replacing := js\<rparr> = s" "prepared s = rs \<Longrightarrow> s\<lparr>prepared := rs\<rparr> = s"
  by (cases s, simp)+

lemma job_out:
  "candidates_ok X (s\<lparr>replacing := xs @ job # ys\<rparr>) =
     candidates_ok (job_owner job @ X) (s\<lparr>replacing := xs @ ys\<rparr>)"
  by (rule candidates_ok_cong) (simp_all add: owners_def)

lemma prep_out:
  "candidates_ok X (s\<lparr>prepared := xs @ r # ys\<rparr>) =
     candidates_ok (opt_owner (prep_candidate r) None @ X) (s\<lparr>prepared := xs @ ys\<rparr>)"
  by (rule candidates_ok_cong) (simp_all add: owners_def)

lemma candidates_ok_others:
  assumes "candidates_ok ((c, proc) # X) s"
  shows "c \<notin> fst ` set (X @ owners s)" "c \<notin> set (disposed s)" "c \<notin> set (dropped s)"
    "c < next_candidate s"
proof -
  let ?rest = "map fst (X @ owners s) @ disposed s @ dropped s"
  have eq: "mset (c # ?rest) = mset [0..<next_candidate s]"
    using assms by (simp add: candidates_ok_def ac_simps)
  then have "distinct (c # ?rest)"
    using mset_eq_imp_distinct_iff [OF eq] distinct_upt by blast
  then show "c \<notin> fst ` set (X @ owners s)" "c \<notin> set (disposed s)" "c \<notin> set (dropped s)"
    by auto
  have "set (c # ?rest) = set [0..<next_candidate s]" using eq by (metis set_mset_mset)
  then have "c \<in> set [0..<next_candidate s]" by (metis list.set_intros(1))
  then show "c < next_candidate s" by simp
qed

lemma candidates_ok_launch:
  assumes "candidates_ok (opt_owner cand None @ X) s"
  shows "candidates_ok (opt_owner cand (Some p) @ X) (s\<lparr>launched := (p, cand) # launched s\<rparr>)"
proof (cases cand)
  case None
  let ?s = "s\<lparr>launched := (p, cand) # launched s\<rparr>"
  have "launches_ended ?s = launches_ended s"
    using None by (intro ext) (simp add: launches_ended_def)
  moreover have "owners ?s = owners s" by (simp add: owners_def)
  ultimately show ?thesis using assms None unfolding candidates_ok_def by simp
next
  case (Some c)
  let ?s = "s\<lparr>launched := (p, cand) # launched s\<rparr>"
  have others: "c \<notin> fst ` set (X @ owners s)" "c \<notin> set (disposed s)" "c \<notin> set (dropped s)"
      "c < next_candidate s"
    using candidates_ok_others [of c None X s] assms Some by simp_all
  have owners: "owners ?s = owners s" by (simp add: owners_def)
  have keep: "launches_ended ?s c' proc = launches_ended s c' proc" if "c' \<noteq> c" for c' proc
    using that Some by (auto simp: launches_ended_def)
  have new: "launches_ended ?s c (Some p)"
    using assms Some by (auto simp: candidates_ok_def launches_ended_def)
  have old: "launches_ended s c' proc" if "(c', proc) \<in> set (X @ owners s)" for c' proc
    using that assms by (auto simp: candidates_ok_def)
  have "launches_ended ?s c' proc" if m: "(c', proc) \<in> set (X @ owners s)" for c' proc
  proof -
    have "c' \<noteq> c" using m others(1) by (metis fst_conv image_eqI)
    then show ?thesis using keep old [OF m] by simp
  qed
  moreover have "launches_ended ?s c' None" if "c' \<in> set (disposed s) \<union> set (dropped s)" for c'
    using that keep [of c' None] others(2,3) assms Some by (force simp: candidates_ok_def)
  ultimately have "\<forall>(c', proc) \<in> set (opt_owner cand (Some p) @ X @ owners s). launches_ended ?s c' proc"
      "\<forall>c' \<in> set (disposed s) \<union> set (dropped s). launches_ended ?s c' None"
    using new Some by (simp_all add: case_prod_beta ball_Un)
  moreover have "\<forall>q c'. (q, Some c') \<in> set (launched ?s) \<longrightarrow> c' < next_candidate s"
    using assms others(4) Some by (auto simp: candidates_ok_def)
  ultimately show ?thesis
    using assms Some unfolding candidates_ok_def owners by simp
qed

lemma candidates_ok_undo:
  assumes "candidates_ok (opt_owner cand (Some p) @ X) s"
  shows "candidates_ok (opt_owner cand None @ X) (s\<lparr>ended := p # ended s\<rparr>)"
proof (cases cand)
  case (Some c)
  let ?s = "s\<lparr>ended := p # ended s\<rparr>"
  have "launches_ended ?s c None"
    using assms Some by (auto simp: candidates_ok_def launches_ended_def)
  moreover have "owners ?s = owners s" by (simp add: owners_def)
  ultimately show ?thesis
    using candidates_ok_ended [OF assms, of p] Some unfolding candidates_ok_def by auto
qed (use assms candidates_ok_ended in simp)

lemma candidates_ok_prepare:
  assumes "candidates_ok X s"
  shows "candidates_ok X (prepare_returns batch made err s)"
proof -
  let ?s = "prepare_returns batch made err s"
  let ?new = "opt_owner (if made then Some (next_candidate s) else None) None"
  have "owners ?s = concat (map (\<lambda>r. opt_owner (prep_candidate r) None) (prepared s)) @ ?new @
      concat (map job_owner (replacing s)) @ opt_owner (activeCandidate s) (active s)"
    by (simp add: owners_def prepare_returns_def Let_def)
  then have owners: "mset (owners ?s) = mset ?new + mset (owners s)" "set (owners ?s) = set ?new \<union> set (owners s)"
    by (auto simp: owners_def)
  have same: "launches_ended ?s = launches_ended s" "disposed ?s = disposed s"
      "dropped ?s = dropped s" "launched ?s = launched s"
    by (simp_all add: fun_eq_iff launches_ended_def prepare_returns_def Let_def)
  have fresh: "launches_ended s (next_candidate s) None"
    using assms by (fastforce simp: candidates_ok_def launches_ended_def)
  show ?thesis
  proof (cases made)
    case True
    then have n: "next_candidate ?s = next_candidate s + 1" by (simp add: prepare_returns_def Let_def)
    have "mset (map fst (X @ owners ?s)) = add_mset (next_candidate s) (mset (map fst (X @ owners s)))"
      using owners(1) True by simp
    then show ?thesis
      using assms fresh owners(2) True unfolding candidates_ok_def same n by (auto simp: less_Suc_eq)
  next
    case False
    then have n: "next_candidate ?s = next_candidate s" by (simp add: prepare_returns_def Let_def)
    show ?thesis
      using assms owners False unfolding candidates_ok_def same n by simp
  qed
qed

section \<open>Replacement jobs and the active application\<close>

definition job_stage_ok :: "replace_job \<Rightarrow> bool" where
  "job_stage_ok j =
     ((rep_process (job_result j) \<noteq> None \<longrightarrow> job_stage j = Undoing \<or> job_stage j = Sending) \<and>
      (job_stage j = Sending \<and> rep_err (job_result j) = None \<longrightarrow> rep_process (job_result j) \<noteq> None) \<and>
      (job_previous j = None \<longrightarrow> \<not> previousStopped (job_result j)) \<and>
      (job_previous j \<noteq> None \<and> job_stage j \<noteq> Stopping \<longrightarrow> previousStopped (job_result j)))"

text \<open>
  How a replacement relates to the state: the process it stopped has ended; the active
  application of the revision it set out to replace is that process; and as long as the job's
  revision is the current one, nothing else has become active.
\<close>

definition undoing_ok :: "system \<Rightarrow> replace_job \<Rightarrow> bool" where
  "undoing_ok s j = (job_stage j = Undoing \<longrightarrow> ctx_err s (job_ctx j) \<noteq> None)"

definition job_ok :: "system \<Rightarrow> replace_job \<Rightarrow> bool" where
  "job_ok s j =
     (job_stage_ok j \<and>
      (\<forall>p. job_previous j = Some p \<longrightarrow>
         (previousStopped (job_result j) \<longrightarrow> p \<in> set (ended s)) \<and>
         (active s \<noteq> None \<and> activeRevision s = previousRevision (job_result j) \<longrightarrow> active s = Some p)) \<and>
      (rep_revision (job_result j) = current_revision s \<longrightarrow>
         active s = None \<or>
         active s = job_previous j \<and> activeRevision s = previousRevision (job_result j)))"

definition active_ok :: "system \<Rightarrow> bool" where
  "active_ok s =
     ((active s = None \<longrightarrow> activeCandidate s = None) \<and> activeWait s = active s \<and>
      (loop_ended s \<longrightarrow> active s = None))"

definition live_revisions :: "system \<Rightarrow> revision list" where
  "live_revisions s =
     map (\<lambda>(c, b). Revision b) (preparing s) @ map prep_revision (prepared s) @
     map (\<lambda>j. rep_revision (job_result j)) (replacing s)"

definition past_revisions :: "system \<Rightarrow> revision set" where
  "past_revisions s =
     (if active s = None then {} else {activeRevision s}) \<union>
     {previousRevision (job_result j) | j. j \<in> set (replacing s) \<and> job_previous j \<noteq> None}"

definition revisions_ok :: "revision list \<Rightarrow> system \<Rightarrow> bool" where
  "revisions_ok Y s =
     (distinct (Y @ live_revisions s) \<and> set (Y @ live_revisions s) \<inter> past_revisions s = {} \<and>
      (\<forall>r \<in> set (Y @ live_revisions s) \<union> past_revisions s. r \<le> current_revision s))"

text \<open>Every launched process has ended or is still in somebody's hands (\<open>Z\<close>: the handler's).\<close>

definition processes_ok :: "process option \<Rightarrow> system \<Rightarrow> bool" where
  "processes_ok Z s =
     (\<forall>(p, cand) \<in> set (launched s).
        p \<in> set (ended s) \<or> active s = Some p \<or> Z = Some p \<or>
        (\<exists>j \<in> set (replacing s). rep_process (job_result j) = Some p))"

text \<open>A pending change is always waited for.\<close>

definition timer_ok :: "system \<Rightarrow> bool" where
  "timer_ok s =
     (debouncer_ok (debounce s) \<and> (\<not> loop_ended s \<and> Pending (debounce s) \<longrightarrow> debounceC s))"

definition engine_inv :: "system \<Rightarrow> bool" where
  "engine_inv s =
     (candidates_ok [] s \<and> (\<forall>j \<in> set (replacing s). job_ok s j \<and> undoing_ok s j) \<and> active_ok s \<and>
      revisions_ok [] s \<and> processes_ok None s \<and> timer_ok s)"

section \<open>Candidates\<close>

lemma startPreparation_candidates [simp]:
  "candidates_ok X (startPreparation changes s) = candidates_ok X s"
  by (simp add: startPreparation_def Let_def)

lemma startReplacement_candidates:
  assumes "candidates_ok (opt_owner (prep_candidate result) None @ X) s"
  shows "candidates_ok X (startReplacement result s)"
proof -
  have "candidates_ok X (s'\<lparr>replacing := replacing s' @ [job]\<rparr>)"
    if "candidates_ok (job_owner job @ X) s'" for s' job
    using that job_out [where s = s' and xs = "replacing s'" and ys = "[]"] by simp
  then show ?thesis
    using assms by (simp add: startReplacement_def Let_def job_owner_def)
qed

lemma finishPreparation_candidates:
  assumes "candidates_ok (opt_owner (prep_candidate result) None) s"
  shows "candidates_ok [] (finishPreparation env result s)"
proof -
  let ?s = "forget_cancel (prep_revision result) s"
  have start: "candidates_ok (opt_owner (prep_candidate result) None @ []) ?s" using assms by simp
  have d: "candidates_ok [] (snd (Dispose env (prep_candidate result) ?s))"
    by (rule candidates_ok_dispose [OF start]) simp
  have p: "candidates_ok [] (drop_candidate (prep_candidate result) ?s)"
    by (rule candidates_ok_drop [OF start])
  have r: "candidates_ok [] (startReplacement result (emit e ?s))" for e
    using start by (intro startReplacement_candidates) simp
  show ?thesis
    using d p r by (auto simp: finishPreparation_def Let_def split_beta)
qed

lemma retire_candidates:
  assumes "candidates_ok X s"
    and "\<And>p. previousStopped result \<Longrightarrow> activeRevision s = previousRevision result \<Longrightarrow>
           active s = Some p \<Longrightarrow> p \<in> set (ended s)"
  shows "candidates_ok X (retire_previous env result s)"
  using assms candidates_ok_retire [OF assms(1), of env]
  by (auto simp: retire_previous_def Let_def split_beta)

lemma discard_candidates:
  assumes "candidates_ok (opt_owner (rep_candidate result) (rep_process result) @ X) s"
  shows "candidates_ok X (discardReplacement env result s)"
proof -
  let ?s = "snd (stop_process env (rep_process result) s)"
  have "candidates_ok X (snd (Dispose env (rep_candidate result) ?s))"
  proof (rule candidates_ok_dispose)
    show "candidates_ok (opt_owner (rep_candidate result) (rep_process result) @ X) ?s"
      by (rule candidates_ok_stop [OF assms])
  qed (auto simp: stop_process_def Stop_def)
  then show ?thesis by (simp add: discardReplacement_def Let_def split_beta)
qed

lemma abandoned_candidates:
  assumes "candidates_ok (opt_owner (rep_candidate result) (rep_process result) @ X) s"
  shows "candidates_ok X (replace_abandoned env result s)"
  unfolding replace_abandoned_def
  by (rule candidates_ok_dispose [OF candidates_ok_stop [OF assms]])
    (auto simp: stop_process_def Stop_def)

lemma finishReplacement_candidates:
  assumes "candidates_ok (job_owner j) s" "job_ok s j" "active_ok s" "job_stage j = Sending"
  shows "candidates_ok [] (finishReplacement env (job_result j) s)"
proof -
  let ?r = "job_result j"
  let ?s1 = "(cancel_replacement s)\<lparr>replaceStop := None\<rparr>"
  let ?s2 = "retire_previous env ?r ?s1"
  have prev: "p \<in> set (ended s)" if "previousStopped ?r" "activeRevision s = previousRevision ?r"
    "active s = Some p" for p
    using that assms(2) by (cases "job_previous j") (auto simp: job_ok_def job_stage_ok_def)
  have s2: "candidates_ok (job_owner j) ?s2"
    using assms(1) prev by (intro retire_candidates) auto
  have discard: "candidates_ok [] (discardReplacement env ?r (emit e ?s2))"
      "candidates_ok [] (discardReplacement env ?r ?s2)" for e
    using s2 by (auto intro!: discard_candidates simp: job_owner_def)
  have idle: "active ?s2 = None \<and> activeCandidate ?s2 = None"
    if "rep_revision ?r = current_revision s" "rep_err ?r = None"
    using that assms(2-4)
    by (cases "job_previous j")
      (auto simp: job_ok_def job_stage_ok_def active_ok_def retire_previous_def Let_def
        split_beta)
  have cur: "current_revision ?s2 = current_revision s" by simp
  have activate: "candidates_ok [] (s'\<lparr>active := rep_process ?r, activeCandidate := rep_candidate ?r,
        activeRevision := rep_revision ?r, activeWait := rep_process ?r\<rparr>) =
      candidates_ok (job_owner j) s'" if "activeCandidate s' = None" for s'
    by (rule candidates_ok_cong) (use that in \<open>simp_all add: owners_def job_owner_def\<close>)
  show ?thesis
    using s2 discard idle cur activate
    by (auto simp: finishReplacement_def Let_def)
qed

lemma same_owner:
  assumes "candidates_ok [] s" "replacing s = xs @ job # ys" "job_owner job' = job_owner job"
  shows "candidates_ok [] (s\<lparr>replacing := xs @ job' # ys\<rparr>)"
proof -
  have "candidates_ok [] (s\<lparr>replacing := xs @ job # ys\<rparr>)" using assms(1) put_back(1) [OF assms(2)] by simp
  then show ?thesis using assms(3) by (simp only: job_out)
qed

lemma stopActive_candidates:
  assumes "candidates_ok [] s" "active s = None \<Longrightarrow> activeCandidate s = None"
  shows "candidates_ok [] (snd (stopActive env s))"
proof (cases "active s")
  case None
  then show ?thesis using assms by (simp add: stopActive_def)
next
  case (Some p)
  let ?s = "snd (Stop env p s)"
  have "candidates_ok [] ?s" using candidates_ok_ended [OF assms(1)] by (simp add: Stop_def)
  then have "candidates_ok [] (no_active (snd (Dispose env (activeCandidate ?s) ?s)))"
    by (rule candidates_ok_retire) (use Some in simp)
  then show ?thesis using Some by (simp add: stopActive_def Let_def split_beta)
qed

lemma cancelWork_candidates [simp]: "candidates_ok X (cancelWork s) = candidates_ok X s"
  by (simp add: cancelWork_def)

lemma job_owner_replace [simp]:
  "job_owner (replace_check ctxErr job) = job_owner job"
  "job_owner (replace_stopped stopErr ctxErr job) = job_owner job"
  "job_owner (replace_launched proc startErr ctxErr job) = opt_owner (rep_candidate (job_result job)) proc"
  "job_owner (replace_undone stopErr ctxErr job) = opt_owner (rep_candidate (job_result job)) None"
  by (simp_all add: job_owner_def replace_check_def replace_stopped_def replace_launched_def
      replace_undone_def Let_def)

lemma step_candidates:
  assumes "engine_step U env s s'" "engine_inv s"
  shows "candidates_ok [] s'"
proof -
  have inv: "candidates_ok [] s" "\<And>j. j \<in> set (replacing s) \<Longrightarrow> job_ok s j" "active_ok s"
    using assms(2) by (auto simp: engine_inv_def)
  have out: "candidates_ok (job_owner job) (s\<lparr>replacing := xs @ ys\<rparr>)"
    if "replacing s = xs @ job # ys" for xs job ys
    using inv(1) job_out [of "[]" xs job ys s] put_back(1) [OF that] by simp
  show ?thesis
    using assms(1)
  proof cases
    case (file_event now later e)
    then show ?thesis
      using inv(1) by (simp add: acceptFileEvent_def Let_def split: sum.splits)
  next
    case (debounce_expired now later)
    then show ?thesis
      using inv(1) by (simp add: acceptPending_def Let_def split_beta)
  next
    case (pipeline_returned xs c batch ys made err)
    then show ?thesis using inv(1) candidates_ok_prepare by simp
  next
    case (preparation_received xs r ys)
    then have "candidates_ok (opt_owner (prep_candidate r) None) (s\<lparr>prepared := xs @ ys\<rparr>)"
      using inv(1) prep_out [of "[]" xs r ys s] put_back(2) [OF preparation_received(3)] by simp
    then show ?thesis
      using preparation_received(1) finishPreparation_candidates by simp
  next
    case (application_exited p exitErr)
    let ?s = "s\<lparr>ended := p # ended s\<rparr>"
    have "candidates_ok [] (no_active (snd (Dispose env (activeCandidate ?s) ?s)))"
      by (rule candidates_ok_retire [OF candidates_ok_ended [OF inv(1)]])
        (use inv(3) application_exited in \<open>simp add: active_ok_def\<close>)
    then show ?thesis
      using application_exited(1) by (simp add: finishApplication_def Let_def split_beta)
  next
    case loop_returns
    let ?s = "cancelWork (s\<lparr>loop_ended := True, run_canceled := True\<rparr>)"
    have "candidates_ok [] ?s" using inv(1) by simp
    then have "candidates_ok [] (snd (stopActive env ?s))"
      by (rule stopActive_candidates) (use inv(3) in \<open>simp add: active_ok_def\<close>)
    then show ?thesis using loop_returns by (simp add: end_run_def Let_def split_beta)
  next
    case (preparation_abandoned xs r ys)
    then have "candidates_ok (opt_owner (prep_candidate r) None @ []) (s\<lparr>prepared := xs @ ys\<rparr>)"
      using inv(1) prep_out [of "[]" xs r ys s] put_back(2) [OF preparation_abandoned(3)] by simp
    then show ?thesis
      using preparation_abandoned(1) by (auto intro: candidates_ok_dispose)
  next
    case (replacement_begins xs job ys)
    then show ?thesis using same_owner [OF inv(1)] by simp
  next
    case (previous_stopped xs job ys p stopErr)
    then show ?thesis
      using same_owner [OF candidates_ok_ended [OF inv(1), of p]] by simp
  next
    case (start_failed xs job ys err)
    then have "rep_process (job_result job) = None"
      using inv(2) [of job] by (auto simp: job_ok_def job_stage_ok_def)
    then have "job_owner (replace_launched None (Some err) (ctx_err s (job_ctx job)) job) = job_owner job"
      by (simp add: job_owner_def [of job])
    then show ?thesis
      using start_failed(1) same_owner [OF inv(1) start_failed(2)] by simp
  next
    case (start_returned xs job ys p startErr)
    then have none: "rep_process (job_result job) = None"
      using inv(2) [of job] by (auto simp: job_ok_def job_stage_ok_def)
    let ?s = "s\<lparr>replacing := xs @ ys\<rparr>"
    have "candidates_ok (opt_owner (rep_candidate (job_result job)) None @ []) ?s"
      using out [OF start_returned(2)] none by (simp add: job_owner_def)
    then have "candidates_ok (opt_owner (rep_candidate (job_result job)) (Some p) @ [])
        (?s\<lparr>launched := (p, rep_candidate (job_result job)) # launched ?s\<rparr>)"
      by (rule candidates_ok_launch)
    then show ?thesis unfolding start_returned(1)
      by (rule candidates_ok_cong [THEN iffD1, rotated -1]) (simp_all add: owners_def)
  next
    case (launch_undone xs job ys p stopErr)
    let ?s = "s\<lparr>replacing := xs @ ys\<rparr>"
    have "candidates_ok (opt_owner (rep_candidate (job_result job)) (Some p) @ []) ?s"
      using out [OF launch_undone(2)] launch_undone(4) by (simp add: job_owner_def)
    then have "candidates_ok (opt_owner (rep_candidate (job_result job)) None @ [])
        (?s\<lparr>ended := p # ended ?s\<rparr>)"
      by (rule candidates_ok_undo)
    then show ?thesis unfolding launch_undone(1)
      by (rule candidates_ok_cong [THEN iffD1, rotated -1]) (simp_all add: owners_def)
  next
    case (replacement_received xs job ys)
    have "job_ok (s\<lparr>replacing := xs @ ys\<rparr>) job" "active_ok (s\<lparr>replacing := xs @ ys\<rparr>)"
      using inv(2) [of job] inv(3) replacement_received(3) by (simp_all add: job_ok_def active_ok_def)
    then show ?thesis
      using replacement_received out finishReplacement_candidates by simp
  next
    case (replacement_abandoned xs job ys)
    then show ?thesis
      using out [OF replacement_abandoned(2)] abandoned_candidates [where X = "[]"]
      by (simp add: job_owner_def)
  qed (use inv in \<open>simp_all\<close>)
qed

section \<open>The active application\<close>

lemma end_run_fields [simp]:
  "active (snd (end_run env s)) = None" "activeWait (snd (end_run env s)) =
     (if active s = None then activeWait s else None)"
  "activeCandidate (snd (end_run env s)) = (if active s = None then activeCandidate s else None)"
  "loop_ended (snd (end_run env s))" "run_canceled (snd (end_run env s))"
  by (simp_all add: end_run_def stopActive_def Let_def split_beta split: option.splits)

lemma ended_grows [simp]:
  "set (ended s) \<subseteq> set (ended (snd (end_run env s)))"
  "set (ended s) \<subseteq> set (ended (discardReplacement env r s))"
  "set (ended s) \<subseteq> set (ended (replace_abandoned env r s))"
  "set (ended s) \<subseteq> set (ended (finishReplacement env r s))"
proof -
  show discard: "set (ended s) \<subseteq> set (ended (discardReplacement env r s))" for s
    by (cases "rep_process r") (auto simp: discardReplacement_def Let_def split_beta)
  show "set (ended s) \<subseteq> set (ended (snd (end_run env s)))"
    by (auto simp: end_run_def stopActive_def Let_def split_beta split: option.splits)
  show "set (ended s) \<subseteq> set (ended (replace_abandoned env r s))"
    by (cases "rep_process r") (auto simp: replace_abandoned_def)
  show "set (ended s) \<subseteq> set (ended (finishReplacement env r s))"
    using discard by (force simp: finishReplacement_def Let_def)
qed

text \<open>Whether \<open>finishReplacement\<close> makes the new process the active one.\<close>

definition activates :: "replacement_result \<Rightarrow> system \<Rightarrow> bool" where
  "activates r s =
     (rep_revision r = current_revision s \<and> \<not> Pending (debounce s) \<and> rep_err r = None)"

lemma finishReplacement_active:
  "active (finishReplacement env r s) =
     (if activates r s then rep_process r
      else if previousStopped r \<and> activeRevision s = previousRevision r then None else active s)"
  "activeWait (finishReplacement env r s) =
     (if activates r s then rep_process r
      else if previousStopped r \<and> activeRevision s = previousRevision r then None else activeWait s)"
  "activeCandidate (finishReplacement env r s) =
     (if activates r s then rep_candidate r
      else if previousStopped r \<and> activeRevision s = previousRevision r then None
      else activeCandidate s)"
  "activeRevision (finishReplacement env r s) =
     (if activates r s then rep_revision r
      else if previousStopped r \<and> activeRevision s = previousRevision r then 0
      else activeRevision s)"
  by (auto simp: finishReplacement_def activates_def retire_previous_def Let_def split_beta)

lemma finishApplication_active [simp]:
  "active (finishApplication env err s) = None" "activeWait (finishApplication env err s) = None"
  "activeCandidate (finishApplication env err s) = None"
  "activeRevision (finishApplication env err s) = 0"
  by (simp_all add: finishApplication_def Let_def split_beta)

lemma step_active:
  assumes "engine_step U env s s'" "engine_inv s"
  shows "active_ok s'"
proof -
  have inv: "active_ok s" "\<And>j. j \<in> set (replacing s) \<Longrightarrow> job_ok s j"
    using assms(2) by (auto simp: engine_inv_def)
  show ?thesis
    using assms(1)
  proof cases
    case (replacement_received xs job ys)
    then have "rep_err (job_result job) = None \<Longrightarrow> rep_process (job_result job) \<noteq> None"
      using inv(2) [of job] by (auto simp: job_ok_def job_stage_ok_def)
    then show ?thesis
      using inv(1) replacement_received
      by (auto simp: active_ok_def finishReplacement_active activates_def)
  qed (use inv(1) in \<open>auto simp: active_ok_def\<close>)
qed

section \<open>Replacement jobs\<close>

lemma job_ok_idle:
  "job_ok s j \<Longrightarrow> set (ended s) \<subseteq> set (ended s') \<Longrightarrow> active s' = None \<Longrightarrow> job_ok s' j"
  by (auto simp: job_ok_def)

lemma job_ok_same:
  assumes "job_ok s j" "set (ended s) \<subseteq> set (ended s')"
    "active s' = active s" "activeRevision s' = activeRevision s"
    "current_revision s' = current_revision s \<or> rep_revision (job_result j) \<noteq> current_revision s'"
  shows "job_ok s' j"
  using assms by (auto simp: job_ok_def)

lemma job_stage_replace:
  "job_stage_ok j \<Longrightarrow> job_stage j = Beginning \<Longrightarrow> job_stage_ok (replace_check ctxErr j)"
  "job_stage_ok j \<Longrightarrow> job_stage j = Stopping \<Longrightarrow> job_previous j = Some p \<Longrightarrow>
     job_stage_ok (replace_stopped stopErr ctxErr j)"
  "job_stage_ok j \<Longrightarrow> job_stage j = Launching \<Longrightarrow>
     job_stage_ok (replace_launched None (Some err) ctxErr j)"
  "job_stage_ok j \<Longrightarrow> job_stage j = Launching \<Longrightarrow>
     job_stage_ok (replace_launched (Some q) startErr ctxErr j)"
  "job_stage_ok j \<Longrightarrow> job_stage j = Undoing \<Longrightarrow> ctxErr \<noteq> None \<Longrightarrow>
     job_stage_ok (replace_undone stopErr ctxErr j)"
  by (auto simp: job_stage_ok_def replace_check_def replace_stopped_def replace_launched_def
      replace_undone_def Let_def)

lemma replace_keeps [simp]:
  "job_previous (replace_check ctxErr j) = job_previous j"
  "job_previous (replace_stopped stopErr ctxErr j) = job_previous j"
  "job_previous (replace_launched proc startErr ctxErr j) = job_previous j"
  "job_previous (replace_undone stopErr ctxErr j) = job_previous j"
  "rep_revision (job_result (replace_check ctxErr j)) = rep_revision (job_result j)"
  "rep_revision (job_result (replace_stopped stopErr ctxErr j)) = rep_revision (job_result j)"
  "rep_revision (job_result (replace_launched proc startErr ctxErr j)) = rep_revision (job_result j)"
  "rep_revision (job_result (replace_undone stopErr ctxErr j)) = rep_revision (job_result j)"
  "previousRevision (job_result (replace_check ctxErr j)) = previousRevision (job_result j)"
  "previousRevision (job_result (replace_stopped stopErr ctxErr j)) = previousRevision (job_result j)"
  "previousRevision (job_result (replace_launched proc startErr ctxErr j)) = previousRevision (job_result j)"
  "previousRevision (job_result (replace_undone stopErr ctxErr j)) = previousRevision (job_result j)"
  "previousStopped (job_result (replace_check ctxErr j)) = previousStopped (job_result j)"
  "previousStopped (job_result (replace_launched proc startErr ctxErr j)) = previousStopped (job_result j)"
  "previousStopped (job_result (replace_undone stopErr ctxErr j)) = previousStopped (job_result j)"
  "previousStopped (job_result (replace_stopped stopErr ctxErr j))"
  "rep_process (job_result (replace_check ctxErr j)) = rep_process (job_result j)"
  "rep_process (job_result (replace_stopped stopErr ctxErr j)) = rep_process (job_result j)"
  "rep_process (job_result (replace_launched proc startErr ctxErr j)) = proc"
  "rep_process (job_result (replace_undone stopErr ctxErr j)) = None"
  by (simp_all add: replace_check_def replace_stopped_def replace_launched_def
      replace_undone_def Let_def)

text \<open>A job that moves on in a state where only the ended processes grew stays in order.\<close>

lemma job_ok_moves:
  assumes "job_ok s j" "job_stage_ok j'" "set (ended s) \<subseteq> set (ended s')"
    "active s' = active s" "activeRevision s' = activeRevision s"
    "current_revision s' = current_revision s" "job_previous j' = job_previous j"
    "rep_revision (job_result j') = rep_revision (job_result j)"
    "previousRevision (job_result j') = previousRevision (job_result j)"
    "\<And>p. previousStopped (job_result j') \<Longrightarrow> job_previous j = Some p \<Longrightarrow> p \<in> set (ended s')"
  shows "job_ok s' j'"
  using assms by (simp add: job_ok_def)

lemma startReplacement_replacing:
  "replacing (startReplacement result s) = replacing s @
     [\<lparr>job_ctx = next_ctx (cancel_replacement s), job_previous = active s,
       job_stage = (if active s = None then Beginning else Stopping),
       job_result = \<lparr>rep_revision = prep_revision result, previousRevision = activeRevision s,
                     rep_candidate = prep_candidate result, rep_process = None,
                     previousStopped = False, rep_err = None, warning = None\<rparr>\<rparr>]"
  by (simp add: startReplacement_def Let_def)

lemma finishPreparation_replacing:
  obtains "replacing (finishPreparation env result s) = replacing s"
  | job where "replacing (finishPreparation env result s) = replacing s @ [job]"
      "prep_revision result = current_revision s"
      "job_previous job = active s" "job_stage job = (if active s = None then Beginning else Stopping)"
      "rep_revision (job_result job) = prep_revision result"
      "previousRevision (job_result job) = activeRevision s"
      "rep_process (job_result job) = None" "\<not> previousStopped (job_result job)"
proof (cases "prep_revision result = current_revision s \<and> \<not> Pending (debounce s) \<and> prep_err result = None")
  case False
  then have "replacing (finishPreparation env result s) = replacing s"
    by (auto simp: finishPreparation_def Let_def split_beta)
  then show thesis by (rule that(1))
next
  case True
  let ?s = "emit \<lparr>event_name = EventCandidateReady, event_duration = 0, event_reused = False, event_revision = prep_revision result,
                       event_paths = [], event_err = None,
                       event_stale = stale (forget_cancel (prep_revision result) s)\<rparr>
              (forget_cancel (prep_revision result) s)"
  have "finishPreparation env result s = startReplacement result ?s"
    using True by (simp add: finishPreparation_def Let_def)
  then show thesis
    using True by (intro that(2), simp add: startReplacement_replacing) simp_all
qed

lemma job_revisions:
  assumes "revisions_ok [] s" "replacing s = xs @ job # ys" "j \<in> set (xs @ ys)"
  shows "rep_revision (job_result j) \<noteq> rep_revision (job_result job)"
    and "job_previous j \<noteq> None \<Longrightarrow> previousRevision (job_result j) \<noteq> rep_revision (job_result job)"
proof -
  have "distinct (map (\<lambda>j. rep_revision (job_result j)) (xs @ job # ys))"
    using assms(1,2) by (simp add: revisions_ok_def live_revisions_def)
  then have "rep_revision (job_result job) \<notin> (\<lambda>j. rep_revision (job_result j)) ` set (xs @ ys)"
    by (simp add: image_Un)
  then show "rep_revision (job_result j) \<noteq> rep_revision (job_result job)"
    using assms(3) by (metis imageI)
  assume "job_previous j \<noteq> None"
  then have "previousRevision (job_result j) \<in> past_revisions s"
    using assms(2,3) by (auto simp: past_revisions_def)
  moreover have "rep_revision (job_result job) \<in> set (live_revisions s)"
    using assms(2) by (simp add: live_revisions_def)
  ultimately show "previousRevision (job_result j) \<noteq> rep_revision (job_result job)"
    using assms(1) by (auto simp: revisions_ok_def)
qed

lemma step_jobs:
  assumes "engine_step U env s s'" "engine_inv s" "j \<in> set (replacing s')"
  shows "job_ok s' j"
proof -
  have inv: "\<And>j. j \<in> set (replacing s) \<Longrightarrow> job_ok s j" "\<And>j. j \<in> set (replacing s) \<Longrightarrow> undoing_ok s j"
      "active_ok s" "revisions_ok [] s"
    using assms(2) by (auto simp: engine_inv_def)
  have low: "rep_revision (job_result j) \<le> current_revision s" if "j \<in> set (replacing s)" for j
    using that inv(4) by (auto simp: revisions_ok_def live_revisions_def)
  have moved: "job_ok s' j"
    if js: "replacing s = xs @ job # ys" "replacing s' = xs @ job' # ys"
      and same: "set (ended s) \<subseteq> set (ended s')" "active s' = active s"
        "activeRevision s' = activeRevision s" "current_revision s' = current_revision s"
      and job': "job_ok s job \<Longrightarrow> job_ok s' job'" for xs job ys job'
    using assms(3) js job' inv(1) job_ok_same [OF _ same(1-3)] same(4) by auto
  show ?thesis
    using assms(1)
  proof cases
    case (debounce_expired now later)
    have "current_revision s < current_revision s + 1"
      using debounce_expired(4) inc_less_eq_self_iff_eq [of "current_revision s"]
      by (simp add: not_le [symmetric])
    then have "rep_revision (job_result j) \<noteq> current_revision s + 1"
      using low assms(3) debounce_expired(1) by force
    moreover have "current_revision s' = current_revision s \<or> current_revision s' = current_revision s + 1"
      using debounce_expired(1) by (simp add: acceptPending_def startPreparation_def Let_def split_beta)
    ultimately show ?thesis
      using inv(1) [of j] assms(3) debounce_expired(1) by (auto intro: job_ok_same)
  next
    case (preparation_received xs r ys)
    have old: "job_ok s' i" if "i \<in> set (replacing s)" for i
      using inv(1) [OF that] preparation_received(1) by (auto intro: job_ok_same)
    show ?thesis
    proof (cases rule: finishPreparation_replacing [of env r "s\<lparr>prepared := xs @ ys\<rparr>"])
      case 1
      then show ?thesis using old assms(3) preparation_received(1) by simp
    next
      case (2 job)
      have "job_ok s' job"
        using 2 preparation_received(1) by (simp add: job_ok_def job_stage_ok_def)
      then show ?thesis using old assms(3) preparation_received(1) 2(1) by auto
    qed
  next
    case (replacement_begins xs job ys)
    show ?thesis
      by (rule moved [OF replacement_begins(2), of "replace_check (ctx_err s (job_ctx job)) job"])
        (use replacement_begins in \<open>auto intro!: job_ok_moves simp: job_ok_def job_stage_replace\<close>)
  next
    case (previous_stopped xs job ys p stopErr)
    show ?thesis
      by (rule moved [OF previous_stopped(2), of "replace_stopped stopErr (ctx_err s (job_ctx job)) job"])
        (use previous_stopped in \<open>auto intro!: job_ok_moves simp: job_ok_def job_stage_replace\<close>)
  next
    case (start_failed xs job ys err)
    show ?thesis
      by (rule moved [OF start_failed(2), of "replace_launched None (Some err) (ctx_err s (job_ctx job)) job"])
        (use start_failed in \<open>auto intro!: job_ok_moves simp: job_ok_def job_stage_replace\<close>)
  next
    case (start_returned xs job ys p startErr)
    show ?thesis
      by (rule moved [OF start_returned(2), of "replace_launched (Some p) startErr (ctx_err s (job_ctx job)) job"])
        (use start_returned in \<open>auto intro!: job_ok_moves simp: job_ok_def job_stage_replace\<close>)
  next
    case (launch_undone xs job ys p stopErr)
    then have "ctx_err s (job_ctx job) \<noteq> None" using inv(2) [of job] by (simp add: undoing_ok_def)
    then show ?thesis
      by (intro moved [OF launch_undone(2), of "replace_undone stopErr (ctx_err s (job_ctx job)) job"])
        (use launch_undone in \<open>auto intro!: job_ok_moves simp: job_ok_def job_stage_replace\<close>)
  next
    case (replacement_received xs job ys)
    let ?r = "job_result job" let ?s = "s\<lparr>replacing := xs @ ys\<rparr>"
    have j: "j \<in> set (xs @ ys)" using assms(3) replacement_received(1) by simp
    then have ok: "job_ok s j" using inv(1) replacement_received(3) by auto
    note distinct = job_revisions [OF inv(4) replacement_received(3) j]
    have ended: "set (ended s) \<subseteq> set (ended s')"
      using ended_grows(4) [of ?s env ?r] replacement_received(1) by simp
    show ?thesis
    proof (cases "activates ?r ?s")
      case True
      then show ?thesis
        using ok distinct ended replacement_received(1)
        by (auto simp: job_ok_def finishReplacement_active activates_def)
    next
      case False
      then show ?thesis
        using ok ended replacement_received(1)
        by (cases "previousStopped ?r \<and> activeRevision s = previousRevision ?r")
          (auto intro: job_ok_idle job_ok_same simp: finishReplacement_active)
    qed
  next
    case (replacement_abandoned xs job ys)
    then show ?thesis
      using assms(3) inv(1) [of j] ended_grows(3) [of "s\<lparr>replacing := xs @ ys\<rparr>" env "job_result job"]
      by (auto intro!: job_ok_same [of s j])
  next
    case (application_exited p exitErr)
    then show ?thesis
      using assms(3) inv(1) [of j] by (auto intro!: job_ok_idle [of s j] simp: finishApplication_def Let_def split_beta)
  next
    case loop_returns
    then have "job_ok s j" using assms(3) inv(1) by simp
    then show ?thesis unfolding loop_returns(1) by (rule job_ok_idle) simp_all
  qed (use assms(3) inv(1) [of j] in \<open>auto intro!: job_ok_same [of s j]\<close>)
qed

lemma step_undoing:
  assumes "engine_step U env s s'" "engine_inv s" "j \<in> set (replacing s')"
  shows "undoing_ok s' j"
proof -
  have grow: "ctx_err s c \<noteq> None \<Longrightarrow> ctx_err s' c \<noteq> None" for c
    using step_canceled [OF assms(1)] by (auto simp: ctx_err_def split: if_splits)
  have old: "undoing_ok s' i" if "i \<in> set (replacing s)" for i
    using that assms(2) grow by (auto simp: engine_inv_def undoing_ok_def)
  have stages: "job_stage (replace_check e i) \<noteq> Undoing" "job_stage (replace_stopped e' e i) \<noteq> Undoing"
      "job_stage (replace_undone e' e i) \<noteq> Undoing"
      "job_stage (replace_launched None e' e i) \<noteq> Undoing"
      "job_stage (replace_launched p e' e i) = Undoing \<Longrightarrow> e \<noteq> None"
      "job_ctx (replace_launched p e' e i) = job_ctx i" for e e' i p
    by (auto simp: replace_check_def replace_stopped_def replace_undone_def replace_launched_def
        Let_def split: if_splits)
  show ?thesis
    using assms(1)
  proof cases
    case (preparation_received xs r ys)
    show ?thesis
    proof (cases rule: finishPreparation_replacing [of env r "s\<lparr>prepared := xs @ ys\<rparr>"])
      case 1
      then show ?thesis using old assms(3) preparation_received(1) by simp
    next
      case (2 job)
      then have "undoing_ok s' job" by (simp add: undoing_ok_def)
      then show ?thesis using old assms(3) preparation_received(1) 2(1) by auto
    qed
  next
    case (start_returned xs job ys p startErr)
    then show ?thesis
      using old assms(3) grow [of "job_ctx job"] stages(5,6) by (auto simp: undoing_ok_def)
  qed (use old assms(3) stages in \<open>auto simp: undoing_ok_def\<close>)
qed

section \<open>Revisions\<close>

lemma distinct_submset: "mset xs \<subseteq># mset ys \<Longrightarrow> distinct ys \<Longrightarrow> distinct xs"
proof -
  assume "mset xs \<subseteq># mset ys" "distinct ys"
  moreover from this obtain zs where "mset ys = mset (xs @ zs)"
    by (metis ex_mset mset_append mset_subset_eq_exists_conv)
  ultimately show ?thesis using mset_eq_imp_distinct_iff by (metis distinct_append)
qed

lemma revisions_ok_shrink:
  assumes "revisions_ok [] s" "mset (live_revisions s') \<subseteq># mset (live_revisions s)"
    "past_revisions s' \<subseteq> past_revisions s" "current_revision s' = current_revision s"
  shows "revisions_ok [] s'"
proof -
  have "distinct (live_revisions s')"
    using assms(1) distinct_submset [OF assms(2)] by (simp add: revisions_ok_def)
  moreover have "set (live_revisions s') \<subseteq> set (live_revisions s)"
    using set_mset_mono [OF assms(2)] by simp
  ultimately show ?thesis
    using assms(1,3,4) unfolding revisions_ok_def by auto
qed

lemma step_revisions:
  assumes "engine_step U env s s'" "engine_inv s"
  shows "revisions_ok [] s'"
proof -
  have inv: "revisions_ok [] s" "active_ok s" using assms(2) by (auto simp: engine_inv_def)
  have shrink: "mset (live_revisions s') \<subseteq># mset (live_revisions s) \<Longrightarrow>
      past_revisions s' \<subseteq> past_revisions s \<Longrightarrow> current_revision s' = current_revision s \<Longrightarrow> ?thesis"
    by (rule revisions_ok_shrink [OF inv(1)])
  show ?thesis
    using assms(1)
  proof cases
    case (debounce_expired now later)
    show ?thesis
    proof (cases "fst (snd (Take now (current_revision s + 1) (debounce s)))")
      case False
      then have "preparing s' = preparing s" "current_revision s' = current_revision s"
        using debounce_expired(1) by (simp_all add: acceptPending_def Let_def split_beta)
      then show ?thesis
        using debounce_expired(1) by (intro shrink) (simp_all add: live_revisions_def past_revisions_def)
    next
      case True
      let ?r = "current_revision s + 1"
      have cur: "current_revision s' = ?r"
        and live: "mset (live_revisions s') = add_mset ?r (mset (live_revisions s))"
        and past: "past_revisions s' = past_revisions s"
        using True debounce_expired(1)
        by (simp_all add: acceptPending_def startPreparation_def newBatch_def live_revisions_def
            past_revisions_def Let_def split_beta)
      have less: "current_revision s < ?r"
        using debounce_expired(4) inc_less_eq_self_iff_eq [of "current_revision s"]
        by (simp add: not_le [symmetric])
      have low: "r \<le> current_revision s" if "r \<in> set (live_revisions s) \<union> past_revisions s" for r
        using that inv(1) by (simp add: revisions_ok_def)
      have "mset (live_revisions s') = mset (?r # live_revisions s)" using live by simp
      moreover have fresh: "?r \<notin> set (live_revisions s) \<union> past_revisions s"
        using low [of ?r] less by (meson not_le)
      then have "distinct (?r # live_revisions s)"
        using inv(1) by (simp add: revisions_ok_def)
      ultimately have "distinct (live_revisions s')" by (metis mset_eq_imp_distinct_iff)
      moreover have "set (live_revisions s') = insert ?r (set (live_revisions s))"
        using live by (metis set_mset_add_mset_insert set_mset_mset)
      moreover have "r \<le> ?r" if "r \<in> set (live_revisions s) \<union> past_revisions s" for r
        using low [OF that] less by simp
      ultimately show ?thesis
        using inv(1) fresh unfolding revisions_ok_def cur past by auto
    qed
  next
    case (pipeline_returned xs c batch ys made err)
    then show ?thesis
      by (intro shrink)
        (simp_all add: live_revisions_def past_revisions_def prepare_returns_def Let_def)
  next
    case (preparation_received xs r ys)
    show ?thesis
    proof (cases rule: finishPreparation_replacing [of env r "s\<lparr>prepared := xs @ ys\<rparr>"])
      case 1
      then show ?thesis using preparation_received
        by (intro shrink) (simp_all add: live_revisions_def past_revisions_def)
    next
      case (2 job)
      have "past_revisions s' \<subseteq> past_revisions s"
        using 2 preparation_received(1) by (auto simp: past_revisions_def)
      then show ?thesis
        using 2 preparation_received by (intro shrink) (simp_all add: live_revisions_def)
    qed
  next
    case (preparation_abandoned xs r ys)
    then show ?thesis
      by (intro shrink) (simp_all add: live_revisions_def past_revisions_def)
  next
    case (replacement_received xs job ys)
    let ?r = "job_result job" let ?s = "s\<lparr>replacing := xs @ ys\<rparr>"
    have jobs: "replacing s' = xs @ ys" "preparing s' = preparing s" "prepared s' = prepared s"
        "current_revision s' = current_revision s"
      using replacement_received(1) by simp_all
    then have live: "mset (live_revisions s) = add_mset (rep_revision ?r) (mset (live_revisions s'))"
      using replacement_received(3) by (simp add: live_revisions_def)
    have others: "{previousRevision (job_result j) | j. j \<in> set (xs @ ys) \<and> job_previous j \<noteq> None}
        \<subseteq> past_revisions s"
      using replacement_received(3) by (auto simp: past_revisions_def)
    show ?thesis
    proof (cases "activates ?r ?s")
      case False
      then have "past_revisions s' \<subseteq> past_revisions s"
        using others replacement_received(1)
        by (auto simp: past_revisions_def finishReplacement_active split: if_splits)
      then show ?thesis using live jobs by (intro shrink) simp_all
    next
      case True
      then have "past_revisions s' \<subseteq> insert (rep_revision ?r) (past_revisions s)"
        using others replacement_received(1)
        by (auto simp: past_revisions_def finishReplacement_active split: if_splits)
      moreover have "mset (live_revisions s) = mset (rep_revision ?r # live_revisions s')"
        using live by simp
      then have "distinct (rep_revision ?r # live_revisions s')"
          "set (live_revisions s) = insert (rep_revision ?r) (set (live_revisions s'))"
        using inv(1) mset_eq_imp_distinct_iff
        by (fastforce simp: revisions_ok_def, metis list.set(2) set_mset_mset)
      ultimately show ?thesis
        using inv(1) unfolding revisions_ok_def jobs(4) by auto
    qed
  next
    case (replacement_abandoned xs job ys)
    then show ?thesis
      by (intro shrink) (auto simp: live_revisions_def past_revisions_def)
  next
    case (replacement_begins xs job ys)
    then show ?thesis
      by (intro shrink) (auto simp: live_revisions_def past_revisions_def)
  next
    case (previous_stopped xs job ys p stopErr)
    then show ?thesis
      by (intro shrink) (auto simp: live_revisions_def past_revisions_def)
  next
    case (start_failed xs job ys err)
    then show ?thesis
      by (intro shrink) (auto simp: live_revisions_def past_revisions_def)
  next
    case (start_returned xs job ys p startErr)
    then show ?thesis
      by (intro shrink) (auto simp: live_revisions_def past_revisions_def)
  next
    case (launch_undone xs job ys p stopErr)
    then show ?thesis
      by (intro shrink) (auto simp: live_revisions_def past_revisions_def)
  qed (intro shrink; simp add: live_revisions_def past_revisions_def)+
qed

section \<open>Processes\<close>

lemma processes_ok_same:
  assumes "processes_ok None s" "launched s' = launched s" "set (ended s) \<subseteq> set (ended s')"
    and "\<And>p. active s = Some p \<Longrightarrow> active s' = Some p \<or> p \<in> set (ended s')"
    and "\<And>j p. j \<in> set (replacing s) \<Longrightarrow> rep_process (job_result j) = Some p \<Longrightarrow>
           p \<in> set (ended s') \<or> active s' = Some p \<or>
           (\<exists>i \<in> set (replacing s'). rep_process (job_result i) = Some p)"
  shows "processes_ok None s'"
  using assms unfolding processes_ok_def by (auto split: prod.splits) (metis subsetD)+

lemma stop_ends: "rep_process r = Some p \<Longrightarrow> p \<in> set (ended (discardReplacement env r s))"
  "rep_process r = Some p \<Longrightarrow> p \<in> set (ended (replace_abandoned env r s))"
  by (auto simp: discardReplacement_def replace_abandoned_def stop_process_def Stop_def Let_def split_beta)

lemma finishReplacement_ends:
  assumes "rep_process r = Some p"
  shows "p \<in> set (ended (finishReplacement env r s)) \<or> active (finishReplacement env r s) = Some p"
  using assms stop_ends(1) [OF assms]
  by (auto simp: finishReplacement_def Let_def)

lemma step_processes:
  assumes "engine_step U env s s'" "engine_inv s"
  shows "processes_ok None s'"
proof -
  have inv: "processes_ok None s" "\<And>j. j \<in> set (replacing s) \<Longrightarrow> job_ok s j" "active_ok s"
    using assms(2) by (auto simp: engine_inv_def)
  note same = processes_ok_same [OF inv(1)]
  have moved: "i = job' \<or> i \<in> set (xs @ ys) \<Longrightarrow> i \<in> set (xs @ job' # ys)" for i job' xs ys by auto
  show ?thesis
    using assms(1)
  proof cases
    case (preparation_received xs r ys)
    then show ?thesis
      by (cases rule: finishPreparation_replacing [of env r "s\<lparr>prepared := xs @ ys\<rparr>"])
        (auto intro!: same)
  next
    case (start_returned xs job ys p startErr)
    then have "rep_process (job_result job) = None"
      using inv(2) [of job] by (auto simp: job_ok_def job_stage_ok_def)
    then show ?thesis
      using inv(1) start_returned by (fastforce simp: processes_ok_def)
  next
    case (start_failed xs job ys err)
    then have "rep_process (job_result job) = None"
      using inv(2) [of job] by (auto simp: job_ok_def job_stage_ok_def)
    then show ?thesis
      using start_failed by (intro same) auto
  next
    case (launch_undone xs job ys p stopErr)
    then show ?thesis by (intro same) auto
  next
    case (replacement_received xs job ys)
    let ?r = "job_result job" let ?s = "s\<lparr>replacing := xs @ ys\<rparr>"
    have ok: "job_ok s job" using inv(2) replacement_received(3) by simp
    have stopped: "p \<in> set (ended s)"
      if "active s = Some p" "previousStopped ?r" "activeRevision s = previousRevision ?r" for p
      using ok that by (cases "job_previous job") (auto simp: job_ok_def job_stage_ok_def)
    have kept: "active s' = Some p \<or> p \<in> set (ended s')" if "active s = Some p" for p
    proof -
      have "activates ?r ?s \<Longrightarrow> p \<in> set (ended s)"
        using ok that stopped [OF that] replacement_received(4)
        by (cases "job_previous job") (auto simp: job_ok_def job_stage_ok_def activates_def)
      then show ?thesis
        using that stopped [OF that] ended_grows(4) [of ?s env ?r] replacement_received(1)
        by (auto simp: finishReplacement_active dest: subsetD)
    qed
    show ?thesis
    proof (rule same)
      show "set (ended s) \<subseteq> set (ended s')"
        using ended_grows(4) [of ?s env ?r] replacement_received(1) by simp
      fix j p
      assume "j \<in> set (replacing s)" "rep_process (job_result j) = Some p"
      then show "p \<in> set (ended s') \<or> active s' = Some p \<or>
          (\<exists>i \<in> set (replacing s'). rep_process (job_result i) = Some p)"
        using finishReplacement_ends [of ?r p env ?s] replacement_received(1,3) by auto
    qed (use kept replacement_received(1) in simp_all)
  next
    case (replacement_abandoned xs job ys)
    show ?thesis
      using replacement_abandoned(1,2) stop_ends(2) [of "job_result job" _ env "s\<lparr>replacing := xs @ ys\<rparr>"]
        ended_grows(3) [of "s\<lparr>replacing := xs @ ys\<rparr>" env "job_result job"]
      by (intro same) auto
  next
    case (application_exited p exitErr)
    then show ?thesis
      using inv(3) by (intro same)
        (auto simp: active_ok_def finishApplication_def Let_def split_beta)
  next
    case loop_returns
    then show ?thesis
      using ended_grows(1) [of s env]
      by (intro same)
        (auto simp: end_run_def stopActive_def Let_def split_beta split: option.splits)
  qed (intro same; auto)+
qed

section \<open>The debounce timer\<close>

lemma resetDebounceTimer_armed: "debounceC (resetDebounceTimer now s) = Pending (debounce s)"
  using debounced.deadline_iff [of "debounce s"]
  by (simp add: resetDebounceTimer_def Let_def split_beta)

lemma step_timer:
  assumes "engine_step U env s s'" "engine_inv s"
  shows "timer_ok s'"
proof -
  have inv: "debouncer_ok (debounce s)" "\<not> loop_ended s \<Longrightarrow> Pending (debounce s) \<Longrightarrow> debounceC s"
    using assms(2) by (auto simp: engine_inv_def timer_ok_def)
  show ?thesis
    using assms(1)
  proof cases
    case (file_event now later e)
    show ?thesis
    proof (cases "Add U now e (debounce s)")
      case (Inl msg)
      then show ?thesis using inv file_event(1) by (simp add: timer_ok_def acceptFileEvent_def)
    next
      case (Inr d)
      then have "debouncer_ok d" using Add_ok inv(1) by blast
      then show ?thesis
        using Inr file_event(1)
        by (simp add: timer_ok_def acceptFileEvent_def Let_def resetDebounceTimer_armed)
    qed
  next
    case (debounce_expired now later)
    let ?t = "Take now (current_revision s + 1) (debounce s)"
    have "debouncer_ok (snd (snd ?t))" by (rule Take_ok [OF inv(1)])
    then show ?thesis
      using debounce_expired(1) debounced.take_empties [of now "current_revision s + 1" "debounce s"]
      by (cases "fst (snd ?t)")
        (simp_all add: timer_ok_def acceptPending_def Let_def split_beta resetDebounceTimer_armed)
  next
    case loop_returns
    then show ?thesis using inv(1) by (simp add: timer_ok_def)
  qed (use inv in \<open>simp_all add: timer_ok_def\<close>)
qed

section \<open>All reachable states\<close>

lemma step_inv: "engine_step U env s s' \<Longrightarrow> engine_inv s \<Longrightarrow> engine_inv s'"
  unfolding engine_inv_def [of s']
  by (intro conjI ballI; rule step_candidates step_jobs step_undoing step_active step_revisions
      step_processes step_timer; assumption)

lemma begin_inv: "NewDebouncer quiet delay = Inr d \<Longrightarrow> engine_inv (begin_run d)"
  using NewDebouncer_ok [of quiet delay d]
  by (auto simp: engine_inv_def begin_run_def startPreparation_def blank_system_def newBatch_def
      emit_def candidates_ok_def owners_def active_ok_def revisions_ok_def live_revisions_def
      past_revisions_def processes_ok_def timer_ok_def Pending_def NewDebouncer_def Let_def
      split: if_splits)

lemma reachable_inv: "reachable U env quiet delay s \<Longrightarrow> engine_inv s"
  by (induction rule: reachable.induct) (auto intro: begin_inv step_inv)

end
