(* ===== verification/Engine_Properties.thy ===== *)
theory Engine_Properties
  imports Engine_Invariants
begin

text \<open>
  What the invariants of the engine mean for its users, an executable reading of the step
  relation that produces concrete runs, and the situation in which a successful build is never
  started.
\<close>

section \<open>Executable runs\<close>

text \<open>A choice of the scheduler and of the environment; positions count from 0.\<close>

datatype action =
    FileChanged time time file_event
  | TimerFires time time
  | PipelineReturns nat bool "go_error option"
  | ReceivePreparation nat
  | BeginReplacement nat
  | PreviousStops nat "go_error option"
  | StartReturns nat "go_error option"
  | ReceiveReplacement nat
  | ApplicationExits "go_error option"
  | CancelRun
  | EndRun

definition without :: "nat \<Rightarrow> 'a list \<Rightarrow> 'a list" where
  "without i xs = take i xs @ drop (Suc i) xs"

definition set_job :: "nat \<Rightarrow> replace_job \<Rightarrow> system \<Rightarrow> system" where
  "set_job i job s = s\<lparr>replacing := take i (replacing s) @ job # drop (Suc i) (replacing s)\<rparr>"

fun perform :: "unicode_tables \<Rightarrow> environment \<Rightarrow> action \<Rightarrow> system \<Rightarrow> system option" where
  "perform U env (FileChanged now later e) s =
     (if loop_ended s then None else Some (acceptFileEvent U now later e s))"
| "perform U env (TimerFires now later) s =
     (if loop_ended s \<or> \<not> debounceC s \<or> current_revision s = - 1 then None
      else Some (acceptPending now later s))"
| "perform U env (PipelineReturns i made err) s =
     (if i < length (preparing s)
      then Some (prepare_returns (snd (preparing s ! i)) made err
             (s\<lparr>preparing := without i (preparing s)\<rparr>))
      else None)"
| "perform U env (ReceivePreparation i) s =
     (if \<not> loop_ended s \<and> i < length (prepared s)
      then Some (finishPreparation env (prepared s ! i) (s\<lparr>prepared := without i (prepared s)\<rparr>))
      else None)"
| "perform U env (BeginReplacement i) s =
     (if i < length (replacing s) \<and> job_stage (replacing s ! i) = Beginning
      then let job = replacing s ! i
           in Some (set_job i (replace_check (ctx_err s (job_ctx job)) job) s)
      else None)"
| "perform U env (PreviousStops i stopErr) s =
     (if i < length (replacing s) \<and> job_stage (replacing s ! i) = Stopping
      then let job = replacing s ! i
           in (case job_previous job of
                 None \<Rightarrow> None
               | Some p \<Rightarrow> Some (set_job i (replace_stopped stopErr (ctx_err s (job_ctx job)) job)
                             (s\<lparr>ended := p # ended s\<rparr>)))
      else None)"
| "perform U env (StartReturns i startErr) s =
     (if i < length (replacing s) \<and> job_stage (replacing s ! i) = Launching
      then let job = replacing s ! i; p = next_process s
           in Some (set_job i (replace_launched (Some p) startErr (ctx_err s (job_ctx job)) job)
                (s\<lparr>next_process := p + 1,
                   launched := (p, rep_candidate (job_result job)) # launched s\<rparr>))
      else None)"
| "perform U env (ReceiveReplacement i) s =
     (if \<not> loop_ended s \<and> i < length (replacing s) \<and> job_stage (replacing s ! i) = Sending
      then Some (finishReplacement env (job_result (replacing s ! i))
             (s\<lparr>replacing := without i (replacing s)\<rparr>))
      else None)"
| "perform U env (ApplicationExits err) s =
     (if loop_ended s then None
      else case activeWait s of
             None \<Rightarrow> None
           | Some p \<Rightarrow> Some (finishApplication env err (s\<lparr>ended := p # ended s\<rparr>)))"
| "perform U env CancelRun s = Some (s\<lparr>run_canceled := True\<rparr>)"
| "perform U env EndRun s = (if loop_ended s then None else Some (snd (end_run env s)))"

fun perform_all :: "unicode_tables \<Rightarrow> environment \<Rightarrow> action list \<Rightarrow> system \<Rightarrow> system option" where
  "perform_all U env [] s = Some s"
| "perform_all U env (a # as) s =
     (case perform U env a s of None \<Rightarrow> None | Some s' \<Rightarrow> perform_all U env as s')"

lemma split_nth: "i < length xs \<Longrightarrow> xs = take i xs @ xs ! i # drop (Suc i) xs"
  by (rule id_take_nth_drop)

lemma perform_step:
  assumes "perform U env a s = Some s'"
  shows "engine_step U env s s'"
proof (cases a)
  case (PipelineReturns i made err)
  then have i: "i < length (preparing s)" using assms by (simp split: if_splits)
  obtain c batch where b: "preparing s ! i = (c, batch)" by (cases "preparing s ! i")
  have split: "preparing s = take i (preparing s) @ (c, batch) # drop (Suc i) (preparing s)"
    using split_nth [OF i] b by simp
  have "s' = prepare_returns batch made err
      (s\<lparr>preparing := take i (preparing s) @ drop (Suc i) (preparing s)\<rparr>)"
    using assms PipelineReturns i b by (simp add: without_def)
  then show ?thesis using engine_step.pipeline_returned [OF split] by simp
next
  case (ReceivePreparation i)
  then have i: "\<not> loop_ended s" "i < length (prepared s)" using assms by (simp_all split: if_splits)
  show ?thesis
    using assms ReceivePreparation i
    by (auto simp: without_def
        intro: engine_step.preparation_received [OF i(1) split_nth [OF i(2)]])
next
  case (BeginReplacement i)
  then have i: "i < length (replacing s)" "job_stage (replacing s ! i) = Beginning"
    using assms by (simp_all split: if_splits)
  show ?thesis
    using assms BeginReplacement i
    by (auto simp: set_job_def Let_def
        intro: engine_step.replacement_begins [OF split_nth [OF i(1)] i(2)])
next
  case (PreviousStops i stopErr)
  then obtain p where i: "i < length (replacing s)" "job_stage (replacing s ! i) = Stopping"
      "job_previous (replacing s ! i) = Some p"
    using assms by (auto simp: Let_def split: if_splits option.splits)
  show ?thesis
    using assms PreviousStops i
    by (auto simp: set_job_def Let_def
        intro: engine_step.previous_stopped [OF split_nth [OF i(1)] i(2,3)])
next
  case (StartReturns i startErr)
  then have i: "i < length (replacing s)" "job_stage (replacing s ! i) = Launching"
    using assms by (simp_all split: if_splits)
  show ?thesis
    using assms StartReturns i
    by (auto simp: set_job_def Let_def
        intro: engine_step.start_returned [OF split_nth [OF i(1)] i(2) refl, simplified])
next
  case (ReceiveReplacement i)
  then have i: "\<not> loop_ended s" "i < length (replacing s)" "job_stage (replacing s ! i) = Sending"
    using assms by (simp_all split: if_splits)
  show ?thesis
    using assms ReceiveReplacement i
    by (auto simp: without_def
        intro: engine_step.replacement_received [OF i(1) split_nth [OF i(2)] i(3)])
qed (use assms in \<open>auto intro: engine_step.intros split: if_splits option.splits\<close>)

lemma perform_all_reachable:
  "perform_all U env as s = Some s' \<Longrightarrow> reachable U env quiet delay s \<Longrightarrow>
   reachable U env quiet delay s'"
proof (induction as arbitrary: s)
  case (Cons a as)
  then obtain s1 where "perform U env a s = Some s1" "perform_all U env as s1 = Some s'"
    by (auto split: option.splits)
  then show ?case using Cons perform_step reachable.run_steps by blast
qed simp

section \<open>Concrete runs\<close>

definition calm :: environment where
  "calm = \<lparr>dispose_error = (\<lambda>_. None), stop_error = (\<lambda>_. None)\<rparr>"

definition go_write :: file_event where
  "go_write = \<lparr>Path = ''main.go'', Kind = ChangeWrite\<rparr>"

text \<open>The initial build succeeds and its application starts.\<close>

definition first_start :: "action list" where
  "first_start =
     [PipelineReturns 0 True None, ReceivePreparation 0, BeginReplacement 0, StartReturns 0 None,
      ReceiveReplacement 0]"

text \<open>
  Then a change is built and its replacement begins to stop the application; a second change
  arrives and is built while that stop is still going on; then the first replacement is ready to
  report.
\<close>

definition second_change :: "action list" where
  "second_change =
     [FileChanged 10 10 go_write, TimerFires 100 100, PipelineReturns 0 True None,
      ReceivePreparation 0,
      FileChanged 200 200 go_write, TimerFires 300 300, PipelineReturns 0 True None,
      ReceivePreparation 0,
      PreviousStops 0 None]"

definition state_after :: "action list \<Rightarrow> system" where
  "state_after as = the (perform_all latin_only calm as (begin_run (sample_debouncer)))"

lemma sample_reachable:
  assumes "perform_all latin_only calm as (begin_run sample_debouncer) \<noteq> None"
  shows "reachable latin_only calm 5 20 (state_after as)"
proof -
  have "reachable latin_only calm 5 20 (begin_run sample_debouncer)"
    by (rule reachable.run_begins [OF NewDebouncer_sample])
  then show ?thesis
    using assms perform_all_reachable by (auto simp: state_after_def)
qed

lemma started_reachable: "reachable latin_only calm 5 20 (state_after first_start)"
  by (rule sample_reachable) code_simp

lemma second_reachable: "reachable latin_only calm 5 20 (state_after (first_start @ second_change))"
  by (rule sample_reachable) code_simp

lemma stopped_reachable: "reachable latin_only calm 5 20 (state_after (first_start @ [EndRun]))"
  by (rule sample_reachable) code_simp

section \<open>Revisions that are lost\<close>

text \<open>
  A replacement that will not start its application: its context is canceled, and if it reports
  already, it reports an error.
\<close>

definition doomed :: "system \<Rightarrow> replace_job \<Rightarrow> bool" where
  "doomed s job =
     (ctx_err s (job_ctx job) \<noteq> None \<and> (job_stage job = Sending \<longrightarrow> rep_err (job_result job) \<noteq> None))"

text \<open>A revision that is not active and that nobody can make active any more.\<close>

definition lost :: "revision \<Rightarrow> system \<Rightarrow> bool" where
  "lost r s =
     (r \<le> current_revision s \<and> r \<notin> (\<lambda>(c, b). Revision b) ` set (preparing s) \<and>
      r \<notin> prep_revision ` set (prepared s) \<and>
      (\<forall>job \<in> set (replacing s). rep_revision (job_result job) = r \<longrightarrow> doomed s job) \<and>
      (active s \<noteq> None \<longrightarrow> activeRevision s \<noteq> r))"

definition idle_at :: "revision \<Rightarrow> system \<Rightarrow> bool" where
  "idle_at r s = (current_revision s = r \<longrightarrow> active s = None)"

lemma ctx_err_step: "engine_step U env s s' \<Longrightarrow> ctx_err s c \<noteq> None \<Longrightarrow> ctx_err s' c \<noteq> None"
  using step_canceled [of U env s s'] by (auto simp: ctx_err_def split: if_splits)

lemma doomed_moves:
  assumes "doomed s job"
  shows "doomed s (replace_check (ctx_err s (job_ctx job)) job)"
    "doomed s (replace_stopped stopErr (ctx_err s (job_ctx job)) job)"
    "doomed s (replace_launched None (Some err) (ctx_err s (job_ctx job)) job)"
    "doomed s (replace_launched (Some p) startErr (ctx_err s (job_ctx job)) job)"
    "doomed s (replace_undone stopErr (ctx_err s (job_ctx job)) job)"
  using assms
  by (auto simp: doomed_def replace_check_def replace_stopped_def replace_launched_def replace_undone_def Let_def)

lemma doomed_step: "engine_step U env s s' \<Longrightarrow> doomed s job \<Longrightarrow> doomed s' job"
  using ctx_err_step by (auto simp: doomed_def)

text \<open>Steps that move one replacement on, and nothing else.\<close>

lemma lost_moves:
  assumes "lost r s" "engine_step U env s s'" "replacing s = xs @ job # ys" "replacing s' = xs @ job' # ys"
    "rep_revision (job_result job') = rep_revision (job_result job)" "doomed s job \<Longrightarrow> doomed s job'"
    "current_revision s' = current_revision s" "preparing s' = preparing s" "prepared s' = prepared s"
    "active s' = active s" "activeRevision s' = activeRevision s"
  shows "lost r s'"
  using assms doomed_step [OF assms(2)] unfolding lost_def by auto

lemma lost_same:
  assumes "lost r s" "engine_step U env s s'" "set (replacing s') \<subseteq> set (replacing s)"
    "current_revision s' = current_revision s" "set (preparing s') \<subseteq> set (preparing s)"
    "set (prepared s') \<subseteq> set (prepared s)"
    "active s' = None \<or> active s' = active s \<and> activeRevision s' = activeRevision s"
  shows "lost r s'"
  using assms doomed_step [OF assms(2)] unfolding lost_def by (auto 4 3)

lemma lost_received:
  assumes "lost r s" "replacing s = xs @ job # ys" "job_stage job = Sending"
    "engine_step U env s (finishReplacement env (job_result job) (s\<lparr>replacing := xs @ ys\<rparr>))"
  shows "lost r (finishReplacement env (job_result job) (s\<lparr>replacing := xs @ ys\<rparr>))"
    "idle_at r s \<Longrightarrow> idle_at r (finishReplacement env (job_result job) (s\<lparr>replacing := xs @ ys\<rparr>))"
proof -
  let ?s = "s\<lparr>replacing := xs @ ys\<rparr>"
  let ?s' = "finishReplacement env (job_result job) ?s"
  have other: "rep_revision (job_result job) \<noteq> r" if "activates (job_result job) ?s"
    using that assms(1-3) by (auto simp: lost_def doomed_def activates_def)
  have active: "active ?s' = None \<or> active ?s' = active s \<and> activeRevision ?s' = activeRevision s \<or>
      activeRevision ?s' = rep_revision (job_result job) \<and> activates (job_result job) ?s"
    by (simp add: finishReplacement_active)
  have "doomed ?s' j" if "j \<in> set (xs @ ys)" "rep_revision (job_result j) = r" for j
    using that assms(1,2) doomed_step [OF assms(4)] by (auto simp: lost_def)
  then show "lost r ?s'" using assms(1) active other by (auto simp: lost_def)
  show "idle_at r ?s'" if "idle_at r s"
    using that other by (auto simp: idle_at_def finishReplacement_active activates_def)
qed

lemma lost_prepared:
  assumes "lost r s" "prepared s = xs @ p # ys" "engine_step U env s (finishPreparation env p (s\<lparr>prepared := xs @ ys\<rparr>))"
  shows "lost r (finishPreparation env p (s\<lparr>prepared := xs @ ys\<rparr>))"
proof -
  have p: "prep_revision p \<noteq> r" using assms(1,2) by (auto simp: lost_def)
  have old: "doomed (finishPreparation env p (s\<lparr>prepared := xs @ ys\<rparr>)) j"
    if "j \<in> set (replacing s)" "rep_revision (job_result j) = r" for j
    using that assms(1) doomed_step [OF assms(3)] by (auto simp: lost_def)
  show ?thesis
  proof (cases rule: finishPreparation_replacing [of env p "s\<lparr>prepared := xs @ ys\<rparr>"])
    case 1
    then show ?thesis using assms(1,2) old by (auto simp: lost_def)
  next
    case (2 job)
    then show ?thesis using assms(1,2) old p by (auto simp: lost_def)
  qed
qed

lemma lost_expired:
  assumes "lost r s" "current_revision s \<noteq> - 1" "engine_step U env s (acceptPending now later s)"
  shows "lost r (acceptPending now later s)" "idle_at r s \<Longrightarrow> idle_at r (acceptPending now later s)"
proof -
  let ?s' = "acceptPending now later s"
  have less: "current_revision s < current_revision s + 1"
    using assms(2) inc_less_eq_self_iff_eq [of "current_revision s"] by (simp add: not_le [symmetric])
  have low: "r \<le> current_revision s" using assms(1) by (simp add: lost_def)
  have grown: "current_revision ?s' = current_revision s \<and> preparing ?s' = preparing s \<or>
      current_revision ?s' = current_revision s + 1 \<and>
      (\<exists>c b. preparing ?s' = preparing s @ [(c, b)] \<and> Revision b = current_revision s + 1)"
    by (auto simp: acceptPending_def startPreparation_def newBatch_def Let_def split_beta)
  have "r \<noteq> current_revision s + 1" "r \<le> current_revision s + 1" using less low by auto
  moreover have "doomed ?s' j" if "j \<in> set (replacing s)" "rep_revision (job_result j) = r" for j
    using that assms(1) doomed_step [OF assms(3)] by (auto simp: lost_def)
  ultimately show "lost r ?s'" using assms(1) grown by (auto simp: lost_def)
  show "idle_at r ?s'" if "idle_at r s"
    using that grown \<open>r \<noteq> current_revision s + 1\<close> by (auto simp: idle_at_def)
qed

lemma lost_step:
  assumes "engine_step U env s s'" "lost r s"
  shows "lost r s' \<and> (idle_at r s \<longrightarrow> idle_at r s')"
  using assms(1)
proof cases
  case (debounce_expired now later)
  then show ?thesis using lost_expired [OF assms(2)] assms(1) by auto
next
  case (pipeline_returned xs c batch ys made err)
  then show ?thesis
    using assms(2) doomed_step [OF assms(1)] by (auto simp: lost_def idle_at_def prepare_returns_def Let_def doomed_def ctx_err_def)
next
  case (preparation_received xs p ys)
  then show ?thesis using lost_prepared [OF assms(2)] assms(1) by (auto simp: idle_at_def)
next
  case (replacement_received xs job ys)
  then show ?thesis using lost_received [OF assms(2)] assms(1) by auto
next
  case (replacement_begins xs job ys)
  then show ?thesis using lost_moves [OF assms(2,1) replacement_begins(2)] doomed_moves(1) by (simp add: idle_at_def)
next
  case (previous_stopped xs job ys p stopErr)
  then show ?thesis using lost_moves [OF assms(2,1) previous_stopped(2)] doomed_moves(2) by (simp add: idle_at_def)
next
  case (start_failed xs job ys err)
  then show ?thesis using lost_moves [OF assms(2,1) start_failed(2)] doomed_moves(3) by (simp add: idle_at_def)
next
  case (start_returned xs job ys p startErr)
  then show ?thesis using lost_moves [OF assms(2,1) start_returned(2)] doomed_moves(4) by (simp add: idle_at_def)
next
  case (launch_undone xs job ys p stopErr)
  then show ?thesis using lost_moves [OF assms(2,1) launch_undone(2)] doomed_moves(5) by (simp add: idle_at_def)
qed (use lost_same [OF assms(2,1)] in \<open>auto simp: idle_at_def\<close>)

lemma lost_for_good:
  assumes "(engine_step U env)\<^sup>*\<^sup>* s later" "lost r s"
  shows "lost r later \<and> (idle_at r s \<longrightarrow> idle_at r later)"
  using assms by (induction rule: rtranclp_induct) (use lost_step in blast)+

lemma current_lost:
  assumes "engine_inv s" "replacing s = xs @ outdated # ys" "job \<in> set (xs @ ys)"
    and "rep_revision (job_result job) = current_revision s" "rep_revision (job_result outdated) \<noteq> current_revision s"
    and "job_stage job \<noteq> Sending" "replaceStop s = Some (job_ctx job)"
  shows "lost (current_revision s) (finishReplacement env (job_result outdated) (s\<lparr>replacing := xs @ ys\<rparr>))"
    "ctx_err (finishReplacement env (job_result outdated) (s\<lparr>replacing := xs @ ys\<rparr>)) (job_ctx job) = Some canceled_error"
proof -
  let ?s' = "finishReplacement env (job_result outdated) (s\<lparr>replacing := xs @ ys\<rparr>)"
  show err: "ctx_err ?s' (job_ctx job) = Some canceled_error"
    using assms(7) by (simp add: ctx_err_def finishReplacement_def cancel_replacement_def cancel_def Let_def)
  obtain as bs where split: "xs @ ys = as @ job # bs" using assms(3) by (meson split_list)
  have ok: "distinct (live_revisions s)" "set (live_revisions s) \<inter> past_revisions s = {}"
    using assms(1) by (simp_all add: engine_inv_def revisions_ok_def)
  have live: "mset (live_revisions s) = mset (current_revision s # rep_revision (job_result outdated) #
      map (\<lambda>(c, b). Revision b) (preparing s) @ map prep_revision (prepared s) @
      map (\<lambda>j. rep_revision (job_result j)) (as @ bs))"
    using arg_cong [OF split, of "\<lambda>js. mset (map (\<lambda>j. rep_revision (job_result j)) js)"] assms(2,4) by (simp add: live_revisions_def)
  have alone: "current_revision s \<notin> (\<lambda>(c, b). Revision b) ` set (preparing s)"
      "current_revision s \<notin> prep_revision ` set (prepared s)"
      "\<And>j. j \<in> set (as @ bs) \<Longrightarrow> rep_revision (job_result j) \<noteq> current_revision s"
    using mset_eq_imp_distinct_iff [OF live] ok(1) by (auto simp: image_iff)
  have "current_revision s \<in> set (live_revisions s)" using mset_eq_setD [OF live] by simp
  then have active: "active s \<noteq> None \<Longrightarrow> activeRevision s \<noteq> current_revision s"
    using ok(2) by (auto simp: past_revisions_def)
  have "doomed ?s' j" if "j \<in> set (xs @ ys)" "rep_revision (job_result j) = current_revision s" for j
    using that alone(3) split err assms(6) by (fastforce simp: doomed_def)
  then show "lost (current_revision s) ?s'"
    using alone(1,2) active assms(5) by (auto simp: lost_def finishReplacement_active activates_def split: if_splits)
qed

section \<open>Properties\<close>

text \<open>
  C21. Every candidate the pipeline ever produced is accounted for exactly once, in every
  interleaving: it waits in a finished preparation, is being installed by a replacement, runs
  as the active application, was cleaned up, or was let go of; so no candidate is cleaned up
  while anyone still holds it, and none is cleaned up twice.
\<close>
theorem candidates_owned_once:
  assumes "reachable U env quiet delay s"
  shows "distinct (map fst (owners s) @ disposed s @ dropped s) \<and>
    set (map fst (owners s) @ disposed s @ dropped s) = {0..<next_candidate s}"
proof -
  have eq: "mset (map fst (owners s) @ disposed s @ dropped s) = mset [0..<next_candidate s]"
    using reachable_inv [OF assms] by (simp add: engine_inv_def candidates_ok_def ac_simps)
  then have "distinct (map fst (owners s) @ disposed s @ dropped s)"
    using mset_eq_imp_distinct_iff [OF eq] by simp
  moreover have "set (map fst (owners s) @ disposed s @ dropped s) = set [0..<next_candidate s]"
    using eq by (metis set_mset_mset)
  ultimately show ?thesis by simp
qed

theorem candidates_owned_once_witness:
  "distinct (map fst (owners (state_after first_start)) @ disposed (state_after first_start) @
     dropped (state_after first_start))"
  using candidates_owned_once [OF started_reachable] by blast

text \<open>
  C22. An artifact is cleaned up only after every process started from it has ended: in no
  interleaving is the executable of a running application removed.
\<close>
theorem disposed_after_processes_ended:
  assumes "reachable U env quiet delay s" "(p, Some c) \<in> set (launched s)" "c \<in> set (disposed s)"
  shows "p \<in> set (ended s)"
  using reachable_inv [OF assms(1)] assms(2,3)
  by (auto simp: engine_inv_def candidates_ok_def launches_ended_def)

theorem disposed_after_processes_ended_witness:
  "(0, Some 0) \<in> set (launched (state_after (first_start @ [EndRun]))) \<and>
   0 \<in> set (ended (state_after (first_start @ [EndRun])))"
proof -
  have "(0, Some 0) \<in> set (launched (state_after (first_start @ [EndRun])))" by code_simp
  moreover have "0 \<in> set (disposed (state_after (first_start @ [EndRun])))" by code_simp
  ultimately show ?thesis
    using disposed_after_processes_ended [OF stopped_reachable] by blast
qed

text \<open>
  An application becomes active only in place of one that has ended: whenever a step
  makes a process active, it is the process of the current revision, no change is pending, and
  the application that was active before, if any, has ended.  At no time do two applications
  run under the engine's control because one overwrote the other.
\<close>
theorem activation_replaces_ended:
  assumes "reachable U env quiet delay s" "engine_step U env s s'"
    "active s' = Some p" "active s \<noteq> Some p"
  shows "activeRevision s' = current_revision s' \<and> \<not> Pending (debounce s') \<and>
    (case active s of None \<Rightarrow> True | Some q \<Rightarrow> q \<in> set (ended s'))"
proof -
  have inv: "engine_inv s" by (rule reachable_inv [OF assms(1)])
  show ?thesis
    using assms(2)
  proof cases
    case (replacement_received xs job ys)
    let ?r = "job_result job" let ?s = "s\<lparr>replacing := xs @ ys\<rparr>"
    have ok: "job_ok s job" using inv replacement_received(3) by (simp add: engine_inv_def)
    have act: "activates ?r ?s"
      using assms(3,4) replacement_received(1) by (auto simp: finishReplacement_active split: if_splits)
    have "q \<in> set (ended s)" if "active s = Some q" for q
      using ok act that replacement_received(4)
      by (cases "job_previous job") (auto simp: job_ok_def job_stage_ok_def activates_def)
    then show ?thesis
      using act replacement_received(1) ended_grows(4) [of ?s env ?r]
      by (auto simp: finishReplacement_active activates_def split: option.splits)
  qed (use assms(3,4) in \<open>auto\<close>)
qed

theorem activation_replaces_ended_witness:
  "activeRevision (state_after first_start) = current_revision (state_after first_start)"
proof -
  let ?before = "butlast first_start"
  have "perform_all latin_only calm ?before (begin_run sample_debouncer) \<noteq> None" by code_simp
  then have "reachable latin_only calm 5 20 (state_after ?before)" by (rule sample_reachable)
  moreover have "perform latin_only calm (ReceiveReplacement 0) (state_after ?before) =
      Some (state_after first_start)" by code_simp
  then have "engine_step latin_only calm (state_after ?before) (state_after first_start)"
    by (rule perform_step)
  moreover have "active (state_after first_start) = Some 0" by code_simp
  moreover have "active (state_after ?before) \<noteq> Some 0" by code_simp
  ultimately show ?thesis by (blast dest: activation_replaces_ended)
qed

text \<open>
  C23. A shut-down run leaves nothing behind: once the loop has ended and no goroutine is left,
  every process that was ever started has ended and every candidate was cleaned up, except
  those the engine let go of.
\<close>
theorem shutdown_leaves_nothing:
  assumes "reachable U env quiet delay s" "loop_ended s"
    "preparing s = []" "prepared s = []" "replacing s = []"
  shows "fst ` set (launched s) \<subseteq> set (ended s) \<and>
    set (disposed s) \<union> set (dropped s) = {0..<next_candidate s}"
proof -
  have inv: "active_ok s" "processes_ok None s" "candidates_ok [] s"
    using reachable_inv [OF assms(1)] by (simp_all add: engine_inv_def)
  then have idle: "active s = None" "activeCandidate s = None"
    using assms(2) by (simp_all add: active_ok_def)
  then have owners: "owners s = []" using assms(4,5) by (simp add: owners_def)
  have "fst ` set (launched s) \<subseteq> set (ended s)"
    using inv(2) idle assms(5) by (force simp: processes_ok_def)
  moreover have "mset (disposed s @ dropped s) = mset [0..<next_candidate s]"
    using inv(3) owners by (simp add: candidates_ok_def)
  then have "set (disposed s @ dropped s) = set [0..<next_candidate s]" by (metis set_mset_mset)
  ultimately show ?thesis by simp
qed

theorem shutdown_leaves_nothing_witness:
  "fst ` set (launched (state_after (first_start @ [EndRun])))
     \<subseteq> set (ended (state_after (first_start @ [EndRun])))"
proof -
  let ?s = "state_after (first_start @ [EndRun])"
  have "loop_ended ?s" by code_simp
  moreover have "preparing ?s = []" by code_simp
  moreover have "prepared ?s = []" by code_simp
  moreover have "replacing ?s = []" by code_simp
  ultimately show ?thesis using shutdown_leaves_nothing [OF stopped_reachable] by blast
qed

text \<open>
  No change is forgotten: while the loop runs, a pending change always has the debounce
  timer armed, and the timer's expiry at any time at or after the deadline starts a preparation
  of the next revision with the pending changes and leaves nothing pending.
\<close>
theorem pending_change_is_prepared:
  assumes "reachable U env quiet delay s" "\<not> loop_ended s" "Pending (debounce s)"
    "fst (Deadline (debounce s)) \<le> now"
  shows "debounceC s \<and>
    (let s' = acceptPending now later s; d = debounce s
     in current_revision s' = current_revision s + 1 \<and> \<not> Pending (debounce s') \<and>
        (\<exists>c. preparing s' = preparing s @
           [(c, newBatch (current_revision s + 1)
                  (map (\<lambda>p. the (map_of (pending d) p)) (sort_strings (map fst (pending d)))))]))"
proof -
  have "debounceC s"
    using reachable_inv [OF assms(1)] assms(2,3) by (simp add: engine_inv_def timer_ok_def)
  moreover have "Take now r (debounce s) =
      (newBatch r (map (\<lambda>p. the (map_of (pending (debounce s)) p))
          (sort_strings (map fst (pending (debounce s))))), True,
       (debounce s)\<lparr>pending := [], first_time := 0, last_time := 0\<rparr>)" for r
    using assms(3,4) by (auto simp: Take_def Deadline_def Pending_def Let_def split_beta)
  ultimately show ?thesis
    by (simp add: acceptPending_def startPreparation_def Pending_def Let_def newBatch_def)
qed

theorem pending_change_is_prepared_witness:
  "let s = state_after (first_start @ [FileChanged 10 10 go_write])
   in debounceC s \<and> current_revision (acceptPending 100 100 s) = current_revision s + 1"
proof -
  let ?s = "state_after (first_start @ [FileChanged 10 10 go_write])"
  have "perform_all latin_only calm (first_start @ [FileChanged 10 10 go_write])
      (begin_run sample_debouncer) \<noteq> None" by code_simp
  then have "reachable latin_only calm 5 20 ?s" by (rule sample_reachable)
  moreover have "\<not> loop_ended ?s" by code_simp
  moreover have "Pending (debounce ?s)" by code_simp
  moreover have "fst (Deadline (debounce ?s)) \<le> 100" by code_simp
  ultimately show ?thesis using pending_change_is_prepared [of latin_only calm 5 20 ?s 100 100]
    by (simp add: Let_def)
qed

text \<open>
  A failed preparation never touches the running application: when the current revision's
  preparation reports an error, or any result is out of date, the active process, its
  candidate and its revision stay as they are, no process is stopped and no replacement starts.
\<close>
theorem last_known_good_kept:
  assumes "prep_err result \<noteq> None \<or> prep_revision result \<noteq> current_revision s \<or> Pending (debounce s)"
  shows "let s' = finishPreparation env result s
    in active s' = active s \<and> activeCandidate s' = activeCandidate s \<and>
       activeRevision s' = activeRevision s \<and> ended s' = ended s \<and> replacing s' = replacing s"
  using assms by (auto simp: finishPreparation_def Let_def split_beta)

theorem last_known_good_kept_witness:
  "active (finishPreparation calm
     \<lparr>prep_revision = 1, prep_candidate = None, prep_err = Some (errors_New ''build failed'')\<rparr>
     (state_after first_start)) = Some 0"
proof -
  have "active (state_after first_start) = Some 0" by code_simp
  then show ?thesis
    using last_known_good_kept [of "\<lparr>prep_revision = 1, prep_candidate = None,
        prep_err = Some (errors_New ''build failed'')\<rparr>" "state_after first_start" calm]
    by (simp add: Let_def)
qed

text \<open>
  C35. A successful build is lost when the result of an outdated replacement arrives.  Let the current
  revision be built and its replacement be at work, not canceled, and let the loop receive the result of the
  replacement of an earlier revision.  Then the loop cancels the replacement of the current revision, and
  however the run goes on, no application of that revision ever becomes active; if the result says
  that the former application was stopped, no application at all is active until
  the next change is built.  The witness is a run that gets there with no failure and no cancellation
  from outside.
\<close>
theorem stale_replacement_cancels_current:
  assumes "reachable U env quiet delay s" "\<not> loop_ended s"
    and "replacing s = xs @ outdated # ys" "job_stage outdated = Sending"
    and "rep_revision (job_result outdated) \<noteq> current_revision s"
    and "job \<in> set (xs @ ys)" "rep_revision (job_result job) = current_revision s" "job_stage job \<noteq> Sending"
    and "replaceStop s = Some (job_ctx job)" "ctx_err s (job_ctx job) = None"
  shows "\<exists>s'. engine_step U env s s' \<and> s' = finishReplacement env (job_result outdated) (s\<lparr>replacing := xs @ ys\<rparr>) \<and>
    ctx_err s' (job_ctx job) = Some canceled_error \<and>
    (\<forall>later. (engine_step U env)\<^sup>*\<^sup>* s' later \<longrightarrow>
       (active later \<noteq> None \<longrightarrow> activeRevision later \<noteq> current_revision s) \<and>
       (previousStopped (job_result outdated) \<and> activeRevision s = previousRevision (job_result outdated) \<and>
        current_revision later = current_revision s \<longrightarrow> active later = None))"
proof -
  let ?s' = "finishReplacement env (job_result outdated) (s\<lparr>replacing := xs @ ys\<rparr>)"
  note lost = current_lost [OF reachable_inv [OF assms(1)] assms(3,6,7,5,8,9)]
  have "engine_step U env s ?s'" by (rule engine_step.replacement_received [OF assms(2-4)])
  moreover have "idle_at (current_revision s) ?s'"
    if "previousStopped (job_result outdated)" "activeRevision s = previousRevision (job_result outdated)"
    using that assms(5) by (simp add: idle_at_def finishReplacement_active activates_def)
  ultimately show ?thesis
    using lost lost_for_good [OF _ lost(1)] by (intro exI [of _ ?s']) (auto simp: lost_def idle_at_def)
qed

theorem stale_replacement_cancels_current_witness:
  "reachable latin_only calm 5 20 (state_after (first_start @ second_change)) \<and>
   (\<exists>s'. engine_step latin_only calm (state_after (first_start @ second_change)) s' \<and>
     (\<forall>later. (engine_step latin_only calm)\<^sup>*\<^sup>* s' later \<longrightarrow> current_revision later = 3 \<longrightarrow> active later = None))"
proof (intro conjI second_reachable)
  let ?s = "state_after (first_start @ second_change)"
  let ?old = "replacing ?s ! 0" and ?job = "replacing ?s ! 1"
  have "length (replacing ?s) = 2" by code_simp
  then have jobs: "replacing ?s = [] @ ?old # [?job]" by (auto simp: numeral_2_eq_2 length_Suc_conv)
  have revision: "current_revision ?s = 3" by code_simp
  have previous: "previousStopped (job_result ?old)" "activeRevision ?s = previousRevision (job_result ?old)" by code_simp+
  have "\<not> loop_ended ?s" by code_simp
  moreover have "job_stage ?old = Sending" by code_simp
  moreover have "rep_revision (job_result ?old) \<noteq> current_revision ?s" by code_simp
  moreover have "?job \<in> set ([] @ [?job])" by simp
  moreover have "rep_revision (job_result ?job) = current_revision ?s" by code_simp
  moreover have "job_stage ?job \<noteq> Sending" by code_simp
  moreover have "replaceStop ?s = Some (job_ctx ?job)" by code_simp
  moreover have "ctx_err ?s (job_ctx ?job) = None" by code_simp
  ultimately show "\<exists>s'. engine_step latin_only calm ?s s' \<and>
      (\<forall>later. (engine_step latin_only calm)\<^sup>*\<^sup>* s' later \<longrightarrow> current_revision later = 3 \<longrightarrow> active later = None)"
    using stale_replacement_cancels_current [OF second_reachable _ jobs] previous revision by metis
qed

text \<open>
  The engine does not clean up a candidate that comes with an error: there is a run in
  which the preparation of the current revision returns a candidate together with an error, and
  when the run is over, with no goroutine left, that candidate was never cleaned up.
\<close>
theorem failed_candidate_not_disposed:
  "\<exists>s. reachable latin_only calm 5 20 s \<and> loop_ended s \<and> preparing s = [] \<and> prepared s = [] \<and>
     replacing s = [] \<and> next_candidate s = 1 \<and> disposed s = []"
proof -
  let ?as = "[PipelineReturns 0 True (Some (errors_New ''vet failed'')), ReceivePreparation 0, EndRun]"
  have "perform_all latin_only calm ?as (begin_run sample_debouncer) \<noteq> None" by code_simp
  then have "reachable latin_only calm 5 20 (state_after ?as)" by (rule sample_reachable)
  moreover have "loop_ended (state_after ?as)" by code_simp
  moreover have "preparing (state_after ?as) = []" by code_simp
  moreover have "prepared (state_after ?as) = []" by code_simp
  moreover have "replacing (state_after ?as) = []" by code_simp
  moreover have "next_candidate (state_after ?as) = 1" by code_simp
  moreover have "disposed (state_after ?as) = []" by code_simp
  ultimately show ?thesis by blast
qed

text \<open>
  A constructed engine always runs: \<open>NewEngine\<close> accepts a configuration exactly when,
  after its defaults, the debouncer that \<open>Run\<close> creates from it can be created, the stop
  timeout is positive, and no required part is missing; an all-zero configuration is accepted.
\<close>
theorem NewEngine_iff:
  "(\<exists>e. NewEngine realClock discardSink config watcher clock pipeline launcher snk = Inr e) \<longleftrightarrow>
     (let c = withDefaults config
      in (\<exists>d. NewDebouncer (QuietPeriod c) (MaxDelay c) = Inr d) \<and> 0 < StopTimeout c) \<and>
     watcher \<noteq> None \<and> pipeline \<noteq> None \<and> launcher \<noteq> None"
  by (cases watcher; cases pipeline; cases launcher)
    (auto simp: NewEngine_def NewDebouncer_def Let_def)

end
