(* ===== verification/Fingerprint.thy ===== *)
theory Fingerprint
  imports Prelude
begin

text \<open>
  The structural fingerprint of a Go source file (\<open>src/internal/devloop/fingerprint.go\<close>): the
  bodies of functions and methods are replaced by empty ones before hashing.  \<open>go/parser\<close> and
  SHA-256 are parameters: \<open>parse\<close> returns, for each top-level declaration in order, the
  offsets of the braces of its function body, or \<open>None\<close> when it has no body.
\<close>

type_synonym body_span = "nat \<times> nat"
type_synonym go_parser = "string \<Rightarrow> string \<Rightarrow> body_span option list go_result"

fun blank_bodies :: "string \<Rightarrow> nat \<Rightarrow> body_span option list \<Rightarrow> string" where
  "blank_bodies content previous [] = drop previous content"
| "blank_bodies content previous (None # decls) = blank_bodies content previous decls"
| "blank_bodies content previous (Some (lbrace, rbrace) # decls) =
     drop previous (take lbrace content) @ ''{}'' @ blank_bodies content (rbrace + 1) decls"

definition StructuralFingerprint ::
    "go_parser \<Rightarrow> (string \<Rightarrow> 'h) \<Rightarrow> string \<Rightarrow> string \<Rightarrow> 'h go_result" where
  "StructuralFingerprint parse sha256 name content =
     (case parse name content of
        Inl e \<Rightarrow> Inl (''parse development source structure '' @ name @ '': '' @ e)
      | Inr decls \<Rightarrow> Inr (sha256 (blank_bodies content 0 decls)))"

section \<open>Bodies do not matter\<close>

text \<open>A source as its declarations: the text up to a body, and the body if there is one.\<close>

type_synonym woven = "(string \<times> string option) list"

fun weave :: "woven \<Rightarrow> string" where
  "weave [] = []"
| "weave ((lead, body) # parts) = lead @ (case body of None \<Rightarrow> [] | Some b \<Rightarrow> b) @ weave parts"

text \<open>Where the bodies lie in the source text.\<close>

fun spans :: "nat \<Rightarrow> woven \<Rightarrow> body_span option list" where
  "spans at [] = []"
| "spans at ((lead, body) # parts) =
     (case body of
        None \<Rightarrow> None # spans (at + length lead) parts
      | Some b \<Rightarrow> Some (at + length lead, at + length lead + length b - 1)
                   # spans (at + length lead + length b) parts)"

definition bodies_ok :: "woven \<Rightarrow> bool" where
  "bodies_ok parts = (\<forall>(lead, body) \<in> set parts. body \<noteq> Some [])"

definition outline :: "woven \<Rightarrow> woven" where
  "outline parts = map (\<lambda>(lead, body). (lead, map_option (\<lambda>_. ''{}'') body)) parts"

lemma blank_bodies_weave:
  assumes "bodies_ok parts"
  shows "blank_bodies (before @ seen @ weave parts @ after) (length before)
      (spans (length before + length seen) parts) = seen @ weave (outline parts) @ after"
  using assms
proof (induction parts arbitrary: before seen)
  case Nil
  then show ?case by (simp add: outline_def)
next
  case (Cons part parts)
  obtain lead body where part: "part = (lead, body)" by (cases part)
  show ?case
  proof (cases body)
    case None
    then show ?thesis
      using Cons.IH [of before "seen @ lead"] Cons.prems part
      by (simp add: bodies_ok_def outline_def add.assoc)
  next
    case (Some b)
    then have b: "0 < length b" using Cons.prems part by (auto simp: bodies_ok_def)
    let ?before = "before @ seen @ lead @ b"
    have "length before + (length seen + length lead) + length b - 1 + 1 = length ?before"
      using b by simp
    then show ?thesis
      using Cons.IH [of ?before "[]"] Cons.prems part Some b
      by (simp add: bodies_ok_def outline_def add.assoc)
  qed
qed

section \<open>Properties\<close>

text \<open>
  The fingerprint depends on everything but the bodies.  For any parser that reports the
  bodies of the source where they are, the fingerprint is the hash of the source with every
  body emptied; so an edit inside bodies keeps it, and text outside bodies always enters it.
\<close>
theorem StructuralFingerprint_outline:
  assumes "bodies_ok parts" "parse name (weave parts) = Inr (spans 0 parts)"
  shows "StructuralFingerprint parse sha256 name (weave parts) = Inr (sha256 (weave (outline parts)))"
  using blank_bodies_weave [OF assms(1), of "[]" "[]" "[]"] assms(2)
  by (simp add: StructuralFingerprint_def)

definition sample_parts :: woven where
  "sample_parts =
     [(''type T struct{}; '', None), (''func f() '', Some ''{ return 1 }''), (''; var x = 1'', None)]"

theorem StructuralFingerprint_outline_witness:
  "StructuralFingerprint (\<lambda>_ _. Inr (spans 0 sample_parts)) (\<lambda>s. s) ''a.go'' (weave sample_parts) =
     Inr ''type T struct{}; func f() {}; var x = 1''"
proof -
  have "bodies_ok sample_parts" by code_simp
  moreover have "weave (outline sample_parts) = ''type T struct{}; func f() {}; var x = 1''"
    by code_simp
  ultimately show ?thesis
    using StructuralFingerprint_outline [of sample_parts "\<lambda>_ _. Inr (spans 0 sample_parts)"
        "''a.go''" "\<lambda>s. s"] by simp
qed

end
