(* ===== verification/Gen_Plan.thy ===== *)
theory Gen_Plan
  imports Go_Path
begin

text \<open>
  Generation plans and ownership manifests: the data of \<open>src/compiler/generate/generate.go\<close>
  that \<open>src/internal/genfs/genfs.go\<close> works on, and the validation of paths, plans and
  manifests in the latter.  Plans hold values, so the defensive copies of the accessors are
  the identity.  Parameters stand for what is not plain text processing: SHA-256,
  \<open>encoding/json\<close>, the Go parser and the letter case of non-ASCII runes.
\<close>

section \<open>Plans and manifests\<close>

definition SchemaVersion :: int where "SchemaVersion = 6"

definition LayoutGeneratedPackage :: string where
  "LayoutGeneratedPackage = ''generated-package''"
definition LayoutApplicationPackage :: string where
  "LayoutApplicationPackage = ''application-package''"

record target =
  ID :: string
  Layout :: string
  ModulePath :: string
  ModuleRoot :: string
  PackagePath :: string
  EntrypointPackagePath :: string
  OutputDir :: string
  BridgeDir :: string
  ManifestPath :: string

record target_summary =
  sum_ID :: string
  sum_Layout :: string
  sum_ModulePath :: string
  sum_PackagePath :: string
  sum_EntrypointPackagePath :: string
  sum_OutputDir :: string
  sum_BridgeDir :: string
  sum_ManifestPath :: string

definition FileRoleSourceUnit :: string where "FileRoleSourceUnit = ''source-unit''"
definition FileRoleSourceShard :: string where "FileRoleSourceShard = FileRoleSourceUnit"

record source_origin =
  origin_path :: string
  origin_line :: int
  origin_column :: int
  origin_symbol :: string

record generated_range =
  StartLine :: int
  StartColumn :: int
  EndLine :: int
  EndColumn :: int

record source_mapping =
  mapping_kind :: string
  Contribution :: string
  mapping_source :: source_origin
  Generated :: generated_range
  mapping_related :: "source_origin list"

record manifest_file =
  own_path :: string
  own_sha256 :: string
  own_role :: string
  own_primary :: "source_origin option"
  own_related :: "source_origin list"
  own_mappings :: "source_mapping list"

record manifest =
  Schema :: int
  manifest_target :: target_summary
  GeneratorVersion :: string
  GoFormatLine :: string
  InputSHA256 :: string
  manifest_files :: "manifest_file list"

record gen_file =
  gen_path :: string
  gen_mode :: int
  SHA256 :: string
  Role :: string
  PrimarySource :: "source_origin option"
  RelatedSources :: "source_origin list"
  Mappings :: "source_mapping list"
  Sources :: "source_origin list"
  Content :: string

record plan =
  Target :: target
  Files :: "gen_file list"
  plan_manifest :: manifest
  ManifestContent :: string

text \<open>The library functions the package calls.\<close>

record gen_library =
  sha256_sum :: "string \<Rightarrow> string"               \<comment> \<open>\<open>sha256.Sum256\<close>, 32 bytes\<close>
  json_manifest :: "string \<Rightarrow> manifest go_result" \<comment> \<open>\<open>json.Unmarshal\<close> into a manifest\<close>
  json_lock :: "string \<Rightarrow> string"                \<comment> \<open>\<open>json.Marshal\<close> of the lock of a target\<close>
  json_valid :: "string \<Rightarrow> bool"                 \<comment> \<open>\<open>json.Valid\<close>\<close>
  go_parses :: "string \<Rightarrow> string option"         \<comment> \<open>the error of \<open>parser.ParseFile\<close>\<close>
  lower_rune :: "rune \<Rightarrow> rune"                   \<comment> \<open>\<open>unicode.ToLower\<close> above ASCII\<close>
  upper_rune :: "rune \<Rightarrow> rune"

section \<open>Case folding and hashes\<close>

function map_runes :: "(rune \<Rightarrow> rune) \<Rightarrow> string \<Rightarrow> string" where
  "map_runes f s =
     (if s = [] then []
      else encode_rune (f (fst (decode_rune s))) @ map_runes f (drop (snd (decode_rune s)) s))"
  by pat_completeness auto
termination
  by (relation "measure (\<lambda>(f, s). length s)")
    (auto dest!: decode_rune_size [OF _ prod.collapse [symmetric]])

declare map_runes.simps [simp del]

definition ToLower :: "gen_library \<Rightarrow> string \<Rightarrow> string" where
  "ToLower L s =
     map_runes (\<lambda>r. if r < 128 then (if in_range 65 90 r then r + 32 else r) else lower_rune L r) s"

definition ToUpper :: "gen_library \<Rightarrow> string \<Rightarrow> string" where
  "ToUpper L s =
     map_runes (\<lambda>r. if r < 128 then (if in_range 97 122 r then r - 32 else r) else upper_rune L r) s"

definition hashContent :: "gen_library \<Rightarrow> string \<Rightarrow> string" where
  "hashContent L content =
     ''sha256:'' @ concat (map (\<lambda>c. hex2 (byte_of c)) (sha256_sum L content))"

definition validHash :: "string \<Rightarrow> bool" where
  "validHash h =
     (if length h \<noteq> 7 + 64 \<or> \<not> has_prefix h ''sha256:'' then False
      else list_all (\<lambda>c. unhex c \<noteq> None) (trim_prefix h ''sha256:''))"

section \<open>Paths\<close>

definition reservedWindowsName :: "gen_library \<Rightarrow> string \<Rightarrow> bool" where
  "reservedWindowsName L component =
     (let base = ToUpper L (trim_space (hd (split_on (CHR ''.'') component)))
      in if base \<in> {''CON'', ''PRN'', ''AUX'', ''NUL''} then True
         else if length base = 4 \<and> (has_prefix base ''COM'' \<or> has_prefix base ''LPT'')
         then CHR ''1'' \<le> base ! 3 \<and> base ! 3 \<le> CHR ''9''
         else False)"

fun first_reserved :: "gen_library \<Rightarrow> string list \<Rightarrow> string option" where
  "first_reserved L [] = None"
| "first_reserved L (c # cs) = (if reservedWindowsName L c then Some c else first_reserved L cs)"

definition validateRelativePath :: "unicode_tables \<Rightarrow> gen_library \<Rightarrow> string \<Rightarrow> string option" where
  "validateRelativePath U L filePath =
     (if filePath = [] \<or> filePath = ''.''
      then Some ''path must name a module-relative file or directory''
      else if list_ex (\<lambda>c. c = CHR 0x5C \<or> c = CHR 0x00) filePath
      then Some ''path must use slash separators and contain no NUL bytes''
      else if Clean filePath \<noteq> filePath \<or> IsAbs filePath \<or> \<not> IsLocal filePath
      then Some ''path must be clean, local, and contain no parent traversal''
      else case first_reserved L (split_on slash filePath) of
             Some c \<Rightarrow> Some (''path component '' @ quote U c @ '' is a Windows reserved device name'')
           | None \<Rightarrow> None)"

definition supportedGeneratedExtension :: "string \<Rightarrow> bool" where
  "supportedGeneratedExtension filePath =
     (let extension = path_ext filePath in extension = ''.go'' \<or> extension = ''.json'')"

definition requiresGeneratedMarker :: "string \<Rightarrow> bool" where
  "requiresGeneratedMarker filePath = (path_ext filePath = ''.go'')"

definition withinTargetOutput :: "target \<Rightarrow> string \<Rightarrow> string \<Rightarrow> bool" where
  "withinTargetOutput t filePath role =
     (if OutputDir t = ''.'' \<and> path_dir filePath = ''.'' then True
      else if filePath \<noteq> OutputDir t \<and> has_prefix filePath (OutputDir t @ ''/'') then True
      else if Layout t = LayoutApplicationPackage \<and> BridgeDir t \<noteq> [] \<and>
              path_dir filePath = BridgeDir t then True
      else role = ''source-shard'' \<and> path_ext filePath = ''.go'' \<and>
           has_suffix (path_base filePath) (''_'' @ ID t @ ''_spice_gen.go''))"

section \<open>Generated content\<close>

definition generatedMarker :: string where
  "generatedMarker = ''// Code generated by Spice. DO NOT EDIT.''"

abbreviation newline :: char where "newline \<equiv> CHR 0x0A"

text \<open>\<open>bytes.Cut\<close> at two consecutive newlines: what follows the first empty line.\<close>

fun after_blank_line :: "string \<Rightarrow> string option" where
  "after_blank_line (c # d # s) =
     (if c = newline \<and> d = newline then Some s else after_blank_line (d # s))"
| "after_blank_line s = None"

definition hasGeneratedMarker :: "string \<Rightarrow> bool" where
  "hasGeneratedMarker content =
     (if has_prefix content (generatedMarker @ [newline]) then True
      else if \<not> has_prefix content ''//go:build '' then False
      else case after_blank_line content of
             None \<Rightarrow> False
           | Some remainder \<Rightarrow> has_prefix remainder (generatedMarker @ [newline]))"

definition validateGeneratedContent ::
    "unicode_tables \<Rightarrow> gen_library \<Rightarrow> string \<Rightarrow> string \<Rightarrow> string option" where
  "validateGeneratedContent U L filePath content =
     (if path_ext filePath = ''.go''
      then if \<not> hasGeneratedMarker content
           then Some (''generated Go file '' @ quote U filePath @
                  '' does not contain the canonical Spice generated header'')
           else None
      else if path_ext filePath = ''.json''
      then if content = [] \<or> last content \<noteq> newline \<or> \<not> json_valid L content
           then Some (''generated JSON file '' @ quote U filePath @
                  '' must be valid JSON ending in a newline'')
           else None
      else Some (''generated file '' @ quote U filePath @
             '' must use a supported .go or .json extension''))"

section \<open>Plan validation\<close>

definition validatePlanTargetLayout :: "unicode_tables \<Rightarrow> gen_library \<Rightarrow> target \<Rightarrow> string option" where
  "validatePlanTargetLayout U L t =
     (if Layout t = LayoutApplicationPackage
      then case (if BridgeDir t \<noteq> ''.'' then validateRelativePath U L (BridgeDir t) else None) of
             Some e \<Rightarrow> Some (''generation entrypoint directory: '' @ e)
           | None \<Rightarrow>
               if BridgeDir t = [] then Some ''generation entrypoint directory is required''
               else if EntrypointPackagePath t = []
               then Some ''generation entrypoint package import path is required''
               else None
      else if Layout t = LayoutGeneratedPackage
      then if BridgeDir t \<noteq> []
           then Some ''generated-package target must not declare an entrypoint directory''
           else if EntrypointPackagePath t \<noteq> []
           then Some ''generated-package target must not declare an entrypoint package''
           else None
      else Some (''generation target layout '' @ quote U (Layout t) @ '' is unsupported''))"

definition validatePlanOutputDirectory :: "unicode_tables \<Rightarrow> gen_library \<Rightarrow> target \<Rightarrow> string option" where
  "validatePlanOutputDirectory U L t =
     (if OutputDir t = ''.''
      then if Layout t \<noteq> LayoutApplicationPackage
           then Some (''generation output directory may be the module root only for ''
                  @ ''an application-package target'')
           else None
      else case validateRelativePath U L (OutputDir t) of
             Some e \<Rightarrow> Some (''generation output directory: '' @ e)
           | None \<Rightarrow> None)"

definition validatePlanTarget :: "unicode_tables \<Rightarrow> gen_library \<Rightarrow> target \<Rightarrow> string option" where
  "validatePlanTarget U L t =
     (case validatePlanTargetLayout U L t of
        Some e \<Rightarrow> Some e
      | None \<Rightarrow>
          (case validatePlanOutputDirectory U L t of
             Some e \<Rightarrow> Some e
           | None \<Rightarrow>
               (case validateRelativePath U L (ManifestPath t) of
                  Some e \<Rightarrow> Some (''generation manifest path: '' @ e)
                | None \<Rightarrow>
                    if withinTargetOutput t (ManifestPath t) []
                    then Some ''generation manifest must be outside the generated package directory''
                    else None)))"

definition validatePlanManifest :: "target \<Rightarrow> manifest \<Rightarrow> string option" where
  "validatePlanManifest t m =
     (let s = manifest_target m
      in if Schema m \<noteq> SchemaVersion
         then Some (''plan manifest schema '' @ show_int (Schema m) @ '' is unsupported'')
         else if sum_ID s \<noteq> ID t \<or> sum_ModulePath s \<noteq> ModulePath t \<or>
                 sum_PackagePath s \<noteq> PackagePath t \<or>
                 sum_EntrypointPackagePath s \<noteq> EntrypointPackagePath t \<or>
                 sum_OutputDir s \<noteq> OutputDir t \<or> sum_BridgeDir s \<noteq> BridgeDir t \<or>
                 sum_ManifestPath s \<noteq> ManifestPath t
         then Some ''plan manifest target does not match plan target''
         else None)"

definition sourceMappingsEqual :: "source_mapping list \<Rightarrow> source_mapping list \<Rightarrow> bool" where
  "sourceMappingsEqual xs ys =
     list_all2 (\<lambda>x y. mapping_kind x = mapping_kind y \<and> Contribution x = Contribution y \<and>
                     mapping_source x = mapping_source y \<and> Generated x = Generated y \<and>
                     mapping_related x = mapping_related y) xs ys"

definition planFileMatchesManifest :: "gen_file \<Rightarrow> manifest_file \<Rightarrow> bool" where
  "planFileMatchesManifest file own =
     (own_path own = gen_path file \<and> own_sha256 own = SHA256 file \<and> own_role own = Role file \<and>
      own_primary own = PrimarySource file \<and> own_related own = RelatedSources file \<and>
      sourceMappingsEqual (own_mappings own) (Mappings file))"

fun mapping_error :: "unicode_tables \<Rightarrow> string \<Rightarrow> source_mapping list \<Rightarrow> string option" where
  "mapping_error U primary [] = None"
| "mapping_error U primary (m # ms) =
     (if origin_path (mapping_source m) \<noteq> primary
      then Some (''source mapping '' @ quote U (Contribution m) @ '' names ''
             @ quote U (origin_path (mapping_source m)) @ '' instead of primary source ''
             @ quote U primary)
      else if mapping_kind m = [] \<or> Contribution m = []
      then Some ''source mapping requires kind and contribution identity''
      else if StartLine (Generated m) \<le> 0 \<or> StartColumn (Generated m) \<le> 0 \<or>
              EndLine (Generated m) < StartLine (Generated m) \<or>
              (EndLine (Generated m) = StartLine (Generated m) \<and>
               EndColumn (Generated m) \<le> StartColumn (Generated m))
      then Some (''source mapping '' @ quote U (Contribution m) @ '' has an invalid generated range'')
      else mapping_error U primary ms)"

definition validateFileOwnership :: "unicode_tables \<Rightarrow> gen_file \<Rightarrow> string option" where
  "validateFileOwnership U file =
     (if Role file \<noteq> FileRoleSourceUnit then None
      else case PrimarySource file of
             None \<Rightarrow> Some ''source unit requires one primary source''
           | Some primary \<Rightarrow>
               if Mappings file = [] then Some ''source unit requires at least one source mapping''
               else mapping_error U (origin_path primary) (Mappings file))"

definition validatePlanFile ::
    "unicode_tables \<Rightarrow> gen_library \<Rightarrow> gen_file \<Rightarrow> manifest_file \<Rightarrow> target \<Rightarrow> string option" where
  "validatePlanFile U L file own t =
     (case validateRelativePath U L (gen_path file) of
        Some e \<Rightarrow> Some (''generated file '' @ quote U (gen_path file) @ '': '' @ e)
      | None \<Rightarrow>
          if \<not> withinTargetOutput t (gen_path file) (Role file)
          then Some (''generated file '' @ quote U (gen_path file) @ '' is outside output directory ''
                 @ quote U (OutputDir t))
          else case validateGeneratedContent U L (gen_path file) (Content file) of
                 Some e \<Rightarrow> Some e
               | None \<Rightarrow>
                   if hashContent L (Content file) \<noteq> SHA256 file
                   then Some (''generated file '' @ quote U (gen_path file)
                          @ '' content does not match its SHA-256'')
                   else if \<not> planFileMatchesManifest file own
                   then Some ''plan files and manifest entries are not identically ordered''
                   else case validateFileOwnership U file of
                          Some e \<Rightarrow> Some (''generated file '' @ quote U (gen_path file) @ '': '' @ e)
                        | None \<Rightarrow> None)"

fun validate_files ::
    "unicode_tables \<Rightarrow> gen_library \<Rightarrow> target \<Rightarrow> string list \<Rightarrow> (gen_file \<times> manifest_file) list
       \<Rightarrow> string + string list" where
  "validate_files U L t seen [] = Inr seen"
| "validate_files U L t seen ((file, own) # rest) =
     (case validatePlanFile U L file own t of
        Some e \<Rightarrow> Inl e
      | None \<Rightarrow>
          let key = ToLower L (gen_path file)
          in if key \<in> set seen
             then Inl (''generation plan contains case-colliding path '' @ quote U (gen_path file))
             else validate_files U L t (key # seen) rest)"

definition validatePlanFiles :: "unicode_tables \<Rightarrow> gen_library \<Rightarrow> plan \<Rightarrow> string option" where
  "validatePlanFiles U L p =
     (let m = plan_manifest p; t = Target p
      in if length (Files p) \<noteq> length (manifest_files m)
         then Some ''plan file set does not match manifest file set''
         else case validate_files U L t [] (zip (Files p) (manifest_files m)) of
                Inl e \<Rightarrow> Some e
              | Inr seen \<Rightarrow>
                  if ToLower L (ManifestPath t) \<in> set seen
                  then Some (''generation manifest path '' @ quote U (ManifestPath t)
                         @ '' collides with a generated file'')
                  else if ManifestContent p = [] \<or> last (ManifestContent p) \<noteq> newline
                  then Some (''plan manifest content must be non-empty canonical JSON ''
                         @ ''ending in a newline'')
                  else None)"

definition validatePlan :: "unicode_tables \<Rightarrow> gen_library \<Rightarrow> plan \<Rightarrow> string option" where
  "validatePlan U L p =
     (let t = Target p
      in if ModuleRoot t = [] \<or> \<not> IsAbs (ModuleRoot t)
         then Some (''generation module root '' @ quote U (ModuleRoot t) @ '' must be absolute'')
         else case validatePlanTarget U L t of
                Some e \<Rightarrow> Some e
              | None \<Rightarrow>
                  (case validatePlanManifest t (plan_manifest p) of
                     Some e \<Rightarrow> Some e
                   | None \<Rightarrow> validatePlanFiles U L p))"

section \<open>What validation establishes\<close>

lemma first_reserved_None: "first_reserved L cs = None \<longleftrightarrow> list_all (\<lambda>c. \<not> reservedWindowsName L c) cs"
  by (induction cs) auto

lemma clean_local_plain:
  assumes "Clean p = p" "\<not> IsAbs p" "IsLocal p" "p \<noteq> ''.''"
  shows "list_all plain_part (split_on slash p)"
  using IsLocal_Clean [of p] assms by (simp add: list_all_iff)

lemma plain_clean_local:
  assumes "list_all plain_part (split_on slash p)"
  shows "Clean p = p \<and> \<not> IsAbs p \<and> IsLocal p \<and> p \<noteq> [] \<and> p \<noteq> ''.''"
proof -
  let ?ws = "split_on slash p"
  have plain: "plain_part w" if "w \<in> set ?ws" for w using that assms by (simp add: list_all_iff)
  have p: "join_with ''/'' ?ws = p" by simp
  have normal: "normal_parts False ?ws"
    unfolding normal_parts_def by (rule exI [of _ 0]) (use plain in auto)
  then have clean: "Clean p = p" using Clean_normal [OF normal] p by simp
  have "hd ?ws \<noteq> []" using plain [of "hd ?ws"] by (simp add: plain_part_def)
  then have rel: "\<not> IsAbs p" by (cases p) (auto simp: IsAbs_def)
  have ne: "p \<noteq> []" "p \<noteq> ''.''" "''.'' \<notin> set ?ws" "''..'' \<notin> set ?ws"
    using plain by (auto simp: plain_part_def)
  have "\<not> (p = ''..'' \<or> has_prefix p ''../'')"
  proof
    assume "p = ''..'' \<or> has_prefix p ''../''"
    then have "''..'' \<in> set ?ws"
    proof
      assume "has_prefix p ''../''"
      then obtain t where "p = ''..'' @ slash # t" by (auto simp: has_prefix_iff)
      then show ?thesis using split_on_append [of slash "''..''" t] by simp
    qed simp
    with ne(4) show False ..
  qed
  then show ?thesis using clean rel ne by (simp add: IsLocal_def)
qed

text \<open>The paths that pass: chains of plain names, none of them a device name.\<close>

definition module_path :: "gen_library \<Rightarrow> string \<Rightarrow> bool" where
  "module_path L p =
     (list_all plain_part (split_on slash p) \<and>
      list_all (\<lambda>c. \<not> reservedWindowsName L c) (split_on slash p) \<and>
      CHR 0x5C \<notin> set p \<and> CHR 0x00 \<notin> set p)"

lemma validateRelativePath_None:
  "validateRelativePath U L p = None \<longleftrightarrow> module_path L p"
proof
  assume v: "validateRelativePath U L p = None"
  then have "p \<noteq> []" "p \<noteq> ''.''" "\<not> list_ex (\<lambda>c. c = CHR 0x5C \<or> c = CHR 0x00) p"
      "Clean p = p" "\<not> IsAbs p" "IsLocal p" "first_reserved L (split_on slash p) = None"
    by (auto simp: validateRelativePath_def split: if_splits option.splits)
  then show "module_path L p"
    using clean_local_plain by (auto simp: module_path_def first_reserved_None list_ex_iff)
next
  assume m: "module_path L p"
  then show "validateRelativePath U L p = None"
    using plain_clean_local [of p]
    by (auto simp: validateRelativePath_def module_path_def first_reserved_None [symmetric] list_ex_iff)
qed

definition plan_file_ok :: "unicode_tables \<Rightarrow> gen_library \<Rightarrow> target \<Rightarrow> gen_file \<Rightarrow> bool" where
  "plan_file_ok U L t f =
     (module_path L (gen_path f) \<and> withinTargetOutput t (gen_path f) (Role f) \<and>
      supportedGeneratedExtension (gen_path f) \<and> Content f \<noteq> [] \<and> hashContent L (Content f) = SHA256 f)"

lemma generated_content_nonempty:
  "validateGeneratedContent U L p content = None \<Longrightarrow> content \<noteq> [] \<and> supportedGeneratedExtension p"
  by (auto simp: validateGeneratedContent_def hasGeneratedMarker_def generatedMarker_def
      supportedGeneratedExtension_def Let_def split: if_splits)

lemma validatePlanFile_ok:
  "validatePlanFile U L file own t = None \<Longrightarrow>
     plan_file_ok U L t file \<and> planFileMatchesManifest file own"
  using generated_content_nonempty
  by (auto simp: validatePlanFile_def plan_file_ok_def validateRelativePath_None
      split: option.splits if_splits)

lemma validate_files_ok:
  "validate_files U L t seen pairs = Inr seen' \<Longrightarrow>
     (\<forall>(f, own) \<in> set pairs. plan_file_ok U L t f \<and> planFileMatchesManifest f own) \<and>
     distinct (map (\<lambda>(f, own). ToLower L (gen_path f)) pairs) \<and>
     set (map (\<lambda>(f, own). ToLower L (gen_path f)) pairs) \<inter> set seen = {} \<and>
     set seen' = set seen \<union> set (map (\<lambda>(f, own). ToLower L (gen_path f)) pairs)"
proof (induction U L t seen pairs rule: validate_files.induct)
  case (2 U L t seen f own rest)
  let ?key = "ToLower L (gen_path f)"
  have v: "validatePlanFile U L f own t = None" "?key \<notin> set seen"
      "validate_files U L t (?key # seen) rest = Inr seen'"
    using "2.prems" by (auto simp: Let_def split: option.splits if_splits)
  have IH: "(\<forall>(f, own) \<in> set rest. plan_file_ok U L t f \<and> planFileMatchesManifest f own) \<and>
      distinct (map (\<lambda>(f, own). ToLower L (gen_path f)) rest) \<and>
      set (map (\<lambda>(f, own). ToLower L (gen_path f)) rest) \<inter> set (?key # seen) = {} \<and>
      set seen' = set (?key # seen) \<union> set (map (\<lambda>(f, own). ToLower L (gen_path f)) rest)"
    using "2.IH" [OF v(1) refl v(2,3)] .
  then show ?case using v(2) validatePlanFile_ok [OF v(1)] by auto
qed simp

definition plan_ok :: "unicode_tables \<Rightarrow> gen_library \<Rightarrow> plan \<Rightarrow> bool" where
  "plan_ok U L p =
     ((\<forall>f \<in> set (Files p). plan_file_ok U L (Target p) f) \<and>
      distinct (map (\<lambda>f. ToLower L (gen_path f)) (Files p)) \<and>
      ToLower L (ManifestPath (Target p)) \<notin> (\<lambda>f. ToLower L (gen_path f)) ` set (Files p) \<and>
      module_path L (ManifestPath (Target p)) \<and> ManifestContent p \<noteq> [] \<and>
      list_all2 planFileMatchesManifest (Files p) (manifest_files (plan_manifest p)))"

lemma validatePlan_ok:
  assumes "validatePlan U L p = None"
  shows "plan_ok U L p"
proof -
  let ?m = "manifest_files (plan_manifest p)"
  have t: "validatePlanTarget U L (Target p) = None" and fs: "validatePlanFiles U L p = None"
    using assms by (auto simp: validatePlan_def Let_def split: if_splits option.splits)
  have mp: "module_path L (ManifestPath (Target p))"
    using t validateRelativePath_None [of U L "ManifestPath (Target p)"]
    by (auto simp: validatePlanTarget_def split: option.splits)
  have len: "length (Files p) = length ?m"
    using fs by (simp add: validatePlanFiles_def Let_def split: if_splits)
  obtain seen where seen: "validate_files U L (Target p) [] (zip (Files p) ?m) = Inr seen"
      "ToLower L (ManifestPath (Target p)) \<notin> set seen" "ManifestContent p \<noteq> []"
    using fs by (auto simp: validatePlanFiles_def Let_def split: if_splits sum.splits)
  have keys: "map (\<lambda>(f, own). ToLower L (gen_path f)) (zip (Files p) ?m) =
      map (\<lambda>f. ToLower L (gen_path f)) (Files p)"
    using len by (simp add: list_eq_iff_nth_eq)
  note v = validate_files_ok [OF seen(1), unfolded keys]
  have "list_all2 (\<lambda>f own. plan_file_ok U L (Target p) f \<and> planFileMatchesManifest f own) (Files p) ?m"
    using v len by (auto simp: list_all2_iff)
  then have "list_all2 planFileMatchesManifest (Files p) ?m"
      "\<forall>f \<in> set (Files p). plan_file_ok U L (Target p) f"
    by (auto simp: list_all2_conv_all_nth in_set_conv_nth)
  then show ?thesis using v seen mp by (auto simp: plan_ok_def)
qed

lemma plan_ok_paths:
  assumes "plan_ok U L p"
  shows "distinct (map gen_path (Files p))" "ManifestPath (Target p) \<notin> gen_path ` set (Files p)"
proof -
  have "distinct (map (ToLower L) (map gen_path (Files p)))"
    using assms by (simp add: plan_ok_def comp_def)
  then show "distinct (map gen_path (Files p))" by (auto simp: distinct_map intro: inj_on_imageI2)
  show "ManifestPath (Target p) \<notin> gen_path ` set (Files p)"
    using assms by (auto simp: plan_ok_def)
qed

section \<open>Properties\<close>

text \<open>
  C33. A path passes validation exactly when it is a chain of plain names: every component is
  nonempty, neither a dot nor a parent step and no Windows device name, with no backslash or
  NUL; so no accepted path can leave the module root.
\<close>
theorem validateRelativePath_iff:
  "validateRelativePath U L p = None \<longleftrightarrow>
     list_all plain_part (split_on slash p) \<and>
     list_all (\<lambda>c. \<not> reservedWindowsName L c) (split_on slash p) \<and>
     CHR 0x5C \<notin> set p \<and> CHR 0x00 \<notin> set p"
  by (simp add: validateRelativePath_None module_path_def)

end
