(* ===== verification/Plain_Path.thy ===== *)
theory Plain_Path
  imports Go_Path
begin

text \<open>
  Module-relative paths that are chains of plain names: on them \<open>path.Join\<close>, \<open>path.Dir\<close> and
  \<open>path.Base\<close> are list operations on the names.
\<close>

abbreviation name_of :: "string list \<Rightarrow> string" where
  "name_of ps \<equiv> join_with ''/'' ps"

abbreviation plain_parts :: "string list \<Rightarrow> bool" where
  "plain_parts ps \<equiv> list_all plain_part ps"

lemma plain_normal: "plain_parts ps \<Longrightarrow> normal_parts False ps"
  unfolding normal_parts_def by (rule exI [of _ 0]) (auto simp: list_all_iff)

lemma split_name [simp]:
  "plain_parts ps \<Longrightarrow> ps \<noteq> [] \<Longrightarrow> split_on slash (name_of ps) = ps"
  by (rule split_join) (auto simp: list_all_iff plain_part_def)

lemma name_nonempty: "plain_parts ps \<Longrightarrow> name_of ps = [] \<longleftrightarrow> ps = []"
  by (rule join_Nil_iff) (auto simp: list_all_iff plain_part_def)

lemma Clean_name [simp]: "plain_parts ps \<Longrightarrow> ps \<noteq> [] \<Longrightarrow> Clean (name_of ps) = name_of ps"
  by (rule Clean_normal [OF plain_normal])

lemma name_snoc: "ps \<noteq> [] \<Longrightarrow> name_of (ps @ [c]) = name_of ps @ slash # c"
  by (induction "''/''" ps rule: join_with.induct) auto

lemma path_join_name:
  assumes "plain_parts ps" "plain_part c"
  shows "path_join (name_of ps) c = name_of (ps @ [c])"
proof (cases "ps = []")
  case True
  then show ?thesis
    using assms Clean_name [of "[c]"] by (simp add: path_join_def plain_part_def)
next
  case False
  then have "path_join (name_of ps) c = Clean (name_of (ps @ [c]))"
    using assms by (simp add: path_join_def name_snoc name_nonempty plain_part_def)
  then show ?thesis using assms Clean_name [of "ps @ [c]"] by simp
qed

lemma path_join_dot:
  assumes "plain_part c"
  shows "path_join ''.'' c = c"
proof -
  have "clean_parts False [''.'', c] = [c]"
    using assms by (simp add: clean_parts_def clean_step_def plain_part_def)
  moreover have "split_on slash (''.'' @ slash # c) = [''.'', c]"
    using assms by (simp add: split_on_append split_on_word plain_part_def del: append_Cons)
  ultimately show ?thesis using assms by (simp add: path_join_def Clean_def IsAbs_def plain_part_def)
qed

lemma dropWhile_part:
  "slash \<notin> set c \<Longrightarrow> dropWhile (\<lambda>x. x \<noteq> slash) (rev (xs @ slash # c)) = slash # rev xs"
  by (induction c rule: rev_induct) auto

lemma dropWhile_word: "slash \<notin> set c \<Longrightarrow> dropWhile (\<lambda>x. x \<noteq> slash) (rev c) = []"
  by (auto simp: dropWhile_eq_Nil_conv)

lemma path_dir_name:
  assumes "plain_parts (ps @ [c])"
  shows "path_dir (name_of (ps @ [c])) = (if ps = [] then ''.'' else name_of ps)"
proof (cases "ps = []")
  case True
  have "slash \<notin> set c" using assms by (simp add: plain_part_def)
  then have "path_dir c = Clean []" unfolding path_dir_def by (subst dropWhile_word) simp_all
  also have "Clean [] = ''.''" by code_simp
  finally show ?thesis using True by simp
next
  case False
  have no_slash: "w \<noteq> [] \<and> slash \<notin> set w" if "w \<in> set ps" for w
    using that assms by (auto simp: list_all_iff plain_part_def)
  have "slash \<notin> set c" using assms by (simp add: plain_part_def)
  then have "path_dir (name_of (ps @ [c])) = Clean (name_of ps @ [slash])"
    using False by (simp add: path_dir_def name_snoc dropWhile_part del: rev_append)
  moreover have "split_on slash (name_of ps @ [slash]) = ps @ [[]]"
  proof -
    have "split_on slash (name_of (ps @ [[]])) = ps @ [[]]"
      using no_slash by (intro split_join) auto
    then show ?thesis using False by (simp add: name_snoc)
  qed
  moreover have "\<not> IsAbs (name_of ps @ [slash])"
  proof -
    have "hd (name_of ps) \<noteq> slash"
      using hd_join [of ps "''/''"] False no_slash [of "hd ps"] by (metis hd_in_set)
    moreover have "name_of ps \<noteq> []" using False assms name_nonempty [of ps] by simp
    ultimately show ?thesis by (cases "name_of ps") (auto simp: IsAbs_def)
  qed
  moreover have "clean_parts False (ps @ [[]]) = ps"
  proof -
    have "clean_parts False ps = ps" using assms by (intro clean_parts_id plain_normal) simp
    then show ?thesis by (simp add: clean_parts_def clean_step_def [of False "[]"])
  qed
  ultimately show ?thesis using False assms by (simp add: Clean_def name_nonempty)
qed

lemma path_base_name:
  assumes "plain_parts (ps @ [c])"
  shows "path_base (name_of (ps @ [c])) = c"
proof -
  let ?p = "name_of (ps @ [c])"
  have c: "c \<noteq> []" "slash \<notin> set c" using assms by (auto simp: plain_part_def)
  have "?p \<noteq> []" "last ?p \<noteq> slash"
    using c by (cases "ps = []"; auto simp: name_snoc dest: last_in_set)+
  then have "dropWhile (\<lambda>x. x = slash) (rev ?p) = rev ?p"
    by (cases ?p rule: rev_cases) auto
  then show ?thesis using \<open>?p \<noteq> []\<close> assms by (simp add: path_base_def)
qed

text \<open>Joining below a directory as \<open>path.Dir\<close> names it.\<close>

lemma path_join_dir:
  assumes "plain_parts (ps @ [c])" "plain_part t"
  shows "path_join (path_dir (name_of (ps @ [c]))) t = name_of (ps @ [t])"
  using assms path_join_name [of ps t] path_join_dot [of t] path_dir_name [OF assms(1)] by simp

end
