(* ===== verification/Gen_FS.thy ===== *)
theory Gen_FS
  imports Gen_Plan Plain_Path Go_Error "HOL-Library.State_Monad" "HOL-Library.AList"
begin

text \<open>
  The file system below an \<open>os.Root\<close>, as \<open>src/internal/genfs/genfs.go\<close> uses it.  A tree maps
  physical paths (lists of names) to nodes; names are resolved the way \<open>os.Root\<close> does it:
  symbolic links are followed as long as they stay below the root, at most eight of them.
  Every call may fail by itself: the list of faults says which ones, with an error other than
  \<open>fs.ErrNotExist\<close> and \<open>fs.ErrExist\<close>, which the operating system reports only when they
  are true.  A failing call has no effect, except a write, which may stop after some bytes.
  Effects are threaded by the state monad; \<open>wp\<close> is its weakest precondition.
\<close>

section \<open>Trees and worlds\<close>

datatype node =
    File string int      \<comment> \<open>content and permission bits\<close>
  | Directory
  | Symlink string
  | Special string       \<comment> \<open>a device, pipe or socket and what reading it returns\<close>

type_synonym phys = "string list"
type_synonym tree = "(phys \<times> node) list"

record world =
  nodes :: tree
  faults :: "(string \<times> nat) option list"
  entropy :: "string list"      \<comment> \<open>what \<open>crypto/rand\<close> delivers, eight bytes at a time\<close>

type_synonym 'a io = "(world, 'a) state"
type_synonym 'a fallible = "(go_error + 'a) io"

abbreviation ret :: "'a \<Rightarrow> 'a io" where "ret \<equiv> State_Monad.return"

definition node_at :: "tree \<Rightarrow> phys \<Rightarrow> node option" where
  "node_at N q = (if q = [] then Some Directory else map_of N q)"

fun is_link :: "node \<Rightarrow> bool" where
  "is_link (Symlink t) = True"
| "is_link n = False"

fun is_regular :: "node \<Rightarrow> bool" where
  "is_regular (File c m) = True"
| "is_regular n = False"

section \<open>Name resolution\<close>

datatype errno = ENOENT | EEXIST | ENOTDIR | EISDIR | ENOTEMPTY | ELOOP | EINVAL | EESCAPE

fun errno_text :: "errno \<Rightarrow> string" where
  "errno_text ENOENT = ''no such file or directory''"
| "errno_text EEXIST = ''file exists''"
| "errno_text ENOTDIR = ''not a directory''"
| "errno_text EISDIR = ''is a directory''"
| "errno_text ENOTEMPTY = ''directory not empty''"
| "errno_text ELOOP = ''too many levels of symbolic links''"
| "errno_text EINVAL = ''invalid argument''"
| "errno_text EESCAPE = ''path escapes from parent''"

fun errno_chain :: "errno \<Rightarrow> sentinel list" where
  "errno_chain ENOENT = [ErrNotExist]"
| "errno_chain EEXIST = [ErrExist]"
| "errno_chain ENOTEMPTY = [ErrExist]"
| "errno_chain e = []"

definition path_error :: "string \<Rightarrow> string \<Rightarrow> errno \<Rightarrow> go_error" where
  "path_error op p e =
     \<lparr>error_text = op @ '' '' @ p @ '': '' @ errno_text e, error_chain = errno_chain e\<rparr>"

text \<open>
  Resolution of the remaining components below the directory \<open>dir\<close>; a symbolic link in the
  last component is followed only on demand, and a missing last component is not an error.
\<close>

function resolve :: "tree \<Rightarrow> bool \<Rightarrow> nat \<Rightarrow> phys \<Rightarrow> string list \<Rightarrow> errno + phys" where
  "resolve N follow links dir [] = Inr dir"
| "resolve N follow links dir (c # rest) =
     (if c = [] \<or> c = ''.'' then resolve N follow links dir rest
      else if c = ''..''
      then if dir = [] then Inl EESCAPE else resolve N follow links (butlast dir) rest
      else case node_at N (dir @ [c]) of
             None \<Rightarrow> if rest = [] then Inr (dir @ [c]) else Inl ENOENT
           | Some Directory \<Rightarrow> resolve N follow links (dir @ [c]) rest
           | Some (Symlink t) \<Rightarrow>
               if rest = [] \<and> \<not> follow then Inr (dir @ [c])
               else if links = 0 then Inl ELOOP
               else if IsAbs t then Inl EESCAPE
               else resolve N follow (links - 1) dir (split_on slash t @ rest)
           | Some _ \<Rightarrow> if rest = [] then Inr (dir @ [c]) else Inl ENOTDIR)"
  by pat_completeness auto
termination
  by (relation "measures [\<lambda>(N, follow, links, dir, rest). links,
                          \<lambda>(N, follow, links, dir, rest). length rest]") auto

definition located :: "tree \<Rightarrow> bool \<Rightarrow> string \<Rightarrow> errno + phys" where
  "located N follow p = resolve N follow 8 [] (split_on slash p)"

section \<open>System calls\<close>

definition faulty :: "'a fallible \<Rightarrow> 'a fallible" where
  "faulty m =
     do {
       w \<leftarrow> State_Monad.get;
       case faults w of
         [] \<Rightarrow> m
       | None # fs \<Rightarrow> do { State_Monad.set (w\<lparr>faults := fs\<rparr>); m }
       | Some (reason, k) # fs \<Rightarrow>
           do { State_Monad.set (w\<lparr>faults := fs\<rparr>); ret (Inl (errors_New reason)) }
     }"

definition with_path :: "string \<Rightarrow> bool \<Rightarrow> string \<Rightarrow> (phys \<Rightarrow> 'a fallible) \<Rightarrow> 'a fallible" where
  "with_path op follow p f =
     do {
       w \<leftarrow> State_Monad.get;
       case located (nodes w) follow p of
         Inl e \<Rightarrow> ret (Inl (path_error op p e))
       | Inr q \<Rightarrow> f q
     }"

definition put_node :: "phys \<Rightarrow> node \<Rightarrow> unit io" where
  "put_node q n = State_Monad.update (\<lambda>w. w\<lparr>nodes := AList.update q n (nodes w)\<rparr>)"

definition drop_node :: "phys \<Rightarrow> unit io" where
  "drop_node q = State_Monad.update (\<lambda>w. w\<lparr>nodes := AList.delete q (nodes w)\<rparr>)"

definition stat_with :: "string \<Rightarrow> bool \<Rightarrow> string \<Rightarrow> node fallible" where
  "stat_with op follow p =
     faulty (with_path op follow p (\<lambda>q. do {
       w \<leftarrow> State_Monad.get;
       ret (case node_at (nodes w) q of None \<Rightarrow> Inl (path_error op p ENOENT) | Some n \<Rightarrow> Inr n)
     }))"

definition lstat :: "string \<Rightarrow> node fallible" where
  "lstat p = stat_with ''lstatat'' False p"

definition stat :: "string \<Rightarrow> node fallible" where
  "stat p = stat_with ''statat'' True p"

definition mkdir :: "string \<Rightarrow> unit fallible" where
  "mkdir p =
     faulty (with_path ''mkdirat'' False p (\<lambda>q. do {
       w \<leftarrow> State_Monad.get;
       case node_at (nodes w) q of
         Some n \<Rightarrow> ret (Inl (path_error ''mkdirat'' p EEXIST))
       | None \<Rightarrow> do { put_node q Directory; ret (Inr ()) }
     }))"

text \<open>\<open>OpenFile\<close> with \<open>O_CREATE|O_EXCL\<close>; the open file is named by its physical path.\<close>

definition create_excl :: "string \<Rightarrow> int \<Rightarrow> phys fallible" where
  "create_excl p perm =
     faulty (with_path ''openat'' False p (\<lambda>q. do {
       w \<leftarrow> State_Monad.get;
       case node_at (nodes w) q of
         Some n \<Rightarrow> ret (Inl (path_error ''openat'' p EEXIST))
       | None \<Rightarrow> do { put_node q (File [] perm); ret (Inr q) }
     }))"

definition append_to :: "phys \<Rightarrow> string \<Rightarrow> unit io" where
  "append_to h content =
     do {
       w \<leftarrow> State_Monad.get;
       case node_at (nodes w) h of
         Some (File old perm) \<Rightarrow> put_node h (File (old @ content) perm)
       | _ \<Rightarrow> ret ()
     }"

definition write_handle :: "phys \<Rightarrow> string \<Rightarrow> unit fallible" where
  "write_handle h content =
     do {
       w \<leftarrow> State_Monad.get;
       case faults w of
         [] \<Rightarrow> do { append_to h content; ret (Inr ()) }
       | None # fs \<Rightarrow>
           do { State_Monad.set (w\<lparr>faults := fs\<rparr>); append_to h content; ret (Inr ()) }
       | Some (reason, k) # fs \<Rightarrow>
           do { State_Monad.set (w\<lparr>faults := fs\<rparr>); append_to h (take k content);
                ret (Inl (errors_New reason)) }
     }"

definition chmod_handle :: "phys \<Rightarrow> int \<Rightarrow> unit fallible" where
  "chmod_handle h perm =
     faulty (do {
       w \<leftarrow> State_Monad.get;
       case node_at (nodes w) h of
         Some (File content old) \<Rightarrow> do { put_node h (File content perm); ret (Inr ()) }
       | _ \<Rightarrow> ret (Inr ())
     })"

text \<open>\<open>Sync\<close> and \<open>Close\<close> of a file, opening and closing the root: calls that only may fail.\<close>

definition may_fail :: "unit fallible" where
  "may_fail = faulty (ret (Inr ()))"

definition read_file :: "string \<Rightarrow> string fallible" where
  "read_file p =
     faulty (with_path ''openat'' True p (\<lambda>q. do {
       w \<leftarrow> State_Monad.get;
       ret (case node_at (nodes w) q of
              Some (File content perm) \<Rightarrow> Inr content
            | Some (Special content) \<Rightarrow> Inr content
            | Some Directory \<Rightarrow> Inl (path_error ''read'' p EISDIR)
            | _ \<Rightarrow> Inl (path_error ''openat'' p ENOENT))
     }))"

definition has_children :: "tree \<Rightarrow> phys \<Rightarrow> bool" where
  "has_children N q = list_ex (\<lambda>(k, m). k \<noteq> q \<and> has_prefix k q) N"

definition remove :: "string \<Rightarrow> unit fallible" where
  "remove p =
     faulty (with_path ''unlinkat'' False p (\<lambda>q. do {
       w \<leftarrow> State_Monad.get;
       case node_at (nodes w) q of
         None \<Rightarrow> ret (Inl (path_error ''unlinkat'' p ENOENT))
       | Some n \<Rightarrow>
           if n = Directory \<and> (q = [] \<or> has_children (nodes w) q)
           then ret (Inl (path_error ''unlinkat'' p ENOTEMPTY))
           else do { drop_node q; ret (Inr ()) }
     }))"

text \<open>Renaming moves a node, a directory with everything below it.\<close>

definition move_tree :: "phys \<Rightarrow> phys \<Rightarrow> tree \<Rightarrow> tree" where
  "move_tree q r N =
     map (\<lambda>(k, n). (if has_prefix k q then r @ drop (length q) k else k, n)) (AList.delete r N)"

definition rename_nodes :: "phys \<Rightarrow> phys \<Rightarrow> tree \<Rightarrow> errno + tree" where
  "rename_nodes q r N =
     (case node_at N q of
        None \<Rightarrow> Inl ENOENT
      | Some n \<Rightarrow>
          if q = r then Inr N
          else if n = Directory
          then if q = [] \<or> has_prefix r q then Inl EINVAL
               else case node_at N r of
                      None \<Rightarrow> Inr (move_tree q r N)
                    | Some Directory \<Rightarrow>
                        if r = [] \<or> has_children N r then Inl ENOTEMPTY else Inr (move_tree q r N)
                    | Some m \<Rightarrow> Inl ENOTDIR
          else if node_at N r = Some Directory then Inl EISDIR
          else Inr (AList.update r n (AList.delete q N)))"

definition rename :: "string \<Rightarrow> string \<Rightarrow> unit fallible" where
  "rename p d =
     faulty (with_path ''renameat'' False p (\<lambda>q. with_path ''renameat'' False d (\<lambda>r. do {
       w \<leftarrow> State_Monad.get;
       case rename_nodes q r (nodes w) of
         Inl e \<Rightarrow> ret (Inl (path_error ''renameat'' p e))
       | Inr N \<Rightarrow> do { State_Monad.set (w\<lparr>nodes := N\<rparr>); ret (Inr ()) }
     })))"

text \<open>\<open>fs.ReadDir\<close>: the entries of a directory sorted by name.\<close>

definition children :: "tree \<Rightarrow> phys \<Rightarrow> phys list" where
  "children N q =
     sort (remdups (filter (\<lambda>k. k \<noteq> [] \<and> butlast k = q) (map fst N)))"

definition read_dir :: "string \<Rightarrow> phys list fallible" where
  "read_dir p =
     faulty (with_path ''openat'' True p (\<lambda>q. do {
       w \<leftarrow> State_Monad.get;
       ret (case node_at (nodes w) q of
              Some Directory \<Rightarrow> Inr (children (nodes w) q)
            | Some n \<Rightarrow> Inl (path_error ''readdir'' p ENOTDIR)
            | None \<Rightarrow> Inl (path_error ''openat'' p ENOENT))
     }))"

text \<open>
  What \<open>fs.WalkDir\<close> visits below a directory: the nodes whose ancestors up to it are
  directories, in the order of their names, which is the depth-first order.
\<close>

definition descendants :: "tree \<Rightarrow> phys \<Rightarrow> phys list" where
  "descendants N q =
     sort (remdups (filter (\<lambda>k. k \<noteq> q \<and> has_prefix k q \<and>
       list_all (\<lambda>i. node_at N (take i k) = Some Directory) [length q..<length k]) (map fst N)))"

section \<open>Weakest preconditions\<close>

definition wp :: "'a io \<Rightarrow> ('a \<Rightarrow> world \<Rightarrow> bool) \<Rightarrow> world \<Rightarrow> bool" where
  "wp m Q w = (case run_state m w of (x, w') \<Rightarrow> Q x w')"

named_theorems wp_rules

lemma wp_ret [simp]: "wp (ret x) Q = Q x"
  by (simp add: wp_def fun_eq_iff)

lemma wp_bind [simp]: "wp (State_Monad.bind m f) Q w = wp m (\<lambda>x. wp (f x) Q) w"
  by (simp add: wp_def State_Monad.bind_def split: prod.splits)

lemma wp_get [simp]: "wp State_Monad.get Q w = Q w w"
  by (simp add: wp_def State_Monad.get_def)

lemma wp_set [simp]: "wp (State_Monad.set v) Q w = Q () v"
  by (simp add: wp_def State_Monad.set_def)

lemma wp_update [simp]: "wp (State_Monad.update f) Q w = Q () (f w)"
  unfolding State_Monad.update_def by simp

lemma wp_if [simp]: "wp (if b then m else m') Q w = (if b then wp m Q w else wp m' Q w)"
  by simp

lemma wp_case_sum [simp]:
  "wp (case x of Inl e \<Rightarrow> f e | Inr y \<Rightarrow> g y) Q w =
     (case x of Inl e \<Rightarrow> wp (f e) Q w | Inr y \<Rightarrow> wp (g y) Q w)"
  by (cases x) simp_all

lemma wp_case_option [simp]:
  "wp (case x of None \<Rightarrow> f | Some y \<Rightarrow> g y) Q w =
     (case x of None \<Rightarrow> wp f Q w | Some y \<Rightarrow> wp (g y) Q w)"
  by (cases x) simp_all

lemma wp_mono: "wp m Q w \<Longrightarrow> (\<And>x w'. Q x w' \<Longrightarrow> R x w') \<Longrightarrow> wp m R w"
  by (auto simp: wp_def split: prod.splits)

lemma wp_conj: "wp m Q w \<Longrightarrow> wp m R w \<Longrightarrow> wp m (\<lambda>x w'. Q x w' \<and> R x w') w"
  by (auto simp: wp_def split: prod.splits)

lemma wp_run: "wp m Q w \<Longrightarrow> run_state m w = (x, w') \<Longrightarrow> Q x w'"
  by (simp add: wp_def)

section \<open>Rules for the system calls\<close>

definition absent :: "tree \<Rightarrow> string \<Rightarrow> bool" where
  "absent N p =
     (case located N False p of Inl e \<Rightarrow> e = ENOENT | Inr q \<Rightarrow> node_at N q = None)"

lemma node_at_Nil [simp]: "node_at N [] = Some Directory"
  by (simp add: node_at_def)

lemma node_at_update [simp]:
  "node_at (AList.update q n N) r = (if r = q \<and> q \<noteq> [] then Some n else node_at N r)"
  by (auto simp: node_at_def update_conv')

lemma node_at_delete [simp]:
  "node_at (AList.delete q N) r = (if r = q \<and> q \<noteq> [] then None else node_at N r)"
  by (auto simp: node_at_def delete_conv')

lemma node_at_None_nonempty: "node_at N q = None \<Longrightarrow> q \<noteq> []"
  by (auto simp: node_at_def split: if_splits)

lemma node_at_other_nonempty: "node_at N q = Some n \<Longrightarrow> n \<noteq> Directory \<Longrightarrow> q \<noteq> []"
  by (auto simp: node_at_def split: if_splits)

lemma path_error_chain [simp]:
  "error_chain (path_error op p e) = errno_chain e"
  by (simp add: path_error_def)

lemma errno_chain_NotExist [simp]: "ErrNotExist \<in> set (errno_chain e) \<longleftrightarrow> e = ENOENT"
  by (cases e) auto

lemma errors_New_chain [simp]: "error_chain (errors_New reason) = []"
  by (simp add: errors_New_def)

lemma wp_faulty:
  assumes "\<And>w'. nodes w' = nodes w \<Longrightarrow> wp m Q w'"
    and "\<And>w' reason. nodes w' = nodes w \<Longrightarrow> Q (Inl (errors_New reason)) w'"
  shows "wp (faulty m) Q w"
  using assms by (auto simp: faulty_def split: list.splits option.splits)

lemma wp_with_path:
  assumes "\<And>e. located (nodes w) follow p = Inl e \<Longrightarrow> Q (Inl (path_error op p e)) w"
    and "\<And>q. located (nodes w) follow p = Inr q \<Longrightarrow> wp (f q) Q w"
  shows "wp (with_path op follow p f) Q w"
  using assms by (auto simp: with_path_def split: sum.splits)

lemma wp_lstat [wp_rules]:
  assumes "\<And>e w'. nodes w' = nodes w \<Longrightarrow>
      ErrNotExist \<in> set (error_chain e) \<longrightarrow> absent (nodes w) p \<Longrightarrow> Q (Inl e) w'"
    and "\<And>q n w'. nodes w' = nodes w \<Longrightarrow> located (nodes w) False p = Inr q \<Longrightarrow>
      node_at (nodes w) q = Some n \<Longrightarrow> Q (Inr n) w'"
  shows "wp (lstat p) Q w"
  unfolding lstat_def stat_with_def
  by (rule wp_faulty, rule wp_with_path)
    (use assms in \<open>auto simp: absent_def split: option.splits\<close>)

lemma wp_stat [wp_rules]:
  assumes "\<And>e w'. nodes w' = nodes w \<Longrightarrow> Q (Inl e) w'"
    and "\<And>q n w'. nodes w' = nodes w \<Longrightarrow> located (nodes w) True p = Inr q \<Longrightarrow>
      node_at (nodes w) q = Some n \<Longrightarrow> Q (Inr n) w'"
  shows "wp (stat p) Q w"
  unfolding stat_def stat_with_def
  by (rule wp_faulty, rule wp_with_path) (use assms in \<open>auto split: option.splits\<close>)

lemma wp_read_file [wp_rules]:
  assumes "\<And>e w'. nodes w' = nodes w \<Longrightarrow> Q (Inl e) w'"
    and "\<And>q content w'. nodes w' = nodes w \<Longrightarrow> located (nodes w) True p = Inr q \<Longrightarrow>
      (\<exists>perm. node_at (nodes w) q = Some (File content perm)) \<or>
      node_at (nodes w) q = Some (Special content) \<Longrightarrow> Q (Inr content) w'"
  shows "wp (read_file p) Q w"
  unfolding read_file_def
  by (rule wp_faulty, rule wp_with_path) (use assms in \<open>auto split: option.splits node.splits\<close>)

lemma wp_read_dir [wp_rules]:
  assumes "\<And>e w'. nodes w' = nodes w \<Longrightarrow> Q (Inl e) w'"
    and "\<And>q w'. nodes w' = nodes w \<Longrightarrow> located (nodes w) True p = Inr q \<Longrightarrow>
      node_at (nodes w) q = Some Directory \<Longrightarrow> Q (Inr (children (nodes w) q)) w'"
  shows "wp (read_dir p) Q w"
  unfolding read_dir_def
  by (rule wp_faulty, rule wp_with_path) (use assms in \<open>auto split: option.splits node.splits\<close>)

lemma wp_may_fail [wp_rules]:
  assumes "\<And>r w'. nodes w' = nodes w \<Longrightarrow> Q r w'"
  shows "wp may_fail Q w"
  unfolding may_fail_def by (rule wp_faulty) (use assms in auto)

lemma resolve_errno: "resolve N follow links dir ps = Inl e \<Longrightarrow> ErrExist \<notin> set (errno_chain e)"
proof (induction N follow links dir ps rule: resolve.induct)
  case (2 N follow links dir c rest)
  show ?case
  proof (cases "c = [] \<or> c = ''.'' \<or> c = ''..''")
    case True
    then show ?thesis using 2 by (elim disjE) (auto split: if_splits)
  next
    case False
    show ?thesis
    proof (cases "node_at N (dir @ [c])")
      case (Some n)
      then show ?thesis using 2 False by (cases n) (auto split: if_splits)
    qed (use 2 False in \<open>auto split: if_splits\<close>)
  qed
qed simp

lemma wp_mkdir [wp_rules]:
  assumes "\<And>e w'. nodes w' = nodes w \<Longrightarrow>
      ErrExist \<in> set (error_chain e) \<longrightarrow>
        (\<exists>q. located (nodes w) False p = Inr q \<and> node_at (nodes w) q \<noteq> None) \<Longrightarrow> Q (Inl e) w'"
    and "\<And>q w'. located (nodes w) False p = Inr q \<Longrightarrow> node_at (nodes w) q = None \<Longrightarrow>
      nodes w' = AList.update q Directory (nodes w) \<Longrightarrow> Q (Inr ()) w'"
  shows "wp (mkdir p) Q w"
  unfolding mkdir_def
  by (rule wp_faulty, rule wp_with_path)
    (use assms resolve_errno in \<open>auto simp: put_node_def located_def split: option.splits\<close>)

lemma wp_create_excl [wp_rules]:
  assumes "\<And>e w'. nodes w' = nodes w \<Longrightarrow> Q (Inl e) w'"
    and "\<And>q w'. located (nodes w) False p = Inr q \<Longrightarrow> node_at (nodes w) q = None \<Longrightarrow>
      nodes w' = AList.update q (File [] perm) (nodes w) \<Longrightarrow> Q (Inr q) w'"
  shows "wp (create_excl p perm) Q w"
  unfolding create_excl_def
  by (rule wp_faulty, rule wp_with_path)
    (use assms in \<open>auto simp: put_node_def split: option.splits\<close>)

lemma wp_write_handle [wp_rules]:
  assumes "node_at (nodes w) h = Some (File old perm)"
    and "\<And>e k w'. nodes w' = AList.update h (File (old @ take k content) perm) (nodes w) \<Longrightarrow>
      Q (Inl e) w'"
    and "\<And>w'. nodes w' = AList.update h (File (old @ content) perm) (nodes w) \<Longrightarrow> Q (Inr ()) w'"
  shows "wp (write_handle h content) Q w"
  using assms
  by (auto simp: write_handle_def append_to_def put_node_def split: list.splits option.splits)

lemma wp_chmod_handle [wp_rules]:
  assumes "node_at (nodes w) h = Some (File content old)"
    and "\<And>e w'. nodes w' = nodes w \<Longrightarrow> Q (Inl e) w'"
    and "\<And>w'. nodes w' = AList.update h (File content perm) (nodes w) \<Longrightarrow> Q (Inr ()) w'"
  shows "wp (chmod_handle h perm) Q w"
  unfolding chmod_handle_def
  by (rule wp_faulty) (use assms in \<open>auto simp: put_node_def\<close>)

lemma wp_remove [wp_rules]:
  assumes "\<And>e w'. nodes w' = nodes w \<Longrightarrow>
      ErrNotExist \<in> set (error_chain e) \<longrightarrow> absent (nodes w) p \<Longrightarrow> Q (Inl e) w'"
    and "\<And>q w'. located (nodes w) False p = Inr q \<Longrightarrow> node_at (nodes w) q \<noteq> None \<Longrightarrow> q \<noteq> [] \<Longrightarrow>
      nodes w' = AList.delete q (nodes w) \<Longrightarrow> Q (Inr ()) w'"
  shows "wp (remove p) Q w"
  unfolding remove_def
  by (rule wp_faulty, rule wp_with_path)
    (auto simp: drop_node_def absent_def split: option.splits
      intro!: assms intro: node_at_other_nonempty)

text \<open>Only the renaming of a regular file or other leaf is needed.\<close>

lemma wp_rename [wp_rules]:
  assumes "\<And>q. located (nodes w) False p = Inr q \<Longrightarrow> node_at (nodes w) q \<noteq> Some Directory"
    and "\<And>e w'. nodes w' = nodes w \<Longrightarrow> Q (Inl e) w'"
    and "\<And>q r n w'. located (nodes w) False p = Inr q \<Longrightarrow> located (nodes w) False d = Inr r \<Longrightarrow>
      node_at (nodes w) q = Some n \<Longrightarrow> node_at (nodes w) r \<noteq> Some Directory \<Longrightarrow> q \<noteq> r \<Longrightarrow>
      nodes w' = AList.update r n (AList.delete q (nodes w)) \<Longrightarrow> Q (Inr ()) w'"
    and "\<And>q n w'. located (nodes w) False p = Inr q \<Longrightarrow> located (nodes w) False d = Inr q \<Longrightarrow>
      node_at (nodes w) q = Some n \<Longrightarrow> nodes w' = nodes w \<Longrightarrow> Q (Inr ()) w'"
  shows "wp (rename p d) Q w"
  unfolding rename_def
  by (rule wp_faulty, rule wp_with_path)
    (use assms in \<open>auto simp: rename_nodes_def intro!: wp_with_path split: option.splits sum.splits\<close>)

end
