(* ===== verification/Gen_Files.thy ===== *)
theory Gen_Files
  imports Gen_FS
begin

text \<open>
  The file operations of \<open>src/internal/genfs/genfs.go\<close>: directories, temporary files, guarded
  reading, replacing and removing of files, and the lock of a target.  A Go call that returns
  only an error has the type \<open>unit fallible\<close>.
\<close>

definition error_of :: "go_error + 'a \<Rightarrow> go_error option" where
  "error_of r = (case r of Inl e \<Rightarrow> Some e | Inr x \<Rightarrow> None)"

definition join_errors :: "go_error \<Rightarrow> go_error option \<Rightarrow> go_error" where
  "join_errors e other = (case errors_Join [Some e, other] of None \<Rightarrow> e | Some j \<Rightarrow> j)"

definition read_entropy :: "string fallible" where
  "read_entropy =
     do {
       w \<leftarrow> State_Monad.get;
       case entropy w of
         [] \<Rightarrow> ret (Inl (errors_New ''EOF''))
       | random # rest \<Rightarrow> do { State_Monad.set (w\<lparr>entropy := rest\<rparr>); ret (Inr random) }
     }"

definition hex_string :: "string \<Rightarrow> string" where
  "hex_string s = concat (map (\<lambda>c. hex2 (byte_of c)) s)"

fun create_temporary_try :: "nat \<Rightarrow> string \<Rightarrow> string \<Rightarrow> (string \<times> phys) fallible" where
  "create_temporary_try 0 directory base =
     ret (Inl (errors_New ''create temporary file: exhausted unique names''))"
| "create_temporary_try (Suc k) directory base =
     do {
       r \<leftarrow> read_entropy;
       case r of
         Inl e \<Rightarrow> ret (Inl (wrap_error ''create temporary name: '' e))
       | Inr random \<Rightarrow>
           (let filePath = path_join directory (''.'' @ base @ ''.spice-'' @ hex_string random)
            in do {
              c \<leftarrow> create_excl filePath 384;
              case c of
                Inr h \<Rightarrow> ret (Inr (filePath, h))
              | Inl e \<Rightarrow> if \<not> errors_Is (Some e) ErrExist then ret (Inl e)
                          else create_temporary_try k directory base
            })
     }"

definition createTemporary :: "string \<Rightarrow> string \<Rightarrow> (string \<times> phys) fallible" where
  "createTemporary directory base = create_temporary_try 10 directory base"

fun ensure_parts :: "unicode_tables \<Rightarrow> string \<Rightarrow> string list \<Rightarrow> unit fallible" where
  "ensure_parts U current [] = ret (Inr ())"
| "ensure_parts U current (part # parts) =
     (let current = path_join current part
      in do {
        info \<leftarrow> lstat current;
        case info of
          Inl e \<Rightarrow>
            if errors_Is (Some e) ErrNotExist
            then do {
              made \<leftarrow> mkdir current;
              case made of
                Inl e \<Rightarrow>
                  if \<not> errors_Is (Some e) ErrExist
                  then ret (Inl (wrap_error (''create directory '' @ quote U current @ '': '') e))
                  else ensure_parts U current parts
              | Inr _ \<Rightarrow> ensure_parts U current parts
            }
            else ret (Inl (wrap_error (''inspect directory '' @ quote U current @ '': '') e))
        | Inr n \<Rightarrow>
            if is_link n
            then ret (Inl (errors_New (''directory component '' @ quote U current @ '' is a symbolic link'')))
            else if n \<noteq> Directory
            then ret (Inl (errors_New (''directory component '' @ quote U current @ '' is not a directory'')))
            else ensure_parts U current parts
      })"

definition ensureDirectories :: "unicode_tables \<Rightarrow> string \<Rightarrow> unit fallible" where
  "ensureDirectories U directory =
     (if directory = ''.'' \<or> directory = [] then ret (Inr ())
      else ensure_parts U [] (split_on slash directory))"

fun reject_parts :: "unicode_tables \<Rightarrow> string \<Rightarrow> string list \<Rightarrow> unit fallible" where
  "reject_parts U current [] = ret (Inr ())"
| "reject_parts U current (part # parts) =
     (let current = path_join current part
      in do {
        info \<leftarrow> lstat current;
        case info of
          Inl e \<Rightarrow>
            if errors_Is (Some e) ErrNotExist then ret (Inr ())
            else ret (Inl (wrap_error (''inspect path component '' @ quote U current @ '': '') e))
        | Inr n \<Rightarrow>
            if is_link n
            then ret (Inl (errors_New (''path component '' @ quote U current @ '' is a symbolic link'')))
            else reject_parts U current parts
      })"

definition rejectSymlinkComponents :: "unicode_tables \<Rightarrow> string \<Rightarrow> unit fallible" where
  "rejectSymlinkComponents U filePath = reject_parts U [] (split_on slash filePath)"

text \<open>The content of a regular file, \<open>None\<close> when there is nothing at the path.\<close>

definition read_regular :: "unicode_tables \<Rightarrow> string \<Rightarrow> node \<Rightarrow> string option fallible" where
  "read_regular U filePath info =
     (if is_link info
      then ret (Inl (errors_New (''path '' @ quote U filePath @ '' is a symbolic link'')))
      else if \<not> is_regular info
      then ret (Inl (errors_New (''path '' @ quote U filePath @ '' is not a regular file'')))
      else do {
        content \<leftarrow> read_file filePath;
        ret (case content of
               Inl e \<Rightarrow> Inl (wrap_error (''read '' @ quote U filePath @ '': '') e)
             | Inr content \<Rightarrow> Inr (Some content))
      })"

definition readOptional :: "unicode_tables \<Rightarrow> string \<Rightarrow> string option fallible" where
  "readOptional U filePath =
     do {
       info \<leftarrow> lstat filePath;
       case info of
         Inl e \<Rightarrow>
           if errors_Is (Some e) ErrNotExist then ret (Inr None)
           else ret (Inl (wrap_error (''inspect '' @ quote U filePath @ '': '') e))
       | Inr info \<Rightarrow> read_regular U filePath info
     }"

section \<open>Replacing a file\<close>

definition drop_backup :: "unicode_tables \<Rightarrow> string \<Rightarrow> unit fallible" where
  "drop_backup U backupPath =
     do {
       cleaned \<leftarrow> remove backupPath;
       ret (case cleaned of
              Inl e \<Rightarrow> Inl (wrap_error (''remove replacement backup '' @ quote U backupPath @ '': '') e)
            | Inr _ \<Rightarrow> Inr ())
     }"

definition restore_backup :: "string \<Rightarrow> string \<Rightarrow> go_error \<Rightarrow> unit fallible" where
  "restore_backup backupPath destinationPath e =
     do {
       restored \<leftarrow> rename backupPath destinationPath;
       ret (Inl (join_errors e (error_of restored)))
     }"

definition move_in :: "unicode_tables \<Rightarrow> string \<Rightarrow> string \<Rightarrow> string \<Rightarrow> unit fallible" where
  "move_in U temporaryPath destinationPath backupPath =
     do {
       moved \<leftarrow> rename temporaryPath destinationPath;
       case moved of
         Inl e \<Rightarrow> restore_backup backupPath destinationPath e
       | Inr _ \<Rightarrow> drop_backup U backupPath
     }"

definition save_and_move :: "unicode_tables \<Rightarrow> string \<Rightarrow> string \<Rightarrow> string \<Rightarrow> unit fallible" where
  "save_and_move U temporaryPath destinationPath backupPath =
     do {
       saved \<leftarrow> rename destinationPath backupPath;
       case saved of
         Inl e \<Rightarrow> ret (Inl e)
       | Inr _ \<Rightarrow> move_in U temporaryPath destinationPath backupPath
     }"

definition replace_existing :: "unicode_tables \<Rightarrow> string \<Rightarrow> string \<Rightarrow> string \<Rightarrow> unit fallible" where
  "replace_existing U temporaryPath destinationPath backupPath =
     do {
       removed \<leftarrow> remove backupPath;
       case removed of
         Inl e \<Rightarrow> ret (Inl e)
       | Inr _ \<Rightarrow> save_and_move U temporaryPath destinationPath backupPath
     }"

definition with_backup :: "unicode_tables \<Rightarrow> string \<Rightarrow> string \<Rightarrow> unit fallible" where
  "with_backup U temporaryPath destinationPath =
     do {
       t \<leftarrow> createTemporary (path_dir destinationPath) (path_base destinationPath @ ''.backup'');
       case t of
         Inl e \<Rightarrow> ret (Inl e)
       | Inr backup \<Rightarrow> do {
           closed \<leftarrow> may_fail;
           case closed of
             Inl e \<Rightarrow> ret (Inl e)
           | Inr _ \<Rightarrow> replace_existing U temporaryPath destinationPath (fst backup)
         }
     }"

definition replacePath :: "unicode_tables \<Rightarrow> string \<Rightarrow> string \<Rightarrow> unit fallible" where
  "replacePath U temporaryPath destinationPath =
     do {
       info \<leftarrow> lstat destinationPath;
       case info of
         Inl e \<Rightarrow>
           if errors_Is (Some e) ErrNotExist then rename temporaryPath destinationPath
           else ret (Inl e)
       | Inr n \<Rightarrow> with_backup U temporaryPath destinationPath
     }"

definition close_after :: "go_error \<Rightarrow> unit fallible" where
  "close_after e = do { closed \<leftarrow> may_fail; ret (Inl (join_errors e (error_of closed))) }"

definition verify_temporary ::
    "unicode_tables \<Rightarrow> string \<Rightarrow> string \<Rightarrow> string \<Rightarrow> unit fallible" where
  "verify_temporary U temporaryPath filePath content =
     do {
       written \<leftarrow> read_file temporaryPath;
       case written of
         Inl e \<Rightarrow> ret (Inl e)
       | Inr found \<Rightarrow>
           if found \<noteq> content then ret (Inl (errors_New ''temporary file verification failed''))
           else replacePath U temporaryPath filePath
     }"

definition fill_temporary ::
    "unicode_tables \<Rightarrow> string \<Rightarrow> phys \<Rightarrow> string \<Rightarrow> string \<Rightarrow> int \<Rightarrow> unit fallible" where
  "fill_temporary U temporaryPath h filePath content mode =
     do {
       wrote \<leftarrow> write_handle h content;
       case wrote of
         Inl e \<Rightarrow> close_after e
       | Inr _ \<Rightarrow> do {
           synced \<leftarrow> may_fail;
           case synced of
             Inl e \<Rightarrow> close_after e
           | Inr _ \<Rightarrow> do {
               changed \<leftarrow> chmod_handle h mode;
               case changed of
                 Inl e \<Rightarrow> close_after e
               | Inr _ \<Rightarrow> do {
                   closed \<leftarrow> may_fail;
                   case closed of
                     Inl e \<Rightarrow> ret (Inl e)
                   | Inr _ \<Rightarrow> verify_temporary U temporaryPath filePath content
                 }
             }
         }
     }"

definition discard_temporary :: "string \<Rightarrow> go_error \<Rightarrow> unit fallible" where
  "discard_temporary temporaryPath e =
     do {
       removed \<leftarrow> remove temporaryPath;
       ret (Inl (if errors_Is (error_of removed) ErrNotExist then e
                 else join_errors e (error_of removed)))
     }"

text \<open>The deferred removal runs unless the temporary file has become the destination.\<close>

definition finish_temporary ::
    "unicode_tables \<Rightarrow> string \<Rightarrow> phys \<Rightarrow> string \<Rightarrow> string \<Rightarrow> int \<Rightarrow> unit fallible" where
  "finish_temporary U temporaryPath h filePath content mode =
     do {
       r \<leftarrow> fill_temporary U temporaryPath h filePath content mode;
       case r of
         Inl e \<Rightarrow> discard_temporary temporaryPath e
       | Inr _ \<Rightarrow> ret (Inr ())
     }"

definition through_temporary :: "unicode_tables \<Rightarrow> string \<Rightarrow> string \<Rightarrow> int \<Rightarrow> unit fallible" where
  "through_temporary U filePath content mode =
     do {
       t \<leftarrow> createTemporary (path_dir filePath) (path_base filePath);
       case t of
         Inl e \<Rightarrow> ret (Inl e)
       | Inr temporary \<Rightarrow>
           finish_temporary U (fst temporary) (snd temporary) filePath content mode
     }"

definition replaceFile ::
    "unicode_tables \<Rightarrow> gen_library \<Rightarrow> string \<Rightarrow> string \<Rightarrow> int \<Rightarrow> bool \<Rightarrow> unit fallible" where
  "replaceFile U L filePath content mode goSource =
     do {
       directories \<leftarrow> ensureDirectories U (path_dir filePath);
       case directories of
         Inl e \<Rightarrow> ret (Inl e)
       | Inr _ \<Rightarrow>
           (case (if goSource then go_parses L content else None) of
              Some reason \<Rightarrow> ret (Inl (errors_New (''validate generated Go: '' @ reason)))
            | None \<Rightarrow> through_temporary U filePath content mode)
     }"

definition removeOwnedFile ::
    "unicode_tables \<Rightarrow> gen_library \<Rightarrow> string \<Rightarrow> string \<Rightarrow> unit fallible" where
  "removeOwnedFile U L filePath expectedHash =
     do {
       r \<leftarrow> readOptional U filePath;
       case r of
         Inl e \<Rightarrow> ret (Inl e)
       | Inr None \<Rightarrow> ret (Inr ())
       | Inr (Some content) \<Rightarrow>
           if hashContent L content \<noteq> expectedHash \<or>
              requiresGeneratedMarker filePath \<and> \<not> hasGeneratedMarker content
           then ret (Inl (errors_New
             (''refuse to remove modified stale generated file '' @ quote U filePath)))
           else do {
             removed \<leftarrow> remove filePath;
             case removed of
               Inl e \<Rightarrow> ret (Inl (wrap_error
                 (''remove stale generated file '' @ quote U filePath @ '': '') e))
             | Inr _ \<Rightarrow> ret (Inr ())
           }
     }"

section \<open>The lock\<close>

definition lockPath :: "plan \<Rightarrow> string" where
  "lockPath p = path_join ''.spice'' (ID (Target p) @ ''.lock'')"

definition write_lock :: "unicode_tables \<Rightarrow> gen_library \<Rightarrow> plan \<Rightarrow> phys \<Rightarrow> unit fallible" where
  "write_lock U L p h =
     do {
       wrote \<leftarrow> write_handle h (json_lock L (ID (Target p)) @ [newline]);
       closed \<leftarrow> may_fail;
       case errors_Join [error_of wrote, error_of closed] of
         Some e \<Rightarrow> do {
           removed \<leftarrow> remove (lockPath p);
           ret (Inl (wrap_error (''write generation lock '' @ quote U (lockPath p) @ '': '')
             (join_errors e (error_of removed))))
         }
       | None \<Rightarrow> ret (Inr ())
     }"

definition create_lock :: "unicode_tables \<Rightarrow> gen_library \<Rightarrow> plan \<Rightarrow> unit fallible" where
  "create_lock U L p =
     do {
       opened \<leftarrow> create_excl (lockPath p) 384;
       case opened of
         Inl e \<Rightarrow>
           ret (Inl (if errors_Is (Some e) ErrExist
             then errors_New (''generation target '' @ quote U (ID (Target p))
                    @ '' is locked at '' @ lockPath p
                    @ ''; inspect and remove the stale lock only when no generator is running'')
             else wrap_error (''acquire generation lock '' @ quote U (lockPath p) @ '': '') e))
       | Inr h \<Rightarrow> write_lock U L p h
     }"

definition acquireLock :: "unicode_tables \<Rightarrow> gen_library \<Rightarrow> plan \<Rightarrow> unit fallible" where
  "acquireLock U L p =
     do {
       directories \<leftarrow> ensureDirectories U (path_dir (lockPath p));
       case directories of
         Inl e \<Rightarrow> ret (Inl e)
       | Inr _ \<Rightarrow> create_lock U L p
     }"

definition releaseLock :: "unicode_tables \<Rightarrow> plan \<Rightarrow> unit fallible" where
  "releaseLock U p =
     do {
       removed \<leftarrow> remove (lockPath p);
       case removed of
         Inl e \<Rightarrow>
           if \<not> errors_Is (Some e) ErrNotExist
           then ret (Inl (wrap_error (''release generation lock '' @ quote U (lockPath p) @ '': '') e))
           else ret (Inr ())
       | Inr _ \<Rightarrow> ret (Inr ())
     }"

end
