(* ===== verification/Gen_Manifest.thy ===== *)
theory Gen_Manifest
  imports Gen_Plan
begin

text \<open>
  Reading an ownership manifest back (\<open>src/internal/genfs/genfs.go\<close>): the accepted schema
  versions and the targets of earlier layouts that may be taken over, the relocation of a
  module path, and the validation of the owned paths.
\<close>

record apply_options =
  RelocateModuleFrom :: string

definition no_options :: apply_options where
  "no_options = \<lparr>RelocateModuleFrom = []\<rparr>"

definition validateApplyOptions :: "unicode_tables \<Rightarrow> target \<Rightarrow> apply_options \<Rightarrow> string option" where
  "validateApplyOptions U t options =
     (let previous = RelocateModuleFrom options
      in if previous = [] then None
         else if previous \<noteq> trim_space previous \<or> previous = ''.'' \<or> previous = ''..'' \<or>
                 str_contains previous [CHR 0x5C] \<or> has_prefix previous ''/'' \<or>
                 has_suffix previous ''/'' \<or> Clean previous \<noteq> previous
         then Some (''previous generation module path '' @ quote U previous @ '' is invalid'')
         else if previous = ModulePath t
         then Some ''previous generation module path matches the current module path''
         else None)"

definition relocateModuleImportPath :: "string \<Rightarrow> string \<Rightarrow> string \<Rightarrow> string \<times> bool" where
  "relocateModuleImportPath importPath currentModule previousModule =
     (if importPath = [] then ([], True)
      else if importPath = currentModule then (previousModule, True)
      else if \<not> has_prefix importPath (currentModule @ ''/'') then ([], False)
      else (previousModule @ trim_prefix importPath currentModule, True))"

definition compatibleRelocatedTarget :: "target_summary \<Rightarrow> target_summary \<Rightarrow> string \<Rightarrow> bool" where
  "compatibleRelocatedTarget prior selected previousModule =
     (if previousModule = [] \<or> sum_ID prior \<noteq> sum_ID selected \<or>
         sum_Layout prior \<noteq> sum_Layout selected \<or> sum_ModulePath prior \<noteq> previousModule \<or>
         sum_OutputDir prior \<noteq> sum_OutputDir selected \<or>
         sum_BridgeDir prior \<noteq> sum_BridgeDir selected \<or>
         sum_ManifestPath prior \<noteq> sum_ManifestPath selected
      then False
      else let (previousPackage, packageOK) =
                 relocateModuleImportPath (sum_PackagePath selected) (sum_ModulePath selected)
                   previousModule;
               (previousEntrypoint, entrypointOK) =
                 relocateModuleImportPath (sum_EntrypointPackagePath selected)
                   (sum_ModulePath selected) previousModule
           in packageOK \<and> entrypointOK \<and> sum_PackagePath prior = previousPackage \<and>
              sum_EntrypointPackagePath prior = previousEntrypoint)"

definition compatibleLegacyTarget :: "target_summary \<Rightarrow> target \<Rightarrow> bool" where
  "compatibleLegacyTarget legacy selected =
     (if sum_Layout legacy \<noteq> [] \<or> sum_ID legacy \<noteq> ID selected \<or>
         sum_ModulePath legacy \<noteq> ModulePath selected \<or>
         sum_ManifestPath legacy \<noteq> ManifestPath selected
      then False
      else if Layout selected = LayoutGeneratedPackage
      then sum_PackagePath legacy = PackagePath selected \<and> sum_OutputDir legacy = OutputDir selected
      else if Layout selected = LayoutApplicationPackage
      then let output = path_join (path_join ''internal'' ''spicegen'') (ID selected)
           in sum_OutputDir legacy = output \<and>
              sum_PackagePath legacy = path_join (ModulePath selected) output
      else False)"

definition compatibleSchema2Target :: "target_summary \<Rightarrow> target \<Rightarrow> bool" where
  "compatibleSchema2Target legacy selected =
     (if sum_ID legacy \<noteq> ID selected \<or> sum_Layout legacy \<noteq> Layout selected \<or>
         sum_ModulePath legacy \<noteq> ModulePath selected \<or>
         sum_ManifestPath legacy \<noteq> ManifestPath selected
      then False
      else if Layout selected = LayoutGeneratedPackage
      then sum_PackagePath legacy = PackagePath selected \<and> sum_OutputDir legacy = OutputDir selected
      else if Layout selected \<noteq> LayoutApplicationPackage then False
      else let packagePath = (if BridgeDir selected \<noteq> ''.''
                              then path_join (ModulePath selected) (BridgeDir selected)
                              else ModulePath selected)
           in sum_PackagePath legacy = packagePath \<and> sum_OutputDir legacy = BridgeDir selected)"

text \<open>The target of a manifest written before it recorded the entrypoint package.\<close>

definition with_entrypoint :: "target_summary \<Rightarrow> target_summary \<Rightarrow> target_summary" where
  "with_entrypoint recorded expected =
     (if sum_EntrypointPackagePath recorded = []
      then recorded\<lparr>sum_EntrypointPackagePath := sum_EntrypointPackagePath expected\<rparr>
      else recorded)"

definition normalizeManifestTarget ::
    "manifest \<Rightarrow> plan \<Rightarrow> apply_options \<Rightarrow> manifest go_result" where
  "normalizeManifestTarget m p options =
     (let expected = manifest_target (plan_manifest p);
          compatible = with_entrypoint (manifest_target m) expected
      in if Schema m = SchemaVersion \<or> Schema m = 5
         then if compatible \<noteq> expected \<and>
                 \<not> compatibleRelocatedTarget compatible expected (RelocateModuleFrom options)
              then Inl ''ownership manifest target does not match the selected generation target''
              else Inr m
         else if Schema m = 4 \<or> Schema m = 3
         then if compatible \<noteq> expected
              then Inl (''schema-'' @ show_int (Schema m)
                     @ '' ownership manifest target does not match the selected generation target'')
              else Inr m
         else if Schema m = 2
         then if \<not> compatibleSchema2Target (manifest_target m) (Target p)
              then Inl (''schema-2 ownership manifest target does not match ''
                     @ ''the selected generation target'')
              else Inr m
         else if Schema m = 1
         then if \<not> compatibleLegacyTarget (manifest_target m) (Target p)
              then Inl ''legacy ownership manifest target does not match the selected generation target''
              else Inr (m\<lparr>manifest_target :=
                     (manifest_target m)\<lparr>sum_Layout := LayoutGeneratedPackage\<rparr>\<rparr>)
         else Inl (''ownership manifest schema '' @ show_int (Schema m)
                @ '' is unsupported; expected '' @ show_int SchemaVersion))"

definition manifestTarget :: "manifest \<Rightarrow> target \<Rightarrow> target" where
  "manifestTarget m selected =
     (let recorded = manifest_target m;
          own = \<lparr>ID = sum_ID recorded,
                 Layout = (if Schema m = 2 then sum_Layout recorded else LayoutGeneratedPackage),
                 ModulePath = sum_ModulePath recorded, ModuleRoot = ModuleRoot selected,
                 PackagePath = sum_PackagePath recorded, EntrypointPackagePath = [],
                 OutputDir = sum_OutputDir recorded, BridgeDir = [],
                 ManifestPath = sum_ManifestPath recorded\<rparr>
      in if Schema m = 2 then own
         else if Schema m \<noteq> 1 then selected
         else own)"

fun check_owned ::
    "unicode_tables \<Rightarrow> gen_library \<Rightarrow> target \<Rightarrow> string list \<Rightarrow> manifest_file list \<Rightarrow> string option" where
  "check_owned U L t seen [] = None"
| "check_owned U L t seen (f # fs) =
     (case validateRelativePath U L (own_path f) of
        Some e \<Rightarrow> Some (''ownership manifest path '' @ quote U (own_path f) @ '': '' @ e)
      | None \<Rightarrow>
          if \<not> withinTargetOutput t (own_path f) (own_role f) \<or>
             \<not> supportedGeneratedExtension (own_path f)
          then Some (''ownership manifest path '' @ quote U (own_path f)
                 @ '' is outside target output '' @ quote U (OutputDir t))
          else if \<not> validHash (own_sha256 f)
          then Some (''ownership manifest path '' @ quote U (own_path f) @ '' has invalid SHA-256'')
          else let key = ToLower L (own_path f)
               in if key \<in> set seen
                  then Some (''ownership manifest contains duplicate path '' @ quote U (own_path f))
                  else check_owned U L t (key # seen) fs)"

definition decodeManifest ::
    "unicode_tables \<Rightarrow> gen_library \<Rightarrow> string \<Rightarrow> plan \<Rightarrow> apply_options \<Rightarrow> manifest go_result" where
  "decodeManifest U L content p options =
     (case json_manifest L content of
        Inl e \<Rightarrow> Inl (''decode ownership manifest: '' @ e)
      | Inr m \<Rightarrow>
          (case normalizeManifestTarget m p options of
             Inl e \<Rightarrow> Inl e
           | Inr m \<Rightarrow>
               (case check_owned U L (manifestTarget m (Target p)) [] (manifest_files m) of
                  Some e \<Rightarrow> Inl e
                | None \<Rightarrow> Inr m)))"

section \<open>What an accepted manifest owns\<close>

definition owned_ok :: "gen_library \<Rightarrow> target \<Rightarrow> manifest_file \<Rightarrow> bool" where
  "owned_ok L t f =
     (module_path L (own_path f) \<and> withinTargetOutput t (own_path f) (own_role f) \<and>
      supportedGeneratedExtension (own_path f) \<and> validHash (own_sha256 f))"

lemma check_owned_None:
  "check_owned U L t seen fs = None \<longleftrightarrow>
     list_all (owned_ok L t) fs \<and> distinct (map (\<lambda>f. ToLower L (own_path f)) fs) \<and>
     set (map (\<lambda>f. ToLower L (own_path f)) fs) \<inter> set seen = {}"
proof (induction U L t seen fs rule: check_owned.induct)
  case (2 U L t seen f fs)
  show ?case
  proof (cases "owned_ok L t f \<and> ToLower L (own_path f) \<notin> set seen")
    case True
    then have valid: "validateRelativePath U L (own_path f) = None"
      by (simp add: owned_ok_def validateRelativePath_None)
    then have "check_owned U L t seen (f # fs) = check_owned U L t (ToLower L (own_path f) # seen) fs"
      using True by (simp add: owned_ok_def Let_def)
    moreover have "check_owned U L t (ToLower L (own_path f) # seen) fs = None \<longleftrightarrow>
        list_all (owned_ok L t) fs \<and> distinct (map (\<lambda>f. ToLower L (own_path f)) fs) \<and>
        set (map (\<lambda>f. ToLower L (own_path f)) fs) \<inter> set (ToLower L (own_path f) # seen) = {}"
      using "2.IH" [OF valid _ _ refl] True by (simp add: owned_ok_def [of L t f])
    ultimately show ?thesis using True by auto
  next
    case False
    then have "check_owned U L t seen (f # fs) \<noteq> None"
      using validateRelativePath_None [of U L "own_path f"]
      by (auto simp: owned_ok_def Let_def split: option.splits)
    then show ?thesis using False by (auto simp del: check_owned.simps)
  qed
qed simp

definition schema_target_ok :: "manifest \<Rightarrow> plan \<Rightarrow> apply_options \<Rightarrow> bool" where
  "schema_target_ok m p options =
     (let expected = manifest_target (plan_manifest p);
          compatible = with_entrypoint (manifest_target m) expected
      in Schema m \<in> {5, 6} \<and>
           (compatible = expected \<or>
            compatibleRelocatedTarget compatible expected (RelocateModuleFrom options)) \<or>
         Schema m \<in> {3, 4} \<and> compatible = expected \<or>
         Schema m = 2 \<and> compatibleSchema2Target (manifest_target m) (Target p) \<or>
         Schema m = 1 \<and> compatibleLegacyTarget (manifest_target m) (Target p))"

lemma normalizeManifestTarget_Inr:
  "(\<exists>m'. normalizeManifestTarget m p options = Inr m') \<longleftrightarrow> schema_target_ok m p options"
  by (auto simp: normalizeManifestTarget_def schema_target_ok_def SchemaVersion_def Let_def)

lemma normalizeManifestTarget_files:
  "normalizeManifestTarget m p options = Inr m' \<Longrightarrow> manifest_files m' = manifest_files m"
  by (auto simp: normalizeManifestTarget_def Let_def split: if_splits)

lemma decodeManifest_owned:
  assumes "decodeManifest U L content p options = Inr m"
  shows "list_all (owned_ok L (manifestTarget m (Target p))) (manifest_files m)"
    "distinct (map own_path (manifest_files m))"
proof -
  have "check_owned U L (manifestTarget m (Target p)) [] (manifest_files m) = None"
    using assms by (auto simp: decodeManifest_def split: sum.splits option.splits)
  then have ok: "list_all (owned_ok L (manifestTarget m (Target p))) (manifest_files m) \<and>
      distinct (map (\<lambda>f. ToLower L (own_path f)) (manifest_files m))"
    by (simp add: check_owned_None)
  then show "list_all (owned_ok L (manifestTarget m (Target p))) (manifest_files m)" ..
  have "distinct (map (ToLower L) (map own_path (manifest_files m)))" using ok by (simp add: comp_def)
  then show "distinct (map own_path (manifest_files m))"
    by (auto simp: distinct_map intro: inj_on_imageI2)
qed

section \<open>Properties\<close>

text \<open>
  A manifest is accepted exactly when it decodes, its schema is one of 1 to 6 with a target
  that this schema lets the plan take over, and every owned path is a plain path inside the
  target's output with a supported extension and a well-formed hash, no two of them equal up
  to letter case; so a manifest can never make a file outside the module owned.
\<close>
theorem decodeManifest_iff:
  "(\<exists>m. decodeManifest U L content p options = Inr m) \<longleftrightarrow>
     (\<exists>m m'. json_manifest L content = Inr m \<and> schema_target_ok m p options \<and>
        normalizeManifestTarget m p options = Inr m' \<and>
        list_all (owned_ok L (manifestTarget m' (Target p))) (manifest_files m) \<and>
        distinct (map (\<lambda>f. ToLower L (own_path f)) (manifest_files m)))"
proof (cases "json_manifest L content")
  case (Inr m)
  show ?thesis
  proof (cases "normalizeManifestTarget m p options")
    case (Inl e)
    then show ?thesis
      using Inr by (simp add: decodeManifest_def)
  next
    case n: (Inr m')
    then have "schema_target_ok m p options" "manifest_files m' = manifest_files m"
      using normalizeManifestTarget_Inr normalizeManifestTarget_files by blast+
    then show ?thesis
      using Inr n check_owned_None [of U L "manifestTarget m' (Target p)" "[]" "manifest_files m"]
      by (cases "check_owned U L (manifestTarget m' (Target p)) [] (manifest_files m)")
        (simp_all add: decodeManifest_def)
  qed
qed (simp add: decodeManifest_def)

text \<open>
  Relocating an import path to the previous module can be undone: relocating the result
  back gives the path one started from.
\<close>
theorem relocate_back:
  assumes "previous \<noteq> []" "relocateModuleImportPath importPath current previous = (moved, True)"
  shows "relocateModuleImportPath moved previous current = (importPath, True)"
proof -
  consider "importPath = []" | "importPath \<noteq> []" "importPath = current"
    | rest where "importPath \<noteq> []" "importPath \<noteq> current" "importPath = current @ slash # rest"
    using assms(2) by (auto simp: relocateModuleImportPath_def has_prefix_iff split: if_splits)
  then show ?thesis
  proof cases
    case 3
    have "has_prefix (current @ slash # rest) (current @ ''/'')"
      "has_prefix (previous @ slash # rest) (previous @ ''/'')"
      "has_prefix (current @ slash # rest) current" "has_prefix (previous @ slash # rest) previous"
      by (auto simp: has_prefix_iff)
    moreover have "moved = previous @ slash # rest"
      using assms(2) 3 calculation by (simp add: relocateModuleImportPath_def trim_prefix_def)
    ultimately show ?thesis
      using assms(1) 3 by (simp add: relocateModuleImportPath_def trim_prefix_def)
  qed (use assms in \<open>simp_all add: relocateModuleImportPath_def\<close>)
qed

theorem relocate_back_witness:
  "relocateModuleImportPath ''old.org/app/cmd'' ''old.org/app'' ''new.org/app'' =
     (''new.org/app/cmd'', True)"
proof -
  have "relocateModuleImportPath ''new.org/app/cmd'' ''new.org/app'' ''old.org/app'' =
      (''old.org/app/cmd'', True)" by code_simp
  then show ?thesis by (rule relocate_back [rotated]) simp
qed

end
