(* ===== verification/Gen_Inspect.thy ===== *)
theory Gen_Inspect
  imports Gen_Files Gen_Manifest
begin

text \<open>
  The comparison of a plan with the module on disk (\<open>inspect\<close> and what it calls in
  \<open>src/internal/genfs/genfs.go\<close>).  The maps of an inspection are association lists; the loop
  over the owned paths visits them in the order of the manifest, one of the orders a Go map
  range may take: the differences are sorted afterwards, so only the order of reads depends
  on it.
\<close>

section \<open>Differences\<close>

datatype difference_kind =
    DifferenceMissingManifest
  | DifferenceStaleManifest
  | DifferenceMissingFile
  | DifferenceStaleFile
  | DifferenceManualEdit
  | DifferenceUnownedCollision
  | DifferenceStaleOwnedFile
  | DifferenceMissingOwnedFile
  | DifferenceUnexpectedGenerated

fun kind_text :: "difference_kind \<Rightarrow> string" where
  "kind_text DifferenceMissingManifest = ''missing-manifest''"
| "kind_text DifferenceStaleManifest = ''stale-manifest''"
| "kind_text DifferenceMissingFile = ''missing-file''"
| "kind_text DifferenceStaleFile = ''stale-file''"
| "kind_text DifferenceManualEdit = ''manual-edit''"
| "kind_text DifferenceUnownedCollision = ''unowned-collision''"
| "kind_text DifferenceStaleOwnedFile = ''stale-owned-file''"
| "kind_text DifferenceMissingOwnedFile = ''missing-owned-file''"
| "kind_text DifferenceUnexpectedGenerated = ''unexpected-generated-file''"

record difference =
  diff_kind :: difference_kind
  diff_path :: string
  CurrentSHA256 :: string
  ExpectedSHA256 :: string
  diff_message :: string

record status =
  Current :: bool
  Differences :: "difference list"

record inspection =
  insp_status :: status
  prior :: "manifest option"
  current :: "(string \<times> string) list"
  expected :: "(string \<times> string) list"
  expectedHash :: "(string \<times> string) list"
  owned :: "(string \<times> string) list"

definition empty_inspection :: inspection where
  "empty_inspection =
     \<lparr>insp_status = \<lparr>Current = False, Differences = []\<rparr>, prior = None, current = [],
      expected = [], expectedHash = [], owned = []\<rparr>"

abbreviation differences :: "inspection \<Rightarrow> difference list" where
  "differences st \<equiv> Differences (insp_status st)"

definition add_difference ::
    "difference_kind \<Rightarrow> string \<Rightarrow> string \<Rightarrow> string \<Rightarrow> string \<Rightarrow> inspection \<Rightarrow> inspection" where
  "add_difference kind p cur expect message st =
     st\<lparr>insp_status := (insp_status st)\<lparr>Differences := differences st @
       [\<lparr>diff_kind = kind, diff_path = p, CurrentSHA256 = cur, ExpectedSHA256 = expect,
         diff_message = message\<rparr>]\<rparr>\<rparr>"

definition see_content :: "string \<Rightarrow> string \<Rightarrow> inspection \<Rightarrow> inspection" where
  "see_content p content st = st\<lparr>current := AList.update p content (current st)\<rparr>"

definition expect_content :: "string \<Rightarrow> string \<Rightarrow> string \<Rightarrow> inspection \<Rightarrow> inspection" where
  "expect_content p content h st =
     st\<lparr>expected := AList.update p content (expected st),
        expectedHash := AList.update p h (expectedHash st)\<rparr>"

definition difference_less :: "difference \<Rightarrow> difference \<Rightarrow> bool" where
  "difference_less a b =
     (if diff_path a \<noteq> diff_path b then diff_path a < diff_path b
      else if diff_kind a \<noteq> diff_kind b then kind_text (diff_kind a) < kind_text (diff_kind b)
      else diff_message a < diff_message b)"

definition sortDifferences :: "difference list \<Rightarrow> difference list" where
  "sortDifferences ds = sort_by difference_less ds"

definition protected_kind :: "difference_kind \<Rightarrow> bool" where
  "protected_kind k =
     (k \<in> {DifferenceManualEdit, DifferenceUnownedCollision, DifferenceUnexpectedGenerated})"

definition protectedDifferences :: "difference list \<Rightarrow> difference list" where
  "protectedDifferences ds = filter (\<lambda>d. protected_kind (diff_kind d)) ds"

section \<open>Expected and owned files\<close>

definition inspectExpectedFile ::
    "unicode_tables \<Rightarrow> gen_library \<Rightarrow> inspection \<Rightarrow> gen_file \<Rightarrow> inspection fallible" where
  "inspectExpectedFile U L st f =
     do {
       r \<leftarrow> readOptional U (gen_path f);
       ret (case r of
         Inl e \<Rightarrow> Inl e
       | Inr None \<Rightarrow>
           Inr (add_difference DifferenceMissingFile (gen_path f) [] (SHA256 f)
             ''expected generated file is missing'' st)
       | Inr (Some content) \<Rightarrow>
           let st = see_content (gen_path f) content st;
               currentHash = hashContent L content
           in Inr (case map_of (owned st) (gen_path f) of
                None \<Rightarrow>
                  add_difference DifferenceUnownedCollision (gen_path f) currentHash (SHA256 f)
                    ''expected output path contains an unowned file'' st
              | Some ownedHash \<Rightarrow>
                  if currentHash = SHA256 f then st
                  else if currentHash \<noteq> ownedHash
                  then add_difference DifferenceManualEdit (gen_path f) currentHash (SHA256 f)
                    ''owned generated file was modified after its manifest was written'' st
                  else add_difference DifferenceStaleFile (gen_path f) currentHash (SHA256 f)
                    ''owned generated file is stale'' st))
     }"

definition inspect_prior_file ::
    "unicode_tables \<Rightarrow> gen_library \<Rightarrow> inspection \<Rightarrow> string \<times> string \<Rightarrow> inspection fallible" where
  "inspect_prior_file U L st own =
     (let (filePath, ownedHash) = own
      in if map_of (expected st) filePath \<noteq> None then ret (Inr st)
         else do {
           r \<leftarrow> readOptional U filePath;
           ret (case r of
             Inl e \<Rightarrow> Inl e
           | Inr None \<Rightarrow>
               Inr (add_difference DifferenceMissingOwnedFile filePath [] []
                 ''previously owned generated file is already absent'' st)
           | Inr (Some content) \<Rightarrow>
               let st = see_content filePath content st;
                   currentHash = hashContent L content
               in if currentHash \<noteq> ownedHash \<or>
                     requiresGeneratedMarker filePath \<and> \<not> hasGeneratedMarker content
                  then Inr (add_difference DifferenceManualEdit filePath currentHash []
                    ''stale owned file changed and will not be removed'' st)
                  else Inr (add_difference DifferenceStaleOwnedFile filePath currentHash []
                    ''previously owned generated file is no longer expected'' st))
         })"

text \<open>A loop that stops at the first error.\<close>

fun each :: "('s \<Rightarrow> 'a \<Rightarrow> 's fallible) \<Rightarrow> 's \<Rightarrow> 'a list \<Rightarrow> 's fallible" where
  "each f st [] = ret (Inr st)"
| "each f st (x # xs) =
     do {
       r \<leftarrow> f st x;
       case r of Inl e \<Rightarrow> ret (Inl e) | Inr st \<Rightarrow> each f st xs
     }"

definition inspectPriorFiles ::
    "unicode_tables \<Rightarrow> gen_library \<Rightarrow> inspection \<Rightarrow> inspection fallible" where
  "inspectPriorFiles U L st = each (inspect_prior_file U L) st (owned st)"

section \<open>Generated files nobody owns\<close>

definition inspectUnexpectedGeneratedEntry ::
    "unicode_tables \<Rightarrow> gen_library \<Rightarrow> string \<Rightarrow> node \<Rightarrow> inspection \<Rightarrow> inspection fallible" where
  "inspectUnexpectedGeneratedEntry U L filePath entry st =
     (if is_link entry
      then ret (Inl (errors_New
        (''generated output path '' @ quote U filePath @ '' is a symbolic link'')))
      else if entry = Directory \<or> path_ext filePath \<noteq> ''.go'' then ret (Inr st)
      else if map_of (expected st) filePath \<noteq> None then ret (Inr st)
      else if map_of (owned st) filePath \<noteq> None then ret (Inr st)
      else do {
        r \<leftarrow> read_file filePath;
        ret (case r of
          Inl e \<Rightarrow> Inl e
        | Inr content \<Rightarrow>
            if \<not> hasGeneratedMarker content then Inr st
            else Inr (add_difference DifferenceUnexpectedGenerated filePath
              (hashContent L content) [] ''generated marker exists without manifest ownership''
              (see_content filePath content st)))
      })"

text \<open>One visit of \<open>fs.WalkDir\<close>: the callback, then \<open>ReadDir\<close> of a directory.\<close>

definition walk_visit ::
    "unicode_tables \<Rightarrow> gen_library \<Rightarrow> string \<Rightarrow> phys \<Rightarrow> inspection \<Rightarrow> phys \<Rightarrow> inspection fallible" where
  "walk_visit U L outputDir q st k =
     do {
       w \<leftarrow> State_Monad.get;
       case node_at (nodes w) k of
         None \<Rightarrow> ret (Inr st)
       | Some n \<Rightarrow> do {
           r \<leftarrow> inspectUnexpectedGeneratedEntry U L
                 (foldl path_join outputDir (drop (length q) k)) n st;
           case r of
             Inl e \<Rightarrow> ret (Inl e)
           | Inr st \<Rightarrow>
               if n = Directory
               then do {
                 listed \<leftarrow> may_fail;
                 ret (case listed of Inl e \<Rightarrow> Inl e | Inr _ \<Rightarrow> Inr st)
               }
               else ret (Inr st)
         }
     }"

definition walk_output ::
    "unicode_tables \<Rightarrow> gen_library \<Rightarrow> string \<Rightarrow> inspection \<Rightarrow> inspection fallible" where
  "walk_output U L outputDir st =
     do {
       info \<leftarrow> stat outputDir;
       case info of
         Inl e \<Rightarrow> ret (Inl e)
       | Inr n \<Rightarrow> do {
           w \<leftarrow> State_Monad.get;
           case located (nodes w) True outputDir of
             Inl e \<Rightarrow> ret (Inl (path_error ''openat'' outputDir e))
           | Inr q \<Rightarrow> each (walk_visit U L outputDir q) st (q # descendants (nodes w) q)
         }
     }"

definition inspectUnexpectedGeneratedOutput ::
    "unicode_tables \<Rightarrow> gen_library \<Rightarrow> string \<Rightarrow> inspection \<Rightarrow> inspection fallible" where
  "inspectUnexpectedGeneratedOutput U L outputDir st =
     do {
       info \<leftarrow> lstat outputDir;
       case info of
         Inl e \<Rightarrow>
           if errors_Is (Some e) ErrNotExist then ret (Inr st)
           else ret (Inl (wrap_error
             (''inspect generated output directory '' @ quote U outputDir @ '': '') e))
       | Inr n \<Rightarrow>
           if is_link n
           then ret (Inl (errors_New
             (''generated output directory '' @ quote U outputDir @ '' is a symbolic link'')))
           else if n \<noteq> Directory
           then ret (Inl (errors_New
             (''generated output directory '' @ quote U outputDir @ '' is not a directory'')))
           else walk_output U L outputDir st
     }"

definition inspect_child ::
    "unicode_tables \<Rightarrow> gen_library \<Rightarrow> string \<Rightarrow> inspection \<Rightarrow> phys \<Rightarrow> inspection fallible" where
  "inspect_child U L directory st k =
     do {
       w \<leftarrow> State_Monad.get;
       case node_at (nodes w) k of
         None \<Rightarrow> ret (Inr st)
       | Some n \<Rightarrow> inspectUnexpectedGeneratedEntry U L (path_join directory (last k)) n st
     }"

definition inspectUnexpectedGeneratedDirectory ::
    "unicode_tables \<Rightarrow> gen_library \<Rightarrow> string \<Rightarrow> inspection \<Rightarrow> inspection fallible" where
  "inspectUnexpectedGeneratedDirectory U L directory st =
     do {
       entries \<leftarrow> read_dir directory;
       case entries of
         Inl e \<Rightarrow> if errors_Is (Some e) ErrNotExist then ret (Inr st) else ret (Inl e)
       | Inr ks \<Rightarrow> each (inspect_child U L directory) st ks
     }"

definition shard_directory :: "string \<Rightarrow> string \<Rightarrow> gen_file \<Rightarrow> string option" where
  "shard_directory bridgeDir outputDir f =
     (if Role f \<noteq> FileRoleSourceShard then None
      else let directory = path_dir (gen_path f)
           in if directory = bridgeDir \<or> directory = outputDir \<or>
                 has_prefix directory (outputDir @ ''/'')
              then None else Some directory)"

definition sourceShardDirectories :: "plan \<Rightarrow> string \<Rightarrow> string \<Rightarrow> string list" where
  "sourceShardDirectories p bridgeDir outputDir =
     sort (remdups (List.map_filter (shard_directory bridgeDir outputDir) (Files p)))"

definition wrap_result :: "string \<Rightarrow> 'a fallible \<Rightarrow> 'a fallible" where
  "wrap_result prefix m =
     do { r \<leftarrow> m; ret (case r of Inl e \<Rightarrow> Inl (wrap_error prefix e) | Inr x \<Rightarrow> Inr x) }"

definition inspect_shard ::
    "unicode_tables \<Rightarrow> gen_library \<Rightarrow> inspection \<Rightarrow> string \<Rightarrow> inspection fallible" where
  "inspect_shard U L st directory =
     wrap_result (''inspect generated source-shard directory '' @ quote U directory @ '': '')
       (inspectUnexpectedGeneratedDirectory U L directory st)"

definition inspectUnexpectedGenerated ::
    "unicode_tables \<Rightarrow> gen_library \<Rightarrow> plan \<Rightarrow> inspection \<Rightarrow> inspection fallible" where
  "inspectUnexpectedGenerated U L p st =
     (let outputDir = OutputDir (Target p); bridgeDir = BridgeDir (Target p)
      in do {
        r \<leftarrow> inspectUnexpectedGeneratedOutput U L outputDir st;
        case r of
          Inl e \<Rightarrow> ret (Inl e)
        | Inr st \<Rightarrow> do {
            r \<leftarrow> (if bridgeDir \<noteq> []
                 then wrap_result
                   (''inspect generated entrypoint directory '' @ quote U bridgeDir @ '': '')
                   (inspectUnexpectedGeneratedDirectory U L bridgeDir st)
                 else ret (Inr st));
            case r of
              Inl e \<Rightarrow> ret (Inl e)
            | Inr st \<Rightarrow> each (inspect_shard U L) st (sourceShardDirectories p bridgeDir outputDir)
          }
      })"

section \<open>Inspection\<close>

definition expect_file :: "unicode_tables \<Rightarrow> inspection \<Rightarrow> gen_file \<Rightarrow> inspection fallible" where
  "expect_file U st f =
     do {
       r \<leftarrow> rejectSymlinkComponents U (gen_path f);
       ret (case r of
              Inl e \<Rightarrow> Inl e
            | Inr _ \<Rightarrow> Inr (expect_content (gen_path f) (Content f) (SHA256 f) st))
     }"

definition inspect_manifest ::
    "unicode_tables \<Rightarrow> gen_library \<Rightarrow> plan \<Rightarrow> apply_options \<Rightarrow> inspection \<Rightarrow> inspection fallible" where
  "inspect_manifest U L p options st =
     (let manifestPath = ManifestPath (Target p)
      in do {
        r \<leftarrow> readOptional U manifestPath;
        ret (case r of
          Inl e \<Rightarrow> Inl e
        | Inr None \<Rightarrow>
            Inr (add_difference DifferenceMissingManifest manifestPath [] []
              ''ownership manifest is missing'' st)
        | Inr (Some content) \<Rightarrow>
            (case decodeManifest U L content p options of
               Inl e \<Rightarrow> Inl (errors_New e)
             | Inr m \<Rightarrow>
                 Inr ((see_content manifestPath content st)
                   \<lparr>prior := Some m,
                    owned := fold (\<lambda>f. AList.update (own_path f) (own_sha256 f)) (manifest_files m)
                               (owned st)\<rparr>)))
      })"

definition stale_manifest :: "gen_library \<Rightarrow> plan \<Rightarrow> inspection \<Rightarrow> inspection" where
  "stale_manifest L p st =
     (let manifestPath = ManifestPath (Target p)
      in case map_of (current st) manifestPath of
           None \<Rightarrow> st
         | Some content \<Rightarrow>
             if content = ManifestContent p then st
             else add_difference DifferenceStaleManifest manifestPath (hashContent L content)
               (hashContent L (ManifestContent p))
               ''ownership manifest differs from the rendered plan'' st)"

definition finish_inspection :: "inspection \<Rightarrow> inspection" where
  "finish_inspection st =
     (let ds = sortDifferences (differences st)
      in st\<lparr>insp_status := \<lparr>Current = (ds = []), Differences = ds\<rparr>\<rparr>)"

definition inspect_prior ::
    "unicode_tables \<Rightarrow> gen_library \<Rightarrow> plan \<Rightarrow> inspection \<Rightarrow> inspection fallible" where
  "inspect_prior U L p st =
     (case prior st of
        None \<Rightarrow> ret (Inr st)
      | Some m \<Rightarrow> do {
          r \<leftarrow> inspectPriorFiles U L st;
          ret (case r of Inl e \<Rightarrow> Inl e | Inr st \<Rightarrow> Inr (stale_manifest L p st))
        })"

definition inspect_unexpected ::
    "unicode_tables \<Rightarrow> gen_library \<Rightarrow> plan \<Rightarrow> inspection \<Rightarrow> inspection fallible" where
  "inspect_unexpected U L p st =
     do {
       r \<leftarrow> inspectUnexpectedGenerated U L p st;
       ret (case r of Inl e \<Rightarrow> Inl e | Inr st \<Rightarrow> Inr (finish_inspection st))
     }"

definition inspect_existing ::
    "unicode_tables \<Rightarrow> gen_library \<Rightarrow> plan \<Rightarrow> inspection \<Rightarrow> inspection fallible" where
  "inspect_existing U L p st =
     do {
       r \<leftarrow> inspect_prior U L p st;
       case r of Inl e \<Rightarrow> ret (Inl e) | Inr st \<Rightarrow> inspect_unexpected U L p st
     }"

definition inspect_contents ::
    "unicode_tables \<Rightarrow> gen_library \<Rightarrow> plan \<Rightarrow> inspection \<Rightarrow> inspection fallible" where
  "inspect_contents U L p st =
     do {
       r \<leftarrow> each (inspectExpectedFile U L) st (Files p);
       case r of Inl e \<Rightarrow> ret (Inl e) | Inr st \<Rightarrow> inspect_existing U L p st
     }"

definition inspect_owned ::
    "unicode_tables \<Rightarrow> gen_library \<Rightarrow> plan \<Rightarrow> apply_options \<Rightarrow> inspection \<Rightarrow> inspection fallible" where
  "inspect_owned U L p options st =
     do {
       r \<leftarrow> inspect_manifest U L p options
            (expect_content (ManifestPath (Target p)) (ManifestContent p)
              (hashContent L (ManifestContent p)) st);
       case r of Inl e \<Rightarrow> ret (Inl e) | Inr st \<Rightarrow> inspect_contents U L p st
     }"

definition inspect_below ::
    "unicode_tables \<Rightarrow> gen_library \<Rightarrow> plan \<Rightarrow> apply_options \<Rightarrow> inspection \<Rightarrow> inspection fallible" where
  "inspect_below U L p options st =
     do {
       r \<leftarrow> rejectSymlinkComponents U (ManifestPath (Target p));
       case r of Inl e \<Rightarrow> ret (Inl e) | Inr _ \<Rightarrow> inspect_owned U L p options st
     }"

definition inspect ::
    "unicode_tables \<Rightarrow> gen_library \<Rightarrow> plan \<Rightarrow> apply_options \<Rightarrow> inspection fallible" where
  "inspect U L p options =
     do {
       r \<leftarrow> each (expect_file U) empty_inspection (Files p);
       case r of Inl e \<Rightarrow> ret (Inl e) | Inr st \<Rightarrow> inspect_below U L p options st
     }"

end
