(* ===== verification/Gen_Apply.thy ===== *)
theory Gen_Apply
  imports Gen_Inspect
begin

text \<open>
  \<open>Check\<close> and \<open>ApplyWithOptions\<close> of \<open>src/internal/genfs/genfs.go\<close>: the guarded application of
  a plan under the lock of its target, files first, then removals, the manifest last.
\<close>

record gen_result =
  Written :: "string list"
  Removed :: "string list"
  ManifestUpdated :: bool

definition empty_result :: gen_result where
  "empty_result = \<lparr>Written = [], Removed = [], ManifestUpdated = False\<rparr>"

definition Changed :: "gen_result \<Rightarrow> bool" where
  "Changed r = (Written r \<noteq> [] \<or> Removed r \<noteq> [] \<or> ManifestUpdated r)"

text \<open>\<open>ConflictError.Error\<close>.\<close>

definition conflict_text :: "difference list \<Rightarrow> string" where
  "conflict_text ds =
     (if ds = [] then ''generated output conflicts with unowned or manually edited files''
      else ''generated output conflicts with protected files'' @
           concat (map (\<lambda>d. [newline] @ ''- '' @ diff_path d @ '': '' @ diff_message d) ds))"

definition lookup_bytes :: "(string \<times> string) list \<Rightarrow> string \<Rightarrow> string" where
  "lookup_bytes m k = (case map_of m k of None \<Rightarrow> [] | Some v \<Rightarrow> v)"

definition write_file ::
    "unicode_tables \<Rightarrow> gen_library \<Rightarrow> inspection \<Rightarrow> string list \<Rightarrow> gen_file \<Rightarrow> string list fallible" where
  "write_file U L st written f =
     (if lookup_bytes (current st) (gen_path f) = Content f then ret (Inr written)
      else do {
        r \<leftarrow> replaceFile U L (gen_path f) (Content f) (gen_mode f) (path_ext (gen_path f) = ''.go'');
        ret (case r of
               Inl e \<Rightarrow> Inl (wrap_error (''write generated file '' @ quote U (gen_path f) @ '': '') e)
             | Inr _ \<Rightarrow> Inr (written @ [gen_path f]))
      })"

definition remove_stale ::
    "unicode_tables \<Rightarrow> gen_library \<Rightarrow> inspection \<Rightarrow> string list \<Rightarrow> difference \<Rightarrow> string list fallible" where
  "remove_stale U L st removed d =
     (if diff_kind d \<noteq> DifferenceStaleOwnedFile then ret (Inr removed)
      else do {
        r \<leftarrow> removeOwnedFile U L (diff_path d) (lookup_bytes (owned st) (diff_path d));
        ret (case r of Inl e \<Rightarrow> Inl e | Inr _ \<Rightarrow> Inr (removed @ [diff_path d]))
      })"

definition write_manifest :: "unicode_tables \<Rightarrow> gen_library \<Rightarrow> plan \<Rightarrow> inspection \<Rightarrow> bool fallible" where
  "write_manifest U L p st =
     (let manifestPath = ManifestPath (Target p)
      in if lookup_bytes (current st) manifestPath = ManifestContent p then ret (Inr False)
         else do {
           r \<leftarrow> replaceFile U L manifestPath (ManifestContent p) 420 False;
           ret (case r of
                  Inl e \<Rightarrow> Inl (wrap_error
                    (''write generation manifest '' @ quote U manifestPath @ '': '') e)
                | Inr _ \<Rightarrow> Inr True)
         })"

definition finish_changes ::
    "unicode_tables \<Rightarrow> gen_library \<Rightarrow> plan \<Rightarrow> inspection \<Rightarrow> string list \<Rightarrow> string list
       \<Rightarrow> gen_result fallible" where
  "finish_changes U L p st written removed =
     do {
       m \<leftarrow> write_manifest U L p st;
       ret (case m of
              Inl e \<Rightarrow> Inl e
            | Inr updated \<Rightarrow>
                Inr \<lparr>Written = sort written, Removed = sort removed, ManifestUpdated = updated\<rparr>)
     }"

definition remove_and_finish ::
    "unicode_tables \<Rightarrow> gen_library \<Rightarrow> plan \<Rightarrow> inspection \<Rightarrow> string list \<Rightarrow> gen_result fallible" where
  "remove_and_finish U L p st written =
     do {
       r \<leftarrow> each (remove_stale U L st) [] (differences st);
       case r of Inl e \<Rightarrow> ret (Inl e) | Inr removed \<Rightarrow> finish_changes U L p st written removed
     }"

definition apply_changes ::
    "unicode_tables \<Rightarrow> gen_library \<Rightarrow> plan \<Rightarrow> inspection \<Rightarrow> gen_result fallible" where
  "apply_changes U L p st =
     do {
       w \<leftarrow> each (write_file U L st) [] (Files p);
       case w of Inl e \<Rightarrow> ret (Inl e) | Inr written \<Rightarrow> remove_and_finish U L p st written
     }"

definition apply_locked ::
    "unicode_tables \<Rightarrow> gen_library \<Rightarrow> plan \<Rightarrow> apply_options \<Rightarrow> gen_result fallible" where
  "apply_locked U L p options =
     do {
       r \<leftarrow> inspect U L p options;
       case r of
         Inl e \<Rightarrow> ret (Inl e)
       | Inr st \<Rightarrow>
           (let conflicts = protectedDifferences (differences st)
            in if conflicts \<noteq> [] then ret (Inl (errors_New (conflict_text conflicts)))
               else apply_changes U L p st)
     }"

text \<open>The result with the errors that the deferred calls join to it.\<close>

definition joined :: "gen_result fallible \<Rightarrow> unit fallible \<Rightarrow> (gen_result \<times> go_error option) io" where
  "joined m last_call =
     do {
       r \<leftarrow> m;
       l \<leftarrow> last_call;
       c \<leftarrow> may_fail;
       ret (case r of Inl e \<Rightarrow> empty_result | Inr x \<Rightarrow> x,
            errors_Join [errors_Join [error_of r, error_of l], error_of c])
     }"

definition ApplyWithOptions ::
    "unicode_tables \<Rightarrow> gen_library \<Rightarrow> plan \<Rightarrow> apply_options \<Rightarrow> (gen_result \<times> go_error option) io" where
  "ApplyWithOptions U L p options =
     (case validatePlan U L p of
        Some e \<Rightarrow> ret (empty_result, Some (errors_New e))
      | None \<Rightarrow>
          (case validateApplyOptions U (Target p) options of
             Some e \<Rightarrow> ret (empty_result, Some (errors_New e))
           | None \<Rightarrow> do {
               opened \<leftarrow> may_fail;
               case opened of
                 Inl e \<Rightarrow> ret (empty_result, Some (wrap_error ''open generation module root: '' e))
               | Inr _ \<Rightarrow> do {
                   locked \<leftarrow> acquireLock U L p;
                   case locked of
                     Inl e \<Rightarrow> joined (ret (Inl e)) (ret (Inr ()))
                   | Inr _ \<Rightarrow> joined (apply_locked U L p options) (releaseLock U p)
                 }
             }))"

definition Apply ::
    "unicode_tables \<Rightarrow> gen_library \<Rightarrow> plan \<Rightarrow> (gen_result \<times> go_error option) io" where
  "Apply U L p = ApplyWithOptions U L p no_options"

text \<open>\<open>Check\<close>; the same frame reads the module for \<open>Diff\<close>.\<close>

definition inspect_module :: "unicode_tables \<Rightarrow> gen_library \<Rightarrow> plan \<Rightarrow> inspection fallible" where
  "inspect_module U L p =
     (case validatePlan U L p of
        Some e \<Rightarrow> ret (Inl (errors_New e))
      | None \<Rightarrow> do {
          opened \<leftarrow> may_fail;
          case opened of
            Inl e \<Rightarrow> ret (Inl (wrap_error ''open generation module root: '' e))
          | Inr _ \<Rightarrow> do {
              st \<leftarrow> inspect U L p no_options;
              closed \<leftarrow> may_fail;
              ret (case errors_Join [error_of st, error_of closed] of
                     Some e \<Rightarrow> Inl e
                   | None \<Rightarrow> st)
            }
        })"

definition Check :: "unicode_tables \<Rightarrow> gen_library \<Rightarrow> plan \<Rightarrow> status fallible" where
  "Check U L p =
     do {
       r \<leftarrow> inspect_module U L p;
       ret (case r of Inl e \<Rightarrow> Inl e | Inr st \<Rightarrow> Inr (insp_status st))
     }"

end
