(* ===== verification/Gen_Frame.thy ===== *)
theory Gen_Frame
  imports Gen_Files "HOL-Library.Sublist"
begin

text \<open>
  What the file operations leave alone.  \<open>evolves T S D\<close> relates the trees before and after:
  nodes outside \<open>T\<close> are unchanged, new regular files lie in \<open>S\<close>, new directories are ancestors
  of paths in \<open>D\<close>, and nothing else appears.
\<close>

section \<open>Locations of plain paths\<close>

definition no_links :: "tree \<Rightarrow> phys \<Rightarrow> bool" where
  "no_links N ps = (\<forall>i t. node_at N (take i ps) \<noteq> Some (Symlink t))"

definition wf_tree :: "tree \<Rightarrow> bool" where
  "wf_tree N = (\<forall>q n. q \<noteq> [] \<longrightarrow> node_at N q = Some n \<longrightarrow> node_at N (butlast q) = Some Directory)"

lemma no_linksD: "no_links N ps \<Longrightarrow> prefix q ps \<Longrightarrow> node_at N q \<noteq> Some (Symlink t)"
  by (metis append_eq_conv_conj no_links_def prefix_def)

lemma no_links_prefix: "no_links N ps \<Longrightarrow> prefix q ps \<Longrightarrow> no_links N q"
  by (metis no_links_def no_linksD prefix_order.order_trans take_is_prefix)

lemma resolve_plain:
  assumes "plain_parts (ps @ [c])"
    and "\<And>i t. node_at N (dir @ take i ps) \<noteq> Some (Symlink t)"
    and "follow \<Longrightarrow> \<forall>t. node_at N (dir @ ps @ [c]) \<noteq> Some (Symlink t)"
    and "resolve N follow links dir (ps @ [c]) = Inr q"
  shows "q = dir @ ps @ [c]"
  using assms
proof (induction ps arbitrary: dir)
  case Nil
  then show ?case
    by (auto simp: plain_part_def split: option.splits node.splits if_splits)
next
  case (Cons p ps)
  have "node_at N (dir @ [p]) \<noteq> Some (Symlink t)" for t using Cons.prems(2) [of "Suc 0"] by simp
  then have "resolve N follow links (dir @ [p]) (ps @ [c]) = Inr q"
    using Cons.prems(1,4) by (auto simp: plain_part_def split: option.splits node.splits if_splits)
  moreover have "node_at N ((dir @ [p]) @ take i ps) \<noteq> Some (Symlink t)" for i t
    using Cons.prems(2) [of "Suc i"] by simp
  ultimately show ?case using Cons.IH [of "dir @ [p]"] Cons.prems(1,3) by simp
qed

lemma located_in:
  assumes "plain_parts (ps @ [c])" "no_links N ps"
    and "located N False (name_of (ps @ [c])) = Inr q"
  shows "q = ps @ [c]"
  using resolve_plain [of ps c N "[]" False 8 q] assms by (simp add: located_def no_links_def)

lemma located_follow:
  assumes "plain_parts (ps @ [c])" "no_links N (ps @ [c])"
    and "located N True (name_of (ps @ [c])) = Inr q"
  shows "q = ps @ [c]"
proof -
  have "no_links N ps" using assms(2) no_links_prefix by fastforce
  moreover have "node_at N (ps @ [c]) \<noteq> Some (Symlink t)" for t
    using no_linksD [OF assms(2)] by simp
  ultimately show ?thesis
    using resolve_plain [of ps c N "[]" True 8 q] assms by (simp add: located_def no_links_def)
qed

lemma wf_prefix:
  assumes "wf_tree N" "node_at N q = Some n" "strict_prefix r q"
  shows "node_at N r = Some Directory"
  using assms(2,3)
proof (induction q arbitrary: n rule: rev_induct)
  case (snoc c q)
  have "node_at N q = Some Directory"
    using assms(1) snoc.prems(1) by (auto simp: wf_tree_def dest!: spec [of _ "q @ [c]"])
  then show ?case using snoc by (auto simp: strict_prefix_def prefix_snoc)
qed simp

lemma resolve_dirs:
  assumes "plain_parts (ps @ [c])" "\<And>i. node_at N (dir @ take i ps) = Some Directory"
    and "follow \<Longrightarrow> \<forall>t. node_at N (dir @ ps @ [c]) \<noteq> Some (Symlink t)"
  shows "resolve N follow links dir (ps @ [c]) = Inr (dir @ ps @ [c])"
  using assms
proof (induction ps arbitrary: dir)
  case Nil
  then show ?case by (auto simp: plain_part_def split: option.splits node.splits)
next
  case (Cons p ps)
  have "node_at N (dir @ [p]) = Some Directory" using Cons.prems(2) [of "Suc 0"] by simp
  moreover have "node_at N ((dir @ [p]) @ take i ps) = Some Directory" for i
    using Cons.prems(2) [of "Suc i"] by simp
  ultimately show ?case
    using Cons.IH [of "dir @ [p]"] Cons.prems(1,3) by (auto simp: plain_part_def)
qed

lemma located_dirs:
  assumes "plain_parts ps" "ps \<noteq> []" "\<And>r. strict_prefix r ps \<Longrightarrow> node_at N r = Some Directory"
    and "follow \<Longrightarrow> \<forall>t. node_at N ps \<noteq> Some (Symlink t)"
  shows "located N follow (name_of ps) = Inr ps"
proof -
  obtain qs c where ps: "ps = qs @ [c]" using assms(2) by (cases ps rule: rev_cases) auto
  have "node_at N (take i qs) = Some Directory" for i
    by (rule assms(3)) (simp add: ps strict_prefix_def take_is_prefix prefix_snoc,
        metis append_take_drop_id append.assoc append_self_conv not_Cons_self2 append_is_Nil_conv)
  then show ?thesis
    using resolve_dirs [of qs c N "[]" follow 8] assms ps by (simp add: located_def)
qed

section \<open>Evolution\<close>

definition evolves :: "phys set \<Rightarrow> phys set \<Rightarrow> phys set \<Rightarrow> tree \<Rightarrow> tree \<Rightarrow> bool" where
  "evolves T S D N N' =
     ((\<forall>q n. q \<notin> T \<longrightarrow> node_at N q = Some n \<longrightarrow> node_at N' q = Some n) \<and>
      (\<forall>q n. node_at N' q = Some n \<longrightarrow> node_at N q = Some n \<or>
         (n = Directory \<and> (\<exists>d\<in>D. strict_prefix q d)) \<or> (is_regular n \<and> q \<in> S)))"

lemma evolves_kept: "evolves T S D N N' \<Longrightarrow> q \<notin> T \<Longrightarrow> node_at N q = Some n \<Longrightarrow> node_at N' q = Some n"
  by (auto simp: evolves_def)

lemma evolves_new:
  "evolves T S D N N' \<Longrightarrow> node_at N' q = Some n \<Longrightarrow>
     node_at N q = Some n \<or> (n = Directory \<and> (\<exists>d\<in>D. strict_prefix q d)) \<or> (is_regular n \<and> q \<in> S)"
  by (auto simp: evolves_def)

lemma evolves_refl [simp, intro]: "evolves T S D N N"
  by (auto simp: evolves_def)

lemma evolves_mono:
  "evolves T S D N N' \<Longrightarrow> T \<subseteq> T' \<Longrightarrow> S \<subseteq> S' \<Longrightarrow> D \<subseteq> D' \<Longrightarrow> evolves T' S' D' N N'"
  unfolding evolves_def by (meson subset_iff)

lemma evolves_trans:
  assumes "evolves T S D N N'" "evolves T S D N' N''"
  shows "evolves T S D N N''"
  using assms unfolding evolves_def by meson

text \<open>What is touched later but did not exist before need not be mentioned.\<close>

lemma evolves_fresh:
  assumes "evolves T S D N N'" "node_at N h = None"
    and "evolves (insert h T) S' D N' N''" "S' \<subseteq> insert h S"
    and "\<And>n. node_at N'' h = Some n \<Longrightarrow> h \<in> S \<or> node_at N' h = Some n"
  shows "evolves T S D N N''"
  unfolding evolves_def
proof (intro conjI allI impI)
  fix q n assume "q \<notin> T" "node_at N q = Some n"
  then show "node_at N'' q = Some n"
    using assms(2) evolves_kept [OF assms(1)] evolves_kept [OF assms(3)] by (cases "q = h") auto
next
  fix q n assume n: "node_at N'' q = Some n"
  have "node_at N' q = Some n \<or> (n = Directory \<and> (\<exists>d\<in>D. strict_prefix q d)) \<or>
      (is_regular n \<and> q \<in> S)"
    using evolves_new [OF assms(3) n] assms(4,5) n by auto
  then show "node_at N q = Some n \<or> (n = Directory \<and> (\<exists>d\<in>D. strict_prefix q d)) \<or>
      (is_regular n \<and> q \<in> S)"
    using evolves_new [OF assms(1)] by blast
qed

lemma evolves_mkdir:
  "node_at N q = None \<Longrightarrow> d \<in> D \<Longrightarrow> strict_prefix q d \<Longrightarrow> evolves T S D N (AList.update q Directory N)"
  by (auto simp: evolves_def)

lemma evolves_put:
  "q \<in> T \<or> node_at N q = None \<Longrightarrow> q \<in> S \<Longrightarrow> is_regular n \<Longrightarrow> evolves T S D N (AList.update q n N)"
  by (auto simp: evolves_def)

lemma evolves_drop: "q \<in> T \<Longrightarrow> evolves T S D N (AList.delete q N)"
  by (auto simp: evolves_def split: if_splits)

lemma evolves_no_links: "evolves T S D N N' \<Longrightarrow> no_links N ps \<Longrightarrow> no_links N' ps"
  by (force simp: no_links_def dest: evolves_new)

section \<open>Trees without orphans\<close>

lemma wf_update:
  assumes "wf_tree N" "node_at N (butlast q) = Some Directory" "node_at N q \<noteq> Some Directory"
  shows "wf_tree (AList.update q n N)"
proof -
  have "q \<noteq> []" using assms(3) by auto
  then have "butlast q \<noteq> q" by (metis append_butlast_last_id not_Cons_self2 self_append_conv)
  then show ?thesis
    using assms \<open>q \<noteq> []\<close> unfolding wf_tree_def by (auto split: if_splits)
qed

lemma resolve_parent:
  "wf_tree N \<Longrightarrow> node_at N dir = Some Directory \<Longrightarrow> resolve N follow links dir ps = Inr q \<Longrightarrow>
     node_at N q \<noteq> Some Directory \<Longrightarrow> node_at N (butlast q) = Some Directory"
proof (induction N follow links dir ps rule: resolve.induct)
  case (2 N follow links dir c rest)
  have up: "node_at N (butlast dir) = Some Directory" if "dir \<noteq> []"
    using "2.prems"(1,2) that by (simp add: wf_tree_def)
  show ?case
  proof (cases "c = [] \<or> c = ''.'' \<or> c = ''..''")
    case True
    then show ?thesis using 2 up by (elim disjE) (simp_all split: if_splits)
  next
    case False
    show ?thesis
    proof (cases "node_at N (dir @ [c])")
      case (Some n)
      then show ?thesis using 2 False by (cases n) (auto split: if_splits)
    qed (use 2 False in \<open>auto split: if_splits\<close>)
  qed
qed simp

lemma located_parent:
  "wf_tree N \<Longrightarrow> located N follow p = Inr q \<Longrightarrow> node_at N q = None \<Longrightarrow>
     node_at N (butlast q) = Some Directory"
  using resolve_parent [of N "[]"] by (simp add: located_def)

section \<open>Directories\<close>

lemma path_join_pre:
  "plain_parts (pre @ part # parts) \<Longrightarrow> path_join (name_of pre) part = name_of (pre @ [part])"
  by (simp add: path_join_name)

lemma no_links_delete [simp]: "no_links N ps \<Longrightarrow> no_links (AList.delete q N) ps"
  by (auto simp: no_links_def)

lemma no_links_update [simp]: "no_links N ps \<Longrightarrow> \<not> is_link n \<Longrightarrow> no_links (AList.update q n N) ps"
  by (auto simp: no_links_def)

lemma no_links_snoc:
  "no_links N (ps @ [c]) \<longleftrightarrow> no_links N ps \<and> (\<forall>t. node_at N (ps @ [c]) \<noteq> Some (Symlink t))"
  unfolding no_links_def
  by (auto simp: take_Cons' split: if_splits) (metis append.right_neutral take_all_iff take_append
      append_Nil2 nat_le_linear take_all diff_is_0_eq take0 length_append_singleton)+

text \<open>When directories are ensured, no link lies on the way to them.\<close>

definition ensured :: "phys set \<Rightarrow> phys \<Rightarrow> tree \<Rightarrow> go_error + unit \<Rightarrow> world \<Rightarrow> bool" where
  "ensured D ps N r w' =
     (evolves {} {} D N (nodes w') \<and> (wf_tree N \<longrightarrow> wf_tree (nodes w')) \<and>
      (r = Inr () \<longrightarrow> no_links (nodes w') ps))"

lemma ensured_trans:
  "ensured D ps' N r' w' \<Longrightarrow> ensured D ps (nodes w') r w'' \<Longrightarrow> ensured D ps N r w''"
  by (auto simp: ensured_def intro: evolves_trans)

lemma ensure_parts_ensured:
  assumes "plain_parts (pre @ parts)" "no_links (nodes w) pre"
    and "d \<in> D" "strict_prefix (pre @ parts) d"
  shows "wp (ensure_parts U (name_of pre) parts) (ensured D (pre @ parts) (nodes w)) w"
  using assms
proof (induction parts arbitrary: pre w)
  case Nil
  then show ?case by (simp add: ensured_def)
next
  case (Cons part parts)
  let ?ps = "pre @ [part]" and ?all = "pre @ part # parts"
  have join: "path_join (name_of pre) part = name_of ?ps"
    using Cons.prems(1) by (rule path_join_pre)
  have at: "q = ?ps" if "located (nodes w) False (name_of ?ps) = Inr q" for q
    using located_in [OF _ _ that] Cons.prems(1,2) by simp
  have step: "wp (ensure_parts U (name_of ?ps) parts) (ensured D ?all (nodes w)) w'"
    if e: "ensured D ?ps (nodes w) (Inr ()) w'" for w'
  proof -
    have "wp (ensure_parts U (name_of ?ps) parts) (ensured D (?ps @ parts) (nodes w')) w'"
      by (rule Cons.IH) (use Cons.prems e in \<open>auto simp: ensured_def\<close>)
    then show ?thesis by (rule wp_mono) (use ensured_trans [OF e] in simp)
  qed
  have "strict_prefix ?ps d"
    using Cons.prems(4) by (auto simp: strict_prefix_def prefix_def)
  then have made: "ensured D ?ps (nodes w) (Inr ()) w'"
    if "located (nodes w) False (name_of ?ps) = Inr q" "node_at (nodes w) q = None"
      "nodes w' = AList.update q Directory (nodes w)" for q and w' :: world
    using at [OF that(1)] that(2,3) Cons.prems(2,3) located_parent [OF _ that(1,2)]
    by (auto simp: ensured_def no_links_snoc intro: evolves_mkdir wf_update)
  have found: "ensured D ?ps (nodes w) (Inr ()) w'"
    if "located (nodes w) False (name_of ?ps) = Inr q" "node_at (nodes w) q = Some n" "\<not> is_link n"
      "nodes w' = nodes w" for q n and w' :: world
    using at [OF that(1)] that(2-4) Cons.prems(2) by (auto simp: ensured_def no_links_snoc)
  have unchanged: "ensured D ps (nodes w) (Inl e) w'" if "nodes w' = nodes w" for ps e and w' :: world
    using that by (simp add: ensured_def)
  show ?case
    unfolding ensure_parts.simps Let_def join wp_bind
    by (rule wp_lstat)
      (auto intro!: wp_mkdir step unchanged intro: made found simp: absent_def split: sum.splits)
qed

lemma ensureDirectories_ensured:
  assumes "plain_parts (ps @ [c])" "ps @ [c] \<in> D"
  shows "wp (ensureDirectories U (path_dir (name_of (ps @ [c])))) (ensured D ps (nodes w)) w"
proof (cases "ps = []")
  case True
  then show ?thesis
    using assms path_dir_name [of "[]" c] by (simp add: ensureDirectories_def ensured_def no_links_def)
next
  case False
  then have "split_on slash (path_dir (name_of (ps @ [c]))) = ps"
    using assms(1) by (simp add: path_dir_name)
  moreover have "split_on slash ''.'' = [''.'']" "split_on slash [] = [[]]" by simp_all
  moreover have "[''.''] \<noteq> ps" "[[]] \<noteq> ps" using assms(1) by (auto simp: plain_part_def)
  ultimately have "ensureDirectories U (path_dir (name_of (ps @ [c]))) = ensure_parts U [] ps"
    unfolding ensureDirectories_def by (metis (no_types))
  then show ?thesis
    using ensure_parts_ensured [of "[]" ps w "ps @ [c]" D U] assms
    by (simp add: strict_prefix_def no_links_def)
qed

lemma ensureDirectories_evolves:
  assumes "plain_parts (ps @ [c])" "ps @ [c] \<in> D"
  shows "wp (ensureDirectories U (path_dir (name_of (ps @ [c]))))
    (\<lambda>r w'. evolves T S D (nodes w) (nodes w')) w"
  by (rule wp_mono [OF ensureDirectories_ensured [OF assms]])
    (auto simp: ensured_def elim: evolves_mono)

section \<open>Temporary files\<close>

lemma wp_read_entropy [wp_rules]:
  assumes "\<And>r w'. nodes w' = nodes w \<Longrightarrow> Q r w'"
  shows "wp read_entropy Q w"
  using assms by (auto simp: read_entropy_def split: list.splits)

lemma hex_digit_no_slash:
  assumes "0 \<le> n" "n < 16"
  shows "hex_digit n \<noteq> slash"
proof
  assume "hex_digit n = slash"
  then have "byte_of (hex_digit n) = 47" by simp
  then show False using assms by (auto simp: hex_digit_def byte_def split: if_splits)
qed

lemma hex_string_no_slash: "slash \<notin> set (hex_string s)"
proof -
  have "slash \<notin> set (hex2 n)" for n
    using hex_digit_no_slash [of "n mod 16"] hex_digit_no_slash [of "n div 16 mod 16"]
    by (auto simp: hex2_def)
  then show ?thesis by (auto simp: hex_string_def)
qed

lemma temporary_plain:
  assumes "slash \<notin> set base"
  shows "plain_part (''.'' @ base @ ''.spice-'' @ hex_string s)"
proof -
  have "length (''.'' @ base @ ''.spice-'' @ hex_string s) > 2" by simp
  then have "''.'' @ base @ ''.spice-'' @ hex_string s \<notin> {[], ''.'', ''..''}" by force
  then show ?thesis using assms hex_string_no_slash by (simp add: plain_part_def)
qed

lemma wp_create_temporary_try:
  assumes "plain_parts (ps @ [c])" "no_links (nodes w) ps" "slash \<notin> set base"
    and "\<And>e w'. nodes w' = nodes w \<Longrightarrow> Q (Inl e) w'"
    and "\<And>t w'. plain_part t \<Longrightarrow> length base < length t \<Longrightarrow> node_at (nodes w) (ps @ [t]) = None \<Longrightarrow>
      nodes w' = AList.update (ps @ [t]) (File [] 384) (nodes w) \<Longrightarrow>
      Q (Inr (name_of (ps @ [t]), ps @ [t])) w'"
  shows "wp (create_temporary_try k (path_dir (name_of (ps @ [c]))) base) Q w"
  using assms
proof (induction k arbitrary: w)
  case (Suc k)
  let ?t = "\<lambda>r. ''.'' @ base @ ''.spice-'' @ hex_string r"
  have plain: "plain_part (?t r)" for r by (rule temporary_plain [OF Suc.prems(3)])
  have join: "path_join (path_dir (name_of (ps @ [c]))) (?t r) = name_of (ps @ [?t r])" for r
    by (rule path_join_dir [OF Suc.prems(1) plain])
  have at: "q = ps @ [?t r]" if "located (nodes w) False (name_of (ps @ [?t r])) = Inr q" for q r
    using located_in [OF _ Suc.prems(2) that] Suc.prems(1) plain by simp
  have IH: "wp (create_temporary_try k (path_dir (name_of (ps @ [c]))) base) Q w'"
    if "nodes w' = nodes w" for w'
    using Suc.IH [of w'] Suc.prems that by simp
  have found: "Q (Inr (name_of (ps @ [?t r]), q)) w''"
    if "located (nodes w) False (name_of (ps @ [?t r])) = Inr q" "node_at (nodes w) q = None"
      "nodes w'' = AList.update q (File [] 384) (nodes w)" for q r w''
    using Suc.prems(5) [OF plain, of r w''] at [OF that(1)] that by simp
  show ?case
    unfolding create_temporary_try.simps wp_bind Let_def join
  proof (rule wp_read_entropy)
    fix r and w' :: world assume w': "nodes w' = nodes w"
    show "wp (case r of Inl e \<Rightarrow> ret (Inl (wrap_error ''create temporary name: '' e))
        | Inr random \<Rightarrow> State_Monad.bind (create_excl (name_of (ps @ [?t random])) 384)
            (\<lambda>x. case x of Inl e \<Rightarrow> if \<not> errors_Is (Some e) ErrExist then ret (Inl e)
                    else create_temporary_try k (path_dir (name_of (ps @ [c]))) base
               | Inr h \<Rightarrow> ret (Inr (name_of (ps @ [?t random]), h)))) Q w'"
    proof (cases r)
      case (Inr random)
      show ?thesis
        unfolding Inr sum.case wp_bind
        by (rule wp_create_excl) (use w' Suc.prems(4) IH found in auto)
    qed (use w' Suc.prems(4) in simp)
  qed
qed simp

lemma wp_createTemporary:
  assumes "plain_parts (ps @ [c])" "no_links (nodes w) ps" "slash \<notin> set base"
    and "\<And>e w'. nodes w' = nodes w \<Longrightarrow> Q (Inl e) w'"
    and "\<And>t w'. plain_part t \<Longrightarrow> length base < length t \<Longrightarrow> node_at (nodes w) (ps @ [t]) = None \<Longrightarrow>
      nodes w' = AList.update (ps @ [t]) (File [] 384) (nodes w) \<Longrightarrow>
      Q (Inr (name_of (ps @ [t]), ps @ [t])) w'"
  shows "wp (createTemporary (path_dir (name_of (ps @ [c]))) base) Q w"
  unfolding createTemporary_def using assms by (rule wp_create_temporary_try)

section \<open>Replacing a file\<close>

lemma is_regular_iff: "is_regular n \<longleftrightarrow> (\<exists>content mode. n = File content mode)"
  by (cases n) auto

text \<open>The three files of a replacement: the destination, the temporary file and the backup.\<close>

definition replaced ::
    "phys \<Rightarrow> phys set \<Rightarrow> string \<Rightarrow> int \<Rightarrow> tree \<Rightarrow> go_error + unit \<Rightarrow> world \<Rightarrow> bool" where
  "replaced d X content mode N r w' =
     (evolves (insert d X) (insert d X) {} N (nodes w') \<and>
      (r = Inr () \<longrightarrow> node_at (nodes w') d = Some (File content mode) \<and>
         (\<forall>q\<in>X. node_at (nodes w') q = None)))"

lemma wp_remove_in:
  assumes "plain_parts (ps @ [x])" "no_links (nodes w) ps"
    and "\<And>e w'. nodes w' = nodes w \<Longrightarrow>
      ErrNotExist \<in> set (error_chain e) \<longrightarrow> absent (nodes w) (name_of (ps @ [x])) \<Longrightarrow> Q (Inl e) w'"
    and "\<And>w'. nodes w' = AList.delete (ps @ [x]) (nodes w) \<Longrightarrow> Q (Inr ()) w'"
  shows "wp (remove (name_of (ps @ [x]))) Q w"
  by (rule wp_remove) (use assms located_in [OF assms(1,2)] in auto)

lemma wp_rename_in:
  assumes "plain_parts (ps @ [x])" "plain_parts (ps @ [y])" "no_links (nodes w) ps" "x \<noteq> y"
    and "node_at (nodes w) (ps @ [x]) = Some n" "is_regular n"
    and "\<And>e w'. nodes w' = nodes w \<Longrightarrow> Q (Inl e) w'"
    and "\<And>w'. nodes w' = AList.update (ps @ [y]) n (AList.delete (ps @ [x]) (nodes w)) \<Longrightarrow>
      Q (Inr ()) w'"
  shows "wp (rename (name_of (ps @ [x])) (name_of (ps @ [y]))) Q w"
  by (rule wp_rename)
    (use assms located_in [OF assms(1,3)] located_in [OF assms(2,3)] in \<open>auto simp: is_regular_iff\<close>)

lemma replace_existing_replaced:
  assumes plain: "plain_parts (ps @ [c])" "plain_parts (ps @ [t])" "plain_parts (ps @ [b])"
    and links: "no_links (nodes w) ps" and ne: "c \<noteq> t" "c \<noteq> b" "t \<noteq> b"
    and h: "node_at (nodes w) (ps @ [t]) = Some (File content mode)"
    and d: "node_at (nodes w) (ps @ [c]) = Some n" "is_regular n"
  shows "wp (replace_existing U (name_of (ps @ [t])) (name_of (ps @ [c])) (name_of (ps @ [b])))
    (replaced (ps @ [c]) {ps @ [t], ps @ [b]} content mode (nodes w)) w"
proof -
  let ?R = "replaced (ps @ [c]) {ps @ [t], ps @ [b]} content mode (nodes w)"
  let ?X = "{ps @ [c], ps @ [t], ps @ [b]}"
  let ?N1 = "AList.delete (ps @ [b]) (nodes w)"
  let ?N2 = "AList.update (ps @ [b]) n (AList.delete (ps @ [c]) ?N1)"
  let ?N3 = "AList.update (ps @ [c]) (File content mode) (AList.delete (ps @ [t]) ?N2)"
  let ?restored = "AList.update (ps @ [c]) n (AList.delete (ps @ [b]) ?N2)"
  have nl: "\<not> is_link n" using d(2) by (auto simp: is_regular_iff)
  have e1: "evolves ?X ?X {} (nodes w) ?N1" by (rule evolves_drop) simp
  have e2: "evolves ?X ?X {} (nodes w) ?N2"
    by (intro evolves_trans [OF e1] evolves_trans [OF evolves_drop evolves_put]) (use d in auto)
  have e3: "evolves ?X ?X {} (nodes w) ?N3"
    by (intro evolves_trans [OF e2] evolves_trans [OF evolves_drop evolves_put]) auto
  have e4: "evolves ?X ?X {} (nodes w) (AList.delete (ps @ [b]) ?N3)"
    by (rule evolves_trans [OF e3 evolves_drop]) simp
  have e5: "evolves ?X ?X {} (nodes w) ?restored"
    by (intro evolves_trans [OF e2] evolves_trans [OF evolves_drop evolves_put]) (use d in auto)
  have failed: "?R (Inl e) w'" if "evolves ?X ?X {} (nodes w) (nodes w')" for e and w' :: world
    using that by (simp add: replaced_def insert_commute)
  have dropped: "?R (Inr ()) w'" if "nodes w' = AList.delete (ps @ [b]) ?N3" for w' :: world
    using that e4 ne by (simp add: replaced_def insert_commute)
  have cleaned: "wp (drop_backup U (name_of (ps @ [b]))) ?R w'" if "nodes w' = ?N3" for w'
    unfolding drop_backup_def wp_bind
    by (rule wp_remove_in [OF plain(3)]) (use that links nl e3 failed dropped in auto)
  have restored: "wp (restore_backup (name_of (ps @ [b])) (name_of (ps @ [c])) e) ?R w'"
    if "nodes w' = ?N2" for w' e
    unfolding restore_backup_def wp_bind
    by (rule wp_rename_in [OF plain(3,1), of _ n]) (use that links nl ne d e2 e5 failed in auto)
  have moved: "wp (move_in U (name_of (ps @ [t])) (name_of (ps @ [c])) (name_of (ps @ [b]))) ?R w'"
    if "nodes w' = ?N2" for w'
    unfolding move_in_def wp_bind
    by (rule wp_rename_in [OF plain(2,1), of _ "File content mode"])
      (use that links nl ne h cleaned restored in auto)
  have saved: "wp (save_and_move U (name_of (ps @ [t])) (name_of (ps @ [c])) (name_of (ps @ [b])))
      ?R w'" if "nodes w' = ?N1" for w'
    unfolding save_and_move_def wp_bind
    by (rule wp_rename_in [OF plain(1,3), of _ n]) (use that links ne d e1 failed moved in auto)
  show ?thesis
    unfolding replace_existing_def wp_bind
    by (rule wp_remove_in [OF plain(3) links]) (use saved failed in auto)
qed

definition swapped ::
    "phys \<Rightarrow> phys \<Rightarrow> string \<Rightarrow> int \<Rightarrow> tree \<Rightarrow> go_error + unit \<Rightarrow> world \<Rightarrow> bool" where
  "swapped d h content mode N r w' =
     (case r of
        Inl e \<Rightarrow> evolves {d, h} UNIV {} N (nodes w')
      | Inr _ \<Rightarrow> evolves {d, h} {d, h} {} N (nodes w') \<and>
          node_at (nodes w') d = Some (File content mode) \<and> node_at (nodes w') h = None)"

lemma replaced_swapped:
  assumes "replaced d {h, k} content mode (AList.update k (File [] 384) N) r w'"
    and "node_at N k = None" "k \<noteq> d" "k \<noteq> h"
  shows "swapped d h content mode N r w'"
proof -
  let ?N1 = "AList.update k (File [] 384) N"
  have e: "evolves (insert k {d, h}) (insert k {d, h}) {} ?N1 (nodes w')"
    using assms(1) by (simp add: replaced_def insert_commute)
  have created: "evolves {d, h} UNIV {} N ?N1" using assms(2) by (simp add: evolves_put)
  show ?thesis
  proof (cases r)
    case (Inl x)
    have "evolves {d, h} UNIV {} N (nodes w')"
      by (rule evolves_fresh [OF created assms(2) e]) auto
    then show ?thesis using Inl by (simp add: swapped_def)
  next
    case (Inr x)
    then have gone: "node_at (nodes w') k = None" and done_: "node_at (nodes w') d = Some (File content mode)"
        "node_at (nodes w') h = None"
      using assms(1) by (auto simp: replaced_def)
    have "evolves {d, h} {d, h} {} N (nodes w')"
      using e assms(2) gone unfolding evolves_def by (simp split: if_splits) (metis option.distinct(1))
    then show ?thesis using Inr done_ by (simp add: swapped_def)
  qed
qed

lemma replacePath_swapped:
  assumes plain: "plain_parts (ps @ [c])" "plain_parts (ps @ [t])"
    and links: "no_links (nodes w) ps" and ne: "c \<noteq> t"
    and h: "node_at (nodes w) (ps @ [t]) = Some (File content mode)"
    and d: "\<And>n. node_at (nodes w) (ps @ [c]) = Some n \<Longrightarrow> is_regular n"
  shows "wp (replacePath U (name_of (ps @ [t])) (name_of (ps @ [c])))
    (swapped (ps @ [c]) (ps @ [t]) content mode (nodes w)) w"
proof -
  let ?S = "swapped (ps @ [c]) (ps @ [t]) content mode (nodes w)"
  let ?X = "{ps @ [c], ps @ [t]}"
  have failed: "?S (Inl e) w'" if "nodes w' = nodes w" for e and w' :: world
    using that by (simp add: swapped_def)
  have "evolves ?X ?X {} (nodes w)
      (AList.update (ps @ [c]) (File content mode) (AList.delete (ps @ [t]) (nodes w)))"
    by (rule evolves_trans [OF evolves_drop evolves_put]) auto
  then have renamed: "wp (rename (name_of (ps @ [t])) (name_of (ps @ [c]))) ?S w'"
    if "nodes w' = nodes w" for w'
    by (intro wp_rename_in [OF plain(2,1), of _ "File content mode"])
      (use that links h ne failed in \<open>auto simp: swapped_def\<close>)
  have base: "slash \<notin> set (path_base (name_of (ps @ [c])) @ ''.backup'')"
      "length c < length (path_base (name_of (ps @ [c])) @ ''.backup'')"
    using plain(1) path_base_name [OF plain(1)] by (auto simp: plain_part_def)
  have existing: "wp (replace_existing U (name_of (ps @ [t])) (name_of (ps @ [c])) (name_of (ps @ [b])))
      ?S w''"
    if b: "plain_part b" "length c < length b" "node_at (nodes w) (ps @ [b]) = None"
      and w'': "nodes w'' = AList.update (ps @ [b]) (File [] 384) (nodes w)"
      and n: "node_at (nodes w) (ps @ [c]) = Some n" for b w'' n
  proof -
    have "wp (replace_existing U (name_of (ps @ [t])) (name_of (ps @ [c])) (name_of (ps @ [b])))
        (replaced (ps @ [c]) {ps @ [t], ps @ [b]} content mode (nodes w'')) w''"
      by (rule replace_existing_replaced [where n = n]) (use b w'' n d [OF n] plain links h ne in auto)
    then show ?thesis
      by (rule wp_mono) (rule replaced_swapped [where k = "ps @ [b]"], use b w'' h in auto)
  qed
  have closed: "?S (Inl e) w3"
    if "nodes w3 = AList.update (ps @ [b]) (File [] 384) (nodes w)" "node_at (nodes w) (ps @ [b]) = None"
    for b e and w3 :: world
    using that by (simp add: swapped_def evolves_put)
  have found: "wp (with_backup U (name_of (ps @ [t])) (name_of (ps @ [c]))) ?S w'"
    if "nodes w' = nodes w" "node_at (nodes w) (ps @ [c]) = Some n" for w' n
    unfolding with_backup_def wp_bind
    by (rule wp_createTemporary [OF plain(1) _ base(1)])
      (use that links failed closed base(2) existing [OF _ _ _ _ that(2)] in
        \<open>auto intro!: wp_may_fail split: sum.splits\<close>)
  show ?thesis
    unfolding replacePath_def wp_bind
    by (rule wp_lstat) (use renamed failed found located_in [OF plain(1) links] in auto)
qed

lemma wp_close_after: "(\<And>e w'. nodes w' = nodes w \<Longrightarrow> Q (Inl e) w') \<Longrightarrow> wp (close_after e) Q w"
  unfolding close_after_def wp_bind by (rule wp_may_fail) simp

lemma fill_temporary_swapped:
  assumes plain: "plain_parts (ps @ [c])" "plain_parts (ps @ [t])"
    and links: "no_links (nodes w) ps" and ne: "c \<noteq> t"
    and h: "node_at (nodes w) (ps @ [t]) = Some (File [] perm)"
    and d: "\<And>n. node_at (nodes w) (ps @ [c]) = Some n \<Longrightarrow> is_regular n"
  shows "wp (fill_temporary U (name_of (ps @ [t])) (ps @ [t]) (name_of (ps @ [c])) content mode)
    (swapped (ps @ [c]) (ps @ [t]) content mode (nodes w)) w"
proof -
  let ?S = "swapped (ps @ [c]) (ps @ [t]) content mode (nodes w)"
  let ?put = "\<lambda>content mode. AList.update (ps @ [t]) (File content mode) (nodes w)"
  let ?X = "{ps @ [c], ps @ [t]}"
  have put: "evolves ?X S {} (nodes w) (?put content' mode')" if "ps @ [t] \<in> S" for content' mode' S
    using that by (simp add: evolves_put)
  have failed: "?S (Inl e) w'" if "\<exists>content' mode'. nodes w' = ?put content' mode'"
    for e and w' :: world
    using that put by (auto simp: swapped_def)
  have same: "\<exists>content' mode'. ?put x y = ?put content' mode'" for x y by blast
  have nodes_put: "AList.update (ps @ [t]) n (?put content' mode') = AList.update (ps @ [t]) n (nodes w)"
    for n content' mode'
    by (rule update_last)
  have moved: "wp (replacePath U (name_of (ps @ [t])) (name_of (ps @ [c]))) ?S w'"
    if w': "nodes w' = ?put content mode" for w'
  proof -
    have "wp (replacePath U (name_of (ps @ [t])) (name_of (ps @ [c])))
        (swapped (ps @ [c]) (ps @ [t]) content mode (nodes w')) w'"
      by (rule replacePath_swapped) (use w' plain links ne d in auto)
    then show ?thesis
      by (rule wp_mono) (use w' in \<open>auto simp: swapped_def split: sum.splits intro: evolves_trans [OF put]\<close>)
  qed
  have verified: "wp (verify_temporary U (name_of (ps @ [t])) (name_of (ps @ [c])) content) ?S w'"
    if w': "nodes w' = ?put content mode" for w'
    unfolding verify_temporary_def wp_bind
    by (rule wp_read_file) (use w' failed moved in auto)
  show ?thesis
    unfolding fill_temporary_def wp_bind
    by (rule wp_write_handle [OF h])
      (auto intro!: wp_close_after wp_may_fail failed verified
        wp_chmod_handle [where content = content and old = perm] simp: nodes_put same split: sum.splits)
qed

text \<open>The effect of \<open>replaceFile\<close> on the tree it starts from.\<close>

definition written ::
    "phys \<Rightarrow> string \<Rightarrow> int \<Rightarrow> phys set \<Rightarrow> tree \<Rightarrow> go_error + unit \<Rightarrow> world \<Rightarrow> bool" where
  "written d content mode D N r w' =
     (case r of
        Inl e \<Rightarrow> evolves {d} UNIV D N (nodes w')
      | Inr _ \<Rightarrow> evolves {d} {d} D N (nodes w') \<and> node_at (nodes w') d = Some (File content mode))"

lemma swapped_written:
  assumes e: "evolves {d} {d} D N N1" and fresh: "node_at N1 h = None" and ne: "h \<noteq> d"
    and s: "swapped d h content mode (AList.update h (File [] 384) N1) r w'"
  shows "written d content mode D N r w'"
proof -
  let ?N2 = "AList.update h (File [] 384) N1"
  have absent: "node_at N h = None"
    using evolves_kept [OF e, of h] ne fresh by (cases "node_at N h") auto
  show ?thesis
  proof (cases r)
    case (Inl x)
    then have "evolves (insert h {d}) UNIV D ?N2 (nodes w')"
      using s by (auto simp: swapped_def insert_commute elim: evolves_mono)
    moreover have "evolves {d} UNIV D N ?N2"
      by (rule evolves_trans [OF evolves_mono [OF e] evolves_put]) (use fresh in auto)
    ultimately have "evolves {d} UNIV D N (nodes w')"
      using evolves_fresh [OF _ absent, of "{d}" UNIV D ?N2 UNIV "nodes w'"] by simp
    then show ?thesis using Inl by (simp add: written_def)
  next
    case (Inr x)
    then have w': "node_at (nodes w') d = Some (File content mode)" "node_at (nodes w') h = None"
        and e2: "evolves {d, h} {d, h} {} ?N2 (nodes w')"
      using s by (auto simp: swapped_def)
    have "evolves {d} {d} D N1 (nodes w')"
      using e2 w' fresh unfolding evolves_def by (simp split: if_splits) (metis option.distinct(1))
    then have "evolves {d} {d} D N (nodes w')" by (rule evolves_trans [OF e])
    then show ?thesis using Inr w' by (simp add: written_def)
  qed
qed

lemma discard_written:
  assumes "plain_parts (ps @ [t])" "no_links (nodes w) ps"
    and "evolves {d} UNIV D N (nodes w)" "node_at N (ps @ [t]) = None"
  shows "wp (discard_temporary (name_of (ps @ [t])) e) (written d content mode D N) w"
proof -
  have "evolves {d} UNIV D N (AList.delete (ps @ [t]) (nodes w))"
    by (rule evolves_fresh [OF assms(3,4), of UNIV]) (auto simp: evolves_drop)
  then show ?thesis
    unfolding discard_temporary_def wp_bind
    by (intro wp_remove_in [OF assms(1,2)]) (use assms(3) in \<open>auto simp: written_def\<close>)
qed

lemma replaceFile_written:
  assumes plain: "plain_parts (ps @ [c])" and links: "no_links (nodes w) ps"
    and D: "ps @ [c] \<in> D" "\<And>q. q \<in> D \<Longrightarrow> \<not> strict_prefix (ps @ [c]) q"
    and d: "\<And>n. node_at (nodes w) (ps @ [c]) = Some n \<Longrightarrow> is_regular n"
  shows "wp (replaceFile U L (name_of (ps @ [c])) content mode goSource)
    (written (ps @ [c]) content mode D (nodes w)) w"
proof -
  let ?d = "ps @ [c]" and ?W = "written (ps @ [c]) content mode D (nodes w)"
  have base: "slash \<notin> set (path_base (name_of ?d))" "length c = length (path_base (name_of ?d))"
    using plain path_base_name [OF plain] by (auto simp: plain_part_def)
  have failed: "?W (Inl e) w'" if "evolves {?d} {?d} D (nodes w) (nodes w')" for e and w' :: world
    using that by (auto simp: written_def elim: evolves_mono)
  have finished: "wp (finish_temporary U (name_of (ps @ [t])) (ps @ [t]) (name_of ?d) content mode) ?W w2"
    if e: "evolves {?d} {?d} D (nodes w) (nodes w1)" and t: "plain_part t" "length c < length t"
      "node_at (nodes w1) (ps @ [t]) = None"
      and w2: "nodes w2 = AList.update (ps @ [t]) (File [] 384) (nodes w1)" for t w1 w2
  proof -
    have reg: "is_regular n" if "node_at (nodes w2) ?d = Some n" for n
      using evolves_new [OF e, of ?d n] that d D(2) w2 t(2) by (auto split: if_splits)
    have links2: "no_links (nodes w2) ps" using evolves_no_links [OF e links] w2 by simp
    have plain2: "plain_parts (ps @ [t])" using plain t by simp
    have fresh: "node_at (nodes w) (ps @ [t]) = None"
      using evolves_kept [OF e, of "ps @ [t]"] t(2,3) by (cases "node_at (nodes w) (ps @ [t])") auto
    have "wp (fill_temporary U (name_of (ps @ [t])) (ps @ [t]) (name_of ?d) content mode)
        (swapped ?d (ps @ [t]) content mode (nodes w2)) w2"
      by (rule fill_temporary_swapped [OF plain plain2 links2]) (use w2 t(2) reg in auto)
    then have "wp (fill_temporary U (name_of (ps @ [t])) (ps @ [t]) (name_of ?d) content mode) ?W w2"
      by (rule wp_mono) (use swapped_written [OF e t(3)] t(2) w2 in auto)
    moreover have "wp (discard_temporary (name_of (ps @ [t])) x) ?W w3" if "?W (Inl x) w3" for x w3
      using that discard_written [OF plain2 evolves_no_links [OF _ links] _ fresh]
      by (simp add: written_def)
    ultimately show ?thesis
      unfolding finish_temporary_def wp_bind by (elim wp_mono) (auto split: sum.splits)
  qed
  have created: "wp (through_temporary U (name_of ?d) content mode) ?W w1"
    if e: "evolves {?d} {?d} D (nodes w) (nodes w1)" for w1
    unfolding through_temporary_def wp_bind
    by (rule wp_createTemporary [OF plain evolves_no_links [OF e links] base(1)])
      (use failed e finished [OF e] base(2) in auto)
  have "wp (ensureDirectories U (path_dir (name_of ?d)))
      (\<lambda>r w'. evolves {?d} {?d} D (nodes w) (nodes w')) w"
    by (rule ensureDirectories_evolves [OF plain D(1)])
  then show ?thesis
    unfolding replaceFile_def wp_bind
    by (rule wp_mono) (use failed created in \<open>auto split: sum.splits option.splits\<close>)
qed

end
