(* ===== verification/Gen_Inspect_Laws.thy ===== *)
theory Gen_Inspect_Laws
  imports Gen_Inspect Gen_Frame
begin

text \<open>
  What an inspection establishes about the tree it reads.  Every step reads only, records
  contents truthfully and only adds differences; the locale \<open>inspection_loop\<close> derives from a
  step the corresponding fact about the loops of \<open>genfs.go\<close>.
\<close>

abbreviation phys_of :: "string \<Rightarrow> phys" where
  "phys_of p \<equiv> split_on slash p"

section \<open>Reading\<close>

lemma resolve_follow:
  "resolve N False links dir ps = Inr q \<Longrightarrow> (\<And>t. node_at N q \<noteq> Some (Symlink t)) \<Longrightarrow>
     resolve N True links dir ps = Inr q"
proof (induction N False links dir ps rule: resolve.induct)
  case (2 N links dir c rest)
  show ?case
  proof (cases "c = [] \<or> c = ''.'' \<or> c = ''..''")
    case True
    then show ?thesis using 2 by (elim disjE) (simp_all split: if_splits)
  next
    case False
    show ?thesis
    proof (cases "node_at N (dir @ [c])")
      case (Some n)
      then show ?thesis using 2 False by (cases n) (simp_all split: if_splits)
    qed (use 2 False in simp)
  qed
qed simp

lemma wp_readOptional [wp_rules]:
  assumes "\<And>e w'. nodes w' = nodes w \<Longrightarrow> Q (Inl e) w'"
    and "\<And>w'. nodes w' = nodes w \<Longrightarrow> absent (nodes w) p \<Longrightarrow> Q (Inr None) w'"
    and "\<And>q content perm w'. nodes w' = nodes w \<Longrightarrow> located (nodes w) False p = Inr q \<Longrightarrow>
      node_at (nodes w) q = Some (File content perm) \<Longrightarrow> Q (Inr (Some content)) w'"
  shows "wp (readOptional U p) Q w"
proof -
  have regular: "wp (read_regular U p n) Q w'"
    if n: "nodes w' = nodes w" "located (nodes w) False p = Inr q" "node_at (nodes w) q = Some n" for w' q n
  proof (cases n)
    case (File content perm)
    then have "located (nodes w) True p = Inr q"
      using n resolve_follow [of "nodes w" 8 "[]" _ q] by (simp add: located_def)
    then show ?thesis
      using n File assms by (auto simp: read_regular_def intro!: wp_read_file)
  qed (use n assms in \<open>simp_all add: read_regular_def\<close>)
  show ?thesis
    unfolding readOptional_def wp_bind by (rule wp_lstat) (use assms regular in auto)
qed

lemma wp_removeOwnedFile:
  assumes "\<And>e w'. nodes w' = nodes w \<Longrightarrow> Q (Inl e) w'"
    and "\<And>w'. nodes w' = nodes w \<Longrightarrow> absent (nodes w) p \<Longrightarrow> Q (Inr ()) w'"
    and "\<And>q content perm w'. located (nodes w) False p = Inr q \<Longrightarrow>
      node_at (nodes w) q = Some (File content perm) \<Longrightarrow> hashContent L content = h \<Longrightarrow>
      nodes w' = AList.delete q (nodes w) \<Longrightarrow> Q (Inr ()) w'"
  shows "wp (removeOwnedFile U L p h) Q w"
  unfolding removeOwnedFile_def wp_bind
  by (rule wp_readOptional) (use assms in \<open>auto intro!: wp_remove\<close>)

definition content_at :: "tree \<Rightarrow> string \<Rightarrow> string \<Rightarrow> bool" where
  "content_at N p content =
     (\<exists>q. located N True p = Inr q \<and>
        ((\<exists>perm. node_at N q = Some (File content perm)) \<or> node_at N q = Some (Special content)))"

lemma content_at_lstat:
  "located N False p = Inr q \<Longrightarrow> node_at N q = Some (File content perm) \<Longrightarrow> content_at N p content"
  using resolve_follow [of N 8 "[]" _ q] by (auto simp: content_at_def located_def)

section \<open>Steps\<close>

definition truthful :: "tree \<Rightarrow> inspection \<Rightarrow> bool" where
  "truthful N st = (\<forall>p content. map_of (current st) p = Some content \<longrightarrow> content_at N p content)"

definition stale_owned :: "inspection \<Rightarrow> bool" where
  "stale_owned st =
     (\<forall>d \<in> set (differences st). diff_kind d = DifferenceStaleOwnedFile \<longrightarrow>
        map_of (owned st) (diff_path d) \<noteq> None \<and> map_of (expected st) (diff_path d) = None)"

definition grows :: "inspection \<Rightarrow> inspection \<Rightarrow> bool" where
  "grows st st' =
     (set (differences st) \<subseteq> set (differences st') \<and> owned st' = owned st \<and>
      expected st' = expected st \<and> prior st' = prior st \<and>
      dom (map_of (current st)) \<subseteq> dom (map_of (current st')))"

definition stepped ::
    "tree \<Rightarrow> inspection \<Rightarrow> (inspection \<Rightarrow> bool) \<Rightarrow> go_error + inspection \<Rightarrow> world \<Rightarrow> bool" where
  "stepped N st P r w' =
     (nodes w' = N \<and>
      (\<forall>st'. r = Inr st' \<longrightarrow> truthful N st' \<and> stale_owned st' \<and> grows st st' \<and> P st'))"

lemma grows_refl [simp]: "grows st st"
  by (simp add: grows_def)

lemma grows_trans: "grows a b \<Longrightarrow> grows b c \<Longrightarrow> grows a c"
  unfolding grows_def by (metis subset_trans)

lemma add_difference_simps [simp]:
  "differences (add_difference k p c e m st) = differences st @
     [\<lparr>diff_kind = k, diff_path = p, CurrentSHA256 = c, ExpectedSHA256 = e, diff_message = m\<rparr>]"
  "owned (add_difference k p c e m st) = owned st"
  "expected (add_difference k p c e m st) = expected st"
  "prior (add_difference k p c e m st) = prior st"
  "current (add_difference k p c e m st) = current st"
  by (simp_all add: add_difference_def)

lemma see_content_simps [simp]:
  "insp_status (see_content p content st) = insp_status st"
  "owned (see_content p content st) = owned st"
  "expected (see_content p content st) = expected st"
  "prior (see_content p content st) = prior st"
  "map_of (current (see_content p content st)) = (map_of (current st))(p \<mapsto> content)"
  by (simp_all add: see_content_def update_conv')

lemma truthful_add [simp]: "truthful N (add_difference k p c e m st) = truthful N st"
  by (simp add: truthful_def)

lemma truthful_see: "truthful N st \<Longrightarrow> content_at N p content \<Longrightarrow> truthful N (see_content p content st)"
  by (simp add: truthful_def)

lemma stale_owned_see [simp]: "stale_owned (see_content p content st) = stale_owned st"
  by (simp add: stale_owned_def)

lemma stale_owned_add [simp]:
  "stale_owned (add_difference k p c e m st) \<longleftrightarrow> stale_owned st \<and>
     (k = DifferenceStaleOwnedFile \<longrightarrow> map_of (owned st) p \<noteq> None \<and> map_of (expected st) p = None)"
  by (auto simp: stale_owned_def)

lemma grows_add [simp]: "grows st st' \<Longrightarrow> grows st (add_difference k p c e m st')"
  by (auto simp: grows_def)

lemma grows_see [simp]: "grows st st' \<Longrightarrow> grows st (see_content p content st')"
  by (auto simp: grows_def)

section \<open>Loops\<close>

locale inspection_loop =
  fixes step :: "inspection \<Rightarrow> 'a \<Rightarrow> inspection fallible"
    and ready :: "inspection \<Rightarrow> 'a \<Rightarrow> bool"
    and outcome :: "tree \<Rightarrow> 'a \<Rightarrow> inspection \<Rightarrow> bool"
  assumes step_stepped:
      "truthful (nodes w) st \<Longrightarrow> stale_owned st \<Longrightarrow> ready st x \<Longrightarrow>
         wp (step st x) (stepped (nodes w) st (outcome (nodes w) x)) w"
    and ready_stable: "grows st st' \<Longrightarrow> ready st x \<Longrightarrow> ready st' x"
    and outcome_stable: "grows st st' \<Longrightarrow> outcome N x st \<Longrightarrow> outcome N x st'"
begin

lemma loop_stepped:
  "truthful (nodes w) st \<Longrightarrow> stale_owned st \<Longrightarrow> \<forall>x\<in>set xs. ready st x \<Longrightarrow>
     wp (each step st xs) (stepped (nodes w) st (\<lambda>st'. \<forall>x\<in>set xs. outcome (nodes w) x st')) w"
proof (induction xs arbitrary: st w)
  case Nil
  then show ?case by (simp add: stepped_def)
next
  case (Cons x xs)
  have "wp (case r of Inl e \<Rightarrow> ret (Inl e) | Inr st \<Rightarrow> each step st xs)
      (stepped (nodes w) st (\<lambda>st'. \<forall>x\<in>set (x # xs). outcome (nodes w) x st')) w'"
    if r: "stepped (nodes w) st (outcome (nodes w) x) r w'" for r w'
  proof (cases r)
    case (Inr st1)
    then have st1: "truthful (nodes w') st1" "stale_owned st1" "grows st st1"
        "outcome (nodes w') x st1" "nodes w' = nodes w"
      using r by (auto simp: stepped_def)
    have "\<forall>x\<in>set xs. ready st1 x" using Cons.prems(3) st1(3) ready_stable by auto
    from Cons.IH [OF st1(1,2) this]
    have "wp (each step st1 xs)
        (stepped (nodes w) st (\<lambda>st'. \<forall>x\<in>set (x # xs). outcome (nodes w) x st')) w'"
    proof (rule wp_mono)
      fix r w''
      assume "stepped (nodes w') st1 (\<lambda>st'. \<forall>x\<in>set xs. outcome (nodes w') x st') r w''"
      then show "stepped (nodes w) st (\<lambda>st'. \<forall>x\<in>set (x # xs). outcome (nodes w) x st') r w''"
        using st1 grows_trans [OF st1(3)] outcome_stable [OF _ st1(4)] by (auto simp: stepped_def)
    qed
    then show ?thesis using Inr by simp
  qed (use r in \<open>simp add: stepped_def\<close>)
  then show ?case
    using step_stepped [OF Cons.prems(1,2), of x] Cons.prems(3) by (auto elim: wp_mono)
qed

end

text \<open>A plan file as the inspection leaves it: missing, in conflict, or replaceable.\<close>

definition conflicting :: "string \<Rightarrow> inspection \<Rightarrow> bool" where
  "conflicting p st = (\<exists>d \<in> set (differences st). diff_path d = p \<and> protected_kind (diff_kind d))"

definition expected_seen :: "gen_library \<Rightarrow> tree \<Rightarrow> gen_file \<Rightarrow> inspection \<Rightarrow> bool" where
  "expected_seen L N f st =
     (absent N (gen_path f) \<or>
      (\<exists>q content perm. located N False (gen_path f) = Inr q \<and> node_at N q = Some (File content perm) \<and>
         gen_path f \<in> dom (map_of (current st)) \<and>
         (conflicting (gen_path f) st \<or>
          (\<exists>h. map_of (owned st) (gen_path f) = Some h \<and>
             (hashContent L content = SHA256 f \<or> hashContent L content = h)))))"

lemma conflicting_add [simp]:
  "conflicting q (add_difference k p c e m st) \<longleftrightarrow> conflicting q st \<or> p = q \<and> protected_kind k"
  by (auto simp: conflicting_def)

interpretation expected_files: inspection_loop "inspectExpectedFile U L" "\<lambda>st f. True" "expected_seen L" for U L
proof
  fix w :: world and st x
  assume "truthful (nodes w) st" "stale_owned st"
  then show "wp (inspectExpectedFile U L st x) (stepped (nodes w) st (expected_seen L (nodes w) x)) w"
    unfolding inspectExpectedFile_def wp_bind
    by (intro wp_readOptional)
      (auto simp: stepped_def expected_seen_def Let_def protected_kind_def truthful_see
        content_at_lstat split: option.splits)
next
  fix st st' N x
  show "grows st st' \<Longrightarrow> expected_seen L N x st \<Longrightarrow> expected_seen L N x st'"
    unfolding expected_seen_def grows_def conflicting_def by (metis subset_iff)
qed simp

text \<open>An owned file that is no longer expected: missing, in conflict, or to be removed.\<close>

definition prior_seen :: "tree \<Rightarrow> string \<times> string \<Rightarrow> inspection \<Rightarrow> bool" where
  "prior_seen N own st =
     (map_of (expected st) (fst own) \<noteq> None \<or> absent N (fst own) \<or> conflicting (fst own) st \<or>
      (\<exists>d \<in> set (differences st). diff_path d = fst own \<and> diff_kind d = DifferenceStaleOwnedFile))"

interpretation prior_files: inspection_loop
  "inspect_prior_file U L" "\<lambda>st own. map_of (owned st) (fst own) \<noteq> None" prior_seen for U L
proof
  fix w :: world and st and own :: "string \<times> string"
  assume "truthful (nodes w) st" "stale_owned st" "map_of (owned st) (fst own) \<noteq> None"
  then show "wp (inspect_prior_file U L st own) (stepped (nodes w) st (prior_seen (nodes w) own)) w"
    unfolding inspect_prior_file_def split_beta Let_def wp_if wp_bind
    by (auto intro!: wp_readOptional simp: stepped_def prior_seen_def protected_kind_def truthful_see
        content_at_lstat split: option.splits if_splits)
next
  fix st st' N own
  show "grows st st' \<Longrightarrow> prior_seen N own st \<Longrightarrow> prior_seen N own st'"
    unfolding prior_seen_def grows_def conflicting_def by (metis subset_iff)
qed (simp add: grows_def)

section \<open>Unexpected files\<close>

lemma unexpected_entry_stepped:
  assumes "truthful (nodes w) st" "stale_owned st"
  shows "wp (inspectUnexpectedGeneratedEntry U L p n st) (stepped (nodes w) st (\<lambda>st. True)) w"
  using assms unfolding inspectUnexpectedGeneratedEntry_def wp_if wp_bind
  by (auto intro!: wp_read_file simp: stepped_def truthful_see content_at_def split: if_splits)

lemma stepped_error [simp]: "stepped N st P (Inl e) w' \<longleftrightarrow> nodes w' = N"
  by (simp add: stepped_def)

interpretation children_loop: inspection_loop
  "inspect_child U L directory" "\<lambda>st k. True" "\<lambda>N k st. True" for U L directory
  by unfold_locales
    (auto simp: inspect_child_def unexpected_entry_stepped stepped_def [of _ _ _ "Inr _"]
      split: option.splits)

interpretation walk_loop: inspection_loop
  "walk_visit U L outputDir q" "\<lambda>st k. True" "\<lambda>N k st. True" for U L outputDir q
proof
  fix w :: world and st k
  assume st: "truthful (nodes w) st" "stale_owned st"
  show "wp (walk_visit U L outputDir q st k) (stepped (nodes w) st (\<lambda>st. True)) w"
  proof (cases "node_at (nodes w) k")
    case (Some n)
    show ?thesis
      unfolding walk_visit_def wp_bind wp_get Some option.case
      by (rule wp_mono [OF unexpected_entry_stepped [OF st]])
        (auto simp: stepped_def intro!: wp_may_fail split: sum.splits)
  qed (use st in \<open>simp add: walk_visit_def stepped_def\<close>)
qed simp_all

lemma unexpected_directory_stepped:
  assumes "truthful (nodes w) st" "stale_owned st"
  shows "wp (inspectUnexpectedGeneratedDirectory U L directory st) (stepped (nodes w) st (\<lambda>st. True)) w"
proof -
  have "wp (each (inspect_child U L directory) st ks) (stepped (nodes w) st (\<lambda>st. True)) w'"
    if "nodes w' = nodes w" for w' ks
    using children_loop.loop_stepped [of w' st ks U L directory] assms that by simp
  then show ?thesis
    unfolding inspectUnexpectedGeneratedDirectory_def wp_bind
    by (intro wp_read_dir) (use assms in \<open>auto simp: stepped_def [of _ _ _ "Inr st"]\<close>)
qed

lemma wrap_result_stepped:
  assumes "wp m (stepped N st P) w"
  shows "wp (wrap_result label m) (stepped N st P) w"
  unfolding wrap_result_def wp_bind
  by (rule wp_mono [OF assms]) (auto simp: stepped_def split: sum.splits)

interpretation shard_loop: inspection_loop
  "inspect_shard U L" "\<lambda>st k. True" "\<lambda>N k st. True" for U L
  by unfold_locales (auto simp: inspect_shard_def unexpected_directory_stepped wrap_result_stepped)

lemma unexpected_output_stepped:
  assumes "truthful (nodes w) st" "stale_owned st"
  shows "wp (inspectUnexpectedGeneratedOutput U L outputDir st) (stepped (nodes w) st (\<lambda>st. True)) w"
proof -
  have walk: "wp (each (walk_visit U L outputDir q) st ks) (stepped (nodes w) st (\<lambda>st. True)) w'"
    if "nodes w' = nodes w" for w' q ks
    using walk_loop.loop_stepped [of w' st ks U L outputDir q] assms that by simp
  have walked: "wp (walk_output U L outputDir st) (stepped (nodes w) st (\<lambda>st. True)) w'"
    if "nodes w' = nodes w" for w'
    unfolding walk_output_def wp_bind
    by (rule wp_stat) (use that walk in \<open>auto simp del: each.simps split: sum.splits\<close>)
  show ?thesis
    unfolding inspectUnexpectedGeneratedOutput_def wp_bind
    by (rule wp_lstat) (use assms walked in \<open>auto simp: stepped_def [of _ _ _ "Inr st"]\<close>)
qed

text \<open>Running one step after another.\<close>

lemma stepped_from: "stepped N st1 P r w \<Longrightarrow> grows st st1 \<Longrightarrow> stepped N st P r w"
  by (auto simp: stepped_def intro: grows_trans)

lemma wp_stepped_bind:
  assumes "wp m (stepped N st P) w"
    and "\<And>st' w'. nodes w' = N \<Longrightarrow> truthful N st' \<Longrightarrow> stale_owned st' \<Longrightarrow> grows st st' \<Longrightarrow> P st' \<Longrightarrow>
      wp (f st') (stepped N st Q) w'"
  shows "wp (State_Monad.bind m (\<lambda>r. case r of Inl e \<Rightarrow> ret (Inl e) | Inr st \<Rightarrow> f st)) (stepped N st Q) w"
  unfolding wp_bind
  by (rule wp_mono [OF assms(1)]) (use assms(2) in \<open>auto simp: stepped_def split: sum.splits\<close>)

lemma inspectUnexpectedGenerated_stepped:
  assumes "truthful (nodes w) st" "stale_owned st"
  shows "wp (inspectUnexpectedGenerated U L p st) (stepped (nodes w) st (\<lambda>st. True)) w"
  unfolding inspectUnexpectedGenerated_def Let_def
proof (rule wp_stepped_bind [OF unexpected_output_stepped [OF assms]])
  fix st1 and w1 :: world
  assume st1: "nodes w1 = nodes w" "truthful (nodes w) st1" "stale_owned st1" "grows st st1"
  let ?bridge = "BridgeDir (Target p)" and ?output = "OutputDir (Target p)"
  let ?m = "if ?bridge \<noteq> [] then wrap_result
      (''inspect generated entrypoint directory '' @ quote U ?bridge @ '': '')
      (inspectUnexpectedGeneratedDirectory U L ?bridge st1) else ret (Inr st1)"
  have "wp ?m (stepped (nodes w) st1 (\<lambda>st. True)) w1"
    using st1 unexpected_directory_stepped [of w1 st1 U L ?bridge]
    by (auto intro!: wrap_result_stepped simp: stepped_def [of _ _ _ "Inr st1"])
  then have "wp ?m (stepped (nodes w) st (\<lambda>st. True)) w1"
    by (rule wp_mono) (rule stepped_from [OF _ st1(4)])
  then show "wp (State_Monad.bind ?m (\<lambda>r. case r of Inl e \<Rightarrow> ret (Inl e)
      | Inr st \<Rightarrow> each (inspect_shard U L) st (sourceShardDirectories p ?bridge ?output)))
      (stepped (nodes w) st (\<lambda>st. True)) w1"
  proof (rule wp_stepped_bind)
    fix st2 and w2 :: world
    assume st2: "nodes w2 = nodes w" "truthful (nodes w) st2" "stale_owned st2" "grows st st2"
    have "wp (each (inspect_shard U L) st2 (sourceShardDirectories p ?bridge ?output))
        (stepped (nodes w) st2 (\<lambda>st. True)) w2"
      using shard_loop.loop_stepped [of w2 st2] st2 by simp
    then show "wp (each (inspect_shard U L) st2 (sourceShardDirectories p ?bridge ?output))
        (stepped (nodes w) st (\<lambda>st. True)) w2"
      by (rule wp_mono) (rule stepped_from [OF _ st2(4)])
  qed
qed

section \<open>Rejected links\<close>

text \<open>No symbolic link is reached from the root through directories along the path.\<close>

definition unlinked :: "tree \<Rightarrow> phys \<Rightarrow> bool" where
  "unlinked N ps =
     (\<forall>r. prefix r ps \<longrightarrow> (\<forall>r'. strict_prefix r' r \<longrightarrow> node_at N r' = Some Directory) \<longrightarrow>
        (\<forall>t. node_at N r \<noteq> Some (Symlink t)))"

lemma reject_parts_unlinked:
  assumes "plain_parts (pre @ parts)" "unlinked (nodes w) pre"
  shows "wp (reject_parts U (name_of pre) parts)
    (\<lambda>r w'. nodes w' = nodes w \<and> (r = Inr () \<longrightarrow> unlinked (nodes w) (pre @ parts))) w"
  using assms
proof (induction parts arbitrary: pre w)
  case (Cons part parts)
  let ?N = "nodes w" and ?ps = "pre @ [part]"
  have join: "path_join (name_of pre) part = name_of ?ps"
    using Cons.prems(1) by (rule path_join_pre)
  have found: "located ?N False (name_of ?ps) = Inr ?ps"
    if "\<And>r'. strict_prefix r' ?ps \<Longrightarrow> node_at ?N r' = Some Directory"
    using located_dirs [of ?ps ?N False] that Cons.prems(1) by simp
  have missing: "unlinked ?N (pre @ part # parts)" if "absent ?N (name_of ?ps)"
    unfolding unlinked_def
  proof (intro allI impI)
    fix r t
    assume r: "prefix r (pre @ part # parts)"
      and dirs: "\<forall>r'. strict_prefix r' r \<longrightarrow> node_at ?N r' = Some Directory"
    show "node_at ?N r \<noteq> Some (Symlink t)"
    proof (cases "prefix r pre")
      case True
      then show ?thesis using Cons.prems(2) dirs by (simp add: unlinked_def)
    next
      case False
      then have ps: "prefix ?ps r"
        using r by (metis append.assoc append_Cons append_Nil prefix_append prefix_same_cases
            prefix_snoc prefixI prefix_order.order_refl)
      then have "strict_prefix r' ?ps \<Longrightarrow> node_at ?N r' = Some Directory" for r'
        using dirs prefix_order.less_le_trans by blast
      then have "node_at ?N ?ps = None" using that found by (simp add: absent_def)
      then show ?thesis using ps dirs by (cases "r = ?ps") (auto simp: strict_prefix_def)
    qed
  qed
  have step: "wp (reject_parts U (name_of ?ps) parts)
      (\<lambda>r w''. nodes w'' = ?N \<and> (r = Inr () \<longrightarrow> unlinked ?N (pre @ part # parts))) w'"
    if w': "nodes w' = ?N" "located ?N False (name_of ?ps) = Inr q" "node_at ?N q = Some n" "\<not> is_link n"
    for w' q n
  proof -
    have "unlinked ?N ?ps"
      using Cons.prems(2) found w' by (fastforce simp: unlinked_def prefix_snoc)
    then show ?thesis using Cons.IH [of ?ps w'] Cons.prems(1) w'(1) by simp
  qed
  show ?case
    unfolding reject_parts.simps Let_def join wp_bind
    by (rule wp_lstat) (use missing step in auto)
qed simp

lemma rejectSymlinkComponents_unlinked:
  assumes "plain_parts (split_on slash p)"
  shows "wp (rejectSymlinkComponents U p)
    (\<lambda>r w'. nodes w' = nodes w \<and> (r = Inr () \<longrightarrow> unlinked (nodes w) (split_on slash p))) w"
  using reject_parts_unlinked [of "[]" "split_on slash p" w U] assms
  by (simp add: rejectSymlinkComponents_def unlinked_def)

text \<open>On a tree without orphans, and after directories were added, there is no link at all.\<close>

lemma unlinked_no_links:
  assumes "wf_tree N0" "evolves {} S D N0 N" "unlinked N ps"
  shows "no_links N ps"
  unfolding no_links_def
proof (intro allI notI)
  fix i t assume link: "node_at N (take i ps) = Some (Symlink t)"
  then have "node_at N0 (take i ps) = Some (Symlink t)" using evolves_new [OF assms(2)] by fastforce
  then have "node_at N r = Some Directory" if "strict_prefix r (take i ps)" for r
    using that wf_prefix [OF assms(1)] evolves_kept [OF assms(2)] by blast
  then show False using assms(3) link by (auto simp: unlinked_def take_is_prefix)
qed

lemma kept_located:
  assumes "wf_tree N0" "evolves {} S D N0 N" "plain_parts ps" "ps \<noteq> []"
    and "node_at N0 ps = Some n" "\<not> is_link n"
  shows "located N follow (name_of ps) = Inr ps \<and> node_at N ps = Some n"
proof -
  have n: "node_at N ps = Some n" using evolves_kept [OF assms(2)] assms(5) by simp
  have "node_at N r = Some Directory" if "strict_prefix r ps" for r
    using that wf_prefix [OF assms(1,5)] evolves_kept [OF assms(2)] by blast
  moreover have "node_at N ps \<noteq> Some (Symlink t)" for t using n assms(6) by auto
  ultimately show ?thesis using located_dirs [OF assms(3,4), of N follow] n by simp
qed

lemma wf_existing:
  assumes "wf_tree N" "plain_parts (phys_of k)" "node_at N (phys_of k) = Some n" "\<not> is_link n"
  shows "located N follow k = Inr (phys_of k)"
  using kept_located [OF assms(1) evolves_refl assms(2) _ assms(3,4)] by simp

lemma absent_none:
  assumes "wf_tree N" "plain_parts (phys_of k)" "no_links N (phys_of k)" "absent N k"
  shows "node_at N (phys_of k) = None"
proof (rule ccontr)
  assume "node_at N (phys_of k) \<noteq> None"
  then obtain n where n: "node_at N (phys_of k) = Some n" by auto
  then have "\<not> is_link n" using no_linksD [OF assms(3)] by (cases n) auto
  then show False using wf_existing [OF assms(1,2) n] assms(4) n by (simp add: absent_def)
qed

section \<open>The whole inspection\<close>

lemma wp_expect_file:
  assumes "plain_parts (split_on slash (gen_path f))"
  shows "wp (expect_file U st f) (\<lambda>r w'. nodes w' = nodes w \<and> (\<forall>st'. r = Inr st' \<longrightarrow>
     unlinked (nodes w) (split_on slash (gen_path f)) \<and>
     st' = expect_content (gen_path f) (Content f) (SHA256 f) st)) w"
  unfolding expect_file_def wp_bind
  by (rule wp_mono [OF rejectSymlinkComponents_unlinked [OF assms]]) (auto split: sum.splits)

lemma expect_files_loop:
  assumes "\<forall>f\<in>set fs. plain_parts (split_on slash (gen_path f))"
  shows "wp (each (expect_file U) st fs) (\<lambda>r w'. nodes w' = nodes w \<and> (\<forall>st'. r = Inr st' \<longrightarrow>
     (\<forall>f\<in>set fs. unlinked (nodes w) (split_on slash (gen_path f))) \<and>
     insp_status st' = insp_status st \<and> owned st' = owned st \<and> prior st' = prior st \<and>
     current st' = current st \<and>
     dom (map_of (expected st')) = dom (map_of (expected st)) \<union> gen_path ` set fs)) w"
  using assms
proof (induction fs arbitrary: st w)
  case (Cons f fs)
  let ?st = "expect_content (gen_path f) (Content f) (SHA256 f) st"
  have st: "insp_status ?st = insp_status st" "owned ?st = owned st" "prior ?st = prior st"
      "current ?st = current st"
      "dom (map_of (expected ?st)) = insert (gen_path f) (dom (map_of (expected st)))"
    by (simp_all add: expect_content_def update_conv')
  have IH: "wp (each (expect_file U) ?st fs) (\<lambda>r w''. nodes w'' = nodes w \<and> (\<forall>st'. r = Inr st' \<longrightarrow>
      (\<forall>f\<in>set fs. unlinked (nodes w) (split_on slash (gen_path f))) \<and>
      insp_status st' = insp_status st \<and> owned st' = owned st \<and> prior st' = prior st \<and>
      current st' = current st \<and>
      dom (map_of (expected st')) = dom (map_of (expected ?st)) \<union> gen_path ` set fs)) w'"
    if "nodes w' = nodes w" for w'
    using Cons.IH [of ?st w'] Cons.prems st that by simp
  show ?case
    unfolding each.simps wp_bind
    by (rule wp_mono [OF wp_expect_file])
      (use Cons.prems IH st(5) in \<open>auto elim!: wp_mono split: sum.splits\<close>)
qed simp

definition owned_map :: "manifest_file list \<Rightarrow> (string \<times> string) list" where
  "owned_map fs = fold (\<lambda>f. AList.update (own_path f) (own_sha256 f)) fs []"

lemma fold_update_Some:
  "map_of (fold (\<lambda>f. AList.update (own_path f) (own_sha256 f)) fs m) k = Some h \<Longrightarrow>
     map_of m k = Some h \<or> (\<exists>f\<in>set fs. own_path f = k \<and> own_sha256 f = h)"
  by (induction fs arbitrary: m) (fastforce simp: update_conv' split: if_splits)+

lemma owned_map_Some:
  "map_of (owned_map fs) k = Some h \<Longrightarrow> \<exists>f\<in>set fs. own_path f = k \<and> own_sha256 f = h"
  using fold_update_Some [of fs "[]" k h] by (simp add: owned_map_def)

lemma fold_update_dom:
  "dom (map_of (fold (\<lambda>f. AList.update (own_path f) (own_sha256 f)) fs m)) =
     dom (map_of m) \<union> own_path ` set fs"
  by (induction fs arbitrary: m) (auto simp: update_conv')

lemma owned_map_dom: "dom (map_of (owned_map fs)) = own_path ` set fs"
  by (simp add: owned_map_def fold_update_dom)

text \<open>What is known of the manifest: it is missing, or it decodes and gives the owned files.\<close>

definition manifest_seen ::
    "unicode_tables \<Rightarrow> gen_library \<Rightarrow> plan \<Rightarrow> apply_options \<Rightarrow> tree \<Rightarrow> inspection \<Rightarrow> bool" where
  "manifest_seen U L p options N st =
     (let mp = ManifestPath (Target p)
      in absent N mp \<and> owned st = [] \<or>
         (\<exists>q content perm m. located N False mp = Inr q \<and> node_at N q = Some (File content perm) \<and>
            decodeManifest U L content p options = Inr m \<and> owned st = owned_map (manifest_files m) \<and>
            mp \<in> dom (map_of (current st))))"

definition plan_paths :: "plan \<Rightarrow> string set" where
  "plan_paths p = insert (ManifestPath (Target p)) (gen_path ` set (Files p))"

definition inspected ::
    "unicode_tables \<Rightarrow> gen_library \<Rightarrow> plan \<Rightarrow> apply_options \<Rightarrow> tree \<Rightarrow> inspection \<Rightarrow> bool" where
  "inspected U L p options N st =
     ((\<forall>k\<in>plan_paths p. unlinked N (split_on slash k)) \<and> truthful N st \<and> stale_owned st \<and>
      dom (map_of (expected st)) = plan_paths p \<and> manifest_seen U L p options N st \<and>
      (\<forall>f\<in>set (Files p). expected_seen L N f st) \<and> (\<forall>own\<in>set (owned st). prior_seen N own st))"

lemma stale_manifest_grows:
  assumes "truthful N st" "stale_owned st" "grows st0 st" "P st"
    and "\<And>st'. grows st st' \<Longrightarrow> P st \<Longrightarrow> P st'" "nodes w' = N"
  shows "stepped N st0 P (Inr (stale_manifest L p st)) w'"
proof -
  have "grows st (stale_manifest L p st)" "truthful N (stale_manifest L p st)"
      "stale_owned (stale_manifest L p st)"
    using assms by (auto simp: stale_manifest_def Let_def split: option.splits)
  then show ?thesis using assms(4-6) grows_trans [OF assms(3)] by (simp add: stepped_def)
qed

lemma inspect_prior_stepped:
  assumes "truthful (nodes w) st" "stale_owned st" "prior st = None \<longrightarrow> owned st = []"
  shows "wp (inspect_prior U L p st)
    (stepped (nodes w) st (\<lambda>st'. \<forall>own\<in>set (owned st'). prior_seen (nodes w) own st')) w"
proof (cases "prior st")
  case None
  then show ?thesis using assms by (simp add: inspect_prior_def stepped_def)
next
  case (Some m)
  let ?P = "\<lambda>st'. \<forall>own\<in>set (owned st). prior_seen (nodes w) own st'"
  have "\<forall>own\<in>set (owned st). map_of (owned st) (fst own) \<noteq> None"
    by (auto simp: map_of_eq_None_iff)
  then have loop: "wp (inspectPriorFiles U L st) (stepped (nodes w) st ?P) w"
    unfolding inspectPriorFiles_def by (rule prior_files.loop_stepped [OF assms(1,2)])
  have stable: "?P st1 \<Longrightarrow> grows st1 st2 \<Longrightarrow> ?P st2" for st1 st2
    using prior_files.outcome_stable by blast
  have "stepped (nodes w) st (\<lambda>st'. \<forall>own\<in>set (owned st'). prior_seen (nodes w) own st')
      (case r of Inl e \<Rightarrow> Inl e | Inr st \<Rightarrow> Inr (stale_manifest L p st)) w'"
    if "stepped (nodes w) st ?P r w'" for r w'
  proof (cases r)
    case (Inr st1)
    then have st1: "truthful (nodes w) st1" "stale_owned st1" "grows st st1" "?P st1" "nodes w' = nodes w"
      using that by (auto simp: stepped_def)
    have "stepped (nodes w) st ?P (Inr (stale_manifest L p st1)) w'"
      by (rule stale_manifest_grows) (use st1 stable in auto)
    then show ?thesis using Inr by (auto simp: stepped_def grows_def)
  qed (use that in simp)
  then show ?thesis
    unfolding inspect_prior_def Some option.case wp_bind
    by (intro wp_mono [OF loop]) auto
qed

lemma wp_inspect_manifest:
  assumes "differences st = []" "owned st = []" "current st = []" "prior st = None"
  shows "wp (inspect_manifest U L p options st) (\<lambda>r w'. nodes w' = nodes w \<and> (\<forall>st'. r = Inr st' \<longrightarrow>
     truthful (nodes w) st' \<and> stale_owned st' \<and> manifest_seen U L p options (nodes w) st' \<and>
     expected st' = expected st \<and> (prior st' = None \<longrightarrow> owned st' = []))) w"
proof -
  have "truthful N st" "stale_owned st" for N using assms by (simp_all add: truthful_def stale_owned_def)
  then show ?thesis
    unfolding inspect_manifest_def Let_def wp_bind
    by (intro wp_readOptional)
      (auto simp: assms manifest_seen_def owned_map_def truthful_def stale_owned_def
        content_at_lstat split: sum.splits)
qed

lemma manifest_seen_stable:
  assumes "grows st st'" "manifest_seen U L p options N st"
  shows "manifest_seen U L p options N st'"
proof -
  have "owned st' = owned st" "\<And>k. k \<in> dom (map_of (current st)) \<Longrightarrow> k \<in> dom (map_of (current st'))"
    using assms(1) by (auto simp: grows_def)
  then show ?thesis using assms(2) unfolding manifest_seen_def Let_def by metis
qed

lemma finish_inspection_simps [simp]:
  "differences (finish_inspection st) = sortDifferences (differences st)"
  "owned (finish_inspection st) = owned st" "expected (finish_inspection st) = expected st"
  "current (finish_inspection st) = current st" "prior (finish_inspection st) = prior st"
  by (simp_all add: finish_inspection_def Let_def)

lemma finish_inspection_grows:
  "grows st (finish_inspection st)" "truthful N (finish_inspection st) = truthful N st"
  "stale_owned (finish_inspection st) = stale_owned st"
  by (simp_all add: grows_def truthful_def stale_owned_def sortDifferences_def)

lemma stepped_mono:
  "stepped N st P r w \<Longrightarrow> (\<And>st'. grows st st' \<Longrightarrow> P st' \<Longrightarrow> Q st') \<Longrightarrow> stepped N st Q r w"
  by (auto simp: stepped_def)

lemma inspect_unexpected_stepped:
  assumes "truthful (nodes w) st" "stale_owned st"
  shows "wp (inspect_unexpected U L p st) (stepped (nodes w) st (\<lambda>st. True)) w"
  unfolding inspect_unexpected_def wp_bind
  by (rule wp_mono [OF inspectUnexpectedGenerated_stepped [OF assms]])
    (auto simp: stepped_def finish_inspection_grows intro: grows_trans [OF _ finish_inspection_grows(1)]
      split: sum.splits)

lemma inspect_existing_stepped:
  assumes "truthful (nodes w) st" "stale_owned st" "prior st = None \<longrightarrow> owned st = []"
  shows "wp (inspect_existing U L p st)
    (stepped (nodes w) st (\<lambda>st'. \<forall>own\<in>set (owned st'). prior_seen (nodes w) own st')) w"
  unfolding inspect_existing_def
proof (rule wp_stepped_bind [OF inspect_prior_stepped [OF assms]])
  fix st1 and w1 :: world
  assume st1: "nodes w1 = nodes w" "truthful (nodes w) st1" "stale_owned st1" "grows st st1"
    "\<forall>own\<in>set (owned st1). prior_seen (nodes w) own st1"
  have "wp (inspect_unexpected U L p st1) (stepped (nodes w) st1 (\<lambda>st. True)) w1"
    using inspect_unexpected_stepped [of w1 st1 U L p] st1 by simp
  then show "wp (inspect_unexpected U L p st1)
      (stepped (nodes w) st (\<lambda>st'. \<forall>own\<in>set (owned st'). prior_seen (nodes w) own st')) w1"
  proof (rule wp_mono)
    fix r w2 assume "stepped (nodes w) st1 (\<lambda>st. True) r w2"
    then have "stepped (nodes w) st1 (\<lambda>st'. \<forall>own\<in>set (owned st'). prior_seen (nodes w) own st') r w2"
      by (rule stepped_mono) (use st1(5) prior_files.outcome_stable in \<open>auto simp: grows_def\<close>)
    then show "stepped (nodes w) st (\<lambda>st'. \<forall>own\<in>set (owned st'). prior_seen (nodes w) own st') r w2"
      by (rule stepped_from [OF _ st1(4)])
  qed
qed

lemma inspect_contents_stepped:
  assumes "truthful (nodes w) st" "stale_owned st" "prior st = None \<longrightarrow> owned st = []"
  shows "wp (inspect_contents U L p st) (stepped (nodes w) st (\<lambda>st'.
    (\<forall>f\<in>set (Files p). expected_seen L (nodes w) f st') \<and>
    (\<forall>own\<in>set (owned st'). prior_seen (nodes w) own st'))) w"
    (is "wp _ (stepped _ _ (\<lambda>st'. ?F st' \<and> ?O st')) _")
  unfolding inspect_contents_def
proof (rule wp_stepped_bind [OF expected_files.loop_stepped [OF assms(1,2)]])
  fix st1 and w1 :: world
  assume st1: "nodes w1 = nodes w" "truthful (nodes w) st1" "stale_owned st1" "grows st st1" "?F st1"
  have "prior st1 = None \<longrightarrow> owned st1 = []" using assms(3) st1(4) by (simp add: grows_def)
  then have "wp (inspect_existing U L p st1) (stepped (nodes w) st1 ?O) w1"
    using inspect_existing_stepped [of w1 st1 U L p] st1 by simp
  then show "wp (inspect_existing U L p st1) (stepped (nodes w) st (\<lambda>st'. ?F st' \<and> ?O st')) w1"
  proof (rule wp_mono)
    fix r w2 assume "stepped (nodes w) st1 ?O r w2"
    then have "stepped (nodes w) st1 (\<lambda>st'. ?F st' \<and> ?O st') r w2"
      by (rule stepped_mono) (use st1(5) expected_files.outcome_stable in blast)
    then show "stepped (nodes w) st (\<lambda>st'. ?F st' \<and> ?O st') r w2"
      by (rule stepped_from [OF _ st1(4)])
  qed
qed simp

text \<open>A fresh inspection that knows the plan paths.\<close>

definition prepared :: "plan \<Rightarrow> string set \<Rightarrow> inspection \<Rightarrow> bool" where
  "prepared p K st =
     (differences st = [] \<and> owned st = [] \<and> prior st = None \<and> current st = [] \<and>
      dom (map_of (expected st)) = K)"

lemma prepared_expect:
  "prepared p K st \<Longrightarrow> prepared p (insert k K) (expect_content k content h st)"
  by (simp add: prepared_def expect_content_def update_conv')

abbreviation (input) reads_inspected where
  "reads_inspected U L p options N \<equiv>
     \<lambda>r w'. nodes w' = N \<and> (\<forall>st. r = Inr st \<longrightarrow> inspected U L p options N st)"

lemma inspect_owned_inspected:
  assumes "prepared p (gen_path ` set (Files p)) st"
    and "\<forall>k\<in>plan_paths p. unlinked (nodes w) (split_on slash k)"
  shows "wp (inspect_owned U L p options st) (reads_inspected U L p options (nodes w)) w"
proof -
  let ?N = "nodes w" and ?mp = "ManifestPath (Target p)"
  let ?st = "expect_content ?mp (ManifestContent p) (hashContent L (ManifestContent p)) st"
  have st: "prepared p (plan_paths p) ?st"
    unfolding plan_paths_def by (rule prepared_expect [OF assms(1)])
  have contents: "wp (inspect_contents U L p st1) (reads_inspected U L p options ?N) w1"
    if w1: "nodes w1 = ?N" "truthful ?N st1" "stale_owned st1" "manifest_seen U L p options ?N st1"
      "prior st1 = None \<longrightarrow> owned st1 = []" "expected st1 = expected ?st" for st1 w1
  proof -
    have "wp (inspect_contents U L p st1) (stepped ?N st1 (\<lambda>st'.
        (\<forall>f\<in>set (Files p). expected_seen L ?N f st') \<and>
        (\<forall>own\<in>set (owned st'). prior_seen ?N own st'))) w1"
      using inspect_contents_stepped [of w1 st1 U L p] w1 by simp
    then show ?thesis
    proof (rule wp_mono)
      fix r w2
      assume r: "stepped ?N st1 (\<lambda>st'. (\<forall>f\<in>set (Files p). expected_seen L ?N f st') \<and>
        (\<forall>own\<in>set (owned st'). prior_seen ?N own st')) r w2"
      have "inspected U L p options ?N st2" if "r = Inr st2" for st2
        using r that assms(2) st w1(6) manifest_seen_stable [OF _ w1(4), of st2]
        by (simp add: stepped_def inspected_def prepared_def) (simp add: grows_def)
      then show "reads_inspected U L p options ?N r w2" using r by (simp add: stepped_def)
    qed
  qed
  show ?thesis
    unfolding inspect_owned_def wp_bind
    by (rule wp_mono [OF wp_inspect_manifest])
      (use st contents in \<open>auto simp: prepared_def split: sum.splits\<close>)
qed

lemma inspect_inspected:
  assumes plain: "\<And>k. k \<in> plan_paths p \<Longrightarrow> plain_parts (split_on slash k)"
  shows "wp (inspect U L p options) (reads_inspected U L p options (nodes w)) w"
proof -
  let ?mp = "ManifestPath (Target p)"
  have files: "\<forall>f\<in>set (Files p). plain_parts (split_on slash (gen_path f))"
      and mp: "plain_parts (split_on slash ?mp)"
    using plain by (auto simp: plan_paths_def)
  have below: "wp (inspect_below U L p options st) (reads_inspected U L p options (nodes w)) w1"
    if w1: "nodes w1 = nodes w" "prepared p (gen_path ` set (Files p)) st"
      "\<forall>f\<in>set (Files p). unlinked (nodes w) (split_on slash (gen_path f))" for st w1
  proof -
    have owned: "wp (inspect_owned U L p options st) (reads_inspected U L p options (nodes w)) w2"
      if "nodes w2 = nodes w" "unlinked (nodes w) (split_on slash ?mp)" for w2
      using inspect_owned_inspected [OF w1(2), of w2 U L options] that w1(3)
      by (simp add: plan_paths_def)
    show ?thesis
      unfolding inspect_below_def wp_bind
      by (rule wp_mono [OF rejectSymlinkComponents_unlinked [OF mp]])
        (use w1 owned in \<open>auto split: sum.splits\<close>)
  qed
  show ?thesis
    unfolding inspect_def wp_bind
    by (rule wp_mono [OF expect_files_loop [OF files]])
      (auto split: sum.splits intro!: below simp: empty_inspection_def prepared_def)
qed

end
