(* ===== verification/Gen_Protect.thy ===== *)
theory Gen_Protect
  imports Gen_Apply Gen_Inspect_Laws
begin

text \<open>
  What applying a plan may touch, under any sequence of faults, and what holds when it
  succeeds.
\<close>

section \<open>The lock\<close>

definition lock_phys :: "plan \<Rightarrow> phys" where
  "lock_phys p = [''.spice'', ID (Target p) @ ''.lock'']"

lemma lock_plain:
  assumes "slash \<notin> set (ID (Target p))"
  shows "plain_parts (lock_phys p)" "lockPath p = name_of (lock_phys p)"
proof -
  have "ID (Target p) @ ''.lock'' \<notin> {[], ''.'', ''..''}" by (auto simp: append_eq_Cons_conv)
  then show plain: "plain_parts (lock_phys p)"
    using assms by (simp add: lock_phys_def plain_part_def)
  then show "lockPath p = name_of (lock_phys p)"
    using path_join_name [of "[''.spice'']" "ID (Target p) @ ''.lock''"]
    by (simp add: lockPath_def lock_phys_def)
qed

text \<open>The tree while the lock is held, and after a failed attempt to take it.\<close>

definition lock_taken :: "plan \<Rightarrow> tree \<Rightarrow> go_error + unit \<Rightarrow> world \<Rightarrow> bool" where
  "lock_taken p N r w' =
     (evolves {} {lock_phys p} {lock_phys p} N (nodes w') \<and>
      (r = Inr () \<longrightarrow> node_at N (lock_phys p) = None \<and> (wf_tree N \<longrightarrow> wf_tree (nodes w')) \<and>
         no_links (nodes w') [''.spice''] \<and> (\<exists>c m. node_at (nodes w') (lock_phys p) = Some (File c m))))"

lemma ensured_evolves: "ensured D ps N r w' \<Longrightarrow> evolves T S D N (nodes w')"
  by (auto simp: ensured_def elim: evolves_mono)

lemma acquireLock_taken:
  assumes "slash \<notin> set (ID (Target p))"
  shows "wp (acquireLock U L p) (lock_taken p (nodes w)) w"
proof -
  let ?l = "lock_phys p" and ?c = "ID (Target p) @ ''.lock''"
  have l: "?l = [''.spice''] @ [?c]" by (simp add: lock_phys_def)
  have plain: "plain_parts ([''.spice''] @ [?c])" using lock_plain(1) [OF assms] l by simp
  have name: "lockPath p = name_of ([''.spice''] @ [?c])" using lock_plain(2) [OF assms] l by simp
  have failed: "lock_taken p (nodes w) (Inl e) w'"
    if "evolves {} {?l} {?l} (nodes w) (nodes w')" for e and w' :: world
    using that by (simp add: lock_taken_def)
  have wrote: "wp (write_lock U L p ?l) (lock_taken p (nodes w)) w2"
    if e1: "ensured {?l} [''.spice''] (nodes w) (Inr ()) w1" and fresh: "node_at (nodes w1) ?l = None"
      and wf: "wf_tree (nodes w) \<longrightarrow> node_at (nodes w1) [''.spice''] = Some Directory"
      and w2: "nodes w2 = AList.update ?l (File [] 384) (nodes w1)" for w1 w2
  proof -
    have ev1: "evolves {} {?l} {?l} (nodes w) (nodes w1)"
      using e1 by (rule ensured_evolves)
    have old: "node_at (nodes w) ?l = None"
      using evolves_kept [OF ev1, of ?l] fresh by (cases "node_at (nodes w) ?l") auto
    have links: "no_links (nodes w1) [''.spice'']" using e1 by (simp add: ensured_def)
    have put: "evolves {} {?l} {?l} (nodes w) (AList.update ?l (File c m) (nodes w1))" for c m
      by (rule evolves_trans [OF ev1 evolves_put]) (use fresh in auto)
    have keep: "wf_tree (nodes w) \<longrightarrow> wf_tree (AList.update ?l (File c m) (nodes w1))" for c m
      using e1 wf fresh wf_update [of "nodes w1" ?l] by (auto simp: ensured_def lock_phys_def)
    have taken: "lock_taken p (nodes w) (Inr ()) w3"
      if "nodes w3 = AList.update ?l (File c m) (nodes w1)" for c m and w3 :: world
      using that put keep old links by (simp add: lock_taken_def) (simp add: lock_phys_def)
    have removed: "evolves {} {?l} {?l} (nodes w) (AList.delete ?l (AList.update ?l (File c m) (nodes w1)))"
      for c m
      by (rule evolves_fresh [OF put [of c m] old, of "{?l}"])
        (auto intro: evolves_drop simp: lock_phys_def)
    have undo: "wp (remove (lockPath p)) (\<lambda>x. lock_taken p (nodes w) (Inl (f x))) w3"
      if "nodes w3 = AList.update ?l (File c m) (nodes w1)" for c m f w3
      unfolding name
      by (rule wp_remove_in [OF plain]) (use that links failed put removed l in auto)
    show ?thesis
      unfolding write_lock_def wp_bind
      by (rule wp_write_handle [where old = "[]" and perm = 384])
        (use w2 taken undo update_last in \<open>auto intro!: wp_may_fail simp: lock_phys_def split: option.splits\<close>)
  qed
  have created: "wp (create_lock U L p) (lock_taken p (nodes w)) w1"
    if e1: "ensured {?l} [''.spice''] (nodes w) (Inr ()) w1" for w1
    unfolding create_lock_def wp_bind
  proof (rule wp_create_excl)
    fix q and w2 :: world
    assume q: "located (nodes w1) False (lockPath p) = Inr q" "node_at (nodes w1) q = None"
      "nodes w2 = AList.update q (File [] 384) (nodes w1)"
    have "q = ?l"
      using located_in [OF plain, of "nodes w1" q] q(1) e1 name l by (simp add: ensured_def)
    moreover have "wf_tree (nodes w) \<longrightarrow> node_at (nodes w1) (butlast q) = Some Directory"
      using located_parent [OF _ q(1,2)] e1 by (simp add: ensured_def)
    ultimately have "wp (write_lock U L p q) (lock_taken p (nodes w)) w2"
      using wrote [OF e1] q by (simp add: lock_phys_def)
    then show "wp (case Inr q of Inl e \<Rightarrow> ret (Inl (f e)) | Inr h \<Rightarrow> write_lock U L p h)
        (lock_taken p (nodes w)) w2" for f
      by simp
  next
    fix e and w2 :: world assume "nodes w2 = nodes w1"
    then have "lock_taken p (nodes w) (Inl e') w2" for e'
      using failed ensured_evolves [OF e1] by simp
    then show "wp (case Inl e of Inl e \<Rightarrow> ret (Inl (f e)) | Inr h \<Rightarrow> write_lock U L p h)
        (lock_taken p (nodes w)) w2" for f
      by simp
  qed
  have "wp (ensureDirectories U (path_dir (lockPath p))) (ensured {?l} [''.spice''] (nodes w)) w"
    unfolding name by (rule ensureDirectories_ensured [OF plain]) (simp add: l)
  then show ?thesis
    unfolding acquireLock_def wp_bind
    by (rule wp_mono)
      (use created failed ensured_evolves in \<open>auto split: sum.splits\<close>)
qed

section \<open>Writing the planned files\<close>

definition free_path :: "tree \<Rightarrow> phys \<Rightarrow> bool" where
  "free_path N d = (no_links N d \<and> (\<forall>n. node_at N d = Some n \<longrightarrow> is_regular n))"

lemma wp_replace:
  assumes "plain_parts (phys_of k)" "free_path (nodes w) (phys_of k)"
  shows "wp (replaceFile U L k content mode goSource)
    (written (phys_of k) content mode {phys_of k} (nodes w)) w"
proof -
  obtain ps c where k: "phys_of k = ps @ [c]" by (cases "phys_of k" rule: rev_cases) auto
  then have "k = name_of (ps @ [c])" by (metis join_split)
  then show ?thesis
    using replaceFile_written [of ps c w "{ps @ [c]}" U L content mode goSource] assms k
    by (simp add: free_path_def no_links_snoc)
qed

lemma evolves_free:
  assumes "evolves T S D N N'" "free_path N d" "\<And>b. b \<in> D \<Longrightarrow> \<not> strict_prefix d b"
  shows "free_path N' d"
proof -
  have "is_regular n" if "node_at N' d = Some n" for n
    using evolves_new [OF assms(1) that] assms(2,3) by (auto simp: free_path_def)
  then show ?thesis using evolves_no_links [OF assms(1)] assms(2) by (simp add: free_path_def)
qed

abbreviation outdated :: "inspection \<Rightarrow> gen_file \<Rightarrow> bool" where
  "outdated st f \<equiv> lookup_bytes (current st) (gen_path f) \<noteq> Content f"

definition to_write :: "inspection \<Rightarrow> gen_file list \<Rightarrow> phys set" where
  "to_write st fs = (\<lambda>f. phys_of (gen_path f)) ` {f \<in> set fs. outdated st f}"

definition separate :: "phys set \<Rightarrow> bool" where
  "separate D = (\<forall>a\<in>D. \<forall>b\<in>D. \<not> strict_prefix a b)"

definition files_written ::
    "inspection \<Rightarrow> gen_file list \<Rightarrow> phys set \<Rightarrow> tree \<Rightarrow> go_error + 'a \<Rightarrow> world \<Rightarrow> bool" where
  "files_written st fs D N r w' =
     (evolves (to_write st fs) UNIV D N (nodes w') \<and>
      (\<forall>x. r = Inr x \<longrightarrow> evolves (to_write st fs) (to_write st fs) D N (nodes w') \<and>
         (\<forall>f\<in>set fs. outdated st f \<longrightarrow>
            node_at (nodes w') (phys_of (gen_path f)) = Some (File (Content f) (gen_mode f)))))"

lemma phys_of_inj: "phys_of a = phys_of b \<Longrightarrow> a = b"
  by (metis join_split)

lemma write_files_written:
  assumes "\<forall>f\<in>set fs. plain_parts (phys_of (gen_path f)) \<and> free_path (nodes w) (phys_of (gen_path f)) \<and>
      phys_of (gen_path f) \<in> D"
    and "separate D" "distinct (map gen_path fs)"
  shows "wp (each (write_file U L st) acc fs) (files_written st fs D (nodes w)) w"
  using assms(1,3)
proof (induction fs arbitrary: acc w)
  case (Cons f fs)
  let ?d = "phys_of (gen_path f)"
  show ?case
  proof (cases "outdated st f")
    case False
    then have "to_write st (f # fs) = to_write st fs" by (auto simp: to_write_def)
    then show ?thesis
      using False Cons by (auto simp: write_file_def files_written_def elim!: wp_mono)
  next
    case True
    then have X: "to_write st (f # fs) = insert ?d (to_write st fs)" by (auto simp: to_write_def)
    have other: "?d \<notin> to_write st fs"
      using Cons.prems(2) phys_of_inj by (auto simp: to_write_def)
    have failed: "files_written st (f # fs) D (nodes w) (Inl e :: go_error + string list) w'"
      if "evolves {?d} UNIV {?d} (nodes w) (nodes w')" for e and w' :: world
      using evolves_mono [OF that, of "insert ?d (to_write st fs)" UNIV D] Cons.prems(1) X
      by (simp add: files_written_def)
    have rest: "wp (each (write_file U L st) acc' fs) (files_written st (f # fs) D (nodes w)) w'"
      if w': "written ?d (Content f) (gen_mode f) {?d} (nodes w) (Inr ()) w'" for acc' w'
    proof -
      have e: "evolves {?d} {?d} {?d} (nodes w) (nodes w')"
          "node_at (nodes w') ?d = Some (File (Content f) (gen_mode f))"
        using w' by (simp_all add: written_def)
      have "free_path (nodes w') (phys_of (gen_path g))" if "g \<in> set fs" for g
        using evolves_free [OF e(1)] Cons.prems(1) that assms(2) by (auto simp: separate_def)
      then have "wp (each (write_file U L st) acc' fs) (files_written st fs D (nodes w')) w'"
        using Cons.IH [of w' acc'] Cons.prems by simp
      then show ?thesis
      proof (rule wp_mono)
        fix r w'' assume r: "files_written st fs D (nodes w') r w''"
        have e2: "evolves (to_write st fs) (to_write st fs) D (nodes w') (nodes w'')" if "r = Inr x" for x
          using r that by (simp add: files_written_def)
        have "evolves (insert ?d (to_write st fs)) UNIV D (nodes w) (nodes w'')"
          by (rule evolves_trans [OF evolves_mono [OF e(1)] evolves_mono])
            (use r Cons.prems(1) in \<open>auto simp: files_written_def\<close>)
        moreover have "evolves (insert ?d (to_write st fs)) (insert ?d (to_write st fs)) D (nodes w) (nodes w'')"
          if "r = Inr x" for x
          by (rule evolves_trans [OF evolves_mono [OF e(1)] evolves_mono [OF e2 [OF that]]])
            (use Cons.prems(1) in auto)
        moreover have "node_at (nodes w'') ?d = Some (File (Content f) (gen_mode f))" if "r = Inr x" for x
          by (rule evolves_kept [OF e2 [OF that] other e(2)])
        ultimately show "files_written st (f # fs) D (nodes w) r w''"
          using r X by (auto simp: files_written_def)
      qed
    qed
    have "wp (replaceFile U L (gen_path f) (Content f) (gen_mode f) (path_ext (gen_path f) = ''.go''))
        (written ?d (Content f) (gen_mode f) {?d} (nodes w)) w"
      by (rule wp_replace) (use Cons.prems(1) in auto)
    then have "wp (write_file U L st acc f) (\<lambda>r w'. case r of
          Inl e \<Rightarrow> evolves {?d} UNIV {?d} (nodes w) (nodes w')
        | Inr acc \<Rightarrow> written ?d (Content f) (gen_mode f) {?d} (nodes w) (Inr ()) w') w"
      using True by (auto simp: write_file_def written_def elim!: wp_mono split: sum.splits)
    then show ?thesis
      unfolding each.simps wp_bind
      by (rule wp_mono) (use failed rest in \<open>auto split: sum.splits\<close>)
  qed
qed (simp add: files_written_def)

section \<open>Removing stale files\<close>

lemma evolves_delete:
  "evolves T S D N N' \<Longrightarrow> q \<in> T \<or> node_at N q = None \<Longrightarrow> evolves T S D N (AList.delete q N')"
  by (auto simp: evolves_def split: if_splits)

text \<open>The files whose content has the hash recorded for an owned path.\<close>

definition owned_content :: "gen_library \<Rightarrow> inspection \<Rightarrow> tree \<Rightarrow> phys set" where
  "owned_content L st N =
     {q. \<exists>content perm k. node_at N q = Some (File content perm) \<and>
        map_of (owned st) k = Some (hashContent L content)}"

lemma hash_owned: "hashContent L content = lookup_bytes m k \<Longrightarrow> map_of m k = Some (hashContent L content)"
  by (cases "map_of m k") (simp_all add: lookup_bytes_def hashContent_def)

lemma remove_files_evolves:
  assumes "evolves T S D N (nodes w)" "owned_content L st N \<subseteq> T"
  shows "wp (each (remove_stale U L st) acc ds) (\<lambda>r w'. evolves T S D N (nodes w')) w"
  using assms(1)
proof (induction ds arbitrary: acc w)
  case (Cons d ds)
  have drop: "evolves T S D N (AList.delete q (nodes w))"
    if "node_at (nodes w) q = Some (File content perm)"
      "hashContent L content = lookup_bytes (owned st) (diff_path d)" for q content perm
  proof (rule evolves_delete [OF Cons.prems])
    show "q \<in> T \<or> node_at N q = None"
    proof (cases "q \<in> T \<or> node_at N q = None")
      case False
      then have "node_at N q = Some (File content perm)"
        using evolves_kept [OF Cons.prems] that(1) by fastforce
      then show ?thesis using assms(2) hash_owned [OF that(2)] by (auto simp: owned_content_def)
    qed
  qed
  have "wp (removeOwnedFile U L (diff_path d) (lookup_bytes (owned st) (diff_path d)))
      (\<lambda>r w'. evolves T S D N (nodes w')) w"
    by (rule wp_removeOwnedFile) (use Cons.prems drop in auto)
  then have "wp (remove_stale U L st acc d) (\<lambda>r w'. evolves T S D N (nodes w')) w"
    using Cons.prems by (auto simp: remove_stale_def elim: wp_mono)
  then show ?case
    unfolding each.simps wp_bind by (rule wp_mono) (use Cons.IH in \<open>auto split: sum.splits\<close>)
qed simp

text \<open>
  Without symbolic links on the way the removal hits the named file itself, and afterwards
  nothing is left at a stale path that lies below directories.
\<close>

definition stale_phys :: "difference list \<Rightarrow> phys set" where
  "stale_phys ds =
     (\<lambda>d. phys_of (diff_path d)) ` {d \<in> set ds. diff_kind d = DifferenceStaleOwnedFile}"

definition below_dirs :: "tree \<Rightarrow> phys \<Rightarrow> bool" where
  "below_dirs N q = (\<forall>r. strict_prefix r q \<longrightarrow> node_at N r = Some Directory)"

definition stale_removed :: "difference list \<Rightarrow> tree \<Rightarrow> go_error + 'a \<Rightarrow> world \<Rightarrow> bool" where
  "stale_removed ds N r w' =
     (evolves (stale_phys ds) {} {} N (nodes w') \<and>
      (\<forall>q. node_at N q = Some Directory \<longrightarrow> node_at (nodes w') q = Some Directory) \<and>
      (\<forall>x. r = Inr x \<longrightarrow> (\<forall>q\<in>stale_phys ds. below_dirs N q \<longrightarrow> node_at (nodes w') q = None)))"

lemma located_phys:
  assumes "plain_parts (phys_of k)" "no_links N (phys_of k)" "located N False k = Inr q"
  shows "q = phys_of k"
proof -
  obtain ps c where k: "phys_of k = ps @ [c]" by (cases "phys_of k" rule: rev_cases) auto
  then have "k = name_of (ps @ [c])" by (metis join_split)
  then show ?thesis using located_in [of ps c N q] assms k by (simp add: no_links_snoc)
qed

lemma below_dirs_located:
  assumes "plain_parts (phys_of k)" "below_dirs N (phys_of k)"
  shows "located N False k = Inr (phys_of k)"
  using located_dirs [of "phys_of k" N False] assms by (simp add: below_dirs_def)

lemma removeOwnedFile_removed:
  assumes plain: "plain_parts (phys_of k)" and links: "no_links (nodes w) (phys_of k)"
  shows "wp (removeOwnedFile U L k h) (\<lambda>r w'.
    evolves {phys_of k} {} {} (nodes w) (nodes w') \<and>
    (\<forall>q. node_at (nodes w) q = Some Directory \<longrightarrow> node_at (nodes w') q = Some Directory) \<and>
    (r = Inr () \<longrightarrow> below_dirs (nodes w) (phys_of k) \<longrightarrow> node_at (nodes w') (phys_of k) = None)) w"
proof (rule wp_removeOwnedFile)
  fix q content perm and w' :: world
  assume q: "located (nodes w) False k = Inr q" "node_at (nodes w) q = Some (File content perm)"
    "nodes w' = AList.delete q (nodes w)"
  moreover have "q = phys_of k" by (rule located_phys [OF plain links q(1)])
  ultimately show "evolves {phys_of k} {} {} (nodes w) (nodes w') \<and>
    (\<forall>q. node_at (nodes w) q = Some Directory \<longrightarrow> node_at (nodes w') q = Some Directory) \<and>
    (Inr () = Inr () \<longrightarrow> below_dirs (nodes w) (phys_of k) \<longrightarrow> node_at (nodes w') (phys_of k) = None)"
    by (auto intro: evolves_drop)
qed (use below_dirs_located [OF plain] in \<open>auto simp: absent_def\<close>)

lemma remove_files_removed:
  assumes "\<forall>d\<in>set ds. diff_kind d = DifferenceStaleOwnedFile \<longrightarrow>
    plain_parts (phys_of (diff_path d)) \<and> no_links (nodes w) (phys_of (diff_path d))"
  shows "wp (each (remove_stale U L st) acc ds) (stale_removed ds (nodes w)) w"
  using assms
proof (induction ds arbitrary: acc w)
  case (Cons d ds)
  let ?q = "phys_of (diff_path d)"
  show ?case
  proof (cases "diff_kind d = DifferenceStaleOwnedFile")
    case False
    then have "stale_phys (d # ds) = stale_phys ds" by (auto simp: stale_phys_def)
    then show ?thesis
      using False Cons by (auto simp: remove_stale_def stale_removed_def elim!: wp_mono)
  next
    case True
    then have R: "stale_phys (d # ds) = insert ?q (stale_phys ds)" by (auto simp: stale_phys_def)
    let ?step = "\<lambda>r w'. evolves {?q} {} {} (nodes w) (nodes w') \<and>
      (\<forall>q. node_at (nodes w) q = Some Directory \<longrightarrow> node_at (nodes w') q = Some Directory) \<and>
      ((\<exists>x. r = Inr x) \<longrightarrow> below_dirs (nodes w) ?q \<longrightarrow> node_at (nodes w') ?q = None)"
    have rest: "wp (each (remove_stale U L st) acc' ds) (stale_removed (d # ds) (nodes w)) w'"
      if w': "?step (Inr x :: go_error + string list) w'" for acc' x w'
    proof -
      have "wp (each (remove_stale U L st) acc' ds) (stale_removed ds (nodes w')) w'"
        by (rule Cons.IH) (use Cons.prems w' evolves_no_links in auto)
      then show ?thesis
      proof (rule wp_mono)
        fix r w'' assume r: "stale_removed ds (nodes w') r w''"
        have e: "evolves (insert ?q (stale_phys ds)) {} {} (nodes w) (nodes w'')"
          by (rule evolves_trans [OF evolves_mono evolves_mono])
            (use w' r in \<open>auto simp: stale_removed_def\<close>)
        have gone: "node_at (nodes w'') q = None" if "node_at (nodes w') q = None" for q
          using evolves_new [of "stale_phys ds" "{}" "{}" "nodes w'" "nodes w''" q] r that
          by (cases "node_at (nodes w'') q") (auto simp: stale_removed_def)
        have dirs: "below_dirs (nodes w') q" if "below_dirs (nodes w) q" for q
          using that w' by (simp add: below_dirs_def)
        have "node_at (nodes w'') q = None"
          if "r = Inr y" "q \<in> insert ?q (stale_phys ds)" "below_dirs (nodes w) q" for y q
        proof (cases "q = ?q")
          case True
          then show ?thesis using w' that(3) gone by simp
        next
          case False
          then show ?thesis using r that dirs by (simp add: stale_removed_def)
        qed
        then show "stale_removed (d # ds) (nodes w) r w''"
          using e r w' by (simp add: stale_removed_def R)
      qed
    qed
    have "wp (remove_stale U L st acc d) ?step w"
      using True Cons.prems
      by (auto simp: remove_stale_def intro!: wp_mono [OF removeOwnedFile_removed] split: sum.splits)
    then show ?thesis
      unfolding each.simps wp_bind
    proof (rule wp_mono)
      fix r :: "go_error + string list" and w' :: world
      assume r: "?step r w'"
      show "wp (case r of Inl e \<Rightarrow> ret (Inl e) | Inr st' \<Rightarrow> each (remove_stale U L st) st' ds)
          (stale_removed (d # ds) (nodes w)) w'"
        using r rest R evolves_mono [of "{?q}" "{}" "{}" "nodes w" "nodes w'"]
        by (cases r) (auto simp: stale_removed_def)
    qed
  qed
qed (simp add: stale_removed_def stale_phys_def)

section \<open>All changes\<close>

lemma evolves_UNIV: "evolves T S D N N' \<Longrightarrow> evolves T UNIV D N N'"
  by (rule evolves_mono) auto

lemma write_manifest_evolves:
  assumes "plain_parts (phys_of (ManifestPath (Target p)))"
    and "free_path (nodes w) (phys_of (ManifestPath (Target p)))"
  shows "wp (write_manifest U L p st) (\<lambda>r w'.
    (let d = phys_of (ManifestPath (Target p))
     in evolves {d} UNIV {d} (nodes w) (nodes w') \<and>
        (\<forall>updated. r = Inr updated \<longrightarrow> evolves {d} {d} {d} (nodes w) (nodes w') \<and>
           (if lookup_bytes (current st) (ManifestPath (Target p)) = ManifestContent p
            then nodes w' = nodes w
            else node_at (nodes w') d = Some (File (ManifestContent p) 420))))) w"
  unfolding write_manifest_def Let_def wp_if wp_bind
  by (auto intro!: wp_mono [OF wp_replace [OF assms]] simp: written_def
      intro: evolves_UNIV split: sum.splits)

definition may_touch :: "gen_library \<Rightarrow> plan \<Rightarrow> inspection \<Rightarrow> tree \<Rightarrow> phys set" where
  "may_touch L p st N =
     to_write st (Files p) \<union> owned_content L st N \<union> {phys_of (ManifestPath (Target p))}"

definition plan_phys :: "plan \<Rightarrow> phys set" where
  "plan_phys p = phys_of ` plan_paths p"

lemma apply_changes_evolves:
  assumes paths: "\<And>k. k \<in> plan_paths p \<Longrightarrow> plain_parts (phys_of k) \<and> free_path (nodes w) (phys_of k)"
    and sep: "separate (plan_phys p)" and dist: "distinct (map gen_path (Files p))"
  shows "wp (apply_changes U L p st)
    (\<lambda>r w'. evolves (may_touch L p st (nodes w)) UNIV (plan_phys p) (nodes w) (nodes w')) w"
proof -
  let ?T = "may_touch L p st (nodes w)" and ?D = "plan_phys p" and ?mp = "ManifestPath (Target p)"
  let ?E = "\<lambda>w'. evolves ?T UNIV ?D (nodes w) (nodes w')"
  have mp: "?mp \<in> plan_paths p" "phys_of ?mp \<in> ?D" "phys_of ?mp \<in> ?T"
    by (simp_all add: plan_paths_def plan_phys_def may_touch_def)
  have files: "wp (each (write_file U L st) [] (Files p)) (\<lambda>r. ?E) w"
    by (rule wp_mono [OF write_files_written [of "Files p" w ?D]])
      (use paths sep dist in \<open>auto simp: files_written_def may_touch_def plan_paths_def plan_phys_def
        elim: evolves_mono\<close>)
  have removed: "wp (each (remove_stale U L st) [] (differences st)) (\<lambda>r. ?E) w'" if "?E w'" for w'
    by (rule remove_files_evolves) (use that in \<open>auto simp: may_touch_def\<close>)
  have manifest: "wp (write_manifest U L p st) (\<lambda>r. ?E) w'" if e: "?E w'" for w'
  proof -
    have "free_path (nodes w') (phys_of ?mp)"
      by (rule evolves_free [OF e]) (use paths mp sep in \<open>auto simp: separate_def\<close>)
    then show ?thesis
      using paths [OF mp(1)]
      by (intro wp_mono [OF write_manifest_evolves])
        (use mp in \<open>auto simp: Let_def intro: evolves_trans [OF e] elim!: evolves_mono\<close>)
  qed
  have finish: "wp (finish_changes U L p st ws rs) (\<lambda>r. ?E) w'" if "?E w'" for ws rs w'
    unfolding finish_changes_def wp_bind by (rule wp_mono [OF manifest [OF that]]) simp
  have rest: "wp (remove_and_finish U L p st ws) (\<lambda>r. ?E) w'" if "?E w'" for ws w'
    unfolding remove_and_finish_def wp_bind
    by (rule wp_mono [OF removed [OF that]]) (use finish in \<open>auto split: sum.splits\<close>)
  show ?thesis
    unfolding apply_changes_def wp_bind
    by (rule wp_mono [OF files]) (use rest in \<open>auto split: sum.splits\<close>)
qed

section \<open>What may be replaced\<close>

text \<open>
  A regular file that applying the plan may replace or remove: the ownership manifest itself,
  when it decodes, and files whose content has the hash the manifest records (or, if two
  contents have the same hash, an owned file whose hash is already the expected one).
\<close>

definition replaceable ::
    "unicode_tables \<Rightarrow> gen_library \<Rightarrow> plan \<Rightarrow> apply_options \<Rightarrow> tree \<Rightarrow> phys \<Rightarrow> bool" where
  "replaceable U L p options N q =
     (let mp = phys_of (ManifestPath (Target p))
      in \<exists>content perm. node_at N q = Some (File content perm) \<and>
        (q = mp \<and> (\<exists>m. decodeManifest U L content p options = Inr m) \<or>
         (\<exists>record mode m f. node_at N mp = Some (File record mode) \<and>
            decodeManifest U L record p options = Inr m \<and> f \<in> set (manifest_files m) \<and>
            (own_sha256 f = hashContent L content \<or>
             (\<exists>g\<in>set (Files p). gen_path g = own_path f \<and> q = phys_of (gen_path g) \<and>
                hashContent L content = hashContent L (Content g) \<and> content \<noteq> Content g)))))"

lemma replaceable_transfer:
  assumes "\<And>c m. node_at N q = Some (File c m) \<Longrightarrow> node_at N' q = Some (File c m)"
    and "\<And>c m. node_at N (phys_of (ManifestPath (Target p))) = Some (File c m) \<Longrightarrow>
      node_at N' (phys_of (ManifestPath (Target p))) = Some (File c m)"
    and "replaceable U L p options N q"
  shows "replaceable U L p options N' q"
proof -
  obtain content perm where c: "node_at N q = Some (File content perm)"
      "q = phys_of (ManifestPath (Target p)) \<and> (\<exists>m. decodeManifest U L content p options = Inr m) \<or>
       (\<exists>record mode m f. node_at N (phys_of (ManifestPath (Target p))) = Some (File record mode) \<and>
          decodeManifest U L record p options = Inr m \<and> f \<in> set (manifest_files m) \<and>
          (own_sha256 f = hashContent L content \<or>
           (\<exists>g\<in>set (Files p). gen_path g = own_path f \<and> q = phys_of (gen_path g) \<and>
              hashContent L content = hashContent L (Content g) \<and> content \<noteq> Content g)))"
    using assms(3) unfolding replaceable_def Let_def by blast
  show ?thesis
    unfolding replaceable_def Let_def
    by (intro exI conjI, rule assms(1) [OF c(1)], use c(2) assms(2) in blast)
qed

lemma manifest_seen_node:
  assumes "wf_tree N" "plain_parts (phys_of (ManifestPath (Target p)))"
    and "no_links N (phys_of (ManifestPath (Target p)))" "manifest_seen U L p options N st"
  shows "node_at N (phys_of (ManifestPath (Target p))) = None \<and> owned st = [] \<or>
    (\<exists>content perm m. node_at N (phys_of (ManifestPath (Target p))) = Some (File content perm) \<and>
       decodeManifest U L content p options = Inr m \<and> owned st = owned_map (manifest_files m))"
  using assms(4) absent_none [OF assms(1-3)] located_phys [OF assms(2,3)]
  by (auto simp: manifest_seen_def Let_def)

lemma expected_seen_node:
  assumes "wf_tree N" "plain_parts (phys_of (gen_path g))" "no_links N (phys_of (gen_path g))"
    and "expected_seen L N g st" "truthful N st" "\<not> conflicting (gen_path g) st"
    and n: "node_at N (phys_of (gen_path g)) = Some n"
  shows "\<exists>content perm h. n = File content perm \<and> map_of (current st) (gen_path g) = Some content \<and>
    map_of (owned st) (gen_path g) = Some h \<and>
    (hashContent L content = SHA256 g \<or> hashContent L content = h)"
proof -
  have "\<not> is_link n" using no_linksD [OF assms(3)] n by (cases n) auto
  then have at: "located N follow (gen_path g) = Inr (phys_of (gen_path g))" for follow
    using wf_existing [OF assms(1,2) n] by simp
  then have "\<not> absent N (gen_path g)" using n by (simp add: absent_def)
  then obtain content perm h where c: "n = File content perm"
      "gen_path g \<in> dom (map_of (current st))" "map_of (owned st) (gen_path g) = Some h"
      "hashContent L content = SHA256 g \<or> hashContent L content = h"
    using assms(4,6) at n by (auto simp: expected_seen_def)
  moreover have "seen = content" if "map_of (current st) (gen_path g) = Some seen" for seen
  proof -
    have "content_at N (gen_path g) seen" using assms(5) that by (simp add: truthful_def)
    then show ?thesis using at [of True] n c(1) by (simp add: content_at_def)
  qed
  ultimately show ?thesis by (auto simp: dom_def)
qed

text \<open>The facts the changes rely on, after an inspection without conflicts.\<close>

lemma inspected_facts:
  assumes "wf_tree N" "inspected U L p options N st" "protectedDifferences (differences st) = []"
    and "plan_ok U L p"
  shows "\<And>k. k \<in> plan_paths p \<Longrightarrow> plain_parts (phys_of k) \<and> free_path N (phys_of k)"
    and "\<And>q. q \<in> may_touch L p st N \<Longrightarrow> node_at N q = None \<or> replaceable U L p options N q"
proof -
  let ?mp = "ManifestPath (Target p)"
  have plain: "plain_parts (phys_of k)" if "k \<in> plan_paths p" for k
    using that assms(4) by (auto simp: plan_paths_def plan_ok_def plan_file_ok_def module_path_def)
  have links: "no_links N (phys_of k)" if "k \<in> plan_paths p" for k
    using unlinked_no_links [OF assms(1) evolves_refl] assms(2) that by (auto simp: inspected_def)
  have calm: "\<not> conflicting k st" for k
    using assms(3) by (auto simp: conflicting_def protectedDifferences_def filter_empty_conv)
  have manifest: "node_at N (phys_of ?mp) = None \<and> owned st = [] \<or>
      (\<exists>content perm m. node_at N (phys_of ?mp) = Some (File content perm) \<and>
         decodeManifest U L content p options = Inr m \<and> owned st = owned_map (manifest_files m))"
    by (rule manifest_seen_node [OF assms(1)])
      (use plain links assms(2) in \<open>auto simp: plan_paths_def inspected_def\<close>)
  have gen: "\<exists>content perm h. n = File content perm \<and> map_of (current st) (gen_path g) = Some content \<and>
      map_of (owned st) (gen_path g) = Some h \<and>
      (hashContent L content = SHA256 g \<or> hashContent L content = h)"
    if "g \<in> set (Files p)" "node_at N (phys_of (gen_path g)) = Some n" for g n
    by (rule expected_seen_node [OF assms(1) _ _ _ _ calm that(2)])
      (use that(1) plain links assms(2) in \<open>auto simp: plan_paths_def inspected_def\<close>)
  show "plain_parts (phys_of k) \<and> free_path N (phys_of k)" if k: "k \<in> plan_paths p" for k
  proof -
    have "is_regular n" if "node_at N (phys_of k) = Some n" for n
      using k that gen manifest by (fastforce simp: plan_paths_def)
    then show ?thesis using plain [OF k] links [OF k] by (simp add: free_path_def)
  qed
  have owner: "\<exists>record mode m f. node_at N (phys_of ?mp) = Some (File record mode) \<and>
      decodeManifest U L record p options = Inr m \<and> f \<in> set (manifest_files m) \<and>
      own_path f = k \<and> own_sha256 f = h" if "map_of (owned st) k = Some h" for k h
    using manifest that owned_map_Some [of _ k h] by (fastforce)
  show "node_at N q = None \<or> replaceable U L p options N q" if touch: "q \<in> may_touch L p st N" for q
  proof (cases "node_at N q")
    case (Some n)
    consider g where "g \<in> set (Files p)" "outdated st g" "q = phys_of (gen_path g)"
      | "q \<in> owned_content L st N" | "q = phys_of ?mp"
      using touch by (auto simp: may_touch_def to_write_def)
    then have "replaceable U L p options N q"
    proof cases
      case (1 g)
      obtain content perm h where c: "n = File content perm"
          "map_of (current st) (gen_path g) = Some content" "map_of (owned st) (gen_path g) = Some h"
          "hashContent L content = SHA256 g \<or> hashContent L content = h"
        using gen [of g n] 1 Some by auto
      have "SHA256 g = hashContent L (Content g)" "content \<noteq> Content g"
        using assms(4) 1 c(2) by (auto simp: plan_ok_def plan_file_ok_def lookup_bytes_def)
      then show ?thesis
        using owner [OF c(3)] c 1 Some unfolding replaceable_def Let_def by metis
    next
      case 2
      then show ?thesis
        using owner unfolding owned_content_def replaceable_def Let_def by fastforce
    next
      case 3
      then show ?thesis using manifest Some unfolding replaceable_def Let_def by fastforce
    qed
    then show ?thesis ..
  qed simp
qed

section \<open>Applying a plan\<close>

lemma plan_plain: "plan_ok U L p \<Longrightarrow> k \<in> plan_paths p \<Longrightarrow> plain_parts (phys_of k)"
  by (auto simp: plan_paths_def plan_ok_def plan_file_ok_def module_path_def)

lemma apply_locked_evolves:
  assumes "wf_tree (nodes w)" "plan_ok U L p" "separate (plan_phys p)"
  shows "wp (apply_locked U L p options) (\<lambda>r w'.
    evolves {q. node_at (nodes w) q = None \<or> replaceable U L p options (nodes w) q} UNIV
      (plan_phys p) (nodes w) (nodes w')) w"
    (is "wp _ (\<lambda>r w'. ?E w') _")
proof -
  have changes: "wp (apply_changes U L p st) (\<lambda>r. ?E) w1"
    if w1: "nodes w1 = nodes w" "inspected U L p options (nodes w) st"
      "protectedDifferences (differences st) = []" for st w1
  proof -
    note facts = inspected_facts [OF assms(1) w1(2,3) assms(2)]
    have "wp (apply_changes U L p st)
        (\<lambda>r w'. evolves (may_touch L p st (nodes w1)) UNIV (plan_phys p) (nodes w1) (nodes w')) w1"
      by (rule apply_changes_evolves) (use facts(1) w1(1) assms(3) plan_ok_paths [OF assms(2)] in auto)
    then show ?thesis
      by (rule wp_mono) (rule evolves_mono, use w1(1) facts(2) in auto)
  qed
  show ?thesis
    unfolding apply_locked_def Let_def wp_bind
    by (rule wp_mono [OF inspect_inspected]) (use plan_plain [OF assms(2)] changes in \<open>auto split: sum.splits\<close>)
qed

lemma releaseLock_evolves:
  assumes "slash \<notin> set (ID (Target p))" "no_links (nodes w) [''.spice'']"
  shows "wp (releaseLock U p) (\<lambda>r w'.
    (nodes w' = nodes w \<or> nodes w' = AList.delete (lock_phys p) (nodes w)) \<and>
    (r = Inr () \<longrightarrow> nodes w' = AList.delete (lock_phys p) (nodes w) \<or> absent (nodes w) (lockPath p))) w"
proof -
  have l: "lock_phys p = [''.spice''] @ [ID (Target p) @ ''.lock'']" by (simp add: lock_phys_def)
  have "wp (remove (name_of (lock_phys p))) (\<lambda>r w'.
      (nodes w' = nodes w \<or> nodes w' = AList.delete (lock_phys p) (nodes w)) \<and>
      ((\<forall>e. r = Inl e \<longrightarrow> ErrNotExist \<in> set (error_chain e)) \<longrightarrow>
         nodes w' = AList.delete (lock_phys p) (nodes w) \<or> absent (nodes w) (lockPath p))) w"
    using lock_plain [OF assms(1)] unfolding l by (intro wp_remove_in [OF _ assms(2)]) auto
  then show ?thesis
    unfolding releaseLock_def wp_bind lock_plain(2) [OF assms(1), symmetric]
    by (rule wp_mono) (auto split: sum.splits)
qed

text \<open>The deferred calls after the changes: the release of the lock and closing the root.\<close>

lemma wp_joined:
  assumes "wp m P w" "\<And>r w1. P r w1 \<Longrightarrow> wp k (Q r) w1"
    and "\<And>r l w2 w3 c :: go_error + unit. Q r l w2 \<Longrightarrow> nodes w3 = nodes w2 \<Longrightarrow>
      R (case r of Inl e \<Rightarrow> empty_result | Inr x \<Rightarrow> x,
         errors_Join [errors_Join [error_of r, error_of l], error_of c]) w3"
  shows "wp (joined m k) R w"
  unfolding joined_def wp_bind
  by (rule wp_mono [OF assms(1)], drule assms(2), erule wp_mono, rule wp_may_fail)
    (use assms(3) in auto)

text \<open>
  C1. Applying a plan never damages work it does not own.  Under any sequence of faults of the
  file system and whether it succeeds or not, a node of the tree that is different afterwards
  was a regular file that is the decodable ownership manifest, or whose content has the
  hash the manifest records for an owned file (or collides with the expected content's).
\<close>
theorem ApplyWithOptions_protects:
  assumes "wf_tree (nodes w)" "slash \<notin> set (ID (Target p))"
    and "lockPath p \<noteq> ManifestPath (Target p)" "separate (plan_phys p)"
    and "run_state (ApplyWithOptions U L p options) w = (result, w')"
    and "node_at (nodes w) q = Some n" "node_at (nodes w') q \<noteq> Some n"
  shows "replaceable U L p options (nodes w) q"
proof -
  let ?N = "nodes w" and ?l = "lock_phys p"
  let ?P = "\<lambda>N'. \<forall>q n. node_at ?N q = Some n \<longrightarrow> node_at N' q = Some n \<or> replaceable U L p options ?N q"
  have lock: "wp (acquireLock U L p) (lock_taken p ?N) w1" if "nodes w1 = ?N" for w1
    using acquireLock_taken [OF assms(2), of U L w1] that by simp
  have unlocked: "?P N'" if "evolves {} S D ?N N'" for S D N'
    using evolves_kept [OF that] by blast
  have lock_kept: "evolves {} {?l} {?l} ?N (nodes w1)" if "lock_taken p ?N r w1" for r w1
    using that by (simp add: lock_taken_def)
  have earlier: "replaceable U L p options ?N q"
    if t: "lock_taken p ?N (Inr ()) w1" and r: "replaceable U L p options (nodes w1) q" "q \<noteq> ?l" for w1 q
  proof -
    have "phys_of (ManifestPath (Target p)) \<noteq> ?l"
      using assms(3) lock_plain [OF assms(2)] by (metis join_split)
    moreover have "node_at ?N k = Some (File c m)" if "node_at (nodes w1) k = Some (File c m)" "k \<noteq> ?l" for k c m
      using evolves_new [OF lock_kept [OF t] that(1)] that(2) by simp
    ultimately show ?thesis using r by (intro replaceable_transfer [OF _ _ r(1)]) auto
  qed
  have kept: "?P N3"
    if t: "lock_taken p ?N (Inr ()) w1" and e: "evolves {q. node_at (nodes w1) q = None \<or>
        replaceable U L p options (nodes w1) q} UNIV (plan_phys p) (nodes w1) N2"
      and N3: "N3 = N2 \<or> N3 = AList.delete ?l N2" for w1 N2 N3
  proof (intro allI impI)
    fix q n assume n: "node_at ?N q = Some n"
    have "node_at ?N ?l = None" using t by (simp add: lock_taken_def)
    then have "q \<noteq> ?l" using n by auto
    moreover have "node_at (nodes w1) q = Some n"
      using evolves_kept [OF lock_kept [OF t] _ n] by simp
    moreover have "node_at N3 q = node_at N2 q" using N3 \<open>q \<noteq> ?l\<close> by auto
    ultimately show "node_at N3 q = Some n \<or> replaceable U L p options ?N q"
      using evolves_kept [OF e, of q n] earlier [OF t, of q] by auto
  qed
  have released: "wp (releaseLock U p) (\<lambda>l w3. ?P (nodes w3)) w2"
    if t: "lock_taken p ?N (Inr ()) w1" and e: "evolves {q. node_at (nodes w1) q = None \<or>
        replaceable U L p options (nodes w1) q} UNIV (plan_phys p) (nodes w1) (nodes w2)" for w1 w2
  proof -
    have "no_links (nodes w2) [''.spice'']"
      using evolves_no_links [OF e] t by (simp add: lock_taken_def)
    then show ?thesis
      by (rule wp_mono [OF releaseLock_evolves [OF assms(2)]]) (use kept [OF t e] in blast)
  qed
  have "wp (ApplyWithOptions U L p options) (\<lambda>x w'. ?P (nodes w')) w"
  proof (cases "validatePlan U L p = None \<and> validateApplyOptions U (Target p) options = None")
    case True
    have ok: "plan_ok U L p" using True validatePlan_ok by blast
    have holding: "wp (joined (apply_locked U L p options) (releaseLock U p)) (\<lambda>x w'. ?P (nodes w')) w1"
      if t: "lock_taken p ?N (Inr ()) w1" for w1
    proof (rule wp_joined)
      show "wp (apply_locked U L p options) (\<lambda>r w2. evolves {q. node_at (nodes w1) q = None \<or>
          replaceable U L p options (nodes w1) q} UNIV (plan_phys p) (nodes w1) (nodes w2)) w1"
        by (rule apply_locked_evolves [OF _ ok assms(4)]) (use t assms(1) in \<open>simp add: lock_taken_def\<close>)
    qed (use released [OF t] in auto)
    have refused: "wp (joined (ret (Inl e)) (ret (Inr ()))) (\<lambda>x w'. ?P (nodes w')) w1"
      if "lock_taken p ?N (Inl e) w1" for e w1
      by (rule wp_joined [where P = "\<lambda>r w2. nodes w2 = nodes w1" and Q = "\<lambda>r l w2. nodes w2 = nodes w1"])
        (use that unlocked in \<open>auto simp: lock_taken_def\<close>)
    have locked: "wp (acquireLock U L p) (\<lambda>l. wp (case l of
          Inl e \<Rightarrow> joined (ret (Inl e)) (ret (Inr ()))
        | Inr _ \<Rightarrow> joined (apply_locked U L p options) (releaseLock U p)) (\<lambda>x w'. ?P (nodes w'))) w1"
      if "nodes w1 = ?N" for w1
      by (rule wp_mono [OF lock [OF that]]) (use holding refused in \<open>auto split: sum.splits\<close>)
    show ?thesis
      unfolding ApplyWithOptions_def using True locked
      by (auto intro!: wp_may_fail split: sum.splits)
  qed (auto simp: ApplyWithOptions_def split: option.splits)
  then show ?thesis using wp_run [OF _ assms(5)] assms(6,7) by blast
qed

end
