(* ===== verification/Gen_Success.thy ===== *)
theory Gen_Success
  imports Gen_Protect
begin

text \<open>
  What holds in the module when a plan has been applied successfully.
\<close>

definition link_free :: "tree \<Rightarrow> bool" where
  "link_free N = (\<forall>q t. node_at N q \<noteq> Some (Symlink t))"

lemma link_free_no_links: "link_free N \<Longrightarrow> no_links N ps"
  by (simp add: link_free_def no_links_def)

lemma evolves_link_free: "evolves T S D N N' \<Longrightarrow> link_free N \<Longrightarrow> link_free N'"
  by (fastforce simp: link_free_def dest: evolves_new)

lemma wf_below_dirs: "wf_tree N \<Longrightarrow> node_at N q = Some n \<Longrightarrow> below_dirs N q"
  using wf_prefix by (auto simp: below_dirs_def)

section \<open>The changes\<close>

lemma unchanged_content:
  assumes "wf_tree N" "plain_parts (phys_of k)" "free_path N (phys_of k)" "truthful N st"
    and "lookup_bytes (current st) k = content" "content \<noteq> []"
  shows "\<exists>perm. node_at N (phys_of k) = Some (File content perm)"
proof -
  have "map_of (current st) k = Some content"
    using assms(5,6) by (cases "map_of (current st) k") (auto simp: lookup_bytes_def)
  then have "content_at N k content" using assms(4) by (simp add: truthful_def)
  then obtain q where q: "located N True k = Inr q"
      "(\<exists>perm. node_at N q = Some (File content perm)) \<or> node_at N q = Some (Special content)"
    by (auto simp: content_at_def)
  obtain ps c where k: "phys_of k = ps @ [c]" by (cases "phys_of k" rule: rev_cases) auto
  then have "k = name_of (ps @ [c])" by (metis join_split)
  then have "q = phys_of k" using located_follow [of ps c N q] q(1) assms(2,3) k by (simp add: free_path_def)
  then show ?thesis using q(2) assms(3) by (auto simp: free_path_def)
qed

definition changes_made :: "plan \<Rightarrow> inspection \<Rightarrow> tree \<Rightarrow> tree \<Rightarrow> bool" where
  "changes_made p st N N' =
     (evolves (plan_phys p \<union> stale_phys (differences st)) (plan_phys p) (plan_phys p) N N' \<and>
      (\<forall>q. node_at N q = Some Directory \<longrightarrow> node_at N' q = Some Directory) \<and>
      (\<forall>f\<in>set (Files p). \<exists>perm. node_at N' (phys_of (gen_path f)) = Some (File (Content f) perm)) \<and>
      (\<exists>perm. node_at N' (phys_of (ManifestPath (Target p))) = Some (File (ManifestContent p) perm)) \<and>
      (\<forall>q\<in>stale_phys (differences st). below_dirs N q \<longrightarrow>
         (\<forall>n. node_at N' q = Some n \<longrightarrow> n = Directory)))"

lemma changes_compose:
  assumes st: "wf_tree N1" "inspected U L p options N1 st" "plan_ok U L p"
    and paths: "\<And>k. k \<in> plan_paths p \<Longrightarrow> plain_parts (phys_of k) \<and> free_path N1 (phys_of k)"
    and stale: "stale_phys (differences st) \<inter> plan_phys p = {}"
    and w2: "files_written st (Files p) (plan_phys p) N1 (Inr x :: go_error + 'a) w2"
    and w3: "stale_removed (differences st) (nodes w2) (Inr y :: go_error + 'b) w3"
    and w4: "let d = phys_of (ManifestPath (Target p))
      in evolves {d} {d} {d} (nodes w3) N4 \<and>
         (if lookup_bytes (current st) (ManifestPath (Target p)) = ManifestContent p
          then N4 = nodes w3 else node_at N4 d = Some (File (ManifestContent p) 420))"
  shows "changes_made p st N1 N4"
proof -
  let ?mp = "ManifestPath (Target p)" and ?W = "to_write st (Files p)"
  let ?D = "plan_phys p" and ?R = "stale_phys (differences st)"
  have D: "phys_of ?mp \<in> ?D" "\<And>f. f \<in> set (Files p) \<Longrightarrow> phys_of (gen_path f) \<in> ?D" "?W \<subseteq> ?D"
    by (auto simp: plan_phys_def plan_paths_def to_write_def)
  have sep: "?mp \<notin> gen_path ` set (Files p)" "distinct (map gen_path (Files p))"
    using plan_ok_paths [OF st(3)] by auto
  have e12: "evolves ?W ?W ?D N1 (nodes w2)" using w2 by (simp add: files_written_def)
  have e23: "evolves ?R {} {} (nodes w2) (nodes w3)" using w3 by (simp add: stale_removed_def)
  have e34: "evolves {phys_of ?mp} {phys_of ?mp} {phys_of ?mp} (nodes w3) N4" using w4 by (simp add: Let_def)
  have "evolves (?D \<union> ?R) ?D ?D N1 (nodes w2)" by (rule evolves_mono [OF e12]) (use D in auto)
  moreover have "evolves (?D \<union> ?R) ?D ?D (nodes w2) (nodes w3)" by (rule evolves_mono [OF e23]) auto
  moreover have "evolves (?D \<union> ?R) ?D ?D (nodes w3) N4" by (rule evolves_mono [OF e34]) (use D in auto)
  ultimately have e: "evolves (?D \<union> ?R) ?D ?D N1 N4" using evolves_trans by blast
  have regular: "node_at N1 q \<noteq> Some Directory" if "q \<in> ?D" for q
    using paths that by (fastforce simp: plan_phys_def free_path_def)
  have dirs2: "node_at (nodes w2) q = Some Directory" if "node_at N1 q = Some Directory" for q
    using evolves_kept [OF e12 _ that] regular [of q] D(3) that by blast
  then have dirs3: "node_at (nodes w3) q = Some Directory" if "node_at N1 q = Some Directory" for q
    using w3 that by (simp add: stale_removed_def)
  have dirs4: "node_at N4 q = Some Directory" if "node_at N1 q = Some Directory" for q
    using evolves_kept [OF e34 _ dirs3 [OF that]] regular [of q] D(1) that by blast
  have truth: "truthful N1 st" using st(2) by (simp add: inspected_def)
  have file2: "\<exists>perm. node_at (nodes w2) (phys_of (gen_path f)) = Some (File (Content f) perm)"
    if f: "f \<in> set (Files p)" for f
  proof (cases "outdated st f")
    case True
    then show ?thesis using w2 f by (auto simp: files_written_def)
  next
    case False
    have k: "gen_path f \<in> plan_paths p" using f by (simp add: plan_paths_def)
    obtain perm where "node_at N1 (phys_of (gen_path f)) = Some (File (Content f) perm)"
      using unchanged_content [OF st(1) _ _ truth, of "gen_path f" "Content f"] paths [OF k] False f st(3)
      by (auto simp: plan_ok_def plan_file_ok_def)
    moreover have "phys_of (gen_path f) \<notin> ?W"
    proof
      assume "phys_of (gen_path f) \<in> ?W"
      then obtain g where "g \<in> set (Files p)" "outdated st g" "gen_path g = gen_path f"
        using phys_of_inj by (force simp: to_write_def)
      then show False using sep(2) f False by (metis distinct_map inj_onD)
    qed
    ultimately show ?thesis using evolves_kept [OF e12] by blast
  qed
  have keep3: "node_at (nodes w3) q = Some n" if "node_at (nodes w2) q = Some n" "q \<in> ?D" for q n
    using evolves_kept [OF e23 _ that(1)] stale that(2) by blast
  have files: "\<exists>perm. node_at N4 (phys_of (gen_path f)) = Some (File (Content f) perm)"
    if f: "f \<in> set (Files p)" for f
  proof -
    have "phys_of (gen_path f) \<noteq> phys_of ?mp" using sep(1) f phys_of_inj by (metis imageI)
    moreover obtain perm where "node_at (nodes w2) (phys_of (gen_path f)) = Some (File (Content f) perm)"
      using file2 [OF f] by blast
    ultimately show ?thesis using evolves_kept [OF e34 _ keep3 [OF _ D(2) [OF f]]] by blast
  qed
  have manifest: "\<exists>perm. node_at N4 (phys_of ?mp) = Some (File (ManifestContent p) perm)"
  proof (cases "lookup_bytes (current st) ?mp = ManifestContent p")
    case True
    have k: "?mp \<in> plan_paths p" by (simp add: plan_paths_def)
    have "\<exists>perm. node_at N1 (phys_of ?mp) = Some (File (ManifestContent p) perm)"
      using unchanged_content [OF st(1) _ _ truth True] paths [OF k] st(3) by (auto simp: plan_ok_def)
    moreover have "phys_of ?mp \<notin> ?W" using sep(1) phys_of_inj by (fastforce simp: to_write_def)
    ultimately have "\<exists>perm. node_at (nodes w3) (phys_of ?mp) = Some (File (ManifestContent p) perm)"
      using evolves_kept [OF e12] keep3 D(1) by blast
    then show ?thesis using True w4 by (simp add: Let_def)
  qed (use w4 in \<open>auto simp: Let_def\<close>)
  have gone: "n = Directory" if "q \<in> ?R" "below_dirs N1 q" "node_at N4 q = Some n" for q n
  proof -
    have "below_dirs (nodes w2) q" using that(2) dirs2 by (simp add: below_dirs_def)
    then have "node_at (nodes w3) q = None" using w3 that(1) by (simp add: stale_removed_def)
    moreover have "q \<noteq> phys_of ?mp" using stale that(1) D(1) by blast
    ultimately show ?thesis using evolves_new [OF e34 that(3)] by auto
  qed
  show ?thesis using e dirs4 files manifest gone by (simp add: changes_made_def)
qed

lemma owned_plain:
  assumes "manifest_seen U L p options N st" "map_of (owned st) k \<noteq> None"
  shows "plain_parts (phys_of k) \<and> supportedGeneratedExtension k"
proof -
  obtain content m where m: "decodeManifest U L content p options = Inr m"
      "owned st = owned_map (manifest_files m)"
    using assms by (auto simp: manifest_seen_def Let_def)
  then obtain f where "f \<in> set (manifest_files m)" "own_path f = k"
    using assms(2) owned_map_Some by fastforce
  then show ?thesis
    using decodeManifest_owned(1) [OF m(1)] by (auto simp: list_all_iff owned_ok_def module_path_def)
qed

lemma apply_changes_made:
  assumes st: "wf_tree (nodes w)" "inspected U L p options (nodes w) st" "plan_ok U L p"
    and calm: "protectedDifferences (differences st) = []"
    and links: "link_free (nodes w)" and sep: "separate (plan_phys p)"
  shows "wp (apply_changes U L p st)
    (\<lambda>r w'. \<forall>res. r = Inr res \<longrightarrow> changes_made p st (nodes w) (nodes w')) w"
proof -
  let ?mp = "ManifestPath (Target p)" and ?N = "nodes w" and ?D = "plan_phys p"
  let ?W = "files_written st (Files p) ?D ?N"
  note paths = inspected_facts(1) [OF st(1,2) calm st(3)]
  have mp: "?mp \<in> plan_paths p" by (simp add: plan_paths_def)
  have stale: "map_of (owned st) (diff_path d) \<noteq> None \<and> diff_path d \<notin> plan_paths p"
    if "d \<in> set (differences st)" "diff_kind d = DifferenceStaleOwnedFile" for d
    using st(2) that by (auto simp: inspected_def stale_owned_def)
  then have disjoint: "stale_phys (differences st) \<inter> ?D = {}"
    using phys_of_inj by (fastforce simp: stale_phys_def plan_phys_def)
  have files: "wp (each (write_file U L st) [] (Files p)) ?W w"
    by (rule write_files_written)
      (use paths sep plan_ok_paths [OF st(3)] in \<open>auto simp: plan_paths_def plan_phys_def\<close>)
  have removed: "wp (each (remove_stale U L st) [] (differences st))
      (stale_removed (differences st) (nodes w2)) w2"
    if "?W (Inr x :: go_error + string list) w2" for x w2
  proof (rule remove_files_removed, intro ballI impI)
    fix d assume "d \<in> set (differences st)" "diff_kind d = DifferenceStaleOwnedFile"
    then have "map_of (owned st) (diff_path d) \<noteq> None" using stale by blast
    then have "plain_parts (phys_of (diff_path d))"
      using owned_plain st(2) by (auto simp: inspected_def)
    moreover have "link_free (nodes w2)"
      using that links evolves_link_free by (auto simp: files_written_def)
    ultimately show "plain_parts (phys_of (diff_path d)) \<and> no_links (nodes w2) (phys_of (diff_path d))"
      by (simp add: link_free_no_links)
  qed
  have manifest: "wp (write_manifest U L p st)
      (\<lambda>r w4. \<forall>u. r = Inr u \<longrightarrow> changes_made p st ?N (nodes w4)) w3"
    if w2: "?W (Inr x :: go_error + string list) w2"
      and w3: "stale_removed (differences st) (nodes w2) (Inr y :: go_error + string list) w3" for x y w2 w3
  proof -
    have "free_path (nodes w2) (phys_of ?mp)"
      by (rule evolves_free [of _ _ ?D ?N])
        (use w2 paths [OF mp] sep mp in \<open>auto simp: files_written_def separate_def plan_phys_def\<close>)
    moreover have "evolves (stale_phys (differences st)) {} {} (nodes w2) (nodes w3)"
      using w3 by (simp add: stale_removed_def)
    ultimately have free: "free_path (nodes w3) (phys_of ?mp)" using evolves_free by blast
    show ?thesis
    proof (rule wp_mono [OF write_manifest_evolves [OF _ free]])
      show "plain_parts (phys_of ?mp)" using paths [OF mp] by simp
      fix r w4
      assume "let d = phys_of ?mp in evolves {d} UNIV {d} (nodes w3) (nodes w4) \<and>
        (\<forall>updated. r = Inr updated \<longrightarrow> evolves {d} {d} {d} (nodes w3) (nodes w4) \<and>
           (if lookup_bytes (current st) ?mp = ManifestContent p then nodes w4 = nodes w3
            else node_at (nodes w4) d = Some (File (ManifestContent p) 420)))"
      then show "\<forall>u. r = Inr u \<longrightarrow> changes_made p st ?N (nodes w4)"
        using changes_compose [OF st paths disjoint w2 w3, of "nodes w4"] by (simp add: Let_def)
    qed
  qed
  have finish: "wp (finish_changes U L p st ws rs)
      (\<lambda>r w4. \<forall>res. r = Inr res \<longrightarrow> changes_made p st ?N (nodes w4)) w3"
    if "?W (Inr x :: go_error + string list) w2"
      "stale_removed (differences st) (nodes w2) (Inr y :: go_error + string list) w3" for x y ws rs w2 w3
    unfolding finish_changes_def wp_bind
    by (rule wp_mono [OF manifest [OF that]]) (auto split: sum.splits)
  have rest: "wp (remove_and_finish U L p st ws)
      (\<lambda>r w4. \<forall>res. r = Inr res \<longrightarrow> changes_made p st ?N (nodes w4)) w2"
    if "?W (Inr x :: go_error + string list) w2" for x ws w2
    unfolding remove_and_finish_def wp_bind
    by (rule wp_mono [OF removed [OF that]]) (use finish [OF that] in \<open>auto split: sum.splits\<close>)
  show ?thesis
    unfolding apply_changes_def wp_bind
    by (rule wp_mono [OF files]) (use rest in \<open>auto split: sum.splits\<close>)
qed

section \<open>The whole run\<close>

lemma split_on_middle: "split_on d (xs @ d # ys) = split_on d xs @ split_on d ys"
proof (induction xs)
  case (Cons x xs)
  obtain w ws where "split_on d xs = w # ws" by (cases "split_on d xs") auto
  with Cons show ?case by simp
qed simp

lemma split_on_last: "last (split_on d (xs @ d # ys)) = last (split_on d ys)"
  by (simp add: split_on_middle)

lemma lock_extension:
  assumes "slash \<notin> set (ID (Target p))" "supportedGeneratedExtension k"
  shows "phys_of k \<noteq> lock_phys p"
proof
  assume "phys_of k = lock_phys p"
  then have "last (phys_of k) = ID (Target p) @ CHR ''.'' # ''lock''" by (simp add: lock_phys_def)
  moreover have "last (split_on CHR ''.'' (ID (Target p) @ CHR ''.'' # ''lock'')) = ''lock''"
    by (simp add: split_on_last)
  ultimately have "path_ext k = ''.lock''" by (simp add: path_ext_def)
  then show False using assms(2) by (simp add: supportedGeneratedExtension_def)
qed

lemma apply_locked_made:
  assumes "wf_tree (nodes w)" "plan_ok U L p" "separate (plan_phys p)" "link_free (nodes w)"
  shows "wp (apply_locked U L p options) (\<lambda>r w'. \<forall>res. r = Inr res \<longrightarrow>
    (\<exists>st. inspected U L p options (nodes w) st \<and> protectedDifferences (differences st) = [] \<and>
       changes_made p st (nodes w) (nodes w'))) w"
proof -
  have changes: "wp (apply_changes U L p st) (\<lambda>r w'. \<forall>res. r = Inr res \<longrightarrow>
      (\<exists>st. inspected U L p options (nodes w) st \<and> protectedDifferences (differences st) = [] \<and>
         changes_made p st (nodes w) (nodes w'))) w1"
    if "nodes w1 = nodes w" "inspected U L p options (nodes w) st"
      "protectedDifferences (differences st) = []" for st w1
    by (rule wp_mono [OF apply_changes_made [where options = options]]) (use assms that in auto)
  show ?thesis
    unfolding apply_locked_def Let_def wp_bind
    by (rule wp_mono [OF inspect_inspected])
      (use plan_plain [OF assms(2)] changes in \<open>auto split: sum.splits\<close>)
qed

lemma lock_released:
  assumes "slash \<notin> set (ID (Target p))" "below_dirs N (lock_phys p)"
    and "node_at N (lock_phys p) = Some (File c m)"
    and "N' = AList.delete (lock_phys p) N \<or> N' = N \<and> absent N (lockPath p)"
  shows "N' = AList.delete (lock_phys p) N"
proof -
  have "located N False (lockPath p) = Inr (lock_phys p)"
    using located_dirs [of "lock_phys p" N False] lock_plain [OF assms(1)] assms(2)
    by (simp add: below_dirs_def lock_phys_def)
  then show ?thesis using assms(3,4) by (auto simp: absent_def)
qed

text \<open>What a stale owned path looks like afterwards.\<close>

lemma stale_gone:
  assumes "wf_tree N" "link_free N" "inspected U L p options N st"
    and "protectedDifferences (differences st) = []" "changes_made p st N N'"
    and "map_of (owned st) k \<noteq> None" "k \<notin> plan_paths p" "node_at N' (phys_of k) = Some n"
  shows "n = Directory"
proof -
  have plain: "plain_parts (phys_of k)"
    using owned_plain [OF _ assms(6)] assms(3) by (auto simp: inspected_def)
  have e: "evolves (plan_phys p \<union> stale_phys (differences st)) (plan_phys p) (plan_phys p) N N'"
    using assms(5) by (simp add: changes_made_def)
  have outside: "phys_of k \<notin> plan_phys p" using assms(7) phys_of_inj by (auto simp: plan_phys_def)
  show ?thesis
  proof (cases "node_at N (phys_of k)")
    case None
    then show ?thesis using evolves_new [OF e assms(8)] outside by auto
  next
    case (Some n0)
    obtain h where "(k, h) \<in> set (owned st)" using assms(6) map_of_SomeD by fastforce
    then have "prior_seen N (k, h) st" using assms(3) by (auto simp: inspected_def)
    moreover have "\<not> conflicting k st"
      using assms(4) by (auto simp: conflicting_def protectedDifferences_def filter_empty_conv)
    moreover have "\<not> absent N k"
      using absent_none [OF assms(1) plain link_free_no_links [OF assms(2)]] Some by auto
    moreover have "map_of (expected st) k = None" using assms(3,7) by (auto simp: inspected_def)
    ultimately have "phys_of k \<in> stale_phys (differences st)"
      by (force simp: prior_seen_def stale_phys_def)
    then show ?thesis
      using assms(5,8) wf_below_dirs [OF assms(1) Some] by (auto simp: changes_made_def)
  qed
qed

text \<open>The state of the module after a successful run, relative to the tree before it.\<close>

definition plan_applied ::
    "unicode_tables \<Rightarrow> gen_library \<Rightarrow> plan \<Rightarrow> apply_options \<Rightarrow> tree \<Rightarrow> tree \<Rightarrow> bool" where
  "plan_applied U L p options N N' =
     (let mp = phys_of (ManifestPath (Target p))
      in (\<forall>f\<in>set (Files p). \<exists>perm. node_at N' (phys_of (gen_path f)) = Some (File (Content f) perm)) \<and>
         (\<exists>perm. node_at N' mp = Some (File (ManifestContent p) perm)) \<and>
         (\<forall>content perm m f. node_at N mp = Some (File content perm) \<longrightarrow>
            decodeManifest U L content p options = Inr m \<longrightarrow> f \<in> set (manifest_files m) \<longrightarrow>
            own_path f \<notin> plan_paths p \<longrightarrow>
            node_at N' (phys_of (own_path f)) \<in> {None, Some Directory}) \<and>
         node_at N' (lock_phys p) = None \<and>
         (\<forall>q n. node_at N' q = Some n \<longrightarrow>
            q \<in> plan_phys p \<or> node_at N q = Some n \<or> n = Directory))"

lemma successful_run:
  assumes "wf_tree (nodes w)" "link_free (nodes w)" "slash \<notin> set (ID (Target p))"
    and "lockPath p \<noteq> ManifestPath (Target p)" "separate (plan_phys p)"
    and "run_state (ApplyWithOptions U L p options) w = ((result, None), w')"
  shows "plan_applied U L p options (nodes w) (nodes w')"
    (is "?goal (nodes w')")
proof -
  let ?N = "nodes w" and ?l = "lock_phys p" and ?mp = "ManifestPath (Target p)"
  have mp: "phys_of ?mp \<noteq> ?l" using assms(4) lock_plain [OF assms(3)] by (metis join_split)
  have final: "?goal N3"
    if t: "lock_taken p ?N (Inr ()) w1" and ok: "plan_ok U L p"
      and st: "inspected U L p options (nodes w1) st" "protectedDifferences (differences st) = []"
      and made: "changes_made p st (nodes w1) N2"
      and N3: "N3 = AList.delete ?l N2 \<or> N3 = N2 \<and> absent N2 (lockPath p)" for w1 st N2 N3
  proof -
    have e1: "evolves {} {?l} {?l} ?N (nodes w1)" and wf1: "wf_tree (nodes w1)"
      using t assms(1) by (simp_all add: lock_taken_def)
    have links1: "link_free (nodes w1)" by (rule evolves_link_free [OF e1 assms(2)])
    have lock1: "\<exists>c m. node_at (nodes w1) ?l = Some (File c m)" using t by (simp add: lock_taken_def)
    have e2: "evolves (plan_phys p \<union> stale_phys (differences st)) (plan_phys p) (plan_phys p) (nodes w1) N2"
      using made by (simp add: changes_made_def)
    have plan_l: "?l \<notin> plan_phys p"
    proof
      assume "?l \<in> plan_phys p"
      then obtain k where k: "k \<in> plan_paths p" "?l = phys_of k" unfolding plan_phys_def by (rule imageE)
      then have "k \<noteq> ?mp" using mp by auto
      then obtain f where "f \<in> set (Files p)" "k = gen_path f" using k(1) by (auto simp: plan_paths_def)
      then show False
        using lock_extension [OF assms(3), of k] ok k(2) by (auto simp: plan_ok_def plan_file_ok_def)
    qed
    have stale_l: "?l \<notin> stale_phys (differences st)"
    proof
      assume "?l \<in> stale_phys (differences st)"
      then obtain d where d: "d \<in> set (differences st)" "diff_kind d = DifferenceStaleOwnedFile"
          "?l = phys_of (diff_path d)"
        by (auto simp: stale_phys_def)
      then have "map_of (owned st) (diff_path d) \<noteq> None" using st(1) by (auto simp: inspected_def stale_owned_def)
      then show False
        using owned_plain [of U L p options "nodes w1" st] st(1) lock_extension [OF assms(3)] d(3)
        by (auto simp: inspected_def)
    qed
    have lock2: "\<exists>c m. node_at N2 ?l = Some (File c m)"
      using lock1 evolves_kept [OF e2] plan_l stale_l by blast
    have "below_dirs N2 ?l"
      using lock1 wf_below_dirs [OF wf1] made by (auto simp: below_dirs_def changes_made_def)
    then have N3': "N3 = AList.delete ?l N2" using lock_released [OF assms(3)] lock2 N3 by blast
    have l: "?l \<noteq> []" by (simp add: lock_phys_def)
    have same: "node_at N3 q = node_at N2 q" if "q \<noteq> ?l" for q using that N3' by simp
    have new: "q \<in> plan_phys p \<or> node_at ?N q = Some n \<or> n = Directory" if "node_at N3 q = Some n" for q n
    proof -
      have "q \<noteq> ?l" using that N3' l by auto
      then show ?thesis using that same evolves_new [OF e2, of q n] evolves_new [OF e1, of q n] by auto
    qed
    have gone: "node_at N3 (phys_of (own_path f)) \<in> {None, Some Directory}"
      if "node_at ?N (phys_of ?mp) = Some (File content perm)"
        "decodeManifest U L content p options = Inr m" "f \<in> set (manifest_files m)"
        "own_path f \<notin> plan_paths p" for content perm m f
    proof (cases "node_at N3 (phys_of (own_path f))")
      case (Some n)
      have mp1: "?mp \<in> plan_paths p" by (simp add: plan_paths_def)
      have "node_at (nodes w1) (phys_of ?mp) = Some (File content perm)" using evolves_kept [OF e1 _ that(1)] by simp
      then have "owned st = owned_map (manifest_files m)"
        using manifest_seen_node [OF wf1, of p U L options st] st(1) plan_plain [OF ok mp1]
          link_free_no_links [OF links1] that(2)
        by (auto simp: inspected_def)
      then have "map_of (owned st) (own_path f) \<noteq> None"
        using that(3) owned_map_dom by (metis domIff imageI)
      moreover have "node_at N2 (phys_of (own_path f)) = Some n" using Some N3' by (auto split: if_splits)
      ultimately show ?thesis
        using stale_gone [OF wf1 links1 st made _ that(4)] Some by simp
    qed simp
    have "phys_of (gen_path f) \<in> plan_phys p" if "f \<in> set (Files p)" for f
      using that by (simp add: plan_phys_def plan_paths_def)
    then have "\<forall>f\<in>set (Files p). phys_of (gen_path f) \<noteq> ?l" using plan_l by metis
    then have files: "\<forall>f\<in>set (Files p). \<exists>perm. node_at N3 (phys_of (gen_path f)) = Some (File (Content f) perm)"
      using made same by (simp add: changes_made_def)
    have manifest: "\<exists>perm. node_at N3 (phys_of ?mp) = Some (File (ManifestContent p) perm)"
      using made same [OF mp] by (simp add: changes_made_def)
    have released: "node_at N3 ?l = None" unfolding N3' using l by simp
    show ?thesis
      unfolding plan_applied_def Let_def
      by (intro conjI files manifest released allI impI) (rule gone new; assumption)+
  qed
  let ?Q = "\<lambda>(x, e) w'. e = None \<longrightarrow> ?goal (nodes w')"
  have "wp (ApplyWithOptions U L p options) ?Q w"
  proof (cases "validatePlan U L p = None \<and> validateApplyOptions U (Target p) options = None")
    case True
    have ok: "plan_ok U L p" using True validatePlan_ok by blast
    have holding: "wp (joined (apply_locked U L p options) (releaseLock U p)) ?Q w1"
      if t: "lock_taken p ?N (Inr ()) w1" for w1
    proof (rule wp_joined)
      have "link_free (nodes w1)" using t assms(2) evolves_link_free by (auto simp: lock_taken_def)
      then show "wp (apply_locked U L p options) (\<lambda>r w'. \<forall>res. r = Inr res \<longrightarrow>
          (\<exists>st. inspected U L p options (nodes w1) st \<and> protectedDifferences (differences st) = [] \<and>
             changes_made p st (nodes w1) (nodes w'))) w1"
        using t assms(1) by (intro apply_locked_made [OF _ ok assms(5)]) (auto simp: lock_taken_def)
    next
      fix r :: "go_error + gen_result" and w2 :: world
      assume r: "\<forall>res. r = Inr res \<longrightarrow> (\<exists>st. inspected U L p options (nodes w1) st \<and>
        protectedDifferences (differences st) = [] \<and> changes_made p st (nodes w1) (nodes w2))"
      show "wp (releaseLock U p) (\<lambda>l w3. (\<exists>res. r = Inr res) \<longrightarrow> l = Inr () \<longrightarrow> ?goal (nodes w3)) w2"
      proof (cases r)
        case (Inr res)
        then obtain st where st: "inspected U L p options (nodes w1) st"
            "protectedDifferences (differences st) = []" "changes_made p st (nodes w1) (nodes w2)"
          using r by blast
        have "link_free (nodes w1)" using t assms(2) evolves_link_free by (auto simp: lock_taken_def)
        then have "link_free (nodes w2)" using st(3) evolves_link_free by (auto simp: changes_made_def)
        then show ?thesis
          by (intro wp_mono [OF releaseLock_evolves [OF assms(3) link_free_no_links]], assumption)
            (intro impI final [OF t ok st], blast)
      qed (simp add: wp_def split: prod.split)
    next
      fix r :: "go_error + gen_result" and l :: "go_error + unit" and w2 w3 :: world and c :: "go_error + unit"
      assume "(\<exists>res. r = Inr res) \<longrightarrow> l = Inr () \<longrightarrow> ?goal (nodes w2)" "nodes w3 = nodes w2"
      then show "?Q (case r of Inl e \<Rightarrow> empty_result | Inr x \<Rightarrow> x,
          errors_Join [errors_Join [error_of r, error_of l], error_of c]) w3"
        by (cases r; cases l) (simp_all add: error_of_def)
    qed
    have refused: "wp (joined (ret (Inl e)) (ret (Inr ()))) ?Q w1" for e w1
      by (rule wp_joined [where P = "\<lambda>r w2. r = Inl e" and Q = "\<lambda>r l w2. r = Inl e"])
        (auto simp: error_of_def)
    have locked: "wp (acquireLock U L p) (\<lambda>l. wp (case l of
          Inl e \<Rightarrow> joined (ret (Inl e)) (ret (Inr ()))
        | Inr _ \<Rightarrow> joined (apply_locked U L p options) (releaseLock U p)) ?Q) w1"
      if "nodes w1 = ?N" for w1
      by (rule wp_mono [OF acquireLock_taken [OF assms(3)]])
        (use that holding refused in \<open>auto split: sum.splits\<close>)
    show ?thesis
      unfolding ApplyWithOptions_def using True locked
      by (auto intro!: wp_may_fail split: sum.splits)
  qed (auto simp: ApplyWithOptions_def split: option.splits)
  then show ?thesis using wp_run [OF _ assms(6)] by auto
qed

text \<open>
  C2. When applying a plan succeeds in a module without symbolic links, every planned file
  and the manifest have the planned content, the files that the previous manifest owned and the plan
  no longer has are gone, the lock is released, and apart from the planned paths and the
  directories above them nothing is new: no temporary file or backup is left behind.
\<close>
theorem ApplyWithOptions_success:
  assumes "wf_tree (nodes w)" "link_free (nodes w)" "slash \<notin> set (ID (Target p))"
    and "lockPath p \<noteq> ManifestPath (Target p)" "separate (plan_phys p)"
    and "run_state (ApplyWithOptions U L p options) w = ((result, None), w')"
  shows "plan_applied U L p options (nodes w) (nodes w')"
  by (rule successful_run [OF assms])

end
