(* ===== verification/Gen_Again.thy ===== *)
theory Gen_Again
  imports Gen_Success
begin

text \<open>
  Applying a plan a second time.  A plan accepts its own manifest, so an inspection of a module
  to which the plan was applied finds every content in place, and nothing is left to do.
\<close>

section \<open>A plan accepts its own manifest\<close>

lemma unhex_digit: "0 \<le> n \<Longrightarrow> n < 16 \<Longrightarrow> unhex (hex_digit n) \<noteq> None"
proof -
  assume "0 \<le> n" "n < 16"
  then have "n \<in> set [0..15]" by simp
  moreover have "list_all (\<lambda>n. unhex (hex_digit n) \<noteq> None) [0..15]" by code_simp
  ultimately show ?thesis by (auto simp: list_all_iff)
qed

lemma unhex_hex2: "list_all (\<lambda>c. unhex c \<noteq> None) (hex2 n)" "length (hex2 n) = 2"
  using unhex_digit [of "n div 16 mod 16"] unhex_digit [of "n mod 16"] by (simp_all add: hex2_def)

lemma length_hex: "length (concat (map (\<lambda>c. hex2 (byte_of c)) s)) = 2 * length s"
  by (induction s) (simp_all add: unhex_hex2)

lemma valid_hashContent: "length (sha256_sum L c) = 32 \<Longrightarrow> validHash (hashContent L c)"
  using unhex_hex2(1)
  by (auto simp: validHash_def hashContent_def has_prefix_def trim_prefix_def length_hex list_all_iff)

lemma owned_by_plan:
  assumes "validatePlan U L p = None"
  shows "map own_path (manifest_files (plan_manifest p)) = map gen_path (Files p)"
  using validatePlan_ok [OF assms]
  by (auto simp: plan_ok_def planFileMatchesManifest_def list_all2_conv_all_nth intro!: nth_equalityI)

lemma decode_own_manifest:
  assumes "validatePlan U L p = None" "json_manifest L (ManifestContent p) = Inr (plan_manifest p)"
    and "\<And>c. length (sha256_sum L c) = 32"
  shows "decodeManifest U L (ManifestContent p) p options = Inr (plan_manifest p)"
proof -
  let ?m = "plan_manifest p"
  have ok: "plan_ok U L p" by (rule validatePlan_ok [OF assms(1)])
  have schema: "Schema ?m = SchemaVersion"
    using assms(1) by (auto simp: validatePlan_def validatePlanManifest_def Let_def split: if_splits option.splits)
  have "owned_ok L (Target p) f" if "f \<in> set (manifest_files ?m)" for f
  proof -
    have "\<exists>g\<in>set (Files p). planFileMatchesManifest g f"
      using ok that by (fastforce simp: plan_ok_def list_all2_conv_all_nth in_set_conv_nth)
    then obtain g where g: "g \<in> set (Files p)" "planFileMatchesManifest g f" ..
    then have "plan_file_ok U L (Target p) g" using ok by (simp add: plan_ok_def)
    then show ?thesis
      using g(2) valid_hashContent [OF assms(3), of "Content g"]
      by (auto simp: owned_ok_def plan_file_ok_def planFileMatchesManifest_def)
  qed
  moreover have "distinct (map (\<lambda>f. ToLower L (own_path f)) (manifest_files ?m))"
    using ok arg_cong [OF owned_by_plan [OF assms(1)], of "map (ToLower L)"]
    by (simp add: plan_ok_def comp_def)
  ultimately have "check_owned U L (Target p) [] (manifest_files ?m) = None"
    by (simp add: check_owned_None list_all_iff)
  then show ?thesis
    using assms(2) schema
    by (simp add: decodeManifest_def normalizeManifestTarget_def manifestTarget_def with_entrypoint_def
        SchemaVersion_def Let_def)
qed

section \<open>Nothing is left to do\<close>

definition in_place :: "plan \<Rightarrow> tree \<Rightarrow> bool" where
  "in_place p N =
     ((\<forall>f\<in>set (Files p). \<exists>perm. node_at N (phys_of (gen_path f)) = Some (File (Content f) perm)) \<and>
      (\<exists>perm. node_at N (phys_of (ManifestPath (Target p))) = Some (File (ManifestContent p) perm)))"

lemma in_place_kept: "in_place p N \<Longrightarrow> evolves {} S D N N' \<Longrightarrow> in_place p N'"
  using evolves_kept [of "{}" S D N N'] by (fastforce simp: in_place_def)

lemma each_skip: "(\<And>x. x \<in> set xs \<Longrightarrow> m s x = ret (Inr s)) \<Longrightarrow> each m s xs = ret (Inr s)"
  by (induction xs) simp_all

lemma apply_changes_nothing:
  assumes "wf_tree N" "validatePlan U L p = None" "in_place p N" "inspected U L p options N st"
    and "protectedDifferences (differences st) = []"
    and "decodeManifest U L (ManifestContent p) p options = Inr (plan_manifest p)"
  shows "apply_changes U L p st = ret (Inr empty_result)"
proof -
  let ?mp = "ManifestPath (Target p)"
  have ok: "plan_ok U L p" by (rule validatePlan_ok [OF assms(2)])
  have paths: "plain_parts (phys_of k)" "no_links N (phys_of k)" if "k \<in> plan_paths p" for k
    using plan_plain [OF ok that] unlinked_no_links [OF assms(1) evolves_refl] assms(4) that
    by (auto simp: inspected_def)
  have calm: "\<not> conflicting k st" for k
    using assms(5) by (auto simp: conflicting_def protectedDifferences_def filter_empty_conv)
  have mp: "?mp \<in> plan_paths p" by (simp add: plan_paths_def)
  obtain perm where m: "node_at N (phys_of ?mp) = Some (File (ManifestContent p) perm)"
    using assms(3) by (auto simp: in_place_def)
  have files: "write_file U L st [] f = ret (Inr [])" if "f \<in> set (Files p)" for f
  proof -
    have f: "gen_path f \<in> plan_paths p" using that by (simp add: plan_paths_def)
    obtain perm where "node_at N (phys_of (gen_path f)) = Some (File (Content f) perm)"
      using assms(3) \<open>f \<in> set (Files p)\<close> by (auto simp: in_place_def)
    then have "map_of (current st) (gen_path f) = Some (Content f)"
      using expected_seen_node [OF assms(1) paths [OF f], of L st] calm assms(4) that
      by (fastforce simp: inspected_def)
    then show ?thesis by (simp add: write_file_def lookup_bytes_def)
  qed
  have owned: "owned st = owned_map (manifest_files (plan_manifest p))"
    using manifest_seen_node [OF assms(1) paths [OF mp], of U L options st] assms(4,6) m
    by (auto simp: inspected_def)
  have "?mp \<in> dom (map_of (current st))"
    using assms(4) m wf_existing [OF assms(1) paths(1) [OF mp] m]
    by (auto simp: inspected_def manifest_seen_def Let_def absent_def)
  then obtain content where content: "map_of (current st) ?mp = Some content" by (auto simp: dom_def)
  then have "content_at N ?mp content" using assms(4) by (simp add: inspected_def truthful_def)
  then have "content = ManifestContent p"
    using m wf_existing [OF assms(1) paths(1) [OF mp] m] by (auto simp: content_at_def)
  then have "map_of (current st) ?mp = Some (ManifestContent p)" using content by simp
  then have manifest: "write_manifest U L p st = ret (Inr False)"
    by (simp add: write_manifest_def lookup_bytes_def)
  have stale: "remove_stale U L st [] d = ret (Inr [])" if "d \<in> set (differences st)" for d
  proof -
    have "diff_path d \<in> plan_paths p" if "map_of (owned st) (diff_path d) \<noteq> None"
      using that owned owned_map_dom [of "manifest_files (plan_manifest p)"]
        arg_cong [OF owned_by_plan [OF assms(2)], of set]
      by (auto simp: plan_paths_def dom_def)
    then have "map_of (owned st) (diff_path d) \<noteq> None \<Longrightarrow> map_of (expected st) (diff_path d) \<noteq> None"
      using assms(4) by (metis domIff inspected_def)
    then have "diff_kind d \<noteq> DifferenceStaleOwnedFile"
      using assms(4) that by (auto simp: inspected_def stale_owned_def)
    then show ?thesis by (simp add: remove_stale_def)
  qed
  show ?thesis
    by (simp add: apply_changes_def remove_and_finish_def finish_changes_def each_skip files stale manifest
        empty_result_def)
qed

lemma apply_locked_nothing:
  assumes "wf_tree (nodes w)" "validatePlan U L p = None" "in_place p (nodes w)"
    and "decodeManifest U L (ManifestContent p) p options = Inr (plan_manifest p)"
  shows "wp (apply_locked U L p options)
    (\<lambda>r w'. nodes w' = nodes w \<and> (\<forall>res. r = Inr res \<longrightarrow> res = empty_result)) w"
  unfolding apply_locked_def Let_def wp_bind
  by (rule wp_mono [OF inspect_inspected])
    (use plan_plain [OF validatePlan_ok [OF assms(2)]] apply_changes_nothing [OF assms(1-3) _ _ assms(4)]
      in \<open>auto split: sum.splits\<close>)

text \<open>A run on a module in which everything is in place.\<close>

definition untouched :: "tree \<Rightarrow> tree \<Rightarrow> bool" where
  "untouched N N' = (\<forall>q. q \<noteq> [''.spice''] \<longrightarrow> node_at N' q = node_at N q)"

lemma untouched_lock:
  assumes "evolves {} {l} {l} N N1" "node_at N l = None" "l = [''.spice'', c]" "N' = AList.delete l N1"
  shows "untouched N N'"
  unfolding untouched_def
proof (intro allI impI)
  fix q :: phys
  assume q: "q \<noteq> [''.spice'']"
  show "node_at N' q = node_at N q"
  proof (cases "q = l \<or> q = []")
    case False
    then have same: "node_at N' q = node_at N1 q" using assms(4) by simp
    have "\<not> strict_prefix q l" using q False assms(3) by (auto simp: strict_prefix_def prefix_Cons)
    then show ?thesis
      using same False evolves_kept [OF assms(1), of q] evolves_new [OF assms(1), of q]
      by (cases "node_at N q"; cases "node_at N1 q") auto
  qed (use assms in \<open>auto simp: node_at_def delete_conv'\<close>)
qed

lemma run_in_place:
  assumes "wf_tree (nodes w)" "slash \<notin> set (ID (Target p))" "in_place p (nodes w)"
    and "validatePlan U L p = None \<Longrightarrow>
      decodeManifest U L (ManifestContent p) p options = Inr (plan_manifest p)"
  shows "wp (ApplyWithOptions U L p options)
    (\<lambda>(result, e) w'. \<not> Changed result \<and> (e = None \<longrightarrow> untouched (nodes w) (nodes w'))) w"
    (is "wp _ ?Q w")
proof (cases "validatePlan U L p = None \<and> validateApplyOptions U (Target p) options = None")
  case True
  let ?N = "nodes w" and ?l = "lock_phys p"
  have idle: "\<not> Changed empty_result" by (simp add: Changed_def empty_result_def)
  have holding: "wp (joined (apply_locked U L p options) (releaseLock U p)) ?Q w1"
    if t: "lock_taken p ?N (Inr ()) w1" for w1
  proof (rule wp_joined)
    have e: "evolves {} {?l} {?l} ?N (nodes w1)" and wf: "wf_tree (nodes w1)"
        and free: "node_at ?N ?l = None" and links: "no_links (nodes w1) [''.spice'']"
      using t assms(1) by (simp_all add: lock_taken_def)
    obtain c m where lock: "node_at (nodes w1) ?l = Some (File c m)" using t by (auto simp: lock_taken_def)
    show "wp (apply_locked U L p options)
        (\<lambda>r w'. nodes w' = nodes w1 \<and> (\<forall>res. r = Inr res \<longrightarrow> res = empty_result)) w1"
      by (rule apply_locked_nothing [OF wf _ in_place_kept [OF assms(3) e]]) (use True assms(4) in auto)
  next
    fix r :: "go_error + gen_result" and w2 :: world
    assume r: "nodes w2 = nodes w1 \<and> (\<forall>res. r = Inr res \<longrightarrow> res = empty_result)"
    have e: "evolves {} {?l} {?l} ?N (nodes w1)" and wf: "wf_tree (nodes w1)"
        and free: "node_at ?N ?l = None" and links: "no_links (nodes w1) [''.spice'']"
      using t assms(1) by (simp_all add: lock_taken_def)
    obtain c m where lock: "node_at (nodes w1) ?l = Some (File c m)" using t by (auto simp: lock_taken_def)
    have "untouched ?N N'" if "N' = AList.delete ?l (nodes w1) \<or> N' = nodes w1 \<and> absent (nodes w1) (lockPath p)" for N'
      by (rule untouched_lock [OF e free]) (use lock_released [OF assms(2) wf_below_dirs [OF wf lock] lock that] in
        \<open>simp_all add: lock_phys_def\<close>)
    then show "wp (releaseLock U p) (\<lambda>l w3. (\<forall>res. r = Inr res \<longrightarrow> res = empty_result) \<and>
        (l = Inr () \<longrightarrow> untouched ?N (nodes w3))) w2"
      using r links by (intro wp_mono [OF releaseLock_evolves [OF assms(2)]]) auto
  next
    fix r :: "go_error + gen_result" and l :: "go_error + unit" and w2 w3 :: world and c :: "go_error + unit"
    assume "(\<forall>res. r = Inr res \<longrightarrow> res = empty_result) \<and> (l = Inr () \<longrightarrow> untouched ?N (nodes w2))"
      "nodes w3 = nodes w2"
    then show "?Q (case r of Inl e \<Rightarrow> empty_result | Inr x \<Rightarrow> x,
        errors_Join [errors_Join [error_of r, error_of l], error_of c]) w3"
      using idle by (cases r; cases l) (auto simp: error_of_def)
  qed
  have refused: "wp (joined (ret (Inl e)) (ret (Inr ()))) ?Q w1" for e w1
    by (rule wp_joined [where P = "\<lambda>r w2. r = Inl e" and Q = "\<lambda>r l w2. r = Inl e"])
      (auto simp: error_of_def idle)
  have locked: "wp (acquireLock U L p) (\<lambda>l. wp (case l of
        Inl e \<Rightarrow> joined (ret (Inl e)) (ret (Inr ()))
      | Inr _ \<Rightarrow> joined (apply_locked U L p options) (releaseLock U p)) ?Q) w1"
    if "nodes w1 = ?N" for w1
    by (rule wp_mono [OF acquireLock_taken [OF assms(2)]])
      (use that holding refused in \<open>auto split: sum.splits\<close>)
  show ?thesis
    unfolding ApplyWithOptions_def using True locked idle
    by (auto intro!: wp_may_fail split: sum.splits)
qed (auto simp: ApplyWithOptions_def Changed_def empty_result_def split: option.splits)

text \<open>
  C3. Applying a plan is idempotent.  After a successful run, a second run of the same plan,
  under whatever faults, writes and removes nothing, and when it returns no error every
  node of the module is as the first run left it (its lock directory may be new).  SHA-256 digests have 32
  bytes and decoding the manifest content of the plan gives the manifest of the plan.
\<close>
theorem ApplyWithOptions_idempotent:
  assumes "wf_tree (nodes w)" "link_free (nodes w)" "slash \<notin> set (ID (Target p))"
    and "lockPath p \<noteq> ManifestPath (Target p)" "separate (plan_phys p)"
    and "\<And>c. length (sha256_sum L c) = 32" "json_manifest L (ManifestContent p) = Inr (plan_manifest p)"
    and "run_state (ApplyWithOptions U L p options) w = ((result, None), w1)"
    and "nodes w2 = nodes w1" "wf_tree (nodes w2)"
    and "run_state (ApplyWithOptions U L p options') w2 = ((again, e), w3)"
  shows "\<not> Changed again \<and> (e = None \<longrightarrow> untouched (nodes w2) (nodes w3))"
proof -
  have "in_place p (nodes w2)"
    using successful_run [OF assms(1-5,8)] assms(9) by (simp add: plan_applied_def in_place_def Let_def)
  then have "wp (ApplyWithOptions U L p options') (\<lambda>(result, e) w'.
      \<not> Changed result \<and> (e = None \<longrightarrow> untouched (nodes w2) (nodes w'))) w2"
    using decode_own_manifest [OF _ assms(7,6)] by (intro run_in_place [OF assms(10,3)]) auto
  then show ?thesis using wp_run [OF _ assms(11)] by auto
qed

end
