(* ===== verification/Gen_Diff.thy ===== *)
theory Gen_Diff
  imports Gen_Protect
begin

text \<open>
  \<open>Diff\<close> of \<open>src/internal/genfs/genfs.go\<close>: one hunk for each path that differs, with up to three
  lines of context, cut off at a bound on the lines written.  A hunk is shown to be a
  correct patch between the two contents.
\<close>

section \<open>Lines\<close>

definition splitLines :: "string \<Rightarrow> string list" where
  "splitLines content =
     (let trimmed = trim_suffix content [newline]
      in if trimmed = [] then [] else split_on newline trimmed)"

function prefix_loop :: "string list \<Rightarrow> string list \<Rightarrow> nat \<Rightarrow> nat \<Rightarrow> nat" where
  "prefix_loop left right limit index =
     (if index < limit \<and> left ! index = right ! index then prefix_loop left right limit (index + 1)
      else index)"
  by pat_completeness auto
termination by (relation "measure (\<lambda>(left, right, limit, index). limit - index)") auto

declare prefix_loop.simps [simp del]

definition commonPrefix :: "string list \<Rightarrow> string list \<Rightarrow> nat" where
  "commonPrefix left right = prefix_loop left right (min (length left) (length right)) 0"

function suffix_loop :: "string list \<Rightarrow> string list \<Rightarrow> nat \<Rightarrow> nat \<Rightarrow> nat" where
  "suffix_loop left right limit matched =
     (if matched < limit \<and> left ! (length left - matched - 1) = right ! (length right - matched - 1)
      then suffix_loop left right limit (matched + 1)
      else matched)"
  by pat_completeness auto
termination by (relation "measure (\<lambda>(left, right, limit, matched). limit - matched)") auto

declare suffix_loop.simps [simp del]

definition commonSuffixAfter :: "string list \<Rightarrow> string list \<Rightarrow> nat \<Rightarrow> nat" where
  "commonSuffixAfter left right pre =
     suffix_loop left right (min (length left - pre) (length right - pre)) 0"

section \<open>Hunks\<close>

text \<open>The output so far and the number of lines written.\<close>

type_synonym diff_state = "string \<times> int"

definition appendDiffLine :: "char \<Rightarrow> string \<Rightarrow> int \<Rightarrow> diff_state \<Rightarrow> diff_state \<times> bool" where
  "appendDiffLine mark line limit st =
     (let (builder, written) = st
      in if written \<ge> limit then (st, False)
         else ((builder @ [mark] @ line @ [newline], written + 1), True))"

fun append_lines :: "char \<Rightarrow> int \<Rightarrow> string list \<Rightarrow> diff_state \<Rightarrow> diff_state \<times> bool" where
  "append_lines mark limit [] st = (st, True)"
| "append_lines mark limit (line # rest) st =
     (let (st', more) = appendDiffLine mark line limit st
      in if more then append_lines mark limit rest st' else (st', False))"

text \<open>The loops of a hunk one after the other; the first that meets the bound ends it.\<close>

fun append_groups :: "int \<Rightarrow> (char \<times> string list) list \<Rightarrow> diff_state \<Rightarrow> diff_state" where
  "append_groups limit [] st = st"
| "append_groups limit ((mark, ls) # groups) st =
     (let (st', more) = append_lines mark limit ls st
      in if more then append_groups limit groups st' else st')"

definition slice :: "nat \<Rightarrow> nat \<Rightarrow> 'a list \<Rightarrow> 'a list" where
  "slice lo hi xs = take (hi - lo) (drop lo xs)"

definition hunk_header :: "string \<Rightarrow> nat \<Rightarrow> nat \<Rightarrow> nat \<Rightarrow> string" where
  "hunk_header filePath start old new =
     ''--- a/'' @ filePath @ [newline] @ ''+++ b/'' @ filePath @ [newline] @
     ''@@ -'' @ show_nat (start + 1) @ '','' @ show_nat old @ '' +'' @ show_nat (start + 1) @ '','' @
     show_nat new @ '' @@'' @ [newline]"

definition appendDiff :: "string \<Rightarrow> string \<Rightarrow> string \<Rightarrow> string \<Rightarrow> int \<Rightarrow> string \<times> int" where
  "appendDiff builder filePath present wanted limit =
     (let currentLines = splitLines present;
          expectedLines = splitLines wanted;
          pre = commonPrefix currentLines expectedLines;
          suf = commonSuffixAfter currentLines expectedLines pre;
          contextLines = 3;
          start = pre - contextLines;
          currentChangedEnd = length currentLines - suf;
          expectedChangedEnd = length expectedLines - suf;
          currentEnd = min (length currentLines) (currentChangedEnd + contextLines);
          expectedEnd = min (length expectedLines) (expectedChangedEnd + contextLines);
          contextEnd = min (currentEnd - currentChangedEnd) (expectedEnd - expectedChangedEnd)
      in append_groups limit
           [(CHR '' '', slice start pre currentLines),
            (CHR ''-'', slice pre currentChangedEnd currentLines),
            (CHR ''+'', slice pre expectedChangedEnd expectedLines),
            (CHR '' '', slice currentChangedEnd (currentChangedEnd + contextEnd) currentLines)]
           (builder @ hunk_header filePath start (currentEnd - start) (expectedEnd - start), 3))"

section \<open>The whole diff\<close>

definition maxDiffLines :: int where
  "maxDiffLines = 200"

definition path_less :: "string \<Rightarrow> string \<Rightarrow> string \<Rightarrow> bool" where
  "path_less manifestPath left right =
     (let leftManifest = (left = manifestPath); rightManifest = (right = manifestPath)
      in if leftManifest \<noteq> rightManifest then \<not> leftManifest else left < right)"

definition ordered_paths :: "plan \<Rightarrow> difference list \<Rightarrow> string list" where
  "ordered_paths p ds = sort_by (path_less (ManifestPath (Target p))) (remdups (map diff_path ds))"

fun diff_files :: "inspection \<Rightarrow> string list \<Rightarrow> string \<Rightarrow> int \<Rightarrow> string" where
  "diff_files st [] builder remaining = builder"
| "diff_files st (filePath # rest) builder remaining =
     (if remaining \<le> 0 then builder @ ''... diff truncated ...'' @ [newline]
      else let (builder', written) = appendDiff builder filePath
                   (case map_of (current st) filePath of None \<Rightarrow> [] | Some c \<Rightarrow> c)
                   (case map_of (expected st) filePath of None \<Rightarrow> [] | Some c \<Rightarrow> c) remaining
           in diff_files st rest builder' (remaining - written))"

definition Diff :: "unicode_tables \<Rightarrow> gen_library \<Rightarrow> plan \<Rightarrow> string fallible" where
  "Diff U L p =
     do {
       r \<leftarrow> inspect_module U L p;
       ret (case r of
              Inl e \<Rightarrow> Inl e
            | Inr st \<Rightarrow>
                if Current (insp_status st) then Inr []
                else Inr (diff_files st (ordered_paths p (differences st)) [] maxDiffLines))
     }"

section \<open>What a hunk says\<close>

lemma prefix_loop_take:
  assumes "index \<le> limit" "limit \<le> length left" "limit \<le> length right" "take index left = take index right"
  shows "prefix_loop left right limit index \<le> limit \<and>
    take (prefix_loop left right limit index) left = take (prefix_loop left right limit index) right"
  using assms
proof (induction left right limit index rule: prefix_loop.induct)
  case (1 left right limit index)
  then show ?case
    by (subst (1 2 3) prefix_loop.simps) (auto simp: take_Suc_conv_app_nth)
qed

lemma suffix_loop_drop:
  assumes "matched \<le> limit" "limit \<le> length left" "limit \<le> length right"
    and "drop (length left - matched) left = drop (length right - matched) right"
  shows "suffix_loop left right limit matched \<le> limit \<and>
    drop (length left - suffix_loop left right limit matched) left =
    drop (length right - suffix_loop left right limit matched) right"
  using assms
proof (induction left right limit matched rule: suffix_loop.induct)
  case (1 left right limit matched)
  show ?case
  proof (cases "matched < limit \<and> left ! (length left - matched - 1) = right ! (length right - matched - 1)")
    case True
    have step: "drop (length xs - Suc matched) xs = xs ! (length xs - matched - 1) # drop (length xs - matched) xs"
      if "matched < length xs" for xs :: "string list"
      using that Cons_nth_drop_Suc [of "length xs - Suc matched" xs] by (simp add: Suc_diff_Suc)
    have "drop (length left - (matched + 1)) left = drop (length right - (matched + 1)) right"
      using True "1.prems" step [of left] step [of right] by simp
    then show ?thesis
      using True "1.IH" [OF True] "1.prems" by (subst (1 2 3) suffix_loop.simps) simp
  next
    case False
    then show ?thesis using "1.prems" by (subst (1 2 3) suffix_loop.simps) auto
  qed
qed

lemma commonPrefix_take:
  "commonPrefix l r \<le> length l \<and> commonPrefix l r \<le> length r \<and>
     take (commonPrefix l r) l = take (commonPrefix l r) r"
  using prefix_loop_take [of 0 "min (length l) (length r)" l r] by (auto simp: commonPrefix_def)

lemma commonSuffixAfter_drop:
  assumes "n \<le> length l" "n \<le> length r"
  shows "n + commonSuffixAfter l r n \<le> length l" "n + commonSuffixAfter l r n \<le> length r"
    "drop (length l - commonSuffixAfter l r n) l = drop (length r - commonSuffixAfter l r n) r"
proof -
  let ?limit = "min (length l - n) (length r - n)"
  have "?limit \<le> length l" "?limit \<le> length r" by auto
  then have "commonSuffixAfter l r n \<le> ?limit \<and>
      drop (length l - commonSuffixAfter l r n) l = drop (length r - commonSuffixAfter l r n) r"
    using suffix_loop_drop [of 0 ?limit l r] by (simp add: commonSuffixAfter_def)
  then show "n + commonSuffixAfter l r n \<le> length l" "n + commonSuffixAfter l r n \<le> length r"
    "drop (length l - commonSuffixAfter l r n) l = drop (length r - commonSuffixAfter l r n) r"
    using assms by auto
qed

text \<open>The lines of a hunk with their marks, as they are written and as the two sides read them.\<close>

definition render :: "(char \<times> string) list \<Rightarrow> string" where
  "render body = concat (map (\<lambda>(mark, line). mark # line @ [newline]) body)"

definition old_side :: "(char \<times> string) list \<Rightarrow> string list" where
  "old_side body = map snd (filter (\<lambda>(mark, line). mark \<noteq> CHR ''+'') body)"

definition new_side :: "(char \<times> string) list \<Rightarrow> string list" where
  "new_side body = map snd (filter (\<lambda>(mark, line). mark \<noteq> CHR ''-'') body)"

definition marked :: "(char \<times> string list) list \<Rightarrow> (char \<times> string) list" where
  "marked groups = concat (map (\<lambda>(mark, ls). map (Pair mark) ls) groups)"

lemma append_lines_eq:
  "append_lines mark limit ls (b, n) =
     ((b @ render (map (Pair mark) (take (nat (limit - n)) ls)), n + int (length (take (nat (limit - n)) ls))),
      int (length ls) \<le> limit - n \<or> ls = [])"
proof (induction ls arbitrary: b n)
  case (Cons l ls)
  show ?case
  proof (cases "n < limit")
    case True
    then have "nat (limit - n) = Suc (nat (limit - (n + 1)))" by simp
    then show ?thesis using True Cons by (auto simp: appendDiffLine_def render_def Let_def)
  qed (auto simp: appendDiffLine_def render_def)
qed (simp add: render_def)

lemma append_groups_eq:
  "append_groups limit groups (b, n) =
     (b @ render (take (nat (limit - n)) (marked groups)),
      n + int (length (take (nat (limit - n)) (marked groups))))"
proof (induction groups arbitrary: b n)
  case (Cons g groups)
  obtain mark ls where g: "g = (mark, ls)" by fastforce
  show ?case
  proof (cases "int (length ls) \<le> limit - n \<or> ls = []")
    case True
    then have "nat (limit - n) - length ls = nat (limit - (n + int (length ls)))" "take (nat (limit - n)) ls = ls"
      by auto
    then show ?thesis using Cons by (simp add: g append_lines_eq marked_def True render_def)
  next
    case False
    then have "nat (limit - n) - length ls = 0" by linarith
    then show ?thesis using False by (simp add: g append_lines_eq marked_def take_map)
  qed
qed (simp add: marked_def render_def)

lemma slice_append:
  assumes "lo \<le> mid" "mid \<le> hi"
  shows "slice lo mid xs @ slice mid hi xs = slice lo hi xs"
proof -
  have "hi - lo = (mid - lo) + (hi - mid)" "lo + (mid - lo) = mid" using assms by auto
  then show ?thesis using take_add [of "mid - lo" "hi - mid" "drop lo xs"] by (simp add: slice_def add.commute)
qed

lemma slice_take: "hi \<le> n \<Longrightarrow> slice lo hi (take n xs) = slice lo hi xs"
  by (simp add: slice_def drop_take min_def)

lemma slice_drop: "slice (n + lo) (n + hi) xs = slice lo hi (drop n xs)"
  by (simp add: slice_def add.commute)

lemma sides_marked:
  "old_side (marked [(CHR '' '', a), (CHR ''-'', b), (CHR ''+'', c), (CHR '' '', d)]) = a @ b @ d"
  "new_side (marked [(CHR '' '', a), (CHR ''-'', b), (CHR ''+'', c), (CHR '' '', d)]) = a @ c @ d"
  by (simp_all add: old_side_def new_side_def marked_def filter_map comp_def)

lemma split_slice: "lo \<le> hi \<Longrightarrow> hi \<le> length xs \<Longrightarrow> xs = take lo xs @ slice lo hi xs @ drop hi xs"
  by (simp add: slice_def) (metis append_take_drop_id le_add_diff_inverse take_add append.assoc)

definition hunk_of :: "string list \<Rightarrow> string list \<Rightarrow> nat \<Rightarrow> (char \<times> string) list \<Rightarrow> bool" where
  "hunk_of old new start body =
     (\<exists>before after. length before = start \<and> old = before @ old_side body @ after \<and>
        new = before @ new_side body @ after)"

lemma hunk_sides:
  fixes l r :: "'a list"
  assumes "pre \<le> length l" "take pre l = take pre r" "pre \<le> length r"
    and "pre + suf \<le> length l" "pre + suf \<le> length r"
    and "drop (length l - suf) l = drop (length r - suf) r" "ctx \<le> suf" "start \<le> pre"
  shows "slice start pre l @ slice pre (length l - suf) l @ slice (length l - suf) (length l - suf + ctx) l =
      slice start (length l - suf + ctx) l"
    and "slice start pre l @ slice pre (length r - suf) r @ slice (length l - suf) (length l - suf + ctx) l =
      slice start (length r - suf + ctx) r"
    and "take start l = take start r"
    and "drop (length l - suf + ctx) l = drop (length r - suf + ctx) r"
proof -
  have whole: "slice start pre xs @ slice pre (length xs - suf) xs @
      slice (length xs - suf) (length xs - suf + ctx) xs = slice start (length xs - suf + ctx) xs"
    if "pre + suf \<le> length xs" for xs :: "'a list"
    using that assms(8) by (simp add: slice_append)
  show "slice start pre l @ slice pre (length l - suf) l @
      slice (length l - suf) (length l - suf + ctx) l = slice start (length l - suf + ctx) l"
    by (rule whole [OF assms(4)])
  have "slice start pre l = slice start pre r" using slice_take [of pre pre] assms(2) by (metis order_refl)
  moreover have "slice (length l - suf) (length l - suf + ctx) l = slice (length r - suf) (length r - suf + ctx) r"
    using slice_drop [of "length l - suf" 0 ctx l] slice_drop [of "length r - suf" 0 ctx r] assms(6) by simp
  ultimately show "slice start pre l @ slice pre (length r - suf) r @
      slice (length l - suf) (length l - suf + ctx) l = slice start (length r - suf + ctx) r"
    using whole [OF assms(5)] by argo
  show "take start l = take start r" using assms(2,8) by (metis min.absorb1 take_take)
  show "drop (length l - suf + ctx) l = drop (length r - suf + ctx) r"
    using assms(6) by (metis add.commute drop_drop)
qed

lemma appendDiff_hunk:
  "\<exists>start body. hunk_of (splitLines present) (splitLines wanted) start body \<and>
     appendDiff b k present wanted limit =
       (b @ hunk_header k start (length (old_side body)) (length (new_side body)) @
          render (take (nat (limit - 3)) body),
        3 + int (length (take (nat (limit - 3)) body)))"
proof -
  let ?l = "splitLines present" and ?r = "splitLines wanted"
  define pre where "pre = commonPrefix ?l ?r"
  define suf where "suf = commonSuffixAfter ?l ?r pre"
  define ctx where "ctx = min 3 suf"
  define start where "start = pre - 3"
  have p: "pre \<le> length ?l" "pre \<le> length ?r" "take pre ?l = take pre ?r"
    using commonPrefix_take [of ?l ?r] by (simp_all add: pre_def)
  have s: "pre + suf \<le> length ?l" "pre + suf \<le> length ?r"
      "drop (length ?l - suf) ?l = drop (length ?r - suf) ?r"
    using commonSuffixAfter_drop [OF p(1,2)] by (simp_all add: suf_def)
  have ctx: "ctx \<le> suf" and start: "start \<le> pre" by (simp_all add: ctx_def start_def)
  note sides = hunk_sides [OF p(1,3,2) s ctx start]
  let ?groups = "[(CHR '' '', slice start pre ?l), (CHR ''-'', slice pre (length ?l - suf) ?l),
    (CHR ''+'', slice pre (length ?r - suf) ?r),
    (CHR '' '', slice (length ?l - suf) (length ?l - suf + ctx) ?l)]"
  let ?body = "marked ?groups"
  have old: "old_side ?body = slice start (length ?l - suf + ctx) ?l"
    and new: "new_side ?body = slice start (length ?r - suf + ctx) ?r"
    by (simp_all only: sides_marked sides)
  have ends: "min (length ?l) (length ?l - suf + 3) = length ?l - suf + ctx"
    "min (length ?r) (length ?r - suf + 3) = length ?r - suf + ctx"
    using s by (auto simp: ctx_def)
  have lengths: "length (old_side ?body) = length ?l - suf + ctx - start"
    "length (new_side ?body) = length ?r - suf + ctx - start"
    unfolding old new using s ctx by (auto simp: slice_def)
  have "appendDiff b k present wanted limit = append_groups limit ?groups
      (b @ hunk_header k start (length ?l - suf + ctx - start) (length ?r - suf + ctx - start), 3)"
    unfolding appendDiff_def Let_def pre_def [symmetric] suf_def [symmetric] start_def [symmetric] ends
    by simp
  also have "\<dots> = (b @ hunk_header k start (length (old_side ?body)) (length (new_side ?body)) @
        render (take (nat (limit - 3)) ?body), 3 + int (length (take (nat (limit - 3)) ?body)))"
    unfolding lengths by (simp only: append_groups_eq append.assoc)
  finally show ?thesis
  proof (intro exI conjI)
    have "?l = take start ?l @ old_side ?body @ drop (length ?l - suf + ctx) ?l"
      unfolding old using s ctx start by (intro split_slice) auto
    moreover have "?r = take start ?l @ new_side ?body @ drop (length ?l - suf + ctx) ?l"
      unfolding new sides(3,4) using s ctx start by (intro split_slice) auto
    moreover have "length (take start ?l) = start" using p start by simp
    ultimately show "hunk_of ?l ?r start ?body" unfolding hunk_of_def by blast
  qed
qed

section \<open>The bound\<close>

definition unlines :: "string list \<Rightarrow> string" where
  "unlines ls = concat (map (\<lambda>l. l @ [newline]) ls)"

lemma unlines_append: "unlines (xs @ ys) = unlines xs @ unlines ys"
  by (simp add: unlines_def)

lemma render_unlines: "render body = unlines (map (\<lambda>(mark, line). mark # line) body)"
  by (induction body) (auto simp: render_def unlines_def)

lemma header_unlines: "\<exists>ls. hunk_header k start old new = unlines ls \<and> length ls = 3"
proof -
  let ?ls = "[''--- a/'' @ k, ''+++ b/'' @ k, ''@@ -'' @ show_nat (start + 1) @ '','' @ show_nat old @ '' +'' @
    show_nat (start + 1) @ '','' @ show_nat new @ '' @@'']"
  have "hunk_header k start old new = unlines ?ls" by (simp add: hunk_header_def unlines_def)
  then show ?thesis by (intro exI [of _ ?ls]) simp
qed

lemma appendDiff_lines:
  assumes "appendDiff b k present wanted limit = (b', wrote)"
  shows "\<exists>ls. b' = b @ unlines ls \<and> int (length ls) = wrote \<and> wrote \<le> max 3 limit"
proof -
  obtain start body where out: "b' = b @ hunk_header k start (length (old_side body)) (length (new_side body)) @
      render (take (nat (limit - 3)) body)" "wrote = 3 + int (length (take (nat (limit - 3)) body))"
    using appendDiff_hunk [of present wanted b k limit] assms by auto
  obtain h where h: "hunk_header k start (length (old_side body)) (length (new_side body)) = unlines h"
      "length h = 3"
    using header_unlines by blast
  then have "b' = b @ unlines (h @ map (\<lambda>(mark, line). mark # line) (take (nat (limit - 3)) body))"
    using out(1) by (simp add: unlines_append render_unlines)
  then show ?thesis using out(2) h(2) by (intro exI conjI) auto
qed

lemma diff_files_lines:
  "\<exists>ls. diff_files st ks b n = b @ unlines ls \<and> int (length ls) \<le> (if n \<le> 0 then 1 else n + 3)"
proof (induction st ks b n rule: diff_files.induct)
  case (1 st b n)
  show ?case by (rule exI [of _ "[]"]) (simp add: unlines_def)
next
  case (2 st k ks b n)
  show ?case
  proof (cases "n \<le> 0")
    case True
    then show ?thesis by (intro exI [of _ "[''... diff truncated ...'']"]) (simp add: unlines_def)
  next
    case False
    let ?c = "\<lambda>m. case map_of m k of None \<Rightarrow> [] | Some c \<Rightarrow> c"
    obtain b' wrote where d: "appendDiff b k (?c (current st)) (?c (expected st)) n = (b', wrote)"
      by fastforce
    obtain ls where ls: "b' = b @ unlines ls" "int (length ls) = wrote" "wrote \<le> max 3 n"
      using appendDiff_lines [OF d] by blast
    obtain rest where rest: "diff_files st ks b' (n - wrote) = b' @ unlines rest"
        "int (length rest) \<le> (if n - wrote \<le> 0 then 1 else n - wrote + 3)"
      using "2.IH" [OF False d [symmetric] refl] by blast
    have "diff_files st (k # ks) b n = b @ unlines (ls @ rest)"
      using False d ls(1) rest(1) by (simp add: unlines_append)
    moreover have "int (length (ls @ rest)) \<le> n + 3" using ls rest False by (auto split: if_splits)
    ultimately show ?thesis using False by (intro exI [of _ "ls @ rest"]) simp
  qed
qed

lemma inspect_module_reads:
  "wp (inspect_module U L p) (\<lambda>r w'. nodes w' = nodes w) w"
proof (cases "validatePlan U L p")
  case None
  have inspect: "wp (inspect U L p no_options) (\<lambda>r w'. nodes w' = nodes w) w1" if "nodes w1 = nodes w" for w1
    by (rule wp_mono [OF inspect_inspected]) (use that plan_plain [OF validatePlan_ok [OF None]] in auto)
  show ?thesis
    unfolding inspect_module_def using None inspect
    by (auto intro!: wp_may_fail wp_mono [OF inspect] split: sum.splits)
qed (simp add: inspect_module_def)

section \<open>Properties\<close>

text \<open>
  C34. Each hunk of a diff is a correct patch: it consists of the lines common to both sides, removed and
  added lines, starting at the line its header names; the lines without the added ones are what the
  present content has there, those without the removed ones what the expected content has, and before
  and after them the two contents agree.  The header counts both sides, and only the bound on the lines
  cuts the hunk short.
\<close>
theorem appendDiff_patch:
  "\<exists>start body before after. length before = start \<and>
     splitLines present = before @ old_side body @ after \<and>
     splitLines wanted = before @ new_side body @ after \<and>
     appendDiff b k present wanted limit =
       (b @ hunk_header k start (length (old_side body)) (length (new_side body)) @
          render (take (nat (limit - 3)) body),
        3 + int (length (take (nat (limit - 3)) body)))"
  using appendDiff_hunk [of present wanted b k limit] unfolding hunk_of_def by blast

text \<open>
  \<open>Diff\<close> leaves the module as it is, under any faults, and its text has at most 203 lines: the 200
  of the bound, the rest of a header started below it and the mark of the truncation.
\<close>
theorem Diff_bounded:
  assumes "run_state (Diff U L p) w = (r, w')"
  shows "nodes w' = nodes w \<and>
    (\<forall>out. r = Inr out \<longrightarrow> (\<exists>ls. out = concat (map (\<lambda>l. l @ [newline]) ls) \<and> length ls \<le> 203))"
proof -
  have small: "\<exists>ls. diff_files st ks [] maxDiffLines = concat (map (\<lambda>l. l @ [newline]) ls) \<and> length ls \<le> 203"
    for st ks
    using diff_files_lines [of st ks "[]" maxDiffLines] by (auto simp: maxDiffLines_def unlines_def)
  have empty: "\<exists>ls. [] = concat (map (\<lambda>l. l @ [newline]) ls) \<and> length ls \<le> 203"
    by (rule exI [of _ "[]"]) simp
  have "wp (Diff U L p) (\<lambda>r w'. nodes w' = nodes w \<and> (\<forall>out. r = Inr out \<longrightarrow>
      (\<exists>ls. out = concat (map (\<lambda>l. l @ [newline]) ls) \<and> length ls \<le> 203))) w"
    unfolding Diff_def wp_bind
    by (rule wp_mono [OF inspect_module_reads]) (use small empty in \<open>auto split: sum.splits\<close>)
  then show ?thesis using wp_run [OF _ assms] by auto
qed

end
