(* ===== verification/Gen_Sample.thy ===== *)
theory Gen_Sample
  imports Gen_Again Gen_Diff
begin

text \<open>
  A small module on which the guarded writes are run: an owned file that changed, an owned file
  that the plan no longer has and a file of the user.  The runs are evaluated in the kernel and
  are the concrete instances of the theorems on applying a plan.
\<close>

section \<open>The module\<close>

definition sample_library :: gen_library where
  "sample_library =
     \<lparr>sha256_sum = (\<lambda>s. take 32 (s @ replicate 32 CHR ''x'')),
      json_manifest = (\<lambda>s. Inl s), json_lock = (\<lambda>s. s), json_valid = (\<lambda>s. True), go_parses = (\<lambda>s. None),
      lower_rune = (\<lambda>r. r), upper_rune = (\<lambda>r. r)\<rparr>"

definition sample_target :: target where
  "sample_target =
     \<lparr>ID = ''app'', Layout = LayoutGeneratedPackage, ModulePath = ''m'', ModuleRoot = ''/m'',
      PackagePath = ''m/gen'', EntrypointPackagePath = [], OutputDir = ''gen'', BridgeDir = [],
      ManifestPath = ''.spice/app.json''\<rparr>"

definition sample_summary :: target_summary where
  "sample_summary =
     \<lparr>sum_ID = ''app'', sum_Layout = LayoutGeneratedPackage, sum_ModulePath = ''m'',
      sum_PackagePath = ''m/gen'', sum_EntrypointPackagePath = [], sum_OutputDir = ''gen'',
      sum_BridgeDir = [], sum_ManifestPath = ''.spice/app.json''\<rparr>"

definition sample_owned :: "string \<Rightarrow> string \<Rightarrow> manifest_file" where
  "sample_owned k content =
     \<lparr>own_path = k, own_sha256 = hashContent sample_library content, own_role = ''artifact'',
      own_primary = None, own_related = [], own_mappings = []\<rparr>"

definition sample_manifest :: "manifest_file list \<Rightarrow> manifest" where
  "sample_manifest fs =
     \<lparr>Schema = 6, manifest_target = sample_summary, GeneratorVersion = ''v'', GoFormatLine = ''1.26'',
      InputSHA256 = [], manifest_files = fs\<rparr>"

definition sample_file :: "string \<Rightarrow> string \<Rightarrow> gen_file" where
  "sample_file k content =
     \<lparr>gen_path = k, gen_mode = 420, SHA256 = hashContent sample_library content, Role = ''artifact'',
      PrimarySource = None, RelatedSources = [], Mappings = [], Sources = [], Content = content\<rparr>"

definition sample_plan :: plan where
  "sample_plan =
     \<lparr>Target = sample_target, Files = [sample_file ''gen/a.json'' [CHR ''1'', newline]],
      plan_manifest = sample_manifest [sample_owned ''gen/a.json'' [CHR ''1'', newline]],
      ManifestContent = ''new'' @ [newline]\<rparr>"

definition sample_world :: world where
  "sample_world =
     \<lparr>nodes = [([''.spice''], Directory), ([''.spice'', ''app.json''], File ''old'' 420), ([''gen''], Directory),
        ([''gen'', ''a.json''], File [CHR ''0'', newline] 420), ([''gen'', ''b.json''], File ''own'' 420),
        ([''gen'', ''c.json''], File [CHR ''2'', newline] 420)],
      faults = [], entropy = [''1'', ''2'', ''3'', ''4'']\<rparr>"

definition sample_prior :: gen_library where
  "sample_prior = sample_library\<lparr>json_manifest := (\<lambda>s. Inr (
     if s = ManifestContent sample_plan then plan_manifest sample_plan
     else sample_manifest [sample_owned ''gen/a.json'' [CHR ''0'', newline],
            sample_owned ''gen/c.json'' [CHR ''2'', newline]]))\<rparr>"

definition sample_run :: "(gen_result \<times> go_error option) \<times> world" where
  "sample_run = run_state (ApplyWithOptions latin_only sample_prior sample_plan no_options) sample_world"

section \<open>Its run\<close>

lemma sample_run_ok: "snd (fst sample_run) = None"
  by code_simp

lemma sample_run_nodes:
  "map (node_at (nodes (snd sample_run)))
     [[''gen'', ''a.json''], [''gen'', ''b.json''], [''gen'', ''c.json'']] =
   [Some (File [CHR ''1'', newline] 420), Some (File ''own'' 420), None]"
  by code_simp

lemma sample_node_at:
  "node_at (nodes sample_world) q = Some n \<Longrightarrow>
     q = [] \<and> n = Directory \<or> (q, n) \<in> set (nodes sample_world)"
  by (auto simp: node_at_def dest: map_of_SomeD split: if_splits)

lemma sample_well_formed: "wf_tree (nodes sample_world)" "link_free (nodes sample_world)"
  by (auto simp: wf_tree_def link_free_def dest!: sample_node_at)
    (auto simp: sample_world_def node_at_def)

lemma sample_paths:
  "slash \<notin> set (ID (Target sample_plan))" "lockPath sample_plan \<noteq> ManifestPath (Target sample_plan)"
  "separate (plan_phys sample_plan)"
proof -
  show "slash \<notin> set (ID (Target sample_plan))" "lockPath sample_plan \<noteq> ManifestPath (Target sample_plan)"
    by code_simp+
  have "plan_phys sample_plan = {[''.spice'', ''app.json''], [''gen'', ''a.json'']}"
    by (simp add: plan_phys_def plan_paths_def sample_plan_def sample_target_def sample_file_def)
  then show "separate (plan_phys sample_plan)" by (simp add: separate_def strict_prefix_def)
qed

lemma ApplyWithOptions_protects_witness:
  "replaceable latin_only sample_prior sample_plan no_options (nodes sample_world) [''gen'', ''a.json'']"
  by (rule ApplyWithOptions_protects [OF sample_well_formed(1) sample_paths, where w' = "snd sample_run" and
        result = "fst sample_run" and n = "File [CHR ''0'', newline] 420"])
    (use sample_run_nodes in \<open>simp_all add: sample_run_def\<close>, simp add: sample_world_def node_at_def)

lemma ApplyWithOptions_success_witness:
  "plan_applied latin_only sample_prior sample_plan no_options (nodes sample_world) (nodes (snd sample_run))"
  by (rule ApplyWithOptions_success [OF sample_well_formed sample_paths, where result = "fst (fst sample_run)"])
    (metis sample_run_def sample_run_ok prod.collapse)

definition sample_second :: "(gen_result \<times> go_error option) \<times> world" where
  "sample_second =
     run_state (ApplyWithOptions latin_only sample_prior sample_plan no_options) (snd sample_run)"

lemma sample_run_well_formed: "wf_tree (nodes (snd sample_run))"
proof -
  have after: "nodes (snd sample_run) =
      [([''.spice''], Directory), ([''gen''], Directory), ([''gen'', ''b.json''], File ''own'' 420),
       ([''gen'', ''a.json''], File [CHR ''1'', newline] 420),
       ([''.spice'', ''app.json''], File (''new'' @ [newline]) 420)]"
    by code_simp
  show ?thesis by (simp add: after wf_tree_def node_at_def)
qed

lemma sample_digest: "length (sha256_sum sample_prior c) = 32"
  by (simp add: sample_prior_def sample_library_def)

lemma ApplyWithOptions_idempotent_witness: "\<not> Changed (fst (fst sample_second))"
proof -
  have first: "run_state (ApplyWithOptions latin_only sample_prior sample_plan no_options) sample_world =
      ((fst (fst sample_run), None), snd sample_run)"
    by (metis sample_run_def sample_run_ok prod.collapse)
  have second: "run_state (ApplyWithOptions latin_only sample_prior sample_plan no_options) (snd sample_run) =
      ((fst (fst sample_second), snd (fst sample_second)), snd sample_second)"
    by (simp add: sample_second_def)
  have decoded: "json_manifest sample_prior (ManifestContent sample_plan) = Inr (plan_manifest sample_plan)"
    by (simp add: sample_prior_def)
  show ?thesis
    using ApplyWithOptions_idempotent [OF sample_well_formed sample_paths sample_digest decoded first refl
        sample_run_well_formed second] by blast
qed

definition sample_diff :: "(go_error + string) \<times> world" where
  "sample_diff = run_state (Diff latin_only sample_prior sample_plan) sample_world"

lemma sample_diff_text:
  "fst sample_diff = Inr (concat (map (\<lambda>l. l @ [newline])
     [''--- a/gen/a.json'', ''+++ b/gen/a.json'', ''@@ -1,1 +1,1 @@'', ''-0'', ''+1'',
      ''--- a/gen/c.json'', ''+++ b/gen/c.json'', ''@@ -1,1 +1,0 @@'', ''-2'',
      ''--- a/.spice/app.json'', ''+++ b/.spice/app.json'', ''@@ -1,1 +1,1 @@'', ''-old'', ''+new'']))"
  by code_simp

lemma Diff_bounded_witness:
  "nodes (snd sample_diff) = nodes sample_world \<and>
     (\<exists>ls. Inr (concat (map (\<lambda>l. l @ [newline]) ls)) = fst sample_diff \<and> length ls \<le> 203)"
  using Diff_bounded [of latin_only sample_prior sample_plan sample_world "fst sample_diff" "snd sample_diff"]
    sample_diff_text by (auto simp: sample_diff_def)

end
