(* ===== verification/Generated_Names.thy ===== *)
theory Generated_Names
  imports Text_Laws Go_Path Go_Types
begin

text \<open>
  \<open>src/compiler/generate/naming.go\<close>: the names of the local variables that hold the providers in the
  generated constructor.  A name is made from the provider's name by the letter case rules of Go;
  providers that share it are told apart by their package and a number.

  The case mapping is exact up to U+00FF; beyond it the tables are a parameter (\<open>case_tables\<close>).
  Declared types are identified by their names, so the predeclared \<open>error\<close> is a declared type.
\<close>

section \<open>Letter case\<close>

record case_tables =
  table_lower :: "rune \<Rightarrow> bool"
  table_to_lower :: "rune \<Rightarrow> rune"
  table_to_upper :: "rune \<Rightarrow> rune"

definition is_lower :: "case_tables \<Rightarrow> rune \<Rightarrow> bool" where
  "is_lower C r =
     (if r \<le> 255 then in_range 97 122 r \<or> r = 181 \<or> in_range 223 246 r \<or> in_range 248 255 r else table_lower C r)"

definition to_lower :: "case_tables \<Rightarrow> rune \<Rightarrow> rune" where
  "to_lower C r =
     (if r \<le> 255 then (if in_range 65 90 r \<or> in_range 192 214 r \<or> in_range 216 222 r then r + 32 else r)
      else table_to_lower C r)"

definition to_upper :: "case_tables \<Rightarrow> rune \<Rightarrow> rune" where
  "to_upper C r =
     (if r \<le> 255
      then (if in_range 97 122 r \<or> in_range 224 246 r \<or> in_range 248 254 r then r - 32
            else if r = 181 then 924 else if r = 255 then 376 else r)
      else table_to_upper C r)"

section \<open>Runes of a string\<close>

function runes_of :: "string \<Rightarrow> rune list" where
  "runes_of s = (if s = [] then [] else fst (decode_rune s) # runes_of (drop (snd (decode_rune s)) s))"
  by pat_completeness auto
termination
  by (relation "measure length") (auto dest!: decode_rune_size [OF _ prod.collapse [symmetric]])

declare runes_of.simps [simp del]

definition string_of_runes :: "rune list \<Rightarrow> string" where
  "string_of_runes rs = concat (map encode_rune rs)"

section \<open>Go identifiers\<close>

definition go_keywords :: "string list" where
  "go_keywords =
     [''break'', ''case'', ''chan'', ''const'', ''continue'', ''default'', ''defer'', ''else'', ''fallthrough'',
      ''for'', ''func'', ''go'', ''goto'', ''if'', ''import'', ''interface'', ''map'', ''package'', ''range'',
      ''return'', ''select'', ''struct'', ''switch'', ''type'', ''var'']"

definition identifier_first :: "unicode_tables \<Rightarrow> rune \<Rightarrow> bool" where
  "identifier_first U r = (is_letter U r \<or> r = 95)"

definition identifier_later :: "unicode_tables \<Rightarrow> rune \<Rightarrow> bool" where
  "identifier_later U r = (is_letter U r \<or> r = 95 \<or> is_digit U r)"

text \<open>\<open>token.IsIdentifier\<close> and \<open>token.IsExported\<close>.\<close>

definition IsIdentifier :: "unicode_tables \<Rightarrow> string \<Rightarrow> bool" where
  "IsIdentifier U name =
     (name \<noteq> [] \<and> name \<notin> set go_keywords \<and>
      (case runes_of name of
         [] \<Rightarrow> True
       | r # rs \<Rightarrow> identifier_first U r \<and> list_all (identifier_later U) rs))"

definition IsExported :: "unicode_tables \<Rightarrow> string \<Rightarrow> bool" where
  "IsExported U name = is_upper U (fst (decode_rune name))"

section \<open>Generated identifiers\<close>

text \<open>The providers as \<open>naming.go\<close> reads them.\<close>

record variable_source =
  vs_name :: string
  vs_symbol :: string
  vs_explicit :: bool
  vs_package :: string
  vs_output :: go_type

fun normalize_loop :: "unicode_tables \<Rightarrow> case_tables \<Rightarrow> rune list \<Rightarrow> rune list \<Rightarrow> bool \<Rightarrow> rune list" where
  "normalize_loop U C [] built upperNext = built"
| "normalize_loop U C (r # rs) built upperNext =
     (if is_letter U r \<or> r = 95 \<or> built \<noteq> [] \<and> is_digit U r
      then normalize_loop U C rs (built @ [if upperNext then to_upper C r else r]) False
      else normalize_loop U C rs built (built \<noteq> []))"

definition normalizeGeneratedIdentifier :: "unicode_tables \<Rightarrow> case_tables \<Rightarrow> string \<Rightarrow> string \<Rightarrow> string" where
  "normalizeGeneratedIdentifier U C name fallback =
     (if IsIdentifier U name then name
      else let normalized = string_of_runes (normalize_loop U C (runes_of name) [] False)
           in if IsIdentifier U normalized then normalized else fallback)"

text \<open>The loop that finds how many of the runes after the first one belong to an initialism.\<close>

fun upper_run :: "unicode_tables \<Rightarrow> case_tables \<Rightarrow> rune list \<Rightarrow> nat" where
  "upper_run U C [] = 0"
| "upper_run U C (r # rs) =
     (if is_upper U r \<and> \<not> (rs \<noteq> [] \<and> is_lower C (hd rs)) then 1 + upper_run U C rs else 0)"

definition lowerGeneratedInitialism :: "unicode_tables \<Rightarrow> case_tables \<Rightarrow> string \<Rightarrow> string" where
  "lowerGeneratedInitialism U C name =
     (let runes = runes_of name
      in if runes = [] then name
         else let end = 1 + upper_run U C (tl runes)
              in string_of_runes (map (to_lower C) (take end runes) @ drop end runes))"

definition generatedLocalReserved :: "string \<Rightarrow> bool" where
  "generatedLocalReserved name =
     (name \<in> set [''application'', ''append'', ''authorizer'', ''cap'', ''clear'', ''close'', ''complex'',
        ''configurationSchema'', ''configurationSnapshot'', ''copy'', ''ctx'', ''delete'', ''dependencies'', ''error'',
        ''err'', ''false'', ''httpObservers'', ''imag'', ''len'', ''logger'', ''make'', ''managementMetrics'', ''max'',
        ''min'', ''new'', ''nil'', ''observers'', ''options'', ''panic'', ''print'', ''println'', ''real'', ''recover'', ''true''])"

definition localGeneratedIdentifier :: "unicode_tables \<Rightarrow> case_tables \<Rightarrow> string \<Rightarrow> string \<Rightarrow> string" where
  "localGeneratedIdentifier U C name fallback =
     (let name = lowerGeneratedInitialism U C (normalizeGeneratedIdentifier U C name fallback)
      in if \<not> IsIdentifier U name then fallback
         else if generatedLocalReserved name then name @ ''Bean''
         else name)"

definition exportedGeneratedIdentifier :: "unicode_tables \<Rightarrow> case_tables \<Rightarrow> string \<Rightarrow> string \<Rightarrow> string" where
  "exportedGeneratedIdentifier U C name fallback =
     (let name = normalizeGeneratedIdentifier U C name fallback;
          (first, size) = decode_rune name;
          name = encode_rune (to_upper C first) @ drop size name
      in if \<not> IsIdentifier U name \<or> \<not> IsExported U name then fallback else name)"

section \<open>Provider variables\<close>

fun generatedTypeName :: "go_type \<Rightarrow> string" where
  "generatedTypeName (Alias pkg name targs t) = generatedTypeName t"
| "generatedTypeName (Named pkg name targs) = name"
| "generatedTypeName (Pointer t) = generatedTypeName t"
| "generatedTypeName t = ''Interface''"

definition semanticProviderName :: "unicode_tables \<Rightarrow> variable_source \<Rightarrow> string" where
  "semanticProviderName U item =
     (let name = (if vs_name item = [] then vs_symbol item else vs_name item)
      in if \<not> vs_explicit item \<and> (name = ''New'' \<or> name = ''new'') \<and> generatedTypeName (vs_output item) \<noteq> ''Interface''
         then generatedTypeName (vs_output item)
         else if \<not> vs_explicit item \<and> (has_prefix name ''New'' \<or> has_prefix name ''new'') \<and> length name > 3 \<and>
                 IsIdentifier U (drop 3 name)
         then drop 3 name
         else name)"

definition providerVariableBase :: "unicode_tables \<Rightarrow> case_tables \<Rightarrow> variable_source \<Rightarrow> nat \<Rightarrow> string" where
  "providerVariableBase U C item index =
     localGeneratedIdentifier U C (semanticProviderName U item) (''provider'' @ show_nat index)"

definition variable_bases :: "unicode_tables \<Rightarrow> case_tables \<Rightarrow> variable_source list \<Rightarrow> string list" where
  "variable_bases U C items = map (\<lambda>(index, item). providerVariableBase U C item index) (enumerate 0 items)"

definition qualified_base :: "unicode_tables \<Rightarrow> case_tables \<Rightarrow> string list \<Rightarrow> variable_source \<Rightarrow> string \<Rightarrow> string" where
  "qualified_base U C bases item base =
     (if count_list bases base > 1
      then localGeneratedIdentifier U C (path_base (vs_package item)) ''pkg'' @ exportedGeneratedIdentifier U C base ''Bean''
      else base)"

fun number_names :: "(string \<Rightarrow> nat) \<Rightarrow> string list \<Rightarrow> string list" where
  "number_names used [] = []"
| "number_names used (base # bases) =
     (let used = used(base := used base + 1)
      in (if used base > 1 then base @ show_nat (used base) else base) # number_names used bases)"

definition final_bases :: "unicode_tables \<Rightarrow> case_tables \<Rightarrow> variable_source list \<Rightarrow> string list" where
  "final_bases U C items =
     (let bases = variable_bases U C items in map2 (qualified_base U C bases) items bases)"

definition providerVariableNames :: "unicode_tables \<Rightarrow> case_tables \<Rightarrow> variable_source list \<Rightarrow> string list" where
  "providerVariableNames U C items = number_names (\<lambda>base. 0) (final_bases U C items)"


section \<open>Identifiers that are put together\<close>

lemma decode_append:
  assumes "a \<noteq> []" "\<not> continuation (byte_of (hd b))" "b \<noteq> []"
  shows "decode_rune (a @ b) = decode_rune a"
proof -
  obtain c s where b: "b = c # s" using assms(3) by (cases b) auto
  have c: "\<not> continuation (byte_of c)" "\<not> second_byte_ok x (byte_of c)" for x
    using assms(2) by (auto simp: b second_byte_ok_def continuation_def in_range_def split: if_splits)
  obtain a0 a' where a: "a = a0 # a'" using assms(1) by (cases a) auto
  show ?thesis
    by (cases a'; cases "tl a'"; cases "tl (tl a')") (auto simp: a b c decode_rune_def Let_def split: list.splits)
qed

lemma runes_append:
  assumes "\<not> continuation (byte_of (hd b))" "b \<noteq> []"
  shows "runes_of (a @ b) = runes_of a @ runes_of b"
proof (induction "length a" arbitrary: a rule: less_induct)
  case less
  show ?case
  proof (cases "a = []")
    case True
    then show ?thesis by (simp add: runes_of.simps [of "[]"])
  next
    case False
    obtain r k where rk: "decode_rune a = (r, k)" by fastforce
    have k: "0 < k" "k \<le> length a" using decode_rune_size [OF False rk] by auto
    have "runes_of (drop k a @ b) = runes_of (drop k a) @ runes_of b" by (rule less) (use k False in auto)
    then show ?thesis
      using False k rk decode_append [OF False assms] by (simp add: runes_of.simps [of "a @ b"] runes_of.simps [of a])
  qed
qed

lemma runes_ascii: "list_all ascii s \<Longrightarrow> runes_of s = map byte_of s"
proof (induction s)
  case (Cons c s)
  then show ?case by (subst runes_of.simps) (simp add: decode_rune_ascii ascii_def)
qed (simp add: runes_of.simps)

lemma continuation_error: "s \<noteq> [] \<Longrightarrow> continuation (byte_of (hd s)) \<Longrightarrow> fst (decode_rune s) = rune_error"
  by (cases s) (auto simp: decode_rune_def continuation_def in_range_def)

lemma runes_Cons: "s \<noteq> [] \<Longrightarrow> runes_of s = fst (decode_rune s) # runes_of (drop (snd (decode_rune s)) s)"
  by (subst runes_of.simps) simp

text \<open>U+FFFD, which stands for bytes that are no UTF-8, is not a letter.\<close>

definition error_is_no_letter :: "unicode_tables \<Rightarrow> bool" where
  "error_is_no_letter U = (\<not> is_letter U rune_error)"

lemma identifier_parts:
  assumes "error_is_no_letter U" "IsIdentifier U b"
  shows "b \<noteq> []" "\<not> continuation (byte_of (hd b))" "list_all (identifier_later U) (runes_of b)"
proof -
  show b: "b \<noteq> []" using assms(2) by (simp add: IsIdentifier_def)
  have first: "identifier_first U (fst (decode_rune b))" "list_all (identifier_later U) (tl (runes_of b))"
    using assms(2) by (simp_all add: IsIdentifier_def runes_Cons [OF b])
  then show "\<not> continuation (byte_of (hd b))"
    using continuation_error [OF b] assms(1) by (auto simp: error_is_no_letter_def identifier_first_def rune_error_def)
  show "list_all (identifier_later U) (runes_of b)"
    using first by (auto simp: runes_Cons [OF b] identifier_first_def identifier_later_def)
qed

lemma identifier_append:
  assumes "IsIdentifier U a" "b \<noteq> []" "\<not> continuation (byte_of (hd b))" "list_all (identifier_later U) (runes_of b)"
    and "a @ b \<notin> set go_keywords"
  shows "IsIdentifier U (a @ b)"
proof -
  have a: "a \<noteq> []" using assms(1) by (simp add: IsIdentifier_def)
  show ?thesis using assms runes_append [OF assms(3,2), of a] a
    by (auto simp: IsIdentifier_def runes_Cons [OF a])
qed

lemma keyword_letters: "w \<in> set go_keywords \<Longrightarrow> list_all (\<lambda>c. 97 \<le> byte_of c \<and> byte_of c \<le> 122) w"
  by (auto simp: go_keywords_def)

lemma no_keyword: "c \<in> set w \<Longrightarrow> \<not> (97 \<le> byte_of c \<and> byte_of c \<le> 122) \<Longrightarrow> w \<notin> set go_keywords"
  using keyword_letters by (auto simp: list_all_iff)

lemma ascii_dec: "list_all is_dec s \<Longrightarrow> list_all ascii s"
  by (auto simp: list_all_iff is_dec_def ascii_def in_range_def)

lemma dec_later: "list_all is_dec s \<Longrightarrow> list_all (identifier_later U) (runes_of s)"
  by (subst runes_ascii [OF ascii_dec]) (auto simp: list_all_iff is_dec_def identifier_later_def is_digit_def in_range_def)

lemma identifier_number:
  assumes "IsIdentifier U a" "list_all is_dec s" "s \<noteq> []"
  shows "IsIdentifier U (a @ s)"
proof (rule identifier_append)
  show "\<not> continuation (byte_of (hd s))" using assms(2,3) by (cases s) (auto simp: is_dec_def continuation_def in_range_def)
  have "hd s \<in> set (a @ s)" "is_dec (hd s)" using assms(2,3) by (cases s; auto)+
  then show "a @ s \<notin> set go_keywords" by (intro no_keyword [of "hd s"]) (auto simp: is_dec_def in_range_def)
qed (use assms dec_later in auto)

lemma ascii_identifier:
  assumes "list_all ascii s" "s \<noteq> []" "s \<notin> set go_keywords" "identifier_first U (byte_of (hd s))"
    and "list_all (\<lambda>c. identifier_later U (byte_of c)) (tl s)"
  shows "IsIdentifier U s"
  using assms by (cases s) (auto simp: IsIdentifier_def runes_ascii list_all_iff)

section \<open>What the parts of a name look like\<close>

lemma show_nat_dec: "list_all is_dec (show_nat n)" "show_nat n \<noteq> []"
  by (simp_all add: show_nat_def show_int_def show_digits_dec)

lemma fallback_identifier: "IsIdentifier U (''provider'' @ show_nat n)"
proof (rule identifier_number)
  show "IsIdentifier U ''provider''"
    by (rule ascii_identifier)
      (auto simp: ascii_def go_keywords_def identifier_first_def identifier_later_def is_letter_def in_range_def)
qed (rule show_nat_dec)+

lemma identifier_bean: "IsIdentifier U name \<Longrightarrow> IsIdentifier U (name @ ''Bean'')"
proof (rule identifier_append)
  show "name @ ''Bean'' \<notin> set go_keywords" by (rule no_keyword [of "CHR ''B''"]) auto
qed (auto simp: runes_ascii ascii_def identifier_later_def is_letter_def in_range_def continuation_def)

lemma local_identifier: "IsIdentifier U fallback \<Longrightarrow> IsIdentifier U (localGeneratedIdentifier U C name fallback)"
  by (auto simp: localGeneratedIdentifier_def Let_def identifier_bean)

lemma exported_identifier:
  "IsIdentifier U (exportedGeneratedIdentifier U C name ''Bean'') \<and> IsExported U (exportedGeneratedIdentifier U C name ''Bean'')"
proof -
  have "IsIdentifier U ''Bean''"
    by (rule ascii_identifier)
      (auto simp: ascii_def go_keywords_def identifier_first_def identifier_later_def is_letter_def in_range_def)
  moreover have "IsExported U ''Bean''" by (simp add: IsExported_def decode_rune_def is_upper_def in_range_def)
  ultimately show ?thesis by (auto simp: exportedGeneratedIdentifier_def Let_def split: prod.splits)
qed

lemma reserved_bean: "\<not> generatedLocalReserved (name @ ''Bean'')"
proof
  assume "generatedLocalReserved (name @ ''Bean'')"
  then have "last (name @ ''Bean'') = CHR ''n'' \<and> (butlast (butlast (butlast (name @ ''Bean'')))) \<noteq> [] \<and>
      last (butlast (butlast (butlast (name @ ''Bean'')))) \<noteq> CHR ''B''"
    unfolding generatedLocalReserved_def by (auto simp: butlast_append)
  then show False by (simp add: butlast_append)
qed

lemma local_not_reserved:
  "\<not> generatedLocalReserved fallback \<Longrightarrow> \<not> generatedLocalReserved (localGeneratedIdentifier U C name fallback)"
  by (simp add: localGeneratedIdentifier_def Let_def reserved_bean)

lemma fallback_not_reserved: "\<not> generatedLocalReserved (''provider'' @ s)"
  by (simp add: generatedLocalReserved_def)

lemma keyword_exported:
  assumes "IsExported U b" "b \<noteq> []"
  shows "a @ b \<notin> set go_keywords"
proof (rule no_keyword [of "hd b"])
  obtain c s where b: "b = c # s" using assms(2) by (cases b) auto
  show "\<not> (97 \<le> byte_of (hd b) \<and> byte_of (hd b) \<le> 122)"
    using assms(1) by (auto simp: b IsExported_def decode_rune_def is_upper_def in_range_def)
qed (use assms(2) in auto)

lemma joined_identifier:
  assumes "error_is_no_letter U"
  shows "IsIdentifier U (localGeneratedIdentifier U C pkg ''pkg'' @ exportedGeneratedIdentifier U C base ''Bean'')"
proof (rule identifier_append)
  have "IsIdentifier U ''pkg''"
    by (rule ascii_identifier)
      (auto simp: ascii_def go_keywords_def identifier_first_def identifier_later_def is_letter_def in_range_def)
  then show "IsIdentifier U (localGeneratedIdentifier U C pkg ''pkg'')" by (rule local_identifier)
qed (use identifier_parts [OF assms] exported_identifier keyword_exported in blast)+

lemma final_base_identifier:
  assumes "error_is_no_letter U" "base \<in> set (final_bases U C items)"
  shows "IsIdentifier U base"
proof -
  have "IsIdentifier U (providerVariableBase U C item n)" for item n
    unfolding providerVariableBase_def by (rule local_identifier [OF fallback_identifier])
  then have "IsIdentifier U b" if "b \<in> set (variable_bases U C items)" for b
    using that by (auto simp: variable_bases_def)
  then show ?thesis using assms joined_identifier [OF assms(1)]
    by (auto simp: final_bases_def Let_def qualified_base_def dest!: set_zip_rightD)
qed

section \<open>Numbered names\<close>

fun number_pairs :: "(string \<Rightarrow> nat) \<Rightarrow> string list \<Rightarrow> (string \<times> nat) list" where
  "number_pairs used [] = []"
| "number_pairs used (b # bs) = (b, used b + 1) # number_pairs (used(b := used b + 1)) bs"

definition numbered :: "string \<times> nat \<Rightarrow> string" where
  "numbered p = (if snd p > 1 then fst p @ show_nat (snd p) else fst p)"

lemma numbered_identifier: "IsIdentifier U b \<Longrightarrow> IsIdentifier U (numbered (b, k))"
  by (simp add: numbered_def identifier_number show_nat_dec)

lemma number_names_pairs: "number_names used bs = map numbered (number_pairs used bs)"
  by (induction bs arbitrary: used) (simp_all add: numbered_def Let_def)

lemma number_pairs_fst: "map fst (number_pairs used bs) = bs"
  by (induction bs arbitrary: used) simp_all

lemma number_pairs_above: "(b, k) \<in> set (number_pairs used bs) \<Longrightarrow> used b < k"
proof (induction bs arbitrary: used)
  case (Cons c bs)
  then consider "b = c" "k = used b + 1" | "(b, k) \<in> set (number_pairs (used(c := used c + 1)) bs)" by auto
  then show ?case using Cons.IH [of "used(c := used c + 1)"] by cases (auto simp del: fun_upd_apply, auto split: if_splits)
qed simp

lemma number_pairs_distinct: "distinct (number_pairs used bs)"
proof (induction bs arbitrary: used)
  case (Cons b bs)
  then show ?case using number_pairs_above [of b "used b + 1" "used(b := used b + 1)" bs] by auto
qed simp




lemma digits_stripped:
  assumes "b \<noteq> []" "\<not> is_dec (last b)" "list_all is_dec s"
  shows "takeWhile is_dec (rev (b @ s)) = rev s" "dropWhile is_dec (rev (b @ s)) = rev b"
proof -
  obtain c t where b: "b = t @ [c]" "\<not> is_dec c" using assms(1,2) by (cases b rule: rev_cases) auto
  show "takeWhile is_dec (rev (b @ s)) = rev s" "dropWhile is_dec (rev (b @ s)) = rev b"
    using assms(3) b takeWhile_append2 [of "rev s" is_dec "rev b"] dropWhile_append2 [of "rev s" is_dec "rev b"]
    by (simp_all add: list_all_iff)
qed

lemma show_nat_digits: "show_nat n = show_digits (int n)"
  by (simp add: show_nat_def show_int_def)

lemma show_nat_inj: "show_nat m = show_nat n \<Longrightarrow> m = n"
  using dec_value_show [of "int m"] dec_value_show [of "int n"] by (metis of_nat_0_le_iff of_nat_eq_iff show_nat_digits)

lemma numbered_inj:
  assumes "b \<noteq> []" "\<not> is_dec (last b)" "c \<noteq> []" "\<not> is_dec (last c)" "0 < k" "0 < l"
    and "numbered (b, k) = numbered (c, l)"
  shows "b = c \<and> k = l"
proof -
  define sk where "sk = (if k > 1 then show_nat k else [])"
  define sl where "sl = (if l > 1 then show_nat l else [])"
  have eq: "b @ sk = c @ sl" using assms(7) by (auto simp: numbered_def sk_def sl_def split: if_splits)
  have dec: "list_all is_dec sk" "list_all is_dec sl" by (simp_all add: sk_def sl_def show_nat_dec)
  have "rev b = rev c" "rev sk = rev sl"
    using digits_stripped [OF assms(1,2) dec(1)] digits_stripped [OF assms(3,4) dec(2)] eq by simp_all
  then show ?thesis using assms(5,6) show_nat_inj [of k l]
    by (auto simp: sk_def sl_def show_nat_dec show_nat_dec(2) [symmetric] split: if_splits)
qed

section \<open>Properties\<close>

text \<open>
  C32. The variables of the generated constructor: whatever the names of the providers are, every variable
  is a Go identifier, and a name that only one provider has is not one of the reserved ones.  When none
  of the names that are numbered ends in a digit, no two providers share a variable.
\<close>
theorem providerVariableNames_usable:
  assumes "error_is_no_letter U"
  shows "length (providerVariableNames U C items) = length items \<and>
    list_all (IsIdentifier U) (providerVariableNames U C items) \<and>
    list_all (\<lambda>base. \<not> generatedLocalReserved base) (variable_bases U C items) \<and>
    (list_all (\<lambda>base. \<not> is_dec (last base)) (final_bases U C items) \<longrightarrow> distinct (providerVariableNames U C items))"
proof (intro conjI impI)
  let ?pairs = "number_pairs (\<lambda>b. 0) (final_bases U C items)"
  have names: "providerVariableNames U C items = map numbered ?pairs" by (simp add: providerVariableNames_def number_names_pairs)
  have above: "0 < k" if "(b, k) \<in> set ?pairs" for b k using number_pairs_above [OF that] by simp
  have bases: "b \<in> set (final_bases U C items)" if "(b, k) \<in> set ?pairs" for b k
    using that number_pairs_fst [of "\<lambda>b. 0" "final_bases U C items"] by (metis fst_conv image_eqI list.set_map)
  have ident: "IsIdentifier U b" if "(b, k) \<in> set ?pairs" for b k using that bases final_base_identifier [OF assms] by blast
  have "length (final_bases U C items) = length items" by (simp add: final_bases_def Let_def variable_bases_def)
  then show "length (providerVariableNames U C items) = length items"
    unfolding names by (metis length_map number_pairs_fst)
  show "list_all (IsIdentifier U) (providerVariableNames U C items)"
    unfolding names using ident numbered_identifier by (auto simp: list_all_iff)
  show "list_all (\<lambda>base. \<not> generatedLocalReserved base) (variable_bases U C items)"
    using local_not_reserved [OF fallback_not_reserved]
    by (auto simp: list_all_iff variable_bases_def providerVariableBase_def simp del: append_Cons)
  assume "list_all (\<lambda>base. \<not> is_dec (last base)) (final_bases U C items)"
  then have good: "b \<noteq> [] \<and> \<not> is_dec (last b) \<and> 0 < k" if "(b, k) \<in> set ?pairs" for b k
    using that above bases ident by (auto simp: list_all_iff IsIdentifier_def)
  have "inj_on numbered (set ?pairs)"
    by (rule inj_onI) (metis good numbered_inj surj_pair)
  then show "distinct (providerVariableNames U C items)"
    unfolding names by (simp add: distinct_map number_pairs_distinct)
qed

definition plain_cases :: case_tables where
  "plain_cases = \<lparr>table_lower = (\<lambda>r. False), table_to_lower = (\<lambda>r. r), table_to_upper = (\<lambda>r. r)\<rparr>"

definition made_by :: "string \<Rightarrow> string \<Rightarrow> variable_source" where
  "made_by pkg symbol = \<lparr>vs_name = symbol, vs_symbol = symbol, vs_explicit = False, vs_package = pkg,
     vs_output = Named pkg (drop 3 symbol) []\<rparr>"

lemma shown_numbers: "show_nat 0 = ''0''" "show_nat (Suc 0) = ''1''" "show_nat 2 = ''2''" "show_nat (Suc (Suc 0)) = ''2''"
  by code_simp+

lemma shop_names:
  "semanticProviderName latin_only (made_by pkg ''NewStore'') = ''Store''"
  "semanticProviderName latin_only (made_by pkg ''NewShopStore2'') = ''ShopStore2''"
  "localGeneratedIdentifier latin_only plain_cases ''Store'' ''provider0'' = ''store''"
  "localGeneratedIdentifier latin_only plain_cases ''Store'' ''provider1'' = ''store''"
  "localGeneratedIdentifier latin_only plain_cases ''ShopStore2'' ''provider2'' = ''shopStore2''"
  "localGeneratedIdentifier latin_only plain_cases ''shop'' ''pkg'' = ''shop''"
  "localGeneratedIdentifier latin_only plain_cases ''stock'' ''pkg'' = ''stock''"
  "exportedGeneratedIdentifier latin_only plain_cases ''store'' ''Bean'' = ''Store''"
  "path_base ''a/shop'' = ''shop''" "path_base ''b/shop'' = ''shop''" "path_base ''a/stock'' = ''stock''"
  by code_simp+

lemma configuration_names:
  "semanticProviderName latin_only (made_by pkg ''NewSnapshot'') = ''Snapshot''"
  "localGeneratedIdentifier latin_only plain_cases ''Snapshot'' ''provider0'' = ''snapshot''"
  "localGeneratedIdentifier latin_only plain_cases ''Snapshot'' ''provider1'' = ''snapshot''"
  "localGeneratedIdentifier latin_only plain_cases ''configuration'' ''pkg'' = ''configuration''"
  "exportedGeneratedIdentifier latin_only plain_cases ''snapshot'' ''Bean'' = ''Snapshot''"
  "path_base ''a/configuration'' = ''configuration''"
  by code_simp+

lemma vs_package_made_by: "vs_package (made_by pkg symbol) = pkg"
  by (simp add: made_by_def)

lemmas sample_names =
  shown_numbers shop_names configuration_names vs_package_made_by
  final_bases_def variable_bases_def providerVariableBase_def qualified_base_def

theorem providerVariableNames_usable_witness:
  "error_is_no_letter latin_only \<and>
   final_bases latin_only plain_cases [made_by ''a/shop'' ''NewStore'', made_by ''a/stock'' ''NewStore''] = [''shopStore'', ''stockStore''] \<and>
   distinct (providerVariableNames latin_only plain_cases [made_by ''a/shop'' ''NewStore'', made_by ''a/stock'' ''NewStore''])"
proof -
  let ?items = "[made_by ''a/shop'' ''NewStore'', made_by ''a/stock'' ''NewStore'']"
  have e: "error_is_no_letter latin_only" by code_simp
  have b: "final_bases latin_only plain_cases ?items = [''shopStore'', ''stockStore'']" by (simp add: sample_names)
  then have "list_all (\<lambda>base. \<not> is_dec (last base)) (final_bases latin_only plain_cases ?items)"
    by (simp add: is_dec_def in_range_def)
  with e b show ?thesis using providerVariableNames_usable [OF e, of plain_cases ?items] by blast
qed




end
