(* ===== verification/Module_Order.thy ===== *)
theory Module_Order
  imports Prelude
begin

text \<open>
  \<open>focusedDependencyOrder\<close> of \<open>src/compiler/modulith/modulith.go\<close>: a depth-first search over the
  module graph that lists a module and everything it depends on, dependencies first, or reports
  a cycle.  The closure \<open>visit\<close> and the variables it captures become a function on an explicit
  state; the range loop over the dependencies is the second function, with its index.
\<close>

section \<open>The module graph\<close>

text \<open>\<open>map[string][]string\<close>; a missing key reads as the empty list.\<close>

type_synonym adjacency = "(string \<times> string list) list"

definition neighbours :: "adjacency \<Rightarrow> string \<Rightarrow> string list" where
  "neighbours adj v = (case map_of adj v of None \<Rightarrow> [] | Some vs \<Rightarrow> vs)"

definition arrows :: "adjacency \<Rightarrow> (string \<times> string) set" where
  "arrows adj = {(v, w). w \<in> set (neighbours adj v)}"

definition targets :: "adjacency \<Rightarrow> string set" where
  "targets adj = (\<Union>(v, vs) \<in> set adj. set vs)"

lemma finite_targets [simp]: "finite (targets adj)"
  by (auto simp: targets_def)

lemma neighbours_targets: "w \<in> set (neighbours adj v) \<Longrightarrow> w \<in> targets adj"
  by (cases "map_of adj v") (auto simp: neighbours_def targets_def dest: map_of_SomeD)

section \<open>The search\<close>

text \<open>The marks of the search (0 unseen, 1 on the path, 2 finished) and the order so far.\<close>

type_synonym focus_state = "(string \<Rightarrow> int) \<times> string list"

function (domintros) focus_visit ::
    "string \<Rightarrow> adjacency \<Rightarrow> string \<Rightarrow> focus_state \<Rightarrow> focus_state go_result"
  and focus_dependencies ::
    "string \<Rightarrow> adjacency \<Rightarrow> string \<Rightarrow> nat \<Rightarrow> focus_state \<Rightarrow> focus_state go_result" where
  "focus_visit moduleID adj v st =
     (if fst st v = 1
      then Inl (''focus module '' @ moduleID @ '' belongs to a module dependency cycle'')
      else if fst st v = 2 then Inr st
      else case focus_dependencies moduleID adj v 0 ((fst st)(v := 1), snd st) of
             Inl e \<Rightarrow> Inl e
           | Inr st' \<Rightarrow> Inr ((fst st')(v := 2), snd st' @ [v]))"
| "focus_dependencies moduleID adj v k st =
     (if k < length (neighbours adj v)
      then case focus_visit moduleID adj (neighbours adj v ! k) st of
             Inl e \<Rightarrow> Inl e
           | Inr st' \<Rightarrow> focus_dependencies moduleID adj v (k + 1) st'
      else Inr st)"
  by pat_completeness auto

definition unmarked :: "adjacency \<Rightarrow> focus_state \<Rightarrow> string set" where
  "unmarked adj st = {v \<in> targets adj. fst st v \<noteq> 1 \<and> fst st v \<noteq> 2}"

lemma finite_unmarked [simp]: "finite (unmarked adj st)"
  by (simp add: unmarked_def)

lemma unmarked_mark [simp]:
  "unmarked adj ((fst st)(v := 1), order) = unmarked adj st - {v}"
  "unmarked adj ((fst st)(v := 2), order) = unmarked adj st - {v}"
  by (auto simp: unmarked_def)

lemma focus_unmarked_dom:
  shows "focus_visit_focus_dependencies_dom (Inl (moduleID, adj, v, st)) \<Longrightarrow>
      \<forall>st'. focus_visit moduleID adj v st = Inr st' \<longrightarrow> unmarked adj st' \<subseteq> unmarked adj st"
    and "focus_visit_focus_dependencies_dom (Inr (moduleID, adj, v, k, st)) \<Longrightarrow>
      \<forall>st'. focus_dependencies moduleID adj v k st = Inr st' \<longrightarrow> unmarked adj st' \<subseteq> unmarked adj st"
proof (induction rule: focus_visit_focus_dependencies.pinduct)
  case (1 moduleID adj v st)
  then show ?case by (auto simp: focus_visit.psimps split: if_splits sum.splits)
next
  case (2 moduleID adj v k st)
  then show ?case
    by (auto simp: focus_dependencies.psimps split: if_splits sum.splits) blast
qed

definition focus_rank ::
    "(string \<times> adjacency \<times> string \<times> focus_state) + (string \<times> adjacency \<times> string \<times> nat \<times> focus_state)
       \<Rightarrow> nat \<times> nat \<times> nat" where
  "focus_rank x =
     (case x of
        Inl (m, adj, v, st) \<Rightarrow> (card (unmarked adj st - {v}), if fst st v = 1 \<or> fst st v = 2 then 0 else 2, 0)
      | Inr (m, adj, v, k, st) \<Rightarrow> (card (unmarked adj st), 1, length (neighbours adj v) - k))"

lemma focus_total: "All focus_visit_focus_dependencies_dom"
proof (rule "focus_visit_focus_dependencies.termination"
    [of "inv_image (less_than <*lex*> less_than <*lex*> less_than) focus_rank"])
  show "wf (inv_image (less_than <*lex*> less_than <*lex*> less_than) focus_rank)" by blast
next
  fix moduleID v k and adj :: adjacency and st x :: focus_state
  assume k: "k < length (neighbours adj v)"
  let ?d = "neighbours adj v ! k"
  have "?d \<in> targets adj" by (rule neighbours_targets [OF nth_mem [OF k]])
  then have "fst st ?d = 1 \<or> fst st ?d = 2 \<or> card (unmarked adj st - {?d}) < card (unmarked adj st)"
    by (auto intro!: psubset_card_mono simp: unmarked_def)
  moreover have "card (unmarked adj st - {?d}) \<le> card (unmarked adj st)" by (simp add: card_mono)
  ultimately show "(Inl (moduleID, adj, ?d, st), Inr (moduleID, adj, v, k, st))
      \<in> inv_image (less_than <*lex*> less_than <*lex*> less_than) focus_rank"
    by (auto simp: focus_rank_def)
  assume "focus_visit moduleID adj ?d st = Inr x"
    and "focus_visit_focus_dependencies_dom (Inl (moduleID, adj, ?d, st))"
  then have "unmarked adj x \<subseteq> unmarked adj st" using focus_unmarked_dom(1) by blast
  then have "card (unmarked adj x) \<le> card (unmarked adj st)" by (simp add: card_mono)
  then show "(Inr (moduleID, adj, v, k + 1, x), Inr (moduleID, adj, v, k, st))
      \<in> inv_image (less_than <*lex*> less_than <*lex*> less_than) focus_rank"
    using k by (auto simp: focus_rank_def)
qed (auto simp: focus_rank_def)

termination focus_visit
  by (rule focus_total)

declare focus_visit.simps [simp del] focus_dependencies.simps [simp del]

definition focusedDependencyOrder :: "string \<Rightarrow> adjacency \<Rightarrow> string list go_result" where
  "focusedDependencyOrder moduleID adj =
     (case focus_visit moduleID adj moduleID (\<lambda>v. 0, []) of
        Inl e \<Rightarrow> Inl e
      | Inr st \<Rightarrow> Inr (snd st))"

section \<open>Its result\<close>

definition deps_first :: "adjacency \<Rightarrow> string list \<Rightarrow> bool" where
  "deps_first adj order = (\<forall>i < length order. set (neighbours adj (order ! i)) \<subseteq> set (take i order))"

lemma deps_first_snoc:
  "deps_first adj (order @ [v]) \<longleftrightarrow> deps_first adj order \<and> set (neighbours adj v) \<subseteq> set order"
  by (auto simp: deps_first_def nth_append less_Suc_eq)

text \<open>What holds of the marks and the order all the time.\<close>

definition focus_inv :: "adjacency \<Rightarrow> focus_state \<Rightarrow> bool" where
  "focus_inv adj st =
     (distinct (snd st) \<and> (\<forall>v. fst st v = 2 \<longleftrightarrow> v \<in> set (snd st)) \<and> deps_first adj (snd st))"

definition focus_step :: "adjacency \<Rightarrow> string \<Rightarrow> focus_state \<Rightarrow> focus_state \<Rightarrow> bool" where
  "focus_step adj v st st' =
     (focus_inv adj st' \<and> (\<forall>w. fst st' w = 1 \<longleftrightarrow> fst st w = 1) \<and> set (snd st) \<subseteq> set (snd st') \<and>
      (\<forall>w \<in> set (snd st'). w \<in> set (snd st) \<or> (v, w) \<in> (arrows adj)\<^sup>*))"

lemma focus_step_trans:
  assumes "focus_step adj w st1 st2" "focus_step adj v st2 st3" "(v, w) \<in> (arrows adj)\<^sup>*"
  shows "focus_step adj v st1 st3"
  using assms by (auto simp: focus_step_def) (metis rtrancl_trans)

lemma focus_success:
  shows "focus_inv adj st \<Longrightarrow> focus_visit moduleID adj v st = Inr st' \<Longrightarrow>
      focus_step adj v st st' \<and> v \<in> set (snd st') \<and> (fst st v \<noteq> 2 \<longrightarrow> last (snd st') = v)"
    and "focus_inv adj st \<Longrightarrow> fst st v = 1 \<Longrightarrow> set (take k (neighbours adj v)) \<subseteq> set (snd st) \<Longrightarrow>
      focus_dependencies moduleID adj v k st = Inr st' \<Longrightarrow>
      focus_step adj v st st' \<and> set (neighbours adj v) \<subseteq> set (snd st')"
proof (induction moduleID adj v st and moduleID adj v k st arbitrary: st' and st'
    rule: focus_visit_focus_dependencies.induct)
  case (1 moduleID adj v st)
  show ?case
  proof (cases "fst st v = 2")
    case True
    then show ?thesis
      using "1.prems" by (auto simp: focus_visit.simps focus_step_def focus_inv_def split: if_splits)
  next
    case False
    let ?st = "((fst st)(v := 1), snd st)"
    have new: "fst st v \<noteq> 1" using "1.prems"(2) by (auto simp: focus_visit.simps split: if_splits)
    then obtain st1 where st1: "focus_dependencies moduleID adj v 0 ?st = Inr st1"
        "st' = ((fst st1)(v := 2), snd st1 @ [v])"
      using "1.prems"(2) False by (auto simp: focus_visit.simps split: sum.splits)
    have inv: "focus_inv adj ?st" using "1.prems"(1) False by (auto simp: focus_inv_def)
    have s: "focus_step adj v ?st st1" "set (neighbours adj v) \<subseteq> set (snd st1)"
      using "1.IH" [OF new False inv _ _ st1(1)] by auto
    have "fst st1 v = 1" using s(1) by (simp add: focus_step_def)
    then have "v \<notin> set (snd st1)"
      using s(1) unfolding focus_step_def focus_inv_def by (metis numeral_One numeral_eq_iff num.distinct(1))
    then show ?thesis
      using s st1(2) new by (auto simp: focus_step_def focus_inv_def deps_first_snoc)
  qed
next
  case (2 moduleID adj v k st)
  show ?case
  proof (cases "k < length (neighbours adj v)")
    case True
    let ?d = "neighbours adj v ! k"
    obtain st1 where st1: "focus_visit moduleID adj ?d st = Inr st1"
        "focus_dependencies moduleID adj v (k + 1) st1 = Inr st'"
      using "2.prems"(4) True by (auto simp: focus_dependencies.simps [of moduleID adj v k st] split: sum.splits)
    have s1: "focus_step adj ?d st st1" "?d \<in> set (snd st1)"
      using "2.IH"(1) [OF True "2.prems"(1) st1(1)] by auto
    have edge: "(v, ?d) \<in> (arrows adj)\<^sup>*" using True by (auto simp: arrows_def)
    have "set (take (k + 1) (neighbours adj v)) \<subseteq> set (snd st1)"
      using s1 "2.prems"(3) True by (auto simp: take_Suc_conv_app_nth focus_step_def)
    then have s2: "focus_step adj v st1 st'" "set (neighbours adj v) \<subseteq> set (snd st')"
      using "2.IH"(2) [OF True st1(1) _ _ _ st1(2)] s1(1) "2.prems"(2) by (auto simp: focus_step_def)
    then show ?thesis using focus_step_trans [OF s1(1) s2(1) edge] by blast
  next
    case False
    then show ?thesis
      using "2.prems" by (auto simp: focus_dependencies.simps [of moduleID adj v k st] focus_step_def)
  qed
qed

lemma focus_failure:
  shows "(\<And>g. fst st g = 1 \<Longrightarrow> (g, v) \<in> (arrows adj)\<^sup>+) \<Longrightarrow> focus_inv adj st \<Longrightarrow>
      focus_visit moduleID adj v st = Inl e \<Longrightarrow> \<exists>w. (v, w) \<in> (arrows adj)\<^sup>* \<and> (w, w) \<in> (arrows adj)\<^sup>+"
    and "(\<And>g. fst st g = 1 \<Longrightarrow> (g, v) \<in> (arrows adj)\<^sup>*) \<Longrightarrow> focus_inv adj st \<Longrightarrow>
      focus_dependencies moduleID adj v k st = Inl e \<Longrightarrow> \<exists>w. (v, w) \<in> (arrows adj)\<^sup>* \<and> (w, w) \<in> (arrows adj)\<^sup>+"
proof (induction moduleID adj v st and moduleID adj v k st rule: focus_visit_focus_dependencies.induct)
  case (1 moduleID adj v st)
  show ?case
  proof (cases "fst st v = 1")
    case True
    then show ?thesis using "1.prems"(1) by blast
  next
    case False
    let ?st = "((fst st)(v := 1), snd st)"
    have new: "fst st v \<noteq> 2" and failed: "focus_dependencies moduleID adj v 0 ?st = Inl e"
      using "1.prems"(3) False by (auto simp: focus_visit.simps split: if_splits sum.splits)
    have "focus_inv adj ?st" using "1.prems"(2) new by (auto simp: focus_inv_def)
    then show ?thesis
      using "1.prems"(1) by (intro "1.IH" [OF False new _ _ failed]) (auto dest: trancl_into_rtrancl split: if_splits)
  qed
next
  case (2 moduleID adj v k st)
  have k: "k < length (neighbours adj v)"
    using "2.prems"(3) by (auto simp: focus_dependencies.simps [of moduleID adj v k st] split: if_splits)
  let ?d = "neighbours adj v ! k"
  have edge: "(v, ?d) \<in> arrows adj" using k by (simp add: arrows_def)
  show ?case
  proof (cases "focus_visit moduleID adj ?d st")
    case (Inl e')
    then have "focus_visit moduleID adj ?d st = Inl e"
      using "2.prems"(3) k by (simp add: focus_dependencies.simps [of moduleID adj v k st])
    then have "\<exists>w. (?d, w) \<in> (arrows adj)\<^sup>* \<and> (w, w) \<in> (arrows adj)\<^sup>+"
      by (intro "2.IH"(1) [OF k]) (use "2.prems"(1,2) edge in \<open>auto intro: rtrancl_into_trancl1\<close>)
    then show ?thesis using edge by (meson converse_rtrancl_into_rtrancl)
  next
    case (Inr st1)
    have "focus_step adj ?d st st1" using focus_success(1) [OF "2.prems"(2) Inr] by blast
    then show ?thesis
      using "2.prems" k Inr by (intro "2.IH"(2) [OF k Inr]) (auto simp: focus_dependencies.simps [of moduleID adj v k st] focus_step_def)
  qed
qed

lemma deps_first_reach:
  assumes "deps_first adj order" "(v, w) \<in> (arrows adj)\<^sup>+" "i < length order" "v = order ! i"
  shows "\<exists>j < i. w = order ! j"
  using assms(2-4)
proof (induction arbitrary: i rule: converse_trancl_induct)
  case (base v)
  then have "w \<in> set (take i order)" using assms(1) by (auto simp: deps_first_def arrows_def)
  then show ?case using base.prems by (auto simp: in_set_conv_nth)
next
  case (step v u)
  then have "u \<in> set (take i order)" using assms(1) by (auto simp: deps_first_def arrows_def)
  then obtain j where "j < i" "u = order ! j" using step.prems by (auto simp: in_set_conv_nth)
  then show ?case using step.IH [of j] step.prems by (meson less_trans)
qed

text \<open>
  The dependency order of a focused module is returned exactly when no module it reaches lies on
  a dependency cycle.  It then lists the modules reachable from the focused one, each once, every
  dependency before the modules that need it and the focused module last.
\<close>

lemma focused_order:
  "case focusedDependencyOrder moduleID adj of
     Inl e \<Rightarrow> \<exists>w. (moduleID, w) \<in> (arrows adj)\<^sup>* \<and> (w, w) \<in> (arrows adj)\<^sup>+
   | Inr order \<Rightarrow> distinct order \<and> set order = {w. (moduleID, w) \<in> (arrows adj)\<^sup>*} \<and>
       last order = moduleID \<and>
       (\<forall>i < length order. set (neighbours adj (order ! i)) \<subseteq> set (take i order)) \<and>
       \<not> (\<exists>w. (moduleID, w) \<in> (arrows adj)\<^sup>* \<and> (w, w) \<in> (arrows adj)\<^sup>+)"
proof -
  let ?start = "(\<lambda>v. 0, []) :: focus_state"
  have inv: "focus_inv adj ?start" by (simp add: focus_inv_def deps_first_def)
  show ?thesis
  proof (cases "focus_visit moduleID adj moduleID ?start")
    case (Inl e)
    then show ?thesis
      using focus_failure(1) [OF _ inv Inl] by (simp add: focusedDependencyOrder_def)
  next
    case (Inr st)
    have s: "focus_step adj moduleID ?start st" "moduleID \<in> set (snd st)" "last (snd st) = moduleID"
      using focus_success(1) [OF inv Inr] by auto
    then have first: "deps_first adj (snd st)" and d: "distinct (snd st)"
      and sub: "set (snd st) \<subseteq> {w. (moduleID, w) \<in> (arrows adj)\<^sup>*}"
      by (auto simp: focus_step_def focus_inv_def)
    have closed: "w \<in> set (snd st)" if "(moduleID, w) \<in> (arrows adj)\<^sup>*" for w
      using that
    proof (induction rule: rtrancl_induct)
      case (step u w)
      then obtain i where "i < length (snd st)" "u = snd st ! i" by (auto simp: in_set_conv_nth)
      then have "w \<in> set (take i (snd st))" using step first by (auto simp: deps_first_def arrows_def)
      then show ?case by (rule in_set_takeD)
    qed (rule s(2))
    have "(w, w) \<notin> (arrows adj)\<^sup>+" if "w \<in> set (snd st)" for w
    proof
      assume "(w, w) \<in> (arrows adj)\<^sup>+"
      moreover obtain i where "i < length (snd st)" "w = snd st ! i"
        using \<open>w \<in> set (snd st)\<close> by (auto simp: in_set_conv_nth)
      ultimately obtain j where "j < i" "w = snd st ! j" using deps_first_reach [OF first] by blast
      then show False
        using d \<open>i < length (snd st)\<close> \<open>w = snd st ! i\<close> nth_eq_iff_index_eq by fastforce
    qed
    then show ?thesis
      using Inr s(3) first d sub closed by (auto simp: focusedDependencyOrder_def deps_first_def)
  qed
qed

end
