(* ===== verification/Module_Scc.thy ===== *)
theory Module_Scc
  imports Module_Order Graph_Scc_Correct
begin

text \<open>
  \<open>stronglyConnectedComponents\<close> of \<open>src/compiler/modulith/modulith.go\<close>: Tarjan's algorithm once more,
  now over string-keyed maps.  It is shown to simulate the search of \<open>compiler/graph\<close> over the
  positions of the sorted module identities, whose correctness then carries over.  The stack has its top first.
\<close>

section \<open>The algorithm\<close>

record component_search =
  cs_index :: int
  cs_indices :: "string \<Rightarrow> int option"
  cs_low :: "string \<Rightarrow> int"
  cs_stack :: "string list"
  cs_on_stack :: "string \<Rightarrow> bool"
  cs_result :: "string list list"

definition cs_start :: component_search where
  "cs_start = \<lparr>cs_index = 0, cs_indices = (\<lambda>v. None), cs_low = (\<lambda>v. 0), cs_stack = [],
     cs_on_stack = (\<lambda>v. False), cs_result = []\<rparr>"

definition cs_enter :: "string \<Rightarrow> component_search \<Rightarrow> component_search" where
  "cs_enter v st = st\<lparr>
     cs_indices := (cs_indices st)(v := Some (cs_index st)),
     cs_low := (cs_low st)(v := cs_index st),
     cs_index := cs_index st + 1,
     cs_stack := v # cs_stack st,
     cs_on_stack := (cs_on_stack st)(v := True)\<rparr>"

definition cs_lower :: "string \<Rightarrow> int \<Rightarrow> component_search \<Rightarrow> component_search" where
  "cs_lower v lower st = st\<lparr>cs_low := (cs_low st)(v := min (cs_low st v) lower)\<rparr>"

fun pop_component ::
    "string \<Rightarrow> string list \<Rightarrow> (string \<Rightarrow> bool) \<Rightarrow> string list \<Rightarrow> string list \<times> (string \<Rightarrow> bool) \<times> string list" where
  "pop_component v [] onStack component = ([], onStack, component)"
| "pop_component v (w # stack) onStack component =
     (if w = v then (stack, onStack(w := False), component @ [w])
      else pop_component v stack (onStack(w := False)) (component @ [w]))"

definition cs_finish :: "string \<Rightarrow> component_search \<Rightarrow> component_search" where
  "cs_finish v st =
     (if Some (cs_low st v) \<noteq> cs_indices st v then st
      else let (stack, onStack, component) = pop_component v (cs_stack st) (cs_on_stack st) []
           in st\<lparr>cs_stack := stack, cs_on_stack := onStack,
                 cs_result := cs_result st @ [sort_strings component]\<rparr>)"

function (domintros) connect :: "adjacency \<Rightarrow> string \<Rightarrow> component_search \<Rightarrow> component_search"
  and connect_next :: "adjacency \<Rightarrow> string \<Rightarrow> nat \<Rightarrow> component_search \<Rightarrow> component_search" where
  "connect adj v st = cs_finish v (connect_next adj v 0 (cs_enter v st))"
| "connect_next adj v k st =
     (if k < length (neighbours adj v)
      then let w = neighbours adj v ! k
           in case cs_indices st w of
                None \<Rightarrow> let st' = connect adj w st
                        in connect_next adj v (k + 1) (cs_lower v (cs_low st' w) st')
              | Some i \<Rightarrow> connect_next adj v (k + 1) (if cs_on_stack st w then cs_lower v i st else st)
      else st)"
  by pat_completeness auto

definition unseen :: "adjacency \<Rightarrow> component_search \<Rightarrow> string set" where
  "unseen adj st = {v \<in> targets adj. cs_indices st v = None}"

lemma finite_unseen [simp]: "finite (unseen adj st)"
  by (simp add: unseen_def)

lemma unseen_simps [simp]:
  "unseen adj (cs_lower v lower st) = unseen adj st"
  "unseen adj (cs_finish v st) = unseen adj st"
  "unseen adj (cs_enter v st) = unseen adj st - {v}"
  by (auto simp: unseen_def cs_lower_def cs_finish_def cs_enter_def split: prod.splits)

lemma connect_unseen_dom:
  shows "connect_connect_next_dom (Inl (adj, v, st)) \<Longrightarrow> unseen adj (connect adj v st) \<subseteq> unseen adj st"
    and "connect_connect_next_dom (Inr (adj, v, k, st)) \<Longrightarrow> unseen adj (connect_next adj v k st) \<subseteq> unseen adj st"
proof (induction rule: connect_connect_next.pinduct)
  case (1 adj v st)
  then show ?case by (auto simp: connect.psimps)
next
  case (2 adj v k st)
  show ?case
  proof (cases "k < length (neighbours adj v)")
    case True
    let ?w = "neighbours adj v ! k"
    show ?thesis
    proof (cases "cs_indices st ?w")
      case None
      then show ?thesis
        using 2(2,3) [OF True refl] True 2(1) by (auto simp: connect_next.psimps Let_def)
    next
      case (Some i)
      then show ?thesis
        using 2(4) [OF True refl] True 2(1) by (auto simp: connect_next.psimps Let_def split: if_splits)
    qed
  qed (use 2(1) in \<open>simp add: connect_next.psimps\<close>)
qed

definition connect_rank ::
    "(adjacency \<times> string \<times> component_search) + (adjacency \<times> string \<times> nat \<times> component_search)
       \<Rightarrow> nat \<times> nat \<times> nat" where
  "connect_rank x =
     (case x of Inl (adj, v, st) \<Rightarrow> (card (unseen adj st - {v}), 1, 0)
      | Inr (adj, v, k, st) \<Rightarrow> (card (unseen adj st), 0, length (neighbours adj v) - k))"

lemma connect_total: "All connect_connect_next_dom"
proof (rule "connect_connect_next.termination"
    [of "inv_image (less_than <*lex*> less_than <*lex*> less_than) connect_rank"])
  show "wf (inv_image (less_than <*lex*> less_than <*lex*> less_than) connect_rank)" by blast
next
  fix adj :: adjacency and v w k and st x :: component_search
  assume k: "k < length (neighbours adj v)" "w = neighbours adj v ! k" and w: "cs_indices st w = None"
  have "w \<in> targets adj" using neighbours_targets [OF nth_mem [OF k(1)]] k(2) by simp
  then have "w \<in> unseen adj st" using w by (simp add: unseen_def)
  then have "card (unseen adj st - {w}) < card (unseen adj st)" by (rule card_Diff1_less [OF finite_unseen])
  then show "(Inl (adj, w, st), Inr (adj, v, k, st))
      \<in> inv_image (less_than <*lex*> less_than <*lex*> less_than) connect_rank"
    by (simp add: connect_rank_def)
  assume "x = connect adj w st" "connect_connect_next_dom (Inl (adj, w, st))"
  then have "card (unseen adj x) \<le> card (unseen adj st)" using connect_unseen_dom(1) by (simp add: card_mono)
  then show "(Inr (adj, v, k + 1, cs_lower v (cs_low x w) x), Inr (adj, v, k, st))
      \<in> inv_image (less_than <*lex*> less_than <*lex*> less_than) connect_rank"
    using k by (auto simp: connect_rank_def)
qed (auto simp: connect_rank_def)

termination connect
  by (rule connect_total)

declare connect.simps [simp del] connect_next.simps [simp del]

definition cs_run :: "adjacency \<Rightarrow> string list \<Rightarrow> component_search \<Rightarrow> component_search" where
  "cs_run adj = fold (\<lambda>v st. if cs_indices st v = None then connect adj v st else st)"

definition first_less :: "string list \<Rightarrow> string list \<Rightarrow> bool" where
  "first_less c d = (c ! 0 < d ! 0)"

definition stronglyConnectedComponents :: "adjacency \<Rightarrow> string list list" where
  "stronglyConnectedComponents adj =
     sort_by first_less (cs_result (cs_run adj (sort_strings (map fst adj)) cs_start))"

section \<open>Positions\<close>

lemma map_sort_by:
  assumes "\<And>x y. x \<in> set xs \<Longrightarrow> y \<in> set xs \<Longrightarrow> lt x y \<longleftrightarrow> lt' (f x) (f y)"
  shows "map f (sort_by lt xs) = sort_by lt' (map f xs)"
  using assms
proof (induction xs)
  case (Cons x xs)
  have insert: "map f (insert_by lt x ys) = insert_by lt' (f x) (map f ys)" if "set ys \<subseteq> set xs" for ys
    using that Cons.prems by (induction ys) auto
  show ?case using Cons insert [of "sort_by lt xs"] by simp
qed simp

definition place :: "string list \<Rightarrow> string \<Rightarrow> nat" where
  "place vs v = length (takeWhile (\<lambda>w. w \<noteq> v) vs)"

lemma place_in: "v \<in> set vs \<Longrightarrow> place vs v < length vs \<and> vs ! place vs v = v"
  by (induction vs) (auto simp: place_def)

definition index_graph :: "string list \<Rightarrow> adjacency \<Rightarrow> nat list list" where
  "index_graph vs adj = map (\<lambda>v. map (place vs) (neighbours adj v)) vs"

definition index_providers :: "string list \<Rightarrow> provider list" where
  "index_providers vs = map (\<lambda>v. sample_bean v v repo_type []) vs"

lemma symbol_index: "i < length vs \<Longrightarrow> symbol_of (index_providers vs) i = vs ! i"
  by (simp add: symbol_of_def index_providers_def sample_bean_def)

definition closed_in :: "string list \<Rightarrow> adjacency \<Rightarrow> bool" where
  "closed_in vs adj = (\<forall>v \<in> set vs. set (neighbours adj v) \<subseteq> set vs)"

text \<open>The simulation relation.\<close>

definition same_search :: "string list \<Rightarrow> scc_state \<Rightarrow> component_search \<Rightarrow> bool" where
  "same_search vs st s =
     (shape_ok (map (\<lambda>v. []) vs) st \<and> set (scc_stack st) \<subseteq> {..<length vs} \<and>
      (\<forall>i < length vs. scc_indices st ! i = (case cs_indices s (vs ! i) of None \<Rightarrow> -1 | Some x \<Rightarrow> x)) \<and>
      (\<forall>v x. cs_indices s v = Some x \<longrightarrow> 0 \<le> x) \<and>
      (\<forall>i < length vs. scc_lowlinks st ! i = cs_low s (vs ! i)) \<and>
      (\<forall>i < length vs. scc_on_stack st ! i = cs_on_stack s (vs ! i)) \<and>
      cs_stack s = map ((!) vs) (scc_stack st) \<and> cs_index s = int (scc_next st) \<and>
      cs_result s = map (map ((!) vs)) (scc_components st) \<and> members (scc_components st) \<subseteq> {..<length vs})"

lemma same_unvisited:
  "same_search vs st s \<Longrightarrow> i < length vs \<Longrightarrow> scc_indices st ! i = -1 \<longleftrightarrow> cs_indices s (vs ! i) = None"
  by (auto simp: same_search_def split: option.splits) fastforce

lemma same_enter:
  assumes "same_search vs st s" "i < length vs" "distinct vs"
  shows "same_search vs (scc_enter i st) (cs_enter (vs ! i) s)"
  using assms nth_eq_iff_index_eq [OF assms(3)]
  by (auto simp: same_search_def scc_enter_def cs_enter_def shape_ok_def nth_list_update split: if_splits)

lemma same_lower:
  assumes "same_search vs st s" "i < length vs" "distinct vs"
  shows "same_search vs (if lower < scc_lowlinks st ! i then scc_lower i lower st else st) (cs_lower (vs ! i) lower s)"
  using assms nth_eq_iff_index_eq [OF assms(3)]
  by (auto simp: same_search_def scc_lower_def cs_lower_def shape_ok_def nth_list_update min_def)

lemma pop_same:
  assumes "set stack \<subseteq> {..<length vs}" "distinct vs" "i < length vs" "length on = length vs"
    and "\<forall>j < length vs. on ! j = on' (vs ! j)" "pop_until i stack on c = (stack1, on1, c1)"
  shows "\<exists>on1'. pop_component (vs ! i) (map ((!) vs) stack) on' (map ((!) vs) c) =
      (map ((!) vs) stack1, on1', map ((!) vs) c1) \<and> (\<forall>j < length vs. on1 ! j = on1' (vs ! j)) \<and>
      length on1 = length vs \<and> set stack1 \<subseteq> set stack \<and> set c1 \<subseteq> set c \<union> set stack"
  using assms
proof (induction i stack on c arbitrary: on' rule: pop_until.induct)
  case (2 i w stack on c)
  let ?on = "on[w := False]" and ?on' = "on'(vs ! w := False)"
  have w: "w < length vs" using "2.prems"(1) by simp
  have on: "\<forall>j < length vs. ?on ! j = ?on' (vs ! j)"
    using "2.prems"(2,4,5) w nth_eq_iff_index_eq [OF "2.prems"(2)] by (auto simp: nth_list_update)
  show ?case
  proof (cases "w = i")
    case True
    then show ?thesis using "2.prems" on by auto
  next
    case False
    then have "vs ! w \<noteq> vs ! i" using w "2.prems"(2,3) nth_eq_iff_index_eq by blast
    then show ?thesis
      using False "2.IH" [OF False _ "2.prems"(2,3) _ on] "2.prems" by fastforce
  qed
qed auto

lemma same_finish:
  assumes "same_search vs st s" "i < length vs" "distinct vs" "cs_indices s (vs ! i) \<noteq> None"
  shows "same_search vs (scc_finish (index_providers vs) i st) (cs_finish (vs ! i) s)"
proof -
  obtain x where x: "cs_indices s (vs ! i) = Some x" using assms(4) by blast
  have eq: "scc_lowlinks st ! i \<noteq> scc_indices st ! i \<longleftrightarrow> Some (cs_low s (vs ! i)) \<noteq> cs_indices s (vs ! i)"
    using assms(1,2) x by (simp add: same_search_def)
  show ?thesis
  proof (cases "scc_lowlinks st ! i \<noteq> scc_indices st ! i")
    case False
    obtain stack on c where pop: "pop_until i (scc_stack st) (scc_on_stack st) [] = (stack, on, c)"
      by (metis prod_cases3)
    obtain on' where pop': "pop_component (vs ! i) (cs_stack s) (cs_on_stack s) [] = (map ((!) vs) stack, on', map ((!) vs) c)"
        "\<forall>j < length vs. on ! j = on' (vs ! j)" "length on = length vs" "set stack \<subseteq> set (scc_stack st)"
        "set c \<subseteq> set (scc_stack st)"
      using pop_same [OF _ assms(3,2) _ _ pop, of "cs_on_stack s"] assms(1)
      by (auto simp: same_search_def shape_ok_def)
    have c: "set c \<subseteq> {..<length vs}" using pop'(5) assms(1) by (auto simp: same_search_def)
    have "map ((!) vs) (sort_by (symbol_less (index_providers vs)) c) = sort_strings (map ((!) vs) c)"
      by (rule map_sort_by) (use c in \<open>auto simp: symbol_less_def symbol_index string_less_def subset_eq\<close>)
    then show ?thesis
      using assms(1) False eq pop pop' c
      by (auto simp: scc_finish_def cs_finish_def same_search_def shape_ok_def)
  qed (use assms(1) eq in \<open>simp add: scc_finish_def cs_finish_def\<close>)
qed

lemma indices_simps [simp]:
  "cs_indices (cs_lower v lower s) = cs_indices s" "cs_indices (cs_finish v s) = cs_indices s"
  by (simp_all add: cs_lower_def cs_finish_def split: prod.split)

lemma connect_keeps:
  shows "dom (cs_indices s) \<union> {v} \<subseteq> dom (cs_indices (connect adj v s))"
    and "dom (cs_indices s) \<subseteq> dom (cs_indices (connect_next adj v k s))"
proof (induction adj v s and adj v k s rule: connect_connect_next.induct)
  case (1 adj v st)
  have "dom (cs_indices (cs_enter v st)) = dom (cs_indices st) \<union> {v}" by (auto simp: cs_enter_def)
  then show ?case using 1 by (simp add: connect.simps)
next
  case (2 adj v k st)
  show ?case
  proof (cases "k < length (neighbours adj v)")
    case True
    note unfold = connect_next.simps [of adj v k st]
    show ?thesis
    proof (cases "cs_indices st (neighbours adj v ! k)")
      case None
      have "dom (cs_indices st) \<subseteq> dom (cs_indices (connect adj (neighbours adj v ! k) st))"
        using "2.IH"(1) [OF True refl None] by blast
      then show ?thesis using "2.IH"(2) [OF True refl None refl] True None by (simp add: unfold Let_def)
    next
      case (Some i)
      then show ?thesis using "2.IH"(3) [OF True refl Some] True by (auto simp: unfold Let_def split: if_splits)
    qed
  qed (simp add: connect_next.simps)
qed

lemma index_nth:
  assumes "closed_in vs adj" "i < length vs" "k < length (neighbours adj (vs ! i))"
  shows "index_graph vs adj ! i ! k = place vs (neighbours adj (vs ! i) ! k)"
    "place vs (neighbours adj (vs ! i) ! k) < length vs"
    "vs ! place vs (neighbours adj (vs ! i) ! k) = neighbours adj (vs ! i) ! k"
proof -
  have "neighbours adj (vs ! i) ! k \<in> set vs"
    using assms(1) nth_mem [OF assms(2)] nth_mem [OF assms(3)] by (auto simp: closed_in_def)
  then show "place vs (neighbours adj (vs ! i) ! k) < length vs"
    "vs ! place vs (neighbours adj (vs ! i) ! k) = neighbours adj (vs ! i) ! k"
    using place_in by auto
  show "index_graph vs adj ! i ! k = place vs (neighbours adj (vs ! i) ! k)"
    using assms by (simp add: index_graph_def)
qed

lemma connect_simulates:
  assumes "distinct vs" "closed_in vs adj"
  shows "ps = index_providers vs \<Longrightarrow> g = index_graph vs adj \<Longrightarrow> same_search vs st s \<Longrightarrow> i < length vs \<Longrightarrow>
      same_search vs (visit ps g i st) (connect adj (vs ! i) s)"
    and "ps = index_providers vs \<Longrightarrow> g = index_graph vs adj \<Longrightarrow> same_search vs st s \<Longrightarrow> i < length vs \<Longrightarrow>
      ds = drop k (g ! i) \<Longrightarrow>
      same_search vs (visit_dependencies ps g i ds st) (connect_next adj (vs ! i) k s)"
proof (induction ps g i st and ps g i ds st arbitrary: s and s k rule: visit_visit_dependencies.induct)
  case (1 ps g i st)
  let ?s = "cs_enter (vs ! i) s"
  have "same_search vs (visit_dependencies ps g i (g ! i) (scc_enter i st)) (connect_next adj (vs ! i) 0 ?s)"
    using "1.prems" by (intro "1.IH") (auto intro: same_enter [OF _ _ assms(1)])
  moreover have "cs_indices (connect_next adj (vs ! i) 0 ?s) (vs ! i) \<noteq> None"
    using connect_keeps(2) [of ?s adj "vs ! i" 0] by (auto simp: cs_enter_def)
  ultimately show ?case
    using "1.prems" same_finish [OF _ _ assms(1)] by (simp add: visit.simps connect.simps)
next
  case (2 ps g i st)
  have "length (neighbours adj (vs ! i)) \<le> k" using "2.prems" by (simp add: index_graph_def)
  then show ?case using "2.prems" by (simp add: visit_dependencies.simps connect_next.simps)
next
  case (3 ps g i d ds st)
  let ?ns = "neighbours adj (vs ! i)"
  have gi: "g ! i = map (place vs) ?ns" using "3.prems" by (simp add: index_graph_def)
  have k: "k < length ?ns" using "3.prems"(5) gi by (metis drop_all length_map linorder_not_less list.distinct(1))
  have d: "d = place vs (?ns ! k)" and ds: "ds = drop (k + 1) (g ! i)"
    using "3.prems"(5) gi k by (simp_all add: drop_map Cons_nth_drop_Suc [symmetric])
  have dn: "d < length vs" "vs ! d = ?ns ! k" using index_nth [OF assms(2) "3.prems"(4) k] d by simp_all
  have len: "\<not> length (scc_indices st) \<le> d" using "3.prems"(3) dn by (simp add: same_search_def shape_ok_def)
  note new = same_unvisited [OF "3.prems"(3) dn(1)] dn(2)
  note unfold = connect_next.simps [of adj "vs ! i" k s] visit_dependencies.simps(2) [of ps g i d ds st]
  show ?case
  proof (cases "scc_indices st ! d = -1")
    case True
    let ?st = "visit ps g d st" and ?s = "connect adj (?ns ! k) s"
    have same: "same_search vs ?st ?s"
      using "3.IH"(1) [OF len True "3.prems"(1-3) dn(1)] dn(2) by simp
    then have "same_search vs (if scc_lowlinks ?st ! d < scc_lowlinks ?st ! i then scc_lower i (scc_lowlinks ?st ! d) ?st else ?st)
        (cs_lower (vs ! i) (scc_lowlinks ?st ! d) ?s)"
      by (rule same_lower [OF _ "3.prems"(4) assms(1)])
    moreover have "scc_lowlinks ?st ! d = cs_low ?s (?ns ! k)" using same dn by (simp add: same_search_def)
    ultimately have "same_search vs (visit_dependencies ps g i ds
          (if scc_lowlinks ?st ! d < scc_lowlinks ?st ! i then scc_lower i (scc_lowlinks ?st ! d) ?st else ?st))
        (connect_next adj (vs ! i) (k + 1) (cs_lower (vs ! i) (cs_low ?s (?ns ! k)) ?s))"
      using "3.IH"(2) [OF len True refl "3.prems"(1,2) _ "3.prems"(4) ds] by simp
    then show ?thesis using True len k new by (simp add: unfold Let_def)
  next
    case False
    then obtain x where x: "cs_indices s (?ns ! k) = Some x" using new by auto
    then have "scc_indices st ! d = x" "scc_on_stack st ! d = cs_on_stack s (?ns ! k)"
      using "3.prems"(3) dn by (simp_all add: same_search_def)
    then have "same_search vs (if scc_on_stack st ! d \<and> scc_indices st ! d < scc_lowlinks st ! i
          then scc_lower i (scc_indices st ! d) st else st)
        (if cs_on_stack s (?ns ! k) then cs_lower (vs ! i) x s else s)"
      using same_lower [OF "3.prems"(3,4) assms(1), of x] "3.prems"(3) by (simp split: if_splits)
    then have "same_search vs (visit_dependencies ps g i ds
          (if scc_on_stack st ! d \<and> scc_indices st ! d < scc_lowlinks st ! i
           then scc_lower i (scc_indices st ! d) st else st))
        (connect_next adj (vs ! i) (k + 1) (if cs_on_stack s (?ns ! k) then cs_lower (vs ! i) x s else s))"
      using "3.IH"(3) [OF len False "3.prems"(1,2) _ "3.prems"(4) ds] by blast
    then show ?thesis using False len k x by (simp add: unfold Let_def)
  qed
qed

section \<open>The components\<close>

lemma run_simulates:
  assumes "distinct vs" "closed_in vs adj" "same_search vs st s" "set is \<subseteq> {..<length vs}"
  shows "same_search vs
    (fold (\<lambda>i st. if scc_indices st ! i = -1 then visit (index_providers vs) (index_graph vs adj) i st else st) is st)
    (cs_run adj (map ((!) vs) is) s)"
  using assms(3,4)
proof (induction "is" arbitrary: st s)
  case (Cons i "is")
  have "same_search vs (if scc_indices st ! i = -1 then visit (index_providers vs) (index_graph vs adj) i st else st)
      (if cs_indices s (vs ! i) = None then connect adj (vs ! i) s else s)"
    using Cons.prems same_unvisited [OF Cons.prems(1), of i]
      connect_simulates(1) [OF assms(1,2) refl refl Cons.prems(1), of i] by auto
  then show ?case using Cons.IH Cons.prems(2) by (simp add: cs_run_def)
qed (simp add: cs_run_def)

lemma closed_wf: "closed_in vs adj \<Longrightarrow> wf_adjacency (index_graph vs adj)"
  using place_in by (auto simp: closed_in_def wf_adjacency_def index_graph_def) (meson nth_mem subsetD)

lemma sorted_index:
  assumes "distinct vs"
  shows "sort_by (symbol_less (index_providers (sort_strings vs))) [0..<length vs] = [0..<length vs]"
proof (rule symbol_order.sort_by_sorted_id)
  have "sorted (sort_strings vs)" using string_order.sorted_sort_by [of vs] by (simp add: string_order.sorted_by_key)
  moreover have "map (symbol_of (index_providers (sort_strings vs))) [0..<length vs] = sort_strings vs"
    by (rule nth_equalityI) (simp_all add: symbol_index)
  ultimately show "sorted_by (symbol_less (index_providers (sort_strings vs))) [0..<length vs]"
    by (simp add: symbol_order.sorted_by_key)
qed

lemma components_simulate:
  assumes "distinct (map fst adj)" "closed_in (map fst adj) adj"
  defines "vs \<equiv> sort_strings (map fst adj)"
  shows "stronglyConnectedComponents adj =
    map (map ((!) vs)) (stronglyConnected (index_graph vs adj) (index_providers vs))"
proof -
  let ?g = "index_graph vs adj" and ?ps = "index_providers vs"
  have vs: "distinct vs" "closed_in vs adj" "length vs = length adj"
    using assms by (simp_all add: closed_in_def)
  have g: "length ?g = length vs" by (simp add: index_graph_def)
  have order: "sort_by (symbol_less ?ps) [0..<length ?g] = [0..<length vs]"
    using sorted_index [OF assms(1)] vs(3) g by (simp add: vs_def)
  have "same_search vs (scc_start (length vs)) cs_start"
    by (auto simp: same_search_def scc_start_def cs_start_def shape_ok_def)
  from run_simulates [OF vs(1,2) this, of "[0..<length vs]"]
  have same: "same_search vs (scc_run ?g ?ps) (cs_run adj vs cs_start)"
    using order unfolding scc_run_def g by (simp add: subset_eq map_nth)
  let ?cs = "scc_components (scc_run ?g ?ps)"
  have cs: "[] \<notin> set ?cs" "set (concat ?cs) = {..<length vs}"
    using run_components [OF closed_wf [OF vs(2)], where providers = ?ps] g by auto
  have "map (map ((!) vs)) (sort_by (component_less ?ps) ?cs) = sort_by first_less (map (map ((!) vs)) ?cs)"
  proof (rule map_sort_by)
    fix c d
    assume cd: "c \<in> set ?cs" "d \<in> set ?cs"
    then have ne: "c \<noteq> []" "d \<noteq> []" using cs(1) by auto
    then have "c ! 0 \<in> set (concat ?cs)" "d ! 0 \<in> set (concat ?cs)" using cd nth_mem by fastforce+
    then have "c ! 0 < length vs" "d ! 0 < length vs" using cs(2) by auto
    then show "component_less ?ps c d \<longleftrightarrow> first_less (map ((!) vs) c) (map ((!) vs) d)"
      using ne by (simp add: component_less_def first_less_def symbol_index)
  qed
  moreover have "cs_result (cs_run adj vs cs_start) = map (map ((!) vs)) ?cs"
    using same by (simp add: same_search_def)
  ultimately show ?thesis
    by (simp add: stronglyConnectedComponents_def stronglyConnected_def vs_def)
qed

lemma index_reaches:
  assumes "distinct vs" "closed_in vs adj" "i < length vs" "j < length vs"
  shows "reaches (index_graph vs adj) i j \<longleftrightarrow> (vs ! i, vs ! j) \<in> (arrows adj)\<^sup>*"
proof
  assume "reaches (index_graph vs adj) i j"
  then show "(vs ! i, vs ! j) \<in> (arrows adj)\<^sup>*"
  proof (induction rule: rtrancl_induct)
    case (step x y)
    then have x: "x < length vs" and "y \<in> set (map (place vs) (neighbours adj (vs ! x)))"
      by (auto simp: graph_edges_def index_graph_def)
    then obtain w where "w \<in> set (neighbours adj (vs ! x))" "y = place vs w" by auto
    moreover from this have "w \<in> set vs" using assms(2) x by (auto simp: closed_in_def)
    ultimately have "(vs ! x, vs ! y) \<in> arrows adj" using place_in by (simp add: arrows_def)
    then show ?case using step.IH by simp
  qed simp
next
  assume "(vs ! i, vs ! j) \<in> (arrows adj)\<^sup>*"
  then have "vs ! j \<in> set vs \<and> reaches (index_graph vs adj) i (place vs (vs ! j))"
  proof (induction rule: rtrancl_induct)
    case base
    have "place vs (vs ! i) = i" using place_in [of "vs ! i" vs] assms(1,3) nth_eq_iff_index_eq by fastforce
    then show ?case using assms(3) by simp
  next
    case (step v w)
    then have v: "place vs v < length vs" "vs ! place vs v = v" and w: "w \<in> set (neighbours adj v)"
      using place_in by (auto simp: arrows_def)
    then have "w \<in> set vs" using step.IH assms(2) by (auto simp: closed_in_def)
    moreover have "(place vs v, place vs w) \<in> graph_edges (index_graph vs adj)"
      using v w by (simp add: graph_edges_def index_graph_def)
    ultimately show ?case using step.IH by (meson rtrancl.rtrancl_into_rtrancl)
  qed
  moreover have "place vs (vs ! j) = j" using place_in [of "vs ! j" vs] assms(1,4) nth_eq_iff_index_eq by fastforce
  ultimately show "reaches (index_graph vs adj) i j" by simp
qed

lemma components_partition:
  assumes "distinct (map fst adj)" "closed_in (map fst adj) adj"
  shows "distinct (concat (stronglyConnectedComponents adj)) \<and>
    set (concat (stronglyConnectedComponents adj)) = fst ` set adj \<and>
    [] \<notin> set (stronglyConnectedComponents adj) \<and>
    (\<forall>c \<in> set (stronglyConnectedComponents adj). \<forall>x \<in> set c. \<forall>y \<in> fst ` set adj.
       y \<in> set c \<longleftrightarrow> (x, y) \<in> (arrows adj)\<^sup>* \<and> (y, x) \<in> (arrows adj)\<^sup>*)"
proof -
  define vs where "vs = sort_strings (map fst adj)"
  define cs where "cs = stronglyConnected (index_graph vs adj) (index_providers vs)"
  have vs: "distinct vs" "closed_in vs adj" "set vs = fst ` set adj"
    using assms by (simp_all add: closed_in_def vs_def)
  have g: "length (index_graph vs adj) = length vs" by (simp add: index_graph_def)
  note scc = scc_partition [OF closed_wf [OF vs(2)], of "index_providers vs", folded cs_def, unfolded g]
  have eq: "stronglyConnectedComponents adj = map (map ((!) vs)) cs"
    using components_simulate [OF assms] by (simp add: cs_def vs_def)
  have concat: "concat (map (map ((!) vs)) cs) = map ((!) vs) (concat cs)" by (simp add: map_concat)
  have inj: "inj_on ((!) vs) {..<length vs}" using vs(1) by (simp add: inj_on_nth)
  have "y \<in> set (map ((!) vs) c) \<longleftrightarrow> (x, y) \<in> (arrows adj)\<^sup>* \<and> (y, x) \<in> (arrows adj)\<^sup>*"
    if c: "c \<in> set cs" "x \<in> set (map ((!) vs) c)" "y \<in> set vs" for c x y
  proof -
    obtain i where i: "i \<in> set c" "x = vs ! i" using c(2) by auto
    obtain j where j: "j < length vs" "y = vs ! j" using c(3) by (auto simp: in_set_conv_nth)
    have cn: "set c \<subseteq> {..<length vs}" using scc c(1) by auto
    have "y \<in> set (map ((!) vs) c) \<longleftrightarrow> j \<in> set c"
      using j cn nth_eq_iff_index_eq [OF vs(1)] by (auto simp: subset_eq)
    moreover have "j \<in> set c \<longleftrightarrow> reaches (index_graph vs adj) i j \<and> reaches (index_graph vs adj) j i"
      using scc c(1) i(1) j(1) by blast
    moreover have "i < length vs" using cn i(1) by auto
    ultimately show ?thesis
      using index_reaches [OF vs(1,2) _ j(1), of i] index_reaches [OF vs(1,2) j(1), of i] i(2) j(2) by simp
  qed
  then have mutual: "\<forall>c \<in> set (map (map ((!) vs)) cs). \<forall>x \<in> set c. \<forall>y \<in> set vs.
      y \<in> set c \<longleftrightarrow> (x, y) \<in> (arrows adj)\<^sup>* \<and> (y, x) \<in> (arrows adj)\<^sup>*"
    unfolding set_map [of "map ((!) vs)" cs] by (intro ballI) (erule imageE, simp only:)
  have all: "set (concat cs) = {..<length vs}" "distinct (concat cs)" "[] \<notin> set cs" using scc by blast+
  have "distinct (map ((!) vs) (concat cs))" using all inj by (simp add: distinct_map del: set_concat)
  moreover have "set (map ((!) vs) (concat cs)) = set vs"
    using all(1) nth_image [of "length vs" vs] by (simp add: lessThan_atLeast0 del: set_concat)
  moreover have "[] \<notin> set (map (map ((!) vs)) cs)" using all(3) by auto
  ultimately show ?thesis unfolding eq concat vs(3) [symmetric] using mutual by blast
qed

end
