(* ===== verification/Module_Cycle.thy ===== *)
theory Module_Cycle
  imports Module_Scc
begin

text \<open>
  \<open>representativeCycle\<close> and \<open>findCyclePath\<close> of \<open>src/compiler/modulith/modulith.go\<close>: the closed path that a
  diagnostic shows for a cyclic component.
\<close>

section \<open>The search\<close>

text \<open>
  The range loop of \<open>findCyclePath\<close> over the remaining neighbours.  \<open>None\<close> is the result
  \<open>false\<close>, which leaves \<open>path\<close> and \<open>onPath\<close> as they were; \<open>Some\<close> is the path at success.
\<close>

function findCyclePath ::
    "adjacency \<Rightarrow> string list \<Rightarrow> string \<Rightarrow> string list \<Rightarrow> string set \<Rightarrow> string list \<Rightarrow> string list option" where
  "findCyclePath adj inComponent start [] onPath path = None"
| "findCyclePath adj inComponent start (v # vs) onPath path =
     (if v \<notin> set inComponent then findCyclePath adj inComponent start vs onPath path
      else if v = start \<and> 1 < length path then Some (path @ [start])
      else if v \<in> onPath then findCyclePath adj inComponent start vs onPath path
      else case findCyclePath adj inComponent start (neighbours adj v) (insert v onPath) (path @ [v]) of
             Some found \<Rightarrow> Some found
           | None \<Rightarrow> findCyclePath adj inComponent start vs onPath path)"
  by pat_completeness auto
termination
proof (relation "inv_image (less_than <*lex*> less_than)
    (\<lambda>(adj, inComponent, start, vs, onPath, path). (card (set inComponent - onPath), length vs))")
  fix adj :: adjacency and inComponent :: "string list" and start v vs onPath path
  assume "\<not> v \<notin> set inComponent" "v \<notin> onPath"
  then have "card (set inComponent - insert v onPath) < card (set inComponent - onPath)"
    by (intro psubset_card_mono) auto
  then show "((adj, inComponent, start, neighbours adj v, insert v onPath, path @ [v]),
      adj, inComponent, start, v # vs, onPath, path) \<in> inv_image (less_than <*lex*> less_than)
    (\<lambda>(adj, inComponent, start, vs, onPath, path). (card (set inComponent - onPath), length vs))"
    by simp
qed auto

declare findCyclePath.simps(2) [simp del]

definition cycle_through :: "string list \<Rightarrow> adjacency \<Rightarrow> string list" where
  "cycle_through members_of adj =
     (let start = members_of ! 0
      in case findCyclePath adj members_of start (neighbours adj start) {start} [start] of
           Some path \<Rightarrow> path
         | None \<Rightarrow> members_of @ [start])"

section \<open>Paths\<close>

fun path_from :: "adjacency \<Rightarrow> string \<Rightarrow> string list \<Rightarrow> bool" where
  "path_from adj v [] = True"
| "path_from adj v (w # ws) = (w \<in> set (neighbours adj v) \<and> path_from adj w ws)"

lemma path_from_append: "path_from adj v (xs @ w # ys) \<Longrightarrow> path_from adj w ys"
  by (induction xs arbitrary: v) auto

lemma path_from_reaches: "path_from adj v ws \<Longrightarrow> w \<in> set ws \<Longrightarrow> (v, w) \<in> (arrows adj)\<^sup>*"
proof (induction ws arbitrary: v)
  case (Cons x ws)
  then have x: "(v, x) \<in> arrows adj" by (simp add: arrows_def)
  show ?case
  proof (cases "w = x")
    case False
    then have "(x, w) \<in> (arrows adj)\<^sup>*" using Cons by simp
    then show ?thesis using x by (meson converse_rtrancl_into_rtrancl)
  qed (use x in auto)
qed simp

lemma path_from_end: "path_from adj v (ws @ [e]) \<Longrightarrow> w \<in> set ws \<Longrightarrow> (w, e) \<in> (arrows adj)\<^sup>*"
proof -
  assume p: "path_from adj v (ws @ [e])" and "w \<in> set ws"
  then obtain xs ys where "ws = xs @ w # ys" by (meson split_list)
  then have "path_from adj w (ys @ [e])" using p path_from_append [of adj v xs w "ys @ [e]"] by simp
  then show ?thesis by (rule path_from_reaches) simp
qed

lemma simple_path:
  assumes "(v, start) \<in> (arrows adj)\<^sup>*" "v \<noteq> start"
  shows "\<exists>ws. path_from adj v (ws @ [start]) \<and> distinct (v # ws) \<and> start \<notin> set (v # ws)"
  using assms
proof (induction rule: converse_rtrancl_induct)
  case (step v w)
  have edge: "w \<in> set (neighbours adj v)" using step.hyps(1) by (simp add: arrows_def)
  show ?case
  proof (cases "w = start")
    case True
    with edge step.prems show ?thesis by (intro exI [of _ "[]"]) auto
  next
    case False
    then obtain ws where ws: "path_from adj w (ws @ [start])" "distinct (w # ws)" "start \<notin> set (w # ws)"
      using step.IH by blast
    show ?thesis
    proof (cases "v \<in> set (w # ws)")
      case True
      then obtain xs ys where split: "w # ws = xs @ v # ys" by (meson split_list)
      have "path_from adj v ((w # ws) @ [start])" using edge ws(1) by simp
      then have "path_from adj v (ys @ [start])" using path_from_append [of adj v xs v] unfolding split by simp
      moreover have "distinct (v # ys)" "start \<notin> set (v # ys)" using ws(2,3) unfolding split by auto
      ultimately show ?thesis by blast
    next
      case False
      with edge ws step.prems show ?thesis by (intro exI [of _ "w # ws"]) auto
    qed
  qed
qed simp

section \<open>The path found is a cycle\<close>

lemma findCyclePath_sound:
  "findCyclePath adj members_of start vs onPath path = Some found \<Longrightarrow> set vs \<subseteq> set (neighbours adj v) \<Longrightarrow>
   \<exists>q. found = path @ q @ [start] \<and> path_from adj v (q @ [start]) \<and> set q \<subseteq> set members_of"
proof (induction adj members_of start vs onPath path arbitrary: v rule: findCyclePath.induct)
  case (2 adj members_of start w vs onPath path)
  let ?rest = "findCyclePath adj members_of start vs onPath path"
  let ?below = "findCyclePath adj members_of start (neighbours adj w) (insert w onPath) (path @ [w])"
  have w: "w \<in> set (neighbours adj v)" and vs: "set vs \<subseteq> set (neighbours adj v)" using "2.prems"(2) by auto
  show ?case
  proof (cases "w \<in> set members_of")
    case False
    then have "?rest = Some found" using "2.prems"(1) by (simp add: findCyclePath.simps(2))
    then show ?thesis using "2.IH"(1) [OF False _ vs] by blast
  next
    case comp: True
    show ?thesis
    proof (cases "w = start \<and> 1 < length path")
      case True
      then have "found = path @ [start]" using "2.prems"(1) comp by (simp add: findCyclePath.simps(2))
      then show ?thesis using w True by (intro exI [of _ "[]"]) simp
    next
      case inner: False
      show ?thesis
      proof (cases "w \<in> onPath")
        case True
        then have "?rest = Some found" using "2.prems"(1) comp inner by (auto simp: findCyclePath.simps(2))
        then show ?thesis using "2.IH"(2) [OF _ inner True _ vs] comp by simp
      next
        case new: False
        show ?thesis
        proof (cases ?below)
          case None
          then have "?rest = Some found"
            using "2.prems"(1) comp inner new by (auto simp: findCyclePath.simps(2))
          then show ?thesis using "2.IH"(4) [OF _ inner new None _ vs] comp by simp
        next
          case (Some r)
          then have "?below = Some found" using "2.prems"(1) comp inner new by (auto simp: findCyclePath.simps(2))
          then obtain q where "found = (path @ [w]) @ q @ [start]" "path_from adj w (q @ [start])"
              "set q \<subseteq> set members_of"
            using "2.IH"(3) [OF _ inner new _ order_refl] comp by blast
          then show ?thesis using w comp by (intro exI [of _ "w # q"]) auto
        qed
      qed
    qed
  qed
qed simp

lemma findCyclePath_finds:
  assumes "v \<in> set vs" "v \<in> set members_of"
    and "v = start \<and> 1 < length path \<or> v \<notin> onPath \<and>
      findCyclePath adj members_of start (neighbours adj v) (insert v onPath) (path @ [v]) \<noteq> None"
  shows "findCyclePath adj members_of start vs onPath path \<noteq> None"
  using assms(1)
proof (induction vs)
  case (Cons w vs)
  then show ?case
    using assms(2,3) by (cases "w = v") (auto simp: findCyclePath.simps(2) split: option.splits)
qed simp

lemma findCyclePath_complete:
  assumes "path_from adj v (ws @ [start])" "distinct ws" "set ws \<subseteq> set members_of - onPath"
    and "start \<in> set members_of" "1 < length path \<or> ws \<noteq> [] \<and> path \<noteq> []"
  shows "findCyclePath adj members_of start (neighbours adj v) onPath path \<noteq> None"
  using assms
proof (induction ws arbitrary: v onPath path)
  case Nil
  then show ?case by (intro findCyclePath_finds [of start]) auto
next
  case (Cons w ws)
  have "findCyclePath adj members_of start (neighbours adj w) (insert w onPath) (path @ [w]) \<noteq> None"
    using Cons.prems by (intro Cons.IH) auto
  with Cons.prems show ?case by (intro findCyclePath_finds [of w]) auto
qed

lemma cycle_through_path:
  assumes "distinct (map fst adj)" "closed_in (map fst adj) adj" "c \<in> set (stronglyConnectedComponents adj)"
    and "2 \<le> length c"
  shows "\<exists>q. cycle_through c adj = c ! 0 # q @ [c ! 0] \<and> path_from adj (c ! 0) (q @ [c ! 0]) \<and> set q \<subseteq> set c"
proof -
  let ?s = "c ! 0"
  note scc = components_partition [OF assms(1,2)]
  have s: "?s \<in> set c" "c ! 1 \<in> set c" using assms(4) by (auto intro: nth_mem)
  have keys: "set c \<subseteq> fst ` set adj" using scc assms(3) by auto
  have "distinct c" using scc assms(3) by (auto simp: distinct_concat_iff)
  then have ne: "?s \<noteq> c ! 1"
    using assms(4) nth_eq_iff_index_eq [of c 0 1] by (metis One_nat_def Suc_1 Suc_le_lessD less_trans zero_less_one zero_neq_one)
  have same: "y \<in> set c \<longleftrightarrow> (?s, y) \<in> (arrows adj)\<^sup>* \<and> (y, ?s) \<in> (arrows adj)\<^sup>*" if "y \<in> fst ` set adj" for y
    using scc assms(3) s(1) that by blast
  have out: "(?s, c ! 1) \<in> (arrows adj)\<^sup>*" "(c ! 1, ?s) \<in> (arrows adj)\<^sup>*" using same [of "c ! 1"] s(2) keys by blast+
  obtain ws where there: "path_from adj ?s (ws @ [c ! 1])" "?s \<notin> set ws" using simple_path [OF out(1) ne] by auto
  obtain v us where v: "ws @ [c ! 1] = v # us" by (cases "ws @ [c ! 1]") auto
  have vs: "v \<in> set (neighbours adj ?s)" using there(1) v by simp
  have vne: "v \<noteq> ?s" using there(2) v ne by (cases ws) auto
  have "(v, c ! 1) \<in> (arrows adj)\<^sup>*"
    using there(1) v path_from_end [of adj ?s ws "c ! 1" v] by (cases ws) auto
  then have "(v, ?s) \<in> (arrows adj)\<^sup>*" using out(2) by (rule rtrancl_trans)
  then obtain xs where xs: "path_from adj v (xs @ [?s])" "distinct (v # xs)" "?s \<notin> set (v # xs)"
    using simple_path vne by blast
  have wk: "path_from adj ?s ((v # xs) @ [?s])" using xs(1) vs by simp
  have "set (v # xs) \<subseteq> set c"
  proof
    fix w assume w: "w \<in> set (v # xs)"
    then have r: "(?s, w) \<in> (arrows adj)\<^sup>*" "(w, ?s) \<in> (arrows adj)\<^sup>*"
      using path_from_reaches [OF wk, of w] path_from_end [OF wk w] by auto
    have "(u, z) \<in> (arrows adj)\<^sup>* \<Longrightarrow> u \<in> fst ` set adj \<Longrightarrow> z \<in> fst ` set adj" for u z
      by (induction rule: rtrancl_induct) (use assms(2) in \<open>auto simp: closed_in_def arrows_def\<close>)
    then have "w \<in> fst ` set adj" using r(1) s(1) keys by blast
    then show "w \<in> set c" using same r by blast
  qed
  then have "findCyclePath adj c ?s (neighbours adj ?s) {?s} [?s] \<noteq> None"
    using xs s(1) by (intro findCyclePath_complete [OF wk]) auto
  then obtain found where f: "findCyclePath adj c ?s (neighbours adj ?s) {?s} [?s] = Some found" by blast
  from findCyclePath_sound [OF f order_refl] f show ?thesis by (auto simp: cycle_through_def Let_def)
qed

end
