(* ===== verification/Modulith.thy ===== *)
theory Modulith
  imports Annotation_Parser Module_Cycle "HOL-Library.AList"
begin

text \<open>
  \<open>src/compiler/modulith/modulith.go\<close>: discovery of application modules, the packages they own, their
  named interfaces and allowed dependencies, the imports that cross modules, and the diagnostics of
  the architecture rules.  Packages, occurrences and contributions carry the fields this package reads;
  a contribution has the payload of its kind, which its validation in the SDK ensures.
  A file is \<open>None\<close> when it has no syntax tree, otherwise the import specifications of its tree.
\<close>

section \<open>What the loader and the resolver provide\<close>

record import_spec =
  spec_value :: string            \<comment> \<open>the quoted literal\<close>
  spec_position :: token_position
  spec_physical :: token_position

record load_package =
  load_path :: string
  load_name :: string
  load_module_path :: string
  load_auxiliary :: bool
  load_raw :: bool                \<comment> \<open>\<open>Raw\<close> and its file set are present\<close>
  load_files :: "import_spec list option list"

datatype contribution =
    ModuleContribution "string list"
  | NamedInterfaceContribution string
  | OtherContribution string

fun contribution_kind :: "contribution \<Rightarrow> string" where
  "contribution_kind (ModuleContribution allowed) = ''module''"
| "contribution_kind (NamedInterfaceContribution name) = ''named-interface''"
| "contribution_kind (OtherContribution kind) = kind"

record occurrence =
  occ_annotation :: annotation
  occ_bound :: bool               \<comment> \<open>\<open>Definition\<close> is not the zero reference\<close>
  occ_target :: string
  occ_package :: string
  occ_file :: string
  occ_offset :: int
  occ_position :: token_position
  occ_contributions :: "contribution list"

definition HasContribution :: "occurrence \<Rightarrow> string \<Rightarrow> bool" where
  "HasContribution occ kind = list_ex (\<lambda>c. contribution_kind c = kind) (occ_contributions occ)"

definition Contribution_of :: "occurrence \<Rightarrow> string \<Rightarrow> contribution option" where
  "Contribution_of occ kind = find (\<lambda>c. contribution_kind c = kind) (occ_contributions occ)"

definition DescriptorContribution :: "occurrence \<Rightarrow> string \<Rightarrow> contribution option" where
  "DescriptorContribution occ kind = (if \<not> occ_bound occ then None else Contribution_of occ kind)"

definition physicalPosition :: "occurrence \<Rightarrow> token_position" where
  "physicalPosition occ = no_position\<lparr>pos_filename := occ_file occ, pos_offset := occ_offset occ\<rparr>"

section \<open>The model\<close>

record module_package =
  mpkg_path :: string
  mpkg_name :: string
  mpkg_go_module :: string
  mpkg_root :: bool

record named_interface =
  ni_name :: string
  ni_package :: string
  ni_position :: token_position
  ni_physical :: token_position

record module_dependency =
  mdep_module :: string
  mdep_interface :: string
  mdep_position :: token_position
  mdep_physical :: token_position

record module_edge =
  from_module :: string
  to_module :: string
  from_package :: string
  to_package :: string
  edge_api :: string
  edge_exported :: bool
  edge_allowed :: bool
  edge_position :: token_position
  edge_physical :: token_position

record module_cycle =
  cycle_members :: "string list"
  cycle_path :: "string list"

record app_module =
  mod_id :: string
  mod_root :: string
  mod_go_module :: string
  mod_position :: token_position
  mod_physical :: token_position
  mod_packages :: "module_package list"
  mod_interfaces :: "named_interface list"
  mod_allowed :: "module_dependency list"

record module_diagnostic =
  mdiag_position :: token_position
  mdiag_physical :: token_position
  mdiag_module :: string
  mdiag_package :: string
  mdiag_kind :: string
  mdiag_message :: string

record module_model =
  modules :: "app_module list"
  module_edges :: "module_edge list"
  module_cycles :: "module_cycle list"
  unassigned :: "module_package list"
  mdiags :: "module_diagnostic list"
  packageOwner :: "string \<Rightarrow> nat option"
  focus_id :: string
  dependency_order :: "string list"

definition empty_model :: module_model where
  "empty_model = \<lparr>modules = [], module_edges = [], module_cycles = [], unassigned = [], mdiags = [],
     packageOwner = (\<lambda>p. None), focus_id = [], dependency_order = []\<rparr>"

definition dependencySeparator :: string where
  "dependencySeparator = ''::''"

definition dependencyIdentity :: "string \<Rightarrow> string \<Rightarrow> string" where
  "dependencyIdentity moduleID interfaceName =
     (if interfaceName = [] then moduleID else moduleID @ dependencySeparator @ interfaceName)"

definition dependency_string :: "module_dependency \<Rightarrow> string" where
  "dependency_string d =
     (if mdep_interface d = [] then mdep_module d
      else mdep_module d @ dependencySeparator @ mdep_interface d)"

definition module_position_text :: "token_position \<Rightarrow> string" where
  "module_position_text p =
     (if pos_filename p = [] then ''<unknown>:1:1''
      else pos_filename p @ '':'' @ show_int (if pos_line p \<le> 0 then 1 else pos_line p) @ '':'' @
           show_int (if pos_column p \<le> 0 then 1 else pos_column p))"

definition module_diagnostic_error :: "module_diagnostic \<Rightarrow> string" where
  "module_diagnostic_error d =
     (let p = mdiag_position d
      in (if pos_filename p = [] then ''<unknown>'' else pos_filename p) @ '':'' @
         show_int (if pos_line p \<le> 0 then 1 else pos_line p) @ '':'' @
         show_int (if pos_column p \<le> 0 then 1 else pos_column p) @ '': '' @ mdiag_message d)"

definition occurrenceDiagnostic :: "occurrence \<Rightarrow> string \<Rightarrow> string \<Rightarrow> module_diagnostic" where
  "occurrenceDiagnostic occ kind message =
     \<lparr>mdiag_position = occ_position occ, mdiag_physical = physicalPosition occ,
      mdiag_module = occ_package occ, mdiag_package = occ_package occ, mdiag_kind = kind,
      mdiag_message = message\<rparr>"

section \<open>Dependency identities\<close>

fun count_separators :: "string \<Rightarrow> nat" where
  "count_separators [] = 0"
| "count_separators (c # s) =
     (if has_prefix (c # s) dependencySeparator then Suc (count_separators (drop 1 s)) else count_separators s)"

text \<open>\<open>strings.Cut\<close> at the separator.\<close>

fun cut_separator :: "string \<Rightarrow> string \<times> string \<times> bool" where
  "cut_separator [] = ([], [], False)"
| "cut_separator (c # s) =
     (if has_prefix (c # s) dependencySeparator then ([], drop 1 s, True)
      else let (before, after, found) = cut_separator s in (c # before, after, found))"

definition lower_letter :: "char \<Rightarrow> bool" where
  "lower_letter c = in_range 97 122 (byte_of c)"

text \<open>The pattern of interface names.\<close>

definition interface_name :: "string \<Rightarrow> bool" where
  "interface_name s =
     (case s of
        [] \<Rightarrow> False
      | c # cs \<Rightarrow> lower_letter c \<and>
          list_all (\<lambda>c. lower_letter c \<or> in_range 48 57 (byte_of c) \<or> c = CHR ''-'') cs)"

definition interface_pattern :: string where
  "interface_pattern = ''^[a-z][a-z0-9-]*$''"

definition parseDependency :: "unicode_tables \<Rightarrow> string \<Rightarrow> occurrence \<Rightarrow> module_dependency go_result" where
  "parseDependency U text occ =
     (if text = [] \<or> trim_space text \<noteq> text
      then Inl ''identity must be non-empty and contain no surrounding whitespace''
      else if count_separators text > 1
      then Inl (''identity may contain at most one '' @ quote U dependencySeparator @ '' separator'')
      else let (moduleID, interfaceName, hasInterface) = cut_separator text
           in if moduleID = [] then Inl ''module import path is required''
              else if hasInterface \<and> \<not> interface_name interfaceName
              then Inl (''named interface must match '' @ interface_pattern)
              else Inr \<lparr>mdep_module = moduleID, mdep_interface = interfaceName,
                     mdep_position = occ_position occ, mdep_physical = physicalPosition occ\<rparr>)"

definition module_dependency_less :: "module_dependency \<Rightarrow> module_dependency \<Rightarrow> bool" where
  "module_dependency_less a b =
     (if mdep_module a \<noteq> mdep_module b then mdep_module a < mdep_module b
      else mdep_interface a < mdep_interface b)"

definition sortDependencies :: "module_dependency list \<Rightarrow> module_dependency list" where
  "sortDependencies = sort_by module_dependency_less"

fun dependency_values ::
    "unicode_tables \<Rightarrow> occurrence \<Rightarrow> string list \<Rightarrow> string set \<Rightarrow> module_dependency list
       \<Rightarrow> module_diagnostic list \<Rightarrow> module_dependency list \<times> module_diagnostic list" where
  "dependency_values U occ [] seen deps diags = (deps, diags)"
| "dependency_values U occ (text # rest) seen deps diags =
     (case parseDependency U text occ of
        Inl e \<Rightarrow> dependency_values U occ rest seen deps (diags @ [occurrenceDiagnostic occ ''dependency-identity''
            (''@Module allowed dependency '' @ quote U text @ '' is invalid: '' @ e)])
      | Inr d \<Rightarrow>
          if dependency_string d \<in> seen
          then dependency_values U occ rest seen deps (diags @ [occurrenceDiagnostic occ ''duplicate-dependency''
            (''@Module allowed dependency '' @ quote U (dependency_string d) @ '' is declared more than once'')])
          else dependency_values U occ rest (insert (dependency_string d) seen) (deps @ [d]) diags)"

definition parseDependencyValues ::
    "unicode_tables \<Rightarrow> occurrence \<Rightarrow> string list \<Rightarrow> module_dependency list \<times> module_diagnostic list" where
  "parseDependencyValues U occ vals =
     (let (deps, diags) = dependency_values U occ vals {} [] [] in (sortDependencies deps, diags))"

fun string_items ::
    "occurrence \<Rightarrow> nat \<Rightarrow> annotation_value list \<Rightarrow> string list \<times> module_diagnostic list" where
  "string_items occ i [] = ([], [])"
| "string_items occ i (item # items) =
     (let (vals, diags) = string_items occ (i + 1) items
      in case item of
           KindString s \<Rightarrow> (s # vals, diags)
         | _ \<Rightarrow> (vals, occurrenceDiagnostic occ ''dependency-kind''
             (''@Module allowedDependencies item '' @ show_nat i @ '' must be a string'') # diags))"

definition parseDependencies ::
    "unicode_tables \<Rightarrow> occurrence \<Rightarrow> module_dependency list \<times> module_diagnostic list" where
  "parseDependencies U occ =
     (case DescriptorContribution occ ''module'' of
        Some (ModuleContribution allowed) \<Rightarrow> parseDependencyValues U occ allowed
      | _ \<Rightarrow>
          (case filter (\<lambda>a. arg_name a = ''allowedDependencies'') (ann_arguments (occ_annotation occ)) of
             [] \<Rightarrow> ([], [])
           | [a] \<Rightarrow>
               (case arg_value a of
                  KindList items \<Rightarrow>
                    let (vals, diags) = string_items occ 0 items;
                        (deps, parsed) = parseDependencyValues U occ vals
                    in (deps, diags @ parsed)
                | _ \<Rightarrow> ([], [occurrenceDiagnostic occ ''dependency-kind''
                    ''@Module allowedDependencies must be a list of strings'']))
           | _ \<Rightarrow> ([], [occurrenceDiagnostic occ ''duplicate-argument''
               ''@Module assigns allowedDependencies more than once''])))"

section \<open>Modules\<close>

text \<open>\<open>map[string]load.Package\<close>; a later package of the same path replaces an earlier one.\<close>

type_synonym package_index = "(string \<times> load_package) list"

definition packageIndex :: "load_package list \<Rightarrow> package_index" where
  "packageIndex pkgs = fold (\<lambda>p. AList.update (load_path p) p) pkgs []"

type_synonym discovery = "(string \<Rightarrow> occurrence option) \<times> app_module list \<times> module_diagnostic list"

definition new_module :: "load_package \<Rightarrow> occurrence \<Rightarrow> module_dependency list \<Rightarrow> app_module" where
  "new_module pkg occ allowed =
     \<lparr>mod_id = load_path pkg, mod_root = load_path pkg, mod_go_module = load_module_path pkg,
      mod_position = occ_position occ, mod_physical = physicalPosition occ, mod_packages = [],
      mod_interfaces = [], mod_allowed = allowed\<rparr>"

definition discover_module :: "unicode_tables \<Rightarrow> package_index \<Rightarrow> occurrence \<Rightarrow> discovery \<Rightarrow> discovery" where
  "discover_module U index occ st =
     (let (seen, mods, diags) = st
      in if \<not> HasContribution occ ''module'' then st
         else if occ_target occ \<noteq> ''package''
         then (seen, mods, diags @ [occurrenceDiagnostic occ ''invalid-target''
                ''@Module must appear in package documentation''])
         else case seen (occ_package occ) of
           Some previous \<Rightarrow> (seen, mods, diags @ [occurrenceDiagnostic occ ''duplicate-module''
             (''package '' @ occ_package occ @ '' declares @Module more than once; first declaration is at ''
              @ module_position_text (occ_position previous))])
         | None \<Rightarrow>
             let seen = seen(occ_package occ := Some occ)
             in case map_of index (occ_package occ) of
                  None \<Rightarrow> (seen, mods, diags @ [occurrenceDiagnostic occ ''missing-package''
                    (''@Module package '' @ occ_package occ @ '' is not in the loaded program'')])
                | Some pkg \<Rightarrow>
                    let (allowed, found) = parseDependencies U occ
                    in (seen, mods @ [new_module pkg occ allowed], diags @ found))"

definition module_less :: "app_module \<Rightarrow> app_module \<Rightarrow> bool" where
  "module_less a b = (mod_id a < mod_id b)"

definition discoverModules ::
    "unicode_tables \<Rightarrow> occurrence list \<Rightarrow> package_index \<Rightarrow> app_module list \<times> module_diagnostic list" where
  "discoverModules U occs index =
     (let (seen, mods, diags) = fold (discover_module U index) occs (\<lambda>p. None, [], [])
      in (sort_by module_less mods, diags))"

section \<open>Ownership\<close>

definition owns :: "app_module \<Rightarrow> load_package \<Rightarrow> bool" where
  "owns m pkg =
     (mod_go_module m = load_module_path pkg \<and>
      (load_path pkg = mod_root m \<or> has_prefix (load_path pkg) (mod_root m @ ''/'')))"

fun owner_loop :: "app_module list \<Rightarrow> load_package \<Rightarrow> app_module list \<Rightarrow> nat \<Rightarrow> nat option \<Rightarrow> nat option" where
  "owner_loop mods pkg [] i owner = owner"
| "owner_loop mods pkg (m # rest) i owner =
     owner_loop mods pkg rest (i + 1)
       (if \<not> owns m pkg then owner
        else case owner of
               None \<Rightarrow> Some i
             | Some o1 \<Rightarrow> if length (mod_root m) > length (mod_root (mods ! o1)) then Some i else owner)"

definition ownerIndex :: "app_module list \<Rightarrow> load_package \<Rightarrow> nat option" where
  "ownerIndex mods pkg = owner_loop mods pkg mods 0 None"

definition package_item :: "app_module list \<Rightarrow> load_package \<Rightarrow> module_package" where
  "package_item mods pkg =
     \<lparr>mpkg_path = load_path pkg, mpkg_name = load_name pkg, mpkg_go_module = load_module_path pkg,
      mpkg_root = (case ownerIndex mods pkg of
                     None \<Rightarrow> False
                   | Some i \<Rightarrow> mod_root (mods ! i) = load_path pkg)\<rparr>"

definition assign_package :: "load_package \<Rightarrow> module_model \<Rightarrow> module_model" where
  "assign_package pkg model =
     (let item = package_item (modules model) pkg
      in case ownerIndex (modules model) pkg of
           Some i \<Rightarrow>
             model\<lparr>modules := (modules model)[i := (modules model ! i)
                      \<lparr>mod_packages := mod_packages (modules model ! i) @ [item]\<rparr>],
                   packageOwner := (packageOwner model)(load_path pkg := Some i)\<rparr>
         | None \<Rightarrow>
             if load_module_path pkg \<in> set (map mod_go_module (modules model))
             then model\<lparr>unassigned := unassigned model @ [item]\<rparr> else model)"

definition assignPackages :: "package_index \<Rightarrow> module_model \<Rightarrow> module_model" where
  "assignPackages index model =
     fold (\<lambda>p model. case map_of index p of Some pkg \<Rightarrow> assign_package pkg model | None \<Rightarrow> model)
       (sort_strings (map fst index)) model"

section \<open>Named interfaces\<close>

definition validateNamedInterfaceName ::
    "unicode_tables \<Rightarrow> occurrence \<Rightarrow> string \<Rightarrow> module_diagnostic + string" where
  "validateNamedInterfaceName U occ name =
     (if \<not> interface_name name
      then Inl (occurrenceDiagnostic occ ''interface-name''
             (''@NamedInterface name '' @ quote U name @ '' must match '' @ interface_pattern))
      else Inr name)"

fun interface_names :: "argument list \<Rightarrow> string list option" where
  "interface_names [] = Some []"
| "interface_names (a # as) =
     (if arg_name a \<noteq> [] \<and> arg_name a \<noteq> ''name'' then interface_names as
      else case arg_value a of
             KindString s \<Rightarrow> map_option (Cons s) (interface_names as)
           | _ \<Rightarrow> None)"

definition namedInterfaceName :: "unicode_tables \<Rightarrow> occurrence \<Rightarrow> module_diagnostic + string" where
  "namedInterfaceName U occ =
     (case DescriptorContribution occ ''named-interface'' of
        Some (NamedInterfaceContribution name) \<Rightarrow> validateNamedInterfaceName U occ name
      | _ \<Rightarrow>
          (case interface_names (ann_arguments (occ_annotation occ)) of
             None \<Rightarrow> Inl (occurrenceDiagnostic occ ''interface-kind'' ''@NamedInterface name must be a string'')
           | Some [name] \<Rightarrow> validateNamedInterfaceName U occ name
           | Some _ \<Rightarrow> Inl (occurrenceDiagnostic occ ''interface-name''
               ''@NamedInterface requires exactly one name'')))"

definition add_diagnostic :: "module_diagnostic \<Rightarrow> module_model \<Rightarrow> module_model" where
  "add_diagnostic d model = model\<lparr>mdiags := mdiags model @ [d]\<rparr>"

definition add_interface :: "nat \<Rightarrow> named_interface \<Rightarrow> module_model \<Rightarrow> module_model" where
  "add_interface i ni model =
     model\<lparr>modules := (modules model)[i := (modules model ! i)
       \<lparr>mod_interfaces := mod_interfaces (modules model ! i) @ [ni]\<rparr>]\<rparr>"

definition nul :: char where
  "nul = CHR 0x00"

definition discover_interface ::
    "unicode_tables \<Rightarrow> package_index \<Rightarrow> occurrence \<Rightarrow> (string \<Rightarrow> occurrence option) \<times> module_model
       \<Rightarrow> (string \<Rightarrow> occurrence option) \<times> module_model" where
  "discover_interface U index occ st =
     (let (seen, model) = st
      in if \<not> HasContribution occ ''named-interface'' then st
         else case namedInterfaceName U occ of
           Inl d \<Rightarrow> (seen, add_diagnostic d model)
         | Inr name \<Rightarrow>
             (case (if occ_target occ \<noteq> ''package'' then None else map_of index (occ_package occ)) of
                None \<Rightarrow> (seen, add_diagnostic (occurrenceDiagnostic occ ''invalid-target''
                  ''@NamedInterface must appear in package documentation for a loaded package'') model)
              | Some pkg \<Rightarrow>
                  (case ownerIndex (modules model) pkg of
                     None \<Rightarrow> (seen, add_diagnostic (occurrenceDiagnostic occ ''unassigned-interface''
                       (''@NamedInterface '' @ quote U name @ '' package '' @ load_path pkg @
                        '' is not inside an @Module root'')) model)
                   | Some i \<Rightarrow>
                       let key = mod_id (modules model ! i) @ [nul] @ name
                       in case seen key of
                            Some previous \<Rightarrow> (seen, add_diagnostic (occurrenceDiagnostic occ ''duplicate-interface''
                              (''module '' @ mod_id (modules model ! i) @ '' declares named interface '' @
                               quote U name @ '' more than once; first declaration is at '' @
                               module_position_text (occ_position previous))) model)
                          | None \<Rightarrow>
                              (seen(key := Some occ),
                               add_interface i \<lparr>ni_name = name, ni_package = load_path pkg,
                                 ni_position = occ_position occ, ni_physical = physicalPosition occ\<rparr> model))))"

definition discoverNamedInterfaces ::
    "unicode_tables \<Rightarrow> occurrence list \<Rightarrow> package_index \<Rightarrow> module_model \<Rightarrow> module_model" where
  "discoverNamedInterfaces U occs index model =
     snd (fold (discover_interface U index) occs (\<lambda>k. None, model))"

section \<open>Declared dependencies\<close>

text \<open>The identities known of each module: the names of its interfaces.\<close>

type_synonym universe = "string \<Rightarrow> string set option"

definition register :: "app_module \<Rightarrow> universe \<Rightarrow> universe" where
  "register m known =
     known(mod_id m := Some ((case known (mod_id m) of None \<Rightarrow> {} | Some names \<Rightarrow> names) \<union>
       set (map ni_name (mod_interfaces m))))"

definition NewUniverse :: "module_model list \<Rightarrow> universe" where
  "NewUniverse models = fold (\<lambda>model. fold register (modules model)) models (\<lambda>m. None)"

definition dependencyDiagnostic ::
    "app_module \<Rightarrow> module_dependency \<Rightarrow> string \<Rightarrow> string \<Rightarrow> module_diagnostic" where
  "dependencyDiagnostic m d kind message =
     \<lparr>mdiag_position = mdep_position d, mdiag_physical = mdep_physical d, mdiag_module = mod_id m,
      mdiag_package = mod_root m, mdiag_kind = kind, mdiag_message = message\<rparr>"

definition check_dependency :: "universe \<Rightarrow> app_module \<Rightarrow> module_dependency \<Rightarrow> module_diagnostic list" where
  "check_dependency known m d =
     (if mdep_module d = mod_id m
      then [dependencyDiagnostic m d ''self-dependency''
             (''module '' @ mod_id m @ '' must not declare a dependency on itself'')]
      else case known (mdep_module d) of
        None \<Rightarrow> [dependencyDiagnostic m d ''unknown-module''
          (''module '' @ mod_id m @ '' allows unknown module '' @ mdep_module d @
           ''; use an exact @Module root import path'')]
      | Some names \<Rightarrow>
          if mdep_interface d \<noteq> [] \<and> mdep_interface d \<notin> names
          then [dependencyDiagnostic m d ''unknown-interface''
            (''module '' @ mod_id m @ '' allows unknown interface '' @ mdep_interface d @ '' on module '' @
             mdep_module d)]
          else [])"

definition validateDependencies :: "universe \<Rightarrow> module_model \<Rightarrow> module_model" where
  "validateDependencies uni model =
     (let known = fold register (modules model) uni
      in model\<lparr>mdiags := mdiags model @
           concat (map (\<lambda>m. concat (map (check_dependency known m) (mod_allowed m))) (modules model))\<rparr>)"

section \<open>Imports across modules\<close>

record package_import =
  imp_path :: string
  imp_position :: token_position
  imp_physical :: token_position

definition import_less :: "package_import \<Rightarrow> package_import \<Rightarrow> bool" where
  "import_less a b =
     (if pos_filename (imp_physical a) \<noteq> pos_filename (imp_physical b)
      then pos_filename (imp_physical a) < pos_filename (imp_physical b)
      else if pos_offset (imp_physical a) \<noteq> pos_offset (imp_physical b)
      then pos_offset (imp_physical a) < pos_offset (imp_physical b)
      else imp_path a < imp_path b)"

definition spec_import :: "import_spec \<Rightarrow> package_import option" where
  "spec_import spec =
     (case unquote (spec_value spec) of
        None \<Rightarrow> None
      | Some p \<Rightarrow> Some \<lparr>imp_path = p, imp_position = spec_position spec, imp_physical = spec_physical spec\<rparr>)"

definition packageImports :: "load_package \<Rightarrow> package_import list" where
  "packageImports pkg =
     (if \<not> load_raw pkg then []
      else sort_by import_less (List.map_filter spec_import
             (concat (map (\<lambda>f. case f of None \<Rightarrow> [] | Some specs \<Rightarrow> specs) (load_files pkg)))))"

definition allowsDependency :: "app_module \<Rightarrow> string \<Rightarrow> string \<Rightarrow> bool" where
  "allowsDependency m targetModule targetInterface =
     list_ex (\<lambda>d. mdep_module d = targetModule \<and> mdep_interface d = targetInterface) (mod_allowed m)"

definition importedAPI :: "app_module \<Rightarrow> app_module \<Rightarrow> string \<Rightarrow> string \<times> bool \<times> bool" where
  "importedAPI source dest packagePath =
     (if packagePath = mod_root dest then ([], True, allowsDependency source (mod_id dest) [])
      else let names = sort_strings (map ni_name (filter (\<lambda>ni. ni_package ni = packagePath) (mod_interfaces dest)))
           in if names = [] then ([], False, False)
              else case find (allowsDependency source (mod_id dest)) names of
                     Some name \<Rightarrow> (name, True, True)
                   | None \<Rightarrow> (names ! 0, True, False))"

definition importDiagnostic :: "module_edge \<Rightarrow> string \<Rightarrow> string \<Rightarrow> module_diagnostic" where
  "importDiagnostic e kind message =
     \<lparr>mdiag_position = edge_position e, mdiag_physical = edge_physical e, mdiag_module = from_module e,
      mdiag_package = from_package e, mdiag_kind = kind, mdiag_message = message\<rparr>"

definition import_edge :: "app_module \<Rightarrow> app_module \<Rightarrow> string \<Rightarrow> package_import \<Rightarrow> module_edge" where
  "import_edge source dest packagePath imported =
     (let (api, exported, allowed) = importedAPI source dest (imp_path imported)
      in \<lparr>from_module = mod_id source, to_module = mod_id dest, from_package = packagePath,
          to_package = imp_path imported, edge_api = api, edge_exported = exported, edge_allowed = allowed,
          edge_position = imp_position imported, edge_physical = imp_physical imported\<rparr>)"

definition edge_diagnostics :: "module_edge \<Rightarrow> module_diagnostic list" where
  "edge_diagnostics e =
     (if \<not> edge_exported e
      then [importDiagnostic e ''internal-access''
        (''module '' @ from_module e @ '' package '' @ from_package e @ '' imports internal package '' @
         to_package e @ '' of module '' @ to_module e @
         ''; import the root API or a declared @NamedInterface package'')]
      else if \<not> edge_allowed e
      then [importDiagnostic e ''undeclared-dependency''
        (''module '' @ from_module e @ '' package '' @ from_package e @ '' imports '' @
         dependencyIdentity (to_module e) (edge_api e) @ '' through package '' @ to_package e @
         '' without declaring it in @Module allowedDependencies'')]
      else [])"

definition import_step ::
    "load_package \<Rightarrow> package_import \<Rightarrow> string set \<times> module_model \<Rightarrow> string set \<times> module_model" where
  "import_step pkg imported st =
     (let (seen, model) = st;
          key = load_path pkg @ [nul] @ imp_path imported
      in case (packageOwner model (load_path pkg), packageOwner model (imp_path imported)) of
           (Some i, Some j) \<Rightarrow>
             if i = j \<or> key \<in> seen then st
             else let e = import_edge (modules model ! i) (modules model ! j) (load_path pkg) imported
                  in (insert key seen,
                      model\<lparr>module_edges := module_edges model @ [e], mdiags := mdiags model @ edge_diagnostics e\<rparr>)
         | _ \<Rightarrow> st)"

definition discoverImportEdges :: "load_package list \<Rightarrow> module_model \<Rightarrow> module_model" where
  "discoverImportEdges pkgs model =
     snd (fold (\<lambda>pkg. fold (import_step pkg) (packageImports pkg)) pkgs ({}, model))"

section \<open>Cycles\<close>

definition add_arrow :: "module_edge \<Rightarrow> string set \<times> adjacency \<Rightarrow> string set \<times> adjacency" where
  "add_arrow e st =
     (let (seen, adj) = st; key = from_module e @ [nul] @ to_module e
      in if key \<in> seen then st
         else (insert key seen, AList.update (from_module e) (neighbours adj (from_module e) @ [to_module e]) adj))"

definition moduleAdjacency :: "app_module list \<Rightarrow> module_edge list \<Rightarrow> adjacency" where
  "moduleAdjacency mods edges =
     (let start = fold (\<lambda>m. AList.update (mod_id m) []) mods [];
          (seen, adj) = fold add_arrow edges ({}, start)
      in map (\<lambda>(v, vs). (v, sort_strings vs)) adj)"

definition cycle_diagnostic :: "app_module list \<Rightarrow> module_cycle \<Rightarrow> module_diagnostic" where
  "cycle_diagnostic mods c =
     (let m = (case find (\<lambda>m. mod_id m = cycle_members c ! 0) (rev mods) of
                 Some m \<Rightarrow> m
               | None \<Rightarrow> \<lparr>mod_id = [], mod_root = [], mod_go_module = [], mod_position = no_position,
                   mod_physical = no_position, mod_packages = [], mod_interfaces = [], mod_allowed = []\<rparr>)
      in \<lparr>mdiag_position = mod_position m, mdiag_physical = mod_physical m, mdiag_module = mod_id m,
          mdiag_package = mod_root m, mdiag_kind = ''module-cycle'',
          mdiag_message = ''module dependency cycle: '' @ join_with '' -> '' (cycle_path c)\<rparr>)"

definition discoverCycles :: "module_model \<Rightarrow> module_model" where
  "discoverCycles model =
     (let adj = moduleAdjacency (modules model) (module_edges model);
          found = map (\<lambda>c. \<lparr>cycle_members = c, cycle_path = cycle_through c adj\<rparr>)
            (filter (\<lambda>c. 2 \<le> length c) (stronglyConnectedComponents adj))
      in model\<lparr>module_cycles := module_cycles model @ found,
               mdiags := mdiags model @ map (cycle_diagnostic (modules model)) found\<rparr>)"

section \<open>Order\<close>

definition package_path_less :: "module_package \<Rightarrow> module_package \<Rightarrow> bool" where
  "package_path_less a b = (mpkg_path a < mpkg_path b)"

definition interface_less :: "named_interface \<Rightarrow> named_interface \<Rightarrow> bool" where
  "interface_less a b =
     (if ni_name a \<noteq> ni_name b then ni_name a < ni_name b else ni_package a < ni_package b)"

definition module_edge_less :: "module_edge \<Rightarrow> module_edge \<Rightarrow> bool" where
  "module_edge_less a b =
     (if from_module a \<noteq> from_module b then from_module a < from_module b
      else if to_module a \<noteq> to_module b then to_module a < to_module b
      else if from_package a \<noteq> from_package b then from_package a < from_package b
      else to_package a < to_package b)"

definition cycle_less :: "module_cycle \<Rightarrow> module_cycle \<Rightarrow> bool" where
  "cycle_less a b = (cycle_members a ! 0 < cycle_members b ! 0)"

definition module_diagnostic_less :: "module_diagnostic \<Rightarrow> module_diagnostic \<Rightarrow> bool" where
  "module_diagnostic_less a b =
     (if pos_filename (mdiag_physical a) \<noteq> pos_filename (mdiag_physical b)
      then pos_filename (mdiag_physical a) < pos_filename (mdiag_physical b)
      else if pos_offset (mdiag_physical a) \<noteq> pos_offset (mdiag_physical b)
      then pos_offset (mdiag_physical a) < pos_offset (mdiag_physical b)
      else if mdiag_kind a \<noteq> mdiag_kind b then mdiag_kind a < mdiag_kind b
      else mdiag_message a < mdiag_message b)"

definition sort_module :: "app_module \<Rightarrow> app_module" where
  "sort_module m = m\<lparr>mod_packages := sort_by package_path_less (mod_packages m),
     mod_interfaces := sort_by interface_less (mod_interfaces m),
     mod_allowed := sortDependencies (mod_allowed m)\<rparr>"

definition sortModel :: "module_model \<Rightarrow> module_model" where
  "sortModel model = model\<lparr>
     modules := sort_by module_less (map sort_module (modules model)),
     unassigned := sort_by package_path_less (unassigned model),
     module_edges := sort_by module_edge_less (module_edges model),
     module_cycles := sort_by cycle_less (module_cycles model),
     mdiags := sort_by module_diagnostic_less (mdiags model)\<rparr>"

definition claim_packages :: "nat \<Rightarrow> app_module \<Rightarrow> (string \<Rightarrow> nat option) \<Rightarrow> string \<Rightarrow> nat option" where
  "claim_packages i m owner = fold (\<lambda>p owner. owner(mpkg_path p := Some i)) (mod_packages m) owner"

definition rebuildPackageOwners :: "module_model \<Rightarrow> module_model" where
  "rebuildPackageOwners model = model\<lparr>packageOwner :=
     fold (\<lambda>(i, m). claim_packages i m)
       (List.enumerate 0 (modules model)) (\<lambda>p. None)\<rparr>"

section \<open>Build, Owner and Focus\<close>

text \<open>A program is the list of its packages, the resolution its diagnostics and occurrences.\<close>

definition PrimaryPackages :: "load_package list \<Rightarrow> load_package list" where
  "PrimaryPackages program = filter (\<lambda>p. \<not> load_auxiliary p) program"

definition failed_model :: "string \<Rightarrow> string \<Rightarrow> module_model" where
  "failed_model kind message = empty_model\<lparr>mdiags := [\<lparr>mdiag_position = no_position,
     mdiag_physical = no_position, mdiag_module = [], mdiag_package = [], mdiag_kind = kind,
     mdiag_message = message\<rparr>]\<rparr>"

definition BuildWithUniverse ::
    "unicode_tables \<Rightarrow> load_package list option \<Rightarrow> string list \<Rightarrow> occurrence list \<Rightarrow> universe \<Rightarrow> module_model" where
  "BuildWithUniverse U program resolutionDiagnostics occs uni =
     (case program of
        None \<Rightarrow> failed_model ''internal'' ''module discovery requires a loaded program''
      | Some program \<Rightarrow>
          if resolutionDiagnostics \<noteq> []
          then failed_model ''resolution'' ''module discovery requires annotation resolution without diagnostics''
          else let primary = PrimaryPackages program;
                   index = packageIndex primary;
                   (mods, diags) = discoverModules U occs index;
                   model = empty_model\<lparr>modules := mods, mdiags := diags\<rparr>;
                   model = assignPackages index model;
                   model = discoverNamedInterfaces U occs index model;
                   model = validateDependencies uni model;
                   model = discoverImportEdges primary model;
                   model = discoverCycles model
               in rebuildPackageOwners (sortModel model))"

definition Build_modules ::
    "unicode_tables \<Rightarrow> load_package list option \<Rightarrow> string list \<Rightarrow> occurrence list \<Rightarrow> module_model" where
  "Build_modules U program resolutionDiagnostics occs =
     BuildWithUniverse U program resolutionDiagnostics occs (\<lambda>m. None)"

definition Owner :: "module_model \<Rightarrow> string \<Rightarrow> app_module option" where
  "Owner model packagePath =
     (case packageOwner model packagePath of
        None \<Rightarrow> None
      | Some i \<Rightarrow> if i \<ge> length (modules model) then None else Some (modules model ! i))"

definition cycleIncluded :: "module_cycle \<Rightarrow> string list \<Rightarrow> bool" where
  "cycleIncluded c included = list_all (\<lambda>m. m \<in> set included) (cycle_members c)"

definition Focus :: "unicode_tables \<Rightarrow> module_model \<Rightarrow> string \<Rightarrow> module_model go_result" where
  "Focus U model moduleID =
     (if \<not> list_ex (\<lambda>m. mod_id m = moduleID) (modules model)
      then Inl (''focus module '' @ quote U moduleID @ '' was not found'')
      else case focusedDependencyOrder moduleID (moduleAdjacency (modules model) (module_edges model)) of
        Inl e \<Rightarrow> Inl e
      | Inr order \<Rightarrow>
          Inr (rebuildPackageOwners (sortModel (empty_model\<lparr>
            focus_id := moduleID, dependency_order := order,
            modules := filter (\<lambda>m. mod_id m \<in> set order) (modules model),
            module_edges := filter (\<lambda>e. from_module e \<in> set order \<and> to_module e \<in> set order) (module_edges model),
            module_cycles := filter (\<lambda>c. cycleIncluded c order) (module_cycles model)\<rparr>))))"

end
