(* ===== verification/Modulith_Stages.thy ===== *)
theory Modulith_Stages
  imports Modulith
begin

text \<open>
  What each stage of the module discovery establishes and what it leaves alone: the identities of
  the modules, the owner of every package, the interfaces and the kinds of diagnostics.
\<close>

section \<open>Packages and modules\<close>

lemma packageIndex_fold:
  "map_of (fold (\<lambda>p. AList.update (load_path p) p) pkgs m) k = Some pkg \<Longrightarrow>
     map_of m k = Some pkg \<or> pkg \<in> set pkgs \<and> load_path pkg = k"
  by (induction pkgs arbitrary: m) (fastforce simp: update_conv' split: if_splits)+

lemma packageIndex_Some:
  "map_of (packageIndex pkgs) k = Some pkg \<Longrightarrow> pkg \<in> set pkgs \<and> load_path pkg = k"
  using packageIndex_fold [of pkgs "[]" k pkg] by (simp add: packageIndex_def)

lemma packageIndex_dom: "dom (map_of (packageIndex pkgs)) = load_path ` set pkgs"
proof -
  have "dom (map_of (fold (\<lambda>p. AList.update (load_path p) p) pkgs m)) = dom (map_of m) \<union> load_path ` set pkgs" for m
    by (induction pkgs arbitrary: m) (auto simp: update_conv')
  then show ?thesis by (simp add: packageIndex_def)
qed

lemma packageIndex_distinct:
  assumes "distinct (map load_path pkgs)" "pkg \<in> set pkgs"
  shows "map_of (packageIndex pkgs) (load_path pkg) = Some pkg"
proof -
  obtain p where p: "map_of (packageIndex pkgs) (load_path pkg) = Some p"
    using packageIndex_dom [of pkgs] assms(2) by blast
  then have "p \<in> set pkgs" "load_path p = load_path pkg" using packageIndex_Some by blast+
  then show ?thesis using p assms by (metis distinct_map inj_on_def)
qed

definition arch_kinds :: "string set" where
  "arch_kinds = {''internal-access'', ''undeclared-dependency'', ''module-cycle''}"

definition calm :: "module_diagnostic list \<Rightarrow> bool" where
  "calm ds = (\<forall>d \<in> set ds. mdiag_kind d \<notin> arch_kinds)"

lemma calm_simps [simp]: "calm []" "calm (ds @ es) \<longleftrightarrow> calm ds \<and> calm es"
  "calm (d # ds) \<longleftrightarrow> mdiag_kind d \<notin> arch_kinds \<and> calm ds"
  by (auto simp: calm_def)

lemma kind_occurrence [simp]: "mdiag_kind (occurrenceDiagnostic occ kind message) = kind"
  by (simp add: occurrenceDiagnostic_def)

lemma kind_dependency [simp]: "mdiag_kind (dependencyDiagnostic m d kind message) = kind"
  by (simp add: dependencyDiagnostic_def)

lemma dependency_values_calm:
  "calm diags \<Longrightarrow> calm (snd (dependency_values U occ vals seen deps diags))"
  by (induction U occ vals seen deps diags rule: dependency_values.induct)
    (auto simp: arch_kinds_def split: sum.splits)

lemma string_items_calm: "calm (snd (string_items occ i items))"
  by (induction occ i items rule: string_items.induct)
    (auto simp: arch_kinds_def split: annotation_value.splits prod.splits)

lemma parseDependencyValues_calm: "calm (snd (parseDependencyValues U occ vals))"
  using dependency_values_calm [of "[]" U occ vals "{}" "[]"]
  by (auto simp: parseDependencyValues_def split: prod.splits)

lemma parseDependencies_calm: "calm (snd (parseDependencies U occ))"
proof -
  have vals: "parseDependencyValues U occ vals = (deps, ds) \<Longrightarrow> calm ds" for vals deps ds
    using parseDependencyValues_calm [of U occ vals] by simp
  have items: "string_items occ 0 items = (vals, ds) \<Longrightarrow> calm ds" for items vals ds
    using string_items_calm [of occ 0 items] by simp
  show ?thesis
    by (auto simp: parseDependencies_def arch_kinds_def Let_def parseDependencyValues_calm dest: vals items
        split: option.splits contribution.splits list.splits annotation_value.splits prod.splits)
qed

definition discovered :: "package_index \<Rightarrow> discovery \<Rightarrow> bool" where
  "discovered index st =
     (let (seen, mods, diags) = st
      in calm diags \<and> distinct (map mod_id mods) \<and>
         (\<forall>m \<in> set mods. seen (mod_id m) \<noteq> None \<and> mod_root m = mod_id m \<and> mod_packages m = [] \<and>
            mod_interfaces m = [] \<and>
            (\<exists>pkg. map_of index (mod_id m) = Some pkg \<and> mod_go_module m = load_module_path pkg)))"

lemma discovered_start: "discovered index (\<lambda>p. None, [], [])"
  by (simp add: discovered_def)

lemma discover_module_discovered:
  assumes index: "\<And>k pkg. map_of index k = Some pkg \<Longrightarrow> load_path pkg = k"
    and "discovered index st"
  shows "discovered index (discover_module U index occ st)"
  using assms(2) parseDependencies_calm [of U occ] index [of "occ_package occ"]
  by (auto simp: discovered_def discover_module_def new_module_def arch_kinds_def Let_def
      split: prod.splits option.splits)

interpretation module_order: keyed_comparator module_less mod_id
  by unfold_locales (simp add: module_less_def)

lemma discoverModules_facts:
  assumes "discoverModules U occs (packageIndex pkgs) = (mods, diags)"
  shows "calm diags" "distinct (map mod_id mods)" "sorted (map mod_id mods)"
    "\<And>m. m \<in> set mods \<Longrightarrow> mod_root m = mod_id m \<and> mod_packages m = [] \<and> mod_interfaces m = [] \<and>
       mod_id m \<in> load_path ` set pkgs"
proof -
  let ?index = "packageIndex pkgs"
  have "discovered ?index (fold (discover_module U ?index) occs st)" if "discovered ?index st" for st
    using that
  proof (induction occs arbitrary: st)
    case (Cons occ occs)
    have "discovered ?index (discover_module U ?index occ st)"
      using packageIndex_Some [of pkgs] by (intro discover_module_discovered Cons.prems) blast
    then show ?case using Cons.IH by simp
  qed simp
  moreover obtain seen mods' where run: "fold (discover_module U ?index) occs (\<lambda>p. None, [], []) = (seen, mods', diags)"
      "mods = sort_by module_less mods'"
    using assms by (auto simp: discoverModules_def split: prod.splits)
  ultimately have d: "discovered ?index (seen, mods', diags)"
    by (metis discovered_start)
  have "mset (map mod_id mods) = mset (map mod_id mods')" unfolding run(2) by (metis mset_map mset_sort_by)
  then show "distinct (map mod_id mods)" using d mset_eq_imp_distinct_iff by (fastforce simp: discovered_def)
  show "calm diags" using d by (simp add: discovered_def)
  show "sorted (map mod_id mods)"
    using module_order.sorted_sort_by [of mods'] run(2) by (simp add: module_order.sorted_by_key)
  show "mod_root m = mod_id m \<and> mod_packages m = [] \<and> mod_interfaces m = [] \<and> mod_id m \<in> load_path ` set pkgs"
    if "m \<in> set mods" for m
    using d that run(2) packageIndex_dom [of pkgs] by (fastforce simp: discovered_def)
qed

section \<open>Ownership\<close>

definition skeleton :: "app_module \<Rightarrow> string \<times> string \<times> string \<times> module_dependency list" where
  "skeleton m = (mod_id m, mod_root m, mod_go_module m, mod_allowed m)"

lemma skeleton_updates [simp]:
  "skeleton (m\<lparr>mod_packages := ps\<rparr>) = skeleton m" "skeleton (m\<lparr>mod_interfaces := is\<rparr>) = skeleton m"
  by (simp_all add: skeleton_def)

definition best_owner :: "app_module list \<Rightarrow> load_package \<Rightarrow> nat \<Rightarrow> nat option \<Rightarrow> bool" where
  "best_owner mods pkg i owner =
     (case owner of
        None \<Rightarrow> \<forall>j < i. \<not> owns (mods ! j) pkg
      | Some k \<Rightarrow> k < i \<and> owns (mods ! k) pkg \<and>
          (\<forall>j < i. owns (mods ! j) pkg \<longrightarrow> length (mod_root (mods ! j)) \<le> length (mod_root (mods ! k))))"

lemma owner_loop_best:
  "rest = drop i mods \<Longrightarrow> i \<le> length mods \<Longrightarrow> best_owner mods pkg i owner \<Longrightarrow>
     best_owner mods pkg (length mods) (owner_loop mods pkg rest i owner)"
proof (induction rest arbitrary: i owner)
  case (Cons m rest)
  have i: "i < length mods" "m = mods ! i" "rest = drop (i + 1) mods"
    using Cons.prems(1,2) by (metis drop_all linorder_not_less list.distinct(1), metis nth_via_drop,
        metis Suc_eq_plus1 drop_Suc list.sel(3) tl_drop)
  have "best_owner mods pkg (i + 1) (if \<not> owns m pkg then owner
      else case owner of None \<Rightarrow> Some i
         | Some k \<Rightarrow> if length (mod_root m) > length (mod_root (mods ! k)) then Some i else owner)"
    using Cons.prems(3) i by (auto simp: best_owner_def less_Suc_eq split: option.splits)
  then show ?case using Cons.IH [OF i(3)] i(1) by simp
qed simp

lemma ownerIndex_best: "best_owner mods pkg (length mods) (ownerIndex mods pkg)"
  unfolding ownerIndex_def by (rule owner_loop_best) (simp_all add: best_owner_def)

lemma ownerIndex_less: "ownerIndex mods pkg = Some i \<Longrightarrow> i < length mods"
  using ownerIndex_best [of mods pkg] by (simp add: best_owner_def)

lemma owner_loop_cong:
  assumes "map skeleton mods = map skeleton mods'" "map skeleton rest = map skeleton rest'"
    and "case owner of None \<Rightarrow> True | Some k \<Rightarrow> k < length mods" "i + length rest = length mods"
  shows "owner_loop mods pkg rest i owner = owner_loop mods' pkg rest' i owner"
  using assms(2-4)
proof (induction rest arbitrary: rest' i owner)
  case (Cons m rest)
  then obtain m' rest'' where r: "rest' = m' # rest''" "skeleton m = skeleton m'"
      "map skeleton rest = map skeleton rest''"
    by auto
  have owns: "owns m pkg = owns m' pkg" and root: "mod_root m = mod_root m'"
    using r(2) by (simp_all add: skeleton_def owns_def)
  have "mod_root (mods ! k) = mod_root (mods' ! k)" if "k < length mods" for k
    using that assms(1) by (metis length_map nth_map prod.inject skeleton_def)
  then show ?case
    using Cons.IH [OF r(3)] Cons.prems(2,3) r(1) owns root by (auto split: option.splits)
qed simp

lemma ownerIndex_cong: "map skeleton mods = map skeleton mods' \<Longrightarrow> ownerIndex mods pkg = ownerIndex mods' pkg"
  unfolding ownerIndex_def by (rule owner_loop_cong) simp_all

definition assigned ::
    "app_module list \<Rightarrow> package_index \<Rightarrow> string set \<Rightarrow> module_model \<Rightarrow> module_model \<Rightarrow> bool" where
  "assigned mods index keys model0 model =
     (map skeleton (modules model) = map skeleton mods \<and>
      map mod_interfaces (modules model) = map mod_interfaces mods \<and>
      (\<forall>p. packageOwner model p =
         (if p \<in> keys then Option.bind (map_of index p) (ownerIndex mods) else None)) \<and>
      (\<forall>i < length mods. mpkg_path ` set (mod_packages (modules model ! i)) =
         {p. packageOwner model p = Some i}) \<and>
      mdiags model = mdiags model0 \<and> module_edges model = module_edges model0 \<and>
      module_cycles model = module_cycles model0)"

lemma assign_package_assigned:
  assumes "assigned mods index keys model0 model" "map_of index (load_path pkg) = Some pkg"
    and "load_path pkg \<notin> keys"
  shows "assigned mods index (insert (load_path pkg) keys) model0 (assign_package pkg model)"
proof -
  have sk: "map skeleton (modules model) = map skeleton mods" using assms(1) by (simp add: assigned_def)
  then have len: "length (modules model) = length mods" by (metis length_map)
  have o: "ownerIndex (modules model) pkg = ownerIndex mods pkg" by (rule ownerIndex_cong [OF sk])
  show ?thesis
  proof (cases "ownerIndex mods pkg")
    case None
    then have "modules (assign_package pkg model) = modules model"
        "packageOwner (assign_package pkg model) = packageOwner model"
        "mdiags (assign_package pkg model) = mdiags model"
        "module_edges (assign_package pkg model) = module_edges model"
        "module_cycles (assign_package pkg model) = module_cycles model"
      using o by (simp_all add: assign_package_def)
    then show ?thesis using assms None by (simp add: assigned_def)
  next
    case (Some i)
    have i: "i < length mods" by (rule ownerIndex_less [OF Some])
    let ?m = "(modules model ! i)\<lparr>mod_packages := mod_packages (modules model ! i) @ [package_item (modules model) pkg]\<rparr>"
    have eq: "assign_package pkg model = model\<lparr>modules := (modules model)[i := ?m],
        packageOwner := (packageOwner model)(load_path pkg := Some i)\<rparr>"
      using Some o by (simp add: assign_package_def Let_def)
    have "map skeleton ((modules model)[i := ?m]) = map skeleton (modules model)"
      "map mod_interfaces ((modules model)[i := ?m]) = map mod_interfaces (modules model)"
      using i len by (simp_all add: map_update list_update_same_conv)
    moreover have "packageOwner model (load_path pkg) = None" using assms(1,3) by (simp add: assigned_def)
    then have "mpkg_path ` set (mod_packages ((modules model)[i := ?m] ! j)) =
        {p. ((packageOwner model)(load_path pkg := Some i)) p = Some j}" if "j < length mods" for j
      using that i len assms(1) by (cases "j = i") (auto simp: assigned_def package_item_def)
    ultimately show ?thesis using assms(1,2) Some i unfolding eq by (auto simp: assigned_def)
  qed
qed

lemma assignPackages_assigned:
  assumes "distinct (map fst index)" "\<And>k pkg. map_of index k = Some pkg \<Longrightarrow> load_path pkg = k"
    and "\<And>m. m \<in> set (modules model) \<Longrightarrow> mod_packages m = []" "packageOwner model = (\<lambda>p. None)"
  shows "assigned (modules model) index (set (map fst index)) model (assignPackages index model)"
proof -
  let ?f = "\<lambda>p model. case map_of index p of Some pkg \<Rightarrow> assign_package pkg model | None \<Rightarrow> model"
  have "assigned mods index (keys \<union> set ks) model0 (fold ?f ks model')"
    if "assigned mods index keys model0 model'" "distinct ks" "set ks \<inter> keys = {}" "set ks \<subseteq> dom (map_of index)"
    for mods keys model0 model' ks
    using that
  proof (induction ks arbitrary: keys model')
    case (Cons k ks)
    then obtain pkg where pkg: "map_of index k = Some pkg" by auto
    then have k: "load_path pkg = k" by (rule assms(2))
    have "assigned mods index (insert k keys) model0 (assign_package pkg model')"
      using assign_package_assigned [OF Cons.prems(1), of pkg] pkg k Cons.prems(3) by simp
    then show ?case using Cons.IH [of "insert k keys"] Cons.prems pkg by (auto simp: Un_commute)
  qed simp
  moreover have "assigned (modules model) index {} model model"
    using assms(3,4) by (auto simp: assigned_def)
  moreover have "set (map fst index) \<subseteq> dom (map_of index)" by (auto simp: dom_map_of_conv_image_fst)
  ultimately show ?thesis
    using assms(1) unfolding assignPackages_def
    by (metis (no_types, lifting) distinct_sort_by inf_bot_right set_sort_by sup_bot_left)
qed

section \<open>Interfaces and declared dependencies\<close>

text \<open>What the later stages keep.\<close>

definition same_frame :: "module_model \<Rightarrow> module_model \<Rightarrow> bool" where
  "same_frame model model' =
     (map skeleton (modules model') = map skeleton (modules model) \<and>
      map mod_packages (modules model') = map mod_packages (modules model) \<and>
      packageOwner model' = packageOwner model \<and> module_edges model' = module_edges model \<and>
      module_cycles model' = module_cycles model)"

lemma same_frame_refl [simp]: "same_frame model model"
  by (simp add: same_frame_def)

lemma same_frame_trans: "same_frame a b \<Longrightarrow> same_frame b c \<Longrightarrow> same_frame a c"
  by (simp add: same_frame_def)

lemma validateNamedInterfaceName_kind:
  "validateNamedInterfaceName U occ name = Inl d \<Longrightarrow> mdiag_kind d \<notin> arch_kinds"
  by (auto simp: validateNamedInterfaceName_def arch_kinds_def split: if_splits)

lemma namedInterfaceName_kind: "namedInterfaceName U occ = Inl d \<Longrightarrow> mdiag_kind d \<notin> arch_kinds"
  by (auto simp: namedInterfaceName_def dest: validateNamedInterfaceName_kind
      split: option.splits contribution.splits list.splits) (auto simp: arch_kinds_def)

lemma add_interface_frame: "same_frame model (add_interface i ni model)"
proof (cases "i < length (modules model)")
  case True
  then show ?thesis
    by (simp add: same_frame_def add_interface_def map_update list_update_same_conv)
qed (simp add: same_frame_def add_interface_def list_update_beyond)

lemma discover_interface_frame:
  assumes "discover_interface U index occ (seen, model) = (seen', model')" "calm (mdiags model)"
  shows "same_frame model model' \<and> calm (mdiags model')"
proof -
  have added: "same_frame model (add_diagnostic d model)" for d
    by (simp add: same_frame_def add_diagnostic_def)
  show ?thesis
    using assms added add_interface_frame [of model]
    by (auto simp: discover_interface_def Let_def add_diagnostic_def arch_kinds_def add_interface_def
        dest: namedInterfaceName_kind split: if_splits sum.splits option.splits)
qed

lemma discoverNamedInterfaces_frame:
  assumes "calm (mdiags model)"
  shows "same_frame model (discoverNamedInterfaces U occs index model)"
    "calm (mdiags (discoverNamedInterfaces U occs index model))"
proof -
  have "same_frame model (snd (fold (discover_interface U index) occs (seen, model))) \<and>
      calm (mdiags (snd (fold (discover_interface U index) occs (seen, model))))" for seen
    using assms
  proof (induction occs arbitrary: seen model)
    case (Cons occ occs)
    obtain seen' model' where step: "discover_interface U index occ (seen, model) = (seen', model')" by fastforce
    then have "same_frame model model'" "calm (mdiags model')"
      using discover_interface_frame [OF step Cons.prems] by auto
    then show ?case using Cons.IH [of model' seen'] step by (auto intro: same_frame_trans)
  qed simp
  then show "same_frame model (discoverNamedInterfaces U occs index model)"
    "calm (mdiags (discoverNamedInterfaces U occs index model))"
    by (simp_all add: discoverNamedInterfaces_def)
qed

lemma validateDependencies_frame:
  assumes "calm (mdiags model)"
  shows "same_frame model (validateDependencies uni model)" "calm (mdiags (validateDependencies uni model))"
    "modules (validateDependencies uni model) = modules model"
proof -
  have "calm (check_dependency known m d)" for known m d
    by (auto simp: check_dependency_def arch_kinds_def split: option.splits)
  then have "calm (concat (map (\<lambda>m. concat (map (check_dependency known m) (mod_allowed m))) ms))" for known ms
    by (auto simp: calm_def)
  then show "calm (mdiags (validateDependencies uni model))"
    using assms by (simp add: validateDependencies_def Let_def)
  show "same_frame model (validateDependencies uni model)" "modules (validateDependencies uni model) = modules model"
    by (simp_all add: validateDependencies_def same_frame_def Let_def)
qed

section \<open>Import edges\<close>

text \<open>The imports of a package that cross modules, given the owners.\<close>

definition crosses :: "(string \<Rightarrow> nat option) \<Rightarrow> string \<Rightarrow> string \<Rightarrow> nat \<Rightarrow> nat \<Rightarrow> bool" where
  "crosses owner source dest i j = (owner source = Some i \<and> owner dest = Some j \<and> i \<noteq> j)"

definition justified ::
    "app_module list \<Rightarrow> (string \<Rightarrow> nat option) \<Rightarrow> (string \<times> package_import) set \<Rightarrow> module_edge \<Rightarrow> bool" where
  "justified mods owner pairs e =
     (\<exists>k imp i j. (k, imp) \<in> pairs \<and> crosses owner k (imp_path imp) i j \<and>
        e = import_edge (mods ! i) (mods ! j) k imp)"

definition present :: "(string \<Rightarrow> nat option) \<Rightarrow> module_edge list \<Rightarrow> string \<Rightarrow> package_import \<Rightarrow> bool" where
  "present owner edges k imp =
     (\<forall>i j. crosses owner k (imp_path imp) i j \<longrightarrow>
        (\<exists>e \<in> set edges. from_package e = k \<and> to_package e = imp_path imp))"

definition edges_of :: "app_module list \<Rightarrow> (string \<Rightarrow> nat option) \<Rightarrow> (string \<times> package_import) set
    \<Rightarrow> string set \<Rightarrow> module_edge list \<Rightarrow> module_diagnostic list \<Rightarrow> bool" where
  "edges_of mods owner pairs seen edges diags =
     (seen = (\<lambda>e. from_package e @ [nul] @ to_package e) ` set edges \<and>
      diags = concat (map edge_diagnostics edges) \<and>
      (\<forall>e \<in> set edges. justified mods owner pairs e) \<and>
      (\<forall>k imp. (k, imp) \<in> pairs \<longrightarrow> present owner edges k imp))"

lemma justified_insert: "justified mods owner pairs e \<Longrightarrow> justified mods owner (insert x pairs) e"
  unfolding justified_def by blast

lemma present_append: "present owner edges k imp \<Longrightarrow> present owner (edges @ [e]) k imp"
  unfolding present_def by auto

lemma import_edge_fields [simp]:
  "from_module (import_edge s d k imp) = mod_id s" "to_module (import_edge s d k imp) = mod_id d"
  "from_package (import_edge s d k imp) = k" "to_package (import_edge s d k imp) = imp_path imp"
  by (simp_all add: import_edge_def split: prod.splits)

lemma append_key_inj:
  assumes "nul \<notin> set a" "nul \<notin> set c" "a @ [nul] @ b = c @ [nul] @ d"
  shows "a = c \<and> b = d"
  using assms by (induction a arbitrary: c) (auto simp: append_eq_Cons_conv Cons_eq_append_conv)

definition edges_found ::
    "module_model \<Rightarrow> (string \<times> package_import) set \<Rightarrow> string set \<times> module_model \<Rightarrow> bool" where
  "edges_found model0 pairs st =
     (modules (snd st) = modules model0 \<and> packageOwner (snd st) = packageOwner model0 \<and>
      module_cycles (snd st) = module_cycles model0 \<and>
      (\<exists>ds. mdiags (snd st) = mdiags model0 @ ds \<and>
         edges_of (modules model0) (packageOwner model0) pairs (fst st) (module_edges (snd st)) ds))"

lemma edges_of_skip:
  assumes "edges_of mods owner pairs seen edges ds" "present owner edges k imp"
  shows "edges_of mods owner (insert (k, imp) pairs) seen edges ds"
  using assms justified_insert unfolding edges_of_def by auto

lemma edges_of_add:
  assumes "edges_of mods owner pairs seen edges ds" "crosses owner k (imp_path imp) i j"
  defines "e \<equiv> import_edge (mods ! i) (mods ! j) k imp"
  shows "edges_of mods owner (insert (k, imp) pairs) (insert (k @ [nul] @ imp_path imp) seen)
    (edges @ [e]) (ds @ edge_diagnostics e)"
proof -
  have "justified mods owner (insert (k, imp) pairs) e" using assms(2) unfolding justified_def e_def by blast
  moreover have "present owner (edges @ [e]) k imp" unfolding present_def e_def by simp
  ultimately show ?thesis
    using assms(1) justified_insert present_append unfolding edges_of_def by (auto simp: e_def)
qed

lemma import_step_found:
  assumes "edges_found model0 pairs st" "\<And>p i. packageOwner model0 p = Some i \<Longrightarrow> nul \<notin> set p"
  shows "edges_found model0 (insert (load_path pkg, imp) pairs) (import_step pkg imp st)"
proof -
  obtain seen model where st: "st = (seen, model)" by fastforce
  let ?k = "load_path pkg" and ?o = "packageOwner model0"
  obtain ds where f: "modules model = modules model0" "packageOwner model = ?o" "module_cycles model = module_cycles model0"
      "mdiags model = mdiags model0 @ ds" "edges_of (modules model0) ?o pairs seen (module_edges model) ds"
    using assms(1) by (auto simp: edges_found_def st)
  let ?key = "?k @ [nul] @ imp_path imp"
  show ?thesis
  proof (cases "\<exists>i j. crosses ?o ?k (imp_path imp) i j \<and> ?key \<notin> seen")
    case True
    then obtain i j where c: "crosses ?o ?k (imp_path imp) i j" "?key \<notin> seen" by blast
    let ?e = "import_edge (modules model0 ! i) (modules model0 ! j) ?k imp"
    have "import_step pkg imp st = (insert ?key seen, model\<lparr>module_edges := module_edges model @ [?e],
        mdiags := mdiags model @ edge_diagnostics ?e\<rparr>)"
      using c f(1,2) by (simp add: import_step_def st crosses_def Let_def)
    moreover have "edges_of (modules model0) ?o (insert (?k, imp) pairs) (insert ?key seen)
        (module_edges model @ [?e]) (ds @ edge_diagnostics ?e)"
      by (rule edges_of_add [OF f(5) c(1)])
    ultimately show ?thesis using f by (auto simp: edges_found_def)
  next
    case False
    have "present ?o (module_edges model) ?k imp"
      unfolding present_def
    proof (intro allI impI)
      fix i j
      assume that: "crosses ?o ?k (imp_path imp) i j"
      have "?key \<in> seen" using False that by blast
      then obtain e where e: "e \<in> set (module_edges model)" "?key = from_package e @ [nul] @ to_package e"
        using f(5) by (auto simp: edges_of_def)
      then have "justified (modules model0) ?o pairs e" using f(5) by (simp add: edges_of_def)
      then obtain x y where "crosses ?o (from_package e) (to_package e) x y" by (auto simp: justified_def)
      then show "\<exists>e \<in> set (module_edges model). from_package e = ?k \<and> to_package e = imp_path imp"
        using append_key_inj [OF _ _ e(2)] assms(2) that e(1) by (auto simp: crosses_def)
    qed
    moreover have "import_step pkg imp st = st"
      using False f(2) by (auto simp: import_step_def st crosses_def Let_def split: option.splits)
    ultimately show ?thesis using f edges_of_skip [OF f(5)] by (auto simp: edges_found_def st)
  qed
qed

definition import_pairs :: "load_package list \<Rightarrow> (string \<times> package_import) set" where
  "import_pairs pkgs = {(load_path pkg, imp) | pkg imp. pkg \<in> set pkgs \<and> imp \<in> set (packageImports pkg)}"

lemma discoverImportEdges_found:
  assumes "module_edges model = []" "\<And>p i. packageOwner model p = Some i \<Longrightarrow> nul \<notin> set p"
  shows "\<exists>seen. edges_found model (import_pairs pkgs) (seen, discoverImportEdges pkgs model)"
proof -
  have one: "edges_found model (pairs \<union> Pair (load_path pkg) ` set imps) (fold (import_step pkg) imps st)"
    if "edges_found model pairs st" for pairs pkg imps st
    using that
  proof (induction imps arbitrary: pairs st)
    case (Cons imp imps)
    have "edges_found model (insert (load_path pkg, imp) pairs) (import_step pkg imp st)"
      by (rule import_step_found [OF Cons.prems assms(2)])
    from Cons.IH [OF this] show ?case by simp
  qed simp
  have all: "edges_found model (pairs \<union> import_pairs pkgs)
      (fold (\<lambda>pkg. fold (import_step pkg) (packageImports pkg)) pkgs st)"
    if "edges_found model pairs st" for pairs st
    using that
  proof (induction pkgs arbitrary: pairs st)
    case (Cons pkg pkgs)
    have "import_pairs (pkg # pkgs) = Pair (load_path pkg) ` set (packageImports pkg) \<union> import_pairs pkgs"
      by (auto simp: import_pairs_def)
    then show ?case using Cons.IH [OF one [OF Cons.prems]] by (simp add: Un_assoc)
  qed (simp add: import_pairs_def)
  have "edges_found model {} ({}, model)"
    using assms(1) by (simp add: edges_found_def edges_of_def)
  from all [OF this] show ?thesis unfolding discoverImportEdges_def
    by (intro exI [of _ "fst (fold (\<lambda>pkg. fold (import_step pkg) (packageImports pkg)) pkgs ({}, model))"]) simp
qed

section \<open>The module graph\<close>

lemma neighbours_update:
  "neighbours (AList.update k vs adj) v = (if v = k then vs else neighbours adj v)"
  by (simp add: neighbours_def update_conv')

definition arrows_added :: "string list \<Rightarrow> module_edge set \<Rightarrow> string set \<times> adjacency \<Rightarrow> bool" where
  "arrows_added ids edges st =
     (fst st = (\<lambda>e. from_module e @ [nul] @ to_module e) ` edges \<and>
      arrows (snd st) = (\<lambda>e. (from_module e, to_module e)) ` edges \<and>
      distinct (map fst (snd st)) \<and> fst ` set (snd st) = set ids)"

lemma add_arrow_added:
  assumes "arrows_added ids edges st" "from_module e \<in> set ids"
    and "\<And>e'. e' \<in> insert e edges \<Longrightarrow> nul \<notin> set (from_module e')"
  shows "arrows_added ids (insert e edges) (add_arrow e st)"
proof -
  obtain seen adj where st: "st = (seen, adj)" by fastforce
  let ?key = "from_module e @ [nul] @ to_module e"
  show ?thesis
  proof (cases "?key \<in> seen")
    case True
    then obtain e' where e': "e' \<in> edges" "?key = from_module e' @ [nul] @ to_module e'"
      using assms(1) by (auto simp: arrows_added_def st)
    have "from_module e = from_module e' \<and> to_module e = to_module e'"
      by (rule append_key_inj [OF _ _ e'(2)]) (use assms(3) e'(1) in auto)
    then show ?thesis
      using assms(1) True e'(1) by (auto simp: arrows_added_def add_arrow_def st image_iff)
  next
    case False
    let ?adj = "AList.update (from_module e) (neighbours adj (from_module e) @ [to_module e]) adj"
    have "arrows ?adj = insert (from_module e, to_module e) (arrows adj)"
      by (auto simp: arrows_def neighbours_update split: if_splits)
    moreover have "distinct (map fst ?adj)" "fst ` set ?adj = set ids"
      using assms(1,2) by (auto simp: arrows_added_def st distinct_update dom_update)
    ultimately show ?thesis
      using assms(1) False by (simp add: arrows_added_def add_arrow_def st)
  qed
qed

end
