(* ===== verification/Modulith_Laws.thy ===== *)
theory Modulith_Laws
  imports Modulith_Stages
begin

text \<open>
  The architecture rules that \<open>BuildWithUniverse\<close> enforces, stated over the model it returns: which
  imports are permitted, when a cycle is reported, which module owns a package.
\<close>

section \<open>The module graph\<close>

lemma neighbours_sorted: "neighbours (map (\<lambda>(v, vs). (v, sort_strings vs)) adj) v = sort_strings (neighbours adj v)"
  by (induction adj) (auto simp: neighbours_def)

lemma moduleAdjacency_facts:
  assumes edges: "\<And>e. e \<in> set edges \<Longrightarrow> from_module e \<in> mod_id ` set mods \<and> to_module e \<in> mod_id ` set mods"
    and nul: "\<And>m. m \<in> set mods \<Longrightarrow> nul \<notin> set (mod_id m)"
  defines "adj \<equiv> moduleAdjacency mods edges"
  shows "arrows adj = (\<lambda>e. (from_module e, to_module e)) ` set edges" "distinct (map fst adj)"
    "fst ` set adj = mod_id ` set mods" "closed_in (map fst adj) adj"
proof -
  let ?start = "fold (\<lambda>m. AList.update (mod_id m) ([] :: string list)) mods []"
  have start: "arrows (fold (\<lambda>m. AList.update (mod_id m) []) ms adj0) = {} \<and>
      distinct (map fst (fold (\<lambda>m. AList.update (mod_id m) []) ms adj0)) \<and>
      fst ` set (fold (\<lambda>m. AList.update (mod_id m) []) ms adj0) = fst ` set adj0 \<union> mod_id ` set ms"
    if "arrows adj0 = {}" "distinct (map fst adj0)" for ms and adj0 :: adjacency
    using that
  proof (induction ms arbitrary: adj0)
    case (Cons m ms)
    have "arrows (AList.update (mod_id m) [] adj0) = {}"
      using Cons.prems(1) by (auto simp: arrows_def neighbours_update)
    from Cons.IH [OF this] show ?case using Cons.prems(2) by (auto simp: distinct_update dom_update)
  qed simp
  have s: "arrows_added (map mod_id mods) {} ({}, ?start)"
    using start [of "[]" mods] by (auto simp: arrows_added_def arrows_def neighbours_def)
  have run: "arrows_added (map mod_id mods) (es \<union> set rest) (fold add_arrow rest st)"
    if "arrows_added (map mod_id mods) es st" "es \<union> set rest \<subseteq> set edges" for es rest st
    using that
  proof (induction rest arbitrary: es st)
    case (Cons e rest)
    have "arrows_added (map mod_id mods) (insert e es) (add_arrow e st)"
    proof (rule add_arrow_added [OF Cons.prems(1)])
      show "from_module e \<in> set (map mod_id mods)" using edges [of e] Cons.prems(2) by auto
      fix e' assume "e' \<in> insert e es"
      then have "from_module e' \<in> mod_id ` set mods" using edges [of e'] Cons.prems(2) by auto
      then show "nul \<notin> set (from_module e')" using nul by auto
    qed
    from Cons.IH [OF this] show ?case using Cons.prems(2) by simp
  qed simp
  obtain seen raw where raw: "fold add_arrow edges ({}, ?start) = (seen, raw)" by fastforce
  have a: "arrows_added (map mod_id mods) (set edges) (seen, raw)" using run [OF s, of edges] raw by simp
  have adj: "adj = map (\<lambda>(v, vs). (v, sort_strings vs)) raw" by (simp add: adj_def moduleAdjacency_def raw)
  show arrows: "arrows adj = (\<lambda>e. (from_module e, to_module e)) ` set edges"
    using a by (simp add: adj arrows_added_def arrows_def neighbours_sorted)
  have "map fst adj = map fst raw" by (simp add: adj comp_def split_def)
  then show "distinct (map fst adj)" and keys: "fst ` set adj = mod_id ` set mods"
    using a by (simp_all add: arrows_added_def flip: set_map)
  have "w \<in> fst ` set adj" if "w \<in> set (neighbours adj v)" for v w
  proof -
    have "(v, w) \<in> arrows adj" using that by (simp add: arrows_def)
    then show ?thesis using arrows edges keys by auto
  qed
  then show "closed_in (map fst adj) adj" by (auto simp: closed_in_def)
qed

lemma components_acyclic:
  assumes "distinct (map fst adj)" "closed_in (map fst adj) adj" "\<And>v. (v, v) \<notin> arrows adj"
  shows "(\<exists>c \<in> set (stronglyConnectedComponents adj). 2 \<le> length c) \<longleftrightarrow> \<not> acyclic (arrows adj)"
proof
  assume "\<exists>c \<in> set (stronglyConnectedComponents adj). 2 \<le> length c"
  then obtain c where c: "c \<in> set (stronglyConnectedComponents adj)" "2 \<le> length c" by blast
  obtain q where q: "path_from adj (c ! 0) (q @ [c ! 0])" using cycle_through_path [OF assms(1,2) c] by blast
  then obtain v where "(c ! 0, v) \<in> arrows adj" "(v, c ! 0) \<in> (arrows adj)\<^sup>*"
    using path_from_end [of adj "c ! 0" q "c ! 0"] by (cases q) (auto simp: arrows_def)
  then have "(c ! 0, c ! 0) \<in> (arrows adj)\<^sup>+" by (rule rtrancl_into_trancl2)
  then show "\<not> acyclic (arrows adj)" by (auto simp: acyclic_def)
next
  assume "\<not> acyclic (arrows adj)"
  then obtain v where "(v, v) \<in> (arrows adj)\<^sup>+" by (auto simp: acyclic_def)
  then obtain w where w: "(v, w) \<in> arrows adj" "(w, v) \<in> (arrows adj)\<^sup>*" by (meson tranclD)
  have key: "v \<in> fst ` set adj"
    using w(1) by (cases "map_of adj v") (auto simp: arrows_def neighbours_def rev_image_eqI dest: map_of_SomeD)
  then have wkey: "w \<in> fst ` set adj" using w(1) assms(2) by (auto simp: closed_in_def arrows_def)
  note scc = components_partition [OF assms(1,2)]
  have "v \<in> set (concat (stronglyConnectedComponents adj))" using scc key by simp
  then obtain c where c: "c \<in> set (stronglyConnectedComponents adj)" "v \<in> set c" by auto
  have "w \<in> set c" using scc c wkey w by blast
  moreover have "w \<noteq> v" using w(1) assms(3) by blast
  moreover have "card {v, w} \<le> card (set c)" using c(2) \<open>w \<in> set c\<close> by (intro card_mono) auto
  ultimately have "2 \<le> card (set c)" by simp
  then have "2 \<le> length c" using card_length [of c] by linarith
  then show "\<exists>c \<in> set (stronglyConnectedComponents adj). 2 \<le> length c" using c(1) by blast
qed

section \<open>Sorting and owners\<close>

lemma claim_packages_eq:
  "claim_packages i m owner k = (if k \<in> mpkg_path ` set (mod_packages m) then Some i else owner k)"
proof -
  have "fold (\<lambda>p owner. owner(mpkg_path p := Some i)) ps owner k = (if k \<in> mpkg_path ` set ps then Some i else owner k)"
    for ps
    by (induction ps arbitrary: owner) auto
  from this [of "mod_packages m"] show ?thesis unfolding claim_packages_def .
qed

lemma rebuild_owners:
  assumes "\<And>i. i < length ms \<Longrightarrow> mpkg_path ` set (mod_packages (ms ! i)) = {p. owner p = Some (n + i)}"
  shows "fold (\<lambda>(i, m). claim_packages i m) (List.enumerate n ms) start k =
    (case owner k of
       None \<Rightarrow> start k
     | Some i \<Rightarrow> if n \<le> i \<and> i < n + length ms then Some i else start k)"
  using assms
proof (induction ms arbitrary: n start)
  case Nil
  then show ?case by (auto split: option.split)
next
  case (Cons m ms)
  have m: "mpkg_path ` set (mod_packages m) = {p. owner p = Some n}" using Cons.prems [of 0] by simp
  have "mpkg_path ` set (mod_packages (ms ! i)) = {p. owner p = Some (Suc n + i)}" if "i < length ms" for i
    using Cons.prems [of "Suc i"] that by simp
  from Cons.IH [OF this] show ?case
    using m by (auto simp: claim_packages_eq split: option.splits)
qed

lemma sort_module_fields [simp]:
  "mod_id (sort_module m) = mod_id m" "mod_root (sort_module m) = mod_root m"
  "mod_go_module (sort_module m) = mod_go_module m"
  "set (mod_packages (sort_module m)) = set (mod_packages m)"
  "set (mod_interfaces (sort_module m)) = set (mod_interfaces m)"
  "set (mod_allowed (sort_module m)) = set (mod_allowed m)"
  by (simp_all add: sort_module_def sortDependencies_def)

section \<open>Permitted imports\<close>

text \<open>
  A module may import the root package of another module that it lists, or a package that the other
  module exposes under a name that it lists.
\<close>

definition permitted :: "app_module \<Rightarrow> app_module \<Rightarrow> string \<Rightarrow> bool" where
  "permitted source dest packagePath =
     (if packagePath = mod_root dest then allowsDependency source (mod_id dest) []
      else \<exists>ni \<in> set (mod_interfaces dest). ni_package ni = packagePath \<and>
             allowsDependency source (mod_id dest) (ni_name ni))"

lemma permitted_sort [simp]: "permitted (sort_module s) (sort_module d) k = permitted s d k"
  by (simp add: permitted_def allowsDependency_def list_ex_iff)

lemma importedAPI_permitted:
  "edge_exported (import_edge s d k imp) \<and> edge_allowed (import_edge s d k imp) \<longleftrightarrow> permitted s d (imp_path imp)"
proof (cases "imp_path imp = mod_root d")
  case True
  then show ?thesis by (simp add: import_edge_def importedAPI_def permitted_def)
next
  case False
  let ?names = "sort_strings (map ni_name (filter (\<lambda>ni. ni_package ni = imp_path imp) (mod_interfaces d)))"
  have "find (allowsDependency s (mod_id d)) ?names \<noteq> None \<longleftrightarrow> permitted s d (imp_path imp)"
    using False by (auto simp: find_None_iff permitted_def)
  then show ?thesis
    using False by (auto simp: import_edge_def importedAPI_def Let_def split: option.splits)
qed

lemma edge_diagnostics_kinds:
  "d \<in> set (edge_diagnostics e) \<Longrightarrow> mdiag_kind d \<in> {''internal-access'', ''undeclared-dependency''}"
  "edge_diagnostics e = [] \<longleftrightarrow> edge_exported e \<and> edge_allowed e"
  by (auto simp: edge_diagnostics_def importDiagnostic_def split: if_splits)

section \<open>The model that Build returns\<close>

text \<open>
  The result for a program without resolution diagnostics, with the modules, owners and edges
  before the final sorting.
\<close>

definition built ::
    "load_package list \<Rightarrow> app_module list \<Rightarrow> (string \<Rightarrow> nat option) \<Rightarrow> module_edge list \<Rightarrow> module_model \<Rightarrow> bool" where
  "built primary mods owner edges F =
     (modules F = map sort_module mods \<and> packageOwner F = owner \<and> mset (module_edges F) = mset edges \<and>
      distinct (map mod_id mods) \<and> (\<forall>m \<in> set mods. mod_root m = mod_id m \<and> mod_id m \<in> load_path ` set primary) \<and>
      (\<forall>p. owner p = Option.bind (map_of (packageIndex primary) p) (ownerIndex mods)) \<and>
      (\<forall>e \<in> set edges. justified mods owner (import_pairs primary) e) \<and>
      (\<forall>k imp. (k, imp) \<in> import_pairs primary \<longrightarrow> present owner edges k imp) \<and>
      (\<exists>calm_ds. calm calm_ds \<and> set (mdiags F) = set calm_ds \<union> set (concat (map edge_diagnostics edges)) \<union>
         set (map (cycle_diagnostic mods) (map (\<lambda>c. \<lparr>cycle_members = c,
           cycle_path = cycle_through c (moduleAdjacency mods edges)\<rparr>)
           (filter (\<lambda>c. 2 \<le> length c) (stronglyConnectedComponents (moduleAdjacency mods edges)))))))"

lemma packageIndex_keys: "distinct (map fst (packageIndex pkgs))"
proof -
  have "distinct (map fst (fold (\<lambda>p. AList.update (load_path p) p) pkgs m))" if "distinct (map fst m)" for m
    using that by (induction pkgs arbitrary: m) (simp_all add: distinct_update)
  then show ?thesis by (simp add: packageIndex_def)
qed

lemma sort_modules_id:
  assumes "sorted (map mod_id mods)"
  shows "sort_by module_less (map sort_module mods) = map sort_module mods"
  using assms by (intro module_order.sort_by_sorted_id) (simp add: module_order.sorted_by_key comp_def)

text \<open>The stages before the imports are read, and what they leave in the model.\<close>

definition early_model ::
    "unicode_tables \<Rightarrow> load_package list \<Rightarrow> occurrence list \<Rightarrow> universe \<Rightarrow> module_model" where
  "early_model U primary occs uni =
     (let index = packageIndex primary; (mods, diags) = discoverModules U occs index
      in validateDependencies uni (discoverNamedInterfaces U occs index
           (assignPackages index (empty_model\<lparr>modules := mods, mdiags := diags\<rparr>))))"

definition settled :: "load_package list \<Rightarrow> module_model \<Rightarrow> bool" where
  "settled primary model =
     (calm (mdiags model) \<and> module_edges model = [] \<and> module_cycles model = [] \<and>
      sorted (map mod_id (modules model)) \<and> distinct (map mod_id (modules model)) \<and>
      (\<forall>m \<in> set (modules model). mod_root m = mod_id m \<and> mod_id m \<in> load_path ` set primary) \<and>
      (\<forall>p. packageOwner model p = Option.bind (map_of (packageIndex primary) p) (ownerIndex (modules model))) \<and>
      (\<forall>i < length (modules model).
         mpkg_path ` set (mod_packages (modules model ! i)) = {p. packageOwner model p = Some i}))"

lemma skeleton_nth:
  assumes "map skeleton mods = map skeleton mods0" "i < length mods"
  shows "mod_id (mods ! i) = mod_id (mods0 ! i)" "mod_root (mods ! i) = mod_root (mods0 ! i)" "i < length mods0"
proof -
  show len: "i < length mods0" using assms by (metis length_map)
  have "skeleton (mods ! i) = skeleton (mods0 ! i)" using assms len by (metis nth_map)
  then show "mod_id (mods ! i) = mod_id (mods0 ! i)" "mod_root (mods ! i) = mod_root (mods0 ! i)"
    by (simp_all add: skeleton_def)
qed

lemma early_model_settled: "settled primary (early_model U primary occs uni)"
proof -
  define index where "index = packageIndex primary"
  obtain mods0 diags0 where d0: "discoverModules U occs index = (mods0, diags0)" by fastforce
  define model0 where "model0 = empty_model\<lparr>modules := mods0, mdiags := diags0\<rparr>"
  define model1 where "model1 = assignPackages index model0"
  define model2 where "model2 = discoverNamedInterfaces U occs index model1"
  define model3 where "model3 = validateDependencies uni model2"
  note facts = discoverModules_facts [OF d0 [unfolded index_def]]
  have a1: "assigned mods0 index (set (map fst index)) model0 model1"
    using assignPackages_assigned [of index model0] packageIndex_keys packageIndex_Some facts(4)
    by (auto simp: model0_def model1_def index_def empty_model_def)
  have f2: "same_frame model1 model2" "calm (mdiags model2)"
    using discoverNamedInterfaces_frame [of model1 U occs index] a1 facts(1)
    by (auto simp: model2_def assigned_def model0_def)
  have f3: "same_frame model2 model3" "calm (mdiags model3)" "modules model3 = modules model2"
    using validateDependencies_frame [OF f2(2)] by (auto simp: model3_def)
  have sk: "map skeleton (modules model3) = map skeleton mods0"
    using a1 f2 f3 by (simp add: assigned_def same_frame_def)
  note nth = skeleton_nth [OF sk]
  have ids: "map mod_id (modules model3) = map mod_id mods0"
    using arg_cong [OF sk, of "map fst"] by (simp add: skeleton_def comp_def)
  have pk: "map mod_packages (modules model3) = map mod_packages (modules model1)"
    and ow: "packageOwner model3 = packageOwner model1"
    using f2 f3 by (simp_all add: same_frame_def)
  have "packageOwner model3 p = Option.bind (map_of index p) (ownerIndex (modules model3))" for p
  proof -
    have "packageOwner model3 p =
        (if p \<in> set (map fst index) then Option.bind (map_of index p) (ownerIndex mods0) else None)"
      using a1 ow by (simp add: assigned_def)
    also have "\<dots> = Option.bind (map_of index p) (ownerIndex mods0)"
      by (cases "map_of index p") (auto simp: rev_image_eqI dest: map_of_SomeD)
    finally show ?thesis using ownerIndex_cong [OF sk] by (simp cong: Option.bind_cong)
  qed
  moreover have "mpkg_path ` set (mod_packages (modules model3 ! i)) = {p. packageOwner model3 p = Some i}"
    if i: "i < length (modules model3)" for i
  proof -
    have "mod_packages (modules model3 ! i) = mod_packages (modules model1 ! i)"
      using pk i by (metis length_map nth_map)
    then show ?thesis using a1 nth(3) [OF i] ow by (simp add: assigned_def)
  qed
  moreover have "\<forall>m \<in> set (modules model3). mod_root m = mod_id m \<and> mod_id m \<in> load_path ` set primary"
    using nth facts(4) by (auto simp: all_set_conv_all_nth)
  moreover have "module_edges model3 = []" "module_cycles model3 = []"
    using a1 f2 f3 by (auto simp: assigned_def same_frame_def model0_def empty_model_def)
  ultimately have "settled primary model3"
    using f3(2) facts(2,3) ids by (simp add: settled_def index_def)
  moreover have "model3 = early_model U primary occs uni"
    by (simp add: early_model_def Let_def index_def [symmetric] d0 model0_def [symmetric] model1_def [symmetric]
        model2_def [symmetric] model3_def [symmetric])
  ultimately show ?thesis by simp
qed

text \<open>The last stages sort the model and rebuild the table of owners, which keeps every owner.\<close>

lemma finish_owner:
  assumes "settled primary early" "modules model = modules early"
  shows "packageOwner (rebuildPackageOwners (sortModel model)) = packageOwner early"
    "modules (rebuildPackageOwners (sortModel model)) = map sort_module (modules early)"
proof -
  let ?mods = "modules early" and ?F = "rebuildPackageOwners (sortModel model)"
  show mF: "modules ?F = map sort_module ?mods"
    using sort_modules_id [of ?mods] assms by (simp add: settled_def rebuildPackageOwners_def sortModel_def)
  have packages: "mpkg_path ` set (mod_packages (map sort_module ?mods ! i)) = {p. packageOwner early p = Some (0 + i)}"
    if "i < length (map sort_module ?mods)" for i
    using assms(1) that by (simp add: settled_def)
  have "packageOwner ?F k = packageOwner early k" for k
  proof -
    have "packageOwner early k = Some i \<Longrightarrow> i < length ?mods" for i
      using assms(1) ownerIndex_less by (auto simp: settled_def bind_eq_Some_conv)
    moreover have "packageOwner ?F k = fold (\<lambda>(i, m). claim_packages i m)
        (List.enumerate 0 (map sort_module ?mods)) (\<lambda>p. None) k"
      using mF by (simp add: rebuildPackageOwners_def)
    ultimately show ?thesis
      using rebuild_owners [OF packages, of "\<lambda>p. None" k] by (auto split: option.splits)
  qed
  then show "packageOwner ?F = packageOwner early" by blast
qed

lemma BuildWithUniverse_stages:
  "BuildWithUniverse U (Some program) [] occs uni = rebuildPackageOwners (sortModel (discoverCycles
     (discoverImportEdges (PrimaryPackages program) (early_model U (PrimaryPackages program) occs uni))))"
  by (simp add: BuildWithUniverse_def early_model_def Let_def split: prod.split)

lemma BuildWithUniverse_built:
  assumes nul: "\<And>pkg. pkg \<in> set program \<Longrightarrow> nul \<notin> set (load_path pkg)"
  shows "\<exists>mods owner edges. built (PrimaryPackages program) mods owner edges
    (BuildWithUniverse U (Some program) [] occs uni)"
proof -
  define primary where "primary = PrimaryPackages program"
  define early where "early = early_model U primary occs uni"
  define model4 where "model4 = discoverImportEdges primary early"
  define mods where "mods = modules early"
  define owner where "owner = packageOwner early"
  define edges where "edges = module_edges model4"
  define F where "F = BuildWithUniverse U (Some program) [] occs uni"
  have st: "settled primary early" unfolding early_def by (rule early_model_settled)
  have owned: "p \<in> load_path ` set primary" if "owner p = Some i" for p i
    using that st packageIndex_dom [of primary] by (auto simp: settled_def owner_def bind_eq_Some_conv)
  have pnul: "nul \<notin> set p" if "p \<in> load_path ` set primary" for p
    using that nul by (auto simp: primary_def PrimaryPackages_def)
  have empty: "module_edges early = []" "module_cycles early = []" using st by (simp_all add: settled_def)
  obtain seen where found: "edges_found early (import_pairs primary) (seen, model4)"
    using discoverImportEdges_found [OF empty(1), of primary] owned pnul by (auto simp: model4_def owner_def)
  have e: "modules model4 = mods" "packageOwner model4 = owner" "module_cycles model4 = []"
      "mdiags model4 = mdiags early @ concat (map edge_diagnostics edges)"
      "\<forall>e \<in> set edges. justified mods owner (import_pairs primary) e"
      "\<forall>k imp. (k, imp) \<in> import_pairs primary \<longrightarrow> present owner edges k imp"
    using found empty by (auto simp: edges_found_def edges_of_def mods_def owner_def edges_def)
  have F: "F = rebuildPackageOwners (sortModel (discoverCycles model4))"
    unfolding F_def BuildWithUniverse_stages model4_def early_def primary_def ..
  have "modules (discoverCycles model4) = modules early"
    using e(1) by (simp add: mods_def discoverCycles_def Let_def)
  note fin = finish_owner [OF st this, folded F mods_def owner_def]
  have dF: "set (mdiags F) = set (mdiags (discoverCycles model4))" "mset (module_edges F) = mset edges"
    by (simp_all add: F rebuildPackageOwners_def sortModel_def edges_def discoverCycles_def Let_def)
  have "\<exists>calm_ds. calm calm_ds \<and> set (mdiags F) = set calm_ds \<union> set (concat (map edge_diagnostics edges)) \<union>
         set (map (cycle_diagnostic mods) (map (\<lambda>c. \<lparr>cycle_members = c,
           cycle_path = cycle_through c (moduleAdjacency mods edges)\<rparr>)
           (filter (\<lambda>c. 2 \<le> length c) (stronglyConnectedComponents (moduleAdjacency mods edges)))))"
    using st dF(1) e
    by (intro exI [of _ "mdiags early"]) (simp add: settled_def discoverCycles_def Let_def edges_def Un_assoc)
  then have "built primary mods owner edges F"
    unfolding built_def using fin dF(2) e(5,6) st by (simp add: settled_def mods_def owner_def)
  then show ?thesis unfolding F_def primary_def by blast
qed

section \<open>Crossing imports\<close>

text \<open>An import of a primary package that leads from one module of the model into another.\<close>

definition crossing :: "load_package list \<Rightarrow> module_model \<Rightarrow> app_module \<Rightarrow> app_module \<Rightarrow> string \<Rightarrow> bool" where
  "crossing program model source dest packagePath =
     (\<exists>pkg \<in> set (PrimaryPackages program). \<exists>imp \<in> set (packageImports pkg). imp_path imp = packagePath \<and>
        Owner model (load_path pkg) = Some source \<and> Owner model packagePath = Some dest \<and>
        mod_id source \<noteq> mod_id dest)"


definition exposed_names :: "app_module \<Rightarrow> string \<Rightarrow> string set" where
  "exposed_names dest packagePath = ni_name ` {ni \<in> set (mod_interfaces dest). ni_package ni = packagePath}"

definition hidden_package :: "app_module \<Rightarrow> string \<Rightarrow> bool" where
  "hidden_package dest packagePath = (packagePath \<noteq> mod_root dest \<and> exposed_names dest packagePath = {})"

definition missing_dependency :: "app_module \<Rightarrow> string \<Rightarrow> string" where
  "missing_dependency dest packagePath =
     dependencyIdentity (mod_id dest)
       (if packagePath = mod_root dest then [] else Min (exposed_names dest packagePath))"

definition violation :: "app_module \<Rightarrow> app_module \<Rightarrow> string \<Rightarrow> package_import \<Rightarrow> module_diagnostic" where
  "violation source dest path imp =
     \<lparr>mdiag_position = imp_position imp, mdiag_physical = imp_physical imp, mdiag_module = mod_id source,
      mdiag_package = path,
      mdiag_kind = (if hidden_package dest (imp_path imp) then ''internal-access'' else ''undeclared-dependency''),
      mdiag_message =
        (if hidden_package dest (imp_path imp)
         then ''module '' @ mod_id source @ '' package '' @ path @ '' imports internal package '' @ imp_path imp @
           '' of module '' @ mod_id dest @ ''; import the root API or a declared @NamedInterface package''
         else ''module '' @ mod_id source @ '' package '' @ path @ '' imports '' @
           missing_dependency dest (imp_path imp) @ '' through package '' @ imp_path imp @
           '' without declaring it in @Module allowedDependencies'')\<rparr>"

lemma violation_sort [simp]: "violation (sort_module s) (sort_module d) p imp = violation s d p imp"
  by (simp add: violation_def hidden_package_def missing_dependency_def exposed_names_def)



lemma built_owner:
  assumes "built primary mods owner edges F"
  shows "Owner F p = map_option (\<lambda>i. sort_module (mods ! i)) (owner p)" "owner p = Some i \<Longrightarrow> i < length mods"
proof -
  show less: "owner p = Some i \<Longrightarrow> i < length mods" for p i
    using assms ownerIndex_less by (auto simp: built_def bind_eq_Some_conv)
  show "Owner F p = map_option (\<lambda>i. sort_module (mods ! i)) (owner p)"
  proof -
    have "packageOwner F = owner" "modules F = map sort_module mods" using assms by (simp_all add: built_def)
    then show ?thesis using less [of p] by (cases "owner p") (simp_all add: Owner_def not_le)
  qed
qed

lemma built_ids:
  assumes "built primary mods owner edges F" "i < length mods" "j < length mods" "i \<noteq> j"
  shows "mod_id (mods ! i) \<noteq> mod_id (mods ! j)"
proof -
  have "distinct (map mod_id mods)" using assms(1) by (simp add: built_def)
  then show ?thesis using assms(2-4) by (metis length_map nth_eq_iff_index_eq nth_map)
qed

lemma built_crossing:
  assumes "built (PrimaryPackages program) mods owner edges F"
  shows "crossing program F s d k \<longleftrightarrow>
    (\<exists>e \<in> set edges. \<exists>i j. crosses owner (from_package e) (to_package e) i j \<and> to_package e = k \<and>
       s = sort_module (mods ! i) \<and> d = sort_module (mods ! j))" (is "?left \<longleftrightarrow> ?right")
proof
  assume ?left
  then obtain pkg imp where p: "pkg \<in> set (PrimaryPackages program)" "imp \<in> set (packageImports pkg)"
      "imp_path imp = k" "Owner F (load_path pkg) = Some s" "Owner F k = Some d" "mod_id s \<noteq> mod_id d"
    by (auto simp: crossing_def)
  then obtain i j where ij: "owner (load_path pkg) = Some i" "owner k = Some j" "s = sort_module (mods ! i)"
      "d = sort_module (mods ! j)"
    using built_owner(1) [OF assms] by auto
  then have c: "crosses owner (load_path pkg) (imp_path imp) i j" using p(3,6) by (auto simp: crosses_def)
  have "(load_path pkg, imp) \<in> import_pairs (PrimaryPackages program)" using p by (auto simp: import_pairs_def)
  then have "present owner edges (load_path pkg) imp" using assms by (simp add: built_def)
  then obtain e where "e \<in> set edges" "from_package e = load_path pkg" "to_package e = k"
    using c p(3) by (auto simp: present_def)
  then show ?right using c p(3) ij by (intro bexI [where x = e] exI conjI) auto
next
  assume ?right
  then obtain e i j where e: "e \<in> set edges" "crosses owner (from_package e) (to_package e) i j" "to_package e = k"
      "s = sort_module (mods ! i)" "d = sort_module (mods ! j)"
    by blast
  then have "justified mods owner (import_pairs (PrimaryPackages program)) e" using assms by (simp add: built_def)
  then obtain pkg imp where p: "pkg \<in> set (PrimaryPackages program)" "imp \<in> set (packageImports pkg)"
      "from_package e = load_path pkg" "to_package e = imp_path imp"
    by (auto simp: justified_def import_pairs_def)
  have c: "owner (load_path pkg) = Some i" "owner k = Some j" "i \<noteq> j" using e(2,3) p(3) by (auto simp: crosses_def)
  have len: "i < length mods" "j < length mods" using c built_owner(2) [OF assms] by blast+
  have "mod_id (mods ! i) \<noteq> mod_id (mods ! j)"
    by (rule built_ids [OF assms len c(3)])
  then show ?left
    unfolding crossing_def using p(4) e(3-5) c(1,2) built_owner(1) [OF assms]
    by (intro bexI [OF _ p(1)] bexI [OF _ p(2)]) simp
qed

lemma built_edge:
  assumes "built primary mods owner edges F" "e \<in> set edges" "crosses owner (from_package e) (to_package e) i j"
  shows "from_module e = mod_id (mods ! i)" "to_module e = mod_id (mods ! j)"
    "edge_exported e \<and> edge_allowed e \<longleftrightarrow> permitted (mods ! i) (mods ! j) (to_package e)"
proof -
  have "justified mods owner (import_pairs primary) e" using assms(1,2) by (simp add: built_def)
  then obtain k imp x y where e: "e = import_edge (mods ! x) (mods ! y) k imp" "crosses owner k (imp_path imp) x y"
    by (auto simp: justified_def)
  then have "x = i" "y = j" using assms(3) by (auto simp: crosses_def)
  then show "from_module e = mod_id (mods ! i)" "to_module e = mod_id (mods ! j)"
    "edge_exported e \<and> edge_allowed e \<longleftrightarrow> permitted (mods ! i) (mods ! j) (to_package e)"
    using e(1) importedAPI_permitted by simp_all
qed

lemma built_edge_crosses:
  assumes "built primary mods owner edges F" "e \<in> set edges"
  shows "\<exists>i j. crosses owner (from_package e) (to_package e) i j"
  using assms by (auto simp: built_def justified_def) (metis import_edge_fields(3,4))

lemma kind_cycle [simp]: "mdiag_kind (cycle_diagnostic mods c) = ''module-cycle''"
  by (simp add: cycle_diagnostic_def Let_def)

lemma built_diagnostics:
  assumes "built primary mods owner edges F"
  obtains calm_ds where "calm calm_ds" "set (mdiags F) = set calm_ds \<union> set (concat (map edge_diagnostics edges)) \<union>
    (\<lambda>c. cycle_diagnostic mods \<lparr>cycle_members = c, cycle_path = cycle_through c (moduleAdjacency mods edges)\<rparr>) `
      {c \<in> set (stronglyConnectedComponents (moduleAdjacency mods edges)). 2 \<le> length c}"
  using assms unfolding built_def by (auto simp: image_image)



lemma built_reports_cycle:
  assumes "built primary mods owner edges F"
  shows "(\<exists>diag \<in> set (mdiags F). mdiag_kind diag = ''module-cycle'') \<longleftrightarrow>
    (\<exists>c \<in> set (stronglyConnectedComponents (moduleAdjacency mods edges)). 2 \<le> length c)"
proof -
  obtain calm_ds where ds: "calm calm_ds" "set (mdiags F) = set calm_ds \<union> set (concat (map edge_diagnostics edges)) \<union>
    (\<lambda>c. cycle_diagnostic mods \<lparr>cycle_members = c, cycle_path = cycle_through c (moduleAdjacency mods edges)\<rparr>) `
      {c \<in> set (stronglyConnectedComponents (moduleAdjacency mods edges)). 2 \<le> length c}"
    by (rule built_diagnostics [OF assms])
  have "mdiag_kind diag \<noteq> ''module-cycle''" if "diag \<in> set calm_ds" for diag
    using that ds(1) by (auto simp: calm_def arch_kinds_def)
  moreover have "mdiag_kind diag \<noteq> ''module-cycle''" if d: "diag \<in> set (concat (map edge_diagnostics edges))" for diag
  proof -
    obtain e where "diag \<in> set (edge_diagnostics e)" using d by auto
    then show ?thesis using edge_diagnostics_kinds(1) by force
  qed
  ultimately have "diag \<notin> set calm_ds \<and> diag \<notin> set (concat (map edge_diagnostics edges))"
    if "mdiag_kind diag = ''module-cycle''" for diag using that by blast
  then show ?thesis unfolding ds(2) bex_Un bex_simps(7) kind_cycle by blast
qed

text \<open>The module graph of a built model.\<close>

lemma built_edge_ends:
  assumes "built primary mods owner edges F" "e \<in> set edges"
  shows "from_module e \<in> mod_id ` set mods" "to_module e \<in> mod_id ` set mods" "from_module e \<noteq> to_module e"
proof -
  obtain i j where c: "crosses owner (from_package e) (to_package e) i j"
    using built_edge_crosses [OF assms] by blast
  then have len: "i < length mods" "j < length mods" "i \<noteq> j"
    using built_owner(2) [OF assms(1)] by (auto simp: crosses_def)
  have "mod_id (mods ! i) \<noteq> mod_id (mods ! j)" by (rule built_ids [OF assms(1) len])
  then show "from_module e \<in> mod_id ` set mods" "to_module e \<in> mod_id ` set mods" "from_module e \<noteq> to_module e"
    using built_edge(1,2) [OF assms c] len by simp_all
qed

lemma built_graph:
  assumes "built (PrimaryPackages program) mods owner edges F"
  shows "(\<lambda>e. (from_module e, to_module e)) ` set edges =
    {(mod_id s, mod_id d) | s d. \<exists>k. crossing program F s d k}" (is "?edges = ?graph")
proof (rule set_eqI)
  fix x
  show "x \<in> ?edges \<longleftrightarrow> x \<in> ?graph"
  proof
    assume "x \<in> ?edges"
    then obtain e where e: "e \<in> set edges" "x = (from_module e, to_module e)" by blast
    obtain i j where c: "crosses owner (from_package e) (to_package e) i j"
      using built_edge_crosses [OF assms e(1)] by blast
    then have "crossing program F (sort_module (mods ! i)) (sort_module (mods ! j)) (to_package e)"
      using built_crossing [OF assms] e(1) by blast
    moreover have "x = (mod_id (sort_module (mods ! i)), mod_id (sort_module (mods ! j)))"
      using built_edge(1,2) [OF assms e(1) c] e(2) by simp
    ultimately show "x \<in> ?graph" by blast
  next
    assume "x \<in> ?graph"
    then obtain s d k where x: "x = (mod_id s, mod_id d)" "crossing program F s d k" by blast
    then obtain e i j where e: "e \<in> set edges" "crosses owner (from_package e) (to_package e) i j"
        "s = sort_module (mods ! i)" "d = sort_module (mods ! j)"
      using built_crossing [OF assms] by blast
    then have "x = (from_module e, to_module e)" using built_edge(1,2) [OF assms e(1,2)] x(1) by simp
    then show "x \<in> ?edges" using e(1) by blast
  qed
qed

text \<open>The graph that \<open>Focus\<close> walks is the graph of the crossing imports.\<close>

definition module_graph :: "load_package list \<Rightarrow> module_model \<Rightarrow> string rel" where
  "module_graph program model =
     {(mod_id source, mod_id dest) | source dest. \<exists>packagePath. crossing program model source dest packagePath}"

lemma built_adjacency:
  assumes b: "built (PrimaryPackages program) mods owner edges F"
    and nul: "\<And>pkg. pkg \<in> set program \<Longrightarrow> nul \<notin> set (load_path pkg)"
  shows "arrows (moduleAdjacency (modules F) (module_edges F)) = module_graph program F"
proof -
  have mods: "modules F = map sort_module mods" and edges: "set (module_edges F) = set edges"
    using b by (auto simp: built_def dest: mset_eq_setD)
  have "from_module e \<in> mod_id ` set (modules F) \<and> to_module e \<in> mod_id ` set (modules F)"
    if "e \<in> set (module_edges F)" for e
    using built_edge_ends [OF b] that unfolding mods edges by (auto simp: image_image)
  moreover have "nul \<notin> set (mod_id m)" if "m \<in> set (modules F)" for m
    using that b nul by (auto simp: built_def PrimaryPackages_def)
  ultimately have "arrows (moduleAdjacency (modules F) (module_edges F)) =
      (\<lambda>e. (from_module e, to_module e)) ` set (module_edges F)"
    by (rule moduleAdjacency_facts(1))
  then show ?thesis using built_graph [OF b] by (simp add: edges module_graph_def)
qed

lemma built_edge_graph:
  assumes b: "built (PrimaryPackages program) mods owner edges F" and "e \<in> set (module_edges F)"
  shows "(from_module e, to_module e) \<in> module_graph program F"
proof -
  have "mset (module_edges F) = mset edges" using b by (simp add: built_def)
  then have "e \<in> set edges" using assms(2) mset_eq_setD by blast
  then show ?thesis unfolding module_graph_def built_graph [OF b, symmetric] by (rule imageI)
qed

lemma crossing_modules:
  assumes "built (PrimaryPackages program) mods owner edges F" "(v, w) \<in> (module_graph program F)\<^sup>*"
    "v \<in> mod_id ` set (modules F)"
  shows "w \<in> mod_id ` set (modules F)"
  using assms(2,3)
proof (induction rule: rtrancl_induct)
  case (step y z)
  then obtain s d k where "crossing program F s d k" "z = mod_id d" by (auto simp: module_graph_def)
  then have "d \<in> set (modules F)" by (auto simp: crossing_def Owner_def split: option.splits if_splits)
  then show ?case using \<open>z = mod_id d\<close> by blast
qed

lemma Focus_modules:
  assumes "Focus U F moduleID = Inr result"
  shows "focusedDependencyOrder moduleID (moduleAdjacency (modules F) (module_edges F)) = Inr (dependency_order result)"
    "mod_id ` set (modules result) = mod_id ` set (modules F) \<inter> set (dependency_order result)"
    "set (module_edges result) = {e \<in> set (module_edges F). {from_module e, to_module e} \<subseteq> set (dependency_order result)}"
    "moduleID \<in> mod_id ` set (modules F)"
proof -
  show "moduleID \<in> mod_id ` set (modules F)"
    using assms by (auto simp: Focus_def list_ex_iff split: if_splits)
  obtain order where o: "focusedDependencyOrder moduleID (moduleAdjacency (modules F) (module_edges F)) = Inr order"
    using assms by (auto simp: Focus_def split: if_splits sum.splits)
  have r: "dependency_order result = order" "set (modules result) = sort_module ` {m \<in> set (modules F). mod_id m \<in> set order}"
      "set (module_edges result) = {e \<in> set (module_edges F). from_module e \<in> set order \<and> to_module e \<in> set order}"
    using assms o by (auto simp: Focus_def sortModel_def rebuildPackageOwners_def split: if_splits)
  show "focusedDependencyOrder moduleID (moduleAdjacency (modules F) (module_edges F)) = Inr (dependency_order result)"
    using o r(1) by simp
  show "mod_id ` set (modules result) = mod_id ` set (modules F) \<inter> set (dependency_order result)"
    unfolding r by (auto simp: image_image)
  show "set (module_edges result) = {e \<in> set (module_edges F). {from_module e, to_module e} \<subseteq> set (dependency_order result)}"
    unfolding r by auto
qed

section \<open>Dependency identities\<close>

lemma separator_prefix: "has_prefix s dependencySeparator \<longleftrightarrow> (\<exists>r. s = dependencySeparator @ r)"
  unfolding has_prefix_def by (metis append_eq_conv_conj append_take_drop_id)

lemma cut_separator_join:
  "cut_separator s = (before, after, found) \<Longrightarrow>
     s = (if found then before @ dependencySeparator @ after else before) \<and> (\<not> found \<longrightarrow> after = [])"
proof (induction s arbitrary: before after found)
  case (Cons c s)
  show ?case
  proof (cases "has_prefix (c # s) dependencySeparator")
    case True
    then obtain r where "c # s = dependencySeparator @ r" using separator_prefix by blast
    then show ?thesis using Cons.prems True by (auto simp: dependencySeparator_def)
  next
    case False
    then show ?thesis using Cons by (auto split: prod.splits)
  qed
qed simp

lemma interface_name_nonempty [simp]: "\<not> interface_name []"
  by (simp add: interface_name_def)

section \<open>Properties\<close>


text \<open>
  C8. A module cycle is reported if and only if the imports between modules form a cycle.
\<close>
theorem Build_reports_cycles:
  assumes "\<And>pkg. pkg \<in> set program \<Longrightarrow> nul \<notin> set (load_path pkg)"
    and "model = BuildWithUniverse U (Some program) [] occs uni"
  shows "(\<exists>diag \<in> set (mdiags model). mdiag_kind diag = ''module-cycle'') \<longleftrightarrow>
    \<not> acyclic (module_graph program model)" (is "?reported \<longleftrightarrow> _")
proof -
  obtain mods owner edges where b: "built (PrimaryPackages program) mods owner edges model"
    using BuildWithUniverse_built [OF assms(1)] assms(2) by blast
  let ?adj = "moduleAdjacency mods edges"
  have ends: "from_module e \<in> mod_id ` set mods \<and> to_module e \<in> mod_id ` set mods" if "e \<in> set edges" for e
    using built_edge_ends [OF b that] by simp
  have "nul \<notin> set (mod_id m)" if "m \<in> set mods" for m
    using that b assms(1) by (auto simp: built_def PrimaryPackages_def)
  note adj = moduleAdjacency_facts [OF ends this]
  have "(v, v) \<notin> arrows ?adj" for v using adj(1) built_edge_ends(3) [OF b] by auto
  note cyc = components_acyclic [OF adj(2,4) this]
  have "?reported \<longleftrightarrow> (\<exists>c \<in> set (stronglyConnectedComponents ?adj). 2 \<le> length c)" by (rule built_reports_cycle [OF b])
  also have "\<dots> \<longleftrightarrow> \<not> acyclic (arrows ?adj)" by (rule cyc)
  also have "arrows ?adj = module_graph program model"
    using adj(1) built_graph [OF b] by (simp add: module_graph_def)
  finally show ?thesis .
qed

text \<open>
  Every primary package is owned by the module with the longest root at or above it in the
  same Go module, and has no owner exactly when there is no such module.
\<close>
theorem Build_owner_longest:
  assumes "\<And>pkg. pkg \<in> set program \<Longrightarrow> nul \<notin> set (load_path pkg)"
    and "model = BuildWithUniverse U (Some program) [] occs uni"
    and "distinct (map load_path (PrimaryPackages program))" "pkg \<in> set (PrimaryPackages program)"
  shows "case Owner model (load_path pkg) of
      None \<Rightarrow> \<forall>m \<in> set (modules model). \<not> owns m pkg
    | Some m \<Rightarrow> m \<in> set (modules model) \<and> owns m pkg \<and>
        (\<forall>m' \<in> set (modules model). owns m' pkg \<longrightarrow> length (mod_root m') \<le> length (mod_root m))"
proof -
  obtain mods owner edges where b: "built (PrimaryPackages program) mods owner edges model"
    using BuildWithUniverse_built [OF assms(1)] assms(2) by blast
  have o: "owner (load_path pkg) = ownerIndex mods pkg"
    using b packageIndex_distinct [OF assms(3,4)] by (simp add: built_def)
  have sort: "owns (sort_module m) pkg = owns m pkg" for m by (simp add: owns_def)
  have mods: "modules model = map sort_module mods" using b by (simp add: built_def)
  show ?thesis
    using ownerIndex_best [of mods pkg] unfolding built_owner(1) [OF b] o mods
    by (cases "ownerIndex mods pkg") (auto simp: best_owner_def sort all_set_conv_all_nth)
qed

text \<open>
  A dependency identity that is accepted is printed back as it was written, names a module and has
  the position of its declaration.
\<close>
theorem parseDependency_string:
  assumes "parseDependency U identity occ = Inr d"
  shows "dependency_string d = identity \<and> mdep_module d \<noteq> [] \<and> mdep_position d = occ_position occ"
proof -
  obtain before after found where c: "cut_separator identity = (before, after, found)" by (metis prod_cases3)
  note s = cut_separator_join [OF c]
  have "d = \<lparr>mdep_module = before, mdep_interface = after, mdep_position = occ_position occ,
      mdep_physical = physicalPosition occ\<rparr>" and "before \<noteq> []" and "found \<Longrightarrow> after \<noteq> []"
    using assms c by (auto simp: parseDependency_def Let_def split: if_splits)
  then show ?thesis
    using s by (auto simp: dependency_string_def)
qed

text \<open>
  C31. Focusing a built model on one of its modules fails exactly when a module it reaches through
  imports lies on a cycle of modules.  The result keeps the modules that the focused one reaches, all
  the edges between them, and lists them with every dependency before the modules that need it.
\<close>
theorem Focus_correct:
  assumes "\<And>pkg. pkg \<in> set program \<Longrightarrow> nul \<notin> set (load_path pkg)"
    and "model = BuildWithUniverse U (Some program) [] occs uni"
    and "moduleID \<in> mod_id ` set (modules model)"
  defines "graph \<equiv> module_graph program model"
  shows "case Focus U model moduleID of
      Inl e \<Rightarrow> \<exists>w. (moduleID, w) \<in> graph\<^sup>* \<and> (w, w) \<in> graph\<^sup>+
    | Inr result \<Rightarrow> \<not> (\<exists>w. (moduleID, w) \<in> graph\<^sup>* \<and> (w, w) \<in> graph\<^sup>+) \<and>
        mod_id ` set (modules result) = {w. (moduleID, w) \<in> graph\<^sup>*} \<and>
        set (module_edges result) = {e \<in> set (module_edges model). (moduleID, from_module e) \<in> graph\<^sup>*} \<and>
        distinct (dependency_order result) \<and> last (dependency_order result) = moduleID \<and>
        (\<forall>i < length (dependency_order result). graph `` {dependency_order result ! i} \<subseteq>
           set (take i (dependency_order result)))"
proof -
  obtain mods owner edges where b: "built (PrimaryPackages program) mods owner edges model"
    using BuildWithUniverse_built [OF assms(1)] assms(2) by blast
  let ?adj = "moduleAdjacency (modules model) (module_edges model)"
  have g: "arrows ?adj = graph" unfolding graph_def by (rule built_adjacency [OF b assms(1)])
  note order = focused_order [of moduleID ?adj, unfolded g]
  show ?thesis
  proof (cases "Focus U model moduleID")
    case (Inl e)
    then have "\<exists>e. focusedDependencyOrder moduleID ?adj = Inl e"
      using assms(3) by (auto simp: Focus_def list_ex_iff split: if_splits sum.splits)
    then show ?thesis using order Inl by auto
  next
    case (Inr result)
    note f = Focus_modules [OF Inr]
    let ?order = "dependency_order result"
    have o: "set ?order = {w. (moduleID, w) \<in> graph\<^sup>*}" "distinct ?order" "last ?order = moduleID"
        "\<not> (\<exists>w. (moduleID, w) \<in> graph\<^sup>* \<and> (w, w) \<in> graph\<^sup>+)"
        "\<forall>i < length ?order. set (neighbours ?adj (?order ! i)) \<subseteq> set (take i ?order)"
      using order f(1) by auto
    have "graph `` {v} = set (neighbours ?adj v)" for v unfolding g [symmetric] by (auto simp: arrows_def)
    then have first: "\<forall>i < length ?order. graph `` {?order ! i} \<subseteq> set (take i ?order)" using o(5) by simp
    have kept: "mod_id ` set (modules result) = {w. (moduleID, w) \<in> graph\<^sup>*}"
    proof -
      have "{w. (moduleID, w) \<in> graph\<^sup>*} \<subseteq> mod_id ` set (modules model)"
        using crossing_modules [OF b _ assms(3)] by (auto simp: graph_def)
      then show ?thesis unfolding f(2) o(1) by blast
    qed
    have "(from_module e, to_module e) \<in> graph" if "e \<in> set (module_edges model)" for e
      unfolding graph_def by (rule built_edge_graph [OF b that])
    then have "set (module_edges result) = {e \<in> set (module_edges model). (moduleID, from_module e) \<in> graph\<^sup>*}"
      unfolding f(3) o(1) by (auto intro: rtrancl_into_rtrancl)
    then show ?thesis unfolding Inr sum.case using kept first o(2-4) by blast
  qed
qed

end
