(* ===== verification/Modulith_Sample.thy ===== *)
theory Modulith_Sample
  imports Modulith_Laws
begin

text \<open>
  A program of two modules on which the architecture rules are run.  \<open>m/b\<close> lists \<open>m/a\<close> and imports its
  root package and its internal package \<open>m/a/x\<close>; \<open>m/a\<close> lists nothing and imports \<open>m/b\<close>.
\<close>

definition sample_import :: "string \<Rightarrow> import_spec" where
  "sample_import p = \<lparr>spec_value = [CHR 0x22] @ p @ [CHR 0x22], spec_position = no_position, spec_physical = no_position\<rparr>"

definition sample_package :: "string \<Rightarrow> string list \<Rightarrow> load_package" where
  "sample_package p ps = \<lparr>load_path = p, load_name = ''x'', load_module_path = ''m'', load_auxiliary = False,
     load_raw = True, load_files = [Some (map sample_import ps)]\<rparr>"

definition sample_module :: "string \<Rightarrow> string list \<Rightarrow> occurrence" where
  "sample_module p allowed = \<lparr>occ_annotation = \<lparr>ann_name = ''Module'', ann_arguments = [], ann_position = no_position,
       ann_raw = []\<rparr>,
     occ_bound = True, occ_target = ''package'', occ_package = p, occ_file = ''doc.go'', occ_offset = 0,
     occ_position = no_position, occ_contributions = [ModuleContribution allowed]\<rparr>"

definition sample_modules :: "load_package list" where
  "sample_modules = [sample_package ''m/a'' [''m/b''], sample_package ''m/a/x'' [], sample_package ''m/b'' [''m/a'', ''m/a/x'']]"

definition sample_model :: module_model where
  "sample_model = BuildWithUniverse latin_only (Some sample_modules) []
     [sample_module ''m/b'' [''m/a''], sample_module ''m/a'' []] (\<lambda>m. None)"

lemma sample_module_paths: "pkg \<in> set sample_modules \<Longrightarrow> nul \<notin> set (load_path pkg)"
  by (auto simp: sample_modules_def sample_package_def nul_def)

lemma sample_module_kinds:
  "map mdiag_kind (mdiags sample_model) = [''internal-access'', ''undeclared-dependency'', ''module-cycle'']"
  by code_simp

section \<open>Instances\<close>


theorem Build_reports_cycles_witness:
  "\<not> acyclic (module_graph sample_modules sample_model)"
proof -
  have "''module-cycle'' \<in> mdiag_kind ` set (mdiags sample_model)"
    unfolding set_map [symmetric] sample_module_kinds by simp
  then show ?thesis using Build_reports_cycles [OF sample_module_paths sample_model_def] by auto
qed

theorem Build_owner_longest_witness:
  "map_option mod_id (Owner sample_model ''m/a/x'') = Some ''m/a'' \<and>
   (case Owner sample_model ''m/a/x'' of
      None \<Rightarrow> False
    | Some m \<Rightarrow> owns m (sample_package ''m/a/x'' []))"
proof -
  have owner: "map_option mod_id (Owner sample_model ''m/a/x'') = Some ''m/a''" by code_simp
  have "distinct (map load_path (PrimaryPackages sample_modules))" by code_simp
  moreover have "sample_package ''m/a/x'' [] \<in> set (PrimaryPackages sample_modules)"
    by (simp add: sample_modules_def sample_package_def PrimaryPackages_def)
  ultimately show ?thesis
    using Build_owner_longest [OF sample_module_paths sample_model_def, of "sample_package ''m/a/x'' []"] owner
    by (auto simp: sample_package_def split: option.splits)
qed

theorem parseDependency_string_witness:
  "\<exists>d. parseDependency latin_only ''m/a::api'' (sample_module ''m/b'' []) = Inr d \<and>
     dependency_string d = ''m/a::api'' \<and> mdep_module d \<noteq> []"
proof -
  let ?occ = "sample_module ''m/b'' []"
  let ?d = "\<lparr>mdep_module = ''m/a'', mdep_interface = ''api'', mdep_position = occ_position ?occ,
    mdep_physical = physicalPosition ?occ\<rparr>"
  have "parseDependency latin_only ''m/a::api'' ?occ = Inr ?d" by code_simp
  from this parseDependency_string [OF this] show ?thesis by blast
qed

theorem Focus_correct_witness:
  "\<exists>w. (''m/b'', w) \<in> (module_graph sample_modules sample_model)\<^sup>* \<and>
     (w, w) \<in> (module_graph sample_modules sample_model)\<^sup>+"
proof -
  have "list_ex (\<lambda>m. mod_id m = ''m/b'') (modules sample_model)" by code_simp
  then have m: "''m/b'' \<in> mod_id ` set (modules sample_model)" by (force simp: list_ex_iff)
  have "isl (Focus latin_only sample_model ''m/b'')" by code_simp
  then show ?thesis
    using Focus_correct [OF sample_module_paths sample_model_def m] by (auto split: sum.splits)
qed

end
