(* ===== verification/Lsp_Position.thy ===== *)
theory Lsp_Position
  imports Go_Text
begin

text \<open>
  Positions of the language server: \<open>src/internal/lsp/features.go\<close> (\<open>byteOffset\<close>,
  \<open>protocolPositionAtOffset\<close>, \<open>contentLine\<close>, ranges) and \<open>src/internal/lsp/analysis.go\<close>
  (\<open>utf16Length\<close>, \<open>protocolPositionFromCompiler\<close>).  Documents are byte strings; a protocol position
  counts lines from zero and UTF-16 code units in the line.
\<close>

section \<open>Rune boundaries\<close>

abbreviation rune_size :: "string \<Rightarrow> nat" where
  "rune_size s \<equiv> snd (decode_rune s)"

lemma rune_size_bounds: "s \<noteq> [] \<Longrightarrow> 0 < rune_size s \<and> rune_size s \<le> length s"
  using decode_rune_size [OF _ prod.collapse [symmetric]] by blast

text \<open>A decoded rune does not depend on the bytes after it.\<close>

lemma bytes_cases:
  obtains "s = []" | a where "s = [a]" | a b where "s = [a, b]" | a b c where "s = [a, b, c]"
  | a b c d t where "s = a # b # c # d # t"
  by (metis list.exhaust)

lemma decode_rune_long: "2 \<le> rune_size s \<Longrightarrow> decode_rune (take (rune_size s) s @ t) = decode_rune s"
  by (cases s rule: bytes_cases) (auto simp: decode_rune_def Let_def split: if_splits)

lemma decode_rune_short:
  "rune_size s = 1 \<Longrightarrow> fst (decode_rune s) = (if byte_of (hd s) < 128 then byte_of (hd s) else rune_error)"
  by (cases s rule: bytes_cases) (auto simp: decode_rune_def Let_def split: if_splits)

lemma second_byte_continuation: "second_byte_ok b c \<Longrightarrow> 128 \<le> c"
  by (auto simp: second_byte_ok_def continuation_def in_range_def split: if_splits)

lemma decode_rune_inner:
  assumes "0 < j" "j < rune_size s"
  shows "128 \<le> byte_of (s ! j)"
proof (rule ccontr)
  assume a: "\<not> 128 \<le> byte_of (s ! j)"
  have c: "continuation b \<Longrightarrow> 128 \<le> b" for b by (simp add: continuation_def in_range_def)
  have "j = 1 \<or> j = 2 \<or> j = 3 \<or> 4 \<le> j" using assms(1) by linarith
  then show False using assms(2) a
    by (cases s rule: bytes_cases) (auto simp: decode_rune_def Let_def numeral_eq_Suc dest: c second_byte_continuation split: if_splits)
qed

lemma decode_rune_take:
  assumes "rune_size s \<le> k" "0 < k"
  shows "decode_rune (take k s) = decode_rune s"
proof (cases "s = []")
  case False
  have pos: "0 < rune_size s" "rune_size s \<le> length s" using rune_size_bounds [OF False] by auto
  show ?thesis
  proof (cases "2 \<le> rune_size s")
    case True
    have "take k s = take (rune_size s) s @ take (k - rune_size s) (drop (rune_size s) s)"
      using assms(1) by (metis le_add_diff_inverse take_add)
    then show ?thesis using decode_rune_long [OF True] by simp
  next
    case short: False
    have one: "rune_size s = 1" using short pos(1) by simp
    have ne: "take k s \<noteq> []" using False assms(2) by simp
    have "\<not> 2 \<le> rune_size (take k s)"
    proof
      assume two: "2 \<le> rune_size (take k s)"
      have m: "rune_size (take k s) \<le> k" using rune_size_bounds [OF ne] by simp
      have "s = take (rune_size (take k s)) (take k s) @ drop (rune_size (take k s)) s"
        using m by (simp add: min_def)
      then have "decode_rune s = decode_rune (take k s)" using decode_rune_long [OF two] by metis
      then show False using two one by simp
    qed
    then have one': "rune_size (take k s) = 1" using rune_size_bounds [OF ne] by simp
    have "hd (take k s) = hd s" using False assms(2) by (cases s; cases k) auto
    then show ?thesis using decode_rune_short [OF one] decode_rune_short [OF one'] one one'
      by (metis prod.collapse)
  qed
qed simp

inductive boundary :: "string \<Rightarrow> nat \<Rightarrow> bool" where
  boundary_start: "boundary s 0"
| boundary_rune: "s \<noteq> [] \<Longrightarrow> boundary (drop (rune_size s) s) k \<Longrightarrow> boundary s (rune_size s + k)"

lemma boundary_le: "boundary s k \<Longrightarrow> k \<le> length s"
proof (induction rule: boundary.induct)
  case (boundary_rune s k)
  then show ?case using rune_size_bounds [OF boundary_rune.hyps(1)] by auto
qed simp

lemma boundary_add: "boundary s k \<Longrightarrow> boundary (drop k s) j \<Longrightarrow> boundary s (k + j)"
proof (induction rule: boundary.induct)
  case (boundary_rune s k)
  then have "boundary s (rune_size s + (k + j))"
    by (intro boundary.boundary_rune) (simp_all add: add.commute)
  then show ?case by (simp add: add.assoc)
qed simp

lemma boundary_step: "s \<noteq> [] \<Longrightarrow> boundary s (rune_size s)"
  using boundary_rune [OF _ boundary_start] by simp

lemma boundary_end: "boundary s (length s)"
proof (induction "length s" arbitrary: s rule: less_induct)
  case less
  show ?case
  proof (cases "s = []")
    case False
    have "boundary (drop (rune_size s) s) (length (drop (rune_size s) s))"
      by (rule less) (use rune_size_bounds [OF False] in \<open>simp, linarith\<close>)
    from boundary_rune [OF False this] show ?thesis using rune_size_bounds [OF False] by simp
  qed (simp add: boundary_start)
qed

text \<open>An ASCII byte is a rune of its own, whatever surrounds it.\<close>

lemma boundary_ascii:
  assumes "k < length s" "byte_of (s ! k) < 128"
  shows "boundary s k" "boundary s (Suc k)"
proof -
  show *: "boundary s k" using assms
  proof (induction "length s" arbitrary: s k rule: less_induct)
    case less
    show ?case
    proof (cases "k = 0")
      case False
      have s: "s \<noteq> []" using less.prems by auto
      have "rune_size s \<le> k" using decode_rune_inner [of k s] less.prems(2) False by force
      moreover have "boundary (drop (rune_size s) s) (k - rune_size s)"
        by (rule less.hyps) (use less.prems calculation rune_size_bounds [OF s] in auto)
      ultimately show ?thesis using boundary_rune [OF s, of "k - rune_size s"] by simp
    qed (simp add: boundary_start)
  qed
  have "decode_rune (drop k s) = (byte_of (s ! k), 1)"
    using assms by (simp add: decode_rune_def Cons_nth_drop_Suc [symmetric])
  then have "boundary (drop k s) 1" using boundary_step [of "drop k s"] assms(1) by simp
  from boundary_add [OF * this] show "boundary s (Suc k)" by simp
qed

section \<open>UTF-16 lengths\<close>

definition rune_units :: "rune \<Rightarrow> nat" where
  "rune_units r = (if r > 65535 then 2 else 1)"

function utf16Length :: "string \<Rightarrow> nat" where
  "utf16Length s =
     (if s = [] then 0 else rune_units (fst (decode_rune s)) + utf16Length (drop (rune_size s) s))"
  by pat_completeness auto
termination
  by (relation "measure length") (auto dest: rune_size_bounds)

declare utf16Length.simps [simp del]

lemma utf16Length_Nil [simp]: "utf16Length [] = 0"
  by (simp add: utf16Length.simps)

lemma utf16Length_split: "boundary s k \<Longrightarrow> utf16Length s = utf16Length (take k s) + utf16Length (drop k s)"
proof (induction rule: boundary.induct)
  case (boundary_rune s k)
  have b: "0 < rune_size s" "rune_size s \<le> length s" using rune_size_bounds [OF boundary_rune.hyps(1)] by auto
  let ?t = "take (rune_size s + k) s"
  have d: "decode_rune ?t = decode_rune s" by (rule decode_rune_take) (use b in auto)
  have "utf16Length s = rune_units (fst (decode_rune s)) + utf16Length (drop (rune_size s) s)"
    using boundary_rune.hyps(1) by (subst utf16Length.simps) simp
  also have "utf16Length (drop (rune_size s) s) =
      utf16Length (take k (drop (rune_size s) s)) + utf16Length (drop (rune_size s + k) s)"
    using boundary_rune.IH by (simp add: add.commute)
  also have "take k (drop (rune_size s) s) = drop (rune_size ?t) ?t"
    unfolding d by (simp add: drop_take)
  also have "rune_units (fst (decode_rune s)) + (utf16Length (drop (rune_size ?t) ?t) + utf16Length (drop (rune_size s + k) s))
      = utf16Length ?t + utf16Length (drop (rune_size s + k) s)"
    using b boundary_rune.hyps(1) d by (subst (2) utf16Length.simps) simp
  finally show ?case .
qed simp

lemma utf16Length_bounds: "utf16Length s \<le> length s"
proof (induction s rule: utf16Length.induct)
  case (1 s)
  show ?case
  proof (cases "s = []")
    case False
    have "rune_units (fst (decode_rune s)) \<le> rune_size s"
    proof (cases "fst (decode_rune s) > 65535")
      case True
      then have "rune_size s \<noteq> 1" using decode_rune_short [of s] by (auto simp: rune_error_def split: if_splits)
      then show ?thesis using rune_size_bounds [OF False] by (simp add: rune_units_def)
    qed (use rune_size_bounds [OF False] in \<open>simp add: rune_units_def\<close>)
    moreover have "utf16Length (drop (rune_size s) s) \<le> length s - rune_size s" using 1 [OF False] by simp
    moreover have "utf16Length s = rune_units (fst (decode_rune s)) + utf16Length (drop (rune_size s) s)"
      using False by (subst utf16Length.simps) simp
    ultimately show ?thesis using rune_size_bounds [OF False] by linarith
  qed simp
qed

lemma utf16Length_pos: "s \<noteq> [] \<Longrightarrow> 0 < utf16Length s"
  by (subst utf16Length.simps) (simp add: rune_units_def)

section \<open>Lines\<close>

definition newline_char :: char where
  "newline_char = CHR 0x0A"

definition carriage_return :: char where
  "carriage_return = CHR 0x0D"

text \<open>\<open>bytes.IndexByte\<close> and \<open>slices.Index\<close> of a byte.\<close>

definition index_byte :: "string \<Rightarrow> char \<Rightarrow> nat option" where
  "index_byte s c = (if c \<in> set s then Some (length (takeWhile (\<lambda>d. d \<noteq> c) s)) else None)"

fun line_start :: "string \<Rightarrow> nat \<Rightarrow> nat \<Rightarrow> nat option" where
  "line_start content 0 start = Some start"
| "line_start content (Suc lines) start =
     (case index_byte (drop start content) newline_char of
        None \<Rightarrow> None
      | Some i \<Rightarrow> line_start content lines (start + (i + 1)))"

definition visible :: "char \<Rightarrow> bool" where
  "visible c = (c \<noteq> newline_char \<and> c \<noteq> carriage_return)"

definition contentLine :: "string \<Rightarrow> int \<Rightarrow> (nat \<times> nat) option" where
  "contentLine content oneBasedLine =
     (if oneBasedLine \<le> 0 then None
      else if content = [] then (if oneBasedLine = 1 then Some (0, 0) else None)
      else case line_start content (nat (oneBasedLine - 1)) 0 of
             None \<Rightarrow> None
           | Some start \<Rightarrow> Some (start, start + length (takeWhile visible (drop start content))))"

record protocol_position =
  position_line :: int
  position_character :: int

record protocol_range =
  range_start :: protocol_position
  range_end :: protocol_position

text \<open>The loop of \<open>byteOffset\<close> over the rest of the line.\<close>

function offset_in_line :: "string \<Rightarrow> nat \<Rightarrow> nat \<Rightarrow> nat \<Rightarrow> nat option" where
  "offset_in_line rest offset units character =
     (if rest = [] then (if units = character then Some offset else None)
      else if units = character then Some offset
      else if units + rune_units (fst (decode_rune rest)) > character then None
      else offset_in_line (drop (rune_size rest) rest) (offset + rune_size rest)
             (units + rune_units (fst (decode_rune rest))) character)"
  by pat_completeness auto
termination
  by (relation "measure (\<lambda>(rest, offset, units, character). length rest)") (auto dest: rune_size_bounds)

declare offset_in_line.simps [simp del]

definition byteOffset :: "string \<Rightarrow> protocol_position \<Rightarrow> nat option" where
  "byteOffset content position =
     (if position_line position < 0 \<or> position_character position < 0 then None
      else case contentLine content (position_line position + 1) of
             None \<Rightarrow> None
           | Some (start, end) \<Rightarrow>
               offset_in_line (take (end - start) (drop start content)) start 0 (nat (position_character position)))"

fun scan_lines :: "string \<Rightarrow> nat \<Rightarrow> nat \<times> nat \<Rightarrow> nat \<times> nat" where
  "scan_lines [] i st = st"
| "scan_lines (c # s) i st = scan_lines s (i + 1) (if c = newline_char then (fst st + 1, i + 1) else st)"

definition protocolPositionAtOffset :: "string \<Rightarrow> int \<Rightarrow> protocol_position" where
  "protocolPositionAtOffset content offset =
     (let k = nat (min (max offset 0) (int (length content)));
          (line, lineStart) = scan_lines (take k content) 0 (0, 0)
      in \<lparr>position_line = int line,
          position_character = int (utf16Length (take (k - lineStart) (drop lineStart content)))\<rparr>)"

definition protocolRangeAtOffsets :: "string \<Rightarrow> int \<Rightarrow> int \<Rightarrow> protocol_range" where
  "protocolRangeAtOffsets content start end =
     \<lparr>range_start = protocolPositionAtOffset content start, range_end = protocolPositionAtOffset content end\<rparr>"

fun line_back :: "string \<Rightarrow> nat \<Rightarrow> nat" where
  "line_back content 0 = 0"
| "line_back content (Suc i) = (if content ! i = newline_char then Suc i else line_back content i)"

definition contentLineAtOffset :: "string \<Rightarrow> int \<Rightarrow> nat option" where
  "contentLineAtOffset content offset =
     (if offset < 0 \<or> offset > int (length content) then None else Some (line_back content (nat offset)))"

definition comparePosition :: "protocol_position \<Rightarrow> protocol_position \<Rightarrow> int" where
  "comparePosition left right =
     (if position_line left \<noteq> position_line right then position_line left - position_line right
      else position_character left - position_character right)"

definition rangesOverlap :: "protocol_range \<Rightarrow> protocol_range \<Rightarrow> bool" where
  "rangesOverlap left right =
     (comparePosition (range_end left) (range_start right) \<ge> 0 \<and>
      comparePosition (range_end right) (range_start left) \<ge> 0)"

section \<open>Positions and offsets\<close>

lemma index_byte_Some:
  assumes "index_byte s c = Some i"
  shows "s = take i s @ c # drop (i + 1) s" "c \<notin> set (take i s)" "i < length s"
proof -
  have c: "c \<in> set s" and i: "i = length (takeWhile (\<lambda>d. d \<noteq> c) s)"
    using assms by (auto simp: index_byte_def split: if_splits)
  have t: "take i s = takeWhile (\<lambda>d. d \<noteq> c) s" unfolding i by (simp add: takeWhile_eq_take [symmetric])
  show "c \<notin> set (take i s)" unfolding t by (auto dest: set_takeWhileD)
  have "takeWhile (\<lambda>d. d \<noteq> c) s \<noteq> s" using c by (metis (full_types) takeWhile_eq_all_conv)
  then show len: "i < length s" unfolding i
    by (metis length_takeWhile_le nat_less_le takeWhile_eq_take take_all_iff)
  have "s ! i = c" using nth_length_takeWhile [of "\<lambda>d. d \<noteq> c" s] len i by auto
  then show "s = take i s @ c # drop (i + 1) s" using len by (metis Suc_eq_plus1 id_take_nth_drop)
qed

lemma scan_lines_append: "scan_lines (s @ t) i st = scan_lines t (i + length s) (scan_lines s i st)"
  by (induction s arbitrary: i st) simp_all

lemma scan_lines_none: "newline_char \<notin> set s \<Longrightarrow> scan_lines s i st = st"
  by (induction s arbitrary: i) auto

lemma line_start_scan:
  assumes "line_start content n start = Some k" "scan_lines (take start content) 0 (0, 0) = (line, start)"
    "start \<le> length content"
  shows "scan_lines (take k content) 0 (0, 0) = (line + n, k)" "k \<le> length content"
proof -
  have "scan_lines (take k content) 0 (0, 0) = (line + n, k) \<and> k \<le> length content"
    using assms
  proof (induction n arbitrary: start line)
    case (Suc n)
    then obtain i where i: "index_byte (drop start content) newline_char = Some i"
        "line_start content n (start + (i + 1)) = Some k"
      by (auto split: option.splits)
    note s = index_byte_Some [OF i(1)]
    have len: "start + (i + 1) \<le> length content" using s(3) by simp
    have nth: "content ! (start + i) = newline_char"
      using s(1,3) by (metis nth_append_length length_take min.absorb4 nth_drop add_leE less_imp_le_nat Suc.prems(3))
    have "take (start + (i + 1)) content = take start content @ take i (drop start content) @ [newline_char]"
      using len nth by (simp add: take_add take_Suc_conv_app_nth)
    then have "scan_lines (take (start + (i + 1)) content) 0 (0, 0) = (Suc line, start + (i + 1))"
      using Suc.prems(2,3) s(2,3) by (simp add: scan_lines_append scan_lines_none)
    from Suc.IH [OF i(2) this len] show ?case by simp
  qed simp
  then show "scan_lines (take k content) 0 (0, 0) = (line + n, k)" "k \<le> length content" by auto
qed

lemma offset_in_line_Some:
  "offset_in_line rest offset units character = Some k \<longleftrightarrow>
     (\<exists>j. k = offset + j \<and> boundary rest j \<and> units + utf16Length (take j rest) = character)"
proof (induction rest offset units character rule: offset_in_line.induct)
  case (1 rest offset units character)
  show ?case
  proof (cases "rest = []")
    case True
    have "boundary [] j \<longleftrightarrow> j = 0" for j using boundary_le [of "[]" j] boundary_start by auto
    then show ?thesis using True by (subst offset_in_line.simps) auto
  next
    case False
    let ?u = "rune_units (fst (decode_rune rest))" and ?n = "rune_size rest"
    have n: "0 < ?n" "?n \<le> length rest" and u: "0 < ?u" using rune_size_bounds [OF False] by (auto simp: rune_units_def)
    have step: "boundary rest j \<longleftrightarrow> j = 0 \<or> (\<exists>m. j = ?n + m \<and> boundary (drop ?n rest) m)" for j
      using False by (subst boundary.simps) auto
    have len: "utf16Length (take (?n + m) rest) = ?u + utf16Length (take m (drop ?n rest))" for m
    proof -
      have "decode_rune (take (?n + m) rest) = decode_rune rest" by (rule decode_rune_take) (use n in auto)
      then show ?thesis using False n by (subst utf16Length.simps) (simp add: drop_take)
    qed
    have rhs: "(\<exists>j. k = offset + j \<and> boundary rest j \<and> units + utf16Length (take j rest) = character) \<longleftrightarrow>
        (k = offset \<and> units = character) \<or> (\<exists>m. k = offset + ?n + m \<and> boundary (drop ?n rest) m \<and>
          units + ?u + utf16Length (take m (drop ?n rest)) = character)"
      unfolding step by (auto simp: len add.assoc)
    show ?thesis
    proof (cases "units = character \<or> units + ?u > character")
      case True
      then show ?thesis unfolding rhs using False u by (subst offset_in_line.simps) (auto simp: split_def Let_def)
    next
      case go: False
      then have "offset_in_line rest offset units character = offset_in_line (drop ?n rest) (offset + ?n) (units + ?u) character"
        using False by (subst offset_in_line.simps) (simp add: split_def Let_def)
      then show ?thesis unfolding rhs using "1.IH" [OF False] go by auto
    qed
  qed
qed

text \<open>What \<open>byteOffset\<close> finds: the end of a run of whole runes in the visible part of the line.\<close>

lemma contentLine_Some:
  assumes "contentLine content (int line + 1) = Some (start, end)"
  shows "scan_lines (take start content) 0 (0, 0) = (line, start)" "start \<le> end" "end \<le> length content"
    "end = start + length (takeWhile visible (drop start content))"
proof -
  have "line_start content line 0 = Some start \<and> end = start + length (takeWhile visible (drop start content))"
    using assms by (cases "content = []") (auto simp: contentLine_def split: if_splits option.splits)
  moreover from this have "scan_lines (take start content) 0 (0, 0) = (line, start)" "start \<le> length content"
    using line_start_scan [of content line 0 start 0] by auto
  moreover have "length (takeWhile visible (drop start content)) \<le> length content - start"
    using length_takeWhile_le [of visible "drop start content"] by simp
  ultimately show "scan_lines (take start content) 0 (0, 0) = (line, start)" "start \<le> end" "end \<le> length content"
    "end = start + length (takeWhile visible (drop start content))" by auto
qed

lemma take_visible:
  "j \<le> length (takeWhile visible s) \<Longrightarrow> take j s = take j (takeWhile visible s)"
  by (metis takeWhile_eq_take take_take min.absorb1)

lemma byteOffset_line:
  "byteOffset content \<lparr>position_line = int line, position_character = int character\<rparr> = Some k \<longleftrightarrow>
     (\<exists>start end j. contentLine content (int line + 1) = Some (start, end) \<and> k = start + j \<and>
        boundary (takeWhile visible (drop start content)) j \<and> utf16Length (take j (drop start content)) = character)"
proof -
  have "take (end - start) (drop start content) = takeWhile visible (drop start content)"
    if "contentLine content (int line + 1) = Some (start, end)" for start "end"
    using contentLine_Some(4) [OF that] by (simp add: takeWhile_eq_take [symmetric])
  moreover have "take j (drop start content) = take j (takeWhile visible (drop start content))"
    if "boundary (takeWhile visible (drop start content)) j" for start j
    using boundary_le [OF that] by (rule take_visible)
  ultimately show ?thesis
    by (auto simp: byteOffset_def offset_in_line_Some split: option.splits)
qed

text \<open>The line that an offset lies in, from either side.\<close>

lemma line_start_Suc:
  "line_start content (Suc n) start = Option.bind (line_start content n start)
     (\<lambda>st. map_option (\<lambda>i. st + (i + 1)) (index_byte (drop st content) newline_char))"
proof (induction n arbitrary: start)
  case (Suc n)
  show ?case
  proof (cases "index_byte (drop start content) newline_char")
    case (Some i)
    then have "line_start content (Suc (Suc n)) start = line_start content (Suc n) (start + (i + 1))"
      "line_start content (Suc n) start = line_start content n (start + (i + 1))" by simp_all
    then show ?thesis unfolding Suc.IH by simp
  qed simp
qed (simp split: option.split)

lemma index_byte_at:
  assumes "k < length s" "s ! k = c" "c \<notin> set (take k s)"
  shows "index_byte s c = Some k"
proof -
  have "s = take k s @ c # drop (Suc k) s" using assms(1,2) id_take_nth_drop by blast
  moreover have "takeWhile (\<lambda>d. d \<noteq> c) (take k s @ c # drop (Suc k) s) = take k s"
    using assms(3) by (subst takeWhile_append2) auto
  ultimately have "takeWhile (\<lambda>d. d \<noteq> c) s = take k s" "c \<in> set s" by (simp, metis in_set_conv_decomp)
  then show ?thesis using assms(1) by (simp add: index_byte_def)
qed

lemma scan_lines_offset:
  assumes "k \<le> length content" "scan_lines (take k content) 0 (0, 0) = (line, start)"
  shows "line_start content line 0 = Some start" "start \<le> k" "newline_char \<notin> set (take (k - start) (drop start content))"
    "line_back content k = start"
proof -
  have "line_start content line 0 = Some start \<and> start \<le> k \<and> newline_char \<notin> set (take (k - start) (drop start content)) \<and>
      line_back content k = start"
    using assms
  proof (induction k arbitrary: line start)
    case (Suc k)
    obtain l st where p: "scan_lines (take k content) 0 (0, 0) = (l, st)" by fastforce
    have IH: "line_start content l 0 = Some st" "st \<le> k" "newline_char \<notin> set (take (k - st) (drop st content))"
        "line_back content k = st"
      using Suc.IH [OF _ p] Suc.prems(1) by auto
    have s: "(line, start) = (if content ! k = newline_char then (Suc l, Suc k) else (l, st))"
      using Suc.prems p by (auto simp: take_Suc_conv_app_nth scan_lines_append)
    show ?case
    proof (cases "content ! k = newline_char")
      case True
      have "index_byte (drop st content) newline_char = Some (k - st)"
        using IH(2,3) True Suc.prems(1) by (intro index_byte_at) auto
      then have "line_start content (Suc l) 0 = Some (Suc k)" using IH(1,2) by (simp add: line_start_Suc del: line_start.simps)
      then show ?thesis using s True by simp
    next
      case False
      have "take (Suc k - st) (drop st content) = take (k - st) (drop st content) @ [content ! k]"
        using IH(2) Suc.prems(1) by (simp add: Suc_diff_le take_Suc_conv_app_nth)
      then show ?thesis using s False IH by simp
    qed
  qed simp
  then show "line_start content line 0 = Some start" "start \<le> k" "newline_char \<notin> set (take (k - start) (drop start content))"
    "line_back content k = start" by auto
qed

text \<open>An offset at which an editor position can stand.\<close>

definition on_rune :: "string \<Rightarrow> nat \<Rightarrow> bool" where
  "on_rune content k =
     (k \<le> length content \<and>
      boundary (takeWhile visible (drop (line_back content k) content)) (k - line_back content k))"

lemma protocolPositionAtOffset_eq:
  assumes "k \<le> length content" "scan_lines (take k content) 0 (0, 0) = (line, start)"
  shows "protocolPositionAtOffset content (int k) = \<lparr>position_line = int line,
    position_character = int (utf16Length (take (k - start) (drop start content)))\<rparr>"
  using assms by (simp add: protocolPositionAtOffset_def)

lemma contentLine_start:
  assumes "line_start content line 0 = Some start"
  shows "contentLine content (int line + 1) = Some (start, start + length (takeWhile visible (drop start content)))"
proof (cases "content = []")
  case True
  then have "line = 0" using assms by (cases line) (simp_all add: index_byte_def)
  then show ?thesis using True assms by (simp add: contentLine_def)
qed (use assms in \<open>simp add: contentLine_def\<close>)

section \<open>Properties\<close>

text \<open>
  C15. Positions and offsets of a document correspond one to one: an editor position is resolved to an
  offset exactly when that offset has the position and starts or ends a rune of the line's text,
  and a position between the code units of one rune or behind the line's text is refused.
\<close>
theorem byteOffset_exact:
  "byteOffset content position = Some k \<longleftrightarrow>
     on_rune content k \<and> protocolPositionAtOffset content (int k) = position"
proof
  assume found: "byteOffset content position = Some k"
  obtain line character where p: "position = \<lparr>position_line = int line, position_character = int character\<rparr>"
  proof
    have "0 \<le> position_line position" "0 \<le> position_character position"
      using found by (auto simp: byteOffset_def split: if_splits)
    then show "position = \<lparr>position_line = int (nat (position_line position)),
        position_character = int (nat (position_character position))\<rparr>" by simp
  qed
  obtain start "end" j where c: "contentLine content (int line + 1) = Some (start, end)" "k = start + j"
      "boundary (takeWhile visible (drop start content)) j" "utf16Length (take j (drop start content)) = character"
    using found unfolding p byteOffset_line by blast
  note l = contentLine_Some [OF c(1)] and j = boundary_le [OF c(3)]
  have k: "k \<le> length content" using c(2) j l(3,4) by linarith
  have "newline_char \<notin> set (take j (drop start content))"
    unfolding take_visible [OF j] by (auto simp: visible_def dest!: in_set_takeD set_takeWhileD)
  then have scan: "scan_lines (take k content) 0 (0, 0) = (line, start)"
    unfolding c(2) take_add using l(1) by (simp add: scan_lines_append scan_lines_none)
  show "on_rune content k \<and> protocolPositionAtOffset content (int k) = position"
    using protocolPositionAtOffset_eq [OF k scan] scan_lines_offset(4) [OF k scan] c k p by (simp add: on_rune_def)
next
  assume a: "on_rune content k \<and> protocolPositionAtOffset content (int k) = position"
  obtain line start where scan: "scan_lines (take k content) 0 (0, 0) = (line, start)" by fastforce
  have k: "k \<le> length content" using a by (simp add: on_rune_def)
  note o = scan_lines_offset [OF k scan]
  have "boundary (takeWhile visible (drop start content)) (k - start)" using a o(4) by (simp add: on_rune_def)
  then show "byteOffset content position = Some k"
    using a o(2) contentLine_start [OF o(1)] unfolding protocolPositionAtOffset_eq [OF k scan]
    by (auto simp: byteOffset_line intro!: exI [of _ "k - start"])
qed

end
