(* ===== verification/Lsp_Tokens.thy ===== *)
theory Lsp_Tokens
  imports Lsp_Position "HOL-Library.Word"
begin

text \<open>
  \<open>src/internal/lsp/semantic.go\<close>: the semantic tokens of annotation comments and their
  delta encoding in 32-bit words.
\<close>

section \<open>Scanning\<close>

datatype token_kind = Decorator | Parameter | StringToken | NumberToken | Keyword | Operator

fun kind_number :: "token_kind \<Rightarrow> nat" where
  "kind_number Decorator = 0"
| "kind_number Parameter = 1"
| "kind_number StringToken = 2"
| "kind_number NumberToken = 3"
| "kind_number Keyword = 4"
| "kind_number Operator = 5"

record semantic_token =
  token_line :: nat
  token_start :: nat
  token_length :: nat
  token_type :: token_kind

record semantic_step =
  step_token :: "semantic_token option"   \<comment> \<open>\<open>Some\<close> when \<open>emit\<close> is set\<close>
  step_next :: nat
  step_stop :: bool

definition subslice :: "string \<Rightarrow> nat \<Rightarrow> nat \<Rightarrow> string" where
  "subslice s i j = take (j - i) (drop i s)"

definition semanticTokenAt :: "string \<Rightarrow> nat \<Rightarrow> nat \<Rightarrow> nat \<Rightarrow> token_kind \<Rightarrow> semantic_token" where
  "semanticTokenAt lineContent line start end kind =
     \<lparr>token_line = line, token_start = utf16Length (take start lineContent),
      token_length = utf16Length (subslice lineContent start end), token_type = kind\<rparr>"

definition horizontal_space :: "char \<Rightarrow> bool" where
  "horizontal_space c = (c = CHR '' '' \<or> c = CHR 0x09)"

definition skipHorizontalWhitespace :: "string \<Rightarrow> nat \<Rightarrow> nat" where
  "skipHorizontalWhitespace content offset =
     offset + length (takeWhile horizontal_space (drop offset content))"

text \<open>The loop shared by \<open>annotationNameEnd\<close> and \<open>annotationIdentifierEnd\<close>, which differ in the runes they accept.\<close>

function rune_run :: "(rune \<Rightarrow> bool) \<Rightarrow> string \<Rightarrow> nat" where
  "rune_run accepted s =
     (if s = [] then 0
      else if fst (decode_rune s) = rune_error \<and> rune_size s = 1 then 0
      else if \<not> accepted (fst (decode_rune s)) then 0
      else rune_size s + rune_run accepted (drop (rune_size s) s))"
  by pat_completeness auto
termination
  by (relation "measure (\<lambda>(accepted, s). length s)") (auto dest: rune_size_bounds)

declare rune_run.simps [simp del]

definition isAnnotationIdentifierCharacter :: "unicode_tables \<Rightarrow> rune \<Rightarrow> bool" where
  "isAnnotationIdentifierCharacter U r = (is_letter U r \<or> is_digit U r)"

definition annotationNameEnd :: "unicode_tables \<Rightarrow> string \<Rightarrow> nat \<Rightarrow> nat" where
  "annotationNameEnd U content start =
     start + rune_run (\<lambda>r. r = 46 \<or> r = 95 \<or> isAnnotationIdentifierCharacter U r) (drop start content)"

definition annotationIdentifierEnd :: "unicode_tables \<Rightarrow> string \<Rightarrow> nat \<Rightarrow> nat" where
  "annotationIdentifierEnd U content start =
     start + rune_run (\<lambda>r. r = 95 \<or> isAnnotationIdentifierCharacter U r) (drop start content)"

definition annotationIdentifierStart :: "char \<Rightarrow> bool" where
  "annotationIdentifierStart c =
     (c = CHR ''_'' \<or> in_range 97 122 (byte_of c) \<or> in_range 65 90 (byte_of c))"

definition isASCIIDigit :: "char \<Rightarrow> bool" where
  "isASCIIDigit c = in_range 48 57 (byte_of c)"

definition isAnnotationOperator :: "char \<Rightarrow> bool" where
  "isAnnotationOperator c = (c \<in> set ''=()[],'')"

definition isNumberStart :: "string \<Rightarrow> nat \<Rightarrow> bool" where
  "isNumberStart content offset =
     (isASCIIDigit (content ! offset) \<or>
      content ! offset = CHR ''-'' \<and> offset + 1 < length content \<and> isASCIIDigit (content ! (offset + 1)))"

definition numberEnd :: "string \<Rightarrow> nat \<Rightarrow> nat" where
  "numberEnd content start =
     (let end = (if content ! start = CHR ''-'' then start + 1 else start)
      in end + length (takeWhile isASCIIDigit (drop end content)))"

fun quoted_scan :: "string \<Rightarrow> bool \<Rightarrow> nat \<Rightarrow> nat" where
  "quoted_scan [] escaped offset = offset"
| "quoted_scan (c # s) escaped offset =
     (if escaped then quoted_scan s False (offset + 1)
      else if c = CHR 0x5C then quoted_scan s True (offset + 1)
      else if c = CHR 0x22 then offset + 1
      else quoted_scan s False (offset + 1))"

definition quotedStringEnd :: "string \<Rightarrow> nat \<Rightarrow> nat" where
  "quotedStringEnd content start = quoted_scan (drop (start + 1) content) False (start + 1)"

definition nextNonSpace :: "string \<Rightarrow> nat \<Rightarrow> char" where
  "nextNonSpace content start =
     (let offset = skipHorizontalWhitespace content start
      in if offset \<ge> length content then CHR 0x00 else content ! offset)"

definition annotationTokenStep :: "string \<Rightarrow> nat \<Rightarrow> nat \<Rightarrow> nat \<Rightarrow> token_kind \<Rightarrow> semantic_step" where
  "annotationTokenStep content line start end kind =
     \<lparr>step_token = Some (semanticTokenAt content line start end kind), step_next = end, step_stop = False\<rparr>"

definition nextAnnotationSemanticStep :: "unicode_tables \<Rightarrow> string \<Rightarrow> nat \<Rightarrow> nat \<Rightarrow> semantic_step" where
  "nextAnnotationSemanticStep U content line offset =
     (if content ! offset = CHR 0x22
      then annotationTokenStep content line offset (quotedStringEnd content offset) StringToken
      else if isNumberStart content offset
      then annotationTokenStep content line offset (numberEnd content offset) NumberToken
      else if annotationIdentifierStart (content ! offset)
      then let end = annotationIdentifierEnd U content offset
           in annotationTokenStep content line offset end
                (if nextNonSpace content end = CHR ''='' then Parameter else Keyword)
      else if isAnnotationOperator (content ! offset)
      then \<lparr>step_token = Some (semanticTokenAt content line offset (offset + 1) Operator),
             step_next = offset + 1, step_stop = (content ! offset = CHR '')'')\<rparr>
      else \<lparr>step_token = None, step_next = offset + max (rune_size (drop offset content)) 1, step_stop = False\<rparr>)"

definition annotationNameBounds :: "unicode_tables \<Rightarrow> string \<Rightarrow> (nat \<times> nat) option" where
  "annotationNameBounds U lineContent =
     (let offset = skipHorizontalWhitespace lineContent 0
      in if \<not> has_prefix (drop offset lineContent) ''//'' then None
         else let offset = skipHorizontalWhitespace lineContent (offset + 2)
              in if offset \<ge> length lineContent \<or> lineContent ! offset \<noteq> CHR ''@'' then None
                 else let end = annotationNameEnd U lineContent (offset + 1)
                      in if end = offset + 1 then None else Some (offset, end))"

section \<open>Progress\<close>

lemma rune_run_boundary: "boundary s (rune_run accepted s)"
proof (induction accepted s rule: rune_run.induct)
  case (1 accepted s)
  then show ?case
    by (subst rune_run.simps) (auto intro: boundary_start boundary_rune)
qed

lemma identifier_run_pos:
  assumes "annotationIdentifierStart c" "\<And>r. r = 95 \<or> isAnnotationIdentifierCharacter U r \<Longrightarrow> accepted r"
  shows "0 < rune_run accepted (c # s)"
proof -
  have b: "byte_of c < 128" "byte_of c = 95 \<or> isAnnotationIdentifierCharacter U (byte_of c)"
    using assms(1) by (auto simp: annotationIdentifierStart_def in_range_def isAnnotationIdentifierCharacter_def is_letter_def)
  then have "decode_rune (c # s) = (byte_of c, 1)" by (simp add: decode_rune_def)
  then show ?thesis using b assms(2) by (subst rune_run.simps) (auto simp: rune_error_def)
qed

lemma quoted_scan_bounds: "offset \<le> quoted_scan s escaped offset \<and> quoted_scan s escaped offset \<le> offset + length s"
proof (induction s arbitrary: escaped offset)
  case (Cons c s)
  have n: "Suc offset \<le> quoted_scan s e (Suc offset) \<and> quoted_scan s e (Suc offset) \<le> Suc offset + length s" for e
    by (rule Cons.IH)
  then have "offset \<le> quoted_scan s e (Suc offset)" for e using Suc_leD by blast
  then show ?case using n by simp
qed simp

lemma step_next_greater:
  assumes "offset < length content"
  shows "offset < step_next (nextAnnotationSemanticStep U content line offset)"
proof -
  have "offset < quotedStringEnd content offset"
    using quoted_scan_bounds [of "offset + 1" "drop (offset + 1) content" False] by (simp add: quotedStringEnd_def)
  moreover have "offset < numberEnd content offset" if "isNumberStart content offset"
    using that assms by (auto simp: numberEnd_def isNumberStart_def Cons_nth_drop_Suc [symmetric])
  moreover have "offset < annotationIdentifierEnd U content offset" if "annotationIdentifierStart (content ! offset)"
    using identifier_run_pos [OF that, of U "\<lambda>r. r = 95 \<or> isAnnotationIdentifierCharacter U r"] assms
    by (simp add: annotationIdentifierEnd_def Cons_nth_drop_Suc [symmetric])
  ultimately show ?thesis
    by (auto simp: nextAnnotationSemanticStep_def annotationTokenStep_def Let_def)
qed

section \<open>Tokens\<close>

function semantic_loop :: "unicode_tables \<Rightarrow> string \<Rightarrow> nat \<Rightarrow> nat \<Rightarrow> semantic_token list" where
  "semantic_loop U content line offset =
     (if \<not> offset < length content then []
      else let offset = skipHorizontalWhitespace content offset
           in if offset \<ge> length content then []
              else let step = nextAnnotationSemanticStep U content line offset;
                       emitted = (case step_token step of None \<Rightarrow> [] | Some t \<Rightarrow> [t])
                   in if step_stop step then emitted
                      else emitted @ semantic_loop U content line (step_next step))"
  by pat_completeness auto
termination
proof (relation "measure (\<lambda>(U, content, line, offset). length content - offset)", simp, goal_cases)
  case (1 U content line offset offset' step emitted)
  then have "offset' < step_next step" "offset \<le> offset'"
    using step_next_greater by (auto simp: skipHorizontalWhitespace_def)
  then show ?case using 1 by simp
qed

declare semantic_loop.simps [simp del]

definition annotationLineSemanticTokens :: "unicode_tables \<Rightarrow> string \<Rightarrow> nat \<Rightarrow> semantic_token list" where
  "annotationLineSemanticTokens U lineContent line =
     (case annotationNameBounds U lineContent of
        None \<Rightarrow> []
      | Some (nameStart, nameEnd) \<Rightarrow>
          let decorator = semanticTokenAt lineContent line nameStart nameEnd Decorator;
              offset = skipHorizontalWhitespace lineContent nameEnd
          in if offset \<ge> length lineContent \<or> lineContent ! offset \<noteq> CHR ''('' then [decorator]
             else decorator # semantic_loop U lineContent line offset)"

function semantic_lines :: "unicode_tables \<Rightarrow> string \<Rightarrow> nat \<Rightarrow> semantic_token list" where
  "semantic_lines U rest line =
     (let tokens = annotationLineSemanticTokens U
            (trim_suffix (takeWhile (\<lambda>c. c \<noteq> newline_char) rest) [carriage_return]) line
      in if newline_char \<notin> set rest then tokens
         else tokens @ semantic_lines U (tl (dropWhile (\<lambda>c. c \<noteq> newline_char) rest)) (line + 1))"
  by pat_completeness auto
termination
proof (relation "measure (\<lambda>(U, rest, line). length rest)", simp, goal_cases)
  case (1 U rest line tokens)
  then have "dropWhile (\<lambda>c. c \<noteq> newline_char) rest \<noteq> []" by (auto simp: dropWhile_eq_Nil_conv)
  then have "length (tl (dropWhile (\<lambda>c. c \<noteq> newline_char) rest)) < length (dropWhile (\<lambda>c. c \<noteq> newline_char) rest)" by simp
  also have "\<dots> \<le> length rest" by (rule length_dropWhile_le)
  finally show ?case by simp
qed

declare semantic_lines.simps [simp del]

definition annotationSemanticTokens :: "unicode_tables \<Rightarrow> string \<Rightarrow> semantic_token list" where
  "annotationSemanticTokens U content = semantic_lines U content 0"

fun encode_from :: "nat \<Rightarrow> nat \<Rightarrow> semantic_token list \<Rightarrow> 32 word list" where
  "encode_from previousLine previousStart [] = []"
| "encode_from previousLine previousStart (token # tokens) =
     (let deltaLine = int (token_line token) - int previousLine;
          deltaStart = (if deltaLine = 0 then int (token_start token) - int previousStart else int (token_start token))
      in [word_of_int deltaLine, word_of_int deltaStart, of_nat (token_length token),
          of_nat (kind_number (token_type token)), 0] @
         encode_from (token_line token) (token_start token) tokens)"

definition encodeSemanticTokens :: "semantic_token list \<Rightarrow> 32 word list" where
  "encodeSemanticTokens tokens = encode_from 0 0 tokens"

section \<open>Where tokens lie\<close>

lemma boundary_take: "boundary s k \<Longrightarrow> k \<le> n \<Longrightarrow> boundary (take n s) k"
proof (induction arbitrary: n rule: boundary.induct)
  case (boundary_rune s k)
  have b: "0 < rune_size s" using rune_size_bounds [OF boundary_rune.hyps(1)] by simp
  then have d: "decode_rune (take n s) = decode_rune s" using boundary_rune.prems by (intro decode_rune_take) auto
  have "boundary (drop (rune_size s) (take n s)) k"
    using boundary_rune.IH [of "n - rune_size s"] boundary_rune.prems by (simp add: drop_take)
  then show ?case
    using boundary.boundary_rune [of "take n s" k] b boundary_rune.prems boundary_rune.hyps(1) d by simp
qed (rule boundary_start)

lemma utf16Length_take_add:
  assumes "boundary s a" "a \<le> b"
  shows "utf16Length (take a s) + utf16Length (subslice s a b) = utf16Length (take b s)"
  using utf16Length_split [OF boundary_take [OF assms]] assms(2)
  by (simp add: subslice_def drop_take min.absorb1)

text \<open>A token whose ends are at rune boundaries of its line.\<close>

type_synonym span = "nat \<times> nat \<times> token_kind"

fun span_token :: "string \<Rightarrow> nat \<Rightarrow> span \<Rightarrow> semantic_token" where
  "span_token content line (a, b, k) = semanticTokenAt content line a b k"

fun span_in :: "string \<Rightarrow> nat \<Rightarrow> span \<Rightarrow> bool" where
  "span_in content offset (a, b, k) =
     (offset \<le> a \<and> a < b \<and> b \<le> length content \<and> boundary content a \<and> boundary content b)"

fun span_before :: "span \<Rightarrow> span \<Rightarrow> bool" where
  "span_before (a, b, k) (a', b', k') = (b \<le> a')"

definition spans_of :: "string \<Rightarrow> nat \<Rightarrow> nat \<Rightarrow> semantic_token list \<Rightarrow> bool" where
  "spans_of content line offset tokens =
     (\<exists>spans. tokens = map (span_token content line) spans \<and> (\<forall>sp \<in> set spans. span_in content offset sp) \<and>
        sorted_wrt span_before spans)"

lemma spans_of_Nil [simp]: "spans_of content line offset []"
  by (simp add: spans_of_def)

lemma spans_of_mono:
  assumes "spans_of content line offset' tokens" "offset \<le> offset'"
  shows "spans_of content line offset tokens"
proof -
  have "span_in content offset sp" if "span_in content offset' sp" for sp using that assms(2) by (cases sp) auto
  then show ?thesis using assms(1) unfolding spans_of_def by blast
qed

lemma spans_of_Cons:
  assumes "spans_of content line b tokens" "offset \<le> a" "a < b" "b \<le> length content" "boundary content a" "boundary content b"
  shows "spans_of content line offset (semanticTokenAt content line a b k # tokens)"
proof -
  obtain spans where s: "tokens = map (span_token content line) spans" "\<forall>sp \<in> set spans. span_in content b sp"
      "sorted_wrt span_before spans"
    using assms(1) by (auto simp: spans_of_def)
  have "span_before (a, b, k) sp" if "sp \<in> set spans" for sp using s(2) that by (cases sp) auto
  moreover have "span_in content offset sp" if "sp \<in> set spans" for sp using s(2) that assms(2,3) by (cases sp) auto
  ultimately show ?thesis
    unfolding spans_of_def using s assms by (intro exI [of _ "(a, b, k) # spans"]) auto
qed

lemma quoted_scan_end:
  "quoted_scan s escaped offset = offset + length s \<or>
     (\<exists>i < length s. s ! i = CHR 0x22 \<and> quoted_scan s escaped offset = offset + i + 1)"
proof (induction s arbitrary: escaped offset)
  case (Cons c s)
  have step: "quoted_scan s e (offset + 1) = offset + length (c # s) \<or>
      (\<exists>i < length (c # s). (c # s) ! i = CHR 0x22 \<and> quoted_scan s e (offset + 1) = offset + i + 1)" for e
    using Cons.IH [where offset = "offset + 1" and escaped = e]
  proof (elim disjE exE conjE)
    fix i assume "i < length s" "s ! i = CHR 0x22" "quoted_scan s e (offset + 1) = offset + 1 + i + 1"
    then show ?thesis by (intro disjI2 exI [of _ "Suc i"]) simp
  qed simp
  then show ?case using step [of True] step [of False] by (cases "escaped \<or> c \<noteq> CHR 0x22") auto
qed simp

lemma boundary_offset_ascii:
  assumes "i < length s" "byte_of (s ! i) < 128" "k = i + 1"
  shows "boundary s k"
  using boundary_ascii(2) [OF assms(1,2)] assms(3) by simp

lemma quotedStringEnd_boundary:
  assumes "offset < length content"
  shows "boundary content (quotedStringEnd content offset)"
proof -
  let ?s = "drop (offset + 1) content"
  consider "quotedStringEnd content offset = length content"
    | i where "i < length ?s" "?s ! i = CHR 0x22" "quotedStringEnd content offset = (offset + 1 + i) + 1"
    using quoted_scan_end [of ?s False "offset + 1"] assms by (auto simp: quotedStringEnd_def)
  then show ?thesis
  proof cases
    case 1
    then show ?thesis by (simp add: boundary_end)
  next
    case (2 i)
    then show ?thesis by (intro boundary_offset_ascii [of "offset + 1 + i"]) auto
  qed
qed

lemma numberEnd_boundary:
  assumes "offset < length content" "isNumberStart content offset"
  shows "boundary content (numberEnd content offset)"
proof -
  define k where "k = (if content ! offset = CHR ''-'' then offset + 1 else offset)"
  let ?d = "takeWhile isASCIIDigit (drop k content)"
  have dig: "k < length content" "isASCIIDigit (content ! k)"
    using assms by (auto simp: k_def isNumberStart_def isASCIIDigit_def in_range_def split: if_splits)
  then have ne: "?d \<noteq> []" by (simp add: Cons_nth_drop_Suc [symmetric])
  have le: "length ?d \<le> length content - k" using length_takeWhile_le [of isASCIIDigit "drop k content"] by simp
  let ?i = "k + (length ?d - 1)"
  have i: "?i < length content" using ne le dig(1) by (cases "length ?d") auto
  have "content ! ?i = ?d ! (length ?d - 1)"
    using ne le dig(1) takeWhile_nth [of "length ?d - 1" isASCIIDigit "drop k content"] by simp
  then have "isASCIIDigit (content ! ?i)" using ne by (metis last_conv_nth last_in_set set_takeWhileD)
  then show ?thesis
    using i ne by (intro boundary_offset_ascii [of ?i]) (auto simp: isASCIIDigit_def in_range_def numberEnd_def k_def Let_def)
qed

lemma step_span:
  assumes "offset < length content" "step_token (nextAnnotationSemanticStep U content line offset) = Some t"
  shows "boundary content offset" "boundary content (step_next (nextAnnotationSemanticStep U content line offset))"
    "\<exists>k. t = semanticTokenAt content line offset (step_next (nextAnnotationSemanticStep U content line offset)) k"
proof -
  let ?c = "content ! offset"
  have ascii: "byte_of ?c < 128" if "?c = CHR 0x22 \<or> isNumberStart content offset \<or> annotationIdentifierStart ?c \<or> isAnnotationOperator ?c"
    using that by (auto simp: isNumberStart_def isASCIIDigit_def annotationIdentifierStart_def isAnnotationOperator_def in_range_def)
  have emits: "?c = CHR 0x22 \<or> isNumberStart content offset \<or> annotationIdentifierStart ?c \<or> isAnnotationOperator ?c"
    using assms(2) by (auto simp: nextAnnotationSemanticStep_def split: if_splits)
  show b: "boundary content offset" by (rule boundary_ascii(1) [OF assms(1) ascii [OF emits]])
  have "boundary content (annotationIdentifierEnd U content offset)"
    unfolding annotationIdentifierEnd_def by (rule boundary_add [OF b rune_run_boundary])
  then show "boundary content (step_next (nextAnnotationSemanticStep U content line offset))"
    using emits quotedStringEnd_boundary [OF assms(1)] numberEnd_boundary [OF assms(1)]
      boundary_ascii(2) [OF assms(1) ascii [OF emits]]
    by (auto simp: nextAnnotationSemanticStep_def annotationTokenStep_def Let_def)
  show "\<exists>k. t = semanticTokenAt content line offset (step_next (nextAnnotationSemanticStep U content line offset)) k"
    using assms(2) by (auto simp: nextAnnotationSemanticStep_def annotationTokenStep_def Let_def split: if_splits)
qed

lemma semantic_loop_spans: "spans_of content line offset (semantic_loop U content line offset)"
proof (induction U content line offset rule: semantic_loop.induct)
  case (1 U content line offset)
  let ?k = "skipHorizontalWhitespace content offset"
  let ?step = "nextAnnotationSemanticStep U content line ?k"
  show ?case
  proof (cases "offset < length content \<and> ?k < length content")
    case False
    then show ?thesis by (subst semantic_loop.simps) (auto simp: Let_def)
  next
    case True
    have le: "offset \<le> ?k" by (simp add: skipHorizontalWhitespace_def)
    have more: "?k < step_next ?step" using step_next_greater True by blast
    define tail where "tail = (if step_stop ?step then [] else semantic_loop U content line (step_next ?step))"
    have tail: "spans_of content line (step_next ?step) tail"
      using 1 [OF _ refl _ refl refl] True by (auto simp: tail_def)
    have loop: "semantic_loop U content line offset = (case step_token ?step of None \<Rightarrow> [] | Some t \<Rightarrow> [t]) @ tail"
      using True by (subst semantic_loop.simps) (auto simp: Let_def tail_def)
    show ?thesis
    proof (cases "step_token ?step")
      case None
      then show ?thesis using spans_of_mono [OF tail, of offset] le more loop by simp
    next
      case (Some t)
      obtain kind where "t = semanticTokenAt content line ?k (step_next ?step) kind"
        using step_span(3) [OF _ Some] True by blast
      then show ?thesis
        using spans_of_Cons [OF tail le more _ step_span(1,2) [OF _ Some], of kind] True loop Some
          boundary_le [OF step_span(2) [OF _ Some]] by simp
    qed
  qed
qed

lemma annotationNameBounds_Some:
  assumes "annotationNameBounds U content = Some (a, b)"
  shows "a < b" "b \<le> length content" "boundary content a" "boundary content b"
proof -
  have a: "a < length content" "content ! a = CHR ''@''" "b = annotationNameEnd U content (a + 1)" "b \<noteq> a + 1"
    using assms by (auto simp: annotationNameBounds_def Let_def split: if_splits)
  show "boundary content a" using a by (intro boundary_ascii(1)) auto
  have "boundary content (a + 1)" using a boundary_ascii(2) [of a content] by simp
  then show b: "boundary content b" unfolding a(3) annotationNameEnd_def by (rule boundary_add [OF _ rune_run_boundary])
  show "a < b" using a(3,4) by (simp add: annotationNameEnd_def)
  show "b \<le> length content" by (rule boundary_le [OF b])
qed

lemma annotationLineSemanticTokens_spans: "spans_of content line 0 (annotationLineSemanticTokens U content line)"
proof (cases "annotationNameBounds U content")
  case None
  then show ?thesis by (simp add: annotationLineSemanticTokens_def)
next
  case (Some ab)
  obtain a b where ab: "ab = (a, b)" by fastforce
  note n = annotationNameBounds_Some [OF Some [unfolded ab]]
  have "spans_of content line b (semantic_loop U content line (skipHorizontalWhitespace content b))"
    using spans_of_mono [OF semantic_loop_spans] by (simp add: skipHorizontalWhitespace_def)
  then show ?thesis
    using spans_of_Cons [OF _ _ n(1,2,3,4), of line _ 0] Some ab
    by (auto simp: annotationLineSemanticTokens_def Let_def)
qed

section \<open>The tokens of a document\<close>

definition token_before :: "semantic_token \<Rightarrow> semantic_token \<Rightarrow> bool" where
  "token_before t u =
     (token_line t < token_line u \<or>
      token_line t = token_line u \<and> token_start t + token_length t \<le> token_start u)"

definition token_inside :: "nat \<Rightarrow> semantic_token \<Rightarrow> bool" where
  "token_inside n t = (0 < token_length t \<and> token_start t + token_length t \<le> n)"

lemma span_token_facts:
  assumes "span_in content offset (a, b, k)"
  shows "token_line (span_token content line (a, b, k)) = line"
    "token_start (span_token content line (a, b, k)) = utf16Length (take a content)"
    "token_start (span_token content line (a, b, k)) + token_length (span_token content line (a, b, k)) = utf16Length (take b content)"
    "0 < token_length (span_token content line (a, b, k))"
proof -
  have "subslice content a b \<noteq> []" using assms by (simp add: subslice_def)
  then show "0 < token_length (span_token content line (a, b, k))" by (simp add: semanticTokenAt_def utf16Length_pos)
  show "token_start (span_token content line (a, b, k)) + token_length (span_token content line (a, b, k)) = utf16Length (take b content)"
    using assms utf16Length_take_add [of content a b] by (simp add: semanticTokenAt_def)
qed (simp_all add: semanticTokenAt_def)

lemma spans_of_ordered:
  assumes "spans_of content line offset tokens"
  shows "sorted_wrt token_before tokens" "t \<in> set tokens \<Longrightarrow> token_line t = line \<and> token_inside (length content) t"
proof -
  obtain spans where s: "tokens = map (span_token content line) spans" "\<forall>sp \<in> set spans. span_in content offset sp"
      "sorted_wrt span_before spans"
    using assms by (auto simp: spans_of_def)
  have "token_before (span_token content line sp) (span_token content line sp')"
    if "span_before sp sp'" "sp \<in> set spans" "sp' \<in> set spans" for sp sp'
  proof -
    obtain a b k a' b' k' where sp: "sp = (a, b, k)" "sp' = (a', b', k')" by (cases sp, cases sp') auto
    have i: "span_in content offset (a, b, k)" "span_in content offset (a', b', k')" "b \<le> a'"
      using s(2) that sp by auto
    then have "utf16Length (take b content) \<le> utf16Length (take a' content)"
      using utf16Length_take_add [of content b a'] by simp
    then show ?thesis
      using span_token_facts [OF i(1), of line] span_token_facts [OF i(2), of line] unfolding sp token_before_def by simp
  qed
  then show "sorted_wrt token_before tokens" unfolding s(1) sorted_wrt_map
    by (intro sorted_wrt_mono_rel [OF _ s(3)]) blast
  show "token_line t = line \<and> token_inside (length content) t" if t: "t \<in> set tokens"
  proof -
    obtain a b k where t: "t = span_token content line (a, b, k)" "span_in content offset (a, b, k)"
      using t s(1,2) by auto
    have "utf16Length (take b content) \<le> length content"
      using utf16Length_bounds [of "take b content"] by simp
    then show ?thesis using span_token_facts [OF t(2), of line] unfolding t(1) token_inside_def by simp
  qed
qed

lemma semantic_lines_ordered:
  "sorted_wrt token_before (semantic_lines U rest line) \<and>
   (\<forall>t \<in> set (semantic_lines U rest line). line \<le> token_line t \<and> token_line t \<le> line + length rest \<and>
      token_inside (length rest) t)"
proof (induction U rest line rule: semantic_lines.induct)
  case (1 U rest line)
  let ?w = "takeWhile (\<lambda>c. c \<noteq> newline_char) rest" and ?d = "dropWhile (\<lambda>c. c \<noteq> newline_char) rest"
  let ?tokens = "annotationLineSemanticTokens U (trim_suffix ?w [carriage_return]) line"
  have "length (trim_suffix ?w [carriage_return]) \<le> length rest"
    using length_takeWhile_le [of "\<lambda>c. c \<noteq> newline_char" rest] by (simp add: trim_suffix_def le_diff_conv trans_le_add1)
  then have first: "token_line t = line \<and> token_inside (length rest) t" if "t \<in> set ?tokens" for t
    using spans_of_ordered(2) [OF annotationLineSemanticTokens_spans that] by (auto simp: token_inside_def)
  note sorted = spans_of_ordered(1) [OF annotationLineSemanticTokens_spans [of "trim_suffix ?w [carriage_return]" line U]]
  show ?case
  proof (cases "newline_char \<in> set rest")
    case False
    then have "semantic_lines U rest line = ?tokens" by (subst semantic_lines.simps) simp
    then show ?thesis using first sorted by auto
  next
    case True
    have len: "length (tl ?d) < length rest"
    proof -
      have "?d \<noteq> []" using True by (auto simp: dropWhile_eq_Nil_conv)
      then have "length (tl ?d) < length ?d" by simp
      also have "\<dots> \<le> length rest" by (rule length_dropWhile_le)
      finally show ?thesis .
    qed
    have split: "semantic_lines U rest line = ?tokens @ semantic_lines U (tl ?d) (line + 1)"
      using True by (subst semantic_lines.simps) simp
    have IH: "sorted_wrt token_before (semantic_lines U (tl ?d) (line + 1))"
        "\<forall>t \<in> set (semantic_lines U (tl ?d) (line + 1)). line + 1 \<le> token_line t \<and>
           token_line t \<le> line + 1 + length (tl ?d) \<and> token_inside (length (tl ?d)) t"
      using "1.IH" [OF refl] True by auto
    have "token_before t u" if "t \<in> set ?tokens" "u \<in> set (semantic_lines U (tl ?d) (line + 1))" for t u
      using first [OF that(1)] IH(2) that(2) by (auto simp: token_before_def)
    moreover have "line \<le> token_line t \<and> token_line t \<le> line + length rest \<and> token_inside (length rest) t"
      if t: "t \<in> set (semantic_lines U (tl ?d) (line + 1))" for t
    proof -
      have "line + 1 \<le> token_line t" "token_line t \<le> line + 1 + length (tl ?d)" "token_inside (length (tl ?d)) t"
        using IH(2) t by blast+
      then show ?thesis using len unfolding token_inside_def by linarith
    qed
    ultimately show ?thesis unfolding split sorted_wrt_append using first sorted IH(1) by auto
  qed
qed

text \<open>
  A token that covers whole runes of a line of the document, without its line break: the places of its ends in the
  line, counted in code units.
\<close>

definition document_line :: "string \<Rightarrow> nat \<Rightarrow> string" where
  "document_line content line = trim_suffix (split_on newline_char content ! line) [carriage_return]"

definition covers_runes :: "string \<Rightarrow> semantic_token \<Rightarrow> bool" where
  "covers_runes written t =
     (\<exists>a b. a < b \<and> b \<le> length written \<and> boundary written a \<and> boundary written b \<and>
        token_start t = utf16Length (take a written) \<and> token_start t + token_length t = utf16Length (take b written))"

definition on_its_line :: "string \<Rightarrow> semantic_token \<Rightarrow> bool" where
  "on_its_line content t =
     (token_line t < length (split_on newline_char content) \<and> covers_runes (document_line content (token_line t)) t)"

lemma line_tokens_cover:
  assumes "t \<in> set (annotationLineSemanticTokens U written line)"
  shows "token_line t = line \<and> covers_runes written t"
proof -
  obtain a b k where t: "t = span_token written line (a, b, k)" "span_in written 0 (a, b, k)"
    using annotationLineSemanticTokens_spans [of written line U] assms by (fastforce simp: spans_of_def)
  then show ?thesis using span_token_facts [OF t(2), of line] by (auto simp: covers_runes_def)
qed

lemma split_first_line:
  "split_on d s = takeWhile (\<lambda>c. c \<noteq> d) s #
     (if d \<in> set s then split_on d (tl (dropWhile (\<lambda>c. c \<noteq> d) s)) else [])"
  by (induction s) auto

lemma semantic_lines_on:
  "t \<in> set (semantic_lines U rest line) \<Longrightarrow>
     line \<le> token_line t \<and> token_line t - line < length (split_on newline_char rest) \<and>
     covers_runes (document_line rest (token_line t - line)) t"
proof (induction U rest line rule: semantic_lines.induct)
  case (1 U rest line)
  let ?w = "takeWhile (\<lambda>c. c \<noteq> newline_char) rest" and ?d = "dropWhile (\<lambda>c. c \<noteq> newline_char) rest"
  have lines: "split_on newline_char rest = ?w # (if newline_char \<in> set rest then split_on newline_char (tl ?d) else [])"
    by (rule split_first_line)
  show ?case
  proof (cases "t \<in> set (annotationLineSemanticTokens U (trim_suffix ?w [carriage_return]) line)")
    case True
    then show ?thesis using line_tokens_cover by (auto simp: document_line_def lines)
  next
    case False
    then have nl: "newline_char \<in> set rest" and t: "t \<in> set (semantic_lines U (tl ?d) (line + 1))"
      using "1.prems" by (auto simp: semantic_lines.simps [of U rest line] Let_def split: if_splits)
    have IH: "line + 1 \<le> token_line t" "token_line t - (line + 1) < length (split_on newline_char (tl ?d))"
        "covers_runes (document_line (tl ?d) (token_line t - (line + 1))) t"
      using "1.IH" [OF refl] nl t by auto
    have "token_line t - line = Suc (token_line t - (line + 1))" using IH(1) by simp
    then show ?thesis using IH nl by (simp add: document_line_def lines)
  qed
qed

section \<open>The encoding\<close>

text \<open>How a client reads the words, by the Language Server Protocol.\<close>

fun kind_of :: "nat \<Rightarrow> token_kind" where
  "kind_of n =
     (if n = 0 then Decorator else if n = 1 then Parameter else if n = 2 then StringToken
      else if n = 3 then NumberToken else if n = 4 then Keyword else Operator)"

fun decode_from :: "nat \<Rightarrow> nat \<Rightarrow> 32 word list \<Rightarrow> semantic_token list" where
  "decode_from previousLine previousStart (dl # ds # len # k # m # rest) =
     (let line = previousLine + unat dl;
          start = (if dl = 0 then previousStart + unat ds else unat ds)
      in \<lparr>token_line = line, token_start = start, token_length = unat len, token_type = kind_of (unat k)\<rparr> #
         decode_from line start rest)"
| "decode_from previousLine previousStart _ = []"

lemma kind_of_number [simp]: "kind_of (kind_number k) = k"
  by (cases k) simp_all

declare kind_of.simps [simp del]

lemma kind_number_less: "kind_number k < 6"
  by (cases k) simp_all

lemma unat_small: "n < 2 ^ 32 \<Longrightarrow> unat (of_nat n :: 32 word) = n"
  by (simp add: unat_of_nat take_bit_nat_eq_self)

definition follows :: "nat \<Rightarrow> nat \<Rightarrow> semantic_token \<Rightarrow> bool" where
  "follows line start t = (line < token_line t \<or> line = token_line t \<and> start \<le> token_start t)"

definition small_token :: "semantic_token \<Rightarrow> bool" where
  "small_token t = (token_line t < 2 ^ 32 \<and> token_start t < 2 ^ 32 \<and> token_length t < 2 ^ 32)"

lemma decode_encode:
  assumes "sorted_wrt token_before tokens" "\<forall>t \<in> set tokens. follows line start t \<and> small_token t"
  shows "decode_from line start (encode_from line start tokens) = tokens"
  using assms
proof (induction tokens arbitrary: line start)
  case (Cons t tokens)
  have t: "follows line start t" "small_token t" using Cons.prems(2) by auto
  have "follows (token_line t) (token_start t) u" if "u \<in> set tokens" for u
    using Cons.prems(1) that by (auto simp: token_before_def follows_def)
  then have IH: "decode_from (token_line t) (token_start t) (encode_from (token_line t) (token_start t) tokens) = tokens"
    using Cons.IH Cons.prems by auto
  have le: "line \<le> token_line t" using t(1) by (auto simp: follows_def)
  have dl: "word_of_int (int (token_line t) - int line) = (of_nat (token_line t - line) :: 32 word)"
    using le by (metis of_nat_diff of_int_of_nat_eq)
  have u: "unat (of_nat (token_line t - line) :: 32 word) = token_line t - line"
    using t(2) by (intro unat_small) (auto simp: small_token_def)
  moreover have "(of_nat (token_line t - line) :: 32 word) = 0 \<longleftrightarrow> token_line t = line"
  proof
    assume "(of_nat (token_line t - line) :: 32 word) = 0"
    then have "token_line t - line = 0" using u by simp
    then show "token_line t = line" using le by simp
  qed simp
  moreover have "unat (of_nat (token_length t) :: 32 word) = token_length t"
      "unat (of_nat (kind_number (token_type t)) :: 32 word) = kind_number (token_type t)"
      "unat (of_nat (token_start t) :: 32 word) = token_start t"
    using t(2) kind_number_less [of "token_type t"] by (intro unat_small; simp add: small_token_def)+
  moreover have "word_of_int (int (token_start t) - int start) = (of_nat (token_start t - start) :: 32 word)"
      "unat (of_nat (token_start t - start) :: 32 word) = token_start t - start"
    if "token_line t = line"
  proof -
    have s: "start \<le> token_start t" using t(1) that by (auto simp: follows_def)
    then show "word_of_int (int (token_start t) - int start) = (of_nat (token_start t - start) :: 32 word)"
      by (metis of_nat_diff of_int_of_nat_eq)
    show "unat (of_nat (token_start t - start) :: 32 word) = token_start t - start"
      using t(2) by (intro unat_small) (auto simp: small_token_def)
  qed
  ultimately show ?case
    using IH le t(1) dl by (cases "token_line t = line") (auto simp: Let_def follows_def)
qed simp

section \<open>Properties\<close>

text \<open>
  C16. The semantic tokens of a document come in order, none of them is empty and no two overlap; each one covers
  whole runes of its line, with its start and end where these runes start and end in code units; and a
  client that reads the encoded words gets back exactly these tokens: no delta wraps around in a
  document of fewer than 2 to the 32 bytes.
\<close>
theorem semanticTokens_decoded:
  assumes "length content < 2 ^ 32"
  shows "decode_from 0 0 (encodeSemanticTokens (annotationSemanticTokens U content)) = annotationSemanticTokens U content \<and>
    sorted_wrt token_before (annotationSemanticTokens U content) \<and>
    (\<forall>t \<in> set (annotationSemanticTokens U content). 0 < token_length t \<and> on_its_line content t)"
proof -
  have ordered: "sorted_wrt token_before (annotationSemanticTokens U content)"
    and inside: "token_line t \<le> length content \<and> token_inside (length content) t"
    if "t \<in> set (annotationSemanticTokens U content)" for t
    using semantic_lines_ordered [of U content 0] that by (auto simp: annotationSemanticTokens_def)
  have sorted: "sorted_wrt token_before (annotationSemanticTokens U content)"
    using semantic_lines_ordered [of U content 0] by (simp add: annotationSemanticTokens_def)
  have "follows 0 0 t \<and> small_token t" if "t \<in> set (annotationSemanticTokens U content)" for t
    using inside [OF that] assms by (auto simp: follows_def small_token_def token_inside_def)
  moreover have "on_its_line content t" if "t \<in> set (annotationSemanticTokens U content)" for t
    using semantic_lines_on [of t U content 0] that by (simp add: annotationSemanticTokens_def on_its_line_def)
  ultimately show ?thesis
    using decode_encode [OF sorted] inside sorted by (auto simp: encodeSemanticTokens_def token_inside_def)
qed

definition sample_comment :: string where
  "sample_comment = ''// @Bean(name='' @ [CHR 0x22] @ ''x'' @ [CHR 0x22] @ '', order=-3)''"

theorem semanticTokens_decoded_witness:
  "map token_type (decode_from 0 0 (encodeSemanticTokens (annotationSemanticTokens latin_only sample_comment))) =
     [Decorator, Operator, Parameter, Operator, StringToken, Operator, Parameter, Operator, NumberToken, Operator]"
proof -
  have "length sample_comment < 2 ^ 32" by (simp add: sample_comment_def)
  moreover have "map token_type (annotationSemanticTokens latin_only sample_comment) =
     [Decorator, Operator, Parameter, Operator, StringToken, Operator, Parameter, Operator, NumberToken, Operator]"
    by code_simp
  ultimately show ?thesis using semanticTokens_decoded [of sample_comment latin_only] by simp
qed

end
