(* ===== verification/Lsp_Framing.thy ===== *)
theory Lsp_Framing
  imports Text_Laws
begin

text \<open>
  \<open>src/internal/lsp/protocol.go\<close>: the frames of JSON-RPC messages on a byte stream.  The JSON
  package is a parameter: which texts are valid, which decode to a message object and how a
  message is printed.  A stream is the list of the bytes that are still to come; reading at
  its end is \<open>io.EOF\<close>.
\<close>

section \<open>Messages and errors\<close>

definition maximumHeaderLine :: nat where
  "maximumHeaderLine = 8192"

definition maximumHeaderCount :: nat where
  "maximumHeaderCount = 64"

definition maximumMessageSize :: int where
  "maximumMessageSize = 16777216"

record rpc_message =
  JSONRPC :: string
  message_id :: string
  Method :: string
  Params :: string

definition request :: "rpc_message \<Rightarrow> bool" where
  "request message = (message_id message \<noteq> [] \<and> message_id message \<noteq> ''null'')"

record rpc_json =
  rpc_valid :: "string \<Rightarrow> bool"
  rpc_unmarshal :: "string \<Rightarrow> rpc_message option"

text \<open>A client error is answered and the next message is read; the others end the connection.\<close>

datatype rpc_failure = EndOfInput | TransportError string | ClientError string int string

definition rpcParseError :: int where
  "rpcParseError = -32700"

definition rpcInvalidRequest :: int where
  "rpcInvalidRequest = -32600"

definition invalidRPCRequest :: "string \<Rightarrow> string \<Rightarrow> rpc_failure" where
  "invalidRPCRequest requestId message = ClientError requestId rpcInvalidRequest message"

section \<open>Reading\<close>

definition line_feed :: char where
  "line_feed = CHR 0x0A"

definition drop_return :: "string \<Rightarrow> string" where
  "drop_return line = (if line \<noteq> [] \<and> last line = CHR 0x0D then butlast line else line)"

text \<open>
  \<open>bufio.Reader.ReadLine\<close> with a buffer of \<open>maximumHeaderLine\<close> bytes: \<open>None\<close> at the end of the
  input, otherwise the line, whether it is only the prefix of a line and the rest of the input.
\<close>

definition read_line :: "string \<Rightarrow> (string \<times> bool \<times> string) option" where
  "read_line input =
     (if input = [] then None
      else let line = takeWhile (\<lambda>c. c \<noteq> line_feed) input
           in if line_feed \<in> set input \<and> length line < maximumHeaderLine
              then Some (drop_return line, False, drop (length line + 1) input)
              else if length input \<ge> maximumHeaderLine
              then Some (take maximumHeaderLine input, True, drop maximumHeaderLine input)
              else Some (input, False, []))"

definition boundedHeader :: "string \<Rightarrow> string" where
  "boundedHeader s = (if length s \<le> 128 then s else take 128 s @ ''...'')"

definition parseContentLength :: "unicode_tables \<Rightarrow> string \<Rightarrow> nat go_result" where
  "parseContentLength U s =
     (case parse_int64 (trim_space s) of
        Some parsed \<Rightarrow>
          if parsed \<le> 0 \<or> parsed > maximumMessageSize
          then Inl (''invalid LSP Content-Length '' @ quote U (boundedHeader s))
          else Inr (nat parsed)
      | None \<Rightarrow> Inl (''invalid LSP Content-Length '' @ quote U (boundedHeader s)))"

text \<open>
  \<open>strings.EqualFold\<close> with a constant of ASCII letters none of which is the simple case folding of a rune
  outside ASCII.
\<close>

definition lower_byte :: "char \<Rightarrow> char" where
  "lower_byte c = (if in_range 65 90 (byte_of c) then byte (byte_of c + 32) else c)"

definition is_content_length :: "string \<Rightarrow> bool" where
  "is_content_length name = (map lower_byte (trim_space name) = ''content-length'')"

function header_loop :: "unicode_tables \<Rightarrow> string \<Rightarrow> nat \<Rightarrow> nat option \<Rightarrow> rpc_failure + nat \<times> string" where
  "header_loop U input headers len =
     (if headers \<ge> maximumHeaderCount then Inl (TransportError ''LSP message has too many headers'')
      else case read_line input of
        None \<Rightarrow> Inl EndOfInput
      | Some (line, partial, rest) \<Rightarrow>
          if partial then Inl (TransportError ''LSP header line exceeds limit'')
          else if line = []
          then (case len of
                  None \<Rightarrow> Inl (TransportError ''LSP message is missing Content-Length'')
                | Some n \<Rightarrow> Inr (n, rest))
          else if CHR '':'' \<notin> set line
          then Inl (TransportError (''invalid LSP header '' @ quote U (boundedHeader line)))
          else let name = takeWhile (\<lambda>c. c \<noteq> CHR '':'') line;
                   val = drop (length name + 1) line
               in if \<not> is_content_length name then header_loop U rest (headers + 1) len
                  else if len \<noteq> None
                  then Inl (TransportError ''LSP message has duplicate Content-Length headers'')
                  else case parseContentLength U val of
                         Inl e \<Rightarrow> Inl (TransportError e)
                       | Inr n \<Rightarrow> header_loop U rest (headers + 1) (Some n))"
  by pat_completeness auto
termination
  by (relation "measure (\<lambda>(U, input, headers, len). maximumHeaderCount - headers)") auto

declare header_loop.simps [simp del]

definition readHeaders :: "unicode_tables \<Rightarrow> string \<Rightarrow> rpc_failure + nat \<times> string" where
  "readHeaders U input = header_loop U input 0 None"

text \<open>What \<open>read\<close> makes of the bytes of a body.\<close>

definition read_body :: "unicode_tables \<Rightarrow> rpc_json \<Rightarrow> string \<Rightarrow> rpc_failure + rpc_message" where
  "read_body U J content =
     (if \<not> rpc_valid J content then Inl (ClientError [] rpcParseError ''invalid JSON-RPC message'')
      else case rpc_unmarshal J content of
        None \<Rightarrow> Inl (ClientError [] rpcInvalidRequest ''JSON-RPC message must be an object'')
      | Some message \<Rightarrow>
          if JSONRPC message \<noteq> ''2.0''
          then Inl (invalidRPCRequest (message_id message) (''unsupported JSON-RPC version '' @ quote U (JSONRPC message)))
          else if Method message = []
          then Inl (invalidRPCRequest (message_id message) ''LSP client message has no method'')
          else Inr message)"

definition rpc_read :: "unicode_tables \<Rightarrow> rpc_json \<Rightarrow> string \<Rightarrow> (rpc_failure + rpc_message) \<times> string" where
  "rpc_read U J input =
     (case readHeaders U input of
        Inl e \<Rightarrow> (Inl e, input)
      | Inr (n, rest) \<Rightarrow>
          if rest = [] then (Inl EndOfInput, rest)
          else if length rest < n then (Inl (TransportError ''read LSP message body: unexpected EOF''), [])
          else (read_body U J (take n rest), drop n rest))"

section \<open>Writing\<close>

definition frame_header :: "nat \<Rightarrow> string" where
  "frame_header n = ''Content-Length: '' @ show_nat n @ [CHR 0x0D, CHR 0x0A, CHR 0x0D, CHR 0x0A]"

datatype write_outcome = Accepted | Refused nat string   \<comment> \<open>how many bytes were written, and the error\<close>

definition put :: "write_outcome \<Rightarrow> string \<Rightarrow> string \<Rightarrow> string \<times> string option" where
  "put outcome bytes out =
     (case outcome of Accepted \<Rightarrow> (out @ bytes, None) | Refused k e \<Rightarrow> (out @ take k bytes, Some e))"

text \<open>\<open>rpcWriter.write\<close> for the marshalled message and the outcomes of the two calls of the writer.\<close>

definition rpc_write ::
    "string go_result \<Rightarrow> write_outcome \<Rightarrow> write_outcome \<Rightarrow> string \<Rightarrow> string \<times> string option" where
  "rpc_write marshalled first second out =
     (case marshalled of
        Inl e \<Rightarrow> (out, Some (''encode LSP message: '' @ e))
      | Inr content \<Rightarrow>
          (case put first (frame_header (length content)) out of
             (out', Some e) \<Rightarrow> (out', Some (''write LSP message header: '' @ e))
           | (out', None) \<Rightarrow>
               (case put second content out' of
                  (out'', Some e) \<Rightarrow> (out'', Some (''write LSP message body: '' @ e))
                | (out'', None) \<Rightarrow> (out'', None))))"

section \<open>Lemmas\<close>

lemma read_line_progress:
  assumes "read_line input = Some (line, False, rest)"
  shows "\<exists>used. input = used @ rest \<and> used \<noteq> [] \<and> length used \<le> maximumHeaderLine"
proof -
  let ?w = "takeWhile (\<lambda>c. c \<noteq> line_feed) input"
  have ne: "input \<noteq> []" using assms by (auto simp: read_line_def)
  show ?thesis
  proof (cases "line_feed \<in> set input \<and> length ?w < maximumHeaderLine")
    case True
    then have "rest = drop (length ?w + 1) input" using assms ne by (simp add: read_line_def Let_def)
    then show ?thesis using True ne by (intro exI [of _ "take (length ?w + 1) input"]) auto
  next
    case False
    then have "rest = []" "length input < maximumHeaderLine"
      using assms ne by (auto simp: read_line_def Let_def split: if_splits)
    then show ?thesis using ne by (intro exI [of _ input]) simp
  qed
qed

lemma read_line_written:
  assumes "line_feed \<notin> set line" "length line + 1 < maximumHeaderLine"
  shows "read_line (line @ [CHR 0x0D, CHR 0x0A] @ rest) = Some (line, False, rest)"
proof -
  have t: "takeWhile (\<lambda>c. c \<noteq> line_feed) (line @ [CHR 0x0D, CHR 0x0A] @ rest) = line @ [CHR 0x0D]"
    using assms(1) by (subst takeWhile_append2) (auto simp: line_feed_def)
  show ?thesis
    unfolding read_line_def t using assms(2) by (simp add: Let_def line_feed_def drop_return_def)
qed

lemma parseContentLength_bounds: "parseContentLength U s = Inr n \<Longrightarrow> 0 < n \<and> int n \<le> maximumMessageSize"
  by (auto simp: parseContentLength_def split: option.splits if_splits)

text \<open>One turn of the loop that goes on, and the loop's result.\<close>

lemma header_loop_step:
  assumes "header_loop U input headers len = Inr (n, rest)"
  obtains (finished) "headers < maximumHeaderCount" "read_line input = Some ([], False, rest)" "len = Some n"
  | (further) line rest' len' where "headers < maximumHeaderCount" "read_line input = Some (line, False, rest')"
      "header_loop U rest' (headers + 1) len' = Inr (n, rest)"
      "len' = len \<or> (\<exists>m. len' = Some m \<and> 0 < m \<and> int m \<le> maximumMessageSize)"
  using assms unfolding header_loop.simps [of U input headers len]
  by (auto simp: Let_def split: if_splits option.splits sum.splits) (blast dest: parseContentLength_bounds)

lemma header_loop_bounds:
  "header_loop U input headers len = Inr (n, rest) \<Longrightarrow> (\<forall>m. len = Some m \<longrightarrow> 0 < m \<and> int m \<le> maximumMessageSize) \<Longrightarrow>
     0 < n \<and> int n \<le> maximumMessageSize \<and>
     (\<exists>used. input = used @ rest \<and> used \<noteq> [] \<and> length used \<le> (maximumHeaderCount - headers) * maximumHeaderLine)"
proof (induction "maximumHeaderCount - headers" arbitrary: input headers len)
  case 0
  from "0.prems"(1) show ?case by (cases rule: header_loop_step) (use "0.hyps" in auto)
next
  case (Suc k)
  from Suc.prems(1) show ?case
  proof (cases rule: header_loop_step)
    case finished
    obtain used where used: "input = used @ rest" "used \<noteq> []" "length used \<le> maximumHeaderLine"
      using read_line_progress [OF finished(2)] by blast
    moreover have "maximumHeaderLine \<le> (maximumHeaderCount - headers) * maximumHeaderLine" using Suc.hyps(2) by simp
    ultimately show ?thesis using Suc.prems(2) finished(3) by (auto intro: order.trans)
  next
    case (further line rest' len')
    obtain used where used: "input = used @ rest'" "used \<noteq> []" "length used \<le> maximumHeaderLine"
      using read_line_progress [OF further(2)] by blast
    have "k = maximumHeaderCount - (headers + 1)" using Suc.hyps(2) by simp
    moreover have "\<forall>m. len' = Some m \<longrightarrow> 0 < m \<and> int m \<le> maximumMessageSize" using further(4) Suc.prems(2) by auto
    ultimately have IH: "0 < n \<and> int n \<le> maximumMessageSize \<and> (\<exists>more. rest' = more @ rest \<and> more \<noteq> [] \<and>
        length more \<le> (maximumHeaderCount - (headers + 1)) * maximumHeaderLine)"
      using Suc.hyps(1) further(3) by blast
    then obtain more where "rest' = more @ rest" "length more \<le> k * maximumHeaderLine"
      using Suc.hyps(2) by (metis Suc_eq_plus1 diff_Suc_1 diff_diff_add)
    then have "input = (used @ more) @ rest" "length (used @ more) \<le> (maximumHeaderCount - headers) * maximumHeaderLine"
      using used Suc.hyps(2) [symmetric] by simp_all
    then show ?thesis using IH used(2) by blast
  qed
qed

lemma header_loop_fail_step:
  assumes "header_loop U input headers len = Inl e"
  shows "e = EndOfInput \<or> (\<exists>m. e = TransportError m) \<or>
    headers < maximumHeaderCount \<and> (\<exists>rest len'. header_loop U rest (headers + 1) len' = Inl e)"
  using assms unfolding header_loop.simps [of U input headers len]
  by (auto simp: Let_def split: if_splits option.splits sum.splits)

lemma header_loop_failure:
  "header_loop U input headers len = Inl e \<Longrightarrow> e = EndOfInput \<or> (\<exists>m. e = TransportError m)"
proof (induction "maximumHeaderCount - headers" arbitrary: input headers len)
  case 0
  then show ?case using header_loop_fail_step [OF "0.prems"] by auto
next
  case (Suc k)
  have "k = maximumHeaderCount - (headers + 1)" using Suc.hyps(2) by simp
  then show ?case using header_loop_fail_step [OF Suc.prems] Suc.hyps(1) by blast
qed

lemma show_nat_facts: "line_feed \<notin> set (show_nat n)" "CHR '':'' \<notin> set (show_nat n)"
proof -
  have "list_all is_dec (show_nat n)" by (simp add: show_nat_def show_int_def show_digits_dec)
  then show "line_feed \<notin> set (show_nat n)" "CHR '':'' \<notin> set (show_nat n)"
    by (auto simp: list_all_iff is_dec_def in_range_def line_feed_def)
qed

lemma length_show_digits: "0 \<le> i \<Longrightarrow> i < 10 ^ Suc k \<Longrightarrow> length (show_digits i) \<le> Suc k"
proof (induction k arbitrary: i)
  case 0
  then show ?case by (subst show_digits.simps) simp
next
  case (Suc k)
  show ?case
  proof (cases "i < 10")
    case False
    have "i div 10 < 10 ^ Suc k" using Suc.prems by (simp add: div_less_iff_less_mult)
    then have "length (show_digits (i div 10)) \<le> Suc k" using Suc by simp
    then show ?thesis using False by (subst show_digits.simps) simp
  qed (subst show_digits.simps, simp)
qed

lemma trim_space_digits:
  assumes "list_all is_dec s" "s \<noteq> []"
  shows "trim_space (CHR '' '' # s) = s"
proof -
  obtain c t where s: "s = c # t" using assms(2) by (cases s) auto
  have dec: "48 \<le> byte_of d \<and> byte_of d \<le> 57" if "d \<in> set s" for d
    using assms(1) that by (auto simp: list_all_iff is_dec_def in_range_def)
  have space: "\<not> is_space (byte_of d)" if "d \<in> set s" for d using dec [OF that] by (auto simp: is_space_def in_range_def)
  have "decode_rune s = (byte_of c, 1)" using dec [of c] s by (simp add: decode_rune_def)
  then have "trim_left_func is_space s = s" using space [of c] s by (subst trim_left_func.simps) simp
  then have left: "trim_left_func is_space (CHR '' '' # s) = s"
    by (subst trim_left_func.simps) (simp add: decode_rune_def is_space_def)
  have l: "s ! (length s - 1) \<in> set s" using assms(2) by simp
  have "decode_last_rune s = (byte_of (s ! (length s - 1)), 1)"
    using dec [OF l] assms(2) by (simp add: decode_last_rune_def Let_def)
  then have "trim_right_func is_space s = s" using space [OF l] assms(2) by (subst trim_right_func.simps) simp
  then show ?thesis by (simp add: trim_space_def left)
qed

lemma content_length_name: "is_content_length ''Content-Length''"
  by code_simp

lemma parseContentLength_show:
  assumes "0 < n" "int n \<le> maximumMessageSize"
  shows "parseContentLength U ('' '' @ show_nat n) = Inr n"
proof -
  have "trim_space (CHR '' '' # show_nat n) = show_nat n"
    by (rule trim_space_digits) (simp_all add: show_nat_def show_int_def show_digits_dec)
  moreover have "parse_int64 (show_nat n) = Some (int n)"
    unfolding show_nat_def by (rule parse_int64_show) (use assms in \<open>simp_all add: maximumMessageSize_def\<close>)
  ultimately show ?thesis using assms by (simp add: parseContentLength_def)
qed

lemma readHeaders_frame:
  assumes "0 < n" "int n \<le> maximumMessageSize"
  shows "readHeaders U (frame_header n @ rest) = Inr (n, rest)"
proof -
  let ?line = "''Content-Length: '' @ show_nat n"
  have "length (show_nat n) \<le> 8"
    using length_show_digits [of "int n" 7] assms by (simp add: show_nat_def show_int_def maximumMessageSize_def)
  then have first: "read_line (?line @ [CHR 0x0D, CHR 0x0A] @ [CHR 0x0D, CHR 0x0A] @ rest) =
      Some (?line, False, [CHR 0x0D, CHR 0x0A] @ rest)"
    using show_nat_facts(1) [of n] by (intro read_line_written) (auto simp: maximumHeaderLine_def line_feed_def)
  have second: "read_line ([CHR 0x0D, CHR 0x0A] @ rest) = Some ([], False, rest)"
    using read_line_written [of "[]" rest] by (simp add: maximumHeaderLine_def)
  have name: "takeWhile (\<lambda>c. c \<noteq> CHR '':'') ?line = ''Content-Length''" "CHR '':'' \<in> set ?line" by simp_all
  have val: "drop (length (takeWhile (\<lambda>c. c \<noteq> CHR '':'') ?line) + 1) ?line = CHR '' '' # show_nat n"
    unfolding name by simp
  have "header_loop U ([CHR 0x0D, CHR 0x0A] @ rest) 1 (Some n) = Inr (n, rest)"
    using second by (subst header_loop.simps) (simp add: maximumHeaderCount_def)
  moreover have "frame_header n @ rest = ?line @ [CHR 0x0D, CHR 0x0A] @ [CHR 0x0D, CHR 0x0A] @ rest"
    by (simp add: frame_header_def)
  ultimately show ?thesis
    unfolding readHeaders_def header_loop.simps [of U "frame_header n @ rest"]
    using first name val content_length_name parseContentLength_show [OF assms, of U]
    by (simp add: maximumHeaderCount_def Let_def del: append.simps takeWhile.simps)
qed

lemma rpc_read_frame:
  assumes "0 < length content" "int (length content) \<le> maximumMessageSize"
  shows "rpc_read U J (frame_header (length content) @ content @ rest) = (read_body U J content, rest)"
  using assms readHeaders_frame [OF assms, of U "content @ rest"] by (auto simp: rpc_read_def)

fun read_many :: "unicode_tables \<Rightarrow> rpc_json \<Rightarrow> nat \<Rightarrow> string \<Rightarrow> (rpc_failure + rpc_message) list \<times> string" where
  "read_many U J 0 input = ([], input)"
| "read_many U J (Suc n) input =
     (let (r, rest) = rpc_read U J input; (rs, rest') = read_many U J n rest in (r # rs, rest'))"

definition write_all :: "string list \<Rightarrow> string \<Rightarrow> string" where
  "write_all contents out = fold (\<lambda>content out. fst (rpc_write (Inr content) Accepted Accepted out)) contents out"

lemma write_all_frames: "write_all contents out = out @ concat (map (\<lambda>c. frame_header (length c) @ c) contents)"
  by (induction contents arbitrary: out) (simp_all add: write_all_def rpc_write_def put_def)

text \<open>
  Reading one message is bounded: a body that is decoded, accepted or not, took a nonempty
  piece of the input of at most 64 header lines of 8 KiB and 16 MiB of body.
\<close>

lemma rpc_read_bounded:
  assumes "rpc_read U J input = (r, rest)" "r \<noteq> Inl EndOfInput" "\<nexists>e. r = Inl (TransportError e)"
  shows "\<exists>used. input = used @ rest \<and> used \<noteq> [] \<and> length used \<le> 64 * 8192 + 16777216"
proof -
  obtain n body where h: "readHeaders U input = Inr (n, body)" "length body \<ge> n" "rest = drop n body"
    using assms header_loop_failure [of U input 0 None]
    by (auto simp: rpc_read_def readHeaders_def split: sum.splits if_splits)
  then obtain used where used: "int n \<le> maximumMessageSize" "input = used @ body" "used \<noteq> []"
      "length used \<le> maximumHeaderCount * maximumHeaderLine"
    using header_loop_bounds [of U input 0 None n body] unfolding readHeaders_def by auto
  have "input = (used @ take n body) @ rest" using used(2) h(3) by simp
  moreover have "length (used @ take n body) \<le> 64 * 8192 + 16777216"
    using used(1,4) h(2) by (simp add: maximumMessageSize_def maximumHeaderCount_def maximumHeaderLine_def)
  ultimately show ?thesis using used(3) by blast
qed

text \<open>The failures after which the server stops reading.\<close>

definition ends_connection :: "rpc_failure + rpc_message \<Rightarrow> bool" where
  "ends_connection r = (case r of Inl (ClientError i c m) \<Rightarrow> False | Inl e \<Rightarrow> True | Inr message \<Rightarrow> False)"

lemma rpc_read_shorter:
  assumes "rpc_read U J input = (r, rest)" "\<not> ends_connection r"
  shows "length rest < length input"
proof -
  have "r \<noteq> Inl EndOfInput" "\<nexists>e. r = Inl (TransportError e)" using assms(2) by (auto simp: ends_connection_def)
  then obtain used where "input = used @ rest" "used \<noteq> []" using rpc_read_bounded [OF assms(1)] by blast
  then show ?thesis by simp
qed

section \<open>Properties\<close>

text \<open>
  C14. Frames written one after the other are read back one by one: each body is decoded on its own, so
  a body that is no valid message is answered as a client error and the next one is read correctly.
\<close>
theorem frames_read_back:
  assumes "\<forall>content \<in> set contents. content \<noteq> [] \<and> int (length content) \<le> maximumMessageSize"
  shows "read_many U J (length contents) (write_all contents [] @ rest) = (map (read_body U J) contents, rest)"
proof -
  have "read_many U J (length contents) (concat (map (\<lambda>c. frame_header (length c) @ c) contents) @ rest) =
      (map (read_body U J) contents, rest)"
    using assms
  proof (induction contents)
    case (Cons c contents)
    have "rpc_read U J (frame_header (length c) @ c @ (concat (map (\<lambda>c. frame_header (length c) @ c) contents) @ rest)) =
        (read_body U J c, concat (map (\<lambda>c. frame_header (length c) @ c) contents) @ rest)"
      by (rule rpc_read_frame) (use Cons.prems in auto)
    then show ?case using Cons by simp
  qed simp
  then show ?thesis by (simp add: write_all_frames)
qed

definition sample_json :: rpc_json where
  "sample_json = \<lparr>rpc_valid = (\<lambda>s. s \<noteq> ''?''),
     rpc_unmarshal = (\<lambda>s. Some \<lparr>JSONRPC = ''2.0'', message_id = [], Method = s, Params = []\<rparr>)\<rparr>"

theorem frames_read_back_witness:
  "map isl (fst (read_many latin_only sample_json 2 (write_all [''?'', ''exit''] []))) = [True, False]"
proof -
  have "read_many latin_only sample_json 2 (write_all [''?'', ''exit''] []) =
      (map (read_body latin_only sample_json) [''?'', ''exit''], [])"
    using frames_read_back [of "[''?'', ''exit'']" latin_only sample_json "[]"]
    by (simp add: maximumMessageSize_def numeral_2_eq_2 del: read_many.simps)
  moreover have "map (\<lambda>s. isl (read_body latin_only sample_json s)) [''?'', ''exit''] = [True, False]" by code_simp
  ultimately show ?thesis by simp
qed

text \<open>
  C24. The server does not read forever: whatever the bytes of a finite input are, after at most as many
  messages as it has bytes a read ends the connection, and all reads before it gave a message or
  an error that is answered.
\<close>
theorem reading_ends:
  "\<exists>n \<le> length input. ends_connection (last (fst (read_many U J (Suc n) input))) \<and>
     list_all (\<lambda>r. \<not> ends_connection r) (fst (read_many U J n input))"
proof (induction "length input" arbitrary: input rule: less_induct)
  case less
  obtain r rest where r: "rpc_read U J input = (r, rest)" by fastforce
  have next_read: "fst (read_many U J (Suc n) input) = r # fst (read_many U J n rest)" for n
    using r by (subst read_many.simps(2)) (simp add: split_def Let_def del: read_many.simps)
  show ?case
  proof (cases "ends_connection r")
    case True
    then show ?thesis using r by (intro exI [of _ 0]) simp
  next
    case False
    have shorter: "length rest < length input" by (rule rpc_read_shorter [OF r False])
    obtain n where n: "n \<le> length rest" "ends_connection (last (fst (read_many U J (Suc n) rest)))"
        "list_all (\<lambda>r. \<not> ends_connection r) (fst (read_many U J n rest))"
      using less [OF shorter] by blast
    have "fst (read_many U J (Suc n) rest) \<noteq> []" by (simp add: split_def Let_def)
    then show ?thesis using n shorter False
      by (intro exI [of _ "Suc n"]) (simp add: next_read del: read_many.simps)
  qed
qed

end
