(* ===== verification/Lsp_Files.thy ===== *)
theory Lsp_Files
  imports Go_Path
begin

text \<open>
  What the language server asks of the machine (\<open>src/internal/lsp/server.go\<close>): the path of a file
  URI, the URI of a path and the Go module root above a file.  The parser and printer of \<open>net/url\<close>, the
  working directory, \<open>os.Stat\<close>, \<open>os.ReadFile\<close> and the service factory are the fields of
  \<open>lsp_environment\<close>; paths are those of a slash-separated system.
\<close>

section \<open>The machine\<close>

record url_parts =
  url_scheme :: string
  url_host :: string
  url_path :: string

datatype file_status =
    StatMissing string              \<comment> \<open>an error that is \<open>os.ErrNotExist\<close>\<close>
  | StatFailed string               \<comment> \<open>any other error\<close>
  | StatDirectory
  | StatRegular nat                 \<comment> \<open>a regular file and its size\<close>
  | StatOther

record lsp_environment =
  env_parse :: "string \<Rightarrow> url_parts go_result"          \<comment> \<open>\<open>url.Parse\<close>\<close>
  env_url :: "string \<Rightarrow> string"                       \<comment> \<open>the URL with scheme \<open>file\<close> and a path\<close>
  env_working :: "string go_result"                  \<comment> \<open>\<open>os.Getwd\<close>\<close>
  env_stat :: "string \<Rightarrow> file_status"
  env_read :: "string \<Rightarrow> string go_result"            \<comment> \<open>\<open>os.ReadFile\<close>\<close>
  env_service :: "string \<Rightarrow> string option"            \<comment> \<open>the error of the service factory\<close>

definition Abs :: "lsp_environment \<Rightarrow> string \<Rightarrow> string go_result" where
  "Abs E path = (if IsAbs path then Inr (Clean path) else map_sum (\<lambda>e. e) (\<lambda>wd. path_join wd path) (env_working E))"

section \<open>URIs\<close>

definition filePath :: "unicode_tables \<Rightarrow> lsp_environment \<Rightarrow> string \<Rightarrow> string go_result" where
  "filePath U E identity =
     (case env_parse E identity of
        Inl e \<Rightarrow> Inl (''parse file URI '' @ quote U identity @ '': '' @ e)
      | Inr parsed \<Rightarrow>
          if url_scheme parsed = [] then Abs E identity
          else if url_scheme parsed \<noteq> ''file'' then Inl (''LSP URI '' @ quote U identity @ '' must use file scheme'')
          else if url_host parsed \<noteq> [] \<and> url_host parsed \<noteq> ''localhost''
          then Inl (''LSP URI '' @ quote U identity @ '' must not name a remote host'')
          else Abs E (url_path parsed))"

definition fileURI :: "unicode_tables \<Rightarrow> lsp_environment \<Rightarrow> string \<Rightarrow> string go_result" where
  "fileURI U E path =
     (case Abs E path of
        Inl e \<Rightarrow> Inl (''resolve file URI path '' @ quote U path @ '': '' @ e)
      | Inr absolute \<Rightarrow> Inr (env_url E absolute))"

section \<open>The length of cleaned paths\<close>

text \<open>The bytes of a list of parts, each with a separator.\<close>

definition part_bytes :: "string list \<Rightarrow> nat" where
  "part_bytes ws = sum_list (map (\<lambda>w. length w + 1) ws)"

lemma part_bytes_simps [simp]:
  "part_bytes [] = 0"
  "part_bytes (w # ws) = length w + 1 + part_bytes ws"
  "part_bytes (vs @ ws) = part_bytes vs + part_bytes ws"
  "part_bytes (rev ws) = part_bytes ws"
  by (simp_all add: part_bytes_def rev_map [symmetric] sum_list_rev)

lemma part_bytes_join: "ws \<noteq> [] \<Longrightarrow> part_bytes ws = length (join_with ''/'' ws) + 1"
  by (induction "''/''" ws rule: join_with.induct) auto

lemma clean_step_bytes: "part_bytes (clean_step rooted w st) \<le> part_bytes (filter (\<lambda>w. w \<noteq> []) [w]) + part_bytes st"
  by (auto simp: clean_step_def split: list.split)

lemma clean_fold_bytes:
  "part_bytes (fold (clean_step rooted) ws st) \<le> part_bytes (filter (\<lambda>w. w \<noteq> []) ws) + part_bytes st"
proof (induction ws arbitrary: st)
  case (Cons w ws)
  show ?case using Cons [of "clean_step rooted w st"] clean_step_bytes [of rooted w st] by (simp split: if_splits)
qed simp

lemma split_snoc_sep: "split_on d (s @ [d]) = split_on d s @ [[]]"
proof (induction s)
  case (Cons c s)
  then show ?case by (cases "split_on d s") auto
qed simp

lemma split_bytes: "part_bytes (split_on slash s) = length s + 1"
  by (simp add: part_bytes_join)

lemma Clean_shorter:
  assumes "p = q @ ''/''" "p \<noteq> ''/''" "Clean p \<noteq> ''.''"
  shows "length (Clean p) < length p"
proof -
  let ?parts = "clean_parts (IsAbs p) (split_on slash p)"
  have split: "split_on slash p = split_on slash q @ [[]]" using assms(1) by (simp add: split_snoc_sep)
  have q: "q \<noteq> []" using assms(1,2) by auto
  have le: "part_bytes ?parts \<le> part_bytes (filter (\<lambda>w. w \<noteq> []) (split_on slash q))"
    using clean_fold_bytes [of "IsAbs p" "split_on slash p" "[]"] by (simp add: clean_parts_def split)
  have all: "part_bytes (filter (\<lambda>w. w \<noteq> []) ws) \<le> part_bytes ws" for ws by (induction ws) auto
  show ?thesis
  proof (cases "IsAbs p")
    case False
    then show ?thesis
      using assms le all [of "split_on slash q"] part_bytes_join [of ?parts] split_bytes [of q]
      by (cases "?parts = []") (auto simp: Clean_def Let_def)
  next
    case True
    then obtain r where r: "q = slash # r" using assms(1) q by (cases q) (auto simp: IsAbs_def has_prefix_def)
    have "part_bytes (filter (\<lambda>w. w \<noteq> []) (split_on slash q)) \<le> length r + 1"
      using all [of "split_on slash r"] split_bytes [of r] by (simp add: r)
    then show ?thesis using True assms(1) r le part_bytes_join [of ?parts]
      by (cases "?parts = []") (auto simp: Clean_def Let_def)
  qed
qed

lemma path_dir_smaller:
  assumes "path_dir d \<noteq> d" "path_dir d \<noteq> ''.''"
  shows "length (path_dir d) < length d"
proof -
  define p where "p = rev (dropWhile (\<lambda>c. c \<noteq> slash) (rev d))"
  have dir: "path_dir d = Clean p" by (simp add: path_dir_def p_def)
  have "p \<noteq> []" using assms(2) by (auto simp: dir Clean_def Let_def clean_parts_def clean_step_def IsAbs_def has_prefix_def)
  then have "last p = slash" unfolding p_def using hd_dropWhile [of "\<lambda>c. c \<noteq> slash" "rev d"] by (auto simp: last_rev)
  then obtain q where q: "p = q @ ''/''" using \<open>p \<noteq> []\<close> by (metis append_butlast_last_id)
  have "length p \<le> length d" unfolding p_def by (simp add: length_dropWhile_le [of _ "rev d", simplified])
  moreover have "d = p \<or> length p < length d"
  proof -
    have "rev d = takeWhile (\<lambda>c. c \<noteq> slash) (rev d) @ rev p" by (simp add: p_def)
    then show ?thesis by (metis append_Nil length_append length_rev less_add_same_cancel2 length_greater_0_conv rev_rev_ident)
  qed
  moreover have "Clean ''/'' = ''/''" by (simp add: Clean_def Let_def clean_parts_def clean_step_def IsAbs_def has_prefix_def)
  ultimately show ?thesis using Clean_shorter [OF q] assms dir by fastforce
qed

section \<open>The module root\<close>

text \<open>How far a directory is from its outermost parent.\<close>

definition climb :: "string \<Rightarrow> nat" where
  "climb d = (if d = ''.'' then 0 else Suc (length d))"

lemma climb_parent: "path_dir d \<noteq> d \<Longrightarrow> climb (path_dir d) < climb d"
proof -
  assume d: "path_dir d \<noteq> d"
  moreover have "path_dir ''.'' = ''.''"
    by (simp add: path_dir_def Clean_def Let_def clean_parts_def clean_step_def IsAbs_def has_prefix_def)
  ultimately show ?thesis using path_dir_smaller [OF d] by (auto simp: climb_def)
qed

text \<open>The loop of \<open>discoverModuleRoot\<close>, which ends at a directory that is its own parent.\<close>

function module_root_from :: "unicode_tables \<Rightarrow> lsp_environment \<Rightarrow> string \<Rightarrow> string \<Rightarrow> string go_result" where
  "module_root_from U E path directory =
     (case env_stat E (path_join directory ''go.mod'') of
        StatRegular bytes \<Rightarrow> Inr directory
      | StatFailed e \<Rightarrow> Inl (''inspect Go module root from '' @ quote U path @ '': '' @ e)
      | _ \<Rightarrow>
          if path_dir directory = directory
          then Inl (''find Go module root for LSP document '' @ quote U path @ '': go.mod not found'')
          else module_root_from U E path (path_dir directory))"
  by pat_completeness auto
termination
  by (relation "measure (\<lambda>(U, E, path, d). climb d)") (simp_all add: climb_parent)

declare module_root_from.simps [simp del]

definition discoverModuleRoot :: "unicode_tables \<Rightarrow> lsp_environment \<Rightarrow> string \<Rightarrow> string go_result" where
  "discoverModuleRoot U E path = module_root_from U E path (path_dir path)"

end
