(* ===== verification/Lsp_Server.thy ===== *)
theory Lsp_Server
  imports Lsp_Position Lsp_Files "HOL-Library.AList"
begin

text \<open>
  The state of the language server and the operations that change it under its lock:
  \<open>src/internal/lsp/server.go\<close> (workspaces, settings, shutdown) and \<open>src/internal/lsp/analysis.go\<close>
  (documents, scheduling, the start and the end of an analysis, publication of diagnostics).

  Requests are decoded: the operations take the parameters of a message.  What the server reads
  from the machine is a parameter (\<open>lsp_environment\<close> of the theory of files).  The
  sequence number of a workspace is a natural number.
\<close>

section \<open>Diagnostics\<close>

record compiler_position =
  cpos_line :: int
  cpos_column :: int
  cpos_offset :: int

record compiler_range =
  crange_start :: compiler_position
  crange_end :: compiler_position

record compiler_location =
  loc_uri :: string
  loc_path :: string
  loc_range :: compiler_range

record related_information =
  rel_message :: string
  rel_location :: compiler_location

record compiler_diagnostic =
  cdiag_code :: string
  cdiag_severity :: string
  cdiag_message :: string
  cdiag_location :: compiler_location
  cdiag_related :: "related_information list"

record protocol_location =
  ploc_uri :: string
  ploc_range :: protocol_range

record protocol_related =
  prel_location :: protocol_location
  prel_message :: string

record protocol_diagnostic =
  pdiag_range :: protocol_range
  pdiag_severity :: int
  pdiag_code :: string
  pdiag_source :: string
  pdiag_message :: string
  pdiag_related :: "protocol_related list"

definition protocolSeverity :: "string \<Rightarrow> int" where
  "protocolSeverity severity =
     (if severity = ''error'' then 1 else if severity = ''warning'' then 2
      else if severity = ''information'' then 3 else if severity = ''hint'' then 4 else 1)"

definition protocolPositionFromCompiler :: "compiler_position \<Rightarrow> string \<Rightarrow> protocol_position" where
  "protocolPositionFromCompiler position content =
     (let line = max (cpos_line position - 1) 0; character = max (cpos_column position - 1) 0
      in if content = [] then \<lparr>position_line = line, position_character = character\<rparr>
         else case contentLine content (line + 1) of
                None \<Rightarrow> \<lparr>position_line = line, position_character = character\<rparr>
              | Some (start, end) \<Rightarrow>
                  let byteColumn = min (nat (max (cpos_column position - 1) 0)) (end - start)
                  in \<lparr>position_line = line,
                      position_character = int (utf16Length (take byteColumn (drop start content)))\<rparr>)"

definition protocolRangeFromCompiler :: "compiler_range \<Rightarrow> string \<Rightarrow> protocol_range" where
  "protocolRangeFromCompiler item content =
     \<lparr>range_start = protocolPositionFromCompiler (crange_start item) content,
      range_end = protocolPositionFromCompiler (crange_end item) content\<rparr>"

definition protocolDiagnosticFromCompiler :: "compiler_diagnostic \<Rightarrow> string \<Rightarrow> protocol_diagnostic" where
  "protocolDiagnosticFromCompiler item content =
     \<lparr>pdiag_range = protocolRangeFromCompiler (loc_range (cdiag_location item)) content,
      pdiag_severity = protocolSeverity (cdiag_severity item), pdiag_code = cdiag_code item,
      pdiag_source = ''spice'', pdiag_message = cdiag_message item,
      pdiag_related = map (\<lambda>related. \<lparr>prel_location = \<lparr>ploc_uri = loc_uri (rel_location related),
            ploc_range = protocolRangeFromCompiler (loc_range (rel_location related)) []\<rparr>,
          prel_message = rel_message related\<rparr>)
        (filter (\<lambda>related. loc_uri (rel_location related) \<noteq> []) (cdiag_related item))\<rparr>"

section \<open>State\<close>

record analysis_result =
  result_ready :: bool              \<comment> \<open>\<open>GenerationReady\<close>\<close>
  result_diagnostics :: "compiler_diagnostic list"

record analysis_settings =
  set_target :: string
  set_patterns :: "string list"
  set_profile :: string
  set_style :: string

record lsp_document =
  doc_uri :: string
  doc_path :: string
  doc_language :: string
  doc_version :: int
  doc_content :: string
  doc_root :: string

record lsp_workspace =
  ws_root :: string
  ws_uri :: string
  ws_sequence :: nat
  ws_timer :: bool                  \<comment> \<open>a timer is set\<close>
  ws_cancel :: bool                 \<comment> \<open>an analysis can be canceled\<close>
  ws_latest :: "analysis_result option"
  ws_good :: "analysis_result option"
  ws_settings :: analysis_settings
  ws_published :: "string list"
  ws_documents :: "string list"

record lsp_server =
  srv_limit :: nat                  \<comment> \<open>\<open>maxDocumentBytes\<close>\<close>
  srv_initialized :: bool
  srv_shutdown :: bool
  srv_closing :: bool
  srv_settings :: analysis_settings
  srv_workspaces :: "(string \<times> lsp_workspace) list"
  srv_documents :: "(string \<times> lsp_document) list"

record diagnostic_publication =
  pub_uri :: string
  pub_version :: "int option"
  pub_diagnostics :: "protocol_diagnostic list"

datatype lsp_effect =
    Arm string nat                  \<comment> \<open>a timer that will start an analysis\<close>
  | Publish diagnostic_publication
  | ShowMessage string

definition workspace_at :: "lsp_server \<Rightarrow> string \<Rightarrow> lsp_workspace option" where
  "workspace_at server key = map_of (srv_workspaces server) key"

definition document_at :: "lsp_server \<Rightarrow> string \<Rightarrow> lsp_document option" where
  "document_at server uri = map_of (srv_documents server) uri"

definition set_workspace :: "string \<Rightarrow> lsp_workspace \<Rightarrow> lsp_server \<Rightarrow> lsp_server" where
  "set_workspace key ws server = server\<lparr>srv_workspaces := AList.update key ws (srv_workspaces server)\<rparr>"

definition set_document :: "string \<Rightarrow> lsp_document \<Rightarrow> lsp_server \<Rightarrow> lsp_server" where
  "set_document uri doc server = server\<lparr>srv_documents := AList.update uri doc (srv_documents server)\<rparr>"

definition pathKey :: "string \<Rightarrow> string" where
  "pathKey path = Clean path"

definition mapKeys :: "string list \<Rightarrow> string list" where
  "mapKeys keys = sort_strings keys"

section \<open>Settings and workspaces\<close>

definition ValidateProfile :: "unicode_tables \<Rightarrow> string \<Rightarrow> string option" where
  "ValidateProfile U profile =
     (if profile = [] \<or> profile = ''java-structured'' then None
      else Some (''unsupported Spice profile '' @ quote U profile @ ''; expected '' @ quote U ''java-structured''))"

fun pattern_problem :: "nat \<Rightarrow> string list \<Rightarrow> string option" where
  "pattern_problem index [] = None"
| "pattern_problem index (pattern # patterns) =
     (if trim_space pattern = [] \<or> trim_space pattern \<noteq> pattern
      then Some (''LSP package pattern '' @ show_nat index @ '' must be non-empty and trimmed'')
      else pattern_problem (index + 1) patterns)"

definition no_settings :: analysis_settings where
  "no_settings = \<lparr>set_target = [], set_patterns = [], set_profile = [], set_style = []\<rparr>"

definition normalizeAnalysisSettings ::
    "unicode_tables \<Rightarrow> analysis_settings option \<Rightarrow> analysis_settings go_result" where
  "normalizeAnalysisSettings U settings =
     (case settings of
        None \<Rightarrow> Inr no_settings
      | Some s \<Rightarrow>
          if trim_space (set_target s) \<noteq> set_target s then Inl ''LSP application target must be trimmed''
          else if trim_space (set_style s) \<noteq> set_style s then Inl ''LSP style configuration path must be trimmed''
          else if set_style s \<noteq> [] \<and> set_profile s \<noteq> []
          then Inl ''LSP profile and style configuration are mutually exclusive''
          else case ValidateProfile U (set_profile s) of
                 Some e \<Rightarrow> Inl e
               | None \<Rightarrow>
                   (case pattern_problem 0 (set_patterns s) of
                      Some e \<Rightarrow> Inl e
                    | None \<Rightarrow> Inr s))"

definition addWorkspace ::
    "unicode_tables \<Rightarrow> lsp_environment \<Rightarrow> string \<Rightarrow> lsp_server \<Rightarrow> lsp_server \<times> string option" where
  "addWorkspace U E uri server =
     (case filePath U E uri of
        Inl e \<Rightarrow> (server, Some e)
      | Inr root \<Rightarrow>
          (case env_stat E root of
             StatMissing e \<Rightarrow> (server, Some (''inspect LSP workspace '' @ quote U root @ '': '' @ e))
           | StatFailed e \<Rightarrow> (server, Some (''inspect LSP workspace '' @ quote U root @ '': '' @ e))
           | StatRegular bytes \<Rightarrow> (server, Some (''LSP workspace '' @ quote U root @ '' is not a directory''))
           | StatOther \<Rightarrow> (server, Some (''LSP workspace '' @ quote U root @ '' is not a directory''))
           | StatDirectory \<Rightarrow>
               case env_service E root of
                 Some e \<Rightarrow> (server, Some (''configure LSP workspace '' @ quote U root @ '': '' @ e))
               | None \<Rightarrow>
                   if workspace_at server (pathKey root) \<noteq> None then (server, None)
                   else (set_workspace (pathKey root) \<lparr>ws_root = root, ws_uri = uri, ws_sequence = 0,
                           ws_timer = False, ws_cancel = False, ws_latest = None, ws_good = None,
                           ws_settings = srv_settings server, ws_published = [], ws_documents = []\<rparr> server, None)))"

text \<open>The workspace with the longest root that contains a clean absolute path.\<close>

definition inside :: "string \<Rightarrow> string \<Rightarrow> bool" where
  "inside root path = (path = root \<or> has_prefix path (if root = ''/'' then ''/'' else root @ ''/''))"

fun select_workspace ::
    "string \<Rightarrow> (string \<times> lsp_workspace) list \<Rightarrow> (string \<times> lsp_workspace) option \<Rightarrow> (string \<times> lsp_workspace) option" where
  "select_workspace path [] selected = selected"
| "select_workspace path ((key, candidate) # rest) selected =
     select_workspace path rest
       (if \<not> inside (ws_root candidate) path then selected
        else case selected of
               None \<Rightarrow> Some (key, candidate)
             | Some (k, ws) \<Rightarrow> if length (ws_root candidate) > length (ws_root ws) then Some (key, candidate) else selected)"

definition workspaceForPathLocked :: "lsp_server \<Rightarrow> string \<Rightarrow> (string \<times> lsp_workspace) option" where
  "workspaceForPathLocked server path = select_workspace path (srv_workspaces server) None"

definition ensureWorkspace ::
    "unicode_tables \<Rightarrow> lsp_environment \<Rightarrow> string \<Rightarrow> lsp_server \<Rightarrow> lsp_server \<times> string go_result" where
  "ensureWorkspace U E path server =
     (case workspaceForPathLocked server path of
        Some (key, ws) \<Rightarrow> (server, Inr key)
      | None \<Rightarrow>
          (case discoverModuleRoot U E path of
             Inl e \<Rightarrow> (server, Inl e)
           | Inr root \<Rightarrow>
               (case fileURI U E root of
                  Inl e \<Rightarrow> (server, Inl e)
                | Inr uri \<Rightarrow>
                    (case addWorkspace U E uri server of
                       (server', Some e) \<Rightarrow> (server', Inl e)
                     | (server', None) \<Rightarrow> (server', Inr (pathKey root))))))"

definition detach_document :: "string \<Rightarrow> lsp_server \<Rightarrow> lsp_server" where
  "detach_document uri server =
     (case document_at server uri of
        None \<Rightarrow> server
      | Some doc \<Rightarrow> set_document uri (doc\<lparr>doc_root := []\<rparr>) server)"

definition removeWorkspace :: "unicode_tables \<Rightarrow> lsp_environment \<Rightarrow> string \<Rightarrow> lsp_server \<Rightarrow> lsp_server \<times> lsp_effect list" where
  "removeWorkspace U E uri server =
     (case filePath U E uri of
        Inl e \<Rightarrow> (server, [])
      | Inr root \<Rightarrow>
          (case workspace_at server (pathKey root) of
             None \<Rightarrow> (server, [])
           | Some ws \<Rightarrow>
               (fold detach_document (ws_documents ws)
                  (server\<lparr>srv_workspaces := AList.delete (pathKey root) (srv_workspaces server)\<rparr>),
                map (\<lambda>u. Publish \<lparr>pub_uri = u, pub_version = None, pub_diagnostics = []\<rparr>)
                  (mapKeys (ws_published ws)))))"

section \<open>Scheduling\<close>

definition scheduleWorkspaceLocked :: "string \<Rightarrow> lsp_server \<Rightarrow> lsp_server \<times> lsp_effect list" where
  "scheduleWorkspaceLocked key server =
     (case workspace_at server key of
        None \<Rightarrow> (server, [])
      | Some ws \<Rightarrow>
          if srv_closing server \<or> srv_shutdown server then (server, [])
          else (set_workspace key (ws\<lparr>ws_sequence := ws_sequence ws + 1, ws_timer := True, ws_cancel := False\<rparr>) server,
                [Arm key (ws_sequence ws + 1)]))"

definition show_error :: "string \<Rightarrow> lsp_effect" where
  "show_error e = ShowMessage (''Spice analysis failed: '' @ e)"

section \<open>Documents\<close>

record text_document_item =
  item_uri :: string
  item_language :: string
  item_version :: int
  item_text :: string

definition forget_document :: "string \<Rightarrow> lsp_server \<Rightarrow> lsp_server" where
  "forget_document uri server =
     (case document_at server uri of
        None \<Rightarrow> server
      | Some previous \<Rightarrow>
          (case workspace_at server (doc_root previous) of
             None \<Rightarrow> server
           | Some ws \<Rightarrow> set_workspace (doc_root previous)
               (ws\<lparr>ws_documents := removeAll (doc_uri previous) (ws_documents ws)\<rparr>) server))"

definition didOpen ::
    "unicode_tables \<Rightarrow> lsp_environment \<Rightarrow> text_document_item \<Rightarrow> lsp_server \<Rightarrow> lsp_server \<times> lsp_effect list" where
  "didOpen U E item server =
     (if item_uri item = [] \<or> length (item_text item) > srv_limit server then (server, [])
      else case filePath U E (item_uri item) of
        Inl e \<Rightarrow> (server, [])
      | Inr path \<Rightarrow>
          (case ensureWorkspace U E path server of
             (server, Inl e) \<Rightarrow> (server, [show_error e])
           | (server, Inr root) \<Rightarrow>
               let server = set_document (item_uri item)
                     \<lparr>doc_uri = item_uri item, doc_path = path, doc_language = item_language item,
                      doc_version = item_version item, doc_content = item_text item, doc_root = root\<rparr>
                     (forget_document (item_uri item) server)
               in case workspace_at server root of
                    None \<Rightarrow> (server, [])
                  | Some ws \<Rightarrow> scheduleWorkspaceLocked root
                      (set_workspace root (ws\<lparr>ws_documents := List.insert (item_uri item) (ws_documents ws)\<rparr>) server)))"

text \<open>A content change is the flag whether it has a range, and its text.\<close>

definition didChange :: "string \<Rightarrow> int \<Rightarrow> (bool \<times> string) list \<Rightarrow> lsp_server \<Rightarrow> lsp_server \<times> lsp_effect list" where
  "didChange uri version changes server =
     (if changes = [] then (server, [])
      else let (ranged, content) = last changes
           in if ranged \<or> length content > srv_limit server then (server, [])
              else case document_at server uri of
                     None \<Rightarrow> (server, [])
                   | Some doc \<Rightarrow>
                       if version \<le> doc_version doc then (server, [])
                       else scheduleWorkspaceLocked (doc_root doc)
                              (set_document uri (doc\<lparr>doc_version := version, doc_content := content\<rparr>) server))"

definition didSave :: "string \<Rightarrow> string option \<Rightarrow> lsp_server \<Rightarrow> lsp_server \<times> lsp_effect list" where
  "didSave uri content server =
     (case document_at server uri of
        None \<Rightarrow> (server, [])
      | Some doc \<Rightarrow>
          (case content of
             None \<Rightarrow> scheduleWorkspaceLocked (doc_root doc) server
           | Some t \<Rightarrow>
               if length t > srv_limit server then (server, [])
               else scheduleWorkspaceLocked (doc_root doc) (set_document uri (doc\<lparr>doc_content := t\<rparr>) server)))"

definition didClose :: "string \<Rightarrow> lsp_server \<Rightarrow> lsp_server \<times> lsp_effect list" where
  "didClose uri server =
     (case document_at server uri of
        None \<Rightarrow> (server, [])
      | Some doc \<Rightarrow>
          let server = server\<lparr>srv_documents := AList.delete uri (srv_documents server)\<rparr>;
              (server, effects) =
                (case workspace_at server (doc_root doc) of
                   None \<Rightarrow> (server, [])
                 | Some ws \<Rightarrow> scheduleWorkspaceLocked (doc_root doc)
                     (set_workspace (doc_root doc) (ws\<lparr>ws_documents := removeAll uri (ws_documents ws),
                        ws_published := removeAll uri (ws_published ws)\<rparr>) server))
          in (server, effects @ [Publish \<lparr>pub_uri = uri, pub_version = None, pub_diagnostics = []\<rparr>]))"

fun schedule_all :: "string list \<Rightarrow> lsp_server \<Rightarrow> lsp_server \<times> lsp_effect list" where
  "schedule_all [] server = (server, [])"
| "schedule_all (key # keys) server =
     (let (server, first) = scheduleWorkspaceLocked key server;
          (server, rest) = schedule_all keys server
      in (server, first @ rest))"

definition refreshAll ::
    "unicode_tables \<Rightarrow> analysis_settings option \<Rightarrow> lsp_server \<Rightarrow> lsp_server \<times> lsp_effect list" where
  "refreshAll U given server =
     (case normalizeAnalysisSettings U given of
        Inl e \<Rightarrow> (server, [show_error e])
      | Inr settings \<Rightarrow>
          let server = (if given = None then server
                else server\<lparr>srv_settings := settings,
                       srv_workspaces := map (\<lambda>(k, ws). (k, ws\<lparr>ws_settings := settings\<rparr>)) (srv_workspaces server)\<rparr>)
          in schedule_all (map fst (srv_workspaces server)) server)"

section \<open>Analyses\<close>

record analysis_snapshot =
  snap_root :: string
  snap_settings :: analysis_settings
  snap_sequence :: nat
  snap_overlay :: "(string \<times> int \<times> string) list"   \<comment> \<open>version and content\<close>

definition overlay_of :: "lsp_server \<Rightarrow> lsp_workspace \<Rightarrow> (string \<times> int \<times> string) list" where
  "overlay_of server ws =
     List.map_filter (\<lambda>uri. map_option (\<lambda>doc. (uri, doc_version doc, doc_content doc)) (document_at server uri)) (ws_documents ws)"

text \<open>The locked part of \<open>beginAnalysis\<close>; \<open>None\<close> when the timer is outdated.\<close>

definition beginAnalysis :: "string \<Rightarrow> nat \<Rightarrow> lsp_server \<Rightarrow> lsp_server \<times> analysis_snapshot option" where
  "beginAnalysis key sequence server =
     (case workspace_at server key of
        None \<Rightarrow> (server, None)
      | Some ws \<Rightarrow>
          if ws_sequence ws \<noteq> sequence \<or> srv_closing server \<or> srv_shutdown server then (server, None)
          else (set_workspace key (ws\<lparr>ws_timer := False, ws_cancel := True\<rparr>) server,
                Some \<lparr>snap_root = ws_root ws, snap_settings = ws_settings ws, snap_sequence = sequence,
                      snap_overlay = overlay_of server ws\<rparr>))"

definition versionsCurrentLocked :: "(string \<times> int \<times> string) list \<Rightarrow> lsp_server \<Rightarrow> bool" where
  "versionsCurrentLocked overlay server =
     list_all (\<lambda>(uri, version, content).
       case document_at server uri of None \<Rightarrow> False | Some doc \<Rightarrow> doc_version doc = version) overlay"

definition sequenceCurrent :: "string \<Rightarrow> nat \<Rightarrow> lsp_server \<Rightarrow> bool" where
  "sequenceCurrent key sequence server =
     (case workspace_at server key of
        None \<Rightarrow> False
      | Some ws \<Rightarrow> ws_sequence ws = sequence \<and> \<not> srv_closing server)"

definition locationContentLocked :: "lsp_environment \<Rightarrow> lsp_server \<Rightarrow> compiler_location \<Rightarrow> string" where
  "locationContentLocked E server location =
     (case document_at server (loc_uri location) of
        Some doc \<Rightarrow> doc_content doc
      | None \<Rightarrow>
          (case find (\<lambda>(uri, doc). pathKey (doc_path doc) = pathKey (loc_path location)) (srv_documents server) of
             Some (uri, doc) \<Rightarrow> doc_content doc
           | None \<Rightarrow>
               (case env_stat E (loc_path location) of
                  StatRegular bytes \<Rightarrow>
                    if bytes > srv_limit server then []
                    else (case env_read E (Clean (loc_path location)) of
                            Inl e \<Rightarrow> []
                          | Inr content \<Rightarrow> if length content > srv_limit server then [] else content)
                | _ \<Rightarrow> [])))"

definition placed :: "compiler_diagnostic \<Rightarrow> bool" where
  "placed item = (loc_uri (cdiag_location item) \<noteq> [] \<and> loc_path (cdiag_location item) \<noteq> [])"

text \<open>
  The loop over the diagnostics of a result: the map from documents to their converted diagnostics, and the messages
  of the diagnostics that have no place.
\<close>

type_synonym grouped_diagnostics = "(string \<times> protocol_diagnostic list) list"

definition group_at :: "grouped_diagnostics \<Rightarrow> string \<Rightarrow> protocol_diagnostic list" where
  "group_at groups uri = (case map_of groups uri of None \<Rightarrow> [] | Some items \<Rightarrow> items)"

definition group_item ::
    "lsp_environment \<Rightarrow> lsp_server \<Rightarrow> compiler_diagnostic \<Rightarrow> grouped_diagnostics \<times> string list
       \<Rightarrow> grouped_diagnostics \<times> string list" where
  "group_item E server item state =
     (case state of (groups, global) \<Rightarrow>
        if \<not> placed item then (groups, global @ [cdiag_message item])
        else let uri = loc_uri (cdiag_location item);
                 content = locationContentLocked E server (cdiag_location item);
                 converted = protocolDiagnosticFromCompiler item content
             in (AList.update uri (group_at groups uri @ [converted]) groups, global))"

definition grouped :: "lsp_environment \<Rightarrow> lsp_server \<Rightarrow> analysis_result \<Rightarrow> grouped_diagnostics \<times> string list" where
  "grouped E server result = fold (group_item E server) (result_diagnostics result) ([], [])"

definition append_absent :: "string \<Rightarrow> string list \<Rightarrow> string list" where
  "append_absent uri uris = (if uri \<in> set uris then uris else uris @ [uri])"

definition publication_uris :: "lsp_workspace \<Rightarrow> grouped_diagnostics \<Rightarrow> string list" where
  "publication_uris ws groups =
     sort_strings (fold append_absent (map fst groups)
       (fold append_absent (ws_documents ws) (mapKeys (ws_published ws))))"

definition publicationsLocked ::
    "lsp_environment \<Rightarrow> lsp_server \<Rightarrow> lsp_workspace \<Rightarrow> analysis_result
       \<Rightarrow> lsp_workspace \<times> diagnostic_publication list \<times> string list" where
  "publicationsLocked E server ws result =
     (let (groups, global) = grouped E server result;
          uris = publication_uris ws groups
      in (ws\<lparr>ws_published := filter (\<lambda>uri. group_at groups uri \<noteq> []) uris\<rparr>,
          map (\<lambda>uri. \<lparr>pub_uri = uri, pub_version = map_option doc_version (document_at server uri),
                 pub_diagnostics = group_at groups uri\<rparr>) uris,
          global))"

definition accepts :: "string \<Rightarrow> analysis_snapshot \<Rightarrow> lsp_server \<Rightarrow> bool" where
  "accepts key snapshot server =
     (case workspace_at server key of
        None \<Rightarrow> False
      | Some ws \<Rightarrow> ws_sequence ws = snap_sequence snapshot \<and> \<not> srv_closing server \<and>
          versionsCurrentLocked (snap_overlay snapshot) server)"

text \<open>The locked part of \<open>completeAnalysis\<close>; \<open>None\<close> when the result is dropped.\<close>

definition completeAnalysis ::
    "lsp_environment \<Rightarrow> string \<Rightarrow> analysis_snapshot \<Rightarrow> analysis_result \<Rightarrow> lsp_server
       \<Rightarrow> lsp_server \<times> (diagnostic_publication list \<times> string list) option" where
  "completeAnalysis E key snapshot result server =
     (case workspace_at server key of
        None \<Rightarrow> (server, None)
      | Some ws \<Rightarrow>
          if \<not> accepts key snapshot server then (server, None)
          else let ws = ws\<lparr>ws_cancel := False, ws_latest := Some result,
                       ws_good := (if result_ready result then Some result else ws_good ws)\<rparr>;
                   (ws, publications, messages) = publicationsLocked E server ws result
               in (set_workspace key ws server, Some (publications, messages)))"

section \<open>Life cycle\<close>

definition cancelAnalysesLocked :: "lsp_server \<Rightarrow> lsp_server" where
  "cancelAnalysesLocked server = server\<lparr>srv_workspaces :=
     map (\<lambda>(k, ws). (k, ws\<lparr>ws_timer := False, ws_cancel := False\<rparr>)) (srv_workspaces server)\<rparr>"

definition handleShutdown :: "lsp_server \<Rightarrow> lsp_server" where
  "handleShutdown server = cancelAnalysesLocked (server\<lparr>srv_shutdown := True\<rparr>)"

definition stop_server :: "lsp_server \<Rightarrow> lsp_server" where
  "stop_server server = cancelAnalysesLocked (server\<lparr>srv_closing := True\<rparr>)"

fun add_folders :: "unicode_tables \<Rightarrow> lsp_environment \<Rightarrow> string list \<Rightarrow> lsp_server \<Rightarrow> lsp_server \<times> string option" where
  "add_folders U E [] server = (server, None)"
| "add_folders U E (uri # uris) server =
     (case addWorkspace U E uri server of
        (server, Some e) \<Rightarrow> (server, Some e)
      | (server, None) \<Rightarrow> add_folders U E uris server)"

definition New_server :: "int \<Rightarrow> int \<Rightarrow> bool \<Rightarrow> lsp_server go_result" where
  "New_server analysisDelay maxDocumentBytes hasService =
     (if \<not> hasService then Inl ''LSP compiler service factory must not be nil''
      else if analysisDelay < 0 then Inl ''LSP analysis delay must not be negative''
      else let limit = (if maxDocumentBytes = 0 then 16777216 else maxDocumentBytes)
           in if limit \<le> 0 then Inl ''LSP document byte limit must be positive''
              else Inr \<lparr>srv_limit = nat limit, srv_initialized = False, srv_shutdown = False, srv_closing = False,
                     srv_settings = no_settings, srv_workspaces = [], srv_documents = []\<rparr>)"

text \<open>\<open>initialize\<close> with the folders of its parameters; \<open>Some e\<close> is the failure response.\<close>

definition initialize_folders ::
    "unicode_tables \<Rightarrow> lsp_environment \<Rightarrow> string list \<Rightarrow> string \<Rightarrow> string \<Rightarrow> string list go_result" where
  "initialize_folders U E folders rootURI rootPath =
     (if folders \<noteq> [] then Inr folders
      else if rootURI \<noteq> [] then Inr [rootURI]
      else if rootPath \<noteq> [] then map_sum (\<lambda>e. e) (\<lambda>uri. [uri]) (fileURI U E rootPath)
      else Inr [])"

definition initialize ::
    "unicode_tables \<Rightarrow> lsp_environment \<Rightarrow> analysis_settings option \<Rightarrow> string list \<Rightarrow> string \<Rightarrow> string
       \<Rightarrow> lsp_server \<Rightarrow> lsp_server \<times> string option" where
  "initialize U E options folders rootURI rootPath server =
     (if srv_initialized server then (server, Some ''Spice language server is already initialized'')
      else case normalizeAnalysisSettings U options of
        Inl e \<Rightarrow> (server, Some e)
      | Inr settings \<Rightarrow>
          let server = server\<lparr>srv_settings := settings\<rparr>
          in case initialize_folders U E folders rootURI rootPath of
               Inl e \<Rightarrow> (server, Some e)
             | Inr uris \<Rightarrow>
                 (case add_folders U E uris server of
                    (server, Some e) \<Rightarrow> (server, Some e)
                  | (server, None) \<Rightarrow> (server\<lparr>srv_initialized := True\<rparr>, None)))"

end
