(* ===== verification/Lsp_Analysis.thy ===== *)
theory Lsp_Analysis
  imports Lsp_Server
begin

text \<open>
  The language server as a transition system over all interleavings of the goroutine that handles
  messages, the timers, the analyses in flight and the goroutines that publish their
  diagnostics.  A timer function may run late, also after its timer was stopped.  The client is the
  table of the diagnostics it shows.
\<close>

section \<open>The system\<close>

record publication_job =
  job_key :: string
  job_sequence :: nat
  job_left :: "diagnostic_publication list"
  job_messages :: "string list"
  job_checked :: bool               \<comment> \<open>the sequence was current, the next item will be written\<close>

record lsp_system =
  sys_server :: lsp_server
  sys_armed :: "(string \<times> nat) list"
  sys_running :: "(string \<times> analysis_snapshot) list"
  sys_jobs :: "publication_job list"
  sys_direct :: "diagnostic_publication list"   \<comment> \<open>what the message handler still has to write\<close>
  sys_client :: "string \<Rightarrow> protocol_diagnostic list"
  sys_messages :: "string list"

definition start_system :: "lsp_server \<Rightarrow> lsp_system" where
  "start_system server = \<lparr>sys_server = server, sys_armed = [], sys_running = [], sys_jobs = [],
     sys_direct = [], sys_client = (\<lambda>uri. []), sys_messages = []\<rparr>"

fun apply_effect :: "lsp_effect \<Rightarrow> lsp_system \<Rightarrow> lsp_system" where
  "apply_effect (Arm key sequence) sys = sys\<lparr>sys_armed := sys_armed sys @ [(key, sequence)]\<rparr>"
| "apply_effect (Publish p) sys = sys\<lparr>sys_direct := sys_direct sys @ [p]\<rparr>"
| "apply_effect (ShowMessage m) sys = sys\<lparr>sys_messages := sys_messages sys @ [m]\<rparr>"

definition after_handler :: "lsp_server \<times> lsp_effect list \<Rightarrow> lsp_system \<Rightarrow> lsp_system" where
  "after_handler r sys = fold apply_effect (snd r) (sys\<lparr>sys_server := fst r\<rparr>)"

definition publish :: "diagnostic_publication \<Rightarrow> (string \<Rightarrow> protocol_diagnostic list) \<Rightarrow> string \<Rightarrow> protocol_diagnostic list" where
  "publish p client = client(pub_uri p := pub_diagnostics p)"

definition drop_at :: "nat \<Rightarrow> 'a list \<Rightarrow> 'a list" where
  "drop_at i xs = take i xs @ drop (i + 1) xs"

text \<open>A notification is handled when the server is initialized and neither shut down nor closing.\<close>

definition serving :: "lsp_system \<Rightarrow> bool" where
  "serving sys =
     (srv_initialized (sys_server sys) \<and> \<not> srv_shutdown (sys_server sys) \<and> \<not> srv_closing (sys_server sys) \<and>
      sys_direct sys = [])"

datatype lsp_action =
    Initialize "analysis_settings option" "string list" string string
  | DidOpen text_document_item
  | DidChange string int "(bool \<times> string) list"
  | DidSave string "string option"
  | DidClose string
  | FolderAdded string
  | FolderRemoved string
  | ConfigurationChanged "analysis_settings option"
  | ShutDown
  | StopServer
  | TimerFires nat
  | AnalysisFails nat string
  | AnalysisReturns nat analysis_result
  | CheckSequence nat
  | WriteNext nat
  | WriteFails nat
  | WriteDirect

fun lsp_perform :: "unicode_tables \<Rightarrow> lsp_environment \<Rightarrow> lsp_action \<Rightarrow> lsp_system \<Rightarrow> lsp_system option" where
  "lsp_perform U E (Initialize options folders rootURI rootPath) sys =
     (if srv_closing (sys_server sys) \<or> sys_direct sys \<noteq> [] then None
      else Some (sys\<lparr>sys_server := fst (initialize U E options folders rootURI rootPath (sys_server sys))\<rparr>))"
| "lsp_perform U E (DidOpen item) sys =
     (if serving sys then Some (after_handler (didOpen U E item (sys_server sys)) sys) else None)"
| "lsp_perform U E (DidChange uri version changes) sys =
     (if serving sys then Some (after_handler (didChange uri version changes (sys_server sys)) sys) else None)"
| "lsp_perform U E (DidSave uri content) sys =
     (if serving sys then Some (after_handler (didSave uri content (sys_server sys)) sys) else None)"
| "lsp_perform U E (DidClose uri) sys =
     (if serving sys then Some (after_handler (didClose uri (sys_server sys)) sys) else None)"
| "lsp_perform U E (FolderAdded uri) sys =
     (if serving sys
      then Some (case addWorkspace U E uri (sys_server sys) of
                   (server, None) \<Rightarrow> after_handler (server, []) sys
                 | (server, Some e) \<Rightarrow> after_handler (server, [show_error e]) sys)
      else None)"
| "lsp_perform U E (FolderRemoved uri) sys =
     (if serving sys then Some (after_handler (removeWorkspace U E uri (sys_server sys)) sys) else None)"
| "lsp_perform U E (ConfigurationChanged settings) sys =
     (if serving sys then Some (after_handler (refreshAll U settings (sys_server sys)) sys) else None)"
| "lsp_perform U E ShutDown sys =
     (if serving sys then Some (sys\<lparr>sys_server := handleShutdown (sys_server sys)\<rparr>) else None)"
| "lsp_perform U E StopServer sys =
     (if srv_closing (sys_server sys) then None else Some (sys\<lparr>sys_server := stop_server (sys_server sys)\<rparr>))"
| "lsp_perform U E (TimerFires i) sys =
     (if i < length (sys_armed sys)
      then let (key, sequence) = sys_armed sys ! i;
               (server, started) = beginAnalysis key sequence (sys_server sys);
               sys = sys\<lparr>sys_armed := drop_at i (sys_armed sys), sys_server := server\<rparr>
           in Some (case started of
                      None \<Rightarrow> sys
                    | Some snapshot \<Rightarrow> sys\<lparr>sys_running := sys_running sys @ [(key, snapshot)]\<rparr>)
      else None)"
| "lsp_perform U E (AnalysisFails i e) sys =
     (if i < length (sys_running sys)
      then Some (sys\<lparr>sys_running := drop_at i (sys_running sys), sys_messages := sys_messages sys @ [e]\<rparr>)
      else None)"
| "lsp_perform U E (AnalysisReturns i result) sys =
     (if i < length (sys_running sys)
      then let (key, snapshot) = sys_running sys ! i;
               (server, accepted) = completeAnalysis E key snapshot result (sys_server sys);
               sys = sys\<lparr>sys_running := drop_at i (sys_running sys), sys_server := server\<rparr>
           in Some (case accepted of
                      None \<Rightarrow> sys
                    | Some (publications, messages) \<Rightarrow>
                        sys\<lparr>sys_jobs := sys_jobs sys @ [\<lparr>job_key = key, job_sequence = snap_sequence snapshot,
                          job_left = publications, job_messages = messages, job_checked = False\<rparr>]\<rparr>)
      else None)"
| "lsp_perform U E (CheckSequence i) sys =
     (if i < length (sys_jobs sys) \<and> \<not> job_checked (sys_jobs sys ! i)
      then let job = sys_jobs sys ! i
           in Some (if (job_left job \<noteq> [] \<or> job_messages job \<noteq> []) \<and>
                       sequenceCurrent (job_key job) (job_sequence job) (sys_server sys)
                    then sys\<lparr>sys_jobs := (sys_jobs sys)[i := job\<lparr>job_checked := True\<rparr>]\<rparr>
                    else sys\<lparr>sys_jobs := drop_at i (sys_jobs sys)\<rparr>)
      else None)"
| "lsp_perform U E (WriteNext i) sys =
     (if i < length (sys_jobs sys) \<and> job_checked (sys_jobs sys ! i)
      then let job = sys_jobs sys ! i
           in (case job_left job of
                 p # left \<Rightarrow> Some (sys\<lparr>sys_client := publish p (sys_client sys),
                   sys_jobs := (sys_jobs sys)[i := job\<lparr>job_left := left, job_checked := False\<rparr>]\<rparr>)
               | [] \<Rightarrow>
                   (case job_messages job of
                      m # ms \<Rightarrow> Some (sys\<lparr>sys_messages := sys_messages sys @ [m],
                        sys_jobs := (sys_jobs sys)[i := job\<lparr>job_messages := ms, job_checked := False\<rparr>]\<rparr>)
                    | [] \<Rightarrow> None))
      else None)"
| "lsp_perform U E (WriteFails i) sys =
     (if i < length (sys_jobs sys) \<and> job_checked (sys_jobs sys ! i)
      then Some (sys\<lparr>sys_jobs := drop_at i (sys_jobs sys)\<rparr>) else None)"
| "lsp_perform U E WriteDirect sys =
     (case sys_direct sys of
        [] \<Rightarrow> None
      | p # ps \<Rightarrow> Some (sys\<lparr>sys_client := publish p (sys_client sys), sys_direct := ps\<rparr>))"

inductive lsp_reachable :: "unicode_tables \<Rightarrow> lsp_environment \<Rightarrow> nat \<Rightarrow> lsp_system \<Rightarrow> bool" for U E limit where
  lsp_start: "New_server 0 (int limit) True = Inr server \<Longrightarrow> lsp_reachable U E limit (start_system server)"
| lsp_step: "lsp_reachable U E limit sys \<Longrightarrow> lsp_perform U E action sys = Some sys' \<Longrightarrow> lsp_reachable U E limit sys'"

text \<open>Runs in which no workspace folder is removed.\<close>

definition keeps_folders :: "lsp_action \<Rightarrow> bool" where
  "keeps_folders action = (case action of FolderRemoved uri \<Rightarrow> False | _ \<Rightarrow> True)"

inductive lsp_steady :: "unicode_tables \<Rightarrow> lsp_environment \<Rightarrow> nat \<Rightarrow> lsp_system \<Rightarrow> bool" for U E limit where
  steady_start: "New_server 0 (int limit) True = Inr server \<Longrightarrow> lsp_steady U E limit (start_system server)"
| steady_step: "lsp_steady U E limit sys \<Longrightarrow> lsp_perform U E action sys = Some sys' \<Longrightarrow> keeps_folders action \<Longrightarrow>
    lsp_steady U E limit sys'"

section \<open>How the server progresses\<close>

lemma workspace_at_simps [simp]:
  "workspace_at (set_workspace key ws server) k = (if k = key then Some ws else workspace_at server k)"
  "workspace_at (set_document uri doc server) k = workspace_at server k"
  "document_at (set_document uri doc server) u = (if u = uri then Some doc else document_at server u)"
  "document_at (set_workspace key ws server) u = document_at server u"
  by (simp_all add: workspace_at_def document_at_def set_workspace_def set_document_def update_conv')

lemma server_flags [simp]:
  "srv_closing (set_workspace key ws server) = srv_closing server" "srv_shutdown (set_workspace key ws server) = srv_shutdown server"
  "srv_closing (set_document uri doc server) = srv_closing server" "srv_shutdown (set_document uri doc server) = srv_shutdown server"
  "srv_limit (set_workspace key ws server) = srv_limit server" "srv_limit (set_document uri doc server) = srv_limit server"
  by (simp_all add: set_workspace_def set_document_def)

text \<open>A document of a workspace is open and knows its workspace.\<close>

definition attached :: "lsp_server \<Rightarrow> bool" where
  "attached server =
     ((\<forall>key ws uri. workspace_at server key = Some ws \<longrightarrow> uri \<in> set (ws_documents ws) \<longrightarrow>
         (\<exists>doc. document_at server uri = Some doc \<and> doc_root doc = key)) \<and>
      (\<forall>uri doc. document_at server uri = Some doc \<longrightarrow> doc_uri doc = uri))"

lemma attachedD:
  assumes "attached server" "workspace_at server key = Some ws" "uri \<in> set (ws_documents ws)"
  obtains doc where "document_at server uri = Some doc" "doc_root doc = key"
  using assms unfolding attached_def by blast

lemma attached_other:
  assumes "attached server" "document_at server uri = Some doc" "workspace_at server key = Some ws" "key \<noteq> doc_root doc"
  shows "uri \<notin> set (ws_documents ws)"
proof
  assume "uri \<in> set (ws_documents ws)"
  from assms(1,3) this obtain doc' where "document_at server uri = Some doc'" "doc_root doc' = key" by (rule attachedD)
  then show False using assms(2,4) by simp
qed

lemma attached_uri: "attached server \<Longrightarrow> document_at server uri = Some doc \<Longrightarrow> doc_uri doc = uri"
  by (simp add: attached_def)

definition same_document :: "lsp_server \<Rightarrow> lsp_server \<Rightarrow> string \<Rightarrow> bool" where
  "same_document server server' uri =
     (\<exists>doc doc'. document_at server uri = Some doc \<and> document_at server' uri = Some doc' \<and>
        doc_version doc' = doc_version doc \<and> doc_content doc' = doc_content doc)"

text \<open>A workspace stays, and either its sequence number grows or the documents it still has are unchanged.\<close>

definition newer :: "lsp_server \<Rightarrow> lsp_server \<Rightarrow> lsp_workspace \<Rightarrow> lsp_workspace \<Rightarrow> bool" where
  "newer server server' ws ws' =
     (ws_sequence ws < ws_sequence ws' \<or>
      ws_sequence ws' = ws_sequence ws \<and> set (ws_documents ws') \<subseteq> set (ws_documents ws) \<and>
      (\<forall>uri \<in> set (ws_documents ws'). same_document server server' uri))"

definition progresses :: "lsp_server \<Rightarrow> lsp_server \<Rightarrow> bool" where
  "progresses server server' =
     (\<forall>key ws. workspace_at server key = Some ws \<longrightarrow>
        (\<exists>ws'. workspace_at server' key = Some ws' \<and> newer server server' ws ws'))"

lemma progresses_trans:
  assumes "progresses a b" "progresses b c"
  shows "progresses a c"
  unfolding progresses_def
proof (intro allI impI)
  fix key ws assume "workspace_at a key = Some ws"
  then obtain ws' ws'' where w: "workspace_at b key = Some ws'" "newer a b ws ws'" "workspace_at c key = Some ws''" "newer b c ws' ws''"
    using assms by (meson progresses_def)
  have "newer a c ws ws''" using w(2,4) unfolding newer_def same_document_def by (auto 4 4)
  then show "\<exists>ws'. workspace_at c key = Some ws' \<and> newer a c ws ws'" using w(3) by blast
qed

lemma progresses_same:
  assumes "attached server" "\<And>key ws. workspace_at server key = Some ws \<Longrightarrow>
      \<exists>ws'. workspace_at server' key = Some ws' \<and> ws_sequence ws' = ws_sequence ws \<and> ws_documents ws' = ws_documents ws"
    and "\<And>uri. document_at server' uri = document_at server uri"
  shows "progresses server server'"
  unfolding progresses_def
proof (intro allI impI)
  fix key ws assume w: "workspace_at server key = Some ws"
  then obtain ws' where "workspace_at server' key = Some ws'" "ws_sequence ws' = ws_sequence ws" "ws_documents ws' = ws_documents ws"
    using assms(2) by blast
  moreover have "same_document server server' uri" if "uri \<in> set (ws_documents ws)" for uri
    by (rule attachedD [OF assms(1) w that]) (simp add: same_document_def assms(3))
  ultimately show "\<exists>ws'. workspace_at server' key = Some ws' \<and> newer server server' ws ws'" by (auto simp: newer_def)
qed

lemma progresses_refl: "attached server \<Longrightarrow> progresses server server"
  by (rule progresses_same) auto

text \<open>A change of one document that makes its workspace reschedule.\<close>

lemma progresses_document:
  assumes "attached server" "attached server'"
    and docs: "\<And>u. u \<noteq> uri \<Longrightarrow> document_at server' u = document_at server u"
    and other: "\<And>key ws. key \<noteq> k \<Longrightarrow> workspace_at server key = Some ws \<Longrightarrow>
      \<exists>ws'. workspace_at server' key = Some ws' \<and> ws_sequence ws' = ws_sequence ws \<and>
        set (ws_documents ws') \<subseteq> set (ws_documents ws) \<and> uri \<notin> set (ws_documents ws')"
    and touched: "\<And>ws. workspace_at server k = Some ws \<Longrightarrow>
      \<exists>ws'. workspace_at server' k = Some ws' \<and> ws_sequence ws < ws_sequence ws'"
  shows "progresses server server'"
  unfolding progresses_def
proof (intro allI impI)
  fix key ws assume w: "workspace_at server key = Some ws"
  show "\<exists>ws'. workspace_at server' key = Some ws' \<and> newer server server' ws ws'"
  proof (cases "key = k")
    case True
    then show ?thesis using touched w by (auto simp: newer_def)
  next
    case False
    then obtain ws' where w': "workspace_at server' key = Some ws'" "ws_sequence ws' = ws_sequence ws"
        "set (ws_documents ws') \<subseteq> set (ws_documents ws)" "uri \<notin> set (ws_documents ws')"
      using other w by blast
    have "same_document server server' u" if u: "u \<in> set (ws_documents ws')" for u
    proof -
      have "u \<noteq> uri" using u w'(4) by blast
      moreover obtain doc where "document_at server u = Some doc"
        using attachedD [OF assms(1) w, of u] u w'(3) by blast
      ultimately show ?thesis using docs by (auto simp: same_document_def)
    qed
    then show ?thesis using w' by (auto simp: newer_def)
  qed
qed

lemma schedule_evolves:
  assumes "attached server"
  shows "attached (fst (scheduleWorkspaceLocked key server))" "progresses server (fst (scheduleWorkspaceLocked key server))"
proof -
  show a: "attached (fst (scheduleWorkspaceLocked key server))"
    using assms by (auto simp: scheduleWorkspaceLocked_def attached_def split: option.splits)
  show "progresses server (fst (scheduleWorkspaceLocked key server))"
  proof (cases "\<exists>ws. workspace_at server key = Some ws \<and> \<not> srv_closing server \<and> \<not> srv_shutdown server")
    case True
    then obtain ws where ws: "workspace_at server key = Some ws" by blast
    have "fst (scheduleWorkspaceLocked key server) = set_workspace key
        (ws\<lparr>ws_sequence := ws_sequence ws + 1, ws_timer := True, ws_cancel := False\<rparr>) server"
      using True ws by (simp add: scheduleWorkspaceLocked_def)
    moreover have "same_document server server' u" if "workspace_at server k = Some w" "u \<in> set (ws_documents w)"
        "\<And>u. document_at server' u = document_at server u" for server' k w u
      by (rule attachedD [OF assms that(1,2)]) (simp add: same_document_def that(3))
    ultimately show ?thesis using ws by (auto simp: progresses_def newer_def)
  next
    case False
    then have "fst (scheduleWorkspaceLocked key server) = server"
      by (auto simp: scheduleWorkspaceLocked_def split: option.splits)
    then show ?thesis using progresses_refl [OF assms] by simp
  qed
qed

text \<open>A sound change of the server.\<close>

definition sound :: "lsp_server \<Rightarrow> lsp_server \<Rightarrow> bool" where
  "sound server server' = (attached server \<longrightarrow> attached server' \<and> progresses server server')"

lemma sound_refl [simp]: "sound server server"
  by (simp add: sound_def progresses_refl)

lemma sound_trans [trans]: "sound a b \<Longrightarrow> sound b c \<Longrightarrow> sound a c"
  using progresses_trans by (auto simp: sound_def)

lemma sound_schedule [simp]: "sound server (fst (scheduleWorkspaceLocked key server))"
  using schedule_evolves by (simp add: sound_def)

lemma sound_same:
  assumes "\<And>key ws. workspace_at server key = Some ws \<Longrightarrow>
      \<exists>ws'. workspace_at server' key = Some ws' \<and> ws_sequence ws' = ws_sequence ws \<and> ws_documents ws' = ws_documents ws"
    and "\<And>key ws'. workspace_at server' key = Some ws' \<Longrightarrow> ws_documents ws' = [] \<or>
      (\<exists>ws. workspace_at server key = Some ws \<and> ws_documents ws' = ws_documents ws)"
    and "\<And>uri. document_at server' uri = document_at server uri"
  shows "sound server server'"
  unfolding sound_def
proof (intro impI conjI)
  assume a: "attached server"
  show "progresses server server'" using progresses_same [OF a assms(1,3)] by blast
  show "attached server'"
    unfolding attached_def
  proof (intro conjI allI impI)
    fix key ws' uri assume w: "workspace_at server' key = Some ws'" "uri \<in> set (ws_documents ws')"
    then obtain ws where "workspace_at server key = Some ws" "uri \<in> set (ws_documents ws)" using assms(2) by fastforce
    then show "\<exists>doc. document_at server' uri = Some doc \<and> doc_root doc = key"
      using attachedD [OF a] by (metis assms(3))
  qed (use a assms(3) in \<open>auto simp: attached_def\<close>)
qed

lemma sound_add: "sound server (fst (addWorkspace U E uri server))"
  by (rule sound_same) (auto simp: addWorkspace_def split: sum.splits file_status.splits option.splits if_splits)

lemma sound_ensure: "sound server (fst (ensureWorkspace U E path server))"
  using sound_add [of server U E]
  by (auto simp: ensureWorkspace_def split: sum.splits option.splits prod.splits) (metis fst_conv)+

lemma forgotten:
  assumes "attached server" "workspace_at (forget_document uri server) key = Some ws'"
  shows "uri \<notin> set (ws_documents ws')" "\<exists>ws. workspace_at server key = Some ws \<and> ws_sequence ws' = ws_sequence ws \<and>
    set (ws_documents ws') \<subseteq> set (ws_documents ws)"
proof -
  have attached: "document_at server uri = Some doc \<Longrightarrow> doc_uri doc = uri" for doc
    using assms(1) by (simp add: attached_def)
  have free: "uri \<notin> set (ws_documents ws)" if "workspace_at server k = Some ws"
      "\<forall>doc. document_at server uri = Some doc \<longrightarrow> doc_root doc \<noteq> k" for k ws
    using attachedD [OF assms(1) that(1)] that(2) by blast
  show "uri \<notin> set (ws_documents ws')"
  proof (cases "\<exists>doc. document_at server uri = Some doc \<and> doc_root doc = key")
    case True
    then show ?thesis using assms(2) attached by (auto simp: forget_document_def split: option.splits if_splits)
  next
    case False
    then have "workspace_at server key = Some ws'"
      using assms(2) by (auto simp: forget_document_def split: option.splits if_splits)
    then show ?thesis using free False by blast
  qed
  show "\<exists>ws. workspace_at server key = Some ws \<and> ws_sequence ws' = ws_sequence ws \<and>
      set (ws_documents ws') \<subseteq> set (ws_documents ws)"
    using assms(2) by (auto simp: forget_document_def split: option.splits if_splits)
qed

lemma forget_document_facts [simp]:
  "document_at (forget_document uri server) u = document_at server u"
  "srv_closing (forget_document uri server) = srv_closing server"
  "srv_shutdown (forget_document uri server) = srv_shutdown server"
  by (auto simp: forget_document_def split: option.splits)

lemma forget_document_None: "workspace_at (forget_document uri server) key = None \<longleftrightarrow> workspace_at server key = None"
  by (auto simp: forget_document_def split: option.splits)

lemma sound_document:
  assumes "attached server \<Longrightarrow> attached server'"
    and docs: "\<And>u. u \<noteq> uri \<Longrightarrow> document_at server' u = document_at server u"
    and other: "\<And>key ws. attached server \<Longrightarrow> key \<noteq> k \<Longrightarrow> workspace_at server key = Some ws \<Longrightarrow>
      \<exists>ws'. workspace_at server' key = Some ws' \<and> ws_sequence ws' = ws_sequence ws \<and>
        set (ws_documents ws') \<subseteq> set (ws_documents ws) \<and> uri \<notin> set (ws_documents ws')"
    and touched: "\<And>ws. workspace_at server k = Some ws \<Longrightarrow>
      \<exists>ws'. workspace_at server' k = Some ws' \<and> ws_sequence ws < ws_sequence ws'"
  shows "sound server server'"
  unfolding sound_def using progresses_document [OF _ assms(1) docs other touched] assms(1) by blast

text \<open>Opening: the document leaves its former workspace and joins one that reschedules.\<close>

lemma sound_replace:
  assumes "doc_uri doc = uri"
  shows "sound server (set_document uri doc (forget_document uri server))"
  unfolding sound_def
proof (intro impI conjI)
  assume a: "attached server"
  let ?s = "set_document uri doc (forget_document uri server)"
  show att: "attached ?s"
    unfolding attached_def
  proof (intro conjI allI impI)
    fix key ws' u assume w: "workspace_at ?s key = Some ws'" "u \<in> set (ws_documents ws')"
    then have w': "workspace_at (forget_document uri server) key = Some ws'" by simp
    obtain ws where "workspace_at server key = Some ws" "set (ws_documents ws') \<subseteq> set (ws_documents ws)"
      using forgotten(2) [OF a w'] by blast
    then obtain d where "document_at server u = Some d" "doc_root d = key" using attachedD [OF a] w(2) by blast
    moreover have "u \<noteq> uri" using forgotten(1) [OF a w'] w(2) by blast
    ultimately show "\<exists>doc. document_at ?s u = Some doc \<and> doc_root doc = key" by simp
  next
    fix u d assume "document_at ?s u = Some d"
    then show "doc_uri d = u" using a assms by (auto simp: attached_def split: if_splits)
  qed
  show "progresses server ?s"
    unfolding progresses_def
  proof (intro allI impI)
    fix key ws assume w: "workspace_at server key = Some ws"
    then obtain ws' where w': "workspace_at (forget_document uri server) key = Some ws'"
      by (metis forget_document_None not_Some_eq)
    have f: "uri \<notin> set (ws_documents ws')" "ws_sequence ws' = ws_sequence ws" "set (ws_documents ws') \<subseteq> set (ws_documents ws)"
      using forgotten [OF a w'] w by auto
    have "same_document server ?s u" if u: "u \<in> set (ws_documents ws')" for u
    proof -
      obtain d where "document_at server u = Some d" using attachedD [OF a w, of u] u f(3) by blast
      then show ?thesis using u f(1) by (auto simp: same_document_def)
    qed
    then show "\<exists>ws'. workspace_at ?s key = Some ws' \<and> newer server ?s ws ws'" using w' f by (auto simp: newer_def)
  qed
qed

lemma sound_join:
  assumes "workspace_at server root = Some ws" "document_at server uri = Some doc" "doc_root doc = root"
    "\<not> srv_closing server" "\<not> srv_shutdown server"
  shows "sound server (fst (scheduleWorkspaceLocked root
    (set_workspace root (ws\<lparr>ws_documents := List.insert uri (ws_documents ws)\<rparr>) server)))"
proof (rule sound_document [where k = root and uri = uri])
  let ?s = "set_workspace root (ws\<lparr>ws_documents := List.insert uri (ws_documents ws)\<rparr>) server"
  assume a: "attached server"
  then have "attached ?s" using assms by (auto simp: attached_def)
  then show "attached (fst (scheduleWorkspaceLocked root ?s))" by (rule schedule_evolves)
next
  fix key w assume "attached server" "key \<noteq> root" "workspace_at server key = Some w"
  then show "\<exists>ws'. workspace_at (fst (scheduleWorkspaceLocked root
      (set_workspace root (ws\<lparr>ws_documents := List.insert uri (ws_documents ws)\<rparr>) server))) key = Some ws' \<and>
      ws_sequence ws' = ws_sequence w \<and> set (ws_documents ws') \<subseteq> set (ws_documents w) \<and> uri \<notin> set (ws_documents ws')"
    using assms attachedD [of server key w uri] by (auto simp: scheduleWorkspaceLocked_def)
qed (use assms in \<open>auto simp: scheduleWorkspaceLocked_def\<close>)

text \<open>Editing and saving: the workspace of the document reschedules.\<close>

lemma sound_touch:
  assumes "document_at server uri = Some doc" "doc_root doc' = doc_root doc" "doc_uri doc' = doc_uri doc"
    "\<not> srv_closing server" "\<not> srv_shutdown server"
  shows "sound server (fst (scheduleWorkspaceLocked (doc_root doc) (set_document uri doc' server)))"
proof (rule sound_document [where k = "doc_root doc" and uri = uri])
  assume a: "attached server"
  have "attached (set_document uri doc' server)"
    unfolding attached_def
  proof (intro conjI allI impI)
    fix key w u assume w: "workspace_at (set_document uri doc' server) key = Some w" "u \<in> set (ws_documents w)"
    then obtain d where "document_at server u = Some d" "doc_root d = key" using attachedD [OF a, of key w u] by auto
    then show "\<exists>d. document_at (set_document uri doc' server) u = Some d \<and> doc_root d = key"
      using assms(1,2) by auto
  next
    fix u d assume "document_at (set_document uri doc' server) u = Some d"
    then show "doc_uri d = u" using a assms(1,3) by (auto simp: attached_def split: if_splits)
  qed
  then show "attached (fst (scheduleWorkspaceLocked (doc_root doc) (set_document uri doc' server)))" by (rule schedule_evolves)
next
  fix key w assume a: "attached server" "key \<noteq> doc_root doc" "workspace_at server key = Some w"
  have "uri \<notin> set (ws_documents w)" by (rule attached_other [OF a(1) assms(1) a(3,2)])
  then show "\<exists>ws'. workspace_at (fst (scheduleWorkspaceLocked (doc_root doc) (set_document uri doc' server))) key = Some ws' \<and>
      ws_sequence ws' = ws_sequence w \<and> set (ws_documents ws') \<subseteq> set (ws_documents w) \<and> uri \<notin> set (ws_documents ws')"
    using a assms by (auto simp: scheduleWorkspaceLocked_def split: option.splits)
qed (use assms in \<open>auto simp: scheduleWorkspaceLocked_def split: option.splits\<close>)

lemma sound_close:
  assumes "document_at server uri = Some doc" "\<not> srv_closing server" "\<not> srv_shutdown server"
  shows "sound server (fst (didClose uri server))"
proof (rule sound_document [where k = "doc_root doc" and uri = uri])
  let ?s = "server\<lparr>srv_documents := AList.delete uri (srv_documents server)\<rparr>"
  have at: "workspace_at ?s key = workspace_at server key" "document_at ?s u = (if u = uri then None else document_at server u)"
    for key u by (simp_all add: workspace_at_def document_at_def delete_conv')
  have closed: "fst (didClose uri server) = (case workspace_at server (doc_root doc) of
      None \<Rightarrow> ?s
    | Some ws \<Rightarrow> fst (scheduleWorkspaceLocked (doc_root doc) (set_workspace (doc_root doc)
        (ws\<lparr>ws_documents := removeAll uri (ws_documents ws), ws_published := removeAll uri (ws_published ws)\<rparr>) ?s)))"
    using assms(1) by (auto simp: didClose_def Let_def at split: option.splits prod.splits)
  have gone: "uri \<notin> set (ws_documents w)" if "attached server" "key \<noteq> doc_root doc" "workspace_at server key = Some w" for key w
    by (rule attached_other [OF that(1) assms(1) that(3,2)])
  show "attached (fst (didClose uri server))" if a: "attached server"
  proof (cases "workspace_at server (doc_root doc)")
    case None
    have "attached ?s" unfolding attached_def at
    proof (intro conjI allI impI)
      fix key w u assume w: "workspace_at server key = Some w" "u \<in> set (ws_documents w)"
      moreover have "key \<noteq> doc_root doc" using None w(1) by auto
      ultimately have "u \<noteq> uri" using gone [OF a] by blast
      then show "\<exists>d. (if u = uri then None else document_at server u) = Some d \<and> doc_root d = key"
        using attachedD [OF a w] by auto
    qed (use attached_uri [OF a] in \<open>auto split: if_splits\<close>)
    then show ?thesis using closed None by simp
  next
    case (Some ws)
    let ?t = "set_workspace (doc_root doc)
        (ws\<lparr>ws_documents := removeAll uri (ws_documents ws), ws_published := removeAll uri (ws_published ws)\<rparr>) ?s"
    have "attached ?t" unfolding attached_def workspace_at_simps at
    proof (intro conjI allI impI)
      fix key w u
      assume w: "(if key = doc_root doc then Some (ws\<lparr>ws_documents := removeAll uri (ws_documents ws),
          ws_published := removeAll uri (ws_published ws)\<rparr>) else workspace_at server key) = Some w" "u \<in> set (ws_documents w)"
      then obtain w0 where w0: "workspace_at server key = Some w0" "u \<in> set (ws_documents w0)"
        using Some by (auto split: if_splits)
      have "u \<noteq> uri" using w gone [OF a] by (auto split: if_splits)
      then show "\<exists>d. (if u = uri then None else document_at server u) = Some d \<and> doc_root d = key"
        using attachedD [OF a w0] by auto
    qed (use attached_uri [OF a] in \<open>auto split: if_splits\<close>)
    then show ?thesis using schedule_evolves(1) closed Some by simp
  qed
  show "document_at (fst (didClose uri server)) u = document_at server u" if "u \<noteq> uri" for u
    using that unfolding closed by (auto simp: at scheduleWorkspaceLocked_def split: option.splits)
  show "\<exists>ws'. workspace_at (fst (didClose uri server)) key = Some ws' \<and> ws_sequence ws' = ws_sequence w \<and>
      set (ws_documents ws') \<subseteq> set (ws_documents w) \<and> uri \<notin> set (ws_documents ws')"
    if "attached server" "key \<noteq> doc_root doc" "workspace_at server key = Some w" for key w
    using that gone [OF that] unfolding closed by (auto simp: at scheduleWorkspaceLocked_def split: option.splits)
  show "\<exists>ws'. workspace_at (fst (didClose uri server)) (doc_root doc) = Some ws' \<and> ws_sequence w < ws_sequence ws'"
    if "workspace_at server (doc_root doc) = Some w" for w
    using that assms(2,3) unfolding closed by (auto simp: at scheduleWorkspaceLocked_def)
qed

section \<open>Every operation is sound\<close>

lemma add_flags:
  assumes "addWorkspace U E uri server = (server', e)"
  shows "srv_closing server' = srv_closing server" "srv_shutdown server' = srv_shutdown server"
  using assms by (auto simp: addWorkspace_def split: sum.splits file_status.splits option.splits if_splits)

lemma ensure_flags:
  assumes "ensureWorkspace U E path server = (server', r)"
  shows "srv_closing server' = srv_closing server" "srv_shutdown server' = srv_shutdown server"
  using assms by (auto simp: ensureWorkspace_def add_flags split: sum.splits option.splits prod.splits)

lemma sound_open:
  assumes "\<not> srv_closing server" "\<not> srv_shutdown server"
  shows "sound server (fst (didOpen U E item server))"
proof (cases "item_uri item = [] \<or> length (item_text item) > srv_limit server \<or> (\<exists>e. filePath U E (item_uri item) = Inl e)")
  case True
  then show ?thesis by (auto simp: didOpen_def)
next
  case False
  then obtain path where path: "filePath U E (item_uri item) = Inr path" by (cases "filePath U E (item_uri item)") auto
  obtain server1 r where e: "ensureWorkspace U E path server = (server1, r)" by fastforce
  have s1: "sound server server1" using sound_ensure [of server U E path] e by simp
  show ?thesis
  proof (cases r)
    case (Inl m)
    then show ?thesis using False path e s1 by (simp add: didOpen_def)
  next
    case (Inr root)
    define doc where "doc = \<lparr>doc_uri = item_uri item, doc_path = path, doc_language = item_language item,
        doc_version = item_version item, doc_content = item_text item, doc_root = root\<rparr>"
    define server2 where "server2 = set_document (item_uri item) doc (forget_document (item_uri item) server1)"
    have s2: "sound server1 server2" unfolding server2_def by (rule sound_replace) (simp add: doc_def)
    have opened: "fst (didOpen U E item server) = (case workspace_at server2 root of
        None \<Rightarrow> server2
      | Some ws \<Rightarrow> fst (scheduleWorkspaceLocked root
          (set_workspace root (ws\<lparr>ws_documents := List.insert (item_uri item) (ws_documents ws)\<rparr>) server2)))"
      using False path e Inr by (auto simp: didOpen_def Let_def server2_def doc_def split: option.splits)
    have "sound server2 (fst (didOpen U E item server))"
      using ensure_flags [OF e] assms unfolding opened
      by (auto split: option.split intro!: sound_join [where doc = doc] simp: server2_def) (simp_all add: doc_def)
    then show ?thesis using s1 s2 sound_trans by blast
  qed
qed

lemma sound_change:
  "\<not> srv_closing server \<Longrightarrow> \<not> srv_shutdown server \<Longrightarrow> sound server (fst (didChange uri version changes server))"
  by (auto simp: didChange_def split: prod.splits option.splits intro: sound_touch)

lemma sound_save:
  "\<not> srv_closing server \<Longrightarrow> \<not> srv_shutdown server \<Longrightarrow> sound server (fst (didSave uri content server))"
  by (auto simp: didSave_def split: option.splits intro: sound_touch)

lemma sound_close_any:
  assumes "\<not> srv_closing server" "\<not> srv_shutdown server"
  shows "sound server (fst (didClose uri server))"
proof (cases "document_at server uri")
  case None
  then show ?thesis by (simp add: didClose_def)
qed (use assms in \<open>blast intro: sound_close\<close>)

lemma sound_schedule_all: "sound server (fst (schedule_all keys server))"
proof (induction keys arbitrary: server)
  case (Cons key keys)
  let ?s = "fst (scheduleWorkspaceLocked key server)"
  have "sound server ?s" by simp
  also have "sound ?s (fst (schedule_all keys ?s))" by (rule Cons.IH)
  finally show ?case by (simp add: split_def Let_def)
qed simp

lemma sound_settings:
  assumes "\<And>key. workspace_at server' key = map_option f (workspace_at server key)"
    "\<And>ws. ws_sequence (f ws) = ws_sequence ws \<and> ws_documents (f ws) = ws_documents ws" "srv_documents server' = srv_documents server"
  shows "sound server server'"
proof (rule sound_same)
  show "\<exists>ws'. workspace_at server' key = Some ws' \<and> ws_sequence ws' = ws_sequence ws \<and> ws_documents ws' = ws_documents ws"
    if "workspace_at server key = Some ws" for key ws using that assms(1,2) by simp
  show "ws_documents ws' = [] \<or> (\<exists>ws. workspace_at server key = Some ws \<and> ws_documents ws' = ws_documents ws)"
    if "workspace_at server' key = Some ws'" for key ws' using that assms(1,2) by auto
qed (use assms(3) in \<open>simp add: document_at_def\<close>)

lemma sound_refresh: "sound server (fst (refreshAll U given server))"
proof (cases "normalizeAnalysisSettings U given")
  case (Inr settings)
  define server1 where "server1 = (if given = None then server
      else server\<lparr>srv_settings := settings,
        srv_workspaces := map (\<lambda>(k, ws). (k, ws\<lparr>ws_settings := settings\<rparr>)) (srv_workspaces server)\<rparr>)"
  have "sound server server1"
  proof (cases "given = None")
    case False
    then show ?thesis
      by (intro sound_settings [where f = "\<lambda>ws. ws\<lparr>ws_settings := settings\<rparr>"]) (auto simp: server1_def workspace_at_def map_of_map)
  qed (simp add: server1_def)
  also have "sound server1 (fst (schedule_all (map fst (srv_workspaces server1)) server1))" by (rule sound_schedule_all)
  finally show ?thesis using Inr by (simp add: refreshAll_def server1_def Let_def)
qed (simp add: refreshAll_def)

lemma sound_workspace:
  assumes "workspace_at server key = Some ws" "ws_sequence ws' = ws_sequence ws" "ws_documents ws' = ws_documents ws"
  shows "sound server (set_workspace key ws' server)"
  using assms by (intro sound_same) (auto split: if_splits)

lemma sound_begin: "sound server (fst (beginAnalysis key sequence server))"
  by (auto simp: beginAnalysis_def split: option.split intro: sound_workspace)

lemma sound_complete: "sound server (fst (completeAnalysis E key snapshot result server))"
  by (auto simp: completeAnalysis_def publicationsLocked_def Let_def split: option.split prod.split intro: sound_workspace)

lemma sound_cancel: "sound server (cancelAnalysesLocked server)"
  by (rule sound_settings [where f = "\<lambda>ws. ws\<lparr>ws_timer := False, ws_cancel := False\<rparr>"])
    (simp_all add: cancelAnalysesLocked_def workspace_at_def map_of_map)

lemma sound_flags: "srv_workspaces server' = srv_workspaces server \<Longrightarrow> srv_documents server' = srv_documents server \<Longrightarrow> sound server server'"
  by (rule sound_settings [where f = "\<lambda>ws. ws"]) (simp_all add: workspace_at_def option.map_ident)

lemma sound_shutdown: "sound server (handleShutdown server)"
proof -
  have "sound server (server\<lparr>srv_shutdown := True\<rparr>)" by (rule sound_flags) simp_all
  also have "sound (server\<lparr>srv_shutdown := True\<rparr>) (handleShutdown server)"
    unfolding handleShutdown_def by (rule sound_cancel)
  finally show ?thesis .
qed

lemma sound_stop: "sound server (stop_server server)"
proof -
  have "sound server (server\<lparr>srv_closing := True\<rparr>)" by (rule sound_flags) simp_all
  also have "sound (server\<lparr>srv_closing := True\<rparr>) (stop_server server)"
    unfolding stop_server_def by (rule sound_cancel)
  finally show ?thesis .
qed

lemma sound_folders: "sound server (fst (add_folders U E uris server))"
proof (induction uris arbitrary: server)
  case (Cons uri uris)
  obtain server1 e where a: "addWorkspace U E uri server = (server1, e)" by fastforce
  have "sound server server1" using sound_add [of server U E uri] a by simp
  also have "sound server1 (fst (add_folders U E uris server1))" by (rule Cons.IH)
  finally show ?case using a \<open>sound server server1\<close> by (cases e) simp_all
qed simp

lemma sound_initialize: "sound server (fst (initialize U E options folders rootURI rootPath server))"
proof -
  have s: "sound server (server\<lparr>srv_settings := settings\<rparr>)" for settings by (rule sound_flags) simp_all
  have "sound server (server1\<lparr>srv_initialized := True\<rparr>)" if "sound server server1" for server1
    using that by (rule sound_trans) (rule sound_flags; simp)
  moreover have "sound server (fst (add_folders U E uris (server\<lparr>srv_settings := settings\<rparr>)))" for uris settings
    using sound_trans [OF s sound_folders] .
  ultimately show ?thesis
    using s by (auto simp: initialize_def Let_def split: sum.split prod.split option.split) (metis fst_conv)+
qed

end
