(* ===== verification/Lsp_Properties.thy ===== *)
theory Lsp_Properties
  imports Lsp_Analysis
begin

text \<open>
  What the language server guarantees in every interleaving: which analysis results it accepts and
  what the client shows after they are published; how diagnostics are left behind for good, and a run in
  which an outdated result is accepted.
\<close>

section \<open>Analyses in flight\<close>

definition covers :: "lsp_server \<Rightarrow> lsp_workspace \<Rightarrow> analysis_snapshot \<Rightarrow> bool" where
  "covers server ws snapshot =
     (\<forall>uri \<in> set (ws_documents ws). \<exists>doc. document_at server uri = Some doc \<and>
        map_of (snap_overlay snapshot) uri = Some (doc_version doc, doc_content doc))"

definition tracked :: "lsp_server \<Rightarrow> string \<times> analysis_snapshot \<Rightarrow> bool" where
  "tracked server r =
     (\<exists>ws. workspace_at server (fst r) = Some ws \<and> snap_sequence (snd r) \<le> ws_sequence ws \<and>
        (snap_sequence (snd r) = ws_sequence ws \<longrightarrow> covers server ws (snd r)))"

definition lsp_inv :: "lsp_system \<Rightarrow> bool" where
  "lsp_inv sys = (attached (sys_server sys) \<and> (\<forall>r \<in> set (sys_running sys). tracked (sys_server sys) r))"

lemma tracked_evolves:
  assumes "tracked server r" "progresses server server'"
  shows "tracked server' r"
proof -
  obtain ws where ws: "workspace_at server (fst r) = Some ws" "snap_sequence (snd r) \<le> ws_sequence ws"
      "snap_sequence (snd r) = ws_sequence ws \<longrightarrow> covers server ws (snd r)"
    using assms(1) by (auto simp: tracked_def)
  obtain ws' where ws': "workspace_at server' (fst r) = Some ws'" "newer server server' ws ws'"
    using assms(2) ws(1) unfolding progresses_def by blast
  have "covers server' ws' (snd r)" if eq: "snap_sequence (snd r) = ws_sequence ws'"
    unfolding covers_def
  proof
    fix uri assume uri: "uri \<in> set (ws_documents ws')"
    have same: "ws_sequence ws' = ws_sequence ws" "uri \<in> set (ws_documents ws)" "same_document server server' uri"
      using ws'(2) ws(2) eq uri unfolding newer_def by auto
    then have "covers server ws (snd r)" using ws(3) eq by simp
    then show "\<exists>doc. document_at server' uri = Some doc \<and>
        map_of (snap_overlay (snd r)) uri = Some (doc_version doc, doc_content doc)"
      using same(2,3) unfolding covers_def same_document_def by fastforce
  qed
  moreover have "snap_sequence (snd r) \<le> ws_sequence ws'" using ws(2) ws'(2) by (auto simp: newer_def)
  ultimately show ?thesis using ws'(1) by (auto simp: tracked_def)
qed

lemma map_of_overlay:
  "uri \<in> set uris \<Longrightarrow> document_at server uri = Some doc \<Longrightarrow>
     map_of (List.map_filter (\<lambda>uri. map_option (\<lambda>doc. (uri, doc_version doc, doc_content doc)) (document_at server uri)) uris) uri =
       Some (doc_version doc, doc_content doc)"
  by (induction uris) (auto simp: List.map_filter_simps split: option.split)

lemma begin_covers:
  assumes "attached server" "beginAnalysis key sequence server = (server', Some snapshot)"
  shows "tracked server (key, snapshot)"
proof -
  obtain ws where ws: "workspace_at server key = Some ws" "ws_sequence ws = snap_sequence snapshot"
      "snap_overlay snapshot = overlay_of server ws"
    using assms(2) by (auto simp: beginAnalysis_def split: option.splits if_splits)
  have "covers server ws snapshot"
    unfolding covers_def
  proof
    fix uri assume "uri \<in> set (ws_documents ws)"
    then obtain doc where "document_at server uri = Some doc" using attachedD [OF assms(1) ws(1)] by blast
    then show "\<exists>doc. document_at server uri = Some doc \<and>
        map_of (snap_overlay snapshot) uri = Some (doc_version doc, doc_content doc)"
      using map_of_overlay \<open>uri \<in> set (ws_documents ws)\<close> unfolding ws(3) overlay_of_def by blast
  qed
  then show ?thesis using ws by (auto simp: tracked_def)
qed

lemma inv_sound:
  assumes "lsp_inv sys" "sound (sys_server sys) (sys_server sys')" "set (sys_running sys') \<subseteq> set (sys_running sys)"
  shows "lsp_inv sys'"
  using assms tracked_evolves unfolding lsp_inv_def sound_def by blast

lemma after_handler_fields [simp]:
  "sys_server (after_handler r sys) = fst r" "sys_running (after_handler r sys) = sys_running sys"
  "sys_client (after_handler r sys) = sys_client sys" "sys_jobs (after_handler r sys) = sys_jobs sys"
proof -
  have "sys_server (fold apply_effect es s) = sys_server s \<and> sys_running (fold apply_effect es s) = sys_running s \<and>
      sys_client (fold apply_effect es s) = sys_client s \<and> sys_jobs (fold apply_effect es s) = sys_jobs s" for es s
  proof (induction es arbitrary: s)
    case (Cons e es)
    then show ?case by (cases e) auto
  qed simp
  then show "sys_server (after_handler r sys) = fst r" "sys_running (after_handler r sys) = sys_running sys"
    "sys_client (after_handler r sys) = sys_client sys" "sys_jobs (after_handler r sys) = sys_jobs sys"
    by (simp_all add: after_handler_def)
qed

lemma set_drop_at: "set (drop_at i xs) \<subseteq> set xs"
  by (auto simp: drop_at_def dest: in_set_takeD in_set_dropD)

lemma perform_sound:
  assumes "lsp_perform U E action sys = Some sys'" "keeps_folders action" "\<nexists>i. action = TimerFires i"
  shows "sound (sys_server sys) (sys_server sys')" "set (sys_running sys') \<subseteq> set (sys_running sys)"
proof -
  have flags: "serving sys \<Longrightarrow> \<not> srv_closing (sys_server sys)" "serving sys \<Longrightarrow> \<not> srv_shutdown (sys_server sys)"
    by (simp_all add: serving_def)
  show "sound (sys_server sys) (sys_server sys')"
    using assms sound_add [of "sys_server sys" U E] sound_complete
    by (cases action)
      (auto simp: keeps_folders_def Let_def sound_initialize sound_open sound_change sound_save sound_close_any sound_refresh
        sound_shutdown sound_stop flags split: if_splits prod.splits option.splits list.splits, (metis fst_conv)+)
  show "set (sys_running sys') \<subseteq> set (sys_running sys)"
    using assms
    by (cases action) (auto simp: keeps_folders_def Let_def split: if_splits prod.splits option.splits list.splits
        dest: subsetD [OF set_drop_at])
qed

lemma timer_inv:
  assumes "lsp_inv sys" "lsp_perform U E (TimerFires i) sys = Some sys'"
  shows "lsp_inv sys'"
proof -
  obtain key sequence where k: "sys_armed sys ! i = (key, sequence)" by fastforce
  obtain server started where b: "beginAnalysis key sequence (sys_server sys) = (server, started)" by fastforce
  have "sound (sys_server sys) server" using sound_begin [of "sys_server sys" key sequence] b by simp
  then have s: "attached server" "progresses (sys_server sys) server" using assms(1) by (auto simp: lsp_inv_def sound_def)
  then have old: "tracked server r" if "r \<in> set (sys_running sys)" for r
    using that assms(1) tracked_evolves unfolding lsp_inv_def by blast
  have "sys_server sys' = server \<and> set (sys_running sys') \<subseteq>
      set (sys_running sys) \<union> (case started of None \<Rightarrow> {} | Some snapshot \<Rightarrow> {(key, snapshot)})"
    using assms(2) k b by (auto simp: Let_def split: if_splits option.splits)
  moreover have "tracked server (key, snapshot)" if "started = Some snapshot" for snapshot
    using begin_covers [of "sys_server sys"] b that assms(1) tracked_evolves s(2) unfolding lsp_inv_def by blast
  ultimately show ?thesis using s(1) old by (auto simp: lsp_inv_def split: option.splits)
qed

lemma steady_inv: "lsp_steady U E limit sys \<Longrightarrow> lsp_inv sys"
proof (induction rule: lsp_steady.induct)
  case (steady_start server)
  then have "srv_workspaces server = []" "srv_documents server = []" by (auto simp: New_server_def Let_def split: if_splits)
  then show ?case by (simp add: lsp_inv_def attached_def start_system_def workspace_at_def document_at_def)
next
  case (steady_step sys action sys')
  show ?case
  proof (cases "\<exists>i. action = TimerFires i")
    case True
    then show ?thesis using timer_inv steady_step by blast
  next
    case False
    then show ?thesis using inv_sound [OF steady_step.IH] perform_sound [OF steady_step.hyps(2,3)] by blast
  qed
qed

section \<open>Publication\<close>

text \<open>What a result says of a document, converted at the text the server has for it.\<close>

definition diagnostics_at :: "lsp_environment \<Rightarrow> lsp_server \<Rightarrow> analysis_result \<Rightarrow> string \<Rightarrow> protocol_diagnostic list" where
  "diagnostics_at E server result uri =
     map (\<lambda>item. protocolDiagnosticFromCompiler item (locationContentLocked E server (cdiag_location item)))
       (filter (\<lambda>item. placed item \<and> loc_uri (cdiag_location item) = uri) (result_diagnostics result))"

definition diagnosed :: "analysis_result \<Rightarrow> string set" where
  "diagnosed result = {loc_uri (cdiag_location item) |item. item \<in> set (result_diagnostics result) \<and> placed item}"

lemma group_at_update [simp]: "group_at (AList.update key items groups) uri = (if uri = key then items else group_at groups uri)"
  by (simp add: group_at_def update_conv')

lemma group_item_cases [simp]:
  "placed item \<Longrightarrow> group_item E server item state =
     (let uri = loc_uri (cdiag_location item) in
      (AList.update uri (group_at (fst state) uri @
         [protocolDiagnosticFromCompiler item (locationContentLocked E server (cdiag_location item))]) (fst state), snd state))"
  "\<not> placed item \<Longrightarrow> group_item E server item state = (fst state, snd state @ [cdiag_message item])"
  by (simp_all add: group_item_def Let_def split: prod.split)

lemma grouped_from:
  assumes "fold (group_item E server) items state = (groups, global)"
  shows "group_at groups uri = group_at (fst state) uri @
      map (\<lambda>item. protocolDiagnosticFromCompiler item (locationContentLocked E server (cdiag_location item)))
        (filter (\<lambda>item. placed item \<and> loc_uri (cdiag_location item) = uri) items)"
    and "global = snd state @ map cdiag_message (filter (\<lambda>item. \<not> placed item) items)"
    and "fst ` set groups = fst ` set (fst state) \<union> {loc_uri (cdiag_location item) |item. item \<in> set items \<and> placed item}"
  using assms
proof (induction items arbitrary: state)
  case (Cons item items)
  {
    case 1
    then show ?case using Cons.IH(1) [of "group_item E server item state"] by (cases "placed item") (simp_all add: Let_def)
  next
    case 2
    then show ?case using Cons.IH(2) [of "group_item E server item state"] by (cases "placed item") (simp_all add: Let_def)
  next
    case 3
    then show ?case using Cons.IH(3) [of "group_item E server item state"] by (cases "placed item") (auto simp: Let_def dom_update)
  }
qed auto

lemma grouped_facts:
  assumes "grouped E server result = (groups, global)"
  shows "group_at groups uri = diagnostics_at E server result uri"
    and "global = map cdiag_message (filter (\<lambda>item. \<not> placed item) (result_diagnostics result))"
    and "fst ` set groups = diagnosed result"
  using grouped_from [OF assms [unfolded grouped_def]] by (auto simp: diagnostics_at_def diagnosed_def group_at_def)

lemma append_absent_set: "set (fold append_absent added uris) = set uris \<union> set added"
  by (induction added arbitrary: uris) (auto simp: append_absent_def)

lemma publication_uris_set: "set (publication_uris ws groups) = set (ws_published ws) \<union> set (ws_documents ws) \<union> fst ` set groups"
  by (auto simp: publication_uris_def mapKeys_def append_absent_set)

lemma publication_uris_distinct: "distinct (ws_published ws) \<Longrightarrow> distinct (publication_uris ws groups)"
proof -
  have "distinct (fold append_absent added uris)" if "distinct uris" for added uris :: "string list"
    using that by (induction added arbitrary: uris) (auto simp: append_absent_def)
  then show "distinct (ws_published ws) \<Longrightarrow> ?thesis" by (simp add: publication_uris_def mapKeys_def)
qed

lemma diagnostics_diagnosed: "diagnostics_at E server result uri \<noteq> [] \<longleftrightarrow> uri \<in> diagnosed result"
  by (auto simp: diagnostics_at_def diagnosed_def filter_empty_conv)

lemma publish_all:
  "fold publish (map (\<lambda>uri. \<lparr>pub_uri = uri, pub_version = v uri, pub_diagnostics = d uri\<rparr>) uris) client =
     (\<lambda>uri. if uri \<in> set uris then d uri else client uri)"
  by (induction uris arbitrary: client) (auto simp: publish_def)

section \<open>Runs\<close>

fun lsp_run :: "unicode_tables \<Rightarrow> lsp_environment \<Rightarrow> lsp_action list \<Rightarrow> lsp_system \<Rightarrow> lsp_system option" where
  "lsp_run U E [] sys = Some sys"
| "lsp_run U E (action # actions) sys =
     (case lsp_perform U E action sys of None \<Rightarrow> None | Some sys' \<Rightarrow> lsp_run U E actions sys')"

lemma lsp_run_reachable: "lsp_reachable U E limit sys \<Longrightarrow> lsp_run U E actions sys = Some sys' \<Longrightarrow> lsp_reachable U E limit sys'"
  by (induction actions arbitrary: sys) (auto split: option.splits intro: lsp_step)

lemma lsp_run_steady:
  "lsp_steady U E limit sys \<Longrightarrow> lsp_run U E actions sys = Some sys' \<Longrightarrow> list_all keeps_folders actions \<Longrightarrow> lsp_steady U E limit sys'"
  by (induction actions arbitrary: sys) (auto split: option.splits intro: steady_step)

text \<open>A machine whose URIs are paths, with one module in \<open>/w\<close>.\<close>

definition plain_environment :: lsp_environment where
  "plain_environment = \<lparr>env_parse = (\<lambda>uri. Inr \<lparr>url_scheme = [], url_host = [], url_path = uri\<rparr>), env_url = (\<lambda>path. path),
     env_working = Inr ''/'',
     env_stat = (\<lambda>path. if path = ''/w'' then StatDirectory else if path = ''/w/go.mod'' then StatRegular 9
       else StatMissing ''file does not exist''),
     env_read = (\<lambda>path. Inl ''file does not exist''), env_service = (\<lambda>d. None)\<rparr>"

definition plain_server :: lsp_server where
  "plain_server = \<lparr>srv_limit = 100, srv_initialized = False, srv_shutdown = False, srv_closing = False,
     srv_settings = no_settings, srv_workspaces = [], srv_documents = []\<rparr>"

definition plain_item :: "string \<Rightarrow> text_document_item" where
  "plain_item uri = \<lparr>item_uri = uri, item_language = ''go'', item_version = 1, item_text = ''package p''\<rparr>"

definition plain_problem :: "string \<Rightarrow> compiler_diagnostic" where
  "plain_problem uri = (let p = \<lparr>cpos_line = 1, cpos_column = 1, cpos_offset = 0\<rparr>
     in \<lparr>cdiag_code = ''spice.compiler.unknown'', cdiag_severity = ''error'', cdiag_message = ''broken'',
         cdiag_location = \<lparr>loc_uri = uri, loc_path = uri, loc_range = \<lparr>crange_start = p, crange_end = p\<rparr>\<rparr>, cdiag_related = []\<rparr>)"

definition plain_result :: "string list \<Rightarrow> analysis_result" where
  "plain_result uris = \<lparr>result_ready = (uris = []), result_diagnostics = map plain_problem uris\<rparr>"

definition plain_workspace :: lsp_workspace where
  "plain_workspace = \<lparr>ws_root = ''/w'', ws_uri = ''/w'', ws_sequence = 1, ws_timer = False, ws_cancel = False, ws_latest = None,
     ws_good = None, ws_settings = no_settings, ws_published = [], ws_documents = [''/w/a.go'']\<rparr>"

definition opened_run :: "lsp_action list" where
  "opened_run = [Initialize None [''/w''] [] [], DidOpen (plain_item ''/w/a.go''), TimerFires 0]"


definition reopened_run :: "lsp_action list" where
  "reopened_run = opened_run @ [FolderRemoved ''/w'', FolderAdded ''/w'', DidOpen (plain_item ''/w/b.go'')]"

definition after_run :: "lsp_action list \<Rightarrow> lsp_system" where
  "after_run actions = the (lsp_run latin_only plain_environment actions (start_system plain_server))"

lemma plain_start: "New_server 0 (int 100) True = Inr plain_server"
  by (simp add: New_server_def plain_server_def)

lemma after_run_reachable:
  "lsp_run latin_only plain_environment actions (start_system plain_server) \<noteq> None \<Longrightarrow>
     lsp_reachable latin_only plain_environment 100 (after_run actions)"
  using lsp_run_reachable [OF lsp_start [OF plain_start]] by (auto simp: after_run_def)

lemma after_run_steady:
  "lsp_run latin_only plain_environment actions (start_system plain_server) \<noteq> None \<Longrightarrow> list_all keeps_folders actions \<Longrightarrow>
     lsp_steady latin_only plain_environment 100 (after_run actions)"
  using lsp_run_steady [OF steady_start [OF plain_start]] by (auto simp: after_run_def)

section \<open>Forgotten diagnostics\<close>
























text \<open>What the message handler is to write.\<close>

definition unspoken :: "string \<Rightarrow> lsp_effect list \<Rightarrow> bool" where
  "unspoken uri effects = (\<forall>p. Publish p \<in> set effects \<longrightarrow> pub_uri p \<noteq> uri)"



lemma unspoken_message [simp]: "unspoken uri []" "unspoken uri [show_error e]"
  by (simp_all add: unspoken_def show_error_def)









section \<open>Properties\<close>

text \<open>
  C9. As long as no workspace folder is removed, an analysis result that the server accepts was computed
  from the present version and text of every document that is open in its workspace, whatever was edited,
  saved, opened or closed while the analysis ran.
\<close>
theorem accepted_result_current:
  assumes "lsp_steady U E limit sys" "(key, snapshot) \<in> set (sys_running sys)" "accepts key snapshot (sys_server sys)"
  shows "\<exists>ws. workspace_at (sys_server sys) key = Some ws \<and>
    (\<forall>uri \<in> set (ws_documents ws). \<exists>doc. document_at (sys_server sys) uri = Some doc \<and>
       map_of (snap_overlay snapshot) uri = Some (doc_version doc, doc_content doc))"
proof -
  have "tracked (sys_server sys) (key, snapshot)" using steady_inv [OF assms(1)] assms(2) by (auto simp: lsp_inv_def)
  then show ?thesis using assms(3) by (auto simp: tracked_def accepts_def covers_def)
qed

theorem accepted_result_current_witness:
  "\<exists>ws. workspace_at (sys_server (after_run opened_run)) ''/w'' = Some ws \<and>
    (\<forall>uri \<in> set (ws_documents ws). \<exists>doc. document_at (sys_server (after_run opened_run)) uri = Some doc \<and>
       map_of (snap_overlay (snd (sys_running (after_run opened_run) ! 0))) uri = Some (doc_version doc, doc_content doc))"
proof (rule accepted_result_current)
  have "\<not> Option.is_none (lsp_run latin_only plain_environment opened_run (start_system plain_server))" by code_simp
  moreover have "list_all keeps_folders opened_run" by code_simp
  ultimately show "lsp_steady latin_only plain_environment 100 (after_run opened_run)"
    by (intro after_run_steady) (auto simp: Option.is_none_def)
  have "length (sys_running (after_run opened_run)) = 1 \<and> fst (sys_running (after_run opened_run) ! 0) = ''/w''" by code_simp
  then show "(''/w'', snd (sys_running (after_run opened_run) ! 0)) \<in> set (sys_running (after_run opened_run))"
    by (metis nth_mem prod.collapse zero_less_one)
  show "accepts ''/w'' (snd (sys_running (after_run opened_run) ! 0)) (sys_server (after_run opened_run))" by code_simp
qed

text \<open>
  C10. Written in full, the publications of a result make the client show, for every document that is open
  in the workspace, recorded as published or named by the result, exactly the result's diagnostics of it in
  their order; no other document is touched.  Afterwards the documents recorded as
  published are those the result has diagnostics for, a document is published once and with the version that is open,
  and the diagnostics that have no place become messages.
\<close>
theorem publications_complete:
  assumes "publicationsLocked E server ws result = (ws', publications, messages)"
  shows "fold publish publications client =
      (\<lambda>uri. if uri \<in> set (ws_published ws) \<union> set (ws_documents ws) \<union> diagnosed result
             then diagnostics_at E server result uri else client uri) \<and>
    set (ws_published ws') = diagnosed result \<and>
    (distinct (ws_published ws) \<longrightarrow> distinct (map pub_uri publications)) \<and>
    (\<forall>p \<in> set publications. pub_version p = map_option doc_version (document_at server (pub_uri p))) \<and>
    messages = map cdiag_message (filter (\<lambda>item. \<not> placed item) (result_diagnostics result))"
proof -
  obtain groups global where g: "grouped E server result = (groups, global)" by fastforce
  note facts = grouped_facts [OF g]
  let ?uris = "publication_uris ws groups"
  have p: "publications = map (\<lambda>uri. \<lparr>pub_uri = uri, pub_version = map_option doc_version (document_at server uri),
      pub_diagnostics = diagnostics_at E server result uri\<rparr>) ?uris"
    and w: "ws_published ws' = filter (\<lambda>uri. diagnostics_at E server result uri \<noteq> []) ?uris" and m: "messages = global"
    using assms g facts(1) by (auto simp: publicationsLocked_def Let_def)
  have "set (ws_published ws') = diagnosed result"
    unfolding w set_filter publication_uris_set facts(3) using diagnostics_diagnosed by auto
  moreover have "distinct (map pub_uri publications)" if "distinct (ws_published ws)"
    using that by (simp add: p comp_def publication_uris_distinct)
  ultimately show ?thesis
    using facts(2) by (auto simp: p m publish_all publication_uris_set facts(3))
qed

theorem publications_complete_witness:
  "case publicationsLocked plain_environment plain_server plain_workspace (plain_result [''/w/b.go'']) of
     (ws, publications, messages) \<Rightarrow>
       fold publish publications (\<lambda>uri. []) ''/w/b.go'' =
         diagnostics_at plain_environment plain_server (plain_result [''/w/b.go'']) ''/w/b.go'' \<and>
       set (ws_published ws) = {''/w/b.go''}"
proof -
  obtain ws publications messages where p: "publicationsLocked plain_environment plain_server plain_workspace (plain_result [''/w/b.go'']) =
      (ws, publications, messages)" by (metis prod_cases3)
  have "diagnosed (plain_result [''/w/b.go'']) = {''/w/b.go''}"
    by (auto simp: diagnosed_def plain_result_def plain_problem_def placed_def Let_def)
  then show ?thesis unfolding p prod.case using publications_complete [OF p, of "\<lambda>uri. []"] by simp
qed



text \<open>
  C40. Removing a workspace folder and adding it again restarts its sequence numbers: there is a run in
  which the result of an analysis of the removed workspace is accepted for the new one although the document
  that is open there was not part of the analysis.
\<close>
theorem reopened_folder_accepts_old_result:
  "\<exists>sys key snapshot ws uri. lsp_reachable latin_only plain_environment 100 sys \<and> (key, snapshot) \<in> set (sys_running sys) \<and>
     accepts key snapshot (sys_server sys) \<and> workspace_at (sys_server sys) key = Some ws \<and> uri \<in> set (ws_documents ws) \<and>
     map_of (snap_overlay snapshot) uri = None"
proof -
  let ?s = "after_run reopened_run"
  let ?r = "sys_running ?s ! 0"
  have "\<not> Option.is_none (lsp_run latin_only plain_environment reopened_run (start_system plain_server))" by code_simp
  then have "lsp_reachable latin_only plain_environment 100 ?s" by (intro after_run_reachable) (auto simp: Option.is_none_def)
  moreover have "length (sys_running ?s) = 1" by code_simp
  then have "(fst ?r, snd ?r) \<in> set (sys_running ?s)" by simp
  moreover have "accepts (fst ?r) (snd ?r) (sys_server ?s)" by code_simp
  moreover have "map_of (snap_overlay (snd ?r)) ''/w/b.go'' = None" by code_simp
  moreover have "map_option ws_documents (workspace_at (sys_server ?s) (fst ?r)) = Some [''/w/b.go'']" by code_simp
  then have "\<exists>ws. workspace_at (sys_server ?s) (fst ?r) = Some ws \<and> ''/w/b.go'' \<in> set (ws_documents ws)" by auto
  ultimately show ?thesis by blast
qed

end
