(* ===== verification/Spec2Isabelle.thy ===== *)
theory Spec2Isabelle
  imports
    Parser_Soundness Graph_Build Watch_Pipeline Engine_Properties Fingerprint Gen_Sample Generated_Names Modulith_Sample
    Lsp_Tokens Lsp_Framing Lsp_Properties
begin

text \<open>
  Verification of the Spice toolchain, a compile-time dependency injection compiler for Go with a
  generator, a development loop and a language server.

  \<^bold>\<open>The program.\<close>  Annotations are written in line comments (\<open>// @Service(name = "x")\<close>) and enabled by
  import directives.  The compiler parses them (\<open>src/compiler/parser\<close>), resolves them against loaded
  packages, finds the providers of the application (\<open>src/compiler/provider\<close>), connects every
  constructor parameter to the providers of its type and orders their construction
  (\<open>src/compiler/graph\<close>).  It checks which modules of the application may import which
  (\<open>src/compiler/modulith\<close>).  The generator turns the result into a plan of source files
  (\<open>src/compiler/generate\<close>), which the guarded file system compares with the module on disk and applies
  (\<open>src/internal/genfs\<close>).  \<open>spice dev\<close> watches the sources, debounces their changes, rebuilds and
  replaces the running application (\<open>src/internal/devloop\<close>).  The language server keeps the
  documents of an editor, analyses them in the background and publishes diagnostics
  (\<open>src/internal/lsp\<close>).

  \<^bold>\<open>Shared theories.\<close>
  \<^item> Prelude: results with errors, positions, string helpers, Go's comparator-driven
    sorting; the locale \<open>comparator\<close> and its extension \<open>keyed_comparator\<close> are the contract of a
    \<open>less\<close> function, interpreted for every comparator of the toolchain.
  \<^item> Go_Text: byte strings, UTF-8 decoding, quoting, integers of \<open>strconv\<close>; Text_Laws: their round trips.
  \<^item> Go_Path: \<open>path\<close> and \<open>path/filepath\<close> with \<open>path.Match\<close>; Plain_Path: paths made of plain names.
  \<^item> Go_Types: the types of \<open>go/types\<close> that the graph compares; Go_Error: wrapped errors and \<open>errors.Is\<close>.

  \<^bold>\<open>Parsers\<close> (\<open>parser.go\<close>, \<open>import.go\<close>).  Comment_Cursor is the scanner that the two parsers of
  Annotation_Parser and Import_Parser move over a line, one definition for each method.
  Parser_Roundtrip: printing an annotation with any blanks and parsing it gives the annotation back.
  Parser_Soundness: whatever is accepted is well formed and taken from its line.

  \<^bold>\<open>Provider graph\<close> (\<open>model.go\<close>, \<open>build.go\<close>).  Provider_Graph holds providers, the type index and
  the selection of candidates; Graph_Selection shows what the index returns for types whose key does not
  depend on their spelling; Graph_Connect refines the stateful connection of the
  catalog to the resolution of each parameter.  Graph_Scc and Graph_Scc_Correct are Tarjan's algorithm
  and its correctness.  Ready_Queue is \<open>container/heap\<close> with the locale \<open>min_queue\<close> as its
  contract; Construction_Order uses the heap through it.  Graph_Build composes \<open>Build\<close>: without
  diagnostics every parameter is resolved and the order is complete, and a cycle is reported exactly
  when there is one.

  \<^bold>\<open>Application modules\<close> (\<open>modulith.go\<close>).  Modulith holds the discovery of modules, owners,
  interfaces and import edges; Module_Order the order of a focused model, Module_Scc the components,
  by a simulation with Graph_Scc, and Module_Cycle the cycle that is shown.  Modulith_Stages says what
  each stage keeps; Modulith_Laws that every forbidden import and nothing else is reported, with the kind and the
  names it has, that the cycles are reported, that the
  longest root owns a package and that a focused model is complete; Modulith_Sample runs it.

  \<^bold>\<open>Development loop.\<close>  Debounce (\<open>types.go\<close>, \<open>debounce.go\<close>) equals a reference coalescing
  of the burst, stated in the locale \<open>change_buffer\<close>.  Path_Filter (\<open>filter.go\<close>) decides the declarative
  meaning of patterns; with recursive excludes a directory with a relevant file is skipped only if it is ignored by default.  Polling (\<open>polling.go\<close>) is the bounded scan; Watch_Pipeline joins it with the
  debouncer: a batch tells the truth about the files.  Dev_Engine (\<open>engine.go\<close>) is the event loop with
  its goroutines as a step relation; Engine_Invariants and Engine_Properties show in every interleaving
  who owns a candidate, that artifacts outlive their processes and that nothing is left after the end.
  Fingerprint (\<open>fingerprint.go\<close>) ignores function bodies and nothing else.

  \<^bold>\<open>Guarded generation\<close> (\<open>genfs.go\<close>, data of \<open>generate.go\<close>).  Gen_Plan and Gen_Manifest hold plans,
  paths and manifests; Gen_FS a tree with symbolic links below an \<open>os.Root\<close>, as a state monad in which
  every system call may fail, with weakest-precondition rules; Gen_Files the locked, temporary and
  replacing file operations; Gen_Inspect, Gen_Apply and Gen_Diff the three uses of a plan.  Gen_Frame
  says what the operations leave alone, Gen_Inspect_Laws what an inspection knows (the
  locale \<open>inspection_loop\<close> serves its five loops), Gen_Protect that files of the user survive any
  faults, Gen_Success what a successful application leaves, Gen_Again that a second one does nothing.
  Gen_Sample evaluates a small module.  Generated_Names (\<open>naming.go\<close>): the variables of the generated
  constructor are identifiers and distinct as long as no name ends in a digit.

  \<^bold>\<open>Language server.\<close>  Lsp_Position (\<open>features.go\<close>, \<open>analysis.go\<close>): UTF-16 positions and byte offsets
  correspond one to one.  Lsp_Tokens (\<open>semantic.go\<close>): the tokens of a document are ordered, cover whole runes of
  their lines and survive their encoding in 32-bit words.  Lsp_Framing (\<open>protocol.go\<close>): framed messages are read back, reading ends.
  Lsp_Files and Lsp_Server (\<open>server.go\<close>, \<open>analysis.go\<close>): URIs, module roots, workspaces, documents, scheduling, acceptance
  of results and publication; Lsp_Analysis composes them with timers and goroutines;
  Lsp_Properties: an accepted result is computed from the present documents, and publications that are
  written in full show exactly its diagnostics.

  \<^bold>\<open>Choices and bounds.\<close>  Every loop is a terminating function.  One has a bound of its own: the loop that empties the
  ready queue (\<open>order_loop\<close>) takes the number of providers, and Construction_Order shows that this is enough, since each round
  takes one provider out.  Where the
  code bounds a loop the model has that bound (eight symbolic links of a path, ten names of a
  temporary file, 64 header lines).  Revisions of the development loop are 64-bit words, and the engine
  steps while the revision has not wrapped around; sequence numbers of the language server are natural
  numbers.  Semantic tokens are encoded in 32-bit words.  Times are integers.  Faults
  of the file system are a list that each call consumes.  The Unicode tables,
  SHA-256, random bytes, \<open>encoding/json\<close>, \<open>net/url\<close>, \<open>go/parser\<close> and the operating system are
  parameters, so the theorems hold for all of them.  Maps whose order is visible are association
  lists.  The slash-separated systems are modelled, not Windows.

  \<^bold>\<open>Flaws of the code that the development shows.\<close>  Some are theorems on all states of a certain
  form, with a run that gets there as the witness: an outdated replacement cancels the current one, whose revision is then lost
  (Engine_Properties); a publication that is given up leaves the diagnostics of a closed file for good
  (Lsp_Properties); the type index misses identical types that print differently (Graph_Build); generated variables collide
  with each other or with a parameter of the constructor (Generated_Names).  The others are single runs:
  a failed candidate is not disposed (Engine_Properties), a skipped directory hides a relevant file (Path_Filter), a result of a
  removed workspace is accepted by its successor (Lsp_Properties).

  \<^bold>\<open>Not modelled.\<close>  Package loading, provider discovery and the feature passes of the compiler
  work on typed Go syntax and would need \<open>go/ast\<close> and \<open>go/types\<close> in full; their results are the inputs of
  the modelled parts.  The rendering of Go and OpenAPI text needs a semantics of Go.  The editor's
  queries (completion, hover, navigation, code actions) read those results.  The
  command line, annotation tools as processes, scaffolding and the release tooling are operating
  system and network.
\<close>

end
